(* ===== verification/Prelude.thy ===== *)
theory Prelude
  imports Main "HOL-Library.Signed_Division" "HOL-Library.Monad_Syntax"
begin

section \<open>Shared vocabulary: C integers, C arrays, loops with a result\<close>

text \<open>
  Conventions of the whole library.

  \<^item> A C function that reads or writes the device state is a HOL function into \<open>option\<close>:
    \<open>Some (r, s')\<close> is a normal return of \<open>r\<close> with the state \<open>s'\<close>, \<open>None\<close> stands for a
    call that does not return normally (a null or out-of-range dereference, a read of an
    uninitialised pointer, \<open>exit\<close>, or a loop that never ends).
  \<^item> Signed C integers are \<open>int\<close> (their overflow is undefined in C); the narrow or unsigned
    ones wrap, and each place where the code stores into one writes the wrap out with \<open>s8\<close>,
    \<open>s16\<close>, \<open>u32\<close> or \<open>u64\<close>.
  \<^item> Division and remainder of signed values truncate: \<open>sdiv\<close> and \<open>smod\<close> of the library.
\<close>

named_theorems cint \<open>evaluation of the C integer conversions in range\<close>
named_theorems cmem \<open>array accesses that are in range\<close>
named_theorems frame \<open>which part of the state an operation leaves alone\<close>

subsection \<open>Integer conversions\<close>

definition s8 :: "int \<Rightarrow> int" where
  "s8 x = (x + 2 ^ 7) mod 2 ^ 8 - 2 ^ 7"

definition s16 :: "int \<Rightarrow> int" where
  "s16 x = (x + 2 ^ 15) mod 2 ^ 16 - 2 ^ 15"

definition s32 :: "int \<Rightarrow> int" where
  "s32 x = (x + 2 ^ 31) mod 2 ^ 32 - 2 ^ 31"

definition s64 :: "int \<Rightarrow> int" where
  "s64 x = (x + 2 ^ 63) mod 2 ^ 64 - 2 ^ 63"

definition u32 :: "int \<Rightarrow> int" where
  "u32 x = x mod 2 ^ 32"

definition u64 :: "int \<Rightarrow> int" where
  "u64 x = x mod 2 ^ 64"

subsection \<open>Double precision\<close>

text \<open>
  \<open>dbl n\<close> is the value of \<open>(double) n\<close> for a non-negative integer \<open>n\<close>: 53 significant bits, rounded to
  nearest, ties to even. It is exact below \<open>2 ^ 53\<close>.
\<close>

fun bitlen :: "nat \<Rightarrow> nat" where
  "bitlen n = (if n = 0 then 0 else Suc (bitlen (n div 2)))"

declare bitlen.simps [simp del]

definition round_half_even :: "int \<Rightarrow> int \<Rightarrow> int" where
  "round_half_even a b =
     (let q = a div b; r = a mod b
      in if 2 * r < b then q else if b < 2 * r then q + 1 else if even q then q else q + 1)"

definition dbl :: "int \<Rightarrow> int" where
  "dbl n =
     (let e = bitlen (nat n) - 53
      in if e = 0 then n else round_half_even n (2 ^ e) * 2 ^ e)"

subsection \<open>Array accesses\<close>

definition cread :: "'a list \<Rightarrow> int \<Rightarrow> 'a option" where
  "cread xs i = (if 0 \<le> i \<and> i < int (length xs) then Some (xs ! nat i) else None)"

definition cwrite :: "'a list \<Rightarrow> int \<Rightarrow> 'a \<Rightarrow> 'a list option" where
  "cwrite xs i v = (if 0 \<le> i \<and> i < int (length xs) then Some (xs[nat i := v]) else None)"

subsection \<open>Loops whose body may fail\<close>

text \<open>\<open>foldM f xs s\<close> runs the body \<open>f\<close> for every element of \<open>xs\<close>, from the left.\<close>

fun foldM :: "('a \<Rightarrow> 's \<Rightarrow> 's option) \<Rightarrow> 'a list \<Rightarrow> 's \<Rightarrow> 's option" where
  "foldM f [] s = Some s"
| "foldM f (x # xs) s = do { s' \<leftarrow> f x s; foldM f xs s' }"

text \<open>The index list of \<open>for (i = 0; i < n; i++)\<close> for a C \<open>int\<close> bound.\<close>

definition cupto :: "int \<Rightarrow> int list" where
  "cupto n = map int [0..<nat n]"

section \<open>Lemmas\<close>

subsection \<open>Conversions in range\<close>

lemma s8_id [cint]: "- 128 \<le> x \<Longrightarrow> x \<le> 127 \<Longrightarrow> s8 x = x"
  by (simp add: s8_def)

lemma s8_range: "- 128 \<le> s8 x" "s8 x \<le> 127"
proof -
  have "0 \<le> (x + 2 ^ 7) mod 2 ^ 8" "(x + 2 ^ 7) mod 2 ^ 8 < (2 ^ 8 :: int)"
    by (rule pos_mod_sign, simp) (rule pos_mod_bound, simp)
  then show "- 128 \<le> s8 x" "s8 x \<le> 127"
    by (simp_all add: s8_def)
qed

lemma s8_128 [cint]: "s8 128 = - 128"
  by (simp add: s8_def)

lemma s16_id [cint]: "- 32768 \<le> x \<Longrightarrow> x \<le> 32767 \<Longrightarrow> s16 x = x"
  by (simp add: s16_def)

lemma s32_id [cint]: "- (2 ^ 31) \<le> x \<Longrightarrow> x < 2 ^ 31 \<Longrightarrow> s32 x = x"
  by (simp add: s32_def)

lemma s64_id [cint]: "- (2 ^ 63) \<le> x \<Longrightarrow> x < 2 ^ 63 \<Longrightarrow> s64 x = x"
  by (simp add: s64_def)

lemma u32_id [cint]: "0 \<le> x \<Longrightarrow> x < 2 ^ 32 \<Longrightarrow> u32 x = x"
  by (simp add: u32_def)

lemma u32_range [simp]: "0 \<le> u32 x" "u32 x < 2 ^ 32"
  by (simp_all add: u32_def)

lemma u32_mod [cint]:
  assumes "0 < b" "b \<le> 2 ^ 31"
  shows "u32 (x mod b) = x mod b"
proof -
  have "x mod b < b" "0 \<le> x mod b" using assms(1) by simp_all
  then show ?thesis using assms(2) by (simp add: u32_def)
qed

lemma u64_id [cint]: "0 \<le> x \<Longrightarrow> x < 2 ^ 64 \<Longrightarrow> u64 x = x"
  by (simp add: u64_def)

lemma u64_range [simp]: "0 \<le> u64 x" "u64 x < 2 ^ 64"
  by (simp_all add: u64_def)

lemma u64_idem [simp]: "u64 (u64 x) = u64 x"
  by (simp add: u64_def)

lemma u64_add [simp]: "u64 (u64 x + y) = u64 (x + y)" "u64 (x + u64 y) = u64 (x + y)"
  by (simp_all add: u64_def mod_add_left_eq mod_add_right_eq)

lemma u64_diff [simp]: "u64 (u64 x - y) = u64 (x - y)" "u64 (x - u64 y) = u64 (x - y)"
  by (simp_all add: u64_def mod_diff_left_eq mod_diff_right_eq)

lemma u32_add [simp]: "u32 (u32 x + y) = u32 (x + y)" "u32 (x + u32 y) = u32 (x + y)"
  by (simp_all add: u32_def mod_add_left_eq mod_add_right_eq)

lemma u32_diff [simp]: "u32 (u32 x - y) = u32 (x - y)" "u32 (x - u32 y) = u32 (x - y)"
  by (simp_all add: u32_def mod_diff_left_eq mod_diff_right_eq)

lemma bitlen_le: "n < 2 ^ k \<Longrightarrow> bitlen n \<le> k"
proof (induction n arbitrary: k rule: bitlen.induct)
  case (1 n)
  show ?case
  proof (cases "n = 0")
    case False
    then obtain j where k: "k = Suc j" using "1.prems" by (cases k) auto
    then have "n div 2 < 2 ^ j" using "1.prems" by simp
    from "1.IH" [OF False this] False show ?thesis by (simp add: bitlen.simps [of n] k)
  qed (simp add: bitlen.simps)
qed

lemma dbl_id [cint]: "0 \<le> n \<Longrightarrow> n < 2 ^ 53 \<Longrightarrow> dbl n = n"
  using bitlen_le [of "nat n" 53] by (simp add: dbl_def nat_less_iff)

subsection \<open>Truncating division of non-negative values\<close>

lemma sdiv_nonneg: "0 \<le> a \<Longrightarrow> 0 < b \<Longrightarrow> a sdiv b = a div (b :: int)"
  by (cases "a = 0") (simp_all add: signed_divide_int_def)

lemma smod_nonneg: "0 \<le> a \<Longrightarrow> 0 < b \<Longrightarrow> a smod b = a mod (b :: int)"
  by (cases "a = 0") (simp_all add: signed_modulo_int_def)

lemma sdiv_minus_one: "1 < b \<Longrightarrow> (- 1) sdiv b = (0 :: int)"
  by (simp add: signed_divide_int_def)

lemma div_lt_of_lt_mult:
  fixes a b c :: int
  assumes "0 < b" "a < c * b"
  shows "a div b < c"
proof (rule ccontr)
  assume "\<not> a div b < c"
  then have "c * b \<le> a div b * b"
    using assms(1) by (simp add: mult_right_mono)
  also have "\<dots> \<le> a"
    using assms(1) by (simp add: minus_mod_eq_div_mult [symmetric])
  finally show False using assms(2) by simp
qed

subsection \<open>Accesses in range\<close>

lemma cread_Some [cmem]: "0 \<le> i \<Longrightarrow> i < int (length xs) \<Longrightarrow> cread xs i = Some (xs ! nat i)"
  by (simp add: cread_def)

lemma cread_eq_Some_iff: "cread xs i = Some v \<longleftrightarrow> 0 \<le> i \<and> i < int (length xs) \<and> v = xs ! nat i"
  by (auto simp: cread_def)

lemma cread_eq_None_iff: "cread xs i = None \<longleftrightarrow> i < 0 \<or> int (length xs) \<le> i"
  by (auto simp: cread_def)

lemma cwrite_Some [cmem]: "0 \<le> i \<Longrightarrow> i < int (length xs) \<Longrightarrow> cwrite xs i v = Some (xs[nat i := v])"
  by (simp add: cwrite_def)

lemma cwrite_eq_Some_iff:
  "cwrite xs i v = Some ys \<longleftrightarrow> 0 \<le> i \<and> i < int (length xs) \<and> ys = xs[nat i := v]"
  by (auto simp: cwrite_def)

lemma cwrite_length: "cwrite xs i v = Some ys \<Longrightarrow> length ys = length xs"
  by (auto simp: cwrite_eq_Some_iff)

lemma cread_cwrite: "cwrite xs i v = Some ys \<Longrightarrow> cread ys j = (if j = i then Some v else cread xs j)"
  by (auto simp: cwrite_eq_Some_iff cread_def nth_list_update nat_eq_iff)

subsection \<open>Loops\<close>

lemma foldM_append: "foldM f (xs @ ys) s = do { s' \<leftarrow> foldM f xs s; foldM f ys s' }"
proof (induction xs arbitrary: s)
  case (Cons x xs)
  then show ?case by (cases "f x s") simp_all
qed simp

text \<open>
  The loop rule: an invariant indexed by the iterations already done, established at the start
  and carried over each body, which must return.
\<close>

lemma foldM_rule:
  assumes "P [] s"
    and "\<And>ys x zs s. xs = ys @ x # zs \<Longrightarrow> P ys s \<Longrightarrow> \<exists>s'. f x s = Some s' \<and> P (ys @ [x]) s'"
  shows "\<exists>s'. foldM f xs s = Some s' \<and> P xs s'"
proof -
  have "\<exists>s'. foldM f zs s = Some s' \<and> P (ys @ zs) s'" if "xs = ys @ zs" "P ys s" for ys zs s
    using that
  proof (induction zs arbitrary: ys s)
    case Nil
    then show ?case by simp
  next
    case (Cons z zs)
    from assms(2) [OF Cons.prems] obtain s' where s': "f z s = Some s'" "P (ys @ [z]) s'"
      by blast
    have "xs = (ys @ [z]) @ zs"
      using Cons.prems(1) by simp
    from Cons.IH [OF this s'(2)] s'(1) show ?case by simp
  qed
  from this [of "[]" xs s] assms(1) show ?thesis by simp
qed

lemma cupto_nth_prefix: "cupto n = ys @ x # zs \<Longrightarrow> x = int (length ys) \<and> 0 \<le> x \<and> x < n \<and> ys = cupto x"
proof -
  assume eq: "cupto n = ys @ x # zs"
  have len: "length ys < nat n"
    using arg_cong [OF eq, of length] by (simp add: cupto_def)
  have x: "x = int (length ys)"
    using arg_cong [OF eq, of "\<lambda>l. l ! length ys"] len by (simp add: cupto_def nth_append)
  have "ys = take (length ys) (cupto n)"
    using eq by simp
  also have "\<dots> = map int [0..<length ys]"
    using len by (simp add: cupto_def take_map min_def)
  finally have "ys = cupto x"
    using x by (simp add: cupto_def)
  with x len show ?thesis by simp
qed

lemma set_cupto [simp]: "set (cupto n) = {0..<n}"
proof -
  have "int ` {0..<nat n} = {0..<n}"
    by (auto simp: image_iff intro!: bexI [of _ "nat _"])
  then show ?thesis by (simp add: cupto_def)
qed

lemma length_cupto [simp]: "length (cupto n) = nat n"
  by (simp add: cupto_def)

text \<open>The same rule for a counting loop: the invariant speaks of the loop counter.\<close>

lemma for_rule:
  assumes "0 \<le> n" "Q 0 s"
    and "\<And>i s. 0 \<le> i \<Longrightarrow> i < n \<Longrightarrow> Q i s \<Longrightarrow> \<exists>s'. f i s = Some s' \<and> Q (i + 1) s'"
  shows "\<exists>s'. foldM f (cupto n) s = Some s' \<and> Q n s'"
proof -
  have "\<exists>s'. foldM f (cupto n) s = Some s' \<and> Q (int (length (cupto n))) s'"
  proof (rule foldM_rule)
    show "Q (int (length ([] :: int list))) s"
      using assms(2) by simp
  next
    fix ys x zs s
    assume "cupto n = ys @ x # zs" and Q: "Q (int (length ys)) s"
    then have "x = int (length ys)" "0 \<le> x" "x < n"
      using cupto_nth_prefix by blast+
    with Q assms(3) [of x s] show "\<exists>s'. f x s = Some s' \<and> Q (int (length (ys @ [x]))) s'"
      by (simp add: add.commute)
  qed
  then show ?thesis using assms(1) by simp
qed

subsection \<open>Lists\<close>

lemma count_list_append_one: "count_list (xs @ [y]) x = count_list xs x + (if y = x then 1 else 0)"
  by (induction xs) auto

lemma count_list_remove1: "count_list (remove1 y xs) x = count_list xs x - (if y = x then 1 else 0)"
  by (induction xs) auto

lemma sum_list_update:
  fixes xs :: "int list"
  shows "i < length xs \<Longrightarrow> sum_list (xs[i := v]) = sum_list xs - xs ! i + v"
proof (induction xs arbitrary: i)
  case (Cons x xs)
  then show ?case by (cases i) auto
qed simp

lemma length_filter_update:
  "i < length xs \<Longrightarrow> int (length (filter p (xs[i := v]))) =
     int (length (filter p xs)) - of_bool (p (xs ! i)) + of_bool (p v)"
proof (induction xs arbitrary: i)
  case (Cons x xs)
  then show ?case by (cases i) auto
qed simp

text \<open>A table of rows of equal length, read as one array.\<close>

lemma length_concat_uniform: "\<forall>ys \<in> set xss. length ys = n \<Longrightarrow> length (concat xss) = length xss * n"
  by (induction xss) auto

lemma nth_concat_uniform:
  "\<forall>ys \<in> set xss. length ys = n \<Longrightarrow> q < length xss \<Longrightarrow> r < n \<Longrightarrow> concat xss ! (q * n + r) = xss ! q ! r"
proof (induction xss arbitrary: q)
  case (Cons xs xss)
  then show ?case by (cases q) (auto simp: nth_append)
qed simp

lemma concat_update_uniform:
  "\<forall>ys \<in> set xss. length ys = n \<Longrightarrow> q < length xss \<Longrightarrow> r < n \<Longrightarrow>
     concat (xss[q := (xss ! q)[r := v]]) = (concat xss)[q * n + r := v]"
proof (induction xss arbitrary: q)
  case (Cons xs xss)
  then show ?case by (cases q) (auto simp: list_update_append)
qed simp

lemma sum_list_max0_bound:
  "\<forall>v \<in> set rs. v \<le> (c :: int) \<Longrightarrow> 0 \<le> c \<Longrightarrow> sum_list (map (max 0) rs) \<le> c * int (length rs)"
  by (induction rs) (auto simp: algebra_simps)

lemma sum_list_max0_nonneg: "0 \<le> sum_list (map (max (0 :: int)) rs)"
  by (induction rs) auto

subsection \<open>Tables given by a function of the index\<close>

lemma cread_map_cupto: "0 \<le> i \<Longrightarrow> i < n \<Longrightarrow> cread (map g (cupto n)) i = Some (g i)"
  by (simp add: cread_def cupto_def)

lemma cwrite_map_cupto: "0 \<le> i \<Longrightarrow> i < n \<Longrightarrow> cwrite (map g (cupto n)) i v = Some (map (g(i := v)) (cupto n))"
  by (auto simp: cwrite_def cupto_def nth_list_update intro!: nth_equalityI)

lemma map_cupto_cong: "(\<And>i. 0 \<le> i \<Longrightarrow> i < n \<Longrightarrow> f i = g i) \<Longrightarrow> map f (cupto n) = map g (cupto n)"
  by (intro map_cong) auto

text \<open>A loop that rewrites every element of such a table.\<close>

lemma foldM_map_cupto:
  assumes "0 \<le> n"
    and "\<And>i h. 0 \<le> i \<Longrightarrow> i < n \<Longrightarrow> h i = g i \<Longrightarrow> f i (map h (cupto n)) = Some (map (h(i := g' i)) (cupto n))"
  shows "foldM f (cupto n) (map g (cupto n)) = Some (map g' (cupto n))"
proof -
  let ?h = "\<lambda>i j. if j < i then g' j else g j"
  have "\<exists>t. foldM f (cupto n) (map g (cupto n)) = Some t \<and> t = map (?h n) (cupto n)"
  proof (rule for_rule [where Q = "\<lambda>i t. t = map (?h i) (cupto n)"])
    show "map g (cupto n) = map (?h 0) (cupto n)" by (rule map_cupto_cong) simp
  next
    fix i t assume i: "0 \<le> i" "i < n" and t: "t = map (?h i) (cupto n)"
    have "map ((?h i)(i := g' i)) (cupto n) = map (?h (i + 1)) (cupto n)"
      by (rule map_cupto_cong) auto
    then show "\<exists>t'. f i t = Some t' \<and> t' = map (?h (i + 1)) (cupto n)"
      using assms(2) [OF i, of "?h i"] t by simp
  qed (rule assms(1))
  moreover have "map (?h n) (cupto n) = map g' (cupto n)" by (rule map_cupto_cong) simp
  ultimately show ?thesis by simp
qed

end
