(* ===== verification/SsdState.thy ===== *)
theory SsdState
  imports Prelude
begin

section \<open>Constants, configuration and state of the emulated SSD\<close>

text \<open>
  The constants of \<open>common.h\<close>, the configuration \<open>struct ssdconf\<close> and the device state
  \<open>struct ssdstate\<close> (\<open>vssim_config_manager.h\<close>), with the table entries of
  \<open>ftl_inverse_mapping_manager.h\<close> and \<open>ftl_perf_manager.h\<close>.

  Linked chains of the source are lists (head first): the nodes of a chain are only reached from
  its root, so a list of the payloads carries the same information as the pointers, and a
  dereference that the source does on an absent node is a branch to \<open>None\<close> in the operation.
  The statistics that no decision of the flash translation layer depends on are grouped in
  sub-records, so that an operation that only counts is seen to leave the tables alone.
\<close>

subsection \<open>Constants\<close>

abbreviation (input) "SUCCESS \<equiv> (1 :: int)"
abbreviation (input) "FAIL \<equiv> (0 :: int)"

abbreviation (input) "DATA_BLOCK \<equiv> (39 :: int)"
abbreviation (input) "EMPTY_BLOCK \<equiv> (100 :: int)"
abbreviation (input) "VICTIM_OVERALL \<equiv> (41 :: int)"
abbreviation (input) "VICTIM_INCHIP \<equiv> (42 :: int)"
abbreviation (input) "VICTIM_NOPARAL \<equiv> (43 :: int)"
abbreviation (input) "VALID \<equiv> (50 :: int)"
abbreviation (input) "INVALID \<equiv> (51 :: int)"

abbreviation (input) "NOOP \<equiv> (800 :: int)"
abbreviation (input) "READ \<equiv> (801 :: int)"
abbreviation (input) "WRITE \<equiv> (802 :: int)"
abbreviation (input) "UPDATE_START_TIME \<equiv> (900 :: int)"
abbreviation (input) "UPDATE_END_TIME \<equiv> (901 :: int)"

abbreviation (input) "WAL_WRITE \<equiv> (100 :: int)"
abbreviation (input) "CP_WRITE \<equiv> (102 :: int)"
abbreviation (input) "DEDUP_WRITE \<equiv> (103 :: int)"
abbreviation (input) "FS_GC_WRITE \<equiv> (104 :: int)"

abbreviation (input) "REMAP_CKPT \<equiv> (2 :: int)"
abbreviation (input) "REMAP_COPY \<equiv> (3 :: int)"
abbreviation (input) "REMAP_MOVE \<equiv> (4 :: int)"

abbreviation (input) "TOTAL_OOB_SEG \<equiv> (20480 :: int)"
abbreviation (input) "OOB_ENTRY_PER_SEG \<equiv> (64 :: int)"
abbreviation (input) "OOB_ENTRY_BYTES \<equiv> (16 :: int)"
abbreviation (input) "NVRAM_READ_DELAY \<equiv> (50 :: int)"
abbreviation (input) "NVRAM_WRITE_DELAY \<equiv> (500 :: int)"
abbreviation (input) "FING_DELAY \<equiv> (0 :: int)"

abbreviation (input) "WHOLE_BLOCKING \<equiv> (1 :: int)"
abbreviation (input) "CHANNEL_BLOCKING \<equiv> (2 :: int)"
abbreviation (input) "CHIP_BLOCKING \<equiv> (3 :: int)"

subsection \<open>Configuration\<close>

record ssdconf =
  SECTOR_SIZE :: int
  PAGE_SIZE :: int
  SECTOR_NB :: int
  PAGE_NB :: int
  FLASH_NB :: int
  BLOCK_NB :: int
  CHANNEL_NB :: int
  PLANES_PER_FLASH :: int
  SECTORS_PER_PAGE :: int
  PAGES_PER_FLASH :: int
  PAGES_IN_SSD :: int
  GC_MODE :: int
  WAY_NB :: int
  OVP :: int
  DATA_BLOCK_NB :: int
  BLOCK_MAPPING_ENTRY_NB :: int
  PAGE_MAPPING_ENTRY_NB :: int
  EACH_EMPTY_TABLE_ENTRY_NB :: int
  EMPTY_TABLE_ENTRY_NB :: int
  VICTIM_TABLE_ENTRY_NB :: int
  REG_WRITE_DELAY :: int
  CELL_PROGRAM_DELAY :: int
  REG_READ_DELAY :: int
  CELL_READ_DELAY :: int
  BLOCK_ERASE_DELAY :: int
  CHANNEL_SWITCH_DELAY_W :: int
  CHANNEL_SWITCH_DELAY_R :: int
  DSM_TRIM_ENABLE :: int
  IO_PARALLELISM :: int
  GC_THRESHOLD_BLOCK_NB :: int
  GC_THRESHOLD_BLOCK_NB_HARD :: int
  GC_THRESHOLD_BLOCK_NB_EACH :: int
  GC_VICTIM_NB :: int
  sos :: int
  max_page :: int

subsection \<open>Table entries\<close>

record inverse_mapping_entry =
  fingerprint :: int
  lpn_cnt :: int
  lpns :: "int list"

record block_state_entry =
  valid_page_nb :: int
  block_type :: int
  erase_count :: int
  valid_array :: "int list"

record NVRAM_OOB_seg =
  alloc_seg :: int
  free_entry :: int
  invalid_entry :: int

record empty_block_entry =
  eb_flash :: int
  eb_block :: int
  eb_curr_page :: int

text \<open>
  A root of the free-block list: \<open>empty_head\<close> is the chain of whole free blocks (its last element
  is \<open>tail\<close>), \<open>head\<close> the block pages are being taken from.
\<close>

record empty_block_root =
  empty_head :: "empty_block_entry list"
  eb_head :: "empty_block_entry option"
  empty_block_nb :: int

record victim_block_entry =
  vb_flash :: int
  vb_block :: int

record victim_block_root =
  vb_chain :: "victim_block_entry list"
  victim_block_nb :: int

record sb_debug =
  sb_plane_nb :: int
  sb_block_nb :: int

record lpn_info =
  tx_id :: int
  lpn_flag :: int
  h_lpn :: int

record request_meta =
  req_length :: int
  req_sector_nb :: int
  lpns_info :: "lpn_info list"

record io_request =
  request_nb :: int
  request_type :: int
  request_size :: int
  start_count :: int
  end_count :: int
  start_time :: "int list"
  end_time :: "int list"

record nand_io_info =
  nio_offset :: int
  nio_type :: int
  nio_page_nb :: int
  nio_seq_nb :: int

subsection \<open>Statistics, device time, request list\<close>

record page_stat =
  stat_ppn_valid :: int
  stat_ppn_n21 :: int
  stat_ppn_invalid :: int
  stat_ppn_free :: int
  stat_lpn_valid :: int
  max_valid_array :: int

record nvram_stat =
  stat_use_remap_fail :: int
  stat_gc_remap_fail :: int
  stat_total_alloc_seg :: int
  stat_total_OOB_entry :: int
  stat_total_invalid_entry :: int
  stat_total_seg_bytes :: int
  stat_max_alloc_seg :: int
  stat_min_alloc_seg :: int

record io_stat =
  in_warmup_stage :: int
  stat_type :: int
  stat_time :: int
  stat_temp :: int
  stat_total_read_count :: int
  stat_total_write_count :: int
  stat_host_write_count :: int
  stat_gc_count :: int
  stat_erase_count :: int
  stat_gc_write_count :: int
  stat_remap_cnt :: int
  stat_commit_cnt :: int
  stat_reduced_write :: int
  stat_avg_write_delay :: int
  stat_write_req_print :: int
  stat_write_delay_print :: int
  stat_min_write_delay :: int
  stat_max_write_delay :: int
  stat_write_size_print :: int
  stat_avg_req_size :: int
  stat_read_size_print :: int
  stat_avg_GCRNVRAM_delay :: int
  stat_GCRNVRAM_print :: int
  stat_GCRNVRAM_delay_print :: int
  stat_avg_NVRAMGC_delay :: int
  stat_NVRAMGC_print :: int
  stat_NVRAMGC_delay_print :: int
  gc_count :: int
  stacking_gc_count :: int
  mygc_cnt :: int
  mycopy_page_nb :: int
  fail_cnt :: int
  block_cnt :: int
  nb_total_reads :: int
  nb_blocked_reads :: int
  nb_total_writes :: int
  nb_blocked_writes :: int
  nb_total_rd_sz :: int
  nb_total_wr_sz :: int
  time_gc :: int
  time_svb :: int
  time_cp :: int
  time_up :: int

text \<open>
  The clocks of the host are an environment of the model: \<open>clock src n\<close> is what the \<open>n\<close>-th clock
  read of a run returns when it asks the source \<open>src\<close>; \<open>ticks\<close> counts the reads.
\<close>

datatype clock_src = USEC | REALTIME_NS | TS_NS

record dev_time =
  clock :: "clock_src \<Rightarrow> nat \<Rightarrow> int"
  ticks :: nat
  chnl_next_avail_time :: "int list"
  chip_next_avail_time :: "int list"
  nvram_next_avail_time :: "int list"
  gc_slot :: "int list"
  blocking_to :: int

record perf_state =
  io_requests :: "io_request list"
  io_request_nb :: int
  io_request_seq_nb :: int
  io_alloc_overhead :: int
  io_update_overhead :: int

subsection \<open>The device\<close>

record ssdstate =
  ssdparams :: ssdconf
  mapping_table :: "int list"
  in_nvram :: "int list"
  inverse_mapping_table :: "inverse_mapping_entry list"
  block_state_table :: "block_state_entry list"
  NVRAM_OOB_TABLE :: "NVRAM_OOB_seg list"
  empty_block_list :: "empty_block_root list"
  victim_block_list :: "victim_block_root list"
  total_empty_block_nb :: int
  total_victim_block_nb :: int
  empty_block_table_index :: int
  sb_deb :: sb_debug
  xl2p_ppn :: int
  pstat :: page_stat
  nstat :: nvram_stat
  iostat :: io_stat
  devtime :: dev_time
  perf :: perf_state

subsection \<open>Short names\<close>

abbreviation flash_nb_of :: "ssdstate \<Rightarrow> int" where
  "flash_nb_of s \<equiv> FLASH_NB (ssdparams s)"

abbreviation block_nb_of :: "ssdstate \<Rightarrow> int" where
  "block_nb_of s \<equiv> BLOCK_NB (ssdparams s)"

abbreviation page_nb_of :: "ssdstate \<Rightarrow> int" where
  "page_nb_of s \<equiv> PAGE_NB (ssdparams s)"

abbreviation pages_of :: "ssdstate \<Rightarrow> int" where
  "pages_of s \<equiv> PAGE_MAPPING_ENTRY_NB (ssdparams s)"

text \<open>Reading a clock consumes one tick.\<close>

definition read_clock :: "clock_src \<Rightarrow> ssdstate \<Rightarrow> int \<times> ssdstate" where
  "read_clock src s =
     (clock (devtime s) src (ticks (devtime s)),
      s\<lparr>devtime := (devtime s)\<lparr>ticks := Suc (ticks (devtime s))\<rparr>\<rparr>)"

subsection \<open>Well-formed configurations\<close>

text \<open>
  The relations between the derived fields that \<open>INIT_SSD_CONFIG\<close> computes (proved of it in the
  configuration theory), and page numbers below \<open>2^31\<close>, so that the \<open>int\<close> and
  \<open>unsigned int\<close> page arithmetic of the source does not wrap.
\<close>

definition wf_conf :: "ssdconf \<Rightarrow> bool" where
  "wf_conf c \<longleftrightarrow>
     0 < PAGE_NB c \<and> 0 < BLOCK_NB c \<and> 0 < FLASH_NB c \<and> 0 < SECTORS_PER_PAGE c \<and>
     0 < PLANES_PER_FLASH c \<and> 0 < CHANNEL_NB c \<and> CHANNEL_NB c < 2 ^ 31 \<and>
     PLANES_PER_FLASH c * FLASH_NB c < 2 ^ 31 \<and>
     PAGES_PER_FLASH c = PAGE_NB c * BLOCK_NB c \<and>
     BLOCK_MAPPING_ENTRY_NB c = BLOCK_NB c * FLASH_NB c \<and>
     PAGE_MAPPING_ENTRY_NB c = PAGE_NB c * BLOCK_NB c * FLASH_NB c \<and>
     PAGE_NB c * BLOCK_NB c * FLASH_NB c < 2 ^ 31 \<and>
     SECTOR_NB c = SECTORS_PER_PAGE c * PAGE_NB c * BLOCK_NB c * FLASH_NB c"

end
