(* ===== verification/IoTiming.thy ===== *)
theory IoTiming
  imports SsdState
begin

section \<open>Timing of the flash array and of the NVRAM\<close>

text \<open>
  \<open>ssd_io_manager.c\<close>: every channel, every chip and every superblock's NVRAM region has the
  point in time at which it is available again. A page operation reserves the resources it
  uses from their available times on and returns how long the request has to be delayed.
  The 64-bit nanosecond values are unbounded here: they do not wrap within 292 years.
\<close>

subsection \<open>Operations\<close>

definition upd_iostat :: "(io_stat \<Rightarrow> io_stat) \<Rightarrow> ssdstate \<Rightarrow> ssdstate" where
  "upd_iostat f s = s\<lparr>iostat := f (iostat s)\<rparr>"

definition upd_devtime :: "(dev_time \<Rightarrow> dev_time) \<Rightarrow> ssdstate \<Rightarrow> ssdstate" where
  "upd_devtime f s = s\<lparr>devtime := f (devtime s)\<rparr>"

definition count_read :: "io_stat \<Rightarrow> io_stat" where
  "count_read st = st\<lparr>stat_total_read_count := u32 (stat_total_read_count st + 1)\<rparr>"

definition count_write :: "io_stat \<Rightarrow> io_stat" where
  "count_write st = st\<lparr>stat_total_write_count := u32 (stat_total_write_count st + 1)\<rparr>"

text \<open>\<open>flash_nb % CHANNEL_NB\<close> with both operands unsigned.\<close>

definition channel_of :: "ssdconf \<Rightarrow> int \<Rightarrow> int option" where
  "channel_of sc flash_nb =
     (if u32 (CHANNEL_NB sc) = 0 then None else Some (flash_nb mod u32 (CHANNEL_NB sc)))"

text \<open>The time stamps of programming a page: transfer over the channel, then the cell.\<close>

definition program_page :: "ssdconf \<Rightarrow> int \<Rightarrow> int \<Rightarrow> dev_time \<Rightarrow> (int \<times> dev_time) option" where
  "program_page sc flash_nb now dt =
     do {
       num_channel \<leftarrow> channel_of sc flash_nb;
       ch \<leftarrow> cread (chnl_next_avail_time dt) num_channel;
       let start_data_transfer_ts = (if now < ch then ch else now);
       let ch' = start_data_transfer_ts + REG_WRITE_DELAY sc;
       chs \<leftarrow> cwrite (chnl_next_avail_time dt) num_channel ch';
       cp \<leftarrow> cread (chip_next_avail_time dt) flash_nb;
       let cp' = (if ch' < cp then cp + CELL_PROGRAM_DELAY sc else ch' + CELL_PROGRAM_DELAY sc);
       cps \<leftarrow> cwrite (chip_next_avail_time dt) flash_nb cp';
       Some (cp' - now, dt\<lparr>chnl_next_avail_time := chs, chip_next_avail_time := cps\<rparr>)
     }"

definition SSD_PAGE_WRITE :: "ssdstate \<Rightarrow> int \<Rightarrow> int \<Rightarrow> int \<Rightarrow> (int \<times> ssdstate) option" where
  "SSD_PAGE_WRITE ssd flash_nb block_nb page_nb =
     do {
       let ssd = upd_iostat count_write ssd;
       let (now, ssd) = read_clock REALTIME_NS ssd;
       (d, dt) \<leftarrow> program_page (ssdparams ssd) flash_nb now (devtime ssd);
       Some (d, ssd\<lparr>devtime := dt\<rparr>)
     }"

text \<open>A partial write reserves the chip of the old page only, and for one program operation.\<close>

definition SSD_PAGE_PARTIAL_WRITE ::
  "ssdstate \<Rightarrow> int \<Rightarrow> int \<Rightarrow> int \<Rightarrow> int \<Rightarrow> int \<Rightarrow> int \<Rightarrow> (int \<times> ssdstate) option" where
  "SSD_PAGE_PARTIAL_WRITE ssd old_flash_nb old_block_nb old_page_nb new_flash_nb new_block_nb new_page_nb =
     do {
       let ssd = upd_iostat (count_write \<circ> count_read) ssd;
       let (now, ssd) = read_clock REALTIME_NS ssd;
       (d, dt) \<leftarrow> program_page (ssdparams ssd) old_flash_nb now (devtime ssd);
       Some (d, ssd\<lparr>devtime := dt\<rparr>)
     }"

text \<open>
  The three rules by which a resource is reserved for \<open>need\<close> from its available time on, as the
  source writes them (\<open>UPDATE_FLASH_TS\<close>, \<open>UPDATE_NVRAM_TS\<close>, the collector's slots).
\<close>

definition flash_reserve :: "int \<Rightarrow> int \<Rightarrow> int \<Rightarrow> int" where
  "flash_reserve now avail need = (if avail < now then now + need else avail + need)"

definition nvram_reserve :: "int \<Rightarrow> int \<Rightarrow> int \<Rightarrow> int" where
  "nvram_reserve now avail need = (if now < avail then avail + need else now + need)"

definition slot_reserve :: "int \<Rightarrow> int \<Rightarrow> int \<Rightarrow> int" where
  "slot_reserve now avail need = (if avail \<le> now then now + need else avail + need)"

definition UPDATE_FLASH_TS :: "ssdstate \<Rightarrow> int \<Rightarrow> ssdstate option" where
  "UPDATE_FLASH_TS ssd need_time =
     do {
       let (now, ssd) = read_clock REALTIME_NS ssd;
       cps \<leftarrow> foldM (\<lambda>i cps. do {
                cp \<leftarrow> cread cps i;
                cwrite cps i (flash_reserve now cp need_time)
              }) (cupto (FLASH_NB (ssdparams ssd))) (chip_next_avail_time (devtime ssd));
       Some (upd_devtime (\<lambda>dt. dt\<lparr>chip_next_avail_time := cps\<rparr>) ssd)
     }"

definition UPDATE_NVRAM_TS :: "ssdstate \<Rightarrow> int \<Rightarrow> int \<Rightarrow> (int \<times> ssdstate) option" where
  "UPDATE_NVRAM_TS ssd block_nb need_time =
     do {
       let (now, ssd) = read_clock REALTIME_NS ssd;
       nv \<leftarrow> cread (nvram_next_avail_time (devtime ssd)) block_nb;
       let nv' = nvram_reserve now nv need_time;
       nvs \<leftarrow> cwrite (nvram_next_avail_time (devtime ssd)) block_nb nv';
       Some (nv' - now, upd_devtime (\<lambda>dt. dt\<lparr>nvram_next_avail_time := nvs\<rparr>) ssd)
     }"

text \<open>The time stamps of reading a page: the cell first, then the transfer over the channel.\<close>

definition sense_page :: "ssdconf \<Rightarrow> int \<Rightarrow> int \<Rightarrow> dev_time \<Rightarrow> (int \<times> dev_time) option" where
  "sense_page sc flash_nb now dt =
     do {
       num_channel \<leftarrow> channel_of sc flash_nb;
       cp \<leftarrow> cread (chip_next_avail_time dt) flash_nb;
       let start_data_transfer_ts =
         (if now < cp then cp + CELL_READ_DELAY sc else now + CELL_READ_DELAY sc);
       ch \<leftarrow> cread (chnl_next_avail_time dt) num_channel;
       let ch' = (if start_data_transfer_ts < ch then ch + REG_READ_DELAY sc
                  else start_data_transfer_ts + REG_READ_DELAY sc);
       chs \<leftarrow> cwrite (chnl_next_avail_time dt) num_channel ch';
       cps \<leftarrow> cwrite (chip_next_avail_time dt) flash_nb ch';
       Some (ch' - now, dt\<lparr>chnl_next_avail_time := chs, chip_next_avail_time := cps\<rparr>)
     }"

definition SSD_PAGE_READ :: "ssdstate \<Rightarrow> int \<Rightarrow> int \<Rightarrow> int \<Rightarrow> (int \<times> ssdstate) option" where
  "SSD_PAGE_READ ssd flash_nb block_nb page_nb =
     do {
       let ssd = upd_iostat count_read ssd;
       let (now, ssd) = read_clock REALTIME_NS ssd;
       (d, dt) \<leftarrow> sense_page (ssdparams ssd) flash_nb now (devtime ssd);
       Some (d, ssd\<lparr>devtime := dt\<rparr>)
     }"

definition SSD_BLOCK_ERASE :: "ssdstate \<Rightarrow> int \<Rightarrow> int \<Rightarrow> (int \<times> ssdstate) option" where
  "SSD_BLOCK_ERASE ssd flash_nb block_nb =
     do {
       let sc = ssdparams ssd;
       let (now, ssd) = read_clock REALTIME_NS ssd;
       num_channel \<leftarrow> channel_of sc flash_nb;
       ch \<leftarrow> cread (chnl_next_avail_time (devtime ssd)) num_channel;
       let ss = (if now < ch then ch else now);
       cp \<leftarrow> cread (chip_next_avail_time (devtime ssd)) flash_nb;
       cps \<leftarrow> cwrite (chip_next_avail_time (devtime ssd)) flash_nb
               (if ss < cp then cp + BLOCK_ERASE_DELAY sc else ss + BLOCK_ERASE_DELAY sc);
       Some (SUCCESS, upd_devtime (\<lambda>dt. dt\<lparr>chip_next_avail_time := cps\<rparr>) ssd)
     }"

subsection \<open>Shape of the time tables and frame\<close>

definition gc_slots :: "ssdconf \<Rightarrow> int" where
  "gc_slots sc =
     (if GC_MODE sc = WHOLE_BLOCKING then 1
      else if GC_MODE sc = CHANNEL_BLOCKING then CHANNEL_NB sc
      else if GC_MODE sc = CHIP_BLOCKING then FLASH_NB sc * PLANES_PER_FLASH sc
      else 0)"

definition time_shape :: "ssdconf \<Rightarrow> dev_time \<Rightarrow> bool" where
  "time_shape sc dt \<longleftrightarrow>
     int (length (chnl_next_avail_time dt)) = CHANNEL_NB sc \<and>
     int (length (chip_next_avail_time dt)) = FLASH_NB sc \<and>
     int (length (nvram_next_avail_time dt)) = BLOCK_NB sc \<and>
     int (length (gc_slot dt)) = gc_slots sc \<and> 0 < gc_slots sc"

definition time_inv :: "ssdstate \<Rightarrow> bool" where
  "time_inv s \<longleftrightarrow> wf_conf (ssdparams s) \<and> time_shape (ssdparams s) (devtime s)"

text \<open>Operations of this theory change the device times and the i/o counters only.\<close>

definition same_but_time :: "ssdstate \<Rightarrow> ssdstate \<Rightarrow> bool" where
  "same_but_time s s' \<longleftrightarrow> (\<exists>io dt. s' = s\<lparr>iostat := io, devtime := dt\<rparr>)"

lemma same_but_time_refl [simp]: "same_but_time s s"
  unfolding same_but_time_def by (intro exI [of _ "iostat s"] exI [of _ "devtime s"]) simp

lemma same_but_time_trans: "same_but_time s s' \<Longrightarrow> same_but_time s' s'' \<Longrightarrow> same_but_time s s''"
  unfolding same_but_time_def by clarsimp blast

lemma same_but_time_upd [simp]:
  "same_but_time s (upd_iostat f s)" "same_but_time s (upd_devtime g s)"
  "same_but_time s (s\<lparr>iostat := io, devtime := dt\<rparr>)"
  unfolding same_but_time_def upd_iostat_def upd_devtime_def
  by (intro exI [of _ "f (iostat s)"] exI [of _ "devtime s"], simp)
    (intro exI [of _ "iostat s"] exI [of _ "g (devtime s)"], simp, blast)

lemma same_but_time_frame:
  assumes "same_but_time s s'"
  shows "ssdparams s' = ssdparams s" "mapping_table s' = mapping_table s" "in_nvram s' = in_nvram s"
    "inverse_mapping_table s' = inverse_mapping_table s" "block_state_table s' = block_state_table s"
    "NVRAM_OOB_TABLE s' = NVRAM_OOB_TABLE s" "nstat s' = nstat s" "pstat s' = pstat s"
    "empty_block_list s' = empty_block_list s" "victim_block_list s' = victim_block_list s"
    "total_empty_block_nb s' = total_empty_block_nb s" "total_victim_block_nb s' = total_victim_block_nb s"
    "empty_block_table_index s' = empty_block_table_index s" "sb_deb s' = sb_deb s"
    "perf s' = perf s" "xl2p_ppn s' = xl2p_ppn s"
  using assms unfolding same_but_time_def by (elim exE, simp)+

subsection \<open>The interface of a resource that serves one request at a time\<close>

text \<open>
  \<open>serve r reqs a\<close> are the completion times of a sequence of requests (arrival, service time) on a
  resource that is available from \<open>a\<close> on.
\<close>

fun serve :: "(int \<Rightarrow> int \<Rightarrow> int \<Rightarrow> int) \<Rightarrow> (int \<times> int) list \<Rightarrow> int \<Rightarrow> int list" where
  "serve r [] a = []"
| "serve r ((now, need) # reqs) a = r now a need # serve r reqs (r now a need)"

fun serve_end :: "(int \<Rightarrow> int \<Rightarrow> int \<Rightarrow> int) \<Rightarrow> (int \<times> int) list \<Rightarrow> int \<Rightarrow> int" where
  "serve_end r [] a = a"
| "serve_end r ((now, need) # reqs) a = serve_end r reqs (r now a need)"

locale busy_resource =
  fixes reserve :: "int \<Rightarrow> int \<Rightarrow> int \<Rightarrow> int"
  assumes not_early: "now + need \<le> reserve now avail need"
    and in_order: "avail + need \<le> reserve now avail need"
    and no_idling: "reserve now avail need = now + need \<or> reserve now avail need = avail + need"
begin

lemma reserve_max: "reserve now avail need = max now avail + need"
  using not_early [of now need avail] in_order [of avail need now] no_idling [of now avail need]
  by (auto simp: max_def)

lemma serve_monotone:
  "\<forall>r \<in> set reqs. 0 \<le> snd r \<Longrightarrow> a \<le> serve_end reserve reqs a"
proof (induction reqs arbitrary: a)
  case (Cons r reqs)
  obtain now need where r: "r = (now, need)" by (cases r)
  have "a \<le> reserve now a need" using in_order [of a need now] Cons.prems r by auto
  also have "\<dots> \<le> serve_end reserve reqs (reserve now a need)" using Cons r by auto
  finally show ?case by (simp add: r)
qed simp

lemma serve_lower: "a + sum_list (map snd reqs) \<le> serve_end reserve reqs a"
proof (induction reqs arbitrary: a)
  case (Cons r reqs)
  obtain now need where r: "r = (now, need)" by (cases r)
  have "reserve now a need + sum_list (map snd reqs) \<le> serve_end reserve reqs (reserve now a need)"
    by (rule Cons.IH)
  with in_order [of a need now] show ?case by (simp add: r)
qed simp

lemma serve_upper:
  "\<forall>r \<in> set reqs. fst r \<le> t \<and> 0 \<le> snd r \<Longrightarrow> serve_end reserve reqs a \<le> max a t + sum_list (map snd reqs)"
proof (induction reqs arbitrary: a)
  case (Cons r reqs)
  obtain now need where r: "r = (now, need)" by (cases r)
  have "0 \<le> sum_list (map snd reqs)"
    using Cons.prems by (intro sum_list_nonneg) auto
  moreover have "serve_end reserve reqs (reserve now a need)
      \<le> max (reserve now a need) t + sum_list (map snd reqs)"
    using Cons.IH Cons.prems by simp
  moreover have "max (reserve now a need) t \<le> max a t + need"
    using Cons.prems by (auto simp: r reserve_max max_def)
  ultimately have "serve_end reserve reqs (reserve now a need) \<le> max a t + (need + sum_list (map snd reqs))"
    by linarith
  then show ?case by (simp add: r)
qed simp

text \<open>No two requests are served at the same time: each starts after the one before has ended.\<close>

lemma serve_disjoint:
  "Suc i < length reqs \<Longrightarrow> serve reserve reqs a ! i \<le> serve reserve reqs a ! Suc i - snd (reqs ! Suc i)"
proof (induction reqs arbitrary: a i)
  case (Cons r reqs)
  obtain now need where r: "r = (now, need)" by (cases r)
  show ?case
  proof (cases i)
    case 0
    then obtain r' reqs' where rs: "reqs = r' # reqs'" using Cons.prems by (cases reqs) auto
    then show ?thesis using 0 in_order [of "reserve now a need" "snd r'" "fst r'"] r
      by (cases r') simp
  next
    case (Suc j)
    then show ?thesis using Cons.IH [of j] Cons.prems r by simp
  qed
qed simp

end

interpretation flash_line: busy_resource flash_reserve
  by unfold_locales (auto simp: flash_reserve_def)

interpretation nvram_line: busy_resource nvram_reserve
  by unfold_locales (auto simp: nvram_reserve_def)

interpretation slot_line: busy_resource slot_reserve
  by unfold_locales (auto simp: slot_reserve_def)

subsection \<open>Every operation returns, keeps the shape and touches nothing else\<close>

lemma read_clock_same [simp]: "same_but_time s (snd (read_clock src s))"
  unfolding read_clock_def same_but_time_def
  by (intro exI [of _ "iostat s"] exI [of _ "(devtime s)\<lparr>ticks := Suc (ticks (devtime s))\<rparr>"]) simp

lemma read_clock_time [simp]:
  "ssdparams (snd (read_clock src s)) = ssdparams s"
  "time_shape sc (devtime (snd (read_clock src s))) = time_shape sc (devtime s)"
  "iostat (snd (read_clock src s)) = iostat s"
  "nvram_next_avail_time (devtime (snd (read_clock src s))) = nvram_next_avail_time (devtime s)"
  "chip_next_avail_time (devtime (snd (read_clock src s))) = chip_next_avail_time (devtime s)"
  "chnl_next_avail_time (devtime (snd (read_clock src s))) = chnl_next_avail_time (devtime s)"
  "gc_slot (devtime (snd (read_clock src s))) = gc_slot (devtime s)"
  by (simp_all add: read_clock_def time_shape_def)

lemma time_inv_upd [simp]:
  "time_inv (upd_iostat f s) = time_inv s"
  "time_inv (snd (read_clock src s)) = time_inv s"
  by (simp_all add: time_inv_def upd_iostat_def)

lemma time_invD:
  assumes "time_inv s"
  shows "wf_conf (ssdparams s)" "int (length (chnl_next_avail_time (devtime s))) = CHANNEL_NB (ssdparams s)"
    "int (length (chip_next_avail_time (devtime s))) = FLASH_NB (ssdparams s)"
    "int (length (nvram_next_avail_time (devtime s))) = BLOCK_NB (ssdparams s)"
    "int (length (gc_slot (devtime s))) = gc_slots (ssdparams s)" "0 < gc_slots (ssdparams s)"
  using assms by (auto simp: time_inv_def time_shape_def)

lemma channel_of_ok:
  assumes "wf_conf sc" "0 \<le> f"
  shows "channel_of sc f = Some (f mod CHANNEL_NB sc)" "0 \<le> f mod CHANNEL_NB sc"
    "f mod CHANNEL_NB sc < CHANNEL_NB sc"
  using assms by (simp_all add: channel_of_def wf_conf_def cint)

lemma program_page_ok:
  assumes "wf_conf sc" "time_shape sc dt" "0 \<le> f" "f < FLASH_NB sc"
  shows "\<exists>d dt'. program_page sc f now dt = Some (d, dt') \<and> time_shape sc dt' \<and>
    REG_WRITE_DELAY sc + CELL_PROGRAM_DELAY sc \<le> d"
  using assms channel_of_ok [OF assms(1,3)]
  by (auto simp: program_page_def time_shape_def cmem Let_def)

lemma same_but_time_devtime:
  "same_but_time s s' \<Longrightarrow> same_but_time s (s'\<lparr>devtime := dt\<rparr>)"
  unfolding same_but_time_def by clarsimp blast

lemma SSD_PAGE_WRITE_ok:
  assumes "time_inv s" "0 \<le> f" "f < flash_nb_of s"
  shows "\<exists>d s'. SSD_PAGE_WRITE s f b p = Some (d, s') \<and> time_inv s' \<and> same_but_time s s' \<and>
    REG_WRITE_DELAY (ssdparams s) + CELL_PROGRAM_DELAY (ssdparams s) \<le> d"
proof -
  let ?s = "snd (read_clock REALTIME_NS (upd_iostat count_write s))"
  let ?now = "fst (read_clock REALTIME_NS (upd_iostat count_write s))"
  have p: "ssdparams ?s = ssdparams s" by (simp add: upd_iostat_def)
  have sb: "same_but_time s ?s" by (rule same_but_time_trans [of _ "upd_iostat count_write s"]) simp_all
  have "time_inv ?s" using assms(1) by simp
  then obtain d dt where d: "program_page (ssdparams s) f ?now (devtime ?s) = Some (d, dt)"
    "time_shape (ssdparams s) dt" "REG_WRITE_DELAY (ssdparams s) + CELL_PROGRAM_DELAY (ssdparams s) \<le> d"
    using program_page_ok [of "ssdparams s" "devtime ?s" f ?now] assms p by (auto simp: time_inv_def)
  have "SSD_PAGE_WRITE s f b p = Some (d, ?s\<lparr>devtime := dt\<rparr>)"
    using d(1) p by (simp add: SSD_PAGE_WRITE_def Let_def split_beta)
  moreover have "time_inv (?s\<lparr>devtime := dt\<rparr>)"
    using d(2) assms(1) p by (simp add: time_inv_def)
  ultimately show ?thesis using sb d(3) by (simp add: same_but_time_devtime)
qed

lemma SSD_PAGE_PARTIAL_WRITE_ok:
  assumes "time_inv s" "0 \<le> f" "f < flash_nb_of s"
  shows "\<exists>d s'. SSD_PAGE_PARTIAL_WRITE s f b p f' b' p' = Some (d, s') \<and> time_inv s' \<and> same_but_time s s' \<and>
    REG_WRITE_DELAY (ssdparams s) + CELL_PROGRAM_DELAY (ssdparams s) \<le> d"
proof -
  let ?s = "snd (read_clock REALTIME_NS (upd_iostat (count_write \<circ> count_read) s))"
  let ?now = "fst (read_clock REALTIME_NS (upd_iostat (count_write \<circ> count_read) s))"
  have p: "ssdparams ?s = ssdparams s" by (simp add: upd_iostat_def)
  have sb: "same_but_time s ?s"
    by (rule same_but_time_trans [of _ "upd_iostat (count_write \<circ> count_read) s"]) simp_all
  have "time_inv ?s" using assms(1) by simp
  then obtain d dt where d: "program_page (ssdparams s) f ?now (devtime ?s) = Some (d, dt)"
    "time_shape (ssdparams s) dt" "REG_WRITE_DELAY (ssdparams s) + CELL_PROGRAM_DELAY (ssdparams s) \<le> d"
    using program_page_ok [of "ssdparams s" "devtime ?s" f ?now] assms p by (auto simp: time_inv_def)
  have "SSD_PAGE_PARTIAL_WRITE s f b p f' b' p' = Some (d, ?s\<lparr>devtime := dt\<rparr>)"
    using d(1) p by (simp add: SSD_PAGE_PARTIAL_WRITE_def Let_def split_beta)
  moreover have "time_inv (?s\<lparr>devtime := dt\<rparr>)"
    using d(2) assms(1) p by (simp add: time_inv_def)
  ultimately show ?thesis using sb d(3) by (simp add: same_but_time_devtime)
qed

lemma sense_page_ok:
  assumes "wf_conf sc" "time_shape sc dt" "0 \<le> f" "f < FLASH_NB sc"
  shows "\<exists>d dt'. sense_page sc f now dt = Some (d, dt') \<and> time_shape sc dt' \<and>
    CELL_READ_DELAY sc + REG_READ_DELAY sc \<le> d"
  using assms channel_of_ok [OF assms(1,3)]
  by (auto simp: sense_page_def time_shape_def cmem Let_def)

lemma SSD_PAGE_READ_ok:
  assumes "time_inv s" "0 \<le> f" "f < flash_nb_of s"
  shows "\<exists>d s'. SSD_PAGE_READ s f b p = Some (d, s') \<and> time_inv s' \<and> same_but_time s s' \<and>
    CELL_READ_DELAY (ssdparams s) + REG_READ_DELAY (ssdparams s) \<le> d"
proof -
  let ?s = "snd (read_clock REALTIME_NS (upd_iostat count_read s))"
  let ?now = "fst (read_clock REALTIME_NS (upd_iostat count_read s))"
  have p: "ssdparams ?s = ssdparams s" by (simp add: upd_iostat_def)
  have sb: "same_but_time s ?s" by (rule same_but_time_trans [of _ "upd_iostat count_read s"]) simp_all
  have "time_inv ?s" using assms(1) by simp
  then obtain d dt where d: "sense_page (ssdparams s) f ?now (devtime ?s) = Some (d, dt)"
    "time_shape (ssdparams s) dt" "CELL_READ_DELAY (ssdparams s) + REG_READ_DELAY (ssdparams s) \<le> d"
    using sense_page_ok [of "ssdparams s" "devtime ?s" f ?now] assms p by (auto simp: time_inv_def)
  have "SSD_PAGE_READ s f b p = Some (d, ?s\<lparr>devtime := dt\<rparr>)"
    using d(1) p by (simp add: SSD_PAGE_READ_def Let_def split_beta)
  moreover have "time_inv (?s\<lparr>devtime := dt\<rparr>)"
    using d(2) assms(1) p by (simp add: time_inv_def)
  ultimately show ?thesis using sb d(3) by (simp add: same_but_time_devtime)
qed

lemma SSD_BLOCK_ERASE_ok:
  assumes "time_inv s" "0 \<le> f" "f < flash_nb_of s"
  shows "\<exists>s'. SSD_BLOCK_ERASE s f b = Some (SUCCESS, s') \<and> time_inv s' \<and> same_but_time s s'"
proof -
  let ?s = "snd (read_clock REALTIME_NS s)"
  have "time_inv ?s" using assms(1) by simp
  note T = time_invD [OF this, simplified] and C = channel_of_ok [OF time_invD(1) [OF assms(1)] assms(2)]
  show ?thesis
    using T C assms(2,3) by (auto simp: SSD_BLOCK_ERASE_def Let_def split_beta time_inv_def time_shape_def
        upd_devtime_def cmem intro!: same_but_time_devtime)
qed

lemma UPDATE_NVRAM_TS_eq:
  fixes s :: ssdstate and b need :: int
  assumes "time_inv s" "0 \<le> b" "b < block_nb_of s"
  defines "now \<equiv> fst (read_clock REALTIME_NS s)"
  defines "nv \<equiv> nvram_reserve now (nvram_next_avail_time (devtime s) ! nat b) need"
  shows "UPDATE_NVRAM_TS s b need = Some (nv - now,
    upd_devtime (\<lambda>dt. dt\<lparr>nvram_next_avail_time := (nvram_next_avail_time (devtime s))[nat b := nv]\<rparr>)
      (snd (read_clock REALTIME_NS s)))"
  using time_invD(4) [OF assms(1)] assms(2,3)
  by (simp add: UPDATE_NVRAM_TS_def Let_def split_beta cmem now_def nv_def)

lemma UPDATE_NVRAM_TS_ok:
  assumes "time_inv s" "0 \<le> b" "b < block_nb_of s"
  shows "\<exists>d s'. UPDATE_NVRAM_TS s b need = Some (d, s') \<and> time_inv s' \<and> same_but_time s s' \<and> need \<le> d"
proof -
  have "need \<le> nvram_reserve now a need - now" for now a
    using nvram_line.not_early [of now need a] by linarith
  then show ?thesis
    using UPDATE_NVRAM_TS_eq [OF assms, of need] time_invD [OF assms(1)]
    by (auto simp: time_inv_def time_shape_def upd_devtime_def intro!: same_but_time_devtime)
qed

lemma UPDATE_FLASH_TS_ok:
  assumes "time_inv s"
  shows "\<exists>s'. UPDATE_FLASH_TS s need = Some s' \<and> time_inv s' \<and> same_but_time s s' \<and>
    (\<forall>i < length (chip_next_avail_time (devtime s)).
       chip_next_avail_time (devtime s') ! i
         = flash_reserve (fst (read_clock REALTIME_NS s)) (chip_next_avail_time (devtime s) ! i) need)"
proof -
  let ?s = "snd (read_clock REALTIME_NS s)" and ?now = "fst (read_clock REALTIME_NS s)"
  let ?cp = "chip_next_avail_time (devtime s)"
  let ?f = "\<lambda>i cps. do { cp \<leftarrow> cread cps i; cwrite cps i (flash_reserve ?now cp need) }"
  let ?Q = "\<lambda>i cps. length cps = length ?cp \<and>
    (\<forall>j < length ?cp. cps ! j = (if int j < i then flash_reserve ?now (?cp ! j) need else ?cp ! j))"
  note T = time_invD [OF assms]
  have "\<exists>cps. foldM ?f (cupto (flash_nb_of s)) ?cp = Some cps \<and> ?Q (flash_nb_of s) cps"
  proof (rule for_rule [where Q = ?Q])
    fix i cps assume i: "0 \<le> i" "i < flash_nb_of s" and Q: "?Q i cps"
    then have ii: "i < int (length cps)" "nat i < length ?cp" using T(3) by auto
    then have "?f i cps = Some (cps[nat i := flash_reserve ?now (cps ! nat i) need])"
      using i by (simp add: cmem)
    moreover have "?Q (i + 1) (cps[nat i := flash_reserve ?now (cps ! nat i) need])"
      using Q i ii by (auto simp: nth_list_update)
    ultimately show "\<exists>cps'. ?f i cps = Some cps' \<and> ?Q (i + 1) cps'" by blast
  qed (use T(1) in \<open>auto simp: wf_conf_def\<close>)
  then obtain cps where cps: "foldM ?f (cupto (flash_nb_of s)) ?cp = Some cps" "?Q (flash_nb_of s) cps"
    by blast
  let ?s' = "upd_devtime (\<lambda>dt. dt\<lparr>chip_next_avail_time := cps\<rparr>) ?s"
  have "UPDATE_FLASH_TS s need = Some ?s'"
    using cps(1) by (simp add: UPDATE_FLASH_TS_def Let_def split_beta)
  moreover have "time_inv ?s'"
    using T cps(2) by (simp add: time_inv_def time_shape_def upd_devtime_def)
  moreover have "same_but_time s ?s'"
    by (rule same_but_time_trans [of _ ?s]) simp_all
  ultimately show ?thesis
    using cps(2) T(3) by (auto simp: upd_devtime_def)
qed

text \<open>The exact time stamps of a page program.\<close>

lemma SSD_PAGE_WRITE_eq:
  fixes s :: ssdstate and f b p :: int
  assumes "time_inv s" "0 \<le> f" "f < flash_nb_of s"
  defines "now \<equiv> fst (read_clock REALTIME_NS s)"
  defines "ch \<equiv> max now (chnl_next_avail_time (devtime s) ! nat (f mod CHANNEL_NB (ssdparams s))) + REG_WRITE_DELAY (ssdparams s)"
  defines "t \<equiv> max ch (chip_next_avail_time (devtime s) ! nat f) + CELL_PROGRAM_DELAY (ssdparams s)"
  shows "\<exists>s'. SSD_PAGE_WRITE s f b p = Some (t - now, s') \<and> same_but_time s s' \<and> time_inv s' \<and>
    chip_next_avail_time (devtime s') = (chip_next_avail_time (devtime s))[nat f := t] \<and>
    chnl_next_avail_time (devtime s') = (chnl_next_avail_time (devtime s))[nat (f mod CHANNEL_NB (ssdparams s)) := ch] \<and>
    REG_WRITE_DELAY (ssdparams s) + CELL_PROGRAM_DELAY (ssdparams s) \<le> t - now"
proof -
  note T = time_invD [OF assms(1)] and c = channel_of_ok [OF time_invD(1) [OF assms(1)] assms(2)]
  define s1 where "s1 = snd (read_clock REALTIME_NS (upd_iostat count_write s))"
  have r: "read_clock REALTIME_NS (upd_iostat count_write s) = (now, s1)"
    by (simp add: s1_def now_def read_clock_def upd_iostat_def Let_def)
  have s1: "ssdparams s1 = ssdparams s" "chnl_next_avail_time (devtime s1) = chnl_next_avail_time (devtime s)"
    "chip_next_avail_time (devtime s1) = chip_next_avail_time (devtime s)"
    by (simp_all add: s1_def upd_iostat_def)
  let ?dt = "(devtime s1)\<lparr>chnl_next_avail_time := (chnl_next_avail_time (devtime s))[nat (f mod CHANNEL_NB (ssdparams s)) := ch],
      chip_next_avail_time := (chip_next_avail_time (devtime s))[nat f := t]\<rparr>"
  have "program_page (ssdparams s) f now (devtime s1) = Some (t - now, ?dt)"
    using c T(2,3) assms(2,3) by (simp add: program_page_def cmem Let_def s1 t_def ch_def max_def)
  then have run: "SSD_PAGE_WRITE s f b p = Some (t - now, s1\<lparr>devtime := ?dt\<rparr>)"
    by (simp add: SSD_PAGE_WRITE_def r s1)
  obtain d s' where o: "SSD_PAGE_WRITE s f b p = Some (d, s')" "time_inv s'" "same_but_time s s'"
    using SSD_PAGE_WRITE_ok [OF assms(1-3), of b p] by blast
  then have "s' = s1\<lparr>devtime := ?dt\<rparr>" using run by simp
  moreover have "REG_WRITE_DELAY (ssdparams s) + CELL_PROGRAM_DELAY (ssdparams s) \<le> t - now" by (simp add: t_def ch_def)
  ultimately show ?thesis using run o(2,3) by auto
qed

subsection \<open>Room in the divisors\<close>

text \<open>
  The three counters that serve as divisors count events since the last printing, in 32 bits.
  \<open>print_room n r w\<close> says that they can be incremented \<open>n\<close> (compactions of the NVRAM), \<open>r\<close> (collections that read the
  NVRAM) and \<open>w\<close> (write requests) more times without wrapping round to \<open>0\<close>.
\<close>

definition print_room :: "nat \<Rightarrow> nat \<Rightarrow> nat \<Rightarrow> io_stat \<Rightarrow> bool" where
  "print_room n r w st \<longleftrightarrow>
     0 \<le> stat_NVRAMGC_print st \<and> stat_NVRAMGC_print st + int n < 2 ^ 32 \<and>
     0 \<le> stat_GCRNVRAM_print st \<and> stat_GCRNVRAM_print st + int r < 2 ^ 32 \<and>
     0 \<le> stat_write_req_print st \<and> stat_write_req_print st + int w < 2 ^ 32"

lemma print_room_mono:
  "print_room n r w st \<Longrightarrow> n' \<le> n \<Longrightarrow> r' \<le> r \<Longrightarrow> w' \<le> w \<Longrightarrow> print_room n' r' w' st"
  by (auto simp: print_room_def)

lemma print_room_counts [simp]:
  "print_room n r w (count_read st) = print_room n r w st"
  "print_room n r w (count_write st) = print_room n r w st"
  by (simp_all add: print_room_def count_read_def count_write_def)

abbreviation room :: "nat \<Rightarrow> nat \<Rightarrow> nat \<Rightarrow> ssdstate \<Rightarrow> bool" where
  "room n r w s \<equiv> print_room n r w (iostat s)"

lemma room_mono: "room n r w s \<Longrightarrow> m \<le> n \<Longrightarrow> room m r w s"
  by (erule print_room_mono) simp_all

end
