(* ===== verification/BlockState.thy ===== *)
theory BlockState
  imports SsdState
begin

section \<open>Physical addresses and the block state table\<close>

text \<open>
  \<open>CALC_FLASH\<close>, \<open>CALC_BLOCK\<close> and \<open>CALC_PAGE\<close> (\<open>ftl_mapping_manager.c\<close>) split a physical page
  number; the block state table (\<open>ftl_inverse_mapping_manager.c\<close>) keeps for every page a
  reference count (0 free, \<open>-1\<close> invalid) and counts the pages of each kind.
\<close>

subsection \<open>Addresses\<close>

text \<open>The results are \<open>unsigned int\<close>; the diagnostics these functions print have no effect.\<close>

definition CALC_FLASH :: "ssdstate \<Rightarrow> int \<Rightarrow> int" where
  "CALC_FLASH ssd ppn = u32 ((ppn sdiv PAGE_NB (ssdparams ssd)) sdiv BLOCK_NB (ssdparams ssd))"

definition CALC_BLOCK :: "ssdstate \<Rightarrow> int \<Rightarrow> int" where
  "CALC_BLOCK ssd ppn = u32 ((ppn sdiv PAGE_NB (ssdparams ssd)) smod BLOCK_NB (ssdparams ssd))"

definition CALC_PAGE :: "ssdstate \<Rightarrow> int \<Rightarrow> int" where
  "CALC_PAGE ssd ppn = u32 (ppn smod PAGE_NB (ssdparams ssd))"

text \<open>The page number \<open>GET_NEW_PAGE\<close> and the garbage collector compute, in \<open>unsigned int\<close>.\<close>

definition phys_addr :: "ssdstate \<Rightarrow> int \<Rightarrow> int \<Rightarrow> int \<Rightarrow> int" where
  "phys_addr ssd f b p =
     u32 (f * BLOCK_NB (ssdparams ssd) * PAGE_NB (ssdparams ssd) + b * PAGE_NB (ssdparams ssd) + p)"

subsection \<open>Operations on the block state table\<close>

text \<open>A pointer into the block state table is its index.\<close>

definition GET_BLOCK_STATE_ENTRY :: "ssdstate \<Rightarrow> int \<Rightarrow> int \<Rightarrow> int" where
  "GET_BLOCK_STATE_ENTRY ssd phy_flash_nb phy_block_nb =
     u32 (phy_flash_nb * BLOCK_NB (ssdparams ssd) + phy_block_nb)"

text \<open>
  The three arms of \<open>UPDATE_BLOCK_STATE_ENTRY\<close> on one counter \<open>v\<close>: the new counter and the new
  statistics, or \<open>None\<close> where the arm returns \<open>FAIL\<close>.
\<close>

definition bse_valid :: "int \<Rightarrow> page_stat \<Rightarrow> (int \<times> page_stat) option" where
  "bse_valid v st =
     (if 0 \<le> v then
        let st1 = (if v = 0
                   then st\<lparr>stat_ppn_free := u64 (stat_ppn_free st - 1),
                           stat_ppn_valid := u64 (stat_ppn_valid st + 1)\<rparr>
                   else if v = 1 then st\<lparr>stat_ppn_n21 := u64 (stat_ppn_n21 st + 1)\<rparr>
                   else st);
            v' = s8 (v + 1);
            st2 = (if max_valid_array st1 < v' then st1\<lparr>max_valid_array := v'\<rparr> else st1)
        in Some (v', st2\<lparr>stat_lpn_valid := u64 (stat_lpn_valid st2 + 1)\<rparr>)
      else None)"

definition bse_invalid :: "int \<Rightarrow> page_stat \<Rightarrow> (int \<times> page_stat) option" where
  "bse_invalid v st =
     (if 0 < v then
        let (v', st1) =
              (if v = 1
               then (- 1, st\<lparr>stat_ppn_invalid := u64 (stat_ppn_invalid st + 1),
                            stat_ppn_valid := u64 (stat_ppn_valid st - 1)\<rparr>)
               else (s8 (v - 1),
                     if v = 2 then st\<lparr>stat_ppn_n21 := u64 (stat_ppn_n21 st - 1)\<rparr> else st))
        in Some (v', st1\<lparr>stat_lpn_valid := u64 (stat_lpn_valid st1 - 1)\<rparr>)
      else None)"

definition bse_free :: "int \<Rightarrow> page_stat \<Rightarrow> (int \<times> page_stat) option" where
  "bse_free v st =
     (if 0 < v then
        let st1 = st\<lparr>stat_ppn_valid := u64 (stat_ppn_valid st - 1)\<rparr>;
            st2 = (if 1 < v then st1\<lparr>stat_ppn_n21 := u64 (stat_ppn_n21 st1 - 1)\<rparr> else st1)
        in Some (0, st2\<lparr>stat_lpn_valid := u64 (stat_lpn_valid st2 - v),
                        stat_ppn_free := u64 (stat_ppn_free st2 + 1)\<rparr>)
      else if v = - 1 then
        Some (0, st\<lparr>stat_ppn_invalid := u64 (stat_ppn_invalid st - 1),
                    stat_ppn_free := u64 (stat_ppn_free st + 1)\<rparr>)
      else if v = 0 then Some (0, st)
      else None)"

text \<open>An unknown \<open>valid\<close> argument is reported but not rejected: the recount still runs.\<close>

definition bse_update :: "int \<Rightarrow> int \<Rightarrow> page_stat \<Rightarrow> (int \<times> page_stat) option" where
  "bse_update valid v st =
     (if valid = VALID then bse_valid v st
      else if valid = INVALID then bse_invalid v st
      else if valid = 0 then bse_free v st
      else Some (v, st))"

definition count_valid :: "int list \<Rightarrow> int \<Rightarrow> int option" where
  "count_valid va page_nb =
     foldM (\<lambda>i n. do { v \<leftarrow> cread va i; Some (if 0 < v then n + 1 else n) }) (cupto page_nb) 0"

definition UPDATE_BLOCK_STATE_ENTRY ::
  "ssdstate \<Rightarrow> int \<Rightarrow> int \<Rightarrow> int \<Rightarrow> int \<Rightarrow> (int \<times> ssdstate) option" where
  "UPDATE_BLOCK_STATE_ENTRY ssd phy_flash_nb phy_block_nb phy_page_nb valid =
     (if u32 (FLASH_NB (ssdparams ssd)) \<le> phy_flash_nb \<or>
         u32 (BLOCK_NB (ssdparams ssd)) \<le> phy_block_nb \<or>
         u32 (PAGE_NB (ssdparams ssd)) \<le> phy_page_nb
      then Some (FAIL, ssd)
      else do {
        let k = GET_BLOCK_STATE_ENTRY ssd phy_flash_nb phy_block_nb;
        e \<leftarrow> cread (block_state_table ssd) k;
        v \<leftarrow> cread (valid_array e) phy_page_nb;
        (case bse_update valid v (pstat ssd) of
           None \<Rightarrow> Some (FAIL, ssd)
         | Some (v', st) \<Rightarrow> do {
             va \<leftarrow> cwrite (valid_array e) phy_page_nb v';
             n \<leftarrow> count_valid va (PAGE_NB (ssdparams ssd));
             t \<leftarrow> cwrite (block_state_table ssd) k (e\<lparr>valid_array := va, valid_page_nb := n\<rparr>);
             Some (SUCCESS, ssd\<lparr>block_state_table := t, pstat := st\<rparr>)
           })
      })"

definition UPDATE_BLOCK_STATE :: "ssdstate \<Rightarrow> int \<Rightarrow> int \<Rightarrow> int \<Rightarrow> (int \<times> ssdstate) option" where
  "UPDATE_BLOCK_STATE ssd phy_flash_nb phy_block_nb type =
     do {
       let k = GET_BLOCK_STATE_ENTRY ssd phy_flash_nb phy_block_nb;
       e \<leftarrow> cread (block_state_table ssd) k;
       t \<leftarrow> cwrite (block_state_table ssd) k (e\<lparr>block_type := type\<rparr>);
       let ssd1 = ssd\<lparr>block_state_table := t\<rparr>;
       ssd2 \<leftarrow> (if type = EMPTY_BLOCK
                then foldM (\<lambda>i s. do {
                       (r, s') \<leftarrow> UPDATE_BLOCK_STATE_ENTRY s phy_flash_nb phy_block_nb i 0;
                       Some s' }) (cupto (PAGE_NB (ssdparams ssd))) ssd1
                else Some ssd1);
       Some (SUCCESS, ssd2)
     }"

subsection \<open>The page view of the table and its invariant\<close>

text \<open>
  \<open>page_refs s\<close> lists the counters of all pages in the order of their page numbers: it is the
  array the operations maintain, with the blocks forgotten.
\<close>

definition page_refs :: "ssdstate \<Rightarrow> int list" where
  "page_refs s = concat (map valid_array (block_state_table s))"

definition page_ref :: "ssdstate \<Rightarrow> int \<Rightarrow> int" where
  "page_ref s ppn = page_refs s ! nat ppn"

definition blk_shape :: "ssdstate \<Rightarrow> bool" where
  "blk_shape s \<longleftrightarrow>
     length (block_state_table s) = nat (BLOCK_MAPPING_ENTRY_NB (ssdparams s)) \<and>
     (\<forall>e \<in> set (block_state_table s).
        int (length (valid_array e)) = PAGE_NB (ssdparams s) \<and>
        valid_page_nb e = int (length (filter (\<lambda>v. 0 < v) (valid_array e))))"

text \<open>The counters of \<open>struct ssdstate\<close> are the numbers of pages of each kind.\<close>

definition stat_ok :: "int list \<Rightarrow> page_stat \<Rightarrow> bool" where
  "stat_ok rs st \<longleftrightarrow>
     stat_ppn_free st = int (length (filter (\<lambda>v. v = 0) rs)) \<and>
     stat_ppn_valid st = int (length (filter (\<lambda>v. 0 < v) rs)) \<and>
     stat_ppn_n21 st = int (length (filter (\<lambda>v. 1 < v) rs)) \<and>
     stat_ppn_invalid st = int (length (filter (\<lambda>v. v < 0) rs)) \<and>
     stat_lpn_valid st = sum_list (map (max 0) rs)"

definition refs_range :: "int list \<Rightarrow> bool" where
  "refs_range rs \<longleftrightarrow> (\<forall>v \<in> set rs. - 1 \<le> v \<and> v \<le> 127)"

definition blk_inv :: "ssdstate \<Rightarrow> bool" where
  "blk_inv s \<longleftrightarrow> wf_conf (ssdparams s) \<and> blk_shape s \<and> refs_range (page_refs s) \<and>
     stat_ok (page_refs s) (pstat s)"

text \<open>What one successful update does to the tables, in one piece.\<close>

definition put_page :: "ssdstate \<Rightarrow> int \<Rightarrow> int \<Rightarrow> page_stat \<Rightarrow> ssdstate" where
  "put_page s ppn v st =
     (let k = nat (ppn div PAGE_NB (ssdparams s));
          e = block_state_table s ! k;
          va = (valid_array e)[nat (ppn mod PAGE_NB (ssdparams s)) := v]
      in s\<lparr>block_state_table := (block_state_table s)
             [k := e\<lparr>valid_array := va, valid_page_nb := int (length (filter (\<lambda>v. 0 < v) va))\<rparr>],
           pstat := st\<rparr>)"

section \<open>Lemmas\<close>

subsection \<open>Addresses\<close>

lemma wf_confD:
  assumes "wf_conf c"
  shows "0 < PAGE_NB c" "0 < BLOCK_NB c" "0 < FLASH_NB c" "0 < CHANNEL_NB c" "0 < SECTORS_PER_PAGE c"
    "0 < PLANES_PER_FLASH c"
    "PAGE_MAPPING_ENTRY_NB c = FLASH_NB c * BLOCK_NB c * PAGE_NB c"
    "BLOCK_MAPPING_ENTRY_NB c = FLASH_NB c * BLOCK_NB c"
    "FLASH_NB c * BLOCK_NB c * PAGE_NB c < 2 ^ 31"
  using assms by (simp_all add: wf_conf_def mult.assoc mult.commute mult.left_commute)

lemma mult_pos_bounds:
  fixes a b :: int
  assumes "0 < a" "0 < b" "a * b < n"
  shows "a < n" "b < n"
proof -
  have "a * 1 \<le> a * b" "1 * b \<le> a * b"
    using assms by (auto intro: mult_left_mono mult_right_mono)
  then show "a < n" "b < n" using assms(3) by auto
qed

lemma wf_conf_bounds:
  assumes "wf_conf c"
  shows "PAGE_NB c < 2 ^ 31" "BLOCK_NB c < 2 ^ 31" "FLASH_NB c < 2 ^ 31" "FLASH_NB c * BLOCK_NB c < 2 ^ 31"
proof -
  note w = wf_confD [OF assms]
  have fb: "0 < FLASH_NB c * BLOCK_NB c" using w by simp
  from mult_pos_bounds [OF fb w(1) w(9)]
  show "FLASH_NB c * BLOCK_NB c < 2 ^ 31" "PAGE_NB c < 2 ^ 31" .
  from mult_pos_bounds [OF w(3) w(2) this(1)]
  show "FLASH_NB c < 2 ^ 31" "BLOCK_NB c < 2 ^ 31" .
qed

lemma block_index_bound:
  assumes "wf_conf c" "0 \<le> ppn" "ppn < PAGE_MAPPING_ENTRY_NB c"
  shows "0 \<le> ppn div PAGE_NB c" "ppn div PAGE_NB c < BLOCK_MAPPING_ENTRY_NB c"
    "ppn div PAGE_NB c < FLASH_NB c * BLOCK_NB c" "ppn div PAGE_NB c div BLOCK_NB c < FLASH_NB c"
    "0 \<le> ppn div PAGE_NB c div BLOCK_NB c"
proof -
  note w = wf_confD [OF assms(1)]
  show 0: "0 \<le> ppn div PAGE_NB c"
    using assms(2) w(1) by (simp add: pos_imp_zdiv_nonneg_iff)
  show 1: "ppn div PAGE_NB c < FLASH_NB c * BLOCK_NB c"
    using div_lt_of_lt_mult [OF w(1)] assms(3) w(7) by simp
  then show "ppn div PAGE_NB c < BLOCK_MAPPING_ENTRY_NB c" by (simp add: w)
  show "ppn div PAGE_NB c div BLOCK_NB c < FLASH_NB c"
    using div_lt_of_lt_mult [OF w(2) 1] .
  show "0 \<le> ppn div PAGE_NB c div BLOCK_NB c"
    using 0 w(2) by (simp add: pos_imp_zdiv_nonneg_iff)
qed

lemma calc_eqs:
  assumes "wf_conf (ssdparams s)" "0 \<le> ppn" "ppn < pages_of s"
  shows "CALC_FLASH s ppn = ppn div page_nb_of s div block_nb_of s"
    "CALC_BLOCK s ppn = ppn div page_nb_of s mod block_nb_of s"
    "CALC_PAGE s ppn = ppn mod page_nb_of s"
proof -
  note w = wf_confD [OF assms(1)] and b = wf_conf_bounds [OF assms(1)]
  note i = block_index_bound [OF assms]
  show "CALC_FLASH s ppn = ppn div page_nb_of s div block_nb_of s"
    using i w b assms(2) by (simp add: CALC_FLASH_def sdiv_nonneg cint)
  show "CALC_BLOCK s ppn = ppn div page_nb_of s mod block_nb_of s"
    using i w b assms(2) by (simp add: CALC_BLOCK_def sdiv_nonneg smod_nonneg cint)
  show "CALC_PAGE s ppn = ppn mod page_nb_of s"
    using w b assms(2) by (simp add: CALC_PAGE_def smod_nonneg cint)
qed

lemma calc_ranges:
  assumes "wf_conf (ssdparams s)" "0 \<le> ppn" "ppn < pages_of s"
  shows "0 \<le> CALC_FLASH s ppn" "CALC_FLASH s ppn < flash_nb_of s"
    "0 \<le> CALC_BLOCK s ppn" "CALC_BLOCK s ppn < block_nb_of s"
    "0 \<le> CALC_PAGE s ppn" "CALC_PAGE s ppn < page_nb_of s"
  using block_index_bound [OF assms] wf_confD [OF assms(1)] by (simp_all add: calc_eqs [OF assms])

lemma calc_compose:
  assumes "wf_conf (ssdparams s)" "0 \<le> ppn" "ppn < pages_of s"
  shows "GET_BLOCK_STATE_ENTRY s (CALC_FLASH s ppn) (CALC_BLOCK s ppn) = ppn div page_nb_of s"
    "phys_addr s (CALC_FLASH s ppn) (CALC_BLOCK s ppn) (CALC_PAGE s ppn) = ppn"
proof -
  note w = wf_confD [OF assms(1)] and b = wf_conf_bounds [OF assms(1)]
    and i = block_index_bound [OF assms] and c = calc_eqs [OF assms]
  have split: "ppn div page_nb_of s div block_nb_of s * block_nb_of s + ppn div page_nb_of s mod block_nb_of s
      = ppn div page_nb_of s" by simp
  show "GET_BLOCK_STATE_ENTRY s (CALC_FLASH s ppn) (CALC_BLOCK s ppn) = ppn div page_nb_of s"
    using i b by (simp add: GET_BLOCK_STATE_ENTRY_def c split cint)
  have "phys_addr s (CALC_FLASH s ppn) (CALC_BLOCK s ppn) (CALC_PAGE s ppn)
      = u32 ((ppn div page_nb_of s div block_nb_of s * block_nb_of s
              + ppn div page_nb_of s mod block_nb_of s) * page_nb_of s + ppn mod page_nb_of s)"
    by (simp only: phys_addr_def c distrib_right)
  also have "\<dots> = ppn" using assms(2,3) w by (simp add: cint)
  finally show "phys_addr s (CALC_FLASH s ppn) (CALC_BLOCK s ppn) (CALC_PAGE s ppn) = ppn" .
qed

lemma phys_addr_bounds:
  assumes "wf_conf (ssdparams s)" "0 \<le> f" "f < flash_nb_of s" "0 \<le> b" "b < block_nb_of s"
    "0 \<le> p" "p < page_nb_of s"
  shows "phys_addr s f b p = (f * block_nb_of s + b) * page_nb_of s + p"
    "0 \<le> phys_addr s f b p" "phys_addr s f b p < pages_of s"
proof -
  note w = wf_confD [OF assms(1)]
  let ?a = "(f * block_nb_of s + b) * page_nb_of s + p"
  have "f * block_nb_of s + b \<le> flash_nb_of s * block_nb_of s - 1"
    using mult_right_mono [of f "flash_nb_of s - 1" "block_nb_of s"] assms w
    by (simp add: algebra_simps)
  then have "?a < flash_nb_of s * block_nb_of s * page_nb_of s"
    using mult_right_mono [of "f * block_nb_of s + b" "flash_nb_of s * block_nb_of s - 1" "page_nb_of s"]
      assms w by (simp add: algebra_simps)
  moreover have "0 \<le> ?a" using assms w by simp
  ultimately show "phys_addr s f b p = ?a" "0 \<le> phys_addr s f b p" "phys_addr s f b p < pages_of s"
    using w by (simp_all add: phys_addr_def distrib_right cint)
qed

lemma calc_phys_addr:
  assumes "wf_conf (ssdparams s)" "0 \<le> f" "f < flash_nb_of s" "0 \<le> b" "b < block_nb_of s"
    "0 \<le> p" "p < page_nb_of s"
  shows "CALC_FLASH s (phys_addr s f b p) = f" "CALC_BLOCK s (phys_addr s f b p) = b"
    "CALC_PAGE s (phys_addr s f b p) = p"
proof -
  note a = phys_addr_bounds [OF assms]
  note c = calc_eqs [OF assms(1) a(2,3)]
  have "phys_addr s f b p div page_nb_of s = f * block_nb_of s + b"
    using assms(6,7) by (simp add: a(1))
  then show "CALC_FLASH s (phys_addr s f b p) = f" "CALC_BLOCK s (phys_addr s f b p) = b"
    using assms by (simp_all add: c)
  show "CALC_PAGE s (phys_addr s f b p) = p"
    unfolding c(3) using assms(6,7) by (simp add: a(1))
qed

subsection \<open>The page view\<close>

lemma blk_shape_uniform:
  "blk_shape s \<Longrightarrow> \<forall>ys \<in> set (map valid_array (block_state_table s)). length ys = nat (page_nb_of s)"
  by (auto simp: blk_shape_def)

lemma length_page_refs:
  "blk_shape s \<Longrightarrow> wf_conf (ssdparams s) \<Longrightarrow> length (page_refs s) = nat (pages_of s)"
  using wf_confD [of "ssdparams s"]
  by (simp add: page_refs_def length_concat_uniform [OF blk_shape_uniform] blk_shape_def nat_mult_distrib)

lemma page_index_split:
  assumes "0 < n" "0 \<le> ppn"
  shows "nat ppn = nat (ppn div n) * nat n + nat (ppn mod n)"
proof -
  have "int (nat (ppn div n) * nat n + nat (ppn mod n)) = ppn"
    using assms by (simp add: pos_imp_zdiv_nonneg_iff)
  then show ?thesis by linarith
qed

lemma page_ref_nth:
  assumes "blk_shape s" "wf_conf (ssdparams s)" "0 \<le> ppn" "ppn < pages_of s"
  shows "page_ref s ppn =
    valid_array (block_state_table s ! nat (ppn div page_nb_of s)) ! nat (ppn mod page_nb_of s)"
proof -
  note w = wf_confD [OF assms(2)] and i = block_index_bound [OF assms(2-4)]
  have "nat (ppn div page_nb_of s) < length (block_state_table s)"
    using assms(1) i by (simp add: blk_shape_def)
  moreover have "nat (ppn mod page_nb_of s) < nat (page_nb_of s)" using w by simp
  ultimately show ?thesis
    using nth_concat_uniform [OF blk_shape_uniform [OF assms(1)]]
    by (simp add: page_ref_def page_refs_def page_index_split [OF w(1) assms(3)])
qed

lemma put_page_frame [simp, frame]:
  "ssdparams (put_page s ppn v st) = ssdparams s" "mapping_table (put_page s ppn v st) = mapping_table s"
  "in_nvram (put_page s ppn v st) = in_nvram s" "pstat (put_page s ppn v st) = st"
  "inverse_mapping_table (put_page s ppn v st) = inverse_mapping_table s"
  "NVRAM_OOB_TABLE (put_page s ppn v st) = NVRAM_OOB_TABLE s" "nstat (put_page s ppn v st) = nstat s"
  "empty_block_list (put_page s ppn v st) = empty_block_list s"
  "victim_block_list (put_page s ppn v st) = victim_block_list s"
  "total_empty_block_nb (put_page s ppn v st) = total_empty_block_nb s"
  "total_victim_block_nb (put_page s ppn v st) = total_victim_block_nb s"
  "empty_block_table_index (put_page s ppn v st) = empty_block_table_index s"
  "sb_deb (put_page s ppn v st) = sb_deb s" "devtime (put_page s ppn v st) = devtime s"
  "iostat (put_page s ppn v st) = iostat s" "perf (put_page s ppn v st) = perf s"
  "xl2p_ppn (put_page s ppn v st) = xl2p_ppn s"
  by (simp_all add: put_page_def Let_def)

lemma blk_shape_put_page:
  assumes "blk_shape s" "wf_conf (ssdparams s)" "0 \<le> ppn" "ppn < pages_of s"
  shows "blk_shape (put_page s ppn v st)"
proof -
  have "nat (ppn div page_nb_of s) < length (block_state_table s)"
    using assms(1) block_index_bound [OF assms(2-4)] by (simp add: blk_shape_def)
  then have "block_state_table s ! nat (ppn div page_nb_of s) \<in> set (block_state_table s)"
    by (rule nth_mem)
  then show ?thesis
    using assms(1) by (auto simp: blk_shape_def put_page_def Let_def dest!: set_update_subset_insert [THEN subsetD])
qed

lemma page_refs_put_page:
  assumes "blk_shape s" "wf_conf (ssdparams s)" "0 \<le> ppn" "ppn < pages_of s"
  shows "page_refs (put_page s ppn v st) = (page_refs s)[nat ppn := v]"
proof -
  let ?k = "nat (ppn div page_nb_of s)" and ?r = "nat (ppn mod page_nb_of s)"
  let ?xss = "map valid_array (block_state_table s)"
  note w = wf_confD [OF assms(2)] and i = block_index_bound [OF assms(2-4)]
  have k: "?k < length (block_state_table s)"
    using assms(1) i by (simp add: blk_shape_def)
  have r: "?r < nat (page_nb_of s)" using w by simp
  have "page_refs (put_page s ppn v st) = concat (?xss[?k := (?xss ! ?k)[?r := v]])"
    using k by (simp add: page_refs_def put_page_def Let_def map_update)
  also have "\<dots> = (concat ?xss)[?k * nat (page_nb_of s) + ?r := v]"
    using concat_update_uniform [OF blk_shape_uniform [OF assms(1)]] k r by simp
  finally show ?thesis
    by (simp add: page_refs_def page_index_split [OF w(1) assms(3)])
qed

subsection \<open>One update, on every branch\<close>

lemma count_valid_eq:
  assumes "int (length va) = n"
  shows "count_valid va n = Some (int (length (filter (\<lambda>v. 0 < v) va)))"
proof -
  let ?f = "\<lambda>i n. do { v \<leftarrow> cread va i; Some (if 0 < v then n + 1 else n) }"
  have "\<exists>c. foldM ?f (cupto n) 0 = Some c \<and> c = int (length (filter (\<lambda>v. 0 < v) (take (nat n) va)))"
  proof (rule for_rule [where Q = "\<lambda>i c. c = int (length (filter (\<lambda>v. 0 < v) (take (nat i) va)))"])
    fix i c assume i: "0 \<le> i" "i < n" and c: "c = int (length (filter (\<lambda>v. 0 < v) (take (nat i) va)))"
    have "nat i < length va" using i assms by linarith
    moreover have "nat (i + 1) = Suc (nat i)" using i by simp
    ultimately show "\<exists>c'. ?f i c = Some c' \<and> c' = int (length (filter (\<lambda>v. 0 < v) (take (nat (i + 1)) va)))"
      using i assms c by (simp add: cread_Some take_Suc_conv_app_nth)
  qed (use assms in auto)
  then show ?thesis using assms by (auto simp: count_valid_def)
qed

lemma UPDATE_BLOCK_STATE_ENTRY_at:
  assumes "blk_shape s" "wf_conf (ssdparams s)" "0 \<le> ppn" "ppn < pages_of s"
  shows "UPDATE_BLOCK_STATE_ENTRY s (CALC_FLASH s ppn) (CALC_BLOCK s ppn) (CALC_PAGE s ppn) valid =
    (case bse_update valid (page_ref s ppn) (pstat s) of
       None \<Rightarrow> Some (FAIL, s)
     | Some (v, st) \<Rightarrow> Some (SUCCESS, put_page s ppn v st))"
proof -
  let ?k = "ppn div page_nb_of s" and ?e = "block_state_table s ! nat (ppn div page_nb_of s)"
  note w = wf_confD [OF assms(2)] and i = block_index_bound [OF assms(2-4)]
    and r = calc_ranges [OF assms(2-4)] and b = wf_conf_bounds [OF assms(2)]
  have k: "?k < int (length (block_state_table s))"
    using assms(1) i by (simp add: blk_shape_def)
  then have "nat ?k < length (block_state_table s)" using i(1) by linarith
  then have len: "int (length (valid_array ?e)) = page_nb_of s"
    using assms(1) by (simp add: blk_shape_def)
  have "\<not> u32 (flash_nb_of s) \<le> CALC_FLASH s ppn" "\<not> u32 (block_nb_of s) \<le> CALC_BLOCK s ppn"
    "\<not> u32 (page_nb_of s) \<le> CALC_PAGE s ppn"
    using r b w by (simp_all add: cint)
  moreover have "cread (block_state_table s) ?k = Some ?e" using i k by (simp add: cmem)
  moreover have "cread (valid_array ?e) (CALC_PAGE s ppn) = Some (page_ref s ppn)"
    using r len by (simp add: cmem page_ref_nth [OF assms] calc_eqs [OF assms(2-4)])
  moreover have "cwrite (valid_array ?e) (CALC_PAGE s ppn) v
      = Some ((valid_array ?e)[nat (ppn mod page_nb_of s) := v])" for v
    using r len by (simp add: cmem calc_eqs [OF assms(2-4)])
  moreover have "count_valid ((valid_array ?e)[j := v]) (page_nb_of s)
      = Some (int (length (filter (\<lambda>v. 0 < v) ((valid_array ?e)[j := v]))))" for j v
    using len by (intro count_valid_eq) simp
  moreover have "cwrite (block_state_table s) ?k e = Some ((block_state_table s)[nat ?k := e])" for e
    using i k by (simp add: cmem)
  ultimately show ?thesis
    by (simp add: UPDATE_BLOCK_STATE_ENTRY_def calc_compose [OF assms(2-4)] put_page_def Let_def
        split: option.split prod.split)
qed

lemma stat_ok_step:
  assumes "stat_ok rs st" "refs_range rs" "i < length rs" "int (length rs) < 2 ^ 31"
    "bse_update valid (rs ! i) st = Some (v, st')" "valid = VALID \<longrightarrow> rs ! i < 127"
  shows "stat_ok (rs[i := v]) st'" "refs_range (rs[i := v])"
proof -
  have ri: "- 1 \<le> rs ! i" "rs ! i \<le> 127"
    using assms(2,3) by (auto simp: refs_range_def)
  have cnt: "int (length (filter p rs)) < 2 ^ 31" for p
    using assms(4) length_filter_le [of p rs] by linarith
  have sm: "sum_list (map (max 0) rs) \<le> 127 * int (length rs)"
    using assms(2) by (intro sum_list_max0_bound) (auto simp: refs_range_def)
  have sum: "sum_list (map (max 0) (rs[i := x])) = sum_list (map (max 0) rs) - max 0 (rs ! i) + max 0 x" for x
    using assms(3) by (simp add: map_update sum_list_update)
  have pos: "p (rs ! i) \<Longrightarrow> 0 < int (length (filter p rs))" for p
    using assms(3) by (metis length_greater_0_conv filter_empty_conv nth_mem of_nat_0_less_iff)
  have mem: "max 0 (rs ! i) \<le> sum_list (map (max 0) rs)"
    using sum [of "- 1"] sum_list_max0_nonneg [of "rs[i := - 1]"] by simp
  have v: "- 1 \<le> v \<and> v \<le> 127"
    using assms(5,6) ri
    by (auto simp: bse_update_def bse_valid_def bse_invalid_def bse_free_def Let_def cint
        split: if_splits)
  then show "refs_range (rs[i := v])"
    using assms(2) by (auto simp: refs_range_def dest!: set_update_subset_insert [THEN subsetD])
  note [simp] = length_filter_update [OF assms(3)] sum stat_ok_def cint
  note b = assms(1) cnt [of "\<lambda>v. v = 0"] cnt [of "\<lambda>v. 0 < v"] cnt [of "\<lambda>v. 1 < v"]
    cnt [of "\<lambda>v. v < 0"] sm mem assms(4) sum_list_max0_nonneg [of rs]
    pos [of "\<lambda>v. v = 0"] pos [of "\<lambda>v. 0 < v"] pos [of "\<lambda>v. 1 < v"] pos [of "\<lambda>v. v < 0"]
  consider "valid = VALID" | "valid = INVALID" | "valid = 0" | "valid \<notin> {VALID, INVALID, 0}" by blast
  then show "stat_ok (rs[i := v]) st'"
  proof cases
    case 1
    then have u: "bse_valid (rs ! i) st = Some (v, st')" "rs ! i < 127"
      using assms(5,6) by (simp_all add: bse_update_def)
    then consider "rs ! i = 0" | "rs ! i = 1" | "1 < rs ! i" by (force simp: bse_valid_def split: if_splits)
    then show ?thesis using u b by cases (auto simp: bse_valid_def Let_def)
  next
    case 2
    then have u: "bse_invalid (rs ! i) st = Some (v, st')"
      using assms(5) by (simp add: bse_update_def)
    then consider "rs ! i = 1" | "rs ! i = 2" | "2 < rs ! i" by (force simp: bse_invalid_def split: if_splits)
    then show ?thesis using u b ri by cases (auto simp: bse_invalid_def Let_def)
  next
    case 3
    then have u: "bse_free (rs ! i) st = Some (v, st')"
      using assms(5) by (simp add: bse_update_def)
    consider "rs ! i = - 1" | "rs ! i = 0" | "rs ! i = 1" | "1 < rs ! i" using ri by linarith
    then show ?thesis using u b ri by cases (auto simp: bse_free_def Let_def)
  next
    case 4
    then have "v = rs ! i" "st' = st" using assms(5) by (auto simp: bse_update_def)
    then show ?thesis using assms(1) by simp
  qed
qed

subsection \<open>The invariant is kept\<close>

lemma blk_invD:
  assumes "blk_inv s"
  shows "blk_shape s" "wf_conf (ssdparams s)" "refs_range (page_refs s)" "stat_ok (page_refs s) (pstat s)"
    "length (page_refs s) = nat (pages_of s)" "int (length (page_refs s)) < 2 ^ 31"
  using assms length_page_refs [of s] wf_confD [of "ssdparams s"] by (auto simp: blk_inv_def)

lemma page_ref_range:
  assumes "blk_inv s" "0 \<le> ppn" "ppn < pages_of s"
  shows "- 1 \<le> page_ref s ppn" "page_ref s ppn \<le> 127"
proof -
  have "nat ppn < length (page_refs s)" using blk_invD(5) [OF assms(1)] assms(2,3) by simp
  then show "- 1 \<le> page_ref s ppn" "page_ref s ppn \<le> 127"
    using blk_invD(3) [OF assms(1)] by (auto simp: page_ref_def refs_range_def)
qed

lemma page_ref_put_page:
  assumes "blk_shape s" "wf_conf (ssdparams s)" "0 \<le> ppn" "ppn < pages_of s" "0 \<le> q"
  shows "page_ref (put_page s ppn v st) q = (if q = ppn then v else page_ref s q)"
  using assms length_page_refs [of s] page_refs_put_page [OF assms(1-4)]
  by (auto simp: page_ref_def nat_eq_iff nth_list_update)

lemma bse_step:
  assumes "blk_inv s" "0 \<le> ppn" "ppn < pages_of s"
    "bse_update valid (page_ref s ppn) (pstat s) = Some (v, st)" "valid = VALID \<longrightarrow> page_ref s ppn < 127"
  shows "UPDATE_BLOCK_STATE_ENTRY s (CALC_FLASH s ppn) (CALC_BLOCK s ppn) (CALC_PAGE s ppn) valid
      = Some (SUCCESS, put_page s ppn v st)" (is ?A)
    and "blk_inv (put_page s ppn v st)" (is ?B)
proof -
  note I = blk_invD [OF assms(1)]
  show ?A using assms(4) UPDATE_BLOCK_STATE_ENTRY_at [OF I(1,2) assms(2,3), of valid] by simp
  have "nat ppn < length (page_refs s)" using I(5) assms(2,3) by simp
  from stat_ok_step [OF I(4,3) this I(6)] assms(4,5)
  show ?B
    using page_refs_put_page [OF I(1,2) assms(2,3)] blk_shape_put_page [OF I(1,2) assms(2,3)] I(2)
    by (auto simp: blk_inv_def page_ref_def)
qed

text \<open>The three uses the flash translation layer makes of the update.\<close>

definition ref_stat :: "int \<Rightarrow> int \<Rightarrow> page_stat \<Rightarrow> page_stat" where
  "ref_stat valid v st = snd (the (bse_update valid v st))"

lemma add_ref:
  assumes "blk_inv s" "0 \<le> ppn" "ppn < pages_of s" "0 \<le> page_ref s ppn" "page_ref s ppn < 127"
  shows "UPDATE_BLOCK_STATE_ENTRY s (CALC_FLASH s ppn) (CALC_BLOCK s ppn) (CALC_PAGE s ppn) VALID
      = Some (SUCCESS, put_page s ppn (page_ref s ppn + 1) (ref_stat VALID (page_ref s ppn) (pstat s)))"
    and "blk_inv (put_page s ppn (page_ref s ppn + 1) (ref_stat VALID (page_ref s ppn) (pstat s)))"
proof -
  have "bse_update VALID (page_ref s ppn) (pstat s)
      = Some (page_ref s ppn + 1, ref_stat VALID (page_ref s ppn) (pstat s))"
    using assms(4,5) by (simp add: ref_stat_def bse_update_def bse_valid_def Let_def cint)
  from bse_step [OF assms(1-3) this] assms(5)
  show "UPDATE_BLOCK_STATE_ENTRY s (CALC_FLASH s ppn) (CALC_BLOCK s ppn) (CALC_PAGE s ppn) VALID
      = Some (SUCCESS, put_page s ppn (page_ref s ppn + 1) (ref_stat VALID (page_ref s ppn) (pstat s)))"
    "blk_inv (put_page s ppn (page_ref s ppn + 1) (ref_stat VALID (page_ref s ppn) (pstat s)))"
    by simp_all
qed

definition dropped :: "int \<Rightarrow> int" where
  "dropped v = (if v = 1 then - 1 else v - 1)"

lemma drop_ref:
  assumes "blk_inv s" "0 \<le> ppn" "ppn < pages_of s" "0 < page_ref s ppn"
  shows "UPDATE_BLOCK_STATE_ENTRY s (CALC_FLASH s ppn) (CALC_BLOCK s ppn) (CALC_PAGE s ppn) INVALID
      = Some (SUCCESS, put_page s ppn (dropped (page_ref s ppn)) (ref_stat INVALID (page_ref s ppn) (pstat s)))"
    and "blk_inv (put_page s ppn (dropped (page_ref s ppn)) (ref_stat INVALID (page_ref s ppn) (pstat s)))"
proof -
  have "bse_update INVALID (page_ref s ppn) (pstat s)
      = Some (dropped (page_ref s ppn), ref_stat INVALID (page_ref s ppn) (pstat s))"
    using assms(4) page_ref_range [OF assms(1-3)]
    by (simp add: ref_stat_def bse_update_def bse_invalid_def dropped_def Let_def cint)
  from bse_step [OF assms(1-3) this]
  show "UPDATE_BLOCK_STATE_ENTRY s (CALC_FLASH s ppn) (CALC_BLOCK s ppn) (CALC_PAGE s ppn) INVALID
      = Some (SUCCESS, put_page s ppn (dropped (page_ref s ppn)) (ref_stat INVALID (page_ref s ppn) (pstat s)))"
    "blk_inv (put_page s ppn (dropped (page_ref s ppn)) (ref_stat INVALID (page_ref s ppn) (pstat s)))"
    by simp_all
qed

lemma free_page:
  assumes "blk_inv s" "0 \<le> ppn" "ppn < pages_of s"
  shows "UPDATE_BLOCK_STATE_ENTRY s (CALC_FLASH s ppn) (CALC_BLOCK s ppn) (CALC_PAGE s ppn) 0
      = Some (SUCCESS, put_page s ppn 0 (ref_stat 0 (page_ref s ppn) (pstat s)))"
    and "blk_inv (put_page s ppn 0 (ref_stat 0 (page_ref s ppn) (pstat s)))"
proof -
  have "bse_update 0 (page_ref s ppn) (pstat s) = Some (0, ref_stat 0 (page_ref s ppn) (pstat s))"
    using page_ref_range [OF assms] by (auto simp: ref_stat_def bse_update_def bse_free_def Let_def)
  from bse_step [OF assms(1-3) this]
  show "UPDATE_BLOCK_STATE_ENTRY s (CALC_FLASH s ppn) (CALC_BLOCK s ppn) (CALC_PAGE s ppn) 0
      = Some (SUCCESS, put_page s ppn 0 (ref_stat 0 (page_ref s ppn) (pstat s)))"
    "blk_inv (put_page s ppn 0 (ref_stat 0 (page_ref s ppn) (pstat s)))"
    by simp_all
qed

subsection \<open>Block types and erasing\<close>

definition set_type :: "ssdstate \<Rightarrow> int \<Rightarrow> int \<Rightarrow> ssdstate" where
  "set_type s k ty = s\<lparr>block_state_table :=
     (block_state_table s)[nat k := (block_state_table s ! nat k)\<lparr>block_type := ty\<rparr>]\<rparr>"

lemma page_refs_set_type [simp]:
  "nat k < length (block_state_table s) \<Longrightarrow> page_refs (set_type s k ty) = page_refs s"
  using list_update_id [of "map valid_array (block_state_table s)" "nat k"]
  by (simp add: page_refs_def set_type_def map_update)

lemma set_type_frame [simp, frame]:
  "ssdparams (set_type s k ty) = ssdparams s" "mapping_table (set_type s k ty) = mapping_table s"
  "in_nvram (set_type s k ty) = in_nvram s" "pstat (set_type s k ty) = pstat s"
  "inverse_mapping_table (set_type s k ty) = inverse_mapping_table s"
  "NVRAM_OOB_TABLE (set_type s k ty) = NVRAM_OOB_TABLE s" "nstat (set_type s k ty) = nstat s"
  "empty_block_list (set_type s k ty) = empty_block_list s"
  "victim_block_list (set_type s k ty) = victim_block_list s"
  "total_empty_block_nb (set_type s k ty) = total_empty_block_nb s"
  "total_victim_block_nb (set_type s k ty) = total_victim_block_nb s"
  "empty_block_table_index (set_type s k ty) = empty_block_table_index s"
  "sb_deb (set_type s k ty) = sb_deb s" "devtime (set_type s k ty) = devtime s"
  "iostat (set_type s k ty) = iostat s" "perf (set_type s k ty) = perf s"
  "xl2p_ppn (set_type s k ty) = xl2p_ppn s"
  by (simp_all add: set_type_def)

lemma blk_shape_set_type:
  "blk_shape s \<Longrightarrow> nat k < length (block_state_table s) \<Longrightarrow> blk_shape (set_type s k ty)"
  using nth_mem [of "nat k" "block_state_table s"]
  by (auto simp: blk_shape_def set_type_def dest!: set_update_subset_insert [THEN subsetD])

lemma blk_inv_set_type:
  "blk_inv s \<Longrightarrow> nat k < length (block_state_table s) \<Longrightarrow> blk_inv (set_type s k ty)"
  by (simp add: blk_inv_def blk_shape_set_type)

lemma block_index_range:
  assumes "blk_shape s" "wf_conf (ssdparams s)" "0 \<le> f" "f < flash_nb_of s" "0 \<le> b" "b < block_nb_of s"
  shows "GET_BLOCK_STATE_ENTRY s f b = f * block_nb_of s + b"
    "0 \<le> f * block_nb_of s + b" "f * block_nb_of s + b < int (length (block_state_table s))"
proof -
  note w = wf_confD [OF assms(2)]
  have "f * block_nb_of s + b < flash_nb_of s * block_nb_of s"
    using mult_right_mono [of f "flash_nb_of s - 1" "block_nb_of s"] assms w
    by (simp add: algebra_simps)
  moreover have "int (length (block_state_table s)) = flash_nb_of s * block_nb_of s"
    using assms(1) w by (simp add: blk_shape_def)
  moreover show "0 \<le> f * block_nb_of s + b" using assms w by simp
  ultimately show "GET_BLOCK_STATE_ENTRY s f b = f * block_nb_of s + b"
    "f * block_nb_of s + b < int (length (block_state_table s))"
    using wf_conf_bounds(4) [OF assms(2)] by (simp_all add: GET_BLOCK_STATE_ENTRY_def cint)
qed

lemma UPDATE_BLOCK_STATE_type:
  assumes "blk_shape s" "wf_conf (ssdparams s)" "0 \<le> f" "f < flash_nb_of s" "0 \<le> b" "b < block_nb_of s"
    "ty \<noteq> EMPTY_BLOCK"
  shows "UPDATE_BLOCK_STATE s f b ty = Some (SUCCESS, set_type s (f * block_nb_of s + b) ty)"
  using assms block_index_range [OF assms(1-6)]
  by (simp add: UPDATE_BLOCK_STATE_def set_type_def cmem Let_def)

text \<open>What an operation on the block state table may change of the device.\<close>

definition same_but_blk :: "ssdstate \<Rightarrow> ssdstate \<Rightarrow> bool" where
  "same_but_blk s s' \<longleftrightarrow> (\<exists>t st. s' = s\<lparr>block_state_table := t, pstat := st\<rparr>)"

lemma same_but_blk_trans: "same_but_blk s s' \<Longrightarrow> same_but_blk s' s'' \<Longrightarrow> same_but_blk s s''"
  unfolding same_but_blk_def by clarsimp blast

lemma same_but_blk_put_page [simp]: "same_but_blk s (put_page s ppn v st)"
  unfolding same_but_blk_def put_page_def Let_def by (intro exI) (rule refl)

lemma same_but_blk_set_type [simp]: "same_but_blk s (set_type s k ty)"
  unfolding same_but_blk_def set_type_def
  by (intro exI [of _ "(block_state_table s)[nat k := (block_state_table s ! nat k)\<lparr>block_type := ty\<rparr>]"]
      exI [of _ "pstat s"]) simp

text \<open>Erasing a block: every page of it is free again, no other page is touched.\<close>

lemma UPDATE_BLOCK_STATE_empty:
  assumes "blk_inv s" "0 \<le> f" "f < flash_nb_of s" "0 \<le> b" "b < block_nb_of s"
  shows "\<exists>s'. UPDATE_BLOCK_STATE s f b EMPTY_BLOCK = Some (SUCCESS, s') \<and> blk_inv s' \<and> same_but_blk s s' \<and>
    (\<forall>ppn. 0 \<le> ppn \<longrightarrow> ppn < pages_of s \<longrightarrow>
       page_ref s' ppn = (if ppn div page_nb_of s = f * block_nb_of s + b then 0 else page_ref s ppn))"
proof -
  note I = blk_invD [OF assms(1)] and w = wf_confD [OF blk_invD(2) [OF assms(1)]]
  let ?k = "f * block_nb_of s + b"
  note k = block_index_range [OF I(1,2) assms(2-5)]
  have kk: "nat ?k < length (block_state_table s)" using k by linarith
  let ?s1 = "set_type s ?k EMPTY_BLOCK"
  let ?body = "\<lambda>i s. do { (r, s') \<leftarrow> UPDATE_BLOCK_STATE_ENTRY s f b i 0; Some s' }"
  let ?Q = "\<lambda>i s'. blk_inv s' \<and> same_but_blk s s' \<and> ssdparams s' = ssdparams s \<and>
    (\<forall>ppn. 0 \<le> ppn \<longrightarrow> ppn < pages_of s \<longrightarrow>
       page_ref s' ppn = (if ppn div page_nb_of s = ?k \<and> ppn mod page_nb_of s < i then 0 else page_ref s ppn))"
  have "\<exists>s'. foldM ?body (cupto (page_nb_of s)) ?s1 = Some s' \<and> ?Q (page_nb_of s) s'"
  proof (rule for_rule [where Q = ?Q])
    have "\<not> ppn mod page_nb_of s < 0" for ppn
      using w(1) by (simp add: not_less)
    then show "?Q 0 ?s1"
      using assms(1) kk by (simp add: blk_inv_set_type page_ref_def)
  next
    fix i s' assume i: "0 \<le> i" "i < page_nb_of s" and Q: "?Q i s'"
    then have wf': "wf_conf (ssdparams s')" and P: "ssdparams s' = ssdparams s"
      and inv': "blk_inv s'" using I(2) by simp_all
    let ?a = "phys_addr s' f b i"
    have r: "f < flash_nb_of s'" "b < block_nb_of s'" "i < page_nb_of s'"
      using assms i P by simp_all
    note a = phys_addr_bounds [OF wf' assms(2) r(1) assms(4) r(2) i(1) r(3)]
    note c = calc_phys_addr [OF wf' assms(2) r(1) assms(4) r(2) i(1) r(3)]
    have "?body i s' = Some (put_page s' ?a 0 (ref_stat 0 (page_ref s' ?a) (pstat s')))"
      using free_page(1) [OF inv' a(2,3)] by (simp add: c)
    moreover have "blk_inv (put_page s' ?a 0 (ref_stat 0 (page_ref s' ?a) (pstat s')))"
      using free_page(2) [OF inv' a(2,3)] .
    moreover have "ppn = ?a \<longleftrightarrow> ppn div page_nb_of s = ?k \<and> ppn mod page_nb_of s = i" for ppn
    proof
      assume "ppn div page_nb_of s = ?k \<and> ppn mod page_nb_of s = i"
      then show "ppn = ?a" using a(1) P div_mult_mod_eq [of ppn "page_nb_of s"] by metis
    qed (use a(1) i P in simp)
    ultimately show "\<exists>s''. ?body i s' = Some s'' \<and> ?Q (i + 1) s''"
      using Q page_ref_put_page [OF blk_invD(1,2) [OF inv'] a(2,3)]
      by (auto intro: same_but_blk_trans)
  qed (use w in simp)
  then obtain s' where s': "foldM ?body (cupto (page_nb_of s)) ?s1 = Some s'" "?Q (page_nb_of s) s'"
    by blast
  have "UPDATE_BLOCK_STATE s f b EMPTY_BLOCK = Some (SUCCESS, s')"
    using k s'(1) by (simp add: UPDATE_BLOCK_STATE_def cmem set_type_def Let_def)
  with s'(2) w(1) show ?thesis by auto
qed

end
