(* ===== verification/BlockLists.thy ===== *)
theory BlockLists
  imports BlockState
begin

section \<open>Free blocks, full blocks and the allocation of pages\<close>

text \<open>
  The lists of free and of full (victim) blocks, one root per plane of every flash chip, and the
  page allocator on top of them (\<open>ftl_inverse_mapping_manager.c\<close>, \<open>GET_NEW_PAGE\<close> of
  \<open>ftl_mapping_manager.c\<close>, \<open>SELECT_VICTIM_SUPERBLOCK\<close> of \<open>ftl_gc_manager.c\<close>). Blocks are opened and
  closed a superblock at a time: the blocks at the heads of all the roots.

  A pointer to the block that pages are taken from is the number of the root whose \<open>head\<close> it is; a
  pointer to a victim entry is the number of its root and its position in that root's chain.
\<close>

subsection \<open>Operations\<close>

text \<open>Remainder with an unsigned left operand; a zero divisor is a fault.\<close>

definition umod :: "int \<Rightarrow> int \<Rightarrow> int option" where
  "umod a b = (if u32 b = 0 then None else Some (a mod u32 b))"

text \<open>\<open>mapping_index\<close> of a block: the root of its plane.\<close>

definition root_of :: "ssdconf \<Rightarrow> int \<Rightarrow> int \<Rightarrow> int option" where
  "root_of sc phy_flash_nb phy_block_nb =
     do {
       plane_nb \<leftarrow> umod phy_block_nb (PLANES_PER_FLASH sc);
       Some (s32 (plane_nb * FLASH_NB sc + phy_flash_nb))
     }"

definition INSERT_EMPTY_BLOCK :: "ssdstate \<Rightarrow> int \<Rightarrow> int \<Rightarrow> (int \<times> ssdstate) option" where
  "INSERT_EMPTY_BLOCK ssd phy_flash_nb phy_block_nb =
     do {
       let new_empty_block = \<lparr>eb_flash = phy_flash_nb, eb_block = phy_block_nb, eb_curr_page = 0\<rparr>;
       mapping_index \<leftarrow> root_of (ssdparams ssd) phy_flash_nb phy_block_nb;
       root \<leftarrow> cread (empty_block_list ssd) mapping_index;
       let root' = (if empty_head root = []
                    then root\<lparr>empty_head := [new_empty_block], empty_block_nb := 1\<rparr>
                    else root\<lparr>empty_head := empty_head root @ [new_empty_block],
                              empty_block_nb := u32 (empty_block_nb root + 1)\<rparr>);
       l \<leftarrow> cwrite (empty_block_list ssd) mapping_index root';
       Some (SUCCESS, ssd\<lparr>empty_block_list := l, total_empty_block_nb := total_empty_block_nb ssd + 1\<rparr>)
     }"

definition INSERT_VICTIM_BLOCK :: "ssdstate \<Rightarrow> empty_block_entry \<Rightarrow> (int \<times> ssdstate) option" where
  "INSERT_VICTIM_BLOCK ssd full_block =
     do {
       let new_v_b_entry = \<lparr>vb_flash = eb_flash full_block, vb_block = eb_block full_block\<rparr>;
       mapping_index \<leftarrow> root_of (ssdparams ssd) (eb_flash full_block) (eb_block full_block);
       root \<leftarrow> cread (victim_block_list ssd) mapping_index;
       root' \<leftarrow> (if victim_block_nb root = 0
                 then Some (root\<lparr>vb_chain := [new_v_b_entry], victim_block_nb := 1\<rparr>)
                 else if vb_chain root = [] then None
                 else Some (root\<lparr>vb_chain := vb_chain root @ [new_v_b_entry],
                                 victim_block_nb := u32 (victim_block_nb root + 1)\<rparr>));
       l \<leftarrow> cwrite (victim_block_list ssd) mapping_index root';
       Some (SUCCESS, ssd\<lparr>victim_block_list := l, total_victim_block_nb := total_victim_block_nb ssd + 1\<rparr>)
     }"

text \<open>
  Unlinking the entry at position \<open>k\<close> of a chain; \<open>own\<close> says whether the chain is that of the root the
  entry's address belongs to, whose counter is \<open>nb\<close>. An entry that is neither head nor tail of
  that root is unlinked from its neighbours, which must exist.
\<close>

definition unlink_at :: "bool \<Rightarrow> int \<Rightarrow> int \<Rightarrow> 'a list \<Rightarrow> 'a list option" where
  "unlink_at own nb k xs =
     (if own \<and> k = 0 then
        (if nb = 1 then Some []
         else if length xs \<le> 1 then None
         else Some (tl xs))
      else if own \<and> k = int (length xs) - 1 then Some (butlast xs)
      else if 0 < k \<and> k < int (length xs) - 1 then Some (take (nat k) xs @ drop (Suc (nat k)) xs)
      else None)"

definition unlink_victim :: "victim_block_root list \<Rightarrow> int \<Rightarrow> int \<Rightarrow> int \<Rightarrow> victim_block_root list option" where
  "unlink_victim roots j k m =
     do {
       rj \<leftarrow> cread roots j;
       rm \<leftarrow> cread roots m;
       c \<leftarrow> unlink_at (m = j) (victim_block_nb rm) k (vb_chain rj);
       roots1 \<leftarrow> cwrite roots j (rj\<lparr>vb_chain := c\<rparr>);
       rm1 \<leftarrow> cread roots1 m;
       cwrite roots1 m (rm1\<lparr>victim_block_nb := u32 (victim_block_nb rm1 - 1)\<rparr>)
     }"

definition EJECT_VICTIM_BLOCK :: "ssdstate \<Rightarrow> int \<times> int \<Rightarrow> (int \<times> ssdstate) option" where
  "EJECT_VICTIM_BLOCK ssd victim_block =
     do {
       let (j, k) = victim_block;
       rj \<leftarrow> cread (victim_block_list ssd) j;
       e \<leftarrow> cread (vb_chain rj) k;
       mapping_index \<leftarrow> root_of (ssdparams ssd) (vb_flash e) (vb_block e);
       l \<leftarrow> unlink_victim (victim_block_list ssd) j k mapping_index;
       Some (SUCCESS, ssd\<lparr>victim_block_list := l, total_victim_block_nb := total_victim_block_nb ssd - 1\<rparr>)
     }"

text \<open>Opening a superblock: every root moves its first free block to \<open>head\<close>.\<close>

definition open_superblock :: "ssdstate \<Rightarrow> ssdstate option" where
  "open_superblock ssd =
     do {
       l \<leftarrow> foldM (\<lambda>i l. do {
              root \<leftarrow> cread l i;
              (case empty_head root of
                 [] \<Rightarrow> None
               | e # es \<Rightarrow> cwrite l i (root\<lparr>empty_head := es, eb_head := Some e,
                                           empty_block_nb := u32 (empty_block_nb root - 1)\<rparr>))
            }) (cupto (EMPTY_TABLE_ENTRY_NB (ssdparams ssd))) (empty_block_list ssd);
       Some (ssd\<lparr>empty_block_list := l\<rparr>)
     }"

text \<open>Closing a full superblock: the head of every root becomes a victim block.\<close>

definition close_superblock :: "ssdstate \<Rightarrow> ssdstate option" where
  "close_superblock ssd =
     foldM (\<lambda>i ssd. do {
         root \<leftarrow> cread (empty_block_list ssd) i;
         e \<leftarrow> eb_head root;
         (r, ssd1) \<leftarrow> INSERT_VICTIM_BLOCK ssd e;
         l \<leftarrow> cwrite (empty_block_list ssd1) i (root\<lparr>eb_head := None\<rparr>);
         Some (ssd1\<lparr>empty_block_list := l, total_empty_block_nb := total_empty_block_nb ssd1 - 1\<rparr>)
       }) (cupto (EMPTY_TABLE_ENTRY_NB (ssdparams ssd))) ssd"

definition next_root :: "ssdstate \<Rightarrow> int" where
  "next_root ssd =
     (let i = u32 (empty_block_table_index ssd + 1)
      in if i = EMPTY_TABLE_ENTRY_NB (ssdparams ssd) then 0 else i)"

text \<open>
  The loop of \<open>GET_EMPTY_BLOCK\<close> in the mode \<open>VICTIM_OVERALL\<close>. \<open>Some (None, s)\<close> is the null pointer. The
  branch that only prints an error repeats the loop in the same state: it never ends.
\<close>

partial_function (option) get_empty_overall :: "ssdstate \<Rightarrow> (int option \<times> ssdstate) option" where
  "get_empty_overall ssd =
     (if total_empty_block_nb ssd = 0 then Some (None, ssd)
      else do {
        root \<leftarrow> cread (empty_block_list ssd) (empty_block_table_index ssd);
        (case eb_head root of
           None \<Rightarrow>
             (if empty_head root = []
              then get_empty_overall (ssd\<lparr>empty_block_table_index := next_root ssd\<rparr>)
              else if empty_block_table_index ssd = 0
              then do {
                ssd1 \<leftarrow> open_superblock ssd;
                Some (Some 0, ssd1\<lparr>empty_block_table_index := u32 (empty_block_table_index ssd + 1)\<rparr>)
              }
              else get_empty_overall ssd)
         | Some e \<Rightarrow>
             (if eb_curr_page e = u32 (PAGE_NB (ssdparams ssd))
              then do {
                last_plane \<leftarrow> umod (eb_block e) (PLANES_PER_FLASH (ssdparams ssd));
                (if eb_flash e = u32 (FLASH_NB (ssdparams ssd) - 1) \<and>
                    last_plane = u32 (PLANES_PER_FLASH (ssdparams ssd) - 1)
                 then do {
                   ssd1 \<leftarrow> close_superblock ssd;
                   get_empty_overall (ssd1\<lparr>empty_block_table_index := 0\<rparr>)
                 }
                 else get_empty_overall (ssd\<lparr>empty_block_table_index := next_root ssd\<rparr>))
              }
              else Some (Some (empty_block_table_index ssd),
                         ssd\<lparr>empty_block_table_index := next_root ssd\<rparr>)))
      })"

text \<open>
  In the mode \<open>VICTIM_INCHIP\<close> the loop returns a pointer it never assigned as soon as a root has
  blocks, and so does \<open>VICTIM_NOPARAL\<close>; no caller of the built configuration uses these modes.
\<close>

partial_function (option) get_empty_inchip :: "ssdstate \<Rightarrow> int \<Rightarrow> int \<Rightarrow> (int option \<times> ssdstate) option" where
  "get_empty_inchip ssd input_mapping_index mapping_index =
     (if total_empty_block_nb ssd = 0 then Some (None, ssd)
      else do {
        root \<leftarrow> cread (empty_block_list ssd) mapping_index;
        (if empty_block_nb root = 0 then
           (if PLANES_PER_FLASH (ssdparams ssd) \<noteq> 1 then
              let m = mapping_index + 1;
                  m' = (if m smod PLANES_PER_FLASH (ssdparams ssd) = 0
                        then m - (PLANES_PER_FLASH (ssdparams ssd) - 1) else m)
              in if m' = input_mapping_index then Some (None, ssd)
                 else get_empty_inchip ssd input_mapping_index m'
            else Some (None, ssd))
         else None)
      })"

partial_function (option) get_empty_noparal :: "ssdstate \<Rightarrow> int \<Rightarrow> (int option \<times> ssdstate) option" where
  "get_empty_noparal ssd mapping_index =
     (if total_empty_block_nb ssd = 0 then Some (None, ssd)
      else do {
        root \<leftarrow> cread (empty_block_list ssd) mapping_index;
        (if empty_block_nb root = 0 then
           (if mapping_index + 1 = EMPTY_TABLE_ENTRY_NB (ssdparams ssd)
            then get_empty_noparal (ssd\<lparr>empty_block_table_index := 0\<rparr>) 0
            else get_empty_noparal
                   (ssd\<lparr>empty_block_table_index := u32 (empty_block_table_index ssd + 1)\<rparr>) (mapping_index + 1))
         else None)
      })"

definition GET_EMPTY_BLOCK :: "ssdstate \<Rightarrow> int \<Rightarrow> int \<Rightarrow> (int option \<times> ssdstate) option" where
  "GET_EMPTY_BLOCK ssd mode mapping_index =
     (if total_empty_block_nb ssd = 0 then Some (None, ssd)
      else if mode = VICTIM_OVERALL then get_empty_overall ssd
      else if mode = VICTIM_INCHIP then get_empty_inchip ssd mapping_index mapping_index
      else if mode = VICTIM_NOPARAL then get_empty_noparal ssd mapping_index
      else None)"

text \<open>
  The superblock check of \<open>GET_NEW_PAGE\<close>: pages must be handed out plane after plane, and the block
  may only change at plane 0. \<open>None\<close> is the return of \<open>FAIL\<close>.
\<close>

definition sb_check :: "ssdconf \<Rightarrow> sb_debug \<Rightarrow> int \<Rightarrow> int \<Rightarrow> sb_debug option" where
  "sb_check sc deb plane_nb block_nb =
     (if plane_nb = 0 then
        (if sb_plane_nb deb \<noteq> PLANES_PER_FLASH sc * FLASH_NB sc - 1 then None
         else Some (deb\<lparr>sb_block_nb := block_nb, sb_plane_nb := 0\<rparr>))
      else if sb_block_nb deb \<noteq> block_nb then None
      else if sb_plane_nb deb \<noteq> plane_nb - 1 then None
      else Some (deb\<lparr>sb_plane_nb := plane_nb\<rparr>))"

text \<open>
  Taking the next page of the block that is at the head of root \<open>j\<close>: \<open>Some (Some ppn, s)\<close> is
  \<open>SUCCESS\<close> with the page number, \<open>Some (None, s)\<close> is \<open>FAIL\<close>.
\<close>

definition take_page :: "ssdstate \<Rightarrow> int \<Rightarrow> (int option \<times> ssdstate) option" where
  "take_page ssd j =
     do {
       root \<leftarrow> cread (empty_block_list ssd) j;
       e \<leftarrow> eb_head root;
       let sc = ssdparams ssd;
       off \<leftarrow> umod (eb_block e) (PLANES_PER_FLASH sc);
       let plane_nb = s32 (eb_flash e * PLANES_PER_FLASH sc + off);
       let block_nb = s32 (eb_block e div u32 (PLANES_PER_FLASH sc));
       (case sb_check sc (sb_deb ssd) plane_nb block_nb of
          None \<Rightarrow> Some (None, ssd)
        | Some deb \<Rightarrow> do {
            let ppn = phys_addr ssd (eb_flash e) (eb_block e) (eb_curr_page e);
            l \<leftarrow> cwrite (empty_block_list ssd) j
                  (root\<lparr>eb_head := Some (e\<lparr>eb_curr_page := u32 (eb_curr_page e + 1)\<rparr>)\<rparr>);
            Some (Some ppn, ssd\<lparr>empty_block_list := l, sb_deb := deb\<rparr>)
          })
     }"

text \<open>\<open>GET_NEW_PAGE\<close> dereferences the block in the check before it compares it with the null pointer.\<close>

definition GET_NEW_PAGE :: "ssdstate \<Rightarrow> int \<Rightarrow> int \<Rightarrow> (int option \<times> ssdstate) option" where
  "GET_NEW_PAGE ssd mode mapping_index =
     do {
       (curr_empty_block, ssd1) \<leftarrow> GET_EMPTY_BLOCK ssd mode mapping_index;
       j \<leftarrow> curr_empty_block;
       take_page ssd1 j
     }"

subsection \<open>Choosing the victim superblock\<close>

text \<open>
  The valid pages of the \<open>i\<close>-th row of the victim roots. \<open>Some None\<close> is the early return of
  \<open>FAIL\<close> (roots of different lengths or of different block numbers).
\<close>

fun scan_row :: "ssdstate \<Rightarrow> int \<Rightarrow> int \<Rightarrow> int list \<Rightarrow> int \<Rightarrow> int \<Rightarrow> int option option" where
  "scan_row ssd entry_nb i [] first_block_nb curr_valid_page_nb = Some (Some curr_valid_page_nb)"
| "scan_row ssd entry_nb i (j # js) first_block_nb curr_valid_page_nb =
     do {
       root \<leftarrow> cread (victim_block_list ssd) j;
       (if i = 0 \<and> s32 (victim_block_nb root) \<noteq> entry_nb then Some None
        else do {
          e \<leftarrow> cread (vb_chain root) i;
          let first = (if j = 0 then vb_block e else first_block_nb);
          (if vb_block e \<noteq> first then Some None
           else do {
             b \<leftarrow> cread (block_state_table ssd) (GET_BLOCK_STATE_ENTRY ssd (vb_flash e) (vb_block e));
             scan_row ssd entry_nb i js first (curr_valid_page_nb + valid_page_nb b)
           })
        })
     }"

fun scan_rows :: "ssdstate \<Rightarrow> int \<Rightarrow> int list \<Rightarrow> int \<times> int \<Rightarrow> (int \<times> int) option option" where
  "scan_rows ssd entry_nb [] acc = Some (Some acc)"
| "scan_rows ssd entry_nb (i # is) acc =
     do {
       r \<leftarrow> scan_row ssd entry_nb i (cupto (VICTIM_TABLE_ENTRY_NB (ssdparams ssd))) 0 0;
       (case r of
          None \<Rightarrow> Some None
        | Some c \<Rightarrow> scan_rows ssd entry_nb is (if c < snd acc then (i, c) else acc))
     }"

definition max_valid_pages :: "ssdconf \<Rightarrow> int" where
  "max_valid_pages sc = PAGE_NB sc * FLASH_NB sc * PLANES_PER_FLASH sc"

definition SELECT_VICTIM_SUPERBLOCK :: "ssdstate \<Rightarrow> (int option \<times> ssdstate) option" where
  "SELECT_VICTIM_SUPERBLOCK ssd =
     (if total_victim_block_nb ssd = 0 then Some (None, ssd)
      else do {
        root0 \<leftarrow> cread (victim_block_list ssd) 0;
        (if victim_block_nb root0 = 0 then Some (None, ssd)
         else do {
           let entry_nb = s32 (victim_block_nb root0);
           r \<leftarrow> scan_rows ssd entry_nb (cupto entry_nb) (0, max_valid_pages (ssdparams ssd));
           (case r of
              None \<Rightarrow> Some (None, ssd)
            | Some (off, min_valid_page_nb) \<Rightarrow>
                (if min_valid_page_nb = max_valid_pages (ssdparams ssd)
                 then Some (None, ssd\<lparr>iostat := (iostat ssd)\<lparr>fail_cnt := fail_cnt (iostat ssd) + 1\<rparr>\<rparr>)
                 else do {
                   v \<leftarrow> cread (vb_chain root0) off;
                   ssd1 \<leftarrow> foldM (\<lambda>j s. do { (r, s') \<leftarrow> EJECT_VICTIM_BLOCK s (j, off); Some s' })
                             (cupto (VICTIM_TABLE_ENTRY_NB (ssdparams ssd))) ssd;
                   Some (Some (vb_block v), ssd1)
                 }))
         })
      })"

end
