(* ===== verification/Allocator.thy ===== *)
theory Allocator
  imports BlockLists
begin

section \<open>The page allocator refines a round-robin superblock allocator\<close>

text \<open>
  The abstract allocator has the free superblocks in the order they will be used, the open
  superblock with the number of its pages handed out, and the full superblocks. It hands out the
  pages of the open superblock flash after flash. \<open>alloc_rel\<close> relates it to the roots, counters,
  table index and debug record of the device; \<open>GET_NEW_PAGE\<close>, \<open>INSERT_EMPTY_BLOCK\<close> and
  \<open>SELECT_VICTIM_SUPERBLOCK\<close> are shown to implement its operations, for devices with one plane per
  flash chip and at least two chips.
\<close>

subsection \<open>The abstract allocator\<close>

record allocator =
  free_sbs :: "int list"
  open_sb :: "(int \<times> int) option"
  victim_sbs :: "int list"

text \<open>The \<open>n\<close>-th page of superblock \<open>b\<close>.\<close>

definition sb_page :: "ssdconf \<Rightarrow> int \<Rightarrow> int \<Rightarrow> int" where
  "sb_page c b n = (n mod FLASH_NB c * BLOCK_NB c + b) * PAGE_NB c + n div FLASH_NB c"

definition sb_pages :: "ssdconf \<Rightarrow> int" where
  "sb_pages c = FLASH_NB c * PAGE_NB c"

definition open_next :: "ssdconf \<Rightarrow> allocator \<Rightarrow> int list \<Rightarrow> (int \<times> allocator) option" where
  "open_next c A full =
     (case free_sbs A of
        [] \<Rightarrow> None
      | b # bs \<Rightarrow> Some (sb_page c b 0,
          \<lparr>free_sbs = bs, open_sb = Some (b, 1), victim_sbs = victim_sbs A @ full\<rparr>))"

definition abs_alloc :: "ssdconf \<Rightarrow> allocator \<Rightarrow> (int \<times> allocator) option" where
  "abs_alloc c A =
     (case open_sb A of
        None \<Rightarrow> open_next c A []
      | Some (b, n) \<Rightarrow>
          (if n < sb_pages c then Some (sb_page c b n, A\<lparr>open_sb := Some (b, n + 1)\<rparr>)
           else open_next c A [b]))"

definition sbs :: "allocator \<Rightarrow> int list" where
  "sbs A = free_sbs A @ (case open_sb A of None \<Rightarrow> [] | Some (b, n) \<Rightarrow> [b]) @ victim_sbs A"

definition alloc_wf :: "ssdconf \<Rightarrow> allocator \<Rightarrow> bool" where
  "alloc_wf c A \<longleftrightarrow> distinct (sbs A) \<and> set (sbs A) \<subseteq> {0..<BLOCK_NB c} \<and>
     (case open_sb A of None \<Rightarrow> True | Some (b, n) \<Rightarrow> 1 \<le> n \<and> n \<le> sb_pages c)"

text \<open>The pages that can still be handed out.\<close>

definition free_slots :: "ssdconf \<Rightarrow> allocator \<Rightarrow> int set" where
  "free_slots c A =
     {sb_page c b n | b n. 0 \<le> n \<and> n < sb_pages c \<and>
        (b \<in> set (free_sbs A) \<or> (\<exists>k. open_sb A = Some (b, k) \<and> k \<le> n))}"

subsection \<open>Its representation in the device\<close>

definition sb_conf :: "ssdconf \<Rightarrow> bool" where
  "sb_conf c \<longleftrightarrow> wf_conf c \<and> PLANES_PER_FLASH c = 1 \<and> 2 \<le> FLASH_NB c \<and>
     EMPTY_TABLE_ENTRY_NB c = FLASH_NB c \<and> VICTIM_TABLE_ENTRY_NB c = FLASH_NB c"

text \<open>How many of the first \<open>n\<close> pages of a superblock are on flash \<open>f\<close>.\<close>

definition curr_page :: "int \<Rightarrow> int \<Rightarrow> int \<Rightarrow> int" where
  "curr_page F n f = (n + F - 1 - f) div F"

definition empty_root :: "int \<Rightarrow> allocator \<Rightarrow> int \<Rightarrow> empty_block_root" where
  "empty_root F A f =
     \<lparr>empty_head = map (\<lambda>b. \<lparr>eb_flash = f, eb_block = b, eb_curr_page = 0\<rparr>) (free_sbs A),
      eb_head = map_option (\<lambda>(b, n). \<lparr>eb_flash = f, eb_block = b, eb_curr_page = curr_page F n f\<rparr>) (open_sb A),
      empty_block_nb = int (length (free_sbs A))\<rparr>"

definition victim_root :: "allocator \<Rightarrow> int \<Rightarrow> victim_block_root" where
  "victim_root A f =
     \<lparr>vb_chain = map (\<lambda>b. \<lparr>vb_flash = f, vb_block = b\<rparr>) (victim_sbs A),
      victim_block_nb = int (length (victim_sbs A))\<rparr>"

definition open_state :: "ssdconf \<Rightarrow> allocator \<Rightarrow> int \<Rightarrow> sb_debug \<Rightarrow> bool" where
  "open_state c A idx deb \<longleftrightarrow>
     (case open_sb A of
        None \<Rightarrow> idx = 0 \<and> sb_plane_nb deb = FLASH_NB c - 1
      | Some (b, n) \<Rightarrow> idx = n mod FLASH_NB c \<and> sb_plane_nb deb = (n - 1) mod FLASH_NB c \<and> sb_block_nb deb = b)"

definition alloc_rel :: "ssdstate \<Rightarrow> allocator \<Rightarrow> bool" where
  "alloc_rel s A \<longleftrightarrow> sb_conf (ssdparams s) \<and> alloc_wf (ssdparams s) A \<and>
     empty_block_list s = map (empty_root (flash_nb_of s) A) (cupto (flash_nb_of s)) \<and>
     victim_block_list s = map (victim_root A) (cupto (flash_nb_of s)) \<and>
     total_empty_block_nb s
       = flash_nb_of s * (int (length (free_sbs A)) + (if open_sb A = None then 0 else 1)) \<and>
     total_victim_block_nb s = flash_nb_of s * int (length (victim_sbs A)) \<and>
     open_state (ssdparams s) A (empty_block_table_index s) (sb_deb s)"

subsection \<open>Arithmetic of the round robin\<close>

lemma curr_page_at: "0 < F \<Longrightarrow> curr_page F n (n mod F) = n div F"
proof -
  assume F: "0 < F"
  have e: "n + F - 1 - n mod F = (F - 1) + n div F * F"
    by (simp add: minus_mod_eq_div_mult [symmetric])
  show ?thesis unfolding curr_page_def e using F by (simp add: div_pos_pos_trivial)
qed

lemma curr_page_step:
  assumes "0 \<le> f" "f < F"
  shows "curr_page F (n + 1) f = (if f = n mod F then curr_page F n f + 1 else curr_page F n f)"
proof -
  have F: "0 < F" using assms by simp
  let ?x = "n + F - 1 - f"
  have "(?x + 1) div F = (if ?x mod F = F - 1 then ?x div F + 1 else ?x div F)"
  proof (cases "?x mod F = F - 1")
    case True
    have "?x + 1 = (?x div F + 1) * F"
      using True div_mult_mod_eq [of ?x F] by (simp add: distrib_right)
    then show ?thesis using True F by simp
  next
    case False
    then have "?x mod F + 1 < F" using pos_mod_bound [OF F, of ?x] by linarith
    moreover have "?x + 1 = (?x mod F + 1) + ?x div F * F"
      using div_mult_mod_eq [of ?x F] by linarith
    moreover have "0 \<le> ?x mod F" using F by simp
    ultimately have "(?x + 1) div F = ?x div F"
      by (metis div_mult_self1 div_pos_pos_trivial add.commute add_0 add_nonneg_nonneg less_irrefl F zero_le_one)
    then show ?thesis using False by simp
  qed
  moreover have "?x mod F = F - 1 \<longleftrightarrow> f = n mod F"
  proof -
    have "?x mod F = F - 1 \<longleftrightarrow> F dvd (?x + 1)"
    proof
      assume "?x mod F = F - 1"
      then have "?x + 1 = (?x div F + 1) * F"
        using div_mult_mod_eq [of ?x F] by (simp add: distrib_right)
      then show "F dvd (?x + 1)" by (metis dvd_triv_right)
    next
      assume "F dvd (?x + 1)"
      then obtain k where "?x + 1 = F * k" ..
      then have e: "?x = (F - 1) + (k - 1) * F" by (simp add: algebra_simps)
      show "?x mod F = F - 1" unfolding e using F by (simp add: zmod_minus1)
    qed
    also have "\<dots> \<longleftrightarrow> F dvd (n - f)"
      by (simp add: dvd_add_left_iff [of F F "n - f", symmetric] algebra_simps)
    also have "\<dots> \<longleftrightarrow> f = n mod F"
      using assms by (metis mod_eq_dvd_iff mod_pos_pos_trivial)
    finally show ?thesis .
  qed
  ultimately show ?thesis by (simp add: curr_page_def algebra_simps)
qed

lemma curr_page_full: "0 \<le> f \<Longrightarrow> f < F \<Longrightarrow> curr_page F (F * p) f = p"
proof -
  assume f: "0 \<le> f" "f < F"
  have e: "F * p + F - 1 - f = (F - 1 - f) + p * F" by (simp add: algebra_simps)
  show ?thesis unfolding curr_page_def e using f by (simp add: div_pos_pos_trivial)
qed

lemma curr_page_zero: "0 \<le> f \<Longrightarrow> f < F \<Longrightarrow> curr_page F 0 f = 0"
  by (simp add: curr_page_def div_pos_pos_trivial)

lemma mod_succ: "0 < F \<Longrightarrow> (n + 1) mod F = (if n mod F + 1 = F then 0 else n mod F + (1 :: int))"
proof -
  assume F: "0 < F"
  have "(n + 1) mod F = (n mod F + 1) mod F" by (simp add: mod_add_left_eq)
  moreover have "n mod F + 1 \<le> F" using pos_mod_bound [OF F, of n] by linarith
  moreover have "0 \<le> n mod F" using F by simp
  ultimately show ?thesis using F by (auto simp: mod_pos_pos_trivial)
qed

subsection \<open>Addresses of superblock pages\<close>

lemma sb_confD:
  assumes "sb_conf c"
  shows "wf_conf c" "PLANES_PER_FLASH c = 1" "2 \<le> FLASH_NB c" "EMPTY_TABLE_ENTRY_NB c = FLASH_NB c"
    "VICTIM_TABLE_ENTRY_NB c = FLASH_NB c" "FLASH_NB c < 2 ^ 31" "PAGE_NB c < 2 ^ 31" "BLOCK_NB c < 2 ^ 31"
    "0 < PAGE_NB c" "0 < BLOCK_NB c"
  using assms wf_conf_bounds [of c] wf_confD [of c] by (simp_all add: sb_conf_def)

lemma sb_index_bounds:
  assumes "sb_conf c" "0 \<le> n" "n < sb_pages c"
  shows "0 \<le> n mod FLASH_NB c" "n mod FLASH_NB c < FLASH_NB c" "0 \<le> n div FLASH_NB c" "n div FLASH_NB c < PAGE_NB c"
  using assms sb_confD [OF assms(1)] div_lt_of_lt_mult [of "FLASH_NB c" n "PAGE_NB c"]
  by (simp_all add: sb_pages_def pos_imp_zdiv_nonneg_iff mult.commute)

lemma sb_page_addr:
  assumes "sb_conf (ssdparams s)" "0 \<le> n" "n < sb_pages (ssdparams s)" "0 \<le> b" "b < block_nb_of s"
  shows "phys_addr s (n mod flash_nb_of s) b (n div flash_nb_of s) = sb_page (ssdparams s) b n"
    "0 \<le> sb_page (ssdparams s) b n" "sb_page (ssdparams s) b n < pages_of s"
    "CALC_FLASH s (sb_page (ssdparams s) b n) = n mod flash_nb_of s"
    "CALC_BLOCK s (sb_page (ssdparams s) b n) = b"
    "CALC_PAGE s (sb_page (ssdparams s) b n) = n div flash_nb_of s"
proof -
  note i = sb_index_bounds [OF assms(1-3)] and w = sb_confD(1) [OF assms(1)]
  note a = phys_addr_bounds [OF w i(1,2) assms(4,5) i(3,4)] and c = calc_phys_addr [OF w i(1,2) assms(4,5) i(3,4)]
  show e: "phys_addr s (n mod flash_nb_of s) b (n div flash_nb_of s) = sb_page (ssdparams s) b n"
    using a(1) by (simp add: sb_page_def)
  show "0 \<le> sb_page (ssdparams s) b n" "sb_page (ssdparams s) b n < pages_of s"
    "CALC_FLASH s (sb_page (ssdparams s) b n) = n mod flash_nb_of s"
    "CALC_BLOCK s (sb_page (ssdparams s) b n) = b"
    "CALC_PAGE s (sb_page (ssdparams s) b n) = n div flash_nb_of s"
    using a(2,3) c by (simp_all add: e)
qed

lemma sb_page_inj:
  assumes "sb_conf c" "0 \<le> n" "n < sb_pages c" "0 \<le> b" "b < BLOCK_NB c"
    "0 \<le> m" "m < sb_pages c" "0 \<le> d" "d < BLOCK_NB c" "sb_page c b n = sb_page c d m"
  shows "b = d \<and> n = m"
proof -
  note i = sb_index_bounds [OF assms(1-3)] and j = sb_index_bounds [OF assms(1,6,7)]
  have P: "sb_page c x k div PAGE_NB c = k mod FLASH_NB c * BLOCK_NB c + x"
    "sb_page c x k mod PAGE_NB c = k div FLASH_NB c"
    if "0 \<le> k div FLASH_NB c" "k div FLASH_NB c < PAGE_NB c" for x k
    using that by (simp_all add: sb_page_def)
  have d: "n div FLASH_NB c = m div FLASH_NB c"
    using P(2) [OF i(3,4), of b] P(2) [OF j(3,4), of d] assms(10) by simp
  have e: "n mod FLASH_NB c * BLOCK_NB c + b = m mod FLASH_NB c * BLOCK_NB c + d"
    using P(1) [OF i(3,4), of b] P(1) [OF j(3,4), of d] assms(10) by simp
  have bd: "b = d" using arg_cong [OF e, of "\<lambda>x. x mod BLOCK_NB c"] assms(4,5,8,9) by simp
  then have "n mod FLASH_NB c = m mod FLASH_NB c" using e sb_confD(10) [OF assms(1)] by simp
  with d bd show ?thesis by (metis div_mult_mod_eq)
qed

subsection \<open>Handing out a page\<close>

lemma take_page_ok:
  assumes "sb_conf (ssdparams s)" "open_sb A = Some (b, n)" "0 \<le> n" "n < sb_pages (ssdparams s)"
    "0 \<le> b" "b < block_nb_of s"
    "empty_block_list s = map (empty_root (flash_nb_of s) A) (cupto (flash_nb_of s))"
    "if n mod flash_nb_of s = 0 then sb_plane_nb (sb_deb s) = flash_nb_of s - 1
     else sb_block_nb (sb_deb s) = b \<and> sb_plane_nb (sb_deb s) = n mod flash_nb_of s - 1"
  shows "take_page s (n mod flash_nb_of s) = Some (Some (sb_page (ssdparams s) b n),
    s\<lparr>empty_block_list := map (empty_root (flash_nb_of s) (A\<lparr>open_sb := Some (b, n + 1)\<rparr>)) (cupto (flash_nb_of s)),
      sb_deb := \<lparr>sb_plane_nb = n mod flash_nb_of s, sb_block_nb = b\<rparr>\<rparr>)"
proof -
  let ?F = "flash_nb_of s"
  note C = sb_confD [OF assms(1)] and i = sb_index_bounds [OF assms(1,3,4)]
  have F: "0 < ?F" using C(3) by simp
  have root: "cread (empty_block_list s) (n mod ?F) = Some (empty_root ?F A (n mod ?F))"
    using i(1,2) assms(7) by (simp add: cread_map_cupto)
  have head: "eb_head (empty_root ?F A (n mod ?F))
      = Some \<lparr>eb_flash = n mod ?F, eb_block = b, eb_curr_page = n div ?F\<rparr>"
    by (simp add: empty_root_def assms(2) curr_page_at [OF F])
  have um: "umod b (PLANES_PER_FLASH (ssdparams s)) = Some 0"
    using C(2) by (simp add: umod_def cint)
  have pl: "s32 (n mod ?F * PLANES_PER_FLASH (ssdparams s) + 0) = n mod ?F"
    using i(1,2) C(2,6) by (simp add: cint)
  have bl: "s32 (b div u32 (PLANES_PER_FLASH (ssdparams s))) = b"
    using C(2,8) assms(5,6) by (simp add: cint)
  have chk: "sb_check (ssdparams s) (sb_deb s) (n mod ?F) b = Some \<lparr>sb_plane_nb = n mod ?F, sb_block_nb = b\<rparr>"
    using assms(8) C(2) by (cases "sb_deb s") (auto simp: sb_check_def split: if_splits)
  have up: "((empty_root ?F A)(n mod ?F := (empty_root ?F A (n mod ?F))
      \<lparr>eb_head := Some \<lparr>eb_flash = n mod ?F, eb_block = b, eb_curr_page = u32 (n div ?F + 1)\<rparr>\<rparr>)) f
      = empty_root ?F (A\<lparr>open_sb := Some (b, n + 1)\<rparr>) f" if "0 \<le> f" "f < ?F" for f
    using that i C(7) assms(2)
    by (auto simp: empty_root_def curr_page_step curr_page_at [OF F] cint)
  have wr: "cwrite (empty_block_list s) (n mod ?F) ((empty_root ?F A (n mod ?F))
      \<lparr>eb_head := Some \<lparr>eb_flash = n mod ?F, eb_block = b, eb_curr_page = u32 (n div ?F + 1)\<rparr>\<rparr>)
      = Some (map (empty_root ?F (A\<lparr>open_sb := Some (b, n + 1)\<rparr>)) (cupto ?F))"
    unfolding assms(7) cwrite_map_cupto [OF i(1,2)] by (rule arg_cong [of _ _ Some], rule map_cupto_cong, rule up)
  show ?thesis
    by (simp add: take_page_def root head um pl [simplified] bl chk wr sb_page_addr(1) [OF assms(1,3,4,5,6)] Let_def)
qed

lemma alloc_relD:
  assumes "alloc_rel s A"
  shows "sb_conf (ssdparams s)" "alloc_wf (ssdparams s) A"
    "empty_block_list s = map (empty_root (flash_nb_of s) A) (cupto (flash_nb_of s))"
    "victim_block_list s = map (victim_root A) (cupto (flash_nb_of s))"
    "total_empty_block_nb s
       = flash_nb_of s * (int (length (free_sbs A)) + (if open_sb A = None then 0 else 1))"
    "total_victim_block_nb s = flash_nb_of s * int (length (victim_sbs A))"
    "open_state (ssdparams s) A (empty_block_table_index s) (sb_deb s)"
  using assms by (simp_all add: alloc_rel_def)

lemma open_sb_bounds:
  assumes "alloc_wf c A" "open_sb A = Some (b, n)"
  shows "0 \<le> b" "b < BLOCK_NB c" "1 \<le> n" "n \<le> sb_pages c"
  using assms by (auto simp: alloc_wf_def sbs_def)

lemma next_root_mod:
  assumes "sb_conf (ssdparams s)" "empty_block_table_index s = n mod flash_nb_of s"
  shows "next_root s = (n + 1) mod flash_nb_of s"
proof -
  note C = sb_confD [OF assms(1)]
  have F: "0 < flash_nb_of s" using C(3) by simp
  have "n mod flash_nb_of s + 1 \<le> flash_nb_of s" using pos_mod_bound [OF F, of n] by linarith
  moreover have "0 \<le> n mod flash_nb_of s" using F by simp
  ultimately have "u32 (n mod flash_nb_of s + 1) = n mod flash_nb_of s + 1"
    using C(6) by (simp add: cint)
  then show ?thesis
    by (simp add: next_root_def assms(2) C(4) mod_succ [OF F] Let_def)
qed

text \<open>The open superblock still has pages.\<close>

lemma GET_NEW_PAGE_open:
  assumes "alloc_rel s A" "open_sb A = Some (b, n)" "n < sb_pages (ssdparams s)"
  shows "\<exists>s'. GET_NEW_PAGE s VICTIM_OVERALL k = Some (Some (sb_page (ssdparams s) b n), s') \<and>
    alloc_rel s' (A\<lparr>open_sb := Some (b, n + 1)\<rparr>) \<and>
    s' = s\<lparr>empty_block_list := empty_block_list s', empty_block_table_index := empty_block_table_index s', sb_deb := sb_deb s'\<rparr>"
proof -
  let ?F = "flash_nb_of s"
  note R = alloc_relD [OF assms(1)] and C = sb_confD [OF alloc_relD(1) [OF assms(1)]]
  note bn = open_sb_bounds [OF R(2) assms(2)]
  have n0: "0 \<le> n" using bn by simp
  note i = sb_index_bounds [OF R(1) n0 assms(3)]
  have idx: "empty_block_table_index s = n mod ?F"
    using R(7) by (simp add: open_state_def assms(2))
  have F: "0 < ?F" using C(3) by simp
  have pl: "sb_plane_nb (sb_deb s) = (n - 1) mod ?F" "sb_block_nb (sb_deb s) = b"
    using R(7) by (simp_all add: open_state_def assms(2))
  have pm: "(n - 1) mod ?F = (if n mod ?F = 0 then ?F - 1 else n mod ?F - 1)"
    using mod_succ [OF F, of "n - 1"] pos_mod_sign [OF F, of "n - 1"] by (auto split: if_splits)
  have root: "cread (empty_block_list s) (n mod ?F) = Some (empty_root ?F A (n mod ?F))"
    using i(1,2) R(3) by (simp add: cread_map_cupto)
  let ?s1 = "s\<lparr>empty_block_table_index := (n + 1) mod ?F\<rparr>"
  have tot: "total_empty_block_nb s \<noteq> 0"
    using R(5) F by (simp add: assms(2))
  have np: "n div ?F \<noteq> u32 (page_nb_of s)" using i(4) C(7,9) by (simp add: cint)
  have "GET_EMPTY_BLOCK s VICTIM_OVERALL k = Some (Some (n mod ?F), ?s1)"
    using tot root np
    by (simp add: GET_EMPTY_BLOCK_def get_empty_overall.simps idx empty_root_def assms(2) curr_page_at [OF F]
        next_root_mod [OF R(1) idx])
  moreover have "take_page ?s1 (n mod flash_nb_of ?s1) = Some (Some (sb_page (ssdparams ?s1) b n),
    ?s1\<lparr>empty_block_list := map (empty_root (flash_nb_of ?s1) (A\<lparr>open_sb := Some (b, n + 1)\<rparr>)) (cupto (flash_nb_of ?s1)),
      sb_deb := \<lparr>sb_plane_nb = n mod flash_nb_of ?s1, sb_block_nb = b\<rparr>\<rparr>)"
    by (rule take_page_ok) (use R assms(2,3) n0 bn pl pm in auto)
  ultimately show ?thesis
    using R bn assms(3)
    by (intro exI [of _ "?s1\<lparr>empty_block_list := map (empty_root ?F (A\<lparr>open_sb := Some (b, n + 1)\<rparr>)) (cupto ?F),
      sb_deb := \<lparr>sb_plane_nb = n mod ?F, sb_block_nb = b\<rparr>\<rparr>"])
      (auto simp: GET_NEW_PAGE_def alloc_rel_def alloc_wf_def sbs_def open_state_def assms(2) victim_root_def)
qed

subsection \<open>Closing and opening superblocks\<close>

lemma sbs_bound:
  assumes "alloc_wf c A"
  shows "int (length (sbs A)) \<le> BLOCK_NB c \<or> sbs A = []"
proof -
  have "card (set (sbs A)) \<le> card {0..<BLOCK_NB c}"
    using assms by (intro card_mono) (auto simp: alloc_wf_def)
  then have "length (sbs A) \<le> nat (BLOCK_NB c)"
    using assms by (simp add: alloc_wf_def distinct_card)
  then show ?thesis by (cases "sbs A") auto
qed

lemma sb_lengths:
  assumes "alloc_wf c A" "sb_conf c"
  shows "int (length (free_sbs A)) < 2 ^ 31" "int (length (victim_sbs A)) < 2 ^ 31"
  using sbs_bound [OF assms(1)] sb_confD(8) [OF assms(2)] by (auto simp: sbs_def)

lemma root_of_ok:
  assumes "sb_conf c" "0 \<le> f" "f < FLASH_NB c"
  shows "root_of c f b = Some f"
  using assms sb_confD [OF assms(1)] by (simp add: root_of_def umod_def cint)

lemma INSERT_VICTIM_BLOCK_ok:
  assumes "sb_conf (ssdparams s)" "0 \<le> f" "f < flash_nb_of s" "int (length (victim_sbs A)) < 2 ^ 31"
    "victim_block_list s = map g (cupto (flash_nb_of s))" "g f = victim_root A f"
  shows "INSERT_VICTIM_BLOCK s \<lparr>eb_flash = f, eb_block = b, eb_curr_page = p\<rparr> = Some (SUCCESS,
    s\<lparr>victim_block_list := map (g(f := victim_root (A\<lparr>victim_sbs := victim_sbs A @ [b]\<rparr>) f)) (cupto (flash_nb_of s)),
      total_victim_block_nb := total_victim_block_nb s + 1\<rparr>)"
  using assms
  by (cases "victim_sbs A")
    (auto simp: INSERT_VICTIM_BLOCK_def root_of_ok cread_map_cupto cwrite_map_cupto victim_root_def cint)

definition closed :: "allocator \<Rightarrow> int \<Rightarrow> allocator" where
  "closed A b = \<lparr>free_sbs = free_sbs A, open_sb = None, victim_sbs = victim_sbs A @ [b]\<rparr>"

lemma close_superblock_ok:
  assumes "sb_conf (ssdparams s)" "alloc_wf (ssdparams s) A" "open_sb A = Some (b, n)"
    "empty_block_list s = map (empty_root (flash_nb_of s) A) (cupto (flash_nb_of s))"
    "victim_block_list s = map (victim_root A) (cupto (flash_nb_of s))"
  shows "close_superblock s = Some (s\<lparr>
    empty_block_list := map (empty_root (flash_nb_of s) (closed A b)) (cupto (flash_nb_of s)),
    victim_block_list := map (victim_root (closed A b)) (cupto (flash_nb_of s)),
    total_empty_block_nb := total_empty_block_nb s - flash_nb_of s,
    total_victim_block_nb := total_victim_block_nb s + flash_nb_of s\<rparr>)"
proof -
  let ?F = "flash_nb_of s"
  note C = sb_confD [OF assms(1)]
  have len: "int (length (victim_sbs A)) < 2 ^ 31" using sb_lengths [OF assms(2,1)] by simp
  let ?e = "\<lambda>i f. empty_root ?F (if f < i then closed A b else A) f"
  let ?v = "\<lambda>i f. victim_root (if f < i then closed A b else A) f"
  let ?st = "\<lambda>i. s\<lparr>empty_block_list := map (?e i) (cupto ?F), victim_block_list := map (?v i) (cupto ?F),
    total_empty_block_nb := total_empty_block_nb s - i, total_victim_block_nb := total_victim_block_nb s + i\<rparr>"
  let ?body = "\<lambda>i ssd. do {
         root \<leftarrow> cread (empty_block_list ssd) i;
         e \<leftarrow> eb_head root;
         (r, ssd1) \<leftarrow> INSERT_VICTIM_BLOCK ssd e;
         l \<leftarrow> cwrite (empty_block_list ssd1) i (root\<lparr>eb_head := None\<rparr>);
         Some (ssd1\<lparr>empty_block_list := l, total_empty_block_nb := total_empty_block_nb ssd1 - 1\<rparr>) }"
  have "\<exists>s'. foldM ?body (cupto ?F) s = Some s' \<and> s' = ?st ?F"
  proof (rule for_rule [where Q = "\<lambda>i s'. s' = ?st i"])
    have "map (?e 0) (cupto ?F) = empty_block_list s" "map (?v 0) (cupto ?F) = victim_block_list s"
      unfolding assms(4,5) by (rule map_cupto_cong, simp)+
    then show "s = ?st 0" by simp
  next
    fix i s' assume i: "0 \<le> i" "i < ?F" and s': "s' = ?st i"
    have ins: "INSERT_VICTIM_BLOCK s' \<lparr>eb_flash = i, eb_block = b, eb_curr_page = curr_page ?F n i\<rparr> = Some (SUCCESS,
      s'\<lparr>victim_block_list := map ((?v i)(i := victim_root (A\<lparr>victim_sbs := victim_sbs A @ [b]\<rparr>) i)) (cupto ?F),
        total_victim_block_nb := total_victim_block_nb s' + 1\<rparr>)"
      using INSERT_VICTIM_BLOCK_ok [of s' i A "?v i" b] assms(1) i len s' by simp
    have rd: "cread (empty_block_list s') i = Some (empty_root ?F A i)"
      using i s' by (simp add: cread_map_cupto)
    have hd: "eb_head (empty_root ?F A i) = Some \<lparr>eb_flash = i, eb_block = b, eb_curr_page = curr_page ?F n i\<rparr>"
      by (simp add: empty_root_def assms(3))
    have ue: "map ((?e i)(i := (empty_root ?F A i)\<lparr>eb_head := None\<rparr>)) (cupto ?F) = map (?e (i + 1)) (cupto ?F)"
      by (rule map_cupto_cong) (auto simp: empty_root_def closed_def)
    have uv: "map ((?v i)(i := victim_root (A\<lparr>victim_sbs := victim_sbs A @ [b]\<rparr>) i)) (cupto ?F) = map (?v (i + 1)) (cupto ?F)"
      by (rule map_cupto_cong) (auto simp: victim_root_def closed_def)
    have wr: "cwrite (empty_block_list s') i ((empty_root ?F A i)\<lparr>eb_head := None\<rparr>) = Some (map (?e (i + 1)) (cupto ?F))"
      using i s' ue by (simp add: cwrite_map_cupto)
    have "?body i s' = Some (s'\<lparr>victim_block_list := map (?v (i + 1)) (cupto ?F),
        total_victim_block_nb := total_victim_block_nb s' + 1, empty_block_list := map (?e (i + 1)) (cupto ?F),
        total_empty_block_nb := total_empty_block_nb s' - 1\<rparr>)"
      by (simp add: rd hd ins [unfolded uv] wr)
    then show "\<exists>s''. ?body i s' = Some s'' \<and> s'' = ?st (i + 1)"
      by (simp add: s' algebra_simps)
  qed (use C(3) in simp)
  moreover have "map (?e ?F) (cupto ?F) = map (empty_root ?F (closed A b)) (cupto ?F)"
    "map (?v ?F) (cupto ?F) = map (victim_root (closed A b)) (cupto ?F)"
    by (rule map_cupto_cong, simp)+
  ultimately show ?thesis by (simp add: close_superblock_def C(4))
qed

lemma close_rel:
  assumes "alloc_rel s A" "open_sb A = Some (b, n)" "sb_plane_nb (sb_deb s) = flash_nb_of s - 1"
  shows "alloc_rel (s\<lparr>
    empty_block_list := map (empty_root (flash_nb_of s) (closed A b)) (cupto (flash_nb_of s)),
    victim_block_list := map (victim_root (closed A b)) (cupto (flash_nb_of s)),
    total_empty_block_nb := total_empty_block_nb s - flash_nb_of s,
    total_victim_block_nb := total_victim_block_nb s + flash_nb_of s,
    empty_block_table_index := 0\<rparr>) (closed A b)"
  using alloc_relD [OF assms(1)] assms(2,3)
  by (auto simp: alloc_rel_def closed_def alloc_wf_def sbs_def open_state_def distrib_left)

definition opened :: "allocator \<Rightarrow> int \<Rightarrow> int list \<Rightarrow> allocator" where
  "opened A b bs = A\<lparr>free_sbs := bs, open_sb := Some (b, 0)\<rparr>"

lemma open_superblock_ok:
  assumes "alloc_rel s A" "open_sb A = None" "free_sbs A = b # bs"
  shows "open_superblock s = Some (s\<lparr>
    empty_block_list := map (empty_root (flash_nb_of s) (opened A b bs)) (cupto (flash_nb_of s))\<rparr>)"
proof -
  let ?F = "flash_nb_of s"
  note R = alloc_relD [OF assms(1)] and C = sb_confD [OF alloc_relD(1) [OF assms(1)]]
  have len: "int (length bs) + 1 < 2 ^ 31" using sb_lengths(1) [OF R(2,1)] assms(3) by simp
  let ?body = "\<lambda>i l. do { root \<leftarrow> cread l i;
    (case empty_head root of [] \<Rightarrow> None
     | e # es \<Rightarrow> cwrite l i (root\<lparr>empty_head := es, eb_head := Some e,
         empty_block_nb := u32 (empty_block_nb root - 1)\<rparr>)) }"
  have "foldM ?body (cupto ?F) (map (empty_root ?F A) (cupto ?F))
      = Some (map (empty_root ?F (opened A b bs)) (cupto ?F))"
  proof (rule foldM_map_cupto)
    fix i h assume i: "0 \<le> i" "i < ?F" and h: "h i = empty_root ?F A i"
    then show "?body i (map h (cupto ?F)) = Some (map (h(i := empty_root ?F (opened A b bs) i)) (cupto ?F))"
      using len assms(2,3) curr_page_zero [OF i]
      by (simp add: cread_map_cupto cwrite_map_cupto empty_root_def opened_def cint)
  qed (use C(3) in simp)
  then show ?thesis by (simp add: open_superblock_def R(3) C(4))
qed

text \<open>No superblock is open: the first free one is opened, or there is none and the pointer is null.\<close>

lemma open_sb_none_empty:
  assumes "alloc_rel s A" "open_sb A = None" "free_sbs A = []"
  shows "total_empty_block_nb s = 0" "get_empty_overall s = Some (None, s)"
  using alloc_relD(5) [OF assms(1)] assms(2,3) by (simp_all add: get_empty_overall.simps)

lemma get_empty_none:
  assumes "alloc_rel s A" "open_sb A = None" "free_sbs A = b # bs"
  shows "get_empty_overall s = Some (Some 0,
      s\<lparr>empty_block_list := map (empty_root (flash_nb_of s) (opened A b bs)) (cupto (flash_nb_of s)),
        empty_block_table_index := 1\<rparr>)" "total_empty_block_nb s \<noteq> 0"
proof -
  let ?F = "flash_nb_of s"
  note R = alloc_relD [OF assms(1)] and C = sb_confD [OF alloc_relD(1) [OF assms(1)]]
  show tot: "total_empty_block_nb s \<noteq> 0" using R(5) C(3) assms(2,3) by simp
  have idx: "empty_block_table_index s = 0" using R(7) assms(2) by (simp add: open_state_def)
  have rd: "cread (empty_block_list s) 0 = Some (empty_root ?F A 0)"
    using R(3) C(3) by (simp add: cread_map_cupto)
  show "get_empty_overall s = Some (Some 0,
      s\<lparr>empty_block_list := map (empty_root ?F (opened A b bs)) (cupto ?F), empty_block_table_index := 1\<rparr>)"
    using tot open_superblock_ok [OF assms]
    by (subst get_empty_overall.simps) (simp add: idx rd empty_root_def assms(2,3) cint)
qed

lemma take_first_page:
  assumes "alloc_rel s A" "open_sb A = None" "free_sbs A = b # bs"
  defines "s1 \<equiv> s\<lparr>empty_block_list := map (empty_root (flash_nb_of s) (opened A b bs)) (cupto (flash_nb_of s)),
        empty_block_table_index := 1\<rparr>"
  shows "\<exists>s'. take_page s1 0 = Some (Some (sb_page (ssdparams s) b 0), s') \<and>
    alloc_rel s' \<lparr>free_sbs = bs, open_sb = Some (b, 1), victim_sbs = victim_sbs A\<rparr> \<and>
    s' = s\<lparr>empty_block_list := empty_block_list s', empty_block_table_index := empty_block_table_index s', sb_deb := sb_deb s'\<rparr>"
proof -
  let ?F = "flash_nb_of s" and ?A = "opened A b bs"
  note R = alloc_relD [OF assms(1)] and C = sb_confD [OF alloc_relD(1) [OF assms(1)]]
  have b: "0 \<le> b" "b < block_nb_of s" using R(2) assms(3) by (auto simp: alloc_wf_def sbs_def)
  have P: "0 < sb_pages (ssdparams s)" using C(3,9) by (simp add: sb_pages_def)
  have pl: "sb_plane_nb (sb_deb s) = ?F - 1" using R(7) assms(2) by (simp add: open_state_def)
  have "take_page s1 (0 mod flash_nb_of s1) = Some (Some (sb_page (ssdparams s1) b 0),
    s1\<lparr>empty_block_list := map (empty_root (flash_nb_of s1) (?A\<lparr>open_sb := Some (b, 0 + 1)\<rparr>)) (cupto (flash_nb_of s1)),
      sb_deb := \<lparr>sb_plane_nb = 0 mod flash_nb_of s1, sb_block_nb = b\<rparr>\<rparr>)"
    by (rule take_page_ok) (use R(1) P b pl in \<open>auto simp: s1_def opened_def\<close>)
  moreover have "?A\<lparr>open_sb := Some (b, 1)\<rparr> = \<lparr>free_sbs = bs, open_sb = Some (b, 1), victim_sbs = victim_sbs A\<rparr>"
    by (cases A) (simp add: opened_def)
  ultimately show ?thesis
    using R C(3) P assms(2,3)
    by (intro exI [of _ "s1\<lparr>empty_block_list := map (empty_root ?F \<lparr>free_sbs = bs, open_sb = Some (b, 1), victim_sbs = victim_sbs A\<rparr>) (cupto ?F),
      sb_deb := \<lparr>sb_plane_nb = 0, sb_block_nb = b\<rparr>\<rparr>"])
      (auto simp: s1_def alloc_rel_def alloc_wf_def sbs_def open_state_def victim_root_def mod_pos_pos_trivial)
qed

text \<open>A full superblock: the roots are passed over one by one, then it is closed.\<close>

lemma get_empty_full:
  assumes "alloc_rel s A" "open_sb A = Some (b, sb_pages (ssdparams s))"
  defines "s1 \<equiv> s\<lparr>
    empty_block_list := map (empty_root (flash_nb_of s) (closed A b)) (cupto (flash_nb_of s)),
    victim_block_list := map (victim_root (closed A b)) (cupto (flash_nb_of s)),
    total_empty_block_nb := total_empty_block_nb s - flash_nb_of s,
    total_victim_block_nb := total_victim_block_nb s + flash_nb_of s,
    empty_block_table_index := 0\<rparr>"
  shows "get_empty_overall s = get_empty_overall s1" "alloc_rel s1 (closed A b)" "total_empty_block_nb s \<noteq> 0"
proof -
  let ?F = "flash_nb_of s" and ?N = "sb_pages (ssdparams s)"
  note R = alloc_relD [OF assms(1)] and C = sb_confD [OF alloc_relD(1) [OF assms(1)]]
  have F: "0 < ?F" using C(3) by simp
  show tot: "total_empty_block_nb s \<noteq> 0" using R(5) F assms(2) by simp
  have st: "empty_block_table_index s = 0" "sb_plane_nb (sb_deb s) = ?F - 1"
    using R(7) F assms(2) mod_succ [OF F, of "?N - 1"] zmod_minus1 [OF F]
    by (simp_all add: open_state_def sb_pages_def) (metis mod_mult_self4 diff_conv_add_uminus mult.commute add.commute)
  show rel: "alloc_rel s1 (closed A b)" unfolding s1_def by (rule close_rel [OF assms(1,2) st(2)])
  have rd: "cread (empty_block_list s) i = Some (empty_root ?F A i)" if "0 \<le> i" "i < ?F" for i
    using R(3) that by (simp add: cread_map_cupto)
  have hd: "eb_head (empty_root ?F A i) = Some \<lparr>eb_flash = i, eb_block = b, eb_curr_page = page_nb_of s\<rparr>"
    if "0 \<le> i" "i < ?F" for i
    using curr_page_full [OF that, of "page_nb_of s"] by (simp add: empty_root_def assms(2) sb_pages_def)
  have um: "umod b (PLANES_PER_FLASH (ssdparams s)) = Some 0" using C(2) by (simp add: umod_def cint)
  have uP: "u32 (page_nb_of s) = page_nb_of s" "u32 (?F - 1) = ?F - 1" using C by (simp_all add: cint)
  have skip: "get_empty_overall (s\<lparr>empty_block_table_index := i\<rparr>)
      = get_empty_overall (s\<lparr>empty_block_table_index := i + 1\<rparr>)" if "0 \<le> i" "i < ?F - 1" for i
  proof -
    have "next_root (s\<lparr>empty_block_table_index := i\<rparr>) = i + 1"
      using that C(4,6) by (simp add: next_root_def cint)
    then show ?thesis
      using that tot rd [of i] hd [of i] um uP C(2)
      by (subst get_empty_overall.simps) simp
  qed
  have "get_empty_overall (s\<lparr>empty_block_table_index := 0\<rparr>)
      = get_empty_overall (s\<lparr>empty_block_table_index := int k\<rparr>)" if "int k \<le> ?F - 1" for k
    using that by (induction k) (simp_all add: skip add.commute)
  note walk = this [of "nat (?F - 1)"]
  have "s\<lparr>empty_block_table_index := 0\<rparr> = s" using st(1) by (cases s) simp
  with walk have "get_empty_overall s = get_empty_overall (s\<lparr>empty_block_table_index := ?F - 1\<rparr>)"
    using F by simp
  also have "\<dots> = get_empty_overall s1"
    using tot rd [of "?F - 1"] hd [of "?F - 1"] um uP C(2,3) F R(1-4) assms(2)
      close_superblock_ok [of "s\<lparr>empty_block_table_index := ?F - 1\<rparr>" A b ?N]
    by (subst get_empty_overall.simps) (simp add: s1_def cint)
  finally show "get_empty_overall s = get_empty_overall s1" .
qed

subsection \<open>The refinement\<close>

definition same_but_alloc :: "ssdstate \<Rightarrow> ssdstate \<Rightarrow> bool" where
  "same_but_alloc s s' \<longleftrightarrow> (\<exists>el vl te tv i d. s' = s\<lparr>empty_block_list := el, victim_block_list := vl,
     total_empty_block_nb := te, total_victim_block_nb := tv, empty_block_table_index := i, sb_deb := d\<rparr>)"

lemma same_but_alloc_frame:
  assumes "same_but_alloc s s'"
  shows "ssdparams s' = ssdparams s" "mapping_table s' = mapping_table s" "in_nvram s' = in_nvram s"
    "inverse_mapping_table s' = inverse_mapping_table s" "block_state_table s' = block_state_table s"
    "NVRAM_OOB_TABLE s' = NVRAM_OOB_TABLE s" "nstat s' = nstat s" "pstat s' = pstat s"
    "devtime s' = devtime s" "iostat s' = iostat s" "perf s' = perf s" "xl2p_ppn s' = xl2p_ppn s"
  using assms unfolding same_but_alloc_def by (elim exE, simp)+

lemma same_but_allocI:
  "s' = s\<lparr>empty_block_list := el, victim_block_list := vl, total_empty_block_nb := te,
     total_victim_block_nb := tv, empty_block_table_index := i, sb_deb := d\<rparr> \<Longrightarrow> same_but_alloc s s'"
  unfolding same_but_alloc_def by blast

lemma same_but_alloc_pages:
  assumes "s' = s\<lparr>empty_block_list := el, empty_block_table_index := i, sb_deb := d\<rparr>"
  shows "same_but_alloc s s'"
  by (rule same_but_allocI [where el = el and vl = "victim_block_list s" and te = "total_empty_block_nb s"
        and tv = "total_victim_block_nb s" and i = i and d = d]) (simp add: assms)

lemma GET_NEW_PAGE_none:
  assumes "alloc_rel s A" "open_sb A = None" "total_empty_block_nb s0 \<noteq> 0"
    "get_empty_overall s0 = get_empty_overall s"
  shows "case open_next (ssdparams s) A [] of
      Some (ppn, A') \<Rightarrow> \<exists>s'. GET_NEW_PAGE s0 VICTIM_OVERALL k = Some (Some ppn, s') \<and> alloc_rel s' A' \<and> same_but_alloc s s'
    | None \<Rightarrow> GET_NEW_PAGE s0 VICTIM_OVERALL k = None"
proof (cases "free_sbs A")
  case Nil
  then show ?thesis
    using assms(3,4) open_sb_none_empty(2) [OF assms(1,2)]
    by (simp add: open_next_def GET_NEW_PAGE_def GET_EMPTY_BLOCK_def)
next
  case (Cons b bs)
  from take_first_page [OF assms(1,2) Cons] obtain s' where
    s': "take_page (s\<lparr>empty_block_list := map (empty_root (flash_nb_of s) (opened A b bs)) (cupto (flash_nb_of s)),
        empty_block_table_index := 1\<rparr>) 0 = Some (Some (sb_page (ssdparams s) b 0), s')"
      "alloc_rel s' \<lparr>free_sbs = bs, open_sb = Some (b, 1), victim_sbs = victim_sbs A\<rparr>"
      "s' = s\<lparr>empty_block_list := empty_block_list s', empty_block_table_index := empty_block_table_index s', sb_deb := sb_deb s'\<rparr>"
    by blast
  have "GET_NEW_PAGE s0 VICTIM_OVERALL k = Some (Some (sb_page (ssdparams s) b 0), s')"
    using assms(3,4) get_empty_none(1) [OF assms(1,2) Cons] s'(1)
    by (simp add: GET_NEW_PAGE_def GET_EMPTY_BLOCK_def)
  then show ?thesis
    using s'(2) same_but_alloc_pages [OF s'(3)] by (simp add: open_next_def Cons)
qed

lemma GET_NEW_PAGE_empty_device:
  assumes "total_empty_block_nb s = 0"
  shows "GET_NEW_PAGE s VICTIM_OVERALL k = None"
  using assms by (simp add: GET_NEW_PAGE_def GET_EMPTY_BLOCK_def)

lemma GET_NEW_PAGE_refines:
  assumes "alloc_rel s A"
  shows "case abs_alloc (ssdparams s) A of
      Some (ppn, A') \<Rightarrow> \<exists>s'. GET_NEW_PAGE s VICTIM_OVERALL k = Some (Some ppn, s') \<and> alloc_rel s' A' \<and> same_but_alloc s s'
    | None \<Rightarrow> GET_NEW_PAGE s VICTIM_OVERALL k = None"
proof (cases "open_sb A")
  case None
  show ?thesis
  proof (cases "total_empty_block_nb s = 0")
    case True
    then have "free_sbs A = []"
      using alloc_relD(5) [OF assms] sb_confD(3) [OF alloc_relD(1) [OF assms]] None by simp
    then show ?thesis using GET_NEW_PAGE_empty_device [OF True] by (simp add: abs_alloc_def None open_next_def)
  next
    case False
    then show ?thesis using GET_NEW_PAGE_none [OF assms None False refl, of k] by (simp add: abs_alloc_def None)
  qed
next
  case (Some p)
  then obtain b n where p: "open_sb A = Some (b, n)" by (cases p) simp
  show ?thesis
  proof (cases "n < sb_pages (ssdparams s)")
    case True
    from GET_NEW_PAGE_open [OF assms p True, of k] obtain s' where
      s': "GET_NEW_PAGE s VICTIM_OVERALL k = Some (Some (sb_page (ssdparams s) b n), s')"
        "alloc_rel s' (A\<lparr>open_sb := Some (b, n + 1)\<rparr>)"
        "s' = s\<lparr>empty_block_list := empty_block_list s', empty_block_table_index := empty_block_table_index s', sb_deb := sb_deb s'\<rparr>"
      by blast
    show ?thesis using s'(1,2) same_but_alloc_pages [OF s'(3)] by (simp add: abs_alloc_def p True)
  next
    case False
    then have n: "n = sb_pages (ssdparams s)"
      using open_sb_bounds(4) [OF alloc_relD(2) [OF assms] p] by simp
    note f = get_empty_full [OF assms p [unfolded n]]
    let ?s1 = "s\<lparr>
    empty_block_list := map (empty_root (flash_nb_of s) (closed A b)) (cupto (flash_nb_of s)),
    victim_block_list := map (victim_root (closed A b)) (cupto (flash_nb_of s)),
    total_empty_block_nb := total_empty_block_nb s - flash_nb_of s,
    total_victim_block_nb := total_victim_block_nb s + flash_nb_of s,
    empty_block_table_index := 0\<rparr>"
    have "open_next (ssdparams s) (closed A b) [] = open_next (ssdparams s) A [b]"
      by (simp add: open_next_def closed_def split: list.split)
    moreover have "same_but_alloc ?s1 s' \<Longrightarrow> same_but_alloc s s'" for s'
      unfolding same_but_alloc_def by simp
    moreover have cn: "open_sb (closed A b) = None" by (simp add: closed_def)
    ultimately show ?thesis
      using GET_NEW_PAGE_none [OF f(2) cn f(3,1), of k] False
      by (simp add: abs_alloc_def p split: option.splits prod.splits) blast
  qed
qed

subsection \<open>What the abstract allocator promises\<close>

definition is_free :: "allocator \<Rightarrow> int \<Rightarrow> int \<Rightarrow> bool" where
  "is_free A b n \<longleftrightarrow> b \<in> set (free_sbs A) \<or> (\<exists>k. open_sb A = Some (b, k) \<and> k \<le> n)"

lemma is_free_range: "alloc_wf c A \<Longrightarrow> is_free A b n \<Longrightarrow> 0 \<le> b \<and> b < BLOCK_NB c"
  by (auto simp: is_free_def alloc_wf_def sbs_def)

lemma free_slots_eq: "free_slots c A = {sb_page c b n | b n. 0 \<le> n \<and> n < sb_pages c \<and> is_free A b n}"
  by (simp add: free_slots_def is_free_def)

lemma free_slots_mem:
  assumes "sb_conf c" "alloc_wf c A" "0 \<le> n" "n < sb_pages c" "0 \<le> b" "b < BLOCK_NB c"
  shows "sb_page c b n \<in> free_slots c A \<longleftrightarrow> is_free A b n"
proof
  assume "sb_page c b n \<in> free_slots c A"
  then obtain d m where d: "0 \<le> m" "m < sb_pages c" "is_free A d m" "sb_page c b n = sb_page c d m"
    by (auto simp: free_slots_eq)
  with sb_page_inj [OF assms(1,3-6) d(1,2)] is_free_range [OF assms(2) d(3)] show "is_free A b n" by auto
qed (use assms(3,4) in \<open>auto simp: free_slots_eq\<close>)

lemma free_slots_remove:
  assumes "sb_conf c" "alloc_wf c A" "alloc_wf c A'" "0 \<le> m" "m < sb_pages c" "0 \<le> b" "b < BLOCK_NB c"
    and "\<And>d n. 0 \<le> n \<Longrightarrow> n < sb_pages c \<Longrightarrow> is_free A' d n \<longleftrightarrow> is_free A d n \<and> \<not> (d = b \<and> n = m)"
  shows "free_slots c A' = free_slots c A - {sb_page c b m}"
proof (rule set_eqI)
  fix x
  show "x \<in> free_slots c A' \<longleftrightarrow> x \<in> free_slots c A - {sb_page c b m}"
  proof (cases "\<exists>d n. x = sb_page c d n \<and> 0 \<le> n \<and> n < sb_pages c \<and> 0 \<le> d \<and> d < BLOCK_NB c")
    case True
    then obtain d n where x: "x = sb_page c d n" "0 \<le> n" "n < sb_pages c" "0 \<le> d" "d < BLOCK_NB c" by blast
    have "sb_page c d n = sb_page c b m \<longleftrightarrow> d = b \<and> n = m"
      using sb_page_inj [OF assms(1) x(2-5) assms(4-7)] by auto
    then show ?thesis
      using free_slots_mem [OF assms(1,2) x(2-5)] free_slots_mem [OF assms(1,3) x(2-5)] assms(8) [OF x(2,3), of d] x(1)
      by simp
  next
    case False
    then have "x \<notin> free_slots c A" "x \<notin> free_slots c A'"
      using is_free_range [OF assms(2)] is_free_range [OF assms(3)] unfolding free_slots_eq by blast+
    then show ?thesis by simp
  qed
qed

lemma abs_alloc_promise:
  assumes "sb_conf c" "alloc_wf c A" "abs_alloc c A = Some (ppn, A')"
  shows "ppn \<in> free_slots c A" "free_slots c A' = free_slots c A - {ppn}" "set (sbs A') = set (sbs A)" "alloc_wf c A'"
proof -
  have N: "0 < sb_pages c" using sb_confD(3,9) [OF assms(1)] by (simp add: sb_pages_def)
  consider (page) b n where "open_sb A = Some (b, n)" "n < sb_pages c" "ppn = sb_page c b n"
      "A' = A\<lparr>open_sb := Some (b, n + 1)\<rparr>"
    | (first) b bs full where "free_sbs A = b # bs" "ppn = sb_page c b 0"
      "A' = \<lparr>free_sbs = bs, open_sb = Some (b, 1), victim_sbs = victim_sbs A @ full\<rparr>"
      "open_sb A = None \<and> full = [] \<or> (\<exists>d. open_sb A = Some (d, sb_pages c) \<and> full = [d])"
    using assms(2,3)
    by (auto simp: abs_alloc_def open_next_def alloc_wf_def split: option.splits list.splits if_splits)
  then have "ppn \<in> free_slots c A \<and> free_slots c A' = free_slots c A - {ppn} \<and> set (sbs A') = set (sbs A) \<and> alloc_wf c A'"
  proof cases
    case page
    note b = open_sb_bounds [OF assms(2) page(1)]
    have ss: "set (sbs A') = set (sbs A)" and wf: "alloc_wf c A'"
      using page assms(2) b by (auto simp: sbs_def alloc_wf_def)
    have nb: "b \<notin> set (free_sbs A)" using assms(2) page(1) by (auto simp: alloc_wf_def sbs_def)
    have "ppn \<in> free_slots c A"
      using free_slots_mem [OF assms(1,2) _ page(2) b(1,2)] b(3) page by (simp add: is_free_def)
    moreover have "free_slots c A' = free_slots c A - {ppn}"
      unfolding page(3)
      by (rule free_slots_remove [OF assms(1,2) wf]) (use page b nb in \<open>auto simp: is_free_def\<close>)
    ultimately show ?thesis using ss wf by blast
  next
    case first
    have b: "0 \<le> b" "b < BLOCK_NB c" "b \<notin> set bs"
      using assms(2) first(1) by (auto simp: alloc_wf_def sbs_def)
    have ss: "set (sbs A') = set (sbs A)" and wf: "alloc_wf c A'"
      using first assms(2) N by (auto simp: sbs_def alloc_wf_def)
    have "ppn \<in> free_slots c A"
      using free_slots_mem [OF assms(1,2) _ N b(1,2)] first(1,2) by (simp add: is_free_def)
    moreover have "free_slots c A' = free_slots c A - {ppn}"
      unfolding first(2)
      by (rule free_slots_remove [OF assms(1,2) wf]) (use first b N in \<open>auto simp: is_free_def\<close>)
    ultimately show ?thesis using ss wf by blast
  qed
  then show "ppn \<in> free_slots c A" "free_slots c A' = free_slots c A - {ppn}" "set (sbs A') = set (sbs A)" "alloc_wf c A'"
    by blast+
qed

lemma abs_alloc_None:
  assumes "sb_conf c" "alloc_wf c A"
  shows "abs_alloc c A = None \<longleftrightarrow> free_slots c A = {}"
proof -
  have N: "0 < sb_pages c" using sb_confD(3,9) [OF assms(1)] by (simp add: sb_pages_def)
  have "free_slots c A = {} \<longleftrightarrow> free_sbs A = [] \<and> (\<forall>b n. open_sb A = Some (b, n) \<longrightarrow> sb_pages c \<le> n)"
  proof
    assume e: "free_slots c A = {}"
    have "free_sbs A = []"
    proof (rule ccontr)
      assume "free_sbs A \<noteq> []"
      then have "sb_page c (hd (free_sbs A)) 0 \<in> free_slots c A" using N by (force simp: free_slots_def)
      with e show False by simp
    qed
    moreover have "sb_pages c \<le> n" if "open_sb A = Some (b, n)" for b n
    proof (rule ccontr)
      assume "\<not> sb_pages c \<le> n"
      then have "sb_page c b n \<in> free_slots c A"
        using that open_sb_bounds [OF assms(2) that] by (force simp: free_slots_def)
      with e show False by simp
    qed
    ultimately show "free_sbs A = [] \<and> (\<forall>b n. open_sb A = Some (b, n) \<longrightarrow> sb_pages c \<le> n)" by blast
  qed (auto simp: free_slots_def)
  then show ?thesis
    by (auto simp: abs_alloc_def open_next_def split: option.splits list.splits if_splits)
qed

lemma free_slots_range:
  assumes "sb_conf c" "alloc_wf c A" "ppn \<in> free_slots c A"
  shows "0 \<le> ppn" "ppn < PAGE_MAPPING_ENTRY_NB c"
proof -
  from assms(3) obtain b n where n: "0 \<le> n" "n < sb_pages c" and p: "ppn = sb_page c b n"
    and b: "b \<in> set (free_sbs A) \<or> (\<exists>k. open_sb A = Some (b, k))"
    by (auto simp: free_slots_def)
  have "0 \<le> b" "b < BLOCK_NB c" using b assms(2) by (auto simp: alloc_wf_def sbs_def)
  then show "0 \<le> ppn" "ppn < PAGE_MAPPING_ENTRY_NB c"
    using sb_page_addr(2,3) [of "undefined\<lparr>ssdparams := c\<rparr>" n b] assms(1) n p by simp_all
qed

subsection \<open>Returning and ejecting blocks\<close>

lemma INSERT_EMPTY_BLOCK_ok:
  assumes "sb_conf (ssdparams s)" "0 \<le> f" "f < flash_nb_of s" "int (length (free_sbs A)) < 2 ^ 31"
    "empty_block_list s = map g (cupto (flash_nb_of s))" "g f = empty_root (flash_nb_of s) A f"
  shows "INSERT_EMPTY_BLOCK s f b = Some (SUCCESS,
    s\<lparr>empty_block_list := map (g(f := empty_root (flash_nb_of s) (A\<lparr>free_sbs := free_sbs A @ [b]\<rparr>) f)) (cupto (flash_nb_of s)),
      total_empty_block_nb := total_empty_block_nb s + 1\<rparr>)"
  using assms
  by (cases "free_sbs A")
    (auto simp: INSERT_EMPTY_BLOCK_def root_of_ok cread_map_cupto cwrite_map_cupto empty_root_def cint)

definition without :: "allocator \<Rightarrow> int \<Rightarrow> allocator" where
  "without A k = A\<lparr>victim_sbs := take (nat k) (victim_sbs A) @ drop (Suc (nat k)) (victim_sbs A)\<rparr>"

lemma unlink_at_own:
  assumes "0 \<le> k" "k < int (length xs)"
  shows "unlink_at True (int (length xs)) k xs = Some (take (nat k) xs @ drop (Suc (nat k)) xs)"
proof -
  consider "k = 0" | "0 < k" "k = int (length xs) - 1" | "0 < k" "k < int (length xs) - 1"
    using assms by linarith
  then show ?thesis
  proof cases
    case 1
    then show ?thesis using assms(2) by (cases xs) (auto simp: unlink_at_def)
  next
    case 2
    then have "nat k = length xs - 1" by linarith
    then show ?thesis using 2 by (simp add: unlink_at_def butlast_conv_take)
  next
    case 3
    then show ?thesis by (simp add: unlink_at_def)
  qed
qed

lemma unlink_victim_ok:
  assumes "0 \<le> j" "j < F" "0 \<le> k" "k < int (length (victim_sbs A))" "int (length (victim_sbs A)) < 2 ^ 31"
    "g j = victim_root A j"
  shows "unlink_victim (map g (cupto F)) j k j = Some (map (g(j := victim_root (without A k) j)) (cupto F))"
proof -
  have u: "unlink_at True (victim_block_nb (victim_root A j)) k (vb_chain (victim_root A j))
      = Some (vb_chain (victim_root (without A k) j))"
    using unlink_at_own [of k "vb_chain (victim_root A j)"] assms(3,4)
    by (simp add: victim_root_def without_def take_map drop_map)
  have k: "nat k < length (victim_sbs A)" using assms(3,4) by linarith
  then have "int (length (victim_sbs (without A k))) = int (length (victim_sbs A)) - 1"
    by (simp add: without_def)
  moreover have "u32 (int (length (victim_sbs A)) - 1) = int (length (victim_sbs A)) - 1"
    using k assms(5) by (intro u32_id) auto
  ultimately have l: "u32 (victim_block_nb (victim_root A j) - 1) = victim_block_nb (victim_root (without A k) j)"
    by (simp add: victim_root_def)
  have e: "(victim_root A j)\<lparr>vb_chain := vb_chain (victim_root (without A k) j),
      victim_block_nb := victim_block_nb (victim_root (without A k) j)\<rparr> = victim_root (without A k) j"
    by (simp add: victim_root_def)
  show ?thesis
    using assms(1,2,6) u l e by (simp add: unlink_victim_def cread_map_cupto cwrite_map_cupto fun_upd_def)
qed

lemma without_split:
  assumes "0 \<le> k" "k < int (length (victim_sbs A))"
  shows "victim_sbs A = take (nat k) (victim_sbs A) @ (victim_sbs A ! nat k) # drop (Suc (nat k)) (victim_sbs A)"
  using assms by (intro id_take_nth_drop) linarith

lemma without_wf:
  assumes "alloc_wf c A" "0 \<le> k" "k < int (length (victim_sbs A))"
  shows "alloc_wf c (without A k)" "set (sbs (without A k)) = set (sbs A) - {victim_sbs A ! nat k}"
    "victim_sbs A ! nat k \<in> set (sbs A)" "int (length (victim_sbs (without A k))) = int (length (victim_sbs A)) - 1"
    "free_slots c (without A k) = free_slots c A"
proof -
  obtain xs v ys where s: "victim_sbs A = xs @ v # ys" "xs = take (nat k) (victim_sbs A)"
    "v = victim_sbs A ! nat k" "ys = drop (Suc (nat k)) (victim_sbs A)"
    using without_split [OF assms(2,3)] by blast
  have w: "victim_sbs (without A k) = xs @ ys" "free_sbs (without A k) = free_sbs A" "open_sb (without A k) = open_sb A"
    using s by (simp_all add: without_def)
  show "alloc_wf c (without A k)" "set (sbs (without A k)) = set (sbs A) - {victim_sbs A ! nat k}"
    using assms(1) s(1) unfolding s(3) [symmetric]
    by (auto simp: alloc_wf_def sbs_def w split: option.splits)
  show "victim_sbs A ! nat k \<in> set (sbs A)" using s(1) unfolding s(3) [symmetric] by (simp add: sbs_def)
  show "int (length (victim_sbs (without A k))) = int (length (victim_sbs A)) - 1" by (simp add: w s(1))
  show "free_slots c (without A k) = free_slots c A" by (simp add: free_slots_def w)
qed

lemma eject_row_ok:
  assumes "alloc_rel s A" "0 \<le> k" "k < int (length (victim_sbs A))"
  shows "foldM (\<lambda>j s. do { (r, s') \<leftarrow> EJECT_VICTIM_BLOCK s (j, k); Some s' }) (cupto (flash_nb_of s)) s
    = Some (s\<lparr>victim_block_list := map (victim_root (without A k)) (cupto (flash_nb_of s)),
              total_victim_block_nb := total_victim_block_nb s - flash_nb_of s\<rparr>)"
proof -
  let ?F = "flash_nb_of s"
  note R = alloc_relD [OF assms(1)] and C = sb_confD [OF alloc_relD(1) [OF assms(1)]]
  have len: "int (length (victim_sbs A)) < 2 ^ 31" using sb_lengths [OF R(2,1)] by simp
  have kl: "nat k < length (victim_sbs A)" using assms(2,3) by linarith
  let ?v = "\<lambda>i f. victim_root (if f < i then without A k else A) f"
  let ?st = "\<lambda>i. s\<lparr>victim_block_list := map (?v i) (cupto ?F), total_victim_block_nb := total_victim_block_nb s - i\<rparr>"
  let ?body = "\<lambda>j s. do { (r, s') \<leftarrow> EJECT_VICTIM_BLOCK s (j, k); Some s' }"
  have "\<exists>s'. foldM ?body (cupto ?F) s = Some s' \<and> s' = ?st ?F"
  proof (rule for_rule [where Q = "\<lambda>i s'. s' = ?st i"])
    have "map (?v 0) (cupto ?F) = victim_block_list s" unfolding R(4) by (rule map_cupto_cong) simp
    then show "s = ?st 0" by simp
  next
    fix i s' assume i: "0 \<le> i" "i < ?F" and s': "s' = ?st i"
    have rd: "cread (victim_block_list s') i = Some (victim_root A i)" using i s' by (simp add: cread_map_cupto)
    have e: "cread (vb_chain (victim_root A i)) k = Some \<lparr>vb_flash = i, vb_block = victim_sbs A ! nat k\<rparr>"
      using assms(2,3) kl by (simp add: victim_root_def cread_def)
    have ro: "root_of (ssdparams s') i (victim_sbs A ! nat k) = Some i"
      using R(1) i s' by (simp add: root_of_ok)
    have "unlink_victim (map (?v i) (cupto ?F)) i k i = Some (map ((?v i)(i := victim_root (without A k) i)) (cupto ?F))"
      by (rule unlink_victim_ok) (use i assms(2,3) len in auto)
    moreover have "map ((?v i)(i := victim_root (without A k) i)) (cupto ?F) = map (?v (i + 1)) (cupto ?F)"
      by (rule map_cupto_cong) auto
    ultimately have ul: "unlink_victim (victim_block_list s') i k i = Some (map (?v (i + 1)) (cupto ?F))"
      using s' by simp
    have "?body i s' = Some (s'\<lparr>victim_block_list := map (?v (i + 1)) (cupto ?F),
        total_victim_block_nb := total_victim_block_nb s' - 1\<rparr>)"
      by (simp add: EJECT_VICTIM_BLOCK_def rd e ro ul)
    then show "\<exists>s''. ?body i s' = Some s'' \<and> s'' = ?st (i + 1)" by (simp add: s')
  qed (use C(3) in simp)
  moreover have "map (?v ?F) (cupto ?F) = map (victim_root (without A k)) (cupto ?F)"
    by (rule map_cupto_cong) simp
  ultimately show ?thesis by simp
qed

lemma eject_row_rel:
  assumes "alloc_rel s A" "0 \<le> k" "k < int (length (victim_sbs A))"
  shows "alloc_rel (s\<lparr>victim_block_list := map (victim_root (without A k)) (cupto (flash_nb_of s)),
              total_victim_block_nb := total_victim_block_nb s - flash_nb_of s\<rparr>) (without A k)"
proof -
  note R = alloc_relD [OF assms(1)]
  note w = without_wf [OF R(2) assms(2,3)]
  have "empty_root F (without A k) f = empty_root F A f" for F f by (simp add: empty_root_def without_def)
  moreover have "open_sb (without A k) = open_sb A" "free_sbs (without A k) = free_sbs A" by (simp_all add: without_def)
  ultimately show ?thesis
    using R w(1,4) by (simp add: alloc_rel_def open_state_def right_diff_distrib)
qed

subsection \<open>The victim is a superblock with the fewest valid pages\<close>

definition sb_valid :: "ssdstate \<Rightarrow> int \<Rightarrow> int" where
  "sb_valid s b = sum_list (map (\<lambda>f. valid_page_nb (block_state_table s ! nat (f * block_nb_of s + b))) (cupto (flash_nb_of s)))"

lemma victim_range: "alloc_wf c A \<Longrightarrow> b \<in> set (victim_sbs A) \<Longrightarrow> 0 \<le> b \<and> b < BLOCK_NB c"
  by (auto simp: alloc_wf_def sbs_def)

lemma scan_row_ok:
  assumes "alloc_rel s A" "blk_shape s" "0 \<le> i" "i < int (length (victim_sbs A))"
  shows "scan_row s (int (length (victim_sbs A))) i (cupto (flash_nb_of s)) 0 0 = Some (Some (sb_valid s (victim_sbs A ! nat i)))"
proof -
  let ?F = "flash_nb_of s" and ?n = "int (length (victim_sbs A))" and ?b = "victim_sbs A ! nat i"
  let ?val = "\<lambda>f. valid_page_nb (block_state_table s ! nat (f * block_nb_of s + ?b))"
  note R = alloc_relD [OF assms(1)] and C = sb_confD [OF alloc_relD(1) [OF assms(1)]]
  have il: "nat i < length (victim_sbs A)" using assms(3,4) by linarith
  then have b: "0 \<le> ?b" "?b < block_nb_of s" using victim_range [OF R(2)] nth_mem by blast+
  have len: "s32 ?n = ?n" using sb_lengths(2) [OF R(2,1)] by (simp add: cint)
  have rd: "cread (victim_block_list s) j = Some (victim_root A j)" if "0 \<le> j" "j < ?F" for j
    using R(4) that by (simp add: cread_map_cupto)
  have e: "cread (vb_chain (victim_root A j)) i = Some \<lparr>vb_flash = j, vb_block = ?b\<rparr>" for j
    using assms(3,4) il by (simp add: victim_root_def cread_def)
  have bs: "cread (block_state_table s) (GET_BLOCK_STATE_ENTRY s j ?b) = Some (block_state_table s ! nat (j * block_nb_of s + ?b))"
    if "0 \<le> j" "j < ?F" for j
    using block_index_range [OF assms(2) C(1) that b] by (simp add: cmem)
  have row: "scan_row s ?n i js ?b acc = Some (Some (acc + sum_list (map ?val js)))"
    if "\<forall>j \<in> set js. 0 \<le> j \<and> j < ?F" for js acc
    using that
  proof (induction js arbitrary: acc)
    case (Cons j js)
    then show ?case using rd [of j] e [of j] bs [of j] len by (simp add: victim_root_def [of A j, symmetric] Let_def)
      (simp add: victim_root_def len)
  qed simp
  obtain js where js: "cupto ?F = 0 # js" "\<forall>j \<in> set js. 0 \<le> j \<and> j < ?F"
  proof -
    have "cupto ?F \<noteq> []" using C(3) by (simp flip: length_greater_0_conv)
    then obtain j js where "cupto ?F = j # js" by (cases "cupto ?F") auto
    moreover then have "j = 0" using cupto_nth_prefix [of ?F "[]" j js] by simp
    moreover have "\<forall>j \<in> set (cupto ?F). 0 \<le> j \<and> j < ?F" by simp
    ultimately show ?thesis using that by simp
  qed
  have "scan_row s ?n i (cupto ?F) 0 0 = scan_row s ?n i (cupto ?F) ?b 0"
    using rd [of 0] e [of 0] C(3) by (simp add: js(1))
  also have "\<dots> = Some (Some (sb_valid s ?b))" using row [of "cupto ?F" 0] by (simp add: sb_valid_def)
  finally show ?thesis .
qed

lemma scan_rows_ok:
  assumes "alloc_rel s A" "blk_shape s" "\<forall>i \<in> set is. 0 \<le> i \<and> i < int (length (victim_sbs A))"
  shows "\<exists>k m. scan_rows s (int (length (victim_sbs A))) is (k0, m0) = Some (Some (k, m)) \<and> m \<le> m0 \<and>
    (\<forall>i \<in> set is. m \<le> sb_valid s (victim_sbs A ! nat i)) \<and>
    ((k, m) = (k0, m0) \<or> k \<in> set is \<and> m = sb_valid s (victim_sbs A ! nat k) \<and> m < m0)"
  using assms(3)
proof (induction "is" arbitrary: k0 m0)
  case (Cons i "is")
  let ?c = "sb_valid s (victim_sbs A ! nat i)"
  have r: "scan_row s (int (length (victim_sbs A))) i (cupto (VICTIM_TABLE_ENTRY_NB (ssdparams s))) 0 0 = Some (Some ?c)"
    using scan_row_ok [OF assms(1,2)] Cons.prems sb_confD(5) [OF alloc_relD(1) [OF assms(1)]] by simp
  have p: "\<forall>i \<in> set is. 0 \<le> i \<and> i < int (length (victim_sbs A))" using Cons.prems by simp
  show ?case
  proof (cases "?c < m0")
    case True
    from Cons.IH [OF p, of i ?c] obtain k m where
      "scan_rows s (int (length (victim_sbs A))) is (i, ?c) = Some (Some (k, m))" "m \<le> ?c"
      "\<forall>i \<in> set is. m \<le> sb_valid s (victim_sbs A ! nat i)"
      "(k, m) = (i, ?c) \<or> k \<in> set is \<and> m = sb_valid s (victim_sbs A ! nat k) \<and> m < ?c" by blast
    then show ?thesis using True r by auto
  next
    case False
    from Cons.IH [OF p, of k0 m0] obtain k m where
      "scan_rows s (int (length (victim_sbs A))) is (k0, m0) = Some (Some (k, m))" "m \<le> m0"
      "\<forall>i \<in> set is. m \<le> sb_valid s (victim_sbs A ! nat i)"
      "(k, m) = (k0, m0) \<or> k \<in> set is \<and> m = sb_valid s (victim_sbs A ! nat k) \<and> m < m0" by blast
    then show ?thesis using False r by auto
  qed
qed simp

lemma SELECT_VICTIM_SUPERBLOCK_ok:
  assumes "alloc_rel s A" "blk_shape s"
  shows "(\<exists>k s'. SELECT_VICTIM_SUPERBLOCK s = Some (Some (victim_sbs A ! nat k), s') \<and>
        0 \<le> k \<and> k < int (length (victim_sbs A)) \<and> alloc_rel s' (without A k) \<and> same_but_alloc s s' \<and>
        sb_valid s (victim_sbs A ! nat k) < sb_pages (ssdparams s) \<and>
        (\<forall>b \<in> set (victim_sbs A). sb_valid s (victim_sbs A ! nat k) \<le> sb_valid s b)) \<or>
    ((\<forall>b \<in> set (victim_sbs A). sb_pages (ssdparams s) \<le> sb_valid s b) \<and>
       (SELECT_VICTIM_SUPERBLOCK s = Some (None, s) \<or>
        SELECT_VICTIM_SUPERBLOCK s = Some (None, s\<lparr>iostat := (iostat s)\<lparr>fail_cnt := fail_cnt (iostat s) + 1\<rparr>\<rparr>)))"
proof (cases "victim_sbs A = []")
  case True
  then show ?thesis using alloc_relD(6) [OF assms(1)] by (simp add: SELECT_VICTIM_SUPERBLOCK_def)
next
  case False
  let ?F = "flash_nb_of s" and ?n = "int (length (victim_sbs A))" and ?N = "sb_pages (ssdparams s)"
  note R = alloc_relD [OF assms(1)] and C = sb_confD [OF alloc_relD(1) [OF assms(1)]]
  have tot: "total_victim_block_nb s \<noteq> 0" using R(6) C(3) False by simp
  have N: "max_valid_pages (ssdparams s) = ?N" by (simp add: max_valid_pages_def sb_pages_def C(2) mult.commute)
  have rd: "cread (victim_block_list s) 0 = Some (victim_root A 0)" using R(4) C(3) by (simp add: cread_map_cupto)
  have nb: "victim_block_nb (victim_root A 0) = ?n" "s32 ?n = ?n" "?n \<noteq> 0"
    using sb_lengths(2) [OF R(2,1)] False by (simp_all add: victim_root_def cint)
  obtain k m where sc: "scan_rows s ?n (cupto ?n) (0, ?N) = Some (Some (k, m))" "m \<le> ?N"
    "\<forall>i \<in> set (cupto ?n). m \<le> sb_valid s (victim_sbs A ! nat i)"
    "(k, m) = (0, ?N) \<or> k \<in> set (cupto ?n) \<and> m = sb_valid s (victim_sbs A ! nat k) \<and> m < ?N"
    using scan_rows_ok [OF assms, of "cupto ?n" 0 ?N] by auto
  have mn: "m \<le> sb_valid s b" if b: "b \<in> set (victim_sbs A)" for b
  proof -
    obtain i where "i < length (victim_sbs A)" "b = victim_sbs A ! i" using b by (auto simp: in_set_conv_nth)
    then show ?thesis using sc(3) by (auto dest: bspec [of _ _ "int i"])
  qed
  show ?thesis
  proof (cases "m = ?N")
    case True
    then show ?thesis using tot rd nb sc(1) mn by (auto simp: SELECT_VICTIM_SUPERBLOCK_def N)
  next
    case False
    then have k: "0 \<le> k" "k < ?n" "m = sb_valid s (victim_sbs A ! nat k)" "m < ?N" using sc(4) by auto
    then have kl: "nat k < length (victim_sbs A)" by linarith
    have e: "cread (vb_chain (victim_root A 0)) k = Some \<lparr>vb_flash = 0, vb_block = victim_sbs A ! nat k\<rparr>"
      using k(1,2) kl by (simp add: victim_root_def cread_def)
    let ?s' = "s\<lparr>victim_block_list := map (victim_root (without A k)) (cupto ?F),
              total_victim_block_nb := total_victim_block_nb s - ?F\<rparr>"
    have "SELECT_VICTIM_SUPERBLOCK s = Some (Some (victim_sbs A ! nat k), ?s')"
      using tot rd nb sc(1) False e eject_row_ok [OF assms(1) k(1,2)] C(5)
      by (simp add: SELECT_VICTIM_SUPERBLOCK_def N)
    moreover have "same_but_alloc s ?s'"
      by (rule same_but_allocI [where el = "empty_block_list s" and te = "total_empty_block_nb s"
            and i = "empty_block_table_index s" and d = "sb_deb s"]) simp
    ultimately show ?thesis
      using eject_row_rel [OF assms(1) k(1,2)] k mn by blast
  qed
qed

subsection \<open>The allocator as an interface\<close>

text \<open>
  What the write path and the collector rely on: while there are free slots an allocation succeeds,
  returns one of them, and takes exactly that one. Any number of allocations up to the number of
  free slots then returns pairwise different free pages.
\<close>

fun alloc_pages :: "('s \<Rightarrow> (int \<times> 's) option) \<Rightarrow> nat \<Rightarrow> 's \<Rightarrow> (int list \<times> 's) option" where
  "alloc_pages alloc 0 s = Some ([], s)"
| "alloc_pages alloc (Suc n) s =
     do { (p, s1) \<leftarrow> alloc s; (ps, s2) \<leftarrow> alloc_pages alloc n s1; Some (p # ps, s2) }"

locale page_source =
  fixes rel :: "'s \<Rightarrow> 'a \<Rightarrow> bool"
    and alloc :: "'s \<Rightarrow> (int \<times> 's) option"
    and slots :: "'s \<Rightarrow> 'a \<Rightarrow> int set"
  assumes alloc_free: "rel s a \<Longrightarrow> slots s a \<noteq> {} \<Longrightarrow>
      \<exists>p s' a'. alloc s = Some (p, s') \<and> rel s' a' \<and> p \<in> slots s a \<and> slots s' a' = slots s a - {p}"
    and alloc_full: "rel s a \<Longrightarrow> slots s a = {} \<Longrightarrow> alloc s = None"
    and slots_finite: "rel s a \<Longrightarrow> finite (slots s a)"
begin

lemma alloc_pages_ok:
  "rel s a \<Longrightarrow> n \<le> card (slots s a) \<Longrightarrow>
     \<exists>ps s' a'. alloc_pages alloc n s = Some (ps, s') \<and> rel s' a' \<and> length ps = n \<and> distinct ps \<and>
       set ps \<subseteq> slots s a \<and> slots s' a' = slots s a - set ps"
proof (induction n arbitrary: s a)
  case 0
  then show ?case by auto
next
  case (Suc n)
  have "slots s a \<noteq> {}" using Suc.prems(2) by auto
  from alloc_free [OF Suc.prems(1) this] obtain p s1 a1 where
    p: "alloc s = Some (p, s1)" "rel s1 a1" "p \<in> slots s a" "slots s1 a1 = slots s a - {p}" by blast
  have "n \<le> card (slots s1 a1)"
    using Suc.prems(2) p(3,4) slots_finite [OF Suc.prems(1)] by simp
  from Suc.IH [OF p(2) this] obtain ps s2 a2 where
    q: "alloc_pages alloc n s1 = Some (ps, s2)" "rel s2 a2" "length ps = n" "distinct ps"
      "set ps \<subseteq> slots s1 a1" "slots s2 a2 = slots s1 a1 - set ps" by blast
  have "alloc_pages alloc (Suc n) s = Some (p # ps, s2)" using p(1) q(1) by simp
  moreover have "distinct (p # ps)" using q(4,5) p(4) by auto
  moreover have "set (p # ps) \<subseteq> slots s a" using q(5) p(3,4) by auto
  moreover have "slots s2 a2 = slots s a - set (p # ps)" using q(6) p(4) by auto
  ultimately show ?case using q(2,3) by (metis length_Cons)
qed

lemma alloc_pages_exhausted:
  assumes "rel s a" "card (slots s a) < n"
  shows "alloc_pages alloc n s = None"
  using assms
proof (induction n arbitrary: s a)
  case (Suc n)
  show ?case
  proof (cases "slots s a = {}")
    case True
    then show ?thesis using alloc_full [OF Suc.prems(1)] by simp
  next
    case False
    from alloc_free [OF Suc.prems(1) False] obtain p s1 a1 where
      p: "alloc s = Some (p, s1)" "rel s1 a1" "p \<in> slots s a" "slots s1 a1 = slots s a - {p}" by blast
    have "card (slots s1 a1) < n"
      using Suc.prems(2) p(3,4) slots_finite [OF Suc.prems(1)] card_gt_0_iff [of "slots s a"] False by auto
    from Suc.IH [OF p(2) this] p(1) show ?thesis by simp
  qed
qed simp

end

text \<open>\<open>GET_NEW_PAGE\<close> as the write path and the collector call it.\<close>

definition new_page :: "ssdstate \<Rightarrow> (int \<times> ssdstate) option" where
  "new_page s =
     (case GET_NEW_PAGE s VICTIM_OVERALL (EMPTY_TABLE_ENTRY_NB (ssdparams s)) of
        Some (Some ppn, s') \<Rightarrow> Some (ppn, s')
      | _ \<Rightarrow> None)"

lemma new_page_ok:
  assumes "alloc_rel s A" "free_slots (ssdparams s) A \<noteq> {}"
  shows "\<exists>ppn s' A'. GET_NEW_PAGE s VICTIM_OVERALL k = Some (Some ppn, s') \<and> alloc_rel s' A' \<and> same_but_alloc s s' \<and>
    ppn \<in> free_slots (ssdparams s) A \<and> free_slots (ssdparams s) A' = free_slots (ssdparams s) A - {ppn} \<and>
    set (sbs A') = set (sbs A) \<and> abs_alloc (ssdparams s) A = Some (ppn, A')"
proof -
  note R = alloc_relD [OF assms(1)]
  obtain ppn A' where a: "abs_alloc (ssdparams s) A = Some (ppn, A')"
    using abs_alloc_None [OF R(1,2)] assms(2) by (cases "abs_alloc (ssdparams s) A") auto
  note p = abs_alloc_promise [OF R(1,2) a]
  then show ?thesis using GET_NEW_PAGE_refines [OF assms(1), of k] a by auto
qed

lemma finite_free_slots:
  assumes "alloc_rel s A"
  shows "finite (free_slots (ssdparams s) A)"
  by (rule finite_subset [of _ "{0..<pages_of s}"])
    (use free_slots_range [OF alloc_relD(1,2) [OF assms]] in auto)

interpretation femu_pages: page_source alloc_rel new_page "\<lambda>s A. free_slots (ssdparams s) A"
proof unfold_locales
  fix s A assume r: "alloc_rel s A" and ne: "free_slots (ssdparams s) A \<noteq> {}"
  from new_page_ok [OF this, of "EMPTY_TABLE_ENTRY_NB (ssdparams s)"] obtain ppn s' A' where
    "GET_NEW_PAGE s VICTIM_OVERALL (EMPTY_TABLE_ENTRY_NB (ssdparams s)) = Some (Some ppn, s')" "alloc_rel s' A'"
    "same_but_alloc s s'" "ppn \<in> free_slots (ssdparams s) A"
    "free_slots (ssdparams s) A' = free_slots (ssdparams s) A - {ppn}" by blast
  then show "\<exists>p s' A'. new_page s = Some (p, s') \<and> alloc_rel s' A' \<and> p \<in> free_slots (ssdparams s) A \<and>
      free_slots (ssdparams s') A' = free_slots (ssdparams s) A - {p}"
    using same_but_alloc_frame(1) [of s s'] by (auto simp: new_page_def)
next
  fix s A assume r: "alloc_rel s A" and e: "free_slots (ssdparams s) A = {}"
  then show "new_page s = None"
    using GET_NEW_PAGE_refines [OF r, of "EMPTY_TABLE_ENTRY_NB (ssdparams s)"]
      abs_alloc_None [OF alloc_relD(1,2) [OF r]] by (simp add: new_page_def)
qed (rule finite_free_slots)

end
