(* ===== verification/SsdConfig.thy ===== *)
theory SsdConfig
  imports IoTiming Allocator
begin

section \<open>Configuration\<close>

text \<open>
  \<open>INIT_SSD_CONFIG\<close> (\<open>vssim_config_manager.c\<close>): the configuration file is a sequence of names and
  values, read with \<open>fscanf\<close>; the sizes of the tables and the thresholds of the collector are
  computed from them. The file is a parameter, its characters as a string; \<open>None\<close> is a file that
  cannot be opened.
\<close>

subsection \<open>Scanning\<close>

definition is_space :: "char \<Rightarrow> bool" where
  "is_space c = (let n = of_char c :: nat in n = 32 \<or> 9 \<le> n \<and> n \<le> 13)"

definition is_digit :: "char \<Rightarrow> bool" where
  "is_digit c = (let n = of_char c :: nat in 48 \<le> n \<and> n \<le> 57)"

text \<open>\<open>fscanf\<close> with \<open>%s\<close>: the next word and the rest of the input, nothing at the end of the file.\<close>

definition read_word :: "string \<Rightarrow> (string \<times> string) option" where
  "read_word cs =
     (let ds = dropWhile is_space cs
      in if ds = [] then None
         else Some (takeWhile (\<lambda>c. \<not> is_space c) ds, dropWhile (\<lambda>c. \<not> is_space c) ds))"

text \<open>
  \<open>fscanf\<close> with \<open>%d\<close>: an optional sign and digits. Without digits nothing is stored, and a sign that
  has been read is gone.
\<close>

definition digits_value :: "string \<Rightarrow> int" where
  "digits_value ds = foldl (\<lambda>n c. 10 * n + (of_char c - 48)) 0 ds"

definition read_sign :: "string \<Rightarrow> bool \<times> string" where
  "read_sign cs =
     (case cs of
        [] \<Rightarrow> (False, [])
      | c # ds \<Rightarrow> (if c = CHR ''-'' then (True, ds) else if c = CHR ''+'' then (False, ds) else (False, cs)))"

definition read_int :: "string \<Rightarrow> int option \<times> string" where
  "read_int cs =
     (let (neg, ds) = read_sign (dropWhile is_space cs);
          v = takeWhile is_digit ds
      in (if v = [] then None else Some (s32 (if neg then - digits_value v else digits_value v)),
          dropWhile is_digit ds))"

text \<open>The names the program knows, and the field each of them sets.\<close>

definition param_of :: "string \<Rightarrow> (int \<Rightarrow> ssdconf \<Rightarrow> ssdconf) option" where
  "param_of w =
     (if w = ''PAGE_SIZE'' then Some (\<lambda>v c. c\<lparr>PAGE_SIZE := v\<rparr>)
      else if w = ''PAGE_NB'' then Some (\<lambda>v c. c\<lparr>PAGE_NB := v\<rparr>)
      else if w = ''SECTOR_SIZE'' then Some (\<lambda>v c. c\<lparr>SECTOR_SIZE := v\<rparr>)
      else if w = ''FLASH_NB'' then Some (\<lambda>v c. c\<lparr>FLASH_NB := v\<rparr>)
      else if w = ''BLOCK_NB'' then Some (\<lambda>v c. c\<lparr>BLOCK_NB := v\<rparr>)
      else if w = ''PLANES_PER_FLASH'' then Some (\<lambda>v c. c\<lparr>PLANES_PER_FLASH := v\<rparr>)
      else if w = ''REG_WRITE_DELAY'' then Some (\<lambda>v c. c\<lparr>REG_WRITE_DELAY := v\<rparr>)
      else if w = ''CELL_PROGRAM_DELAY'' then Some (\<lambda>v c. c\<lparr>CELL_PROGRAM_DELAY := v\<rparr>)
      else if w = ''REG_READ_DELAY'' then Some (\<lambda>v c. c\<lparr>REG_READ_DELAY := v\<rparr>)
      else if w = ''CELL_READ_DELAY'' then Some (\<lambda>v c. c\<lparr>CELL_READ_DELAY := v\<rparr>)
      else if w = ''BLOCK_ERASE_DELAY'' then Some (\<lambda>v c. c\<lparr>BLOCK_ERASE_DELAY := v\<rparr>)
      else if w = ''CHANNEL_SWITCH_DELAY_R'' then Some (\<lambda>v c. c\<lparr>CHANNEL_SWITCH_DELAY_R := v\<rparr>)
      else if w = ''CHANNEL_SWITCH_DELAY_W'' then Some (\<lambda>v c. c\<lparr>CHANNEL_SWITCH_DELAY_W := v\<rparr>)
      else if w = ''DSM_TRIM_ENABLE'' then Some (\<lambda>v c. c\<lparr>DSM_TRIM_ENABLE := v\<rparr>)
      else if w = ''IO_PARALLELISM'' then Some (\<lambda>v c. c\<lparr>IO_PARALLELISM := v\<rparr>)
      else if w = ''CHANNEL_NB'' then Some (\<lambda>v c. c\<lparr>CHANNEL_NB := v\<rparr>)
      else if w = ''OVP'' then Some (\<lambda>v c. c\<lparr>OVP := v\<rparr>)
      else if w = ''GC_MODE'' then Some (\<lambda>v c. c\<lparr>GC_MODE := v\<rparr>)
      else None)"

lemma read_word_shorter: "read_word cs = Some (w, r) \<Longrightarrow> length r < length cs"
proof -
  assume "read_word cs = Some (w, r)"
  then obtain c ds where d: "dropWhile is_space cs = c # ds" "r = dropWhile (\<lambda>c. \<not> is_space c) (c # ds)"
    by (cases "dropWhile is_space cs") (auto simp: read_word_def Let_def)
  have "\<not> is_space c" using d(1) by (metis hd_dropWhile list.sel(1) list.distinct(1))
  then have "length r \<le> length ds" using d(2) by (simp add: length_dropWhile_le)
  also have "length ds < length cs" using length_dropWhile_le [of is_space cs] d(1) by simp
  finally show ?thesis .
qed

lemma read_int_shorter: "length (snd (read_int cs)) \<le> length cs"
proof -
  have "length (snd (read_sign ds)) \<le> length ds" for ds by (cases ds) (simp_all add: read_sign_def)
  from this [of "dropWhile is_space cs"] show ?thesis
    using length_dropWhile_le [of is_space cs] length_dropWhile_le [of is_digit "snd (read_sign (dropWhile is_space cs))"]
    by (simp add: read_int_def split_beta Let_def)
qed

text \<open>The reading loop. A word of 1024 characters or more overruns the buffer that it is read into.\<close>

function parse_conf :: "string \<Rightarrow> ssdconf \<Rightarrow> ssdconf option" where
  "parse_conf cs sc =
     (case read_word cs of
        None \<Rightarrow> Some sc
      | Some (w, r) \<Rightarrow>
          (if 1024 \<le> length w then None
           else case param_of w of
              None \<Rightarrow> parse_conf r sc
            | Some f \<Rightarrow>
                (case read_int r of
                   (None, r') \<Rightarrow> parse_conf r' sc
                 | (Some v, r') \<Rightarrow> parse_conf r' (f v sc))))"
  by pat_completeness auto

termination
proof (relation "measure (length \<circ> fst)", goal_cases)
  case (2 cs sc x w r)
  then show ?case using read_word_shorter by auto
next
  case (3 cs sc x w r f z r')
  then have "snd (read_int r) = r'" by (metis snd_conv)
  then show ?case using 3 read_word_shorter [of cs w r] read_int_shorter [of r] by auto
next
  case (4 cs sc x w r f z r' v)
  then have "snd (read_int r) = r'" by (metis snd_conv)
  then show ?case using 4 read_word_shorter [of cs w r] read_int_shorter [of r] by auto
qed simp

declare parse_conf.simps [simp del]

subsection \<open>Derived parameters\<close>

text \<open>
  \<open>(int)((1 - t) * (double)n)\<close> for \<open>t = 0.9\<close> and \<open>t = 0.95\<close>: the doubles \<open>1 - t\<close> are these numerators
  over \<open>2 ^ 53\<close>, and the product is rounded once.
\<close>

definition ONE_MINUS_GC_THRESHOLD :: int where
  "ONE_MINUS_GC_THRESHOLD = 900719925474099"

definition ONE_MINUS_GC_THRESHOLD_HARD :: int where
  "ONE_MINUS_GC_THRESHOLD_HARD = 450359962737050"

definition part_of :: "int \<Rightarrow> int \<Rightarrow> int" where
  "part_of num n = (if 0 \<le> n then dbl (num * n) div 2 ^ 53 else - (dbl (num * (- n)) div 2 ^ 53))"

definition derive_conf :: "ssdconf \<Rightarrow> ssdconf option" where
  "derive_conf sc =
     (if SECTOR_SIZE sc = 0 \<or> CHANNEL_NB sc = 0 \<or> PLANES_PER_FLASH sc = 0 then None
      else
        let spp = PAGE_SIZE sc sdiv SECTOR_SIZE sc;
            blocks = BLOCK_NB sc * FLASH_NB sc;
            pages = PAGE_NB sc * BLOCK_NB sc * FLASH_NB sc;
            each = BLOCK_NB sc sdiv PLANES_PER_FLASH sc
        in Some (sc\<lparr>SECTORS_PER_PAGE := spp,
             PAGES_PER_FLASH := PAGE_NB sc * BLOCK_NB sc,
             SECTOR_NB := spp * PAGE_NB sc * BLOCK_NB sc * FLASH_NB sc,
             WAY_NB := FLASH_NB sc sdiv CHANNEL_NB sc,
             BLOCK_MAPPING_ENTRY_NB := blocks,
             PAGES_IN_SSD := pages,
             PAGE_MAPPING_ENTRY_NB := pages,
             EACH_EMPTY_TABLE_ENTRY_NB := each,
             EMPTY_TABLE_ENTRY_NB := FLASH_NB sc * PLANES_PER_FLASH sc,
             VICTIM_TABLE_ENTRY_NB := FLASH_NB sc * PLANES_PER_FLASH sc,
             DATA_BLOCK_NB := BLOCK_NB sc,
             GC_THRESHOLD_BLOCK_NB := part_of ONE_MINUS_GC_THRESHOLD blocks,
             GC_THRESHOLD_BLOCK_NB_HARD := part_of ONE_MINUS_GC_THRESHOLD_HARD blocks,
             GC_THRESHOLD_BLOCK_NB_EACH := part_of ONE_MINUS_GC_THRESHOLD each,
             GC_VICTIM_NB := (if OVP sc \<noteq> 0 then FLASH_NB sc * BLOCK_NB sc * OVP sc sdiv 100 sdiv 2 else 1)\<rparr>))"

text \<open>A table of \<open>n\<close> zeros; clearing the result of a failed allocation is a fault.\<close>

definition zero_table :: "int \<Rightarrow> int list option" where
  "zero_table n = (if n < 0 then None else Some (replicate (nat n) 0))"

definition init_time_tables :: "ssdconf \<Rightarrow> dev_time \<Rightarrow> dev_time option" where
  "init_time_tables sc dt =
     (if gc_slots sc = 0 then None
      else do {
        slots \<leftarrow> zero_table (gc_slots sc);
        chnl \<leftarrow> zero_table (CHANNEL_NB sc);
        chip \<leftarrow> zero_table (FLASH_NB sc);
        nvram \<leftarrow> zero_table (BLOCK_NB sc);
        Some (dt\<lparr>gc_slot := slots, chnl_next_avail_time := chnl, chip_next_avail_time := chip,
          nvram_next_avail_time := nvram\<rparr>)
      })"

definition INIT_SSD_CONFIG :: "string option \<Rightarrow> ssdstate \<Rightarrow> ssdstate option" where
  "INIT_SSD_CONFIG conffile ssd =
     (case conffile of
        None \<Rightarrow> None
      | Some text \<Rightarrow> do {
          sc \<leftarrow> parse_conf text ((ssdparams ssd)\<lparr>sos := 24, max_page := 0\<rparr>);
          let ssd1 = upd_iostat (\<lambda>st. st\<lparr>block_cnt := 0\<rparr>) (ssd\<lparr>ssdparams := sc\<rparr>);
          (if FLASH_NB sc < CHANNEL_NB sc then Some ssd1
           else if PLANES_PER_FLASH sc \<noteq> 1 \<and> PLANES_PER_FLASH sc smod 2 \<noteq> 0 then Some ssd1
           else do {
             sc' \<leftarrow> derive_conf sc;
             dt \<leftarrow> init_time_tables sc' (devtime ssd1);
             Some (ssd1\<lparr>ssdparams := sc', devtime := dt\<rparr>)
           })
        })"

subsection \<open>The configuration file in the repository\<close>

text \<open>A cleared configuration, and the text of \<open>femu-scripts/vssd1.conf\<close>.\<close>

definition zero_conf :: ssdconf where
  "zero_conf = \<lparr>SECTOR_SIZE = 0, PAGE_SIZE = 0, SECTOR_NB = 0, PAGE_NB = 0, FLASH_NB = 0, BLOCK_NB = 0, CHANNEL_NB = 0,
     PLANES_PER_FLASH = 0, SECTORS_PER_PAGE = 0, PAGES_PER_FLASH = 0, PAGES_IN_SSD = 0, GC_MODE = 0, WAY_NB = 0, OVP = 0,
     DATA_BLOCK_NB = 0, BLOCK_MAPPING_ENTRY_NB = 0, PAGE_MAPPING_ENTRY_NB = 0, EACH_EMPTY_TABLE_ENTRY_NB = 0,
     EMPTY_TABLE_ENTRY_NB = 0, VICTIM_TABLE_ENTRY_NB = 0, REG_WRITE_DELAY = 0, CELL_PROGRAM_DELAY = 0, REG_READ_DELAY = 0,
     CELL_READ_DELAY = 0, BLOCK_ERASE_DELAY = 0, CHANNEL_SWITCH_DELAY_W = 0, CHANNEL_SWITCH_DELAY_R = 0,
     DSM_TRIM_ENABLE = 0, IO_PARALLELISM = 0, GC_THRESHOLD_BLOCK_NB = 0, GC_THRESHOLD_BLOCK_NB_HARD = 0,
     GC_THRESHOLD_BLOCK_NB_EACH = 0, GC_VICTIM_NB = 0, sos = 0, max_page = 0\<rparr>"

definition shipped_conf :: string where
  "shipped_conf =
     ''FILE_NAME_HDA'' @ replicate 3 (CHR 0x09) @ ''../../RAMDISK/rd/ssd_hda.img'' @ [CHR 0x0A] @
     ''FILE_NAME_HDB'' @ replicate 3 (CHR 0x09) @ ''../../RAMDISK/rd/ssd_hdb.img'' @ [CHR 0x0A] @
     ''PAGE_SIZE'' @ replicate 3 (CHR 0x09) @ ''4096'' @ [CHR 0x0A] @
     ''PAGE_NB'' @ replicate 4 (CHR 0x09) @ ''640'' @ [CHR 0x0A] @
     ''SECTOR_SIZE'' @ replicate 3 (CHR 0x09) @ ''512'' @ [CHR 0x0A] @
     ''FLASH_NB'' @ replicate 2 (CHR 0x09) @ replicate 4 (CHR 0x20) @ ''8'' @ [CHR 0x0A] @
     ''BLOCK_NB'' @ replicate 3 (CHR 0x09) @ ''1024'' @ [CHR 0x0A] @
     ''PLANES_PER_FLASH'' @ replicate 2 (CHR 0x09) @ ''1'' @ replicate 2 (CHR 0x0A) @
     ''LOG_RAND_BLOCK_NB'' @ replicate 2 (CHR 0x09) @ ''0'' @ [CHR 0x0A] @
     ''LOG_SEQ_BLOCK_NB'' @ replicate 2 (CHR 0x09) @ ''0'' @ replicate 2 (CHR 0x0A) @
     ''REG_WRITE_DELAY'' @ replicate 3 (CHR 0x09) @ ''40000'' @ [CHR 0x0A] @
     ''CELL_PROGRAM_DELAY'' @ replicate 2 (CHR 0x09) @ ''800000'' @ [CHR 0x0A] @
     ''REG_READ_DELAY'' @ replicate 3 (CHR 0x09) @ ''60000'' @ [CHR 0x0A] @
     ''CELL_READ_DELAY'' @ replicate 3 (CHR 0x09) @ ''40000'' @ [CHR 0x0A] @
     ''BLOCK_ERASE_DELAY'' @ replicate 2 (CHR 0x09) @ ''3000000'' @ replicate 2 (CHR 0x0A) @
     ''CHANNEL_SWITCH_DELAY_R'' @ replicate 2 (CHR 0x09) @ ''16'' @ [CHR 0x0A] @
     ''CHANNEL_SWITCH_DELAY_W'' @ replicate 2 (CHR 0x09) @ ''33'' @ replicate 2 (CHR 0x0A) @
     ''IO_PARALLELISM'' @ replicate 3 (CHR 0x09) @ ''0'' @ replicate 2 (CHR 0x0A) @
     ''WRITE_BUFFER_FRAME_NB'' @ replicate 11 (CHR 0x20) @ ''2048'' @ [CHR 0x0A] @
     ''READ_BUFFER_FRAME_NB'' @ replicate 12 (CHR 0x20) @ ''2048'' @ [CHR 0x0A] @
     ''CACHE_IDX_SIZE'' @ replicate 3 (CHR 0x09) @ ''10'' @ replicate 2 (CHR 0x0A) @
     ''CHANNEL_NB'' @ replicate 3 (CHR 0x09) @ ''2'' @ [CHR 0x0A] @
     ''OVP'' @ replicate 4 (CHR 0x09) @ ''20'' @ replicate 2 (CHR 0x0A) @
     ''GC_MODE'' @ [CHR 0x20] @ ''2''"

section \<open>Lemmas\<close>

subsection \<open>Rounding\<close>

lemma bitlen_pos: "0 < n \<Longrightarrow> 2 ^ (bitlen n - 1) \<le> n"
proof (induction n rule: bitlen.induct)
  case (1 n)
  show ?case
  proof (cases "n div 2 = 0")
    case True
    then show ?thesis using 1(2) by (simp add: bitlen.simps [of n] bitlen.simps [of 0])
  next
    case False
    then have h: "2 ^ (bitlen (n div 2) - 1) \<le> n div 2" "bitlen (n div 2) \<noteq> 0"
      using 1 by (simp_all add: bitlen.simps [of "n div 2"])
    then obtain k where k: "bitlen (n div 2) = Suc k" by (cases "bitlen (n div 2)") simp_all
    then have "bitlen n = Suc (Suc k)" using 1(2) by (simp add: bitlen.simps [of n])
    moreover have "2 ^ k \<le> n div 2" using h(1) k by simp
    ultimately show ?thesis by simp
  qed
qed

lemma round_half_even_err:
  assumes "0 < b"
  shows "2 * (round_half_even a b * b - a) \<le> b" "2 * (a - round_half_even a b * b) \<le> b"
proof -
  define q r where "q = a div b" and "r = a mod b"
  have a: "a = q * b + r" "0 \<le> r" "r < b" using assms by (simp_all add: q_def r_def)
  have "round_half_even a b = (if 2 * r < b then q else if b < 2 * r then q + 1 else if even q then q else q + 1)"
    by (simp add: round_half_even_def q_def r_def)
  then have "round_half_even a b = q \<and> 2 * r \<le> b \<or> round_half_even a b = q + 1 \<and> b \<le> 2 * r" by (simp split: if_splits)
  then show "2 * (round_half_even a b * b - a) \<le> b" "2 * (a - round_half_even a b * b) \<le> b"
    using a by (auto simp: distrib_right)
qed

lemma dbl_err:
  assumes "0 \<le> n"
  shows "2 ^ 53 * (dbl n - n) \<le> n" "2 ^ 53 * (n - dbl n) \<le> n"
proof -
  define e where "e = bitlen (nat n) - 53"
  have "2 ^ 53 * (dbl n - n) \<le> n \<and> 2 ^ 53 * (n - dbl n) \<le> n"
  proof (cases "e = 0")
    case True
    then show ?thesis using assms by (simp add: dbl_def e_def)
  next
    case False
    then have d: "dbl n = round_half_even n (2 ^ e) * 2 ^ e" "bitlen (nat n) - 1 = e + 52" by (auto simp: dbl_def e_def Let_def)
    have "0 < nat n" using False by (cases "nat n = 0") (simp_all add: e_def bitlen.simps [of 0])
    from bitlen_pos [OF this] have "2 ^ (e + 52) \<le> nat n" unfolding d(2) .
    then have "int (2 ^ (e + 52)) \<le> int (nat n)" by (simp only: of_nat_le_iff)
    then have p: "2 ^ 52 * 2 ^ e \<le> n" using assms by (simp add: power_add mult.commute)
    have "2 * (dbl n - n) \<le> 2 ^ e" "2 * (n - dbl n) \<le> 2 ^ e" using round_half_even_err [of "2 ^ e" n] by (simp_all add: d(1))
    then have "2 ^ 52 * (2 * (dbl n - n)) \<le> 2 ^ 52 * 2 ^ e" "2 ^ 52 * (2 * (n - dbl n)) \<le> 2 ^ 52 * 2 ^ e"
      by (intro mult_left_mono; simp)+
    then show ?thesis using p by simp
  qed
  then show "2 ^ 53 * (dbl n - n) \<le> n" "2 ^ 53 * (n - dbl n) \<le> n" by simp_all
qed

lemma div_eqI: "0 < (b :: int) \<Longrightarrow> q * b \<le> a \<Longrightarrow> a < (q + 1) * b \<Longrightarrow> a div b = q"
  by (rule int_div_pos_eq [of a b q "a - q * b"]) (simp_all add: algebra_simps)

text \<open>The collector starts below a tenth of the blocks, rounded down from just below.\<close>

lemma gc_threshold_exact:
  assumes "0 < n" "n < 2 ^ 31"
  shows "part_of ONE_MINUS_GC_THRESHOLD n = (n - 1) div 10"
proof -
  define q where "q = (n - 1) div 10"
  have q: "10 * q \<le> n - 1" "n - 1 < 10 * (q + 1)" using div_mult_mod_eq [of "n - 1" 10] pos_mod_bound [of 10 "n - 1"] by (simp_all add: q_def)
  let ?P = "900719925474099 * n"
  have "dbl ?P div 2 ^ 53 = q"
  proof (rule div_eqI)
    show "q * 2 ^ 53 \<le> dbl ?P" "dbl ?P < (q + 1) * 2 ^ 53" using dbl_err [of ?P] assms q by simp_all
  qed simp
  then show ?thesis using assms by (simp add: part_of_def ONE_MINUS_GC_THRESHOLD_def q_def)
qed

lemma gc_threshold_hard_exact:
  assumes "0 < n" "n < 2 ^ 31"
  shows "part_of ONE_MINUS_GC_THRESHOLD_HARD n = n div 20"
proof -
  define q where "q = n div 20"
  have q: "20 * q \<le> n" "n < 20 * (q + 1)" using div_mult_mod_eq [of n 20] pos_mod_bound [of 20 n] by (simp_all add: q_def)
  let ?P = "450359962737050 * n"
  have "dbl ?P div 2 ^ 53 = q"
  proof (rule div_eqI)
    show "q * 2 ^ 53 \<le> dbl ?P" "dbl ?P < (q + 1) * 2 ^ 53" using dbl_err [of ?P] assms q by simp_all
  qed simp
  then show ?thesis using assms by (simp add: part_of_def ONE_MINUS_GC_THRESHOLD_HARD_def q_def)
qed

subsection \<open>Well-formed results\<close>

text \<open>The parameters for which the superblock lists, the address arithmetic and the collector work.\<close>

definition params_ok :: "ssdconf \<Rightarrow> bool" where
  "params_ok c \<longleftrightarrow> 0 < PAGE_NB c \<and> 0 < BLOCK_NB c \<and> 2 \<le> FLASH_NB c \<and> PLANES_PER_FLASH c = 1 \<and>
     1 \<le> CHANNEL_NB c \<and> CHANNEL_NB c \<le> FLASH_NB c \<and> 0 < SECTOR_SIZE c \<and> SECTOR_SIZE c \<le> PAGE_SIZE c \<and>
     PAGE_NB c * BLOCK_NB c * FLASH_NB c < 2 ^ 31 \<and>
     (GC_MODE c = WHOLE_BLOCKING \<or> GC_MODE c = CHANNEL_BLOCKING \<or> GC_MODE c = CHIP_BLOCKING)"

lemma params_bounds:
  assumes "params_ok c"
  shows "FLASH_NB c < 2 ^ 31" "BLOCK_NB c * FLASH_NB c < 2 ^ 31" "0 < BLOCK_NB c * FLASH_NB c"
proof -
  have p: "0 < PAGE_NB c" "0 < BLOCK_NB c" "0 < FLASH_NB c" "PAGE_NB c * (BLOCK_NB c * FLASH_NB c) < 2 ^ 31"
    using assms by (simp_all add: params_ok_def mult.assoc)
  show pos: "0 < BLOCK_NB c * FLASH_NB c" using p by simp
  from mult_pos_bounds(2) [OF p(1) pos p(4)] show bf: "BLOCK_NB c * FLASH_NB c < 2 ^ 31" .
  from mult_pos_bounds(2) [OF p(2,3) bf] show "FLASH_NB c < 2 ^ 31" .
qed

lemma derive_conf_ok:
  assumes "params_ok c"
  shows "\<exists>c'. derive_conf c = Some c' \<and> sb_conf c' \<and> params_ok c' \<and>
    EACH_EMPTY_TABLE_ENTRY_NB c' = BLOCK_NB c' \<and>
    GC_THRESHOLD_BLOCK_NB c' = (FLASH_NB c * BLOCK_NB c - 1) div 10 \<and>
    GC_THRESHOLD_BLOCK_NB_HARD c' = FLASH_NB c * BLOCK_NB c div 20 \<and>
    PAGE_NB c' = PAGE_NB c \<and> BLOCK_NB c' = BLOCK_NB c \<and> FLASH_NB c' = FLASH_NB c \<and> CHANNEL_NB c' = CHANNEL_NB c \<and>
    GC_MODE c' = GC_MODE c \<and> SECTORS_PER_PAGE c' = PAGE_SIZE c div SECTOR_SIZE c"
proof -
  note b = params_bounds [OF assms] and P = assms [unfolded params_ok_def]
  have spp: "PAGE_SIZE c sdiv SECTOR_SIZE c = PAGE_SIZE c div SECTOR_SIZE c" using P by (simp add: sdiv_nonneg)
  have "0 < PAGE_SIZE c div SECTOR_SIZE c" using P by (simp add: pos_imp_zdiv_pos_iff)
  moreover have "BLOCK_NB c sdiv 1 = BLOCK_NB c" using P by (simp add: sdiv_nonneg)
  moreover note gc_threshold_exact [OF b(3,2)] gc_threshold_hard_exact [OF b(3,2)]
  ultimately show ?thesis
    using P b by (simp add: derive_conf_def Let_def spp sb_conf_def wf_conf_def params_ok_def mult.commute)
qed

lemma init_time_tables_ok:
  assumes "sb_conf c" "params_ok c"
  shows "\<exists>dt'. init_time_tables c dt = Some dt' \<and> time_shape c dt' \<and> clock dt' = clock dt \<and> ticks dt' = ticks dt \<and>
    blocking_to dt' = blocking_to dt"
proof -
  note P = assms(2) [unfolded params_ok_def]
  have "0 < gc_slots c" using P by (auto simp: gc_slots_def)
  then show ?thesis using P by (auto simp: init_time_tables_def zero_table_def time_shape_def)
qed

lemma INIT_SSD_CONFIG_ok:
  assumes "parse_conf text ((ssdparams s)\<lparr>sos := 24, max_page := 0\<rparr>) = Some c" "params_ok c"
  shows "\<exists>c' dt. INIT_SSD_CONFIG (Some text) s = Some (upd_iostat (\<lambda>st. st\<lparr>block_cnt := 0\<rparr>) (s\<lparr>ssdparams := c', devtime := dt\<rparr>)) \<and>
    derive_conf c = Some c' \<and> sb_conf c' \<and> params_ok c' \<and> time_shape c' dt \<and> EACH_EMPTY_TABLE_ENTRY_NB c' = BLOCK_NB c' \<and>
    PAGE_NB c' = PAGE_NB c \<and> BLOCK_NB c' = BLOCK_NB c \<and> FLASH_NB c' = FLASH_NB c \<and> clock dt = clock (devtime s)"
proof -
  note P = assms(2) [unfolded params_ok_def]
  from derive_conf_ok [OF assms(2)] obtain c' where
    c: "derive_conf c = Some c'" "sb_conf c'" "params_ok c'" "EACH_EMPTY_TABLE_ENTRY_NB c' = BLOCK_NB c'"
      "PAGE_NB c' = PAGE_NB c" "BLOCK_NB c' = BLOCK_NB c" "FLASH_NB c' = FLASH_NB c" by blast
  from init_time_tables_ok [OF c(2,3), of "devtime s"] obtain dt where
    d: "init_time_tables c' (devtime s) = Some dt" "time_shape c' dt" "clock dt = clock (devtime s)" by blast
  have "INIT_SSD_CONFIG (Some text) s = Some (upd_iostat (\<lambda>st. st\<lparr>block_cnt := 0\<rparr>) (s\<lparr>ssdparams := c', devtime := dt\<rparr>))"
    using assms(1) P c(1) d(1) by (simp add: INIT_SSD_CONFIG_def Let_def upd_iostat_def)
  then show ?thesis using c d by blast
qed

definition shipped_params :: ssdconf where
  "shipped_params = zero_conf\<lparr>PAGE_SIZE := 4096, PAGE_NB := 640, SECTOR_SIZE := 512, FLASH_NB := 8, BLOCK_NB := 1024,
     PLANES_PER_FLASH := 1, REG_WRITE_DELAY := 40000, CELL_PROGRAM_DELAY := 800000, REG_READ_DELAY := 60000,
     CELL_READ_DELAY := 40000, BLOCK_ERASE_DELAY := 3000000, CHANNEL_SWITCH_DELAY_R := 16, CHANNEL_SWITCH_DELAY_W := 33,
     IO_PARALLELISM := 0, CHANNEL_NB := 2, OVP := 20, GC_MODE := 2, sos := 24, max_page := 0\<rparr>"

lemma parse_shipped: "parse_conf shipped_conf (zero_conf\<lparr>sos := 24, max_page := 0\<rparr>) = Some shipped_params"
  by code_simp

lemma shipped_params_ok: "params_ok shipped_params"
  by (simp add: params_ok_def shipped_params_def zero_conf_def)

end
