(* ===== verification/InverseMap.thy ===== *)
theory InverseMap
  imports BlockState
begin

section \<open>The inverse mapping table\<close>

text \<open>
  For every physical page the chain of logical pages that refer to it
  (\<open>INCREASE_INVERSE_MAPPING\<close>, \<open>DECREASE_INVERSE_MAPPING\<close> of
  \<open>ftl_inverse_mapping_manager.c\<close>). Remapping lets several logical pages share one physical page,
  so the chain is the reverse of the mapping table. The length of a chain is kept in an
  \<open>int8_t\<close>. Memory allocation is taken to succeed.
\<close>

subsection \<open>Operations\<close>

definition INCREASE_INVERSE_MAPPING :: "ssdstate \<Rightarrow> int \<Rightarrow> int \<Rightarrow> (int \<times> ssdstate) option" where
  "INCREASE_INVERSE_MAPPING ssd ppn lpn =
     (if ppn = - 1 then Some (FAIL, ssd)
      else do {
        e \<leftarrow> cread (inverse_mapping_table ssd) ppn;
        e' \<leftarrow> (if lpn_cnt e = 0 then Some (e\<lparr>lpns := [lpn], lpn_cnt := 1\<rparr>)
               else if lpns e = [] then None
               else Some (e\<lparr>lpns := lpns e @ [lpn], lpn_cnt := s8 (lpn_cnt e + 1)\<rparr>));
        t \<leftarrow> cwrite (inverse_mapping_table ssd) ppn e';
        Some (SUCCESS, ssd\<lparr>inverse_mapping_table := t\<rparr>)
      })"

text \<open>The search loop: the position of the first node that holds \<open>lpn\<close>, \<open>None\<close> for a null pointer.\<close>

fun find_node :: "int \<Rightarrow> int list \<Rightarrow> nat option" where
  "find_node lpn [] = None"
| "find_node lpn (x # xs) = (if lpn = x then Some 0 else map_option Suc (find_node lpn xs))"

text \<open>
  Unlinking the node found: the head, the tail or an inner node. A null node is equal to the head
  of an empty chain; otherwise its fields are dereferenced, which is a fault.
\<close>

definition unlink_node :: "int \<Rightarrow> nat option \<Rightarrow> int list \<Rightarrow> int list option" where
  "unlink_node cnt victim xs =
     (case victim of
        None \<Rightarrow> (if xs = [] \<and> cnt = 1 then Some [] else None)
      | Some i \<Rightarrow>
          (if i = 0 then
             (if cnt = 1 then Some []
              else if tl xs = [] then None
              else Some (tl xs))
           else if i = length xs - 1 then Some (butlast xs)
           else Some (take i xs @ drop (Suc i) xs)))"

definition DECREASE_INVERSE_MAPPING :: "ssdstate \<Rightarrow> int \<Rightarrow> int \<Rightarrow> (int \<times> ssdstate) option" where
  "DECREASE_INVERSE_MAPPING ssd ppn lpn =
     (if ppn = - 1 then Some (FAIL, ssd)
      else do {
        e \<leftarrow> cread (inverse_mapping_table ssd) ppn;
        (if lpn_cnt e = 0 then Some (FAIL, ssd)
         else do {
           xs \<leftarrow> unlink_node (lpn_cnt e) (find_node lpn (lpns e)) (lpns e);
           t \<leftarrow> cwrite (inverse_mapping_table ssd) ppn
                 (e\<lparr>lpns := xs, lpn_cnt := s8 (lpn_cnt e - 1)\<rparr>);
           Some (SUCCESS, ssd\<lparr>inverse_mapping_table := t\<rparr>)
         })
      })"

text \<open>\<open>GET_INVERSE_MAPPING_INFO\<close>: a pointer into the table, here the entry it points to.\<close>

definition GET_INVERSE_MAPPING_INFO :: "ssdstate \<Rightarrow> int \<Rightarrow> inverse_mapping_entry option" where
  "GET_INVERSE_MAPPING_INFO ssd ppn = cread (inverse_mapping_table ssd) ppn"

subsection \<open>The chain view and its invariant\<close>

definition chain :: "ssdstate \<Rightarrow> int \<Rightarrow> int list" where
  "chain s ppn = lpns (inverse_mapping_table s ! nat ppn)"

definition link_inv :: "ssdstate \<Rightarrow> bool" where
  "link_inv s \<longleftrightarrow>
     length (inverse_mapping_table s) = nat (pages_of s) \<and>
     (\<forall>e \<in> set (inverse_mapping_table s). lpn_cnt e = int (length (lpns e)) \<and> length (lpns e) \<le> 127)"

definition set_chain :: "ssdstate \<Rightarrow> int \<Rightarrow> int list \<Rightarrow> ssdstate" where
  "set_chain s ppn xs = s\<lparr>inverse_mapping_table := (inverse_mapping_table s)
     [nat ppn := (inverse_mapping_table s ! nat ppn)\<lparr>lpns := xs, lpn_cnt := int (length xs)\<rparr>]\<rparr>"

section \<open>Lemmas\<close>

subsection \<open>Search and unlinking remove the first occurrence\<close>

lemma find_node_None: "find_node lpn xs = None \<longleftrightarrow> lpn \<notin> set xs"
  by (induction xs) auto

lemma find_node_remove1:
  "find_node lpn xs = Some i \<Longrightarrow> i < length xs \<and> remove1 lpn xs = take i xs @ drop (Suc i) xs"
proof (induction xs arbitrary: i)
  case (Cons x xs)
  then show ?case by (cases i) (auto split: if_splits)
qed simp

lemma unlink_node_present:
  assumes "lpn \<in> set xs"
  shows "unlink_node (int (length xs)) (find_node lpn xs) xs = Some (remove1 lpn xs)"
proof -
  obtain i where i: "find_node lpn xs = Some i"
    using assms find_node_None [of lpn xs] by (cases "find_node lpn xs") auto
  note r = find_node_remove1 [OF i]
  have "butlast xs = take i xs @ drop (Suc i) xs" if "i = length xs - 1"
    using that r by (simp add: butlast_conv_take)
  moreover have "i = 0 \<Longrightarrow> drop (Suc i) xs = tl xs" by (simp add: drop_Suc)
  moreover have "tl xs = [] \<longleftrightarrow> length xs = 1" using r by (cases xs) auto
  ultimately show ?thesis
    using i r by (auto simp: unlink_node_def)
qed

lemma unlink_node_absent: "lpn \<notin> set xs \<Longrightarrow> xs \<noteq> [] \<Longrightarrow> unlink_node c (find_node lpn xs) xs = None"
  by (simp add: find_node_None [THEN iffD2] unlink_node_def)

subsection \<open>The chain view\<close>

lemma set_chain_frame [simp, frame]:
  "ssdparams (set_chain s ppn xs) = ssdparams s" "mapping_table (set_chain s ppn xs) = mapping_table s"
  "in_nvram (set_chain s ppn xs) = in_nvram s" "pstat (set_chain s ppn xs) = pstat s"
  "block_state_table (set_chain s ppn xs) = block_state_table s"
  "NVRAM_OOB_TABLE (set_chain s ppn xs) = NVRAM_OOB_TABLE s" "nstat (set_chain s ppn xs) = nstat s"
  "empty_block_list (set_chain s ppn xs) = empty_block_list s"
  "victim_block_list (set_chain s ppn xs) = victim_block_list s"
  "total_empty_block_nb (set_chain s ppn xs) = total_empty_block_nb s"
  "total_victim_block_nb (set_chain s ppn xs) = total_victim_block_nb s"
  "empty_block_table_index (set_chain s ppn xs) = empty_block_table_index s"
  "sb_deb (set_chain s ppn xs) = sb_deb s" "devtime (set_chain s ppn xs) = devtime s"
  "iostat (set_chain s ppn xs) = iostat s" "perf (set_chain s ppn xs) = perf s"
  "xl2p_ppn (set_chain s ppn xs) = xl2p_ppn s"
  by (simp_all add: set_chain_def)

lemma page_refs_set_chain [simp]: "page_refs (set_chain s ppn xs) = page_refs s"
  by (simp add: page_refs_def)

lemma page_ref_set_chain [simp]: "page_ref (set_chain s ppn xs) q = page_ref s q"
  by (simp add: page_ref_def)

lemma blk_inv_set_chain [simp]: "blk_inv (set_chain s ppn xs) = blk_inv s"
  by (simp add: blk_inv_def blk_shape_def)

lemma chain_put_page [simp]: "chain (put_page s ppn v st) q = chain s q"
  by (simp add: chain_def)

lemma chain_set_type [simp]: "chain (set_type s k ty) q = chain s q"
  by (simp add: chain_def)

lemma link_inv_put_page [simp]: "link_inv (put_page s ppn v st) = link_inv s"
  by (simp add: link_inv_def)

lemma link_inv_set_type [simp]: "link_inv (set_type s k ty) = link_inv s"
  by (simp add: link_inv_def)

lemma chain_set_chain:
  "link_inv s \<Longrightarrow> 0 \<le> ppn \<Longrightarrow> ppn < pages_of s \<Longrightarrow> 0 \<le> q \<Longrightarrow>
     chain (set_chain s ppn xs) q = (if q = ppn then xs else chain s q)"
  by (auto simp: chain_def set_chain_def link_inv_def nat_eq_iff nth_list_update)

lemma link_inv_entry:
  assumes "link_inv s" "0 \<le> ppn" "ppn < pages_of s"
  shows "ppn < int (length (inverse_mapping_table s))" "nat ppn < length (inverse_mapping_table s)"
    "lpn_cnt (inverse_mapping_table s ! nat ppn) = int (length (chain s ppn))" "length (chain s ppn) \<le> 127"
  using assms by (auto simp: link_inv_def chain_def)

lemma link_inv_set_chain:
  "link_inv s \<Longrightarrow> length xs \<le> 127 \<Longrightarrow> link_inv (set_chain s ppn xs)"
  by (auto simp: link_inv_def set_chain_def dest!: set_update_subset_insert [THEN subsetD])

subsection \<open>The operations on every branch\<close>

lemma INCREASE_INVERSE_MAPPING_ok:
  assumes "link_inv s" "0 \<le> ppn" "ppn < pages_of s" "length (chain s ppn) < 127"
  shows "INCREASE_INVERSE_MAPPING s ppn lpn = Some (SUCCESS, set_chain s ppn (chain s ppn @ [lpn]))"
  using assms link_inv_entry [OF assms(1-3)]
  by (auto simp: INCREASE_INVERSE_MAPPING_def set_chain_def chain_def cmem cint add.commute)

lemma DECREASE_INVERSE_MAPPING_ok:
  assumes "link_inv s" "0 \<le> ppn" "ppn < pages_of s" "lpn \<in> set (chain s ppn)"
  shows "DECREASE_INVERSE_MAPPING s ppn lpn = Some (SUCCESS, set_chain s ppn (remove1 lpn (chain s ppn)))"
proof -
  note e = link_inv_entry [OF assms(1-3)]
  have ne: "0 < length (chain s ppn)" using assms(4) by (cases "chain s ppn") auto
  then have cnt: "s8 (int (length (chain s ppn)) - 1) = int (length (remove1 lpn (chain s ppn)))"
    using assms(4) e(4) by (auto simp: length_remove1 cint of_nat_diff Suc_le_eq)
  show ?thesis
    using assms(2) e ne unlink_node_present [OF assms(4)] cnt
    by (simp add: DECREASE_INVERSE_MAPPING_def set_chain_def cmem flip: chain_def)
qed

lemma DECREASE_INVERSE_MAPPING_empty:
  assumes "link_inv s" "0 \<le> ppn" "ppn < pages_of s" "chain s ppn = []"
  shows "DECREASE_INVERSE_MAPPING s ppn lpn = Some (FAIL, s)"
  using assms link_inv_entry [OF assms(1-3)] by (simp add: DECREASE_INVERSE_MAPPING_def cmem)

lemma DECREASE_INVERSE_MAPPING_absent:
  assumes "link_inv s" "0 \<le> ppn" "ppn < pages_of s" "chain s ppn \<noteq> []" "lpn \<notin> set (chain s ppn)"
  shows "DECREASE_INVERSE_MAPPING s ppn lpn = None"
  using assms link_inv_entry [OF assms(1-3)] unlink_node_absent [OF assms(5,4)]
  by (simp add: DECREASE_INVERSE_MAPPING_def cmem flip: chain_def)

end
