(* ===== verification/PageRefs.thy ===== *)
theory PageRefs
  imports InverseMap
begin

section \<open>Page references: the inverse table and the block states together\<close>

text \<open>
  The flash translation layer always changes the chain of a page and its counter together. This
  theory has the joint invariant (a live page's counter is the length of its chain, free and
  invalid pages have an empty one) and what adding, dropping and erasing do to it. Which
  references exist is described by a function \<open>E\<close>: \<open>E ppn lpn\<close> is how often \<open>lpn\<close> occurs in
  the chain of \<open>ppn\<close>. The set \<open>X\<close> holds the pages of the superblock that the garbage collector
  is emptying: there the chains are moved out while the counters wait for the erase.
\<close>

definition ref_inv :: "int set \<Rightarrow> ssdstate \<Rightarrow> bool" where
  "ref_inv X s \<longleftrightarrow> blk_inv s \<and> link_inv s \<and>
     (\<forall>ppn. 0 \<le> ppn \<longrightarrow> ppn < pages_of s \<longrightarrow> ppn \<notin> X \<longrightarrow>
        (if 0 < page_ref s ppn then page_ref s ppn = int (length (chain s ppn)) else chain s ppn = []))"

definition refs_are :: "ssdstate \<Rightarrow> (int \<Rightarrow> int \<Rightarrow> nat) \<Rightarrow> bool" where
  "refs_are s E \<longleftrightarrow> (\<forall>ppn lpn. 0 \<le> ppn \<longrightarrow> ppn < pages_of s \<longrightarrow> count_list (chain s ppn) lpn = E ppn lpn)"

definition core_inv :: "int set \<Rightarrow> ssdstate \<Rightarrow> (int \<Rightarrow> int \<Rightarrow> nat) \<Rightarrow> bool" where
  "core_inv X s E \<longleftrightarrow> ref_inv X s \<and> refs_are s E"

definition more_ref :: "(int \<Rightarrow> int \<Rightarrow> nat) \<Rightarrow> int \<Rightarrow> int \<Rightarrow> int \<Rightarrow> int \<Rightarrow> nat" where
  "more_ref E ppn lpn = (\<lambda>p l. if p = ppn \<and> l = lpn then E p l + 1 else E p l)"

definition less_ref :: "(int \<Rightarrow> int \<Rightarrow> nat) \<Rightarrow> int \<Rightarrow> int \<Rightarrow> int \<Rightarrow> int \<Rightarrow> nat" where
  "less_ref E ppn lpn = (\<lambda>p l. if p = ppn \<and> l = lpn then E p l - 1 else E p l)"

text \<open>The two compound state changes.\<close>

definition link_page :: "ssdstate \<Rightarrow> int \<Rightarrow> int \<Rightarrow> ssdstate" where
  "link_page s ppn lpn =
     put_page (set_chain s ppn (chain s ppn @ [lpn])) ppn (page_ref s ppn + 1)
       (ref_stat VALID (page_ref s ppn) (pstat s))"

definition unlink_page :: "ssdstate \<Rightarrow> int \<Rightarrow> int \<Rightarrow> ssdstate" where
  "unlink_page s ppn lpn =
     put_page (set_chain s ppn (remove1 lpn (chain s ppn))) ppn (dropped (page_ref s ppn))
       (ref_stat INVALID (page_ref s ppn) (pstat s))"

subsection \<open>Consequences of the invariant\<close>

lemma ref_invD:
  assumes "ref_inv X s"
  shows "blk_inv s" "link_inv s" "wf_conf (ssdparams s)" "blk_shape s"
  using assms blk_invD(1,2) [of s] by (auto simp: ref_inv_def)

lemma page_ref_chain:
  assumes "ref_inv X s" "0 \<le> ppn" "ppn < pages_of s" "ppn \<notin> X"
  shows "0 < page_ref s ppn \<Longrightarrow> page_ref s ppn = int (length (chain s ppn))"
    "page_ref s ppn \<le> 0 \<Longrightarrow> chain s ppn = []"
    "chain s ppn \<noteq> [] \<longleftrightarrow> 0 < page_ref s ppn"
proof -
  have c: "if 0 < page_ref s ppn then page_ref s ppn = int (length (chain s ppn)) else chain s ppn = []"
    using assms by (auto simp: ref_inv_def)
  then show "0 < page_ref s ppn \<Longrightarrow> page_ref s ppn = int (length (chain s ppn))"
    "page_ref s ppn \<le> 0 \<Longrightarrow> chain s ppn = []" by auto
  show "chain s ppn \<noteq> [] \<longleftrightarrow> 0 < page_ref s ppn"
    using c by (cases "0 < page_ref s ppn") (auto simp del: length_greater_0_conv)
qed

lemma core_inv_mem:
  assumes "core_inv X s E" "0 \<le> ppn" "ppn < pages_of s"
  shows "lpn \<in> set (chain s ppn) \<longleftrightarrow> 0 < E ppn lpn"
proof -
  have "count_list (chain s ppn) lpn = E ppn lpn"
    using assms by (simp add: core_inv_def refs_are_def)
  then show ?thesis by (metis count_list_0_iff not_gr_zero)
qed

lemma core_inv_cong:
  assumes "core_inv X s E" "\<And>p l. 0 \<le> p \<Longrightarrow> p < pages_of s \<Longrightarrow> E p l = E' p l"
  shows "core_inv X s E'"
  using assms by (simp add: core_inv_def refs_are_def)

subsection \<open>Frames\<close>

lemma link_page_frame [simp, frame]:
  "ssdparams (link_page s ppn lpn) = ssdparams s" "mapping_table (link_page s ppn lpn) = mapping_table s"
  "in_nvram (link_page s ppn lpn) = in_nvram s" "NVRAM_OOB_TABLE (link_page s ppn lpn) = NVRAM_OOB_TABLE s"
  "nstat (link_page s ppn lpn) = nstat s" "empty_block_list (link_page s ppn lpn) = empty_block_list s"
  "victim_block_list (link_page s ppn lpn) = victim_block_list s"
  "total_empty_block_nb (link_page s ppn lpn) = total_empty_block_nb s"
  "total_victim_block_nb (link_page s ppn lpn) = total_victim_block_nb s"
  "empty_block_table_index (link_page s ppn lpn) = empty_block_table_index s"
  "sb_deb (link_page s ppn lpn) = sb_deb s" "devtime (link_page s ppn lpn) = devtime s"
  "iostat (link_page s ppn lpn) = iostat s" "perf (link_page s ppn lpn) = perf s"
  "xl2p_ppn (link_page s ppn lpn) = xl2p_ppn s"
  by (simp_all add: link_page_def)

lemma unlink_page_frame [simp, frame]:
  "ssdparams (unlink_page s ppn lpn) = ssdparams s" "mapping_table (unlink_page s ppn lpn) = mapping_table s"
  "in_nvram (unlink_page s ppn lpn) = in_nvram s" "NVRAM_OOB_TABLE (unlink_page s ppn lpn) = NVRAM_OOB_TABLE s"
  "nstat (unlink_page s ppn lpn) = nstat s" "empty_block_list (unlink_page s ppn lpn) = empty_block_list s"
  "victim_block_list (unlink_page s ppn lpn) = victim_block_list s"
  "total_empty_block_nb (unlink_page s ppn lpn) = total_empty_block_nb s"
  "total_victim_block_nb (unlink_page s ppn lpn) = total_victim_block_nb s"
  "empty_block_table_index (unlink_page s ppn lpn) = empty_block_table_index s"
  "sb_deb (unlink_page s ppn lpn) = sb_deb s" "devtime (unlink_page s ppn lpn) = devtime s"
  "iostat (unlink_page s ppn lpn) = iostat s" "perf (unlink_page s ppn lpn) = perf s"
  "xl2p_ppn (unlink_page s ppn lpn) = xl2p_ppn s"
  by (simp_all add: unlink_page_def)

text \<open>The invariant only reads the two tables, the page statistics and the configuration.\<close>

lemma core_inv_frame:
  assumes "core_inv X s E" "ssdparams s' = ssdparams s" "block_state_table s' = block_state_table s"
    "pstat s' = pstat s" "inverse_mapping_table s' = inverse_mapping_table s"
  shows "core_inv X s' E" "page_ref s' ppn = page_ref s ppn" "chain s' ppn = chain s ppn"
proof -
  have r: "page_refs s' = page_refs s" using assms by (simp add: page_refs_def)
  show p: "page_ref s' ppn = page_ref s ppn" for ppn by (simp add: page_ref_def r)
  show c: "chain s' ppn = chain s ppn" for ppn by (simp add: chain_def assms)
  show "core_inv X s' E"
    using assms(1) p c r
    by (simp add: core_inv_def ref_inv_def refs_are_def blk_inv_def blk_shape_def link_inv_def assms(2-5))
qed

subsection \<open>Adding and dropping a reference\<close>

lemma link_page_view:
  assumes "ref_inv X s" "0 \<le> ppn" "ppn < pages_of s" "0 \<le> q"
  shows "chain (link_page s ppn lpn) q = (if q = ppn then chain s ppn @ [lpn] else chain s q)"
    "page_ref (link_page s ppn lpn) q = (if q = ppn then page_ref s ppn + 1 else page_ref s q)"
  using assms ref_invD [OF assms(1)]
  by (simp_all add: link_page_def chain_set_chain page_ref_put_page blk_shape_def)

lemma unlink_page_view:
  assumes "ref_inv X s" "0 \<le> ppn" "ppn < pages_of s" "0 \<le> q"
  shows "chain (unlink_page s ppn lpn) q = (if q = ppn then remove1 lpn (chain s ppn) else chain s q)"
    "page_ref (unlink_page s ppn lpn) q = (if q = ppn then dropped (page_ref s ppn) else page_ref s q)"
  using assms ref_invD [OF assms(1)]
  by (simp_all add: unlink_page_def chain_set_chain page_ref_put_page blk_shape_def)

lemma link_page_inv:
  assumes "core_inv X s E" "0 \<le> ppn" "ppn < pages_of s" "0 \<le> page_ref s ppn" "page_ref s ppn < 127" "ppn \<notin> X"
  shows "core_inv X (link_page s ppn lpn) (more_ref E ppn lpn)"
proof -
  have R: "ref_inv X s" using assms(1) by (simp add: core_inv_def)
  note I = ref_invD [OF R] and v = link_page_view [OF R assms(2,3)] and pc = page_ref_chain [OF R assms(2,3,6)]
  have len: "int (length (chain s ppn)) = page_ref s ppn"
    using pc(1,2) assms(4) by (cases "0 < page_ref s ppn") auto
  let ?s1 = "set_chain s ppn (chain s ppn @ [lpn])"
  have "blk_inv (link_page s ppn lpn)"
    using add_ref(2) [of ?s1 ppn] I assms by (simp add: link_page_def)
  moreover have "link_inv (link_page s ppn lpn)"
    using I(2) len assms(5) by (simp add: link_page_def link_inv_set_chain)
  moreover have "refs_are (link_page s ppn lpn) (more_ref E ppn lpn)"
    using assms(1) v by (auto simp: core_inv_def refs_are_def more_ref_def count_list_append_one)
  ultimately show ?thesis
    using R v len assms(4) by (auto simp: core_inv_def ref_inv_def)
qed

lemma unlink_page_inv:
  assumes "core_inv X s E" "0 \<le> ppn" "ppn < pages_of s" "0 < E ppn lpn" "ppn \<notin> X"
  shows "core_inv X (unlink_page s ppn lpn) (less_ref E ppn lpn)"
proof -
  have R: "ref_inv X s" using assms(1) by (simp add: core_inv_def)
  note I = ref_invD [OF R] and v = unlink_page_view [OF R assms(2,3)] and pc = page_ref_chain [OF R assms(2,3,5)]
  have mem: "lpn \<in> set (chain s ppn)" using core_inv_mem [OF assms(1-3)] assms(4) by simp
  then have pos: "0 < page_ref s ppn" using pc(3) by auto
  then have len: "page_ref s ppn = int (length (chain s ppn))" using pc(1) by simp
  let ?s1 = "set_chain s ppn (remove1 lpn (chain s ppn))"
  have "blk_inv (unlink_page s ppn lpn)"
    using drop_ref(2) [of ?s1 ppn] I assms pos by (simp add: unlink_page_def)
  moreover have "link_inv (unlink_page s ppn lpn)"
    using I(2) link_inv_entry(4) [OF I(2) assms(2,3)]
    by (auto simp: unlink_page_def length_remove1 intro!: link_inv_set_chain)
  moreover have "refs_are (unlink_page s ppn lpn) (less_ref E ppn lpn)"
    using assms(1) v by (auto simp: core_inv_def refs_are_def less_ref_def count_list_remove1)
  moreover have "if 0 < dropped (page_ref s ppn)
    then dropped (page_ref s ppn) = int (length (remove1 lpn (chain s ppn))) else remove1 lpn (chain s ppn) = []"
  proof (cases "length (chain s ppn) = 1")
    case True
    then have "chain s ppn = [lpn]" using mem by (cases "chain s ppn") auto
    then show ?thesis using len by (simp add: dropped_def)
  next
    case False
    then have "1 < length (chain s ppn)" using len pos by linarith
    then show ?thesis using len mem by (simp add: dropped_def length_remove1)
  qed
  ultimately show ?thesis
    using R v by (auto simp: core_inv_def ref_inv_def)
qed

text \<open>The source's call sequences realise the two changes.\<close>

lemma INCREASE_then_VALID:
  fixes s :: ssdstate and ppn lpn :: int
  assumes "core_inv X s E" "0 \<le> ppn" "ppn < pages_of s" "0 \<le> page_ref s ppn" "page_ref s ppn < 127" "ppn \<notin> X"
  defines "s1 \<equiv> set_chain s ppn (chain s ppn @ [lpn])"
  shows "INCREASE_INVERSE_MAPPING s ppn lpn = Some (SUCCESS, s1)"
    "UPDATE_BLOCK_STATE_ENTRY s1 (CALC_FLASH s1 ppn) (CALC_BLOCK s1 ppn) (CALC_PAGE s1 ppn) VALID
       = Some (SUCCESS, link_page s ppn lpn)"
proof -
  have R: "ref_inv X s" using assms(1) by (simp add: core_inv_def)
  note I = ref_invD [OF R] and pc = page_ref_chain [OF R assms(2,3,6)]
  have "length (chain s ppn) < 127"
    using pc(1,2) assms(4,5) by (cases "0 < page_ref s ppn") auto
  then show "INCREASE_INVERSE_MAPPING s ppn lpn = Some (SUCCESS, s1)"
    using INCREASE_INVERSE_MAPPING_ok I(2) assms by simp
  show "UPDATE_BLOCK_STATE_ENTRY s1 (CALC_FLASH s1 ppn) (CALC_BLOCK s1 ppn) (CALC_PAGE s1 ppn) VALID
       = Some (SUCCESS, link_page s ppn lpn)"
    using add_ref(1) [of s1 ppn] I assms by (simp add: link_page_def s1_def)
qed

lemma DECREASE_then_INVALID:
  fixes s :: ssdstate and ppn lpn :: int
  assumes "core_inv X s E" "0 \<le> ppn" "ppn < pages_of s" "0 < E ppn lpn" "ppn \<notin> X"
  defines "s1 \<equiv> set_chain s ppn (remove1 lpn (chain s ppn))"
  shows "DECREASE_INVERSE_MAPPING s ppn lpn = Some (SUCCESS, s1)"
    "UPDATE_BLOCK_STATE_ENTRY s1 (CALC_FLASH s1 ppn) (CALC_BLOCK s1 ppn) (CALC_PAGE s1 ppn) INVALID
       = Some (SUCCESS, unlink_page s ppn lpn)"
proof -
  have R: "ref_inv X s" using assms(1) by (simp add: core_inv_def)
  note I = ref_invD [OF R] and pc = page_ref_chain [OF R assms(2,3,5)]
  have mem: "lpn \<in> set (chain s ppn)" using core_inv_mem [OF assms(1-3)] assms(4) by simp
  then have pos: "0 < page_ref s ppn" using pc(3) by auto
  show "DECREASE_INVERSE_MAPPING s ppn lpn = Some (SUCCESS, s1)"
    using DECREASE_INVERSE_MAPPING_ok I(2) assms mem by simp
  show "UPDATE_BLOCK_STATE_ENTRY s1 (CALC_FLASH s1 ppn) (CALC_BLOCK s1 ppn) (CALC_PAGE s1 ppn) INVALID
       = Some (SUCCESS, unlink_page s ppn lpn)"
    using drop_ref(1) [of s1 ppn] I assms pos by (simp add: unlink_page_def s1_def)
qed

subsection \<open>Erasing a block without references\<close>

lemma core_inv_set_type:
  assumes "core_inv X s E" "nat k < length (block_state_table s)"
  shows "core_inv X (set_type s k ty) E" "page_ref (set_type s k ty) ppn = page_ref s ppn"
proof -
  show p: "page_ref (set_type s k ty) q = page_ref s q" for q
    using assms(2) by (simp add: page_ref_def)
  show "core_inv X (set_type s k ty) E"
    using assms p by (simp add: core_inv_def ref_inv_def refs_are_def blk_inv_set_type)
qed

lemma same_but_blk_frame:
  assumes "same_but_blk s s'"
  shows "ssdparams s' = ssdparams s" "mapping_table s' = mapping_table s" "in_nvram s' = in_nvram s"
    "inverse_mapping_table s' = inverse_mapping_table s" "NVRAM_OOB_TABLE s' = NVRAM_OOB_TABLE s"
    "nstat s' = nstat s" "empty_block_list s' = empty_block_list s" "victim_block_list s' = victim_block_list s"
    "total_empty_block_nb s' = total_empty_block_nb s" "total_victim_block_nb s' = total_victim_block_nb s"
    "empty_block_table_index s' = empty_block_table_index s" "sb_deb s' = sb_deb s" "devtime s' = devtime s"
    "iostat s' = iostat s" "perf s' = perf s" "xl2p_ppn s' = xl2p_ppn s" "chain s' ppn = chain s ppn"
    "link_inv s' = link_inv s"
  using assms unfolding same_but_blk_def by (elim exE, simp add: chain_def link_inv_def)+

lemma erase_block_inv:
  assumes "core_inv X s E" "0 \<le> f" "f < flash_nb_of s" "0 \<le> b" "b < block_nb_of s"
    and "\<And>ppn l. 0 \<le> ppn \<Longrightarrow> ppn < pages_of s \<Longrightarrow> ppn div page_nb_of s = f * block_nb_of s + b \<Longrightarrow> E ppn l = 0"
  shows "\<exists>s'. UPDATE_BLOCK_STATE s f b EMPTY_BLOCK = Some (SUCCESS, s') \<and> core_inv (X - {p. p div page_nb_of s = f * block_nb_of s + b}) s' E \<and> same_but_blk s s' \<and>
    (\<forall>ppn. 0 \<le> ppn \<longrightarrow> ppn < pages_of s \<longrightarrow>
       page_ref s' ppn = (if ppn div page_nb_of s = f * block_nb_of s + b then 0 else page_ref s ppn))"
proof -
  have R: "ref_inv X s" using assms(1) by (simp add: core_inv_def)
  note I = ref_invD [OF R]
  from UPDATE_BLOCK_STATE_empty [OF I(1) assms(2-5)] obtain s' where
    u: "UPDATE_BLOCK_STATE s f b EMPTY_BLOCK = Some (SUCCESS, s')" "blk_inv s'" "same_but_blk s s'"
    and p: "\<And>ppn. 0 \<le> ppn \<Longrightarrow> ppn < pages_of s \<Longrightarrow>
       page_ref s' ppn = (if ppn div page_nb_of s = f * block_nb_of s + b then 0 else page_ref s ppn)"
    by blast
  note fr = same_but_blk_frame [OF u(3)]
  have e: "chain s ppn = []" if "0 \<le> ppn" "ppn < pages_of s" "ppn div page_nb_of s = f * block_nb_of s + b" for ppn
    using core_inv_mem [OF assms(1) that(1,2), of "hd (chain s ppn)"] assms(6) [OF that]
    by (cases "chain s ppn") auto
  have "if 0 < page_ref s' ppn then page_ref s' ppn = int (length (chain s ppn)) else chain s ppn = []"
    if "0 \<le> ppn" "ppn < pages_of s" "ppn \<notin> X - {p. p div page_nb_of s = f * block_nb_of s + b}" for ppn
    using e [OF that(1,2)] page_ref_chain(1,2) [OF R that(1,2)] that(3) by (auto simp: p [OF that(1,2)])
  then have "ref_inv (X - {p. p div page_nb_of s = f * block_nb_of s + b}) s'" using u(2) I(2) by (simp add: ref_inv_def fr)
  moreover have "refs_are s' E" using assms(1) by (simp add: core_inv_def refs_are_def fr)
  ultimately have "core_inv (X - {p. p div page_nb_of s = f * block_nb_of s + b}) s' E" by (simp add: core_inv_def)
  with u p show ?thesis by (intro exI [of _ s']) simp
qed

subsection \<open>Emptying a superblock\<close>

lemma core_inv_mono:
  assumes "core_inv X s E" "X \<subseteq> Y"
  shows "core_inv Y s E"
proof -
  have "ref_inv X s" using assms(1) by (simp add: core_inv_def)
  then have "ref_inv Y s" using assms(2) unfolding ref_inv_def by blast
  then show ?thesis using assms(1) by (simp add: core_inv_def)
qed

text \<open>Moving one reference out of a page of the superblock: only the chain changes.\<close>

lemma move_out:
  assumes "core_inv X s E" "0 \<le> ppn" "ppn < pages_of s" "0 < E ppn lpn" "ppn \<in> X"
  shows "DECREASE_INVERSE_MAPPING s ppn lpn = Some (SUCCESS, set_chain s ppn (remove1 lpn (chain s ppn)))"
    "core_inv X (set_chain s ppn (remove1 lpn (chain s ppn))) (less_ref E ppn lpn)"
proof -
  have R: "ref_inv X s" using assms(1) by (simp add: core_inv_def)
  note I = ref_invD [OF R]
  have mem: "lpn \<in> set (chain s ppn)" using core_inv_mem [OF assms(1-3)] assms(4) by simp
  then show "DECREASE_INVERSE_MAPPING s ppn lpn = Some (SUCCESS, set_chain s ppn (remove1 lpn (chain s ppn)))"
    using DECREASE_INVERSE_MAPPING_ok I(2) assms by simp
  note v = chain_set_chain [OF I(2) assms(2,3)]
  have "link_inv (set_chain s ppn (remove1 lpn (chain s ppn)))"
    using link_inv_entry(4) [OF I(2) assms(2,3)] mem by (intro link_inv_set_chain I(2)) (simp add: length_remove1)
  moreover have "chain (set_chain s ppn (remove1 lpn (chain s ppn))) q = chain s q"
    if "0 \<le> q" "q \<notin> X" for q
    using v [OF that(1)] that(2) assms(5) by auto
  ultimately have "ref_inv X (set_chain s ppn (remove1 lpn (chain s ppn)))"
    using R I(1) by (simp add: ref_inv_def)
  moreover have "refs_are (set_chain s ppn (remove1 lpn (chain s ppn))) (less_ref E ppn lpn)"
    using assms(1) v by (auto simp: core_inv_def refs_are_def less_ref_def count_list_remove1)
  ultimately show "core_inv X (set_chain s ppn (remove1 lpn (chain s ppn))) (less_ref E ppn lpn)"
    by (simp add: core_inv_def)
qed

end
