(* ===== verification/NvramOob.thy ===== *)
theory NvramOob
  imports IoTiming BlockState
begin

section \<open>NVRAM segments for the remapped references\<close>

text \<open>
  A page has room for one logical page number in its spare area; every further reference is an
  entry of an NVRAM segment that belongs to the superblock of the page
  (\<open>USE_REMAP\<close>, \<open>NVRAM_OOB_GC\<close>, \<open>UPDATE_NVRAM_OOB\<close>,
  \<open>INCREASE_INVALID_OOB_ENTRY_COUNT\<close> of \<open>ftl_inverse_mapping_manager.c\<close>). Segments hold 64
  entries; an entry whose reference is dropped becomes invalid and is reclaimed by compacting
  the segments of one superblock, or when the superblock is erased.
\<close>

subsection \<open>Operations\<close>

definition upd_nstat :: "(nvram_stat \<Rightarrow> nvram_stat) \<Rightarrow> ssdstate \<Rightarrow> ssdstate" where
  "upd_nstat f s = s\<lparr>nstat := f (nstat s)\<rparr>"

text \<open>Taking one entry of a superblock's segments, with a new segment where none is free.\<close>

definition new_segment :: "NVRAM_OOB_seg \<Rightarrow> nvram_stat \<Rightarrow> NVRAM_OOB_seg \<times> nvram_stat" where
  "new_segment seg st =
     (let a = alloc_seg seg + 1;
          st1 = (if stat_max_alloc_seg st < u32 a then st\<lparr>stat_max_alloc_seg := u32 a\<rparr> else st)
      in (seg\<lparr>alloc_seg := a, free_entry := OOB_ENTRY_PER_SEG\<rparr>,
          st1\<lparr>stat_total_alloc_seg := u64 (stat_total_alloc_seg st1 + 1),
              stat_total_seg_bytes := u64 (stat_total_seg_bytes st1 + OOB_ENTRY_PER_SEG * OOB_ENTRY_BYTES)\<rparr>))"

definition take_entry :: "NVRAM_OOB_seg \<Rightarrow> nvram_stat \<Rightarrow> NVRAM_OOB_seg \<times> nvram_stat" where
  "take_entry seg st =
     (let (seg1, st1) = (if free_entry seg = 0 then new_segment seg st else (seg, st))
      in (seg1\<lparr>free_entry := free_entry seg1 - 1\<rparr>,
          st1\<lparr>stat_total_OOB_entry := u64 (stat_total_OOB_entry st1 + 1)\<rparr>))"

definition drop_segments :: "NVRAM_OOB_seg \<Rightarrow> nvram_stat \<Rightarrow> NVRAM_OOB_seg \<times> nvram_stat" where
  "drop_segments seg st =
     (let entry_cnt = alloc_seg seg * OOB_ENTRY_PER_SEG - free_entry seg;
          seg_bytes = alloc_seg seg * OOB_ENTRY_PER_SEG * OOB_ENTRY_BYTES;
          st1 = (if u32 (alloc_seg seg) < stat_min_alloc_seg st
                 then st\<lparr>stat_min_alloc_seg := u32 (alloc_seg seg)\<rparr> else st)
      in (seg\<lparr>alloc_seg := 0, free_entry := 0, invalid_entry := 0\<rparr>,
          st1\<lparr>stat_total_alloc_seg := u64 (stat_total_alloc_seg st1 - alloc_seg seg),
              stat_total_OOB_entry := u64 (stat_total_OOB_entry st1 - entry_cnt),
              stat_total_invalid_entry := u64 (stat_total_invalid_entry st1 - invalid_entry seg),
              stat_total_seg_bytes := u64 (stat_total_seg_bytes st1 - seg_bytes)\<rparr>))"

definition UPDATE_NVRAM_OOB :: "ssdstate \<Rightarrow> int \<Rightarrow> int \<Rightarrow> (int \<times> ssdstate) option" where
  "UPDATE_NVRAM_OOB ssd phy_block_nb valid =
     (if u32 (BLOCK_NB (ssdparams ssd)) \<le> phy_block_nb then Some (FAIL, ssd)
      else do {
        OOB_seg \<leftarrow> cread (NVRAM_OOB_TABLE ssd) phy_block_nb;
        (if valid = VALID then do {
           let st = (if free_entry OOB_seg = 0 \<and> stat_total_alloc_seg (nstat ssd) = TOTAL_OOB_SEG
                     then (nstat ssd)\<lparr>stat_gc_remap_fail := u32 (stat_gc_remap_fail (nstat ssd) + 1)\<rparr>
                     else nstat ssd);
           let (seg', st') = take_entry OOB_seg st;
           t \<leftarrow> cwrite (NVRAM_OOB_TABLE ssd) phy_block_nb seg';
           Some (SUCCESS, ssd\<lparr>NVRAM_OOB_TABLE := t, nstat := st'\<rparr>)
         }
         else if valid = 0 then do {
           let (seg', st') = drop_segments OOB_seg (nstat ssd);
           t \<leftarrow> cwrite (NVRAM_OOB_TABLE ssd) phy_block_nb seg';
           Some (SUCCESS, ssd\<lparr>NVRAM_OOB_TABLE := t, nstat := st'\<rparr>)
         }
         else Some (SUCCESS, ssd))
      })"

definition INCREASE_INVALID_OOB_ENTRY_COUNT :: "ssdstate \<Rightarrow> int \<Rightarrow> (int \<times> ssdstate) option" where
  "INCREASE_INVALID_OOB_ENTRY_COUNT ssd phy_block_nb =
     (if u32 (BLOCK_NB (ssdparams ssd)) \<le> phy_block_nb then Some (FAIL, ssd)
      else do {
        OOB_seg \<leftarrow> cread (NVRAM_OOB_TABLE ssd) phy_block_nb;
        t \<leftarrow> cwrite (NVRAM_OOB_TABLE ssd) phy_block_nb
              (OOB_seg\<lparr>invalid_entry := invalid_entry OOB_seg + 1\<rparr>);
        Some (SUCCESS, ssd\<lparr>NVRAM_OOB_TABLE := t,
          nstat := (nstat ssd)\<lparr>stat_total_invalid_entry := u64 (stat_total_invalid_entry (nstat ssd) + 1)\<rparr>\<rparr>)
      })"

text \<open>The victim of an NVRAM compaction: the superblock with the most invalid entries.\<close>

definition select_oob_victim :: "ssdstate \<Rightarrow> (int \<times> int) option" where
  "select_oob_victim ssd =
     foldM (\<lambda>i (max_invalid_entry_cnt, victim_OOB_nb). do {
         seg \<leftarrow> cread (NVRAM_OOB_TABLE ssd) i;
         Some (if max_invalid_entry_cnt < invalid_entry seg then (invalid_entry seg, i)
               else (max_invalid_entry_cnt, victim_OOB_nb))
       }) (cupto (BLOCK_NB (ssdparams ssd))) (0, - 1)"

text \<open>Reading all entries of the victim and writing its valid ones back, 64 bytes at a time.\<close>

definition oob_rw_time :: "int \<Rightarrow> int \<Rightarrow> int" where
  "oob_rw_time entry_nb valid_entry_nb =
     (entry_nb * OOB_ENTRY_BYTES * NVRAM_READ_DELAY) sdiv 64
       + (valid_entry_nb * OOB_ENTRY_BYTES * NVRAM_WRITE_DELAY) sdiv 64"

definition NVRAM_OOB_GC :: "ssdstate \<Rightarrow> (int \<times> ssdstate) option" where
  "NVRAM_OOB_GC ssd =
     do {
       (max_invalid_entry_cnt, victim_OOB_nb) \<leftarrow> select_oob_victim ssd;
       (if victim_OOB_nb = - 1 then Some (FAIL, ssd)
        else do {
          seg \<leftarrow> cread (NVRAM_OOB_TABLE ssd) victim_OOB_nb;
          let entry_nb = alloc_seg seg * OOB_ENTRY_PER_SEG - free_entry seg;
          let valid_entry_nb = entry_nb - invalid_entry seg;
          (r, ssd1) \<leftarrow> UPDATE_NVRAM_OOB ssd victim_OOB_nb 0;
          seg1 \<leftarrow> cread (NVRAM_OOB_TABLE ssd1) victim_OOB_nb;
          let (seg2, st2) = foldl (\<lambda>(seg, st) i. take_entry seg st) (seg1, nstat ssd1) (cupto valid_entry_nb);
          t \<leftarrow> cwrite (NVRAM_OOB_TABLE ssd1) victim_OOB_nb seg2;
          let ssd2 = ssd1\<lparr>NVRAM_OOB_TABLE := t, nstat := st2\<rparr>;
          let NVRAM_OOB_rw_time = oob_rw_time entry_nb valid_entry_nb;
          (d, ssd3) \<leftarrow> UPDATE_NVRAM_TS ssd2 victim_OOB_nb NVRAM_OOB_rw_time;
          let print = u32 (stat_NVRAMGC_print (iostat ssd3) + 1);
          let delay = u64 (stat_NVRAMGC_delay_print (iostat ssd3) + NVRAM_OOB_rw_time);
          (if print = 0 then None
           else Some (SUCCESS, upd_iostat (\<lambda>st. st\<lparr>stat_NVRAMGC_print := print,
             stat_NVRAMGC_delay_print := delay, stat_avg_NVRAMGC_delay := delay div print\<rparr>) ssd3))
        })
     }"

text \<open>
  \<open>invalid_ratio <= INVALID_ENTRY_THRE\<close> for the double quotient of the two counters: the constant
  \<open>0.05\<close> is \<open>7205759403792794 / 2^57\<close>, and a quotient is rounded to at most that double exactly
  when it is at most \<open>14411518807585589 / 2^58\<close>, half a unit above it (a tie goes to the even
  significand). The initial ratio \<open>0.0\<close> is the pair \<open>(0, 1)\<close>.
\<close>

definition ratio_le_thre :: "int \<times> int \<Rightarrow> bool" where
  "ratio_le_thre q \<longleftrightarrow> dbl (fst q) * 2 ^ 58 \<le> 14411518807585589 * dbl (snd q)"

definition remap_failed :: "ssdstate \<Rightarrow> ssdstate" where
  "remap_failed = upd_nstat (\<lambda>st. st\<lparr>stat_use_remap_fail := u32 (stat_use_remap_fail st + 1)\<rparr>)"

text \<open>
  The loop of \<open>USE_REMAP\<close>; the first argument is how many more times the body may run
  (\<open>count <= BLOCK_NB\<close> lets it run \<open>BLOCK_NB + 1\<close> times, and each pass that does not return
  increments \<open>count\<close>).
\<close>

fun use_remap_loop :: "nat \<Rightarrow> int \<Rightarrow> int \<times> int \<Rightarrow> ssdstate \<Rightarrow> (int \<times> ssdstate) option" where
  "use_remap_loop 0 phy_block_nb invalid_ratio ssd = Some (FAIL, remap_failed ssd)"
| "use_remap_loop (Suc n) phy_block_nb invalid_ratio ssd =
     do {
       OOB_seg \<leftarrow> cread (NVRAM_OOB_TABLE ssd) phy_block_nb;
       (if 0 < free_entry OOB_seg then Some (SUCCESS, ssd)
        else if stat_total_alloc_seg (nstat ssd) < TOTAL_OOB_SEG then Some (SUCCESS, ssd)
        else
          let ratio = (if 0 < stat_total_OOB_entry (nstat ssd)
                       then (stat_total_invalid_entry (nstat ssd), stat_total_OOB_entry (nstat ssd))
                       else invalid_ratio)
          in if ratio_le_thre ratio then Some (FAIL, remap_failed ssd)
             else do {
               (r, ssd') \<leftarrow> NVRAM_OOB_GC ssd;
               (if r = FAIL then Some (FAIL, remap_failed ssd')
                else use_remap_loop n phy_block_nb ratio ssd')
             })
     }"

definition USE_REMAP :: "ssdstate \<Rightarrow> int \<Rightarrow> (int \<times> ssdstate) option" where
  "USE_REMAP ssd phy_block_nb =
     (if u32 (BLOCK_NB (ssdparams ssd)) \<le> phy_block_nb then Some (FAIL, ssd)
      else use_remap_loop (Suc (nat (BLOCK_NB (ssdparams ssd)))) phy_block_nb (0, 1) ssd)"

subsection \<open>Accounting invariant\<close>

definition entries :: "NVRAM_OOB_seg \<Rightarrow> int" where
  "entries seg = alloc_seg seg * OOB_ENTRY_PER_SEG - free_entry seg"

definition live_entries :: "NVRAM_OOB_seg \<Rightarrow> int" where
  "live_entries seg = entries seg - invalid_entry seg"

definition seg_ok :: "NVRAM_OOB_seg \<Rightarrow> bool" where
  "seg_ok seg \<longleftrightarrow> 0 \<le> alloc_seg seg \<and> 0 \<le> free_entry seg \<and> free_entry seg < OOB_ENTRY_PER_SEG \<and>
     (alloc_seg seg = 0 \<longrightarrow> free_entry seg = 0) \<and> 0 \<le> invalid_entry seg \<and> invalid_entry seg \<le> entries seg"

text \<open>The totals of \<open>struct ssdstate\<close> are the sums over the superblocks.\<close>

definition totals_ok :: "NVRAM_OOB_seg list \<Rightarrow> nvram_stat \<Rightarrow> bool" where
  "totals_ok segs st \<longleftrightarrow>
     stat_total_alloc_seg st = u64 (sum_list (map alloc_seg segs)) \<and>
     stat_total_OOB_entry st = u64 (sum_list (map entries segs)) \<and>
     stat_total_invalid_entry st = u64 (sum_list (map invalid_entry segs)) \<and>
     stat_total_seg_bytes st = u64 (OOB_ENTRY_PER_SEG * OOB_ENTRY_BYTES * sum_list (map alloc_seg segs))"

definition nv_inv :: "ssdstate \<Rightarrow> bool" where
  "nv_inv s \<longleftrightarrow> wf_conf (ssdparams s) \<and> int (length (NVRAM_OOB_TABLE s)) = BLOCK_NB (ssdparams s) \<and>
     (\<forall>seg \<in> set (NVRAM_OOB_TABLE s). seg_ok seg) \<and> totals_ok (NVRAM_OOB_TABLE s) (nstat s)"

definition live :: "ssdstate \<Rightarrow> int \<Rightarrow> int" where
  "live s b = live_entries (NVRAM_OOB_TABLE s ! nat b)"

section \<open>Lemmas\<close>

subsection \<open>Changes of the totals\<close>

definition nv_delta :: "int \<Rightarrow> int \<Rightarrow> int \<Rightarrow> nvram_stat \<Rightarrow> nvram_stat \<Rightarrow> bool" where
  "nv_delta da de di st st' \<longleftrightarrow>
     stat_total_alloc_seg st' = u64 (stat_total_alloc_seg st + da) \<and>
     stat_total_OOB_entry st' = u64 (stat_total_OOB_entry st + de) \<and>
     stat_total_invalid_entry st' = u64 (stat_total_invalid_entry st + di) \<and>
     stat_total_seg_bytes st' = u64 (stat_total_seg_bytes st + OOB_ENTRY_PER_SEG * OOB_ENTRY_BYTES * da)"

lemma nv_delta_trans:
  assumes "nv_delta a e i st st'" "nv_delta a' e' i' st' st''"
  shows "nv_delta (a + a') (e + e') (i + i') st st''"
  using assms by (simp add: nv_delta_def add.assoc distrib_left)

lemma totals_ok_range:
  assumes "totals_ok segs st"
  shows "u64 (stat_total_alloc_seg st) = stat_total_alloc_seg st"
    "u64 (stat_total_OOB_entry st) = stat_total_OOB_entry st"
    "u64 (stat_total_invalid_entry st) = stat_total_invalid_entry st"
    "u64 (stat_total_seg_bytes st) = stat_total_seg_bytes st"
  using assms by (simp_all add: totals_ok_def)

lemma totals_ok_update:
  assumes "totals_ok segs st" "i < length segs"
    "nv_delta (alloc_seg seg' - alloc_seg (segs ! i)) (entries seg' - entries (segs ! i))
       (invalid_entry seg' - invalid_entry (segs ! i)) st st'"
  shows "totals_ok (segs[i := seg']) st'"
proof -
  have "sum_list (map f (segs[i := seg'])) = sum_list (map f segs) + (f seg' - f (segs ! i))" for f :: "_ \<Rightarrow> int"
    using assms(2) by (simp add: map_update sum_list_update)
  then show ?thesis
    using assms(1,3) by (simp add: totals_ok_def nv_delta_def distrib_left)
qed

subsection \<open>One entry, one reset\<close>

lemma take_entry_ok:
  assumes "seg_ok seg" "take_entry seg st = (seg', st')"
    "u64 (stat_total_alloc_seg st) = stat_total_alloc_seg st"
    "u64 (stat_total_OOB_entry st) = stat_total_OOB_entry st"
    "u64 (stat_total_invalid_entry st) = stat_total_invalid_entry st"
    "u64 (stat_total_seg_bytes st) = stat_total_seg_bytes st"
  shows "seg_ok seg'" "entries seg' = entries seg + 1" "invalid_entry seg' = invalid_entry seg"
    "alloc_seg seg' = alloc_seg seg + (if free_entry seg = 0 then 1 else 0)"
    "nv_delta (alloc_seg seg' - alloc_seg seg) 1 0 st st'"
    "u64 (stat_total_alloc_seg st') = stat_total_alloc_seg st'"
    "u64 (stat_total_OOB_entry st') = stat_total_OOB_entry st'"
    "u64 (stat_total_invalid_entry st') = stat_total_invalid_entry st'"
    "u64 (stat_total_seg_bytes st') = stat_total_seg_bytes st'"
proof -
  show "seg_ok seg'" "entries seg' = entries seg + 1" "invalid_entry seg' = invalid_entry seg"
    "alloc_seg seg' = alloc_seg seg + (if free_entry seg = 0 then 1 else 0)"
    using assms(1,2) by (auto simp: take_entry_def new_segment_def Let_def entries_def seg_ok_def split: if_splits)
  show d: "nv_delta (alloc_seg seg' - alloc_seg seg) 1 0 st st'"
    using assms(2-) by (auto simp: take_entry_def new_segment_def Let_def nv_delta_def split: if_splits)
  show "u64 (stat_total_alloc_seg st') = stat_total_alloc_seg st'"
    "u64 (stat_total_OOB_entry st') = stat_total_OOB_entry st'"
    "u64 (stat_total_invalid_entry st') = stat_total_invalid_entry st'"
    "u64 (stat_total_seg_bytes st') = stat_total_seg_bytes st'"
    using d by (simp_all add: nv_delta_def)
qed

lemma drop_segments_ok:
  assumes "drop_segments seg st = (seg', st')"
  shows "seg_ok seg'" "alloc_seg seg' = 0" "entries seg' = 0" "invalid_entry seg' = 0"
    "nv_delta (alloc_seg seg' - alloc_seg seg) (entries seg' - entries seg) (invalid_entry seg' - invalid_entry seg) st st'"
  using assms
  by (auto simp: drop_segments_def Let_def seg_ok_def entries_def nv_delta_def algebra_simps split: if_splits)

subsection \<open>Frames\<close>

definition same_but_nv :: "ssdstate \<Rightarrow> ssdstate \<Rightarrow> bool" where
  "same_but_nv s s' \<longleftrightarrow> (\<exists>t n io dt. s' = s\<lparr>NVRAM_OOB_TABLE := t, nstat := n, iostat := io, devtime := dt\<rparr>)"

lemma same_but_nvI [simp]: "same_but_nv s (s\<lparr>NVRAM_OOB_TABLE := t, nstat := n\<rparr>)"
  unfolding same_but_nv_def
  by (intro exI [of _ t] exI [of _ n] exI [of _ "iostat s"] exI [of _ "devtime s"]) simp

lemma same_but_nv_refl [simp]: "same_but_nv s s"
  unfolding same_but_nv_def
  by (intro exI [of _ "NVRAM_OOB_TABLE s"] exI [of _ "nstat s"] exI [of _ "iostat s"] exI [of _ "devtime s"]) simp

lemma same_but_nv_trans: "same_but_nv s s' \<Longrightarrow> same_but_nv s' s'' \<Longrightarrow> same_but_nv s s''"
  unfolding same_but_nv_def by clarsimp blast

lemma same_but_time_nv: "same_but_time s s' \<Longrightarrow> same_but_nv s s'"
  unfolding same_but_nv_def same_but_time_def
  by (elim exE) (intro exI [of _ "NVRAM_OOB_TABLE s"] exI [of _ "nstat s"] exI [of _ "iostat s'"]
      exI [of _ "devtime s'"], simp)

lemma same_but_nv_frame:
  assumes "same_but_nv s s'"
  shows "ssdparams s' = ssdparams s" "mapping_table s' = mapping_table s" "in_nvram s' = in_nvram s"
    "inverse_mapping_table s' = inverse_mapping_table s" "block_state_table s' = block_state_table s"
    "pstat s' = pstat s" "empty_block_list s' = empty_block_list s" "victim_block_list s' = victim_block_list s"
    "total_empty_block_nb s' = total_empty_block_nb s" "total_victim_block_nb s' = total_victim_block_nb s"
    "empty_block_table_index s' = empty_block_table_index s" "sb_deb s' = sb_deb s"
    "perf s' = perf s" "xl2p_ppn s' = xl2p_ppn s"
  using assms unfolding same_but_nv_def by (elim exE, simp)+

subsection \<open>The operations keep the accounts\<close>

lemma nv_invD:
  assumes "nv_inv s" "0 \<le> b" "b < block_nb_of s"
  shows "wf_conf (ssdparams s)" "b < int (length (NVRAM_OOB_TABLE s))" "nat b < length (NVRAM_OOB_TABLE s)"
    "seg_ok (NVRAM_OOB_TABLE s ! nat b)" "totals_ok (NVRAM_OOB_TABLE s) (nstat s)"
    "\<not> u32 (block_nb_of s) \<le> b"
proof -
  show w: "wf_conf (ssdparams s)" and l: "b < int (length (NVRAM_OOB_TABLE s))"
    and "totals_ok (NVRAM_OOB_TABLE s) (nstat s)" using assms by (auto simp: nv_inv_def)
  show n: "nat b < length (NVRAM_OOB_TABLE s)" using l assms(2) by linarith
  show "seg_ok (NVRAM_OOB_TABLE s ! nat b)" using assms(1) nth_mem [OF n] by (auto simp: nv_inv_def)
  show "\<not> u32 (block_nb_of s) \<le> b"
    using wf_conf_bounds(2) [OF w] assms by (simp add: cint)
qed

lemma nv_inv_set:
  assumes "nv_inv s" "0 \<le> b" "b < block_nb_of s" "seg_ok seg"
    "nv_delta (alloc_seg seg - alloc_seg (NVRAM_OOB_TABLE s ! nat b)) (entries seg - entries (NVRAM_OOB_TABLE s ! nat b))
       (invalid_entry seg - invalid_entry (NVRAM_OOB_TABLE s ! nat b)) (nstat s) st"
  shows "nv_inv (s\<lparr>NVRAM_OOB_TABLE := (NVRAM_OOB_TABLE s)[nat b := seg], nstat := st\<rparr>)"
    "0 \<le> c \<Longrightarrow> live (s\<lparr>NVRAM_OOB_TABLE := (NVRAM_OOB_TABLE s)[nat b := seg], nstat := st\<rparr>) c
       = (if c = b then live_entries seg else live s c)"
proof -
  note D = nv_invD [OF assms(1-3)]
  show "nv_inv (s\<lparr>NVRAM_OOB_TABLE := (NVRAM_OOB_TABLE s)[nat b := seg], nstat := st\<rparr>)"
    using assms totals_ok_update [OF D(5,3) assms(5)]
    by (auto simp: nv_inv_def dest!: set_update_subset_insert [THEN subsetD])
  show "0 \<le> c \<Longrightarrow> live (s\<lparr>NVRAM_OOB_TABLE := (NVRAM_OOB_TABLE s)[nat b := seg], nstat := st\<rparr>) c
       = (if c = b then live_entries seg else live s c)"
    using D(3) assms(2) by (auto simp: live_def nth_list_update nat_eq_iff)
qed

lemma UPDATE_NVRAM_OOB_VALID:
  assumes "nv_inv s" "0 \<le> b" "b < block_nb_of s"
  shows "\<exists>s'. UPDATE_NVRAM_OOB s b VALID = Some (SUCCESS, s') \<and> nv_inv s' \<and> same_but_nv s s' \<and>
    devtime s' = devtime s \<and> iostat s' = iostat s \<and>
    sum_list (map alloc_seg (NVRAM_OOB_TABLE s'))
      = sum_list (map alloc_seg (NVRAM_OOB_TABLE s)) + (if free_entry (NVRAM_OOB_TABLE s ! nat b) = 0 then 1 else 0) \<and>
    (\<forall>c. 0 \<le> c \<longrightarrow> live s' c = (if c = b then live s b + 1 else live s c))"
proof -
  note D = nv_invD [OF assms]
  define seg where "seg = NVRAM_OOB_TABLE s ! nat b"
  define st where "st = (if free_entry seg = 0 \<and> stat_total_alloc_seg (nstat s) = TOTAL_OOB_SEG
    then (nstat s)\<lparr>stat_gc_remap_fail := u32 (stat_gc_remap_fail (nstat s) + 1)\<rparr> else nstat s)"
  obtain seg' st' where e: "take_entry seg st = (seg', st')" by (cases "take_entry seg st")
  have st: "stat_total_alloc_seg st = stat_total_alloc_seg (nstat s)"
    "stat_total_OOB_entry st = stat_total_OOB_entry (nstat s)"
    "stat_total_invalid_entry st = stat_total_invalid_entry (nstat s)"
    "stat_total_seg_bytes st = stat_total_seg_bytes (nstat s)" by (simp_all add: st_def)
  note r = totals_ok_range [OF D(5)]
  have so: "seg_ok seg" using D(4) by (simp add: seg_def)
  note k = take_entry_ok [OF so e, unfolded st, OF r]
  have nd: "nv_delta (alloc_seg seg' - alloc_seg seg) (entries seg' - entries seg)
      (invalid_entry seg' - invalid_entry seg) (nstat s) st'"
    using k(2,3,5) by (simp add: nv_delta_def st)
  let ?s' = "s\<lparr>NVRAM_OOB_TABLE := (NVRAM_OOB_TABLE s)[nat b := seg'], nstat := st'\<rparr>"
  have "UPDATE_NVRAM_OOB s b VALID = Some (SUCCESS, ?s')"
    using D e assms(2) by (simp add: UPDATE_NVRAM_OOB_def cmem Let_def flip: seg_def st_def)
  moreover have "sum_list (map alloc_seg (NVRAM_OOB_TABLE ?s'))
      = sum_list (map alloc_seg (NVRAM_OOB_TABLE s)) + (if free_entry seg = 0 then 1 else 0)"
    using D(3) k(4) by (simp add: map_update sum_list_update seg_def)
  moreover have "live_entries seg' = live s b + 1"
    using k(2,3) by (simp add: live_def live_entries_def seg_def)
  ultimately show ?thesis
    using nv_inv_set [OF assms k(1) nd [unfolded seg_def]] by (intro exI [of _ ?s']) (simp add: seg_def)
qed

lemma UPDATE_NVRAM_OOB_reset:
  assumes "nv_inv s" "0 \<le> b" "b < block_nb_of s"
  shows "\<exists>s'. UPDATE_NVRAM_OOB s b 0 = Some (SUCCESS, s') \<and> nv_inv s' \<and> same_but_nv s s' \<and>
    devtime s' = devtime s \<and> iostat s' = iostat s \<and>
    NVRAM_OOB_TABLE s' = (NVRAM_OOB_TABLE s)[nat b := (NVRAM_OOB_TABLE s ! nat b)
        \<lparr>alloc_seg := 0, free_entry := 0, invalid_entry := 0\<rparr>] \<and>
    (\<forall>c. 0 \<le> c \<longrightarrow> live s' c = (if c = b then 0 else live s c))"
proof -
  note D = nv_invD [OF assms]
  define seg where "seg = NVRAM_OOB_TABLE s ! nat b"
  obtain seg' st' where e: "drop_segments seg (nstat s) = (seg', st')" by (cases "drop_segments seg (nstat s)")
  note k = drop_segments_ok [OF e]
  have seg': "seg' = seg\<lparr>alloc_seg := 0, free_entry := 0, invalid_entry := 0\<rparr>"
    using e by (simp add: drop_segments_def Let_def)
  let ?s' = "s\<lparr>NVRAM_OOB_TABLE := (NVRAM_OOB_TABLE s)[nat b := seg'], nstat := st'\<rparr>"
  have "UPDATE_NVRAM_OOB s b 0 = Some (SUCCESS, ?s')"
    using D e assms(2) by (simp add: UPDATE_NVRAM_OOB_def cmem Let_def flip: seg_def)
  then show ?thesis
    using nv_inv_set [OF assms k(1) k(5) [unfolded seg_def]] seg'
    by (intro exI [of _ ?s']) (simp add: seg_def live_entries_def entries_def)
qed

lemma INCREASE_INVALID_ok:
  assumes "nv_inv s" "0 \<le> b" "b < block_nb_of s" "0 < live s b"
  shows "\<exists>s'. INCREASE_INVALID_OOB_ENTRY_COUNT s b = Some (SUCCESS, s') \<and> nv_inv s' \<and> same_but_nv s s' \<and>
    devtime s' = devtime s \<and> iostat s' = iostat s \<and>
    (\<forall>c. 0 \<le> c \<longrightarrow> live s' c = (if c = b then live s b - 1 else live s c))"
proof -
  note D = nv_invD [OF assms(1-3)]
  define seg where "seg = NVRAM_OOB_TABLE s ! nat b"
  let ?seg = "seg\<lparr>invalid_entry := invalid_entry seg + 1\<rparr>"
  let ?st = "(nstat s)\<lparr>stat_total_invalid_entry := u64 (stat_total_invalid_entry (nstat s) + 1)\<rparr>"
  have so: "seg_ok ?seg"
    using D(4) assms(4) by (simp add: seg_ok_def seg_def live_def live_entries_def entries_def)
  have nd: "nv_delta (alloc_seg ?seg - alloc_seg seg) (entries ?seg - entries seg)
      (invalid_entry ?seg - invalid_entry seg) (nstat s) ?st"
    using totals_ok_range [OF D(5)] by (simp add: nv_delta_def entries_def)
  let ?s' = "s\<lparr>NVRAM_OOB_TABLE := (NVRAM_OOB_TABLE s)[nat b := ?seg], nstat := ?st\<rparr>"
  have "INCREASE_INVALID_OOB_ENTRY_COUNT s b = Some (SUCCESS, ?s')"
    using D assms(2) by (simp add: INCREASE_INVALID_OOB_ENTRY_COUNT_def cmem flip: seg_def)
  then show ?thesis
    using nv_inv_set [OF assms(1-3) so [unfolded seg_def] nd [unfolded seg_def]]
    by (intro exI [of _ ?s']) (simp add: seg_def live_def live_entries_def entries_def)
qed

subsection \<open>Compaction\<close>

lemma select_oob_victim_ok:
  assumes "nv_inv s"
  shows "\<exists>m v. select_oob_victim s = Some (m, v) \<and>
    (\<forall>b. 0 \<le> b \<longrightarrow> b < block_nb_of s \<longrightarrow> invalid_entry (NVRAM_OOB_TABLE s ! nat b) \<le> m) \<and>
    (if v = - 1 then m = 0
     else 0 \<le> v \<and> v < block_nb_of s \<and> 0 < m \<and> m = invalid_entry (NVRAM_OOB_TABLE s ! nat v))"
proof -
  let ?f = "\<lambda>i (m, v). do { seg \<leftarrow> cread (NVRAM_OOB_TABLE s) i;
    Some (if m < invalid_entry seg then (invalid_entry seg, i) else (m, v)) }"
  let ?Q = "\<lambda>i mv. (\<forall>b. 0 \<le> b \<longrightarrow> b < i \<longrightarrow> invalid_entry (NVRAM_OOB_TABLE s ! nat b) \<le> fst mv) \<and> 0 \<le> fst mv \<and>
    (if snd mv = - 1 then fst mv = 0
     else 0 \<le> snd mv \<and> snd mv < block_nb_of s \<and> 0 < fst mv \<and> fst mv = invalid_entry (NVRAM_OOB_TABLE s ! nat (snd mv)))"
  have "\<exists>mv. foldM ?f (cupto (block_nb_of s)) (0, - 1) = Some mv \<and> ?Q (block_nb_of s) mv"
  proof (rule for_rule [where Q = ?Q])
    fix i and mv :: "int \<times> int" assume i: "0 \<le> i" "i < block_nb_of s" and Q: "?Q i mv"
    obtain m v where mv: "mv = (m, v)" by (cases mv)
    have "i < int (length (NVRAM_OOB_TABLE s))" using assms i by (simp add: nv_inv_def)
    then have "?f i mv = Some (if m < invalid_entry (NVRAM_OOB_TABLE s ! nat i)
        then (invalid_entry (NVRAM_OOB_TABLE s ! nat i), i) else (m, v))"
      using i by (simp add: mv cmem)
    moreover have "?Q (i + 1) (if m < invalid_entry (NVRAM_OOB_TABLE s ! nat i)
        then (invalid_entry (NVRAM_OOB_TABLE s ! nat i), i) else (m, v))"
      using Q i by (force simp: mv zless_add1_eq)
    ultimately show "\<exists>mv'. ?f i mv = Some mv' \<and> ?Q (i + 1) mv'" by blast
  qed (use assms in \<open>auto simp: nv_inv_def wf_conf_def\<close>)
  then show ?thesis unfolding select_oob_victim_def by force
qed

lemma take_entries_ok:
  assumes "seg_ok seg" "foldl (\<lambda>(seg, st) i. take_entry seg st) (seg, st) is = (seg', st')"
    "u64 (stat_total_alloc_seg st) = stat_total_alloc_seg st"
    "u64 (stat_total_OOB_entry st) = stat_total_OOB_entry st"
    "u64 (stat_total_invalid_entry st) = stat_total_invalid_entry st"
    "u64 (stat_total_seg_bytes st) = stat_total_seg_bytes st"
  shows "seg_ok seg' \<and> entries seg' = entries seg + int (length is) \<and> invalid_entry seg' = invalid_entry seg \<and>
    nv_delta (alloc_seg seg' - alloc_seg seg) (int (length is)) 0 st st'"
  using assms
proof (induction "is" arbitrary: seg st)
  case Nil
  then show ?case by (simp add: nv_delta_def)
next
  case (Cons i "is")
  obtain seg1 st1 where e: "take_entry seg st = (seg1, st1)" by (cases "take_entry seg st")
  note k = take_entry_ok [OF Cons.prems(1) e Cons.prems(3-6)]
  have "foldl (\<lambda>(seg, st) i. take_entry seg st) (seg1, st1) is = (seg', st')"
    using Cons.prems(2) e by simp
  note IH = Cons.IH [OF k(1) this k(6-9)]
  then show ?case using k(2,3) nv_delta_trans [OF k(5), of "alloc_seg seg' - alloc_seg seg1" "int (length is)" 0 st']
    by simp
qed

text \<open>
  The number of entries left after a compaction fits the segments: none is allocated in vain.
\<close>

lemma seg_ok_alloc:
  assumes "seg_ok seg"
  shows "alloc_seg seg = (entries seg + 63) div 64"
proof -
  have "(63 - free_entry seg) div 64 = 0"
    using assms by (simp add: seg_ok_def div_pos_pos_trivial)
  moreover have "entries seg + 63 = (63 - free_entry seg) + alloc_seg seg * 64"
    by (simp add: entries_def)
  ultimately show ?thesis by simp
qed

text \<open>Rewriting the live entries of superblock \<open>v\<close> after its segments have been dropped.\<close>

lemma compact_ok:
  assumes "nv_inv s" "0 \<le> v" "v < block_nb_of s"
  defines "seg \<equiv> NVRAM_OOB_TABLE s ! nat v"
  defines "k \<equiv> alloc_seg seg * 64 - free_entry seg - invalid_entry seg"
  shows "\<exists>s1 seg1 seg2 st2. UPDATE_NVRAM_OOB s v 0 = Some (SUCCESS, s1) \<and>
    cread (NVRAM_OOB_TABLE s1) v = Some seg1 \<and>
    foldl (\<lambda>(seg, st) i. take_entry seg st) (seg1, nstat s1) (cupto k) = (seg2, st2) \<and>
    cwrite (NVRAM_OOB_TABLE s1) v seg2 = Some ((NVRAM_OOB_TABLE s)[nat v := seg2]) \<and>
    s1\<lparr>NVRAM_OOB_TABLE := (NVRAM_OOB_TABLE s)[nat v := seg2], nstat := st2\<rparr>
      = s\<lparr>NVRAM_OOB_TABLE := (NVRAM_OOB_TABLE s)[nat v := seg2], nstat := st2\<rparr> \<and>
    nv_inv (s\<lparr>NVRAM_OOB_TABLE := (NVRAM_OOB_TABLE s)[nat v := seg2], nstat := st2\<rparr>) \<and>
    invalid_entry seg2 = 0 \<and> live_entries seg2 = live s v"
proof -
  note D = nv_invD [OF assms(1-3)]
  obtain seg0 st0 where e0: "drop_segments seg (nstat s) = (seg0, st0)" by (cases "drop_segments seg (nstat s)")
  note d = drop_segments_ok [OF e0]
  let ?s1 = "s\<lparr>NVRAM_OOB_TABLE := (NVRAM_OOB_TABLE s)[nat v := seg0], nstat := st0\<rparr>"
  have u: "UPDATE_NVRAM_OOB s v 0 = Some (SUCCESS, ?s1)"
    using D e0 assms(2) by (simp add: UPDATE_NVRAM_OOB_def cmem Let_def seg_def)
  have i1: "nv_inv ?s1" using nv_inv_set(1) [OF assms(1-3) d(1) d(5) [unfolded seg_def]] .
  have k: "0 \<le> k" "k = live s v"
    using D(4) by (simp_all add: k_def seg_ok_def seg_def entries_def live_def live_entries_def)
  obtain seg2 st2 where e: "foldl (\<lambda>(seg, st) i. take_entry seg st) (seg0, st0) (cupto k) = (seg2, st2)"
    by (cases "foldl (\<lambda>(seg, st) i. take_entry seg st) (seg0, st0) (cupto k)")
  have v1: "v < block_nb_of ?s1" using assms(3) by simp
  note D1 = nv_invD [OF i1 assms(2) v1]
  have r: "u64 (stat_total_alloc_seg st0) = stat_total_alloc_seg st0"
    "u64 (stat_total_OOB_entry st0) = stat_total_OOB_entry st0"
    "u64 (stat_total_invalid_entry st0) = stat_total_invalid_entry st0"
    "u64 (stat_total_seg_bytes st0) = stat_total_seg_bytes st0"
    using totals_ok_range [OF D1(5)] by simp_all
  note t2 = take_entries_ok [OF d(1) e r]
  have nd: "nv_delta (alloc_seg seg2 - alloc_seg (NVRAM_OOB_TABLE ?s1 ! nat v)) (entries seg2 - entries (NVRAM_OOB_TABLE ?s1 ! nat v))
      (invalid_entry seg2 - invalid_entry (NVRAM_OOB_TABLE ?s1 ! nat v)) (nstat ?s1) st2"
    using t2 D(3) d(2-4) k(1) by simp
  have "nv_inv (s\<lparr>NVRAM_OOB_TABLE := (NVRAM_OOB_TABLE s)[nat v := seg2], nstat := st2\<rparr>)"
    using nv_inv_set(1) [OF i1 assms(2) v1 _ nd] t2 by simp
  then show ?thesis
    using u e t2 D d k assms(2)
    by (intro exI [of _ ?s1] exI [of _ seg0] exI [of _ seg2] exI [of _ st2]) (simp add: cmem live_entries_def)
qed

lemma NVRAM_OOB_GC_ok:
  assumes "nv_inv s" "time_inv s" "room (Suc n) gr wr s"
  shows "\<exists>r s'. NVRAM_OOB_GC s = Some (r, s') \<and> nv_inv s' \<and> time_inv s' \<and> same_but_nv s s' \<and> room n gr wr s' \<and>
    (\<forall>c. 0 \<le> c \<longrightarrow> live s' c = live s c) \<and>
    (if r = FAIL then s' = s \<and> (\<forall>b. 0 \<le> b \<longrightarrow> b < block_nb_of s \<longrightarrow> invalid_entry (NVRAM_OOB_TABLE s ! nat b) = 0)
     else r = SUCCESS \<and>
       (\<exists>v. 0 \<le> v \<and> v < block_nb_of s \<and>
          (\<forall>b. 0 \<le> b \<longrightarrow> b < block_nb_of s \<longrightarrow>
             invalid_entry (NVRAM_OOB_TABLE s ! nat b) \<le> invalid_entry (NVRAM_OOB_TABLE s ! nat v)) \<and>
          0 < invalid_entry (NVRAM_OOB_TABLE s ! nat v) \<and> invalid_entry (NVRAM_OOB_TABLE s' ! nat v) = 0 \<and>
          (\<forall>b. 0 \<le> b \<longrightarrow> b \<noteq> v \<longrightarrow> NVRAM_OOB_TABLE s' ! nat b = NVRAM_OOB_TABLE s ! nat b)))"
proof -
  obtain m v where sel: "select_oob_victim s = Some (m, v)"
    and mx: "\<And>b. 0 \<le> b \<Longrightarrow> b < block_nb_of s \<Longrightarrow> invalid_entry (NVRAM_OOB_TABLE s ! nat b) \<le> m"
    and vm: "if v = - 1 then m = 0
     else 0 \<le> v \<and> v < block_nb_of s \<and> 0 < m \<and> m = invalid_entry (NVRAM_OOB_TABLE s ! nat v)"
    using select_oob_victim_ok [OF assms(1)] by blast
  show ?thesis
  proof (cases "v = - 1")
    case True
    have "invalid_entry (NVRAM_OOB_TABLE s ! nat b) = 0" if "0 \<le> b" "b < block_nb_of s" for b
      using mx [OF that] nv_invD(4) [OF assms(1) that] vm True by (simp add: seg_ok_def)
    then show ?thesis using assms sel True
      by (intro exI [of _ FAIL] exI [of _ s]) (simp add: NVRAM_OOB_GC_def print_room_def)
  next
    case False
    then have v: "0 \<le> v" "v < block_nb_of s" "0 < m" "m = invalid_entry (NVRAM_OOB_TABLE s ! nat v)"
      using vm by auto
    note D = nv_invD [OF assms(1) v(1,2)]
    define seg where "seg = NVRAM_OOB_TABLE s ! nat v"
    define k where "k = alloc_seg seg * 64 - free_entry seg - invalid_entry seg"
    obtain s1 seg1 seg2 st2 where c: "UPDATE_NVRAM_OOB s v 0 = Some (SUCCESS, s1)"
      "cread (NVRAM_OOB_TABLE s1) v = Some seg1"
      "foldl (\<lambda>(seg, st) i. take_entry seg st) (seg1, nstat s1) (cupto k) = (seg2, st2)"
      "cwrite (NVRAM_OOB_TABLE s1) v seg2 = Some ((NVRAM_OOB_TABLE s)[nat v := seg2])"
      "s1\<lparr>NVRAM_OOB_TABLE := (NVRAM_OOB_TABLE s)[nat v := seg2], nstat := st2\<rparr>
        = s\<lparr>NVRAM_OOB_TABLE := (NVRAM_OOB_TABLE s)[nat v := seg2], nstat := st2\<rparr>"
      "nv_inv (s\<lparr>NVRAM_OOB_TABLE := (NVRAM_OOB_TABLE s)[nat v := seg2], nstat := st2\<rparr>)"
      "invalid_entry seg2 = 0" "live_entries seg2 = live s v"
      using compact_ok [OF assms(1) v(1,2)] unfolding seg_def k_def by blast
    let ?s2 = "s\<lparr>NVRAM_OOB_TABLE := (NVRAM_OOB_TABLE s)[nat v := seg2], nstat := st2\<rparr>"
    have ti2: "time_inv ?s2" using assms(2) by (simp add: time_inv_def)
    let ?rw = "oob_rw_time (alloc_seg seg * 64 - free_entry seg) k"
    obtain d s3 where s3: "UPDATE_NVRAM_TS ?s2 v ?rw = Some (d, s3)" "time_inv s3" "same_but_time ?s2 s3"
      using UPDATE_NVRAM_TS_ok [OF ti2 v(1), of ?rw] v(2) by auto
    note fr3 = same_but_time_frame [OF s3(3)]
    have io3: "iostat s3 = iostat s"
      using s3(1) UPDATE_NVRAM_TS_eq [OF ti2 v(1), of ?rw] v(2) by (auto simp: upd_devtime_def)
    define pr where "pr = stat_NVRAMGC_print (iostat s) + 1"
    have pr: "u32 pr = pr" "pr \<noteq> 0" using assms(3) by (simp_all add: pr_def print_room_def cint)
    let ?dl = "u64 (stat_NVRAMGC_delay_print (iostat s) + ?rw)"
    let ?s4 = "upd_iostat (\<lambda>st. st\<lparr>stat_NVRAMGC_print := pr, stat_NVRAMGC_delay_print := ?dl,
      stat_avg_NVRAMGC_delay := ?dl div pr\<rparr>) s3"
    have "NVRAM_OOB_GC s = Some (SUCCESS, ?s4)"
      using sel False D v c(1-5) s3(1) pr io3
      by (simp add: NVRAM_OOB_GC_def cmem Let_def flip: seg_def k_def pr_def)
    moreover have "nv_inv ?s4"
      using c(6) fr3 by (simp add: nv_inv_def upd_iostat_def)
    moreover have "time_inv ?s4" using s3(2) by simp
    moreover have "same_but_nv s ?s4"
      by (rule same_but_nv_trans [OF same_but_nvI],
          rule same_but_nv_trans [OF same_but_time_nv [OF s3(3)]], rule same_but_time_nv) simp
    moreover have "room n gr wr ?s4"
      using assms(3) io3 by (simp add: print_room_def upd_iostat_def pr_def)
    moreover have "live ?s4 c = live s c" if "0 \<le> c" for c
      using that v(1) c(8) fr3 D(3) by (auto simp: live_def upd_iostat_def nth_list_update nat_eq_iff)
    moreover have "NVRAM_OOB_TABLE ?s4 = (NVRAM_OOB_TABLE s)[nat v := seg2]"
      using fr3 by (simp add: upd_iostat_def)
    ultimately show ?thesis
      using v mx c(7) D(3)
      by (intro exI [of _ SUCCESS] exI [of _ ?s4]) (auto simp: nth_list_update nat_eq_iff intro!: exI [of _ v])
  qed
qed

subsection \<open>Asking for room\<close>

lemma remap_failed_frame [simp]:
  "nv_inv (remap_failed s) = nv_inv s" "time_inv (remap_failed s) = time_inv s"
  "same_but_nv s (remap_failed s)" "live (remap_failed s) b = live s b" "room n gr wr (remap_failed s) = room n gr wr s"
proof -
  show "same_but_nv s (remap_failed s)"
    unfolding same_but_nv_def remap_failed_def upd_nstat_def
    by (intro exI [of _ "NVRAM_OOB_TABLE s"] exI [of _ "iostat s"] exI [of _ "devtime s"]
        exI [of _ "(nstat s)\<lparr>stat_use_remap_fail := u32 (stat_use_remap_fail (nstat s) + 1)\<rparr>"]) simp
qed (simp_all add: remap_failed_def upd_nstat_def nv_inv_def time_inv_def totals_ok_def live_def print_room_def)

definition has_room :: "ssdstate \<Rightarrow> int \<Rightarrow> bool" where
  "has_room s b \<longleftrightarrow> 0 < free_entry (NVRAM_OOB_TABLE s ! nat b) \<or> stat_total_alloc_seg (nstat s) < TOTAL_OOB_SEG"

lemma use_remap_loop_ok:
  assumes "nv_inv s" "time_inv s" "room (n + k) gr wr s" "0 \<le> b" "b < block_nb_of s"
  shows "\<exists>r s'. use_remap_loop n b q s = Some (r, s') \<and> nv_inv s' \<and> time_inv s' \<and> same_but_nv s s' \<and>
    room k gr wr s' \<and> (\<forall>c. 0 \<le> c \<longrightarrow> live s' c = live s c) \<and> (r = SUCCESS \<and> has_room s' b \<or> r = FAIL)"
  using assms
proof (induction n arbitrary: q s)
  case 0
  then show ?case by simp
next
  case (Suc n)
  note D = nv_invD [OF Suc.prems(1,4,5)]
  let ?q = "if 0 < stat_total_OOB_entry (nstat s)
    then (stat_total_invalid_entry (nstat s), stat_total_OOB_entry (nstat s)) else q"
  show ?case
  proof (cases "has_room s b \<or> ratio_le_thre ?q")
    case True
    have "room k gr wr s" by (rule room_mono [OF Suc.prems(3)]) simp
    then show ?thesis
      using True Suc.prems D by (auto simp: cmem has_room_def Let_def)
  next
    case False
    obtain r s' where g: "NVRAM_OOB_GC s = Some (r, s')" "nv_inv s'" "time_inv s'" "same_but_nv s s'"
      "room (n + k) gr wr s'" "\<And>c. 0 \<le> c \<Longrightarrow> live s' c = live s c"
      using NVRAM_OOB_GC_ok [OF Suc.prems(1-3) [unfolded add_Suc]] by blast
    have l: "use_remap_loop (Suc n) b q s =
        (if r = FAIL then Some (FAIL, remap_failed s') else use_remap_loop n b ?q s')"
      using False D Suc.prems(4) g(1) by (simp add: cmem has_room_def Let_def)
    have b': "b < block_nb_of s'" using Suc.prems(5) same_but_nv_frame(1) [OF g(4)] by simp
    show ?thesis
    proof (cases "r = FAIL")
      case True
      have "same_but_nv s (remap_failed s')" by (rule same_but_nv_trans [OF g(4)]) simp
      moreover have "room k gr wr s'" by (rule room_mono [OF g(5)]) simp
      ultimately show ?thesis using l True g by simp
    next
      case False
      from Suc.IH [OF g(2,3,5) Suc.prems(4) b', of ?q] obtain r'' s'' where
        "use_remap_loop n b ?q s' = Some (r'', s'')" "nv_inv s''" "time_inv s''" "same_but_nv s' s''"
        "room k gr wr s''" "\<forall>c. 0 \<le> c \<longrightarrow> live s'' c = live s' c" "r'' = SUCCESS \<and> has_room s'' b \<or> r'' = FAIL"
        by blast
      then show ?thesis
        using l False g(6) same_but_nv_trans [OF g(4)] by (intro exI [of _ r''] exI [of _ s'']) simp
    qed
  qed
qed

lemma USE_REMAP_ok:
  assumes "nv_inv s" "time_inv s" "room (Suc (nat (block_nb_of s)) + k) gr wr s" "0 \<le> b" "b < block_nb_of s"
  shows "\<exists>r s'. USE_REMAP s b = Some (r, s') \<and> nv_inv s' \<and> time_inv s' \<and> same_but_nv s s' \<and>
    room k gr wr s' \<and> (\<forall>c. 0 \<le> c \<longrightarrow> live s' c = live s c) \<and> (r = SUCCESS \<and> has_room s' b \<or> r = FAIL)"
  using use_remap_loop_ok [OF assms, of "(0, 1)"] nv_invD(6) [OF assms(1,4,5)]
  by (simp add: USE_REMAP_def)

text \<open>Below \<open>2 ^ 52\<close> entries the floating point test is the exact five per cent test.\<close>

lemma ratio_le_thre_exact:
  assumes "0 \<le> bad" "0 \<le> tot" "bad < 2 ^ 52" "tot < 2 ^ 52"
  shows "ratio_le_thre (bad, tot) \<longleftrightarrow> 20 * bad \<le> tot"
proof -
  have "ratio_le_thre (bad, tot) \<longleftrightarrow> bad * 2 ^ 58 \<le> 14411518807585589 * tot"
    using assms by (simp add: ratio_le_thre_def cint)
  also have "\<dots> \<longleftrightarrow> 20 * bad \<le> tot"
  proof
    assume "bad * 2 ^ 58 \<le> 14411518807585589 * tot"
    then have "20 * bad * 2 ^ 58 \<le> 288230376151711780 * tot" by linarith
    also have "\<dots> = tot * 2 ^ 58 + 36 * tot" by simp
    also have "\<dots> < tot * 2 ^ 58 + 2 ^ 58" using assms(4) by simp
    finally have "20 * bad < tot + 1" by simp
    then show "20 * bad \<le> tot" by simp
  next
    assume "20 * bad \<le> tot"
    then show "bad * 2 ^ 58 \<le> 14411518807585589 * tot" using assms(2) by simp
  qed
  finally show ?thesis .
qed


subsection \<open>The NVRAM is not overcommitted\<close>

text \<open>Segments in use, over all superblocks.\<close>

definition used_segs :: "ssdstate \<Rightarrow> int" where
  "used_segs s = sum_list (map alloc_seg (NVRAM_OOB_TABLE s))"

lemma used_segs_nonneg: "nv_inv s \<Longrightarrow> 0 \<le> used_segs s"
  unfolding used_segs_def nv_inv_def by (intro sum_list_nonneg) (auto simp: seg_ok_def)

lemma used_segs_stat:
  assumes "nv_inv s" "used_segs s \<le> TOTAL_OOB_SEG"
  shows "stat_total_alloc_seg (nstat s) = used_segs s"
  using assms used_segs_nonneg [OF assms(1)] by (simp add: nv_inv_def totals_ok_def used_segs_def cint)

lemma NVRAM_OOB_GC_shrinks:
  assumes "nv_inv s" "time_inv s" "room (Suc n) gr wr s" "NVRAM_OOB_GC s = Some (r, s')"
  shows "used_segs s' \<le> used_segs s"
proof (cases "s' = s")
  case False
  note g = NVRAM_OOB_GC_ok [OF assms(1-3)]
  have c: "nv_inv s'" "same_but_nv s s'" "\<And>c. 0 \<le> c \<Longrightarrow> live s' c = live s c" using g assms(4) by auto
  obtain v where v: "0 \<le> v" "v < block_nb_of s" "0 < invalid_entry (NVRAM_OOB_TABLE s ! nat v)"
    "invalid_entry (NVRAM_OOB_TABLE s' ! nat v) = 0"
    "\<And>b. 0 \<le> b \<Longrightarrow> b \<noteq> v \<Longrightarrow> NVRAM_OOB_TABLE s' ! nat b = NVRAM_OOB_TABLE s ! nat b"
    using g assms(4) False by (auto split: if_splits)
  have bs: "block_nb_of s' = block_nb_of s" using same_but_nv_frame(1) [OF c(2)] by simp
  have len: "length (NVRAM_OOB_TABLE s') = length (NVRAM_OOB_TABLE s)"
    using assms(1) c(1) bs by (simp add: nv_inv_def)
  have D: "seg_ok (NVRAM_OOB_TABLE s ! nat v)" "seg_ok (NVRAM_OOB_TABLE s' ! nat v)"
    using nv_invD(4) [OF assms(1) v(1,2)] nv_invD(4) [OF c(1) v(1)] v(2) bs by simp_all
  have "entries (NVRAM_OOB_TABLE s' ! nat v) \<le> entries (NVRAM_OOB_TABLE s ! nat v)"
    using c(3) [OF v(1)] v(3,4) by (simp add: live_def live_entries_def)
  then have le: "alloc_seg (NVRAM_OOB_TABLE s' ! nat v) \<le> alloc_seg (NVRAM_OOB_TABLE s ! nat v)"
    using seg_ok_alloc [OF D(1)] seg_ok_alloc [OF D(2)] by (simp add: zdiv_mono1)
  have "alloc_seg (NVRAM_OOB_TABLE s' ! i) \<le> alloc_seg (NVRAM_OOB_TABLE s ! i)" for i
  proof (cases "i = nat v")
    case False
    then have "int i \<noteq> v" using v(1) by auto
    then show ?thesis using v(5) [of "int i"] by simp
  qed (simp add: le)
  then show ?thesis using len by (simp add: used_segs_def sum_list_sum_nth sum_mono)
qed simp

lemma use_remap_loop_segs:
  assumes "nv_inv s" "time_inv s" "room (n + k) gr wr s" "use_remap_loop n b q s = Some (r, s')"
  shows "used_segs s' \<le> used_segs s"
  using assms
proof (induction n arbitrary: q s)
  case 0
  then show ?case by (auto simp: remap_failed_def upd_nstat_def used_segs_def)
next
  case (Suc n)
  have f: "used_segs (remap_failed s) = used_segs s" for s by (simp add: remap_failed_def upd_nstat_def used_segs_def)
  obtain r1 s1 where g: "NVRAM_OOB_GC s = Some (r1, s1)" "nv_inv s1" "time_inv s1" "room (n + k) gr wr s1"
    using NVRAM_OOB_GC_ok [OF Suc.prems(1-3) [unfolded add_Suc]] by blast
  have "used_segs s1 \<le> used_segs s" by (rule NVRAM_OOB_GC_shrinks [OF Suc.prems(1-3) [unfolded add_Suc] g(1)])
  moreover have "used_segs s' \<le> used_segs s1" if "use_remap_loop n b q' s1 = Some (r, s')" for q'
    by (rule Suc.IH [OF g(2-4) that])
  ultimately show ?case
    using Suc.prems(4) g(1) by (cases q) (auto simp: Let_def f split: bind_splits if_splits dest: order_trans)
qed

lemma admitted_entry_fits:
  assumes "nv_inv s" "time_inv s" "room (Suc (nat (block_nb_of s))) gr wr s" "0 \<le> b" "b < block_nb_of s"
    "used_segs s \<le> TOTAL_OOB_SEG" "USE_REMAP s b = Some (SUCCESS, s1)"
  shows "\<exists>s2. UPDATE_NVRAM_OOB s1 b VALID = Some (SUCCESS, s2) \<and> used_segs s2 \<le> TOTAL_OOB_SEG \<and> live s2 b = live s b + 1"
proof -
  have rm: "room (Suc (nat (block_nb_of s)) + 0) gr wr s" using assms(3) by simp
  from USE_REMAP_ok [OF assms(1,2) rm assms(4,5)] assms(7) have
    u: "nv_inv s1" "same_but_nv s s1" "live s1 b = live s b" "has_room s1 b" using assms(4) by auto
  have "use_remap_loop (Suc (nat (block_nb_of s))) b (0, 1) s = Some (SUCCESS, s1)"
    using assms(7) nv_invD(6) [OF assms(1,4,5)] by (simp add: USE_REMAP_def)
  from use_remap_loop_segs [OF assms(1,2) rm this] have le: "used_segs s1 \<le> TOTAL_OOB_SEG" using assms(6) by simp
  have "b < block_nb_of s1" using assms(5) same_but_nv_frame(1) [OF u(2)] by simp
  from UPDATE_NVRAM_OOB_VALID [OF u(1) assms(4) this] obtain s2 where
    s2: "UPDATE_NVRAM_OOB s1 b VALID = Some (SUCCESS, s2)"
      "used_segs s2 = used_segs s1 + (if free_entry (NVRAM_OOB_TABLE s1 ! nat b) = 0 then 1 else 0)" "live s2 b = live s1 b + 1"
    using assms(4) unfolding used_segs_def by auto
  have "used_segs s2 \<le> TOTAL_OOB_SEG"
    using u(4) le s2(2) used_segs_stat [OF u(1) le] by (auto simp: has_room_def)
  then show ?thesis using s2 u(3) by auto
qed

end
