(* ===== verification/PageMapping.thy ===== *)
theory PageMapping
  imports PageRefs NvramOob Allocator
begin

section \<open>The logical-to-physical mapping\<close>

text \<open>
  The mapping table and its maintenance (\<open>ftl_mapping_manager.c\<close>): dropping the old reference of a
  logical page, entering a new one, and sharing a physical page, which the remapping writes of
  \<open>ftl.c\<close> and \<open>SSD_REMAP\<close> of \<open>ssd.c\<close> do.
\<close>

subsection \<open>Operations\<close>

definition GET_MAPPING_INFO :: "ssdstate \<Rightarrow> int \<Rightarrow> int option" where
  "GET_MAPPING_INFO ssd lpn = cread (mapping_table ssd) lpn"

definition set_mapping :: "ssdstate \<Rightarrow> int \<Rightarrow> int \<Rightarrow> ssdstate option" where
  "set_mapping ssd lpn ppn = do { m \<leftarrow> cwrite (mapping_table ssd) lpn ppn; Some (ssd\<lparr>mapping_table := m\<rparr>) }"

definition set_in_nvram :: "ssdstate \<Rightarrow> int \<Rightarrow> int \<Rightarrow> ssdstate option" where
  "set_in_nvram ssd lpn v = do { m \<leftarrow> cwrite (in_nvram ssd) lpn v; Some (ssd\<lparr>in_nvram := m\<rparr>) }"

definition UPDATE_OLD_PAGE_MAPPING :: "ssdstate \<Rightarrow> int \<Rightarrow> (int \<times> ssdstate) option" where
  "UPDATE_OLD_PAGE_MAPPING ssd lpn =
     do {
       old_ppn \<leftarrow> GET_MAPPING_INFO ssd lpn;
       (if old_ppn = - 1 then Some (SUCCESS, ssd)
        else do {
          (r, ssd1) \<leftarrow> DECREASE_INVERSE_MAPPING ssd old_ppn lpn;
          (if r = SUCCESS then do {
             (r2, ssd2) \<leftarrow> UPDATE_BLOCK_STATE_ENTRY ssd1 (CALC_FLASH ssd1 old_ppn) (CALC_BLOCK ssd1 old_ppn)
                            (CALC_PAGE ssd1 old_ppn) INVALID;
             nv \<leftarrow> cread (in_nvram ssd2) lpn;
             (if nv = 1 then do {
                (r3, ssd3) \<leftarrow> INCREASE_INVALID_OOB_ENTRY_COUNT ssd2 (CALC_BLOCK ssd2 old_ppn);
                Some (SUCCESS, ssd3)
              }
              else Some (SUCCESS, ssd2))
           }
           else Some (SUCCESS, ssd1))
        })
     }"

definition UPDATE_NEW_PAGE_MAPPING :: "ssdstate \<Rightarrow> int \<Rightarrow> int \<Rightarrow> int \<Rightarrow> (int \<times> ssdstate) option" where
  "UPDATE_NEW_PAGE_MAPPING ssd lpn ppn ty =
     do {
       (r, ssd1) \<leftarrow> INCREASE_INVERSE_MAPPING ssd ppn lpn;
       (if r = SUCCESS then do {
          ssd2 \<leftarrow> set_mapping ssd1 lpn ppn;
          (r3, ssd3) \<leftarrow> UPDATE_BLOCK_STATE ssd2 (CALC_FLASH ssd2 ppn) (CALC_BLOCK ssd2 ppn) ty;
          (r4, ssd4) \<leftarrow> UPDATE_BLOCK_STATE_ENTRY ssd3 (CALC_FLASH ssd3 ppn) (CALC_BLOCK ssd3 ppn)
                         (CALC_PAGE ssd3 ppn) VALID;
          Some (SUCCESS, ssd4)
        }
        else Some (SUCCESS, ssd1))
     }"

text \<open>
  The two halves of a remap, which \<open>_FTL_WRITE\<close> and \<open>SSD_REMAP\<close> both write out: \<open>lpn\<close> becomes a
  further reference of \<open>ppn\<close> (the result says whether the inverse mapping accepted it), then the
  old reference of \<open>lpn\<close> is dropped and its table entries are redirected.
\<close>

definition share_page :: "ssdstate \<Rightarrow> int \<Rightarrow> int \<Rightarrow> (bool \<times> ssdstate) option" where
  "share_page ssd ppn lpn =
     do {
       (r, ssd1) \<leftarrow> INCREASE_INVERSE_MAPPING ssd ppn lpn;
       (if r = SUCCESS then do {
          (r2, ssd2) \<leftarrow> UPDATE_BLOCK_STATE_ENTRY ssd1 (CALC_FLASH ssd1 ppn) (CALC_BLOCK ssd1 ppn)
                         (CALC_PAGE ssd1 ppn) VALID;
          (r3, ssd3) \<leftarrow> UPDATE_NVRAM_OOB ssd2 (CALC_BLOCK ssd2 ppn) VALID;
          Some (True, ssd3)
        }
        else Some (False, ssd1))
     }"

definition redirect :: "ssdstate \<Rightarrow> int \<Rightarrow> int \<Rightarrow> ssdstate option" where
  "redirect ssd lpn ppn =
     do {
       (r, ssd1) \<leftarrow> UPDATE_OLD_PAGE_MAPPING ssd lpn;
       ssd2 \<leftarrow> set_mapping ssd1 lpn ppn;
       set_in_nvram ssd2 lpn 1
     }"

definition unmap_page :: "ssdstate \<Rightarrow> int \<Rightarrow> ssdstate option" where
  "unmap_page ssd lpn =
     do {
       (r, ssd1) \<leftarrow> UPDATE_OLD_PAGE_MAPPING ssd lpn;
       set_mapping ssd1 lpn (- 1)
     }"

subsection \<open>The consistency invariant\<close>

text \<open>
  The maps \<open>m\<close> (logical page to physical page or \<open>-1\<close>) and \<open>v\<close> (the NVRAM flag) say which references
  there should be; between operations they are the tables of the device, inside an operation they
  run ahead of them or behind. \<open>V\<close> are the superblocks whose NVRAM accounts are suspended while
  they are collected.
\<close>

definition l2p :: "ssdstate \<Rightarrow> int \<Rightarrow> int" where
  "l2p s lpn = mapping_table s ! nat lpn"

definition nvm :: "ssdstate \<Rightarrow> int \<Rightarrow> int" where
  "nvm s lpn = in_nvram s ! nat lpn"

definition refs_of :: "int \<Rightarrow> (int \<Rightarrow> int) \<Rightarrow> int \<Rightarrow> int \<Rightarrow> nat" where
  "refs_of n m ppn lpn = (if 0 \<le> lpn \<and> lpn < n \<and> m lpn = ppn then 1 else 0)"

definition nv_set :: "ssdstate \<Rightarrow> (int \<Rightarrow> int) \<Rightarrow> (int \<Rightarrow> int) \<Rightarrow> int \<Rightarrow> int set" where
  "nv_set s m v b = {l. 0 \<le> l \<and> l < pages_of s \<and> v l = 1 \<and> m l \<noteq> - 1 \<and> CALC_BLOCK s (m l) = b}"

definition map_shape :: "ssdstate \<Rightarrow> bool" where
  "map_shape s \<longleftrightarrow> int (length (mapping_table s)) = pages_of s \<and> int (length (in_nvram s)) = pages_of s"

definition in_dev :: "ssdstate \<Rightarrow> (int \<Rightarrow> int) \<Rightarrow> bool" where
  "in_dev s m \<longleftrightarrow> (\<forall>l. 0 \<le> l \<longrightarrow> l < pages_of s \<longrightarrow> m l = - 1 \<or> 0 \<le> m l \<and> m l < pages_of s)"

definition nv_acc :: "int set \<Rightarrow> ssdstate \<Rightarrow> (int \<Rightarrow> int) \<Rightarrow> (int \<Rightarrow> int) \<Rightarrow> bool" where
  "nv_acc V s m v \<longleftrightarrow> (\<forall>b. 0 \<le> b \<longrightarrow> b < block_nb_of s \<longrightarrow> b \<notin> V \<longrightarrow> live s b = int (card (nv_set s m v b)))"

definition acc :: "int set \<Rightarrow> int set \<Rightarrow> ssdstate \<Rightarrow> (int \<Rightarrow> int) \<Rightarrow> (int \<Rightarrow> int) \<Rightarrow> bool" where
  "acc X V s m v \<longleftrightarrow> core_inv X s (refs_of (pages_of s) m) \<and> nv_inv s \<and> map_shape s \<and> in_dev s m \<and> nv_acc V s m v"

definition map_inv :: "ssdstate \<Rightarrow> bool" where
  "map_inv s \<longleftrightarrow> acc {} {} s (l2p s) (nvm s)"

section \<open>Lemmas\<close>

subsection \<open>Frames\<close>

text \<open>The allocator's part of the state (and the request list) is untouched.\<close>

definition same_alloc :: "ssdstate \<Rightarrow> ssdstate \<Rightarrow> bool" where
  "same_alloc s s' \<longleftrightarrow> ssdparams s' = ssdparams s \<and> empty_block_list s' = empty_block_list s \<and>
     victim_block_list s' = victim_block_list s \<and> total_empty_block_nb s' = total_empty_block_nb s \<and>
     total_victim_block_nb s' = total_victim_block_nb s \<and>
     empty_block_table_index s' = empty_block_table_index s \<and> sb_deb s' = sb_deb s \<and>
     xl2p_ppn s' = xl2p_ppn s \<and> perf s' = perf s"

lemma same_alloc_refl [simp]: "same_alloc s s"
  by (simp add: same_alloc_def)

lemma same_alloc_trans: "same_alloc s s' \<Longrightarrow> same_alloc s' s'' \<Longrightarrow> same_alloc s s''"
  by (simp add: same_alloc_def)

lemma same_alloc_params: "same_alloc s s' \<Longrightarrow> ssdparams s' = ssdparams s"
  by (simp add: same_alloc_def)

lemma alloc_rel_same: "same_alloc s s' \<Longrightarrow> alloc_rel s A \<Longrightarrow> alloc_rel s' A"
  by (simp add: same_alloc_def alloc_rel_def)

lemma same_alloc_of:
  "same_but_blk s s' \<Longrightarrow> same_alloc s s'" "same_but_nv s s' \<Longrightarrow> same_alloc s s'"
  "same_but_time s s' \<Longrightarrow> same_alloc s s'"
  by (simp_all add: same_alloc_def same_but_blk_frame same_but_nv_frame same_but_time_frame)

text \<open>The table part of the invariant does not see time, counters or the allocator.\<close>

definition same_tables :: "ssdstate \<Rightarrow> ssdstate \<Rightarrow> bool" where
  "same_tables s s' \<longleftrightarrow> ssdparams s' = ssdparams s \<and> mapping_table s' = mapping_table s \<and>
     in_nvram s' = in_nvram s \<and> inverse_mapping_table s' = inverse_mapping_table s \<and>
     block_state_table s' = block_state_table s \<and> pstat s' = pstat s \<and>
     NVRAM_OOB_TABLE s' = NVRAM_OOB_TABLE s \<and> nstat s' = nstat s"

lemma same_tables_refl [simp]: "same_tables s s"
  by (simp add: same_tables_def)

lemma same_tables_trans: "same_tables s s' \<Longrightarrow> same_tables s' s'' \<Longrightarrow> same_tables s s''"
  by (simp add: same_tables_def)

lemma same_tables_of:
  "same_but_time s s' \<Longrightarrow> same_tables s s'" "same_but_alloc s s' \<Longrightarrow> same_tables s s'"
  by (simp_all add: same_tables_def same_but_time_frame same_but_alloc_frame)

lemma acc_same:
  assumes "same_tables s s'"
  shows "acc X V s m v \<Longrightarrow> acc X V s' m v" "page_ref s' ppn = page_ref s ppn" "chain s' ppn = chain s ppn"
    "l2p s' l = l2p s l" "nvm s' l = nvm s l" "CALC_BLOCK s' ppn = CALC_BLOCK s ppn" "live s' b = live s b"
proof -
  have [simp]: "ssdparams s' = ssdparams s" "mapping_table s' = mapping_table s" "in_nvram s' = in_nvram s"
    "inverse_mapping_table s' = inverse_mapping_table s" "block_state_table s' = block_state_table s"
    "pstat s' = pstat s" "NVRAM_OOB_TABLE s' = NVRAM_OOB_TABLE s" "nstat s' = nstat s"
    using assms by (simp_all add: same_tables_def)
  show c: "CALC_BLOCK s' p = CALC_BLOCK s p" for p by (simp add: CALC_BLOCK_def)
  show l: "live s' b = live s b" for b by (simp add: live_def)
  show "page_ref s' ppn = page_ref s ppn" by (simp add: page_ref_def page_refs_def)
  show "chain s' ppn = chain s ppn" by (simp add: chain_def)
  show "l2p s' l = l2p s l" "nvm s' l = nvm s l" by (simp_all add: l2p_def nvm_def)
  assume a: "acc X V s m v"
  then have "core_inv X s' (refs_of (pages_of s) m)"
    using core_inv_frame(1) [of X s "refs_of (pages_of s) m" s'] by (simp add: acc_def)
  then show "acc X V s' m v"
    using a by (simp add: acc_def nv_inv_def map_shape_def in_dev_def nv_acc_def nv_set_def c l)
qed

lemma CALC_BLOCK_params: "ssdparams s' = ssdparams s \<Longrightarrow> CALC_BLOCK s' ppn = CALC_BLOCK s ppn"
  by (simp add: CALC_BLOCK_def)

subsection \<open>Counting references\<close>

lemma less_ref_refs_of: "0 \<le> p \<Longrightarrow> less_ref (refs_of n m) (m l) l p q = refs_of n (m(l := - 1)) p q"
  by (auto simp: less_ref_def refs_of_def)

lemma more_refs_of:
  "0 \<le> l \<Longrightarrow> l < n \<Longrightarrow> m l = - 1 \<Longrightarrow> 0 \<le> p \<Longrightarrow> more_ref (refs_of n m) ppn l p q = refs_of n (m(l := ppn)) p q"
  by (auto simp: more_ref_def refs_of_def)

lemma less_more_refs_of:
  "0 \<le> l \<Longrightarrow> l < n \<Longrightarrow> 0 \<le> p \<Longrightarrow> less_ref (more_ref (refs_of n m) ppn l) (m l) l p q = refs_of n (m(l := ppn)) p q"
  by (auto simp: more_ref_def less_ref_def refs_of_def)

lemma finite_nv_set [simp]: "finite (nv_set s m v b)"
  by (rule finite_subset [of _ "{0..<pages_of s}"]) (auto simp: nv_set_def)

text \<open>Changing one logical page changes the count of at most two superblocks by one each.\<close>

lemma card_nv_set_upd:
  assumes "0 \<le> l" "l < pages_of s"
  shows "int (card (nv_set s (m(l := p)) (v(l := x)) b)) = int (card (nv_set s m v b))
     - of_bool (v l = 1 \<and> m l \<noteq> - 1 \<and> CALC_BLOCK s (m l) = b) + of_bool (x = 1 \<and> p \<noteq> - 1 \<and> CALC_BLOCK s p = b)"
proof -
  have split: "int (card S) = int (card (S - {l})) + of_bool (l \<in> S)" if "finite S" for S
    using card_Suc_Diff1 [OF that, of l] by (cases "l \<in> S") (simp_all add: card_Diff_singleton_if)
  have "nv_set s (m(l := p)) (v(l := x)) b - {l} = nv_set s m v b - {l}"
    by (auto simp: nv_set_def)
  moreover have "l \<in> nv_set s m v b \<longleftrightarrow> v l = 1 \<and> m l \<noteq> - 1 \<and> CALC_BLOCK s (m l) = b"
    "l \<in> nv_set s (m(l := p)) (v(l := x)) b \<longleftrightarrow> x = 1 \<and> p \<noteq> - 1 \<and> CALC_BLOCK s p = b"
    using assms by (simp_all add: nv_set_def)
  ultimately show ?thesis
    using split [of "nv_set s m v b"] split [of "nv_set s (m(l := p)) (v(l := x)) b"] by simp
qed

lemma nv_set_params: "ssdparams s' = ssdparams s \<Longrightarrow> nv_set s' m v b = nv_set s m v b"
  by (simp add: nv_set_def CALC_BLOCK_def)

lemma card_nv_set_pos:
  "0 \<le> l \<Longrightarrow> l < pages_of s \<Longrightarrow> v l = 1 \<Longrightarrow> m l \<noteq> - 1 \<Longrightarrow> 0 < int (card (nv_set s m v (CALC_BLOCK s (m l))))"
proof -
  assume "0 \<le> l" "l < pages_of s" "v l = 1" "m l \<noteq> - 1"
  then have "l \<in> nv_set s m v (CALC_BLOCK s (m l))" by (simp add: nv_set_def)
  then show ?thesis by (auto simp: card_gt_0_iff)
qed

subsection \<open>The operations\<close>

lemma set_mapping_ok:
  assumes "map_shape s" "0 \<le> l" "l < pages_of s"
  shows "set_mapping s l p = Some (s\<lparr>mapping_table := (mapping_table s)[nat l := p]\<rparr>)"
    "set_in_nvram s l p = Some (s\<lparr>in_nvram := (in_nvram s)[nat l := p]\<rparr>)"
    "GET_MAPPING_INFO s l = Some (l2p s l)" "cread (in_nvram s) l = Some (nvm s l)"
  using assms
  by (simp_all add: set_mapping_def set_in_nvram_def GET_MAPPING_INFO_def map_shape_def cmem l2p_def nvm_def)

lemma l2p_set:
  assumes "map_shape s" "0 \<le> l" "l < pages_of s" "0 \<le> q"
  shows "l2p (s\<lparr>mapping_table := (mapping_table s)[nat l := p]\<rparr>) q = (if q = l then p else l2p s q)"
    "nvm (s\<lparr>in_nvram := (in_nvram s)[nat l := p]\<rparr>) q = (if q = l then p else nvm s q)"
  using assms by (auto simp: map_shape_def l2p_def nvm_def nth_list_update nat_eq_iff)

text \<open>The operations of this theory leave time, counters and the allocator alone.\<close>

definition map_frame :: "ssdstate \<Rightarrow> ssdstate \<Rightarrow> bool" where
  "map_frame s s' \<longleftrightarrow> same_alloc s s' \<and> devtime s' = devtime s \<and> iostat s' = iostat s"

lemma map_frame_refl [simp]: "map_frame s s"
  by (simp add: map_frame_def)

lemma map_frame_trans: "map_frame s s' \<Longrightarrow> map_frame s' s'' \<Longrightarrow> map_frame s s''"
  by (auto simp: map_frame_def intro: same_alloc_trans)

lemma map_frame_upd [simp]:
  "map_frame s (link_page s ppn l)" "map_frame s (unlink_page s ppn l)" "map_frame s (set_chain s ppn xs)"
  "map_frame s (set_type s k ty)" "map_frame s (s\<lparr>mapping_table := mt\<rparr>)" "map_frame s (s\<lparr>in_nvram := nv\<rparr>)"
  by (simp_all add: map_frame_def same_alloc_def)

lemma map_frame_nv:
  "same_but_nv s s' \<Longrightarrow> devtime s' = devtime s \<Longrightarrow> iostat s' = iostat s \<Longrightarrow> map_frame s s'"
  by (simp add: map_frame_def same_alloc_of)

text \<open>Dropping the reference that the mapping table has for \<open>l\<close>.\<close>

lemma drop_old:
  assumes "core_inv X s E" "nv_inv s" "map_shape s" "0 \<le> l" "l < pages_of s" "0 \<le> l2p s l" "l2p s l < pages_of s"
    "0 < E (l2p s l) l" "l2p s l \<notin> X" "nvm s l = 1 \<Longrightarrow> 0 < live s (CALC_BLOCK s (l2p s l))"
  shows "\<exists>s'. UPDATE_OLD_PAGE_MAPPING s l = Some (SUCCESS, s') \<and> core_inv X s' (less_ref E (l2p s l) l) \<and>
    nv_inv s' \<and> map_frame s s' \<and> mapping_table s' = mapping_table s \<and> in_nvram s' = in_nvram s \<and>
    (\<forall>b. 0 \<le> b \<longrightarrow> live s' b = live s b - of_bool (nvm s l = 1 \<and> CALC_BLOCK s (l2p s l) = b)) \<and>
    (\<forall>q. 0 \<le> q \<longrightarrow> page_ref s' q = (if q = l2p s l then dropped (page_ref s q) else page_ref s q))"
proof -
  let ?p = "l2p s l"
  have R: "ref_inv X s" using assms(1) by (simp add: core_inv_def)
  note dec = DECREASE_then_INVALID [OF assms(1,6-9)]
  let ?s1 = "set_chain s ?p (remove1 l (chain s ?p))" and ?s2 = "unlink_page s ?p l"
  have c2: "core_inv X ?s2 (less_ref E ?p l)" by (rule unlink_page_inv [OF assms(1,6-9)])
  have n2: "nv_inv ?s2" "live ?s2 b = live s b" for b
    using assms(2) by (simp_all add: nv_inv_def live_def)
  have blk: "CALC_BLOCK ?s2 ?p = CALC_BLOCK s ?p" by (simp add: CALC_BLOCK_def)
  note br = calc_ranges(3,4) [OF ref_invD(3) [OF R] assms(6,7)]
  have ne: "?p \<noteq> - 1" using assms(6) by simp
  have pr: "page_ref ?s2 q = (if q = ?p then dropped (page_ref s q) else page_ref s q)" if "0 \<le> q" for q
    using unlink_page_view(2) [OF R assms(6,7) that] by simp
  have nv: "cread (in_nvram ?s2) l = Some (nvm s l)"
    using set_mapping_ok(4) [OF assms(3-5)] by simp
  have step: "UPDATE_OLD_PAGE_MAPPING s l = (if nvm s l = 1
      then do { (r3, s3) \<leftarrow> INCREASE_INVALID_OOB_ENTRY_COUNT ?s2 (CALC_BLOCK s ?p); Some (SUCCESS, s3) }
      else Some (SUCCESS, ?s2))"
    using set_mapping_ok(3) [OF assms(3-5)] dec ne nv by (simp add: UPDATE_OLD_PAGE_MAPPING_def blk)
  show ?thesis
  proof (cases "nvm s l = 1")
    case False
    then show ?thesis using step c2 n2 pr by (intro exI [of _ ?s2]) simp
  next
    case True
    have "CALC_BLOCK s ?p < block_nb_of ?s2" using br(2) by simp
    with INCREASE_INVALID_ok [OF n2(1) br(1)] assms(10) [OF True] n2(2) obtain s3 where
      s3: "INCREASE_INVALID_OOB_ENTRY_COUNT ?s2 (CALC_BLOCK s ?p) = Some (SUCCESS, s3)" "nv_inv s3" "same_but_nv ?s2 s3"
        "devtime s3 = devtime ?s2" "iostat s3 = iostat ?s2"
        "\<forall>c. 0 \<le> c \<longrightarrow> live s3 c = (if c = CALC_BLOCK s ?p then live ?s2 (CALC_BLOCK s ?p) - 1 else live ?s2 c)"
      by auto
    note fr = same_but_nv_frame [OF s3(3)]
    note cf = core_inv_frame [OF c2 fr(1,5,6,4)]
    have "map_frame s s3" by (rule map_frame_trans [OF _ map_frame_nv [OF s3(3-5)]]) simp
    then show ?thesis
      using step True s3 cf pr fr n2(2) by (intro exI [of _ s3]) auto
  qed
qed

lemma accD:
  assumes "acc X V s m v"
  shows "core_inv X s (refs_of (pages_of s) m)" "nv_inv s" "map_shape s" "in_dev s m" "nv_acc V s m v"
    "ref_inv X s" "wf_conf (ssdparams s)" "blk_inv s" "link_inv s" "blk_shape s"
proof -
  show *: "core_inv X s (refs_of (pages_of s) m)" "nv_inv s" "map_shape s" "in_dev s m" "nv_acc V s m v"
    using assms by (simp_all add: acc_def)
  then show r: "ref_inv X s" by (simp add: core_inv_def)
  show "wf_conf (ssdparams s)" "blk_inv s" "link_inv s" "blk_shape s" using ref_invD [OF r] by simp_all
qed

lemma acc_ext:
  assumes "acc X V s m v" "\<And>q. 0 \<le> q \<Longrightarrow> q < pages_of s \<Longrightarrow> m' q = m q \<and> v' q = v q"
  shows "acc X V s m' v'"
proof -
  have "refs_of (pages_of s) m' = refs_of (pages_of s) m"
    by (intro ext) (use assms(2) in \<open>auto simp: refs_of_def\<close>)
  moreover have "nv_set s m' v' b = nv_set s m v b" for b
    using assms(2) by (auto simp: nv_set_def)
  moreover have "in_dev s m'" using accD(4) [OF assms(1)] assms(2) by (simp add: in_dev_def)
  ultimately show ?thesis using assms(1) by (simp add: acc_def nv_acc_def)
qed

lemma map_inv_live:
  assumes "map_inv s" "0 \<le> l" "l < pages_of s" "l2p s l \<noteq> - 1" "nvm s l = 1"
  shows "0 < live s (CALC_BLOCK s (l2p s l))"
proof -
  note A = accD [OF assms(1) [unfolded map_inv_def]]
  have "0 \<le> l2p s l" "l2p s l < pages_of s" using A(4) assms(2-4) by (auto simp: in_dev_def)
  then have "live s (CALC_BLOCK s (l2p s l)) = int (card (nv_set s (l2p s) (nvm s) (CALC_BLOCK s (l2p s l))))"
    using A(5) calc_ranges(3,4) [OF A(7)] by (simp add: nv_acc_def)
  then show ?thesis using card_nv_set_pos [OF assms(2,3), of "nvm s" "l2p s"] assms(4,5) by simp
qed

text \<open>\<open>UPDATE_OLD_PAGE_MAPPING\<close> takes \<open>l\<close> out of the references; its table entry is stale until it is rewritten.\<close>

lemma update_old_acc:
  assumes "map_inv s" "0 \<le> l" "l < pages_of s"
  shows "\<exists>s'. UPDATE_OLD_PAGE_MAPPING s l = Some (SUCCESS, s') \<and> acc {} {} s' ((l2p s)(l := - 1)) (nvm s) \<and>
    map_frame s s' \<and> mapping_table s' = mapping_table s \<and> in_nvram s' = in_nvram s \<and>
    (\<forall>q. 0 \<le> q \<longrightarrow> page_ref s' q = (if q = l2p s l then dropped (page_ref s q) else page_ref s q))"
proof -
  note A = accD [OF assms(1) [unfolded map_inv_def]]
  have e: "(l2p s)(l := - 1) = l2p s" if "l2p s l = - 1" using that by (simp add: fun_upd_idem)
  show ?thesis
  proof (cases "l2p s l = - 1")
    case True
    then show ?thesis
      using set_mapping_ok(3) [OF A(3) assms(2,3)] assms(1) e
      by (intro exI [of _ s]) (simp add: UPDATE_OLD_PAGE_MAPPING_def map_inv_def)
  next
    case False
    then have p: "0 \<le> l2p s l" "l2p s l < pages_of s" using A(4) assms(2,3) by (auto simp: in_dev_def)
    have E: "0 < refs_of (pages_of s) (l2p s) (l2p s l) l" using assms(2,3) by (simp add: refs_of_def)
    have lv: "nvm s l = 1 \<Longrightarrow> 0 < live s (CALC_BLOCK s (l2p s l))"
      using map_inv_live [OF assms] False by simp
    from drop_old [OF A(1-3) assms(2,3) p E _ lv] obtain s' where
      u: "UPDATE_OLD_PAGE_MAPPING s l = Some (SUCCESS, s')"
        "core_inv {} s' (less_ref (refs_of (pages_of s) (l2p s)) (l2p s l) l)" "nv_inv s'" "map_frame s s'"
        "mapping_table s' = mapping_table s" "in_nvram s' = in_nvram s"
        "\<forall>b. 0 \<le> b \<longrightarrow> live s' b = live s b - of_bool (nvm s l = 1 \<and> CALC_BLOCK s (l2p s l) = b)"
        "\<forall>q. 0 \<le> q \<longrightarrow> page_ref s' q = (if q = l2p s l then dropped (page_ref s q) else page_ref s q)"
      by auto
    have pm: "ssdparams s' = ssdparams s" using u(4) by (simp add: map_frame_def same_alloc_def)
    have "core_inv {} s' (refs_of (pages_of s') ((l2p s)(l := - 1)))"
      by (rule core_inv_cong [OF u(2)]) (simp add: less_ref_refs_of pm)
    moreover have "map_shape s'" "in_dev s' ((l2p s)(l := - 1))"
      using A(3,4) by (simp_all add: map_shape_def in_dev_def pm u(5,6))
    moreover have "nv_acc {} s' ((l2p s)(l := - 1)) (nvm s)"
      unfolding nv_acc_def
    proof (intro allI impI)
      fix b assume b: "0 \<le> b" "b < block_nb_of s'"
      have "int (card (nv_set s ((l2p s)(l := - 1)) (nvm s) b))
          = int (card (nv_set s (l2p s) (nvm s) b)) - of_bool (nvm s l = 1 \<and> CALC_BLOCK s (l2p s l) = b)"
        using card_nv_set_upd [OF assms(2,3), of "l2p s" "- 1" "nvm s" "nvm s l" b] False by simp
      then show "live s' b = int (card (nv_set s' ((l2p s)(l := - 1)) (nvm s) b))"
        using u(7) A(5) b by (simp add: nv_acc_def pm nv_set_params [OF pm])
    qed
    ultimately show ?thesis using u by (intro exI [of _ s']) (simp add: acc_def)
  qed
qed

text \<open>\<open>UPDATE_NEW_PAGE_MAPPING\<close> for a logical page without references.\<close>

lemma set_type_chain:
  "set_type ((set_chain s p xs)\<lparr>mapping_table := mt\<rparr>) k ty = set_chain (set_type (s\<lparr>mapping_table := mt\<rparr>) k ty) p xs"
  by (simp add: set_type_def set_chain_def)

lemma update_new_acc:
  assumes "acc X V s m v" "0 \<le> l" "l < pages_of s" "m l = - 1" "0 \<le> ppn" "ppn < pages_of s" "ppn \<notin> X"
    "0 \<le> page_ref s ppn" "page_ref s ppn < 127" "ty \<noteq> EMPTY_BLOCK"
  shows "\<exists>s'. UPDATE_NEW_PAGE_MAPPING s l ppn ty = Some (SUCCESS, s') \<and> acc X V s' (m(l := ppn)) (v(l := 0)) \<and>
    map_frame s s' \<and> mapping_table s' = (mapping_table s)[nat l := ppn] \<and> in_nvram s' = in_nvram s \<and>
    (\<forall>q. 0 \<le> q \<longrightarrow> page_ref s' q = (if q = ppn then page_ref s ppn + 1 else page_ref s q)) \<and>
    (\<forall>q. 0 \<le> q \<longrightarrow> chain s' q = (if q = ppn then chain s ppn @ [l] else chain s q)) \<and>
    (\<forall>b. live s' b = live s b)"
proof -
  note A = accD [OF assms(1)] and r = calc_ranges [OF accD(7) [OF assms(1)] assms(5,6)]
  let ?mt = "(mapping_table s)[nat l := ppn]" and ?k = "CALC_FLASH s ppn * block_nb_of s + CALC_BLOCK s ppn"
  let ?s1 = "set_chain s ppn (chain s ppn @ [l])" and ?s0 = "set_type (s\<lparr>mapping_table := ?mt\<rparr>) ?k ty"
  let ?s2 = "?s1\<lparr>mapping_table := ?mt\<rparr>" and ?s' = "link_page ?s0 ppn l"
  note ix = block_index_range [OF A(10,7) r(1-4)]
  have cm: "core_inv X (s\<lparr>mapping_table := ?mt\<rparr>) (refs_of (pages_of s) m)" "page_ref (s\<lparr>mapping_table := ?mt\<rparr>) q = page_ref s q"
    "chain (s\<lparr>mapping_table := ?mt\<rparr>) q = chain s q" for q
    using core_inv_frame [OF A(1), of "s\<lparr>mapping_table := ?mt\<rparr>"] by simp_all
  have kb: "nat ?k < length (block_state_table (s\<lparr>mapping_table := ?mt\<rparr>))" using ix by simp
  note c0 = core_inv_set_type [OF cm(1) kb, of ty]
  have pr0: "page_ref ?s0 q = page_ref s q" for q using c0(2) cm(2) by simp
  have ch0: "chain ?s0 q = chain s q" for q by (simp add: cm(3))
  have c0': "0 \<le> page_ref ?s0 ppn" "page_ref ?s0 ppn < 127" "ppn < pages_of ?s0" using assms pr0 by simp_all
  note iv = INCREASE_then_VALID [OF c0(1) assms(5) c0'(3,1,2) assms(7), of l]
  have st: "set_mapping ?s1 l ppn = Some ?s2"
    using set_mapping_ok(1) [of ?s1 l ppn] A(3) assms(2,3) by (simp add: map_shape_def)
  have e: "set_type ?s2 ?k ty = set_chain ?s0 ppn (chain ?s0 ppn @ [l])" by (simp add: set_type_chain ch0 cm(3))
  have calc: "CALC_FLASH ?s2 ppn = CALC_FLASH s ppn" "CALC_BLOCK ?s2 ppn = CALC_BLOCK s ppn"
    by (simp_all add: CALC_FLASH_def CALC_BLOCK_def)
  have "blk_shape ?s2" "wf_conf (ssdparams ?s2)" using A(7,10) by (simp_all add: blk_shape_def)
  from UPDATE_BLOCK_STATE_type [OF this _ _ _ _ assms(10), of "CALC_FLASH s ppn" "CALC_BLOCK s ppn"] r
  have ub: "UPDATE_BLOCK_STATE ?s2 (CALC_FLASH ?s2 ppn) (CALC_BLOCK ?s2 ppn) ty
      = Some (SUCCESS, set_chain ?s0 ppn (chain ?s0 ppn @ [l]))"
    unfolding calc by (simp add: set_type_chain ch0 cm(3))
  have inc: "INCREASE_INVERSE_MAPPING s ppn l = Some (SUCCESS, ?s1)"
    using INCREASE_then_VALID(1) [OF A(1) assms(5,6,8,9,7)] by simp
  have run: "UPDATE_NEW_PAGE_MAPPING s l ppn ty = Some (SUCCESS, ?s')"
    unfolding UPDATE_NEW_PAGE_MAPPING_def using inc st ub iv(2) by simp
  have R0: "ref_inv X ?s0" using c0(1) by (simp add: core_inv_def)
  note vw = link_page_view [OF R0 assms(5) c0'(3)]
  have "core_inv X ?s' (refs_of (pages_of ?s') (m(l := ppn)))"
    by (rule core_inv_cong [OF link_page_inv [OF c0(1) assms(5) c0'(3,1,2) assms(7), of l]])
      (use assms(2-4) in \<open>simp add: more_refs_of\<close>)
  moreover have "nv_inv ?s'" using A(2) by (simp add: nv_inv_def)
  moreover have "map_shape ?s'" "in_dev ?s' (m(l := ppn))"
    using A(3,4) assms(5,6) by (simp_all add: map_shape_def in_dev_def)
  moreover have "nv_acc V ?s' (m(l := ppn)) (v(l := 0))"
    unfolding nv_acc_def
  proof (intro allI impI)
    fix b assume b: "0 \<le> b" "b < block_nb_of ?s'" "b \<notin> V"
    have "nv_set ?s' (m(l := ppn)) (v(l := 0)) b = nv_set s (m(l := ppn)) (v(l := 0)) b" by (rule nv_set_params) simp
    moreover have "live ?s' b = live s b" by (simp add: live_def)
    ultimately show "live ?s' b = int (card (nv_set ?s' (m(l := ppn)) (v(l := 0)) b))"
      using card_nv_set_upd [OF assms(2,3), of m ppn v 0 b] A(5) b assms(4) by (simp add: nv_acc_def)
  qed
  ultimately have "acc X V ?s' (m(l := ppn)) (v(l := 0))" by (simp add: acc_def)
  moreover have "map_frame s ?s'"
    by (rule map_frame_trans [OF map_frame_trans, of _ "s\<lparr>mapping_table := ?mt\<rparr>" ?s0]) simp_all
  moreover have "live ?s' b = live s b" for b by (simp add: live_def)
  ultimately show ?thesis using run vw by (intro exI [of _ ?s']) (simp add: pr0 ch0 cm(3))
qed

subsection \<open>NVRAM entries and table entries\<close>

lemma acc_nv:
  assumes "acc X V s m v" "same_but_nv s s'" "nv_inv s'"
    "\<And>b. 0 \<le> b \<Longrightarrow> b < block_nb_of s \<Longrightarrow> b \<notin> V \<Longrightarrow> live s' b = int (card (nv_set s m' v' b))"
    "\<And>q. 0 \<le> q \<Longrightarrow> q < pages_of s \<Longrightarrow> m' q = m q"
  shows "acc X V s' m' v'" "page_ref s' q = page_ref s q" "chain s' q = chain s q"
proof -
  note A = accD [OF assms(1)] and fr = same_but_nv_frame [OF assms(2)]
  note cf = core_inv_frame [OF A(1) fr(1,5,6,4)]
  show "page_ref s' q = page_ref s q" "chain s' q = chain s q" by (rule cf)+
  have "refs_of (pages_of s) m' = refs_of (pages_of s) m"
    by (intro ext) (use assms(5) in \<open>auto simp: refs_of_def\<close>)
  moreover have "in_dev s' m'" using A(4) assms(5) by (simp add: in_dev_def fr(1))
  moreover have "map_shape s'" using A(3) by (simp add: map_shape_def fr)
  ultimately show "acc X V s' m' v'"
    using cf(1) assms(3,4) by (simp add: acc_def nv_acc_def fr(1) nv_set_params [OF fr(1)])
qed

lemma nvram_entry_acc:
  assumes "acc X V s m v" "0 \<le> l" "l < pages_of s" "v l \<noteq> 1" "m l \<noteq> - 1"
  shows "\<exists>s'. UPDATE_NVRAM_OOB s (CALC_BLOCK s (m l)) VALID = Some (SUCCESS, s') \<and> acc X V s' m (v(l := 1)) \<and>
    same_but_nv s s' \<and> devtime s' = devtime s \<and> iostat s' = iostat s \<and>
    (\<forall>c. 0 \<le> c \<longrightarrow> c \<noteq> CALC_BLOCK s (m l) \<longrightarrow> live s' c = live s c)"
proof -
  note A = accD [OF assms(1)]
  have p: "0 \<le> m l" "m l < pages_of s" using A(4) assms(2,3,5) by (auto simp: in_dev_def)
  note b = calc_ranges(3,4) [OF A(7) p]
  from UPDATE_NVRAM_OOB_VALID [OF A(2) b] obtain s' where
    u: "UPDATE_NVRAM_OOB s (CALC_BLOCK s (m l)) VALID = Some (SUCCESS, s')" "nv_inv s'" "same_but_nv s s'"
      "devtime s' = devtime s" "iostat s' = iostat s"
      "\<forall>c. 0 \<le> c \<longrightarrow> live s' c = (if c = CALC_BLOCK s (m l) then live s (CALC_BLOCK s (m l)) + 1 else live s c)"
    by blast
  have "live s' c = int (card (nv_set s m (v(l := 1)) c))" if "0 \<le> c" "c < block_nb_of s" "c \<notin> V" for c
    using u(6) that A(5) card_nv_set_upd [OF assms(2,3), of m "m l" v 1 c] assms(4,5)
    by (auto simp: nv_acc_def)
  with acc_nv(1) [OF assms(1) u(3,2)] u show ?thesis by (intro exI [of _ s']) simp
qed

lemma acc_tables:
  assumes "acc X V s m v" "length mt = length (mapping_table s)" "length nv = length (in_nvram s)"
  shows "acc X V (s\<lparr>mapping_table := mt, in_nvram := nv\<rparr>) m v" "acc X V (s\<lparr>mapping_table := mt\<rparr>) m v"
    "acc X V (s\<lparr>in_nvram := nv\<rparr>) m v"
proof -
  have "acc X V s' m v" if "ssdparams s' = ssdparams s" "block_state_table s' = block_state_table s" "pstat s' = pstat s"
    "inverse_mapping_table s' = inverse_mapping_table s" "NVRAM_OOB_TABLE s' = NVRAM_OOB_TABLE s" "nstat s' = nstat s"
    "length (mapping_table s') = length (mapping_table s)" "length (in_nvram s') = length (in_nvram s)" for s'
    using core_inv_frame(1) [OF accD(1) [OF assms(1)] that(1-4)] assms(1) that
    by (simp add: acc_def nv_inv_def map_shape_def in_dev_def nv_acc_def live_def nv_set_params [OF that(1)])
  from this [of "s\<lparr>mapping_table := mt, in_nvram := nv\<rparr>"] this [of "s\<lparr>mapping_table := mt\<rparr>"]
    this [of "s\<lparr>in_nvram := nv\<rparr>"] assms(2,3)
  show "acc X V (s\<lparr>mapping_table := mt, in_nvram := nv\<rparr>) m v" "acc X V (s\<lparr>mapping_table := mt\<rparr>) m v"
    "acc X V (s\<lparr>in_nvram := nv\<rparr>) m v" by simp_all
qed

lemma acc_table_ref [simp]:
  "page_ref (s\<lparr>mapping_table := mt\<rparr>) q = page_ref s q" "chain (s\<lparr>mapping_table := mt\<rparr>) q = chain s q"
  "page_ref (s\<lparr>in_nvram := mt\<rparr>) q = page_ref s q" "chain (s\<lparr>in_nvram := mt\<rparr>) q = chain s q"
  by (simp_all add: page_ref_def page_refs_def chain_def)

lemma map_invI:
  assumes "acc {} {} s m v" "\<And>q. 0 \<le> q \<Longrightarrow> q < pages_of s \<Longrightarrow> m q = l2p s q \<and> v q = nvm s q"
  shows "map_inv s"
  unfolding map_inv_def by (rule acc_ext [OF assms(1)]) (use assms(2) in simp)

subsection \<open>Unmapping and remapping\<close>

lemma unmap_page_ok:
  assumes "map_inv s" "0 \<le> l" "l < pages_of s"
  shows "\<exists>s'. unmap_page s l = Some s' \<and> map_inv s' \<and> map_frame s s' \<and> in_nvram s' = in_nvram s \<and>
    mapping_table s' = (mapping_table s)[nat l := - 1] \<and>
    (\<forall>q. 0 \<le> q \<longrightarrow> page_ref s' q = (if q = l2p s l then dropped (page_ref s q) else page_ref s q))"
proof -
  from update_old_acc [OF assms] obtain s1 where
    u: "UPDATE_OLD_PAGE_MAPPING s l = Some (SUCCESS, s1)" "acc {} {} s1 ((l2p s)(l := - 1)) (nvm s)" "map_frame s s1"
      "mapping_table s1 = mapping_table s" "in_nvram s1 = in_nvram s"
      "\<forall>q. 0 \<le> q \<longrightarrow> page_ref s1 q = (if q = l2p s l then dropped (page_ref s q) else page_ref s q)" by blast
  note A = accD [OF assms(1) [unfolded map_inv_def]]
  have pm: "ssdparams s1 = ssdparams s" using u(3) by (simp add: map_frame_def same_alloc_def)
  let ?s' = "s1\<lparr>mapping_table := (mapping_table s1)[nat l := - 1]\<rparr>"
  have "set_mapping s1 l (- 1) = Some ?s'"
    using set_mapping_ok(1) [OF accD(3) [OF u(2)]] assms(2,3) pm by simp
  then have run: "unmap_page s l = Some ?s'" using u(1) by (simp add: unmap_page_def)
  have "map_inv ?s'"
  proof (rule map_invI)
    show "acc {} {} ?s' ((l2p s)(l := - 1)) (nvm s)" by (rule acc_tables(2) [OF u(2)]) simp_all
    show "((l2p s)(l := - 1)) q = l2p ?s' q \<and> nvm s q = nvm ?s' q" if "0 \<le> q" "q < pages_of ?s'" for q
      using l2p_set(1) [OF A(3) assms(2,3) that(1)] by (auto simp: l2p_def nvm_def u(4,5))
  qed
  moreover have "map_frame s ?s'" by (rule map_frame_trans [OF u(3)]) simp
  ultimately show ?thesis using run u(4-6) by (intro exI [of _ ?s']) simp
qed

text \<open>
  The state between the two halves of a remap: \<open>p\<close> has \<open>l\<close> as a further reference, with an NVRAM
  entry, and the tables still have the old entry of \<open>l\<close>.
\<close>

definition shared :: "ssdstate \<Rightarrow> int \<Rightarrow> int \<Rightarrow> ssdstate \<Rightarrow> bool" where
  "shared s p l s' \<longleftrightarrow> ssdparams s' = ssdparams s \<and> mapping_table s' = mapping_table s \<and> in_nvram s' = in_nvram s \<and>
     core_inv {} s' (more_ref (refs_of (pages_of s) (l2p s)) p l) \<and> nv_inv s' \<and>
     (\<forall>b. 0 \<le> b \<longrightarrow> live s' b = live s b + of_bool (CALC_BLOCK s p = b)) \<and>
     (\<forall>q. 0 \<le> q \<longrightarrow> page_ref s' q = (if q = p then page_ref s q + 1 else page_ref s q))"

lemma shared_time:
  assumes "shared s p l s1" "same_but_time s1 s2"
  shows "shared s p l s2"
proof -
  note fr = same_but_time_frame [OF assms(2)]
  have "core_inv {} s1 (more_ref (refs_of (pages_of s) (l2p s)) p l)" using assms(1) by (simp add: shared_def)
  note cf = core_inv_frame [OF this fr(1,5,8,4)]
  show ?thesis
    using assms(1) cf by (auto simp: shared_def fr nv_inv_def live_def)
qed

lemma share_page_ok:
  assumes "map_inv s" "0 \<le> p" "p < pages_of s" "0 < page_ref s p" "page_ref s p < 127"
  shows "\<exists>s'. share_page s p l = Some (True, s') \<and> shared s p l s' \<and> map_frame s s'"
proof -
  note A = accD [OF assms(1) [unfolded map_inv_def]]
  have ge: "0 \<le> page_ref s p" using assms(4) by simp
  note iv = INCREASE_then_VALID [OF A(1) assms(2,3) ge assms(5), of l]
  note lp = link_page_inv [OF A(1) assms(2,3) ge assms(5), of l]
  let ?s2 = "link_page s p l"
  have b: "CALC_BLOCK ?s2 p = CALC_BLOCK s p" by (simp add: CALC_BLOCK_def)
  have n2: "nv_inv ?s2" "live ?s2 c = live s c" for c using A(2) by (simp_all add: nv_inv_def live_def)
  have bl: "0 \<le> CALC_BLOCK s p" "CALC_BLOCK s p < block_nb_of ?s2" using calc_ranges(3,4) [OF A(7) assms(2,3)] by simp_all
  from UPDATE_NVRAM_OOB_VALID [OF n2(1) bl] obtain s3 where
    u: "UPDATE_NVRAM_OOB ?s2 (CALC_BLOCK s p) VALID = Some (SUCCESS, s3)" "nv_inv s3" "same_but_nv ?s2 s3"
      "devtime s3 = devtime ?s2" "iostat s3 = iostat ?s2"
      "\<forall>c. 0 \<le> c \<longrightarrow> live s3 c = (if c = CALC_BLOCK s p then live ?s2 (CALC_BLOCK s p) + 1 else live ?s2 c)"
    by blast
  note fr = same_but_nv_frame [OF u(3)]
  have "core_inv {} ?s2 (more_ref (refs_of (pages_of s) (l2p s)) p l)" using lp by simp
  note cf = core_inv_frame [OF this fr(1,5,6,4)]
  have "share_page s p l = Some (True, s3)" using iv u(1) by (simp add: share_page_def b)
  moreover have "map_frame s s3" by (rule map_frame_trans [OF _ map_frame_nv [OF u(3-5)]]) simp
  moreover have "shared s p l s3"
    using cf u(2,6) fr n2(2) link_page_view(2) [OF A(6) assms(2,3)] by (auto simp: shared_def)
  ultimately show ?thesis by blast
qed

definition remap_ref :: "ssdstate \<Rightarrow> int \<Rightarrow> int \<Rightarrow> int \<Rightarrow> int" where
  "remap_ref s l p q =
     (let r = (if q = p then page_ref s q + 1 else page_ref s q) in if q = l2p s l then dropped r else r)"

lemma remap_nv_acc:
  assumes "map_inv s" "0 \<le> l" "l < pages_of s" "0 \<le> p" "0 \<le> b" "b < block_nb_of s"
  shows "live s b + of_bool (CALC_BLOCK s p = b) - of_bool (l2p s l \<noteq> - 1 \<and> nvm s l = 1 \<and> CALC_BLOCK s (l2p s l) = b)
    = int (card (nv_set s ((l2p s)(l := p)) ((nvm s)(l := 1)) b))"
proof -
  have "live s b = int (card (nv_set s (l2p s) (nvm s) b))"
    using assms(1,5,6) by (simp add: map_inv_def acc_def nv_acc_def)
  moreover have "p \<noteq> - 1" using assms(4) by simp
  ultimately show ?thesis
    using card_nv_set_upd [OF assms(2,3), of "l2p s" p "nvm s" 1 b] by (auto simp: conj_ac)
qed

lemma share_drop:
  assumes "map_inv s" "0 \<le> l" "l < pages_of s" "0 \<le> p" "p < pages_of s" "shared s p l s1"
  shows "\<exists>s2. UPDATE_OLD_PAGE_MAPPING s1 l = Some (SUCCESS, s2) \<and> map_frame s1 s2 \<and>
    mapping_table s2 = mapping_table s \<and> in_nvram s2 = in_nvram s \<and>
    acc {} {} s2 ((l2p s)(l := p)) ((nvm s)(l := 1)) \<and>
    (\<forall>q. 0 \<le> q \<longrightarrow> page_ref s2 q = remap_ref s l p q)"
proof -
  note A = accD [OF assms(1) [unfolded map_inv_def]]
  have u: "core_inv {} s1 (more_ref (refs_of (pages_of s) (l2p s)) p l)"
      "nv_inv s1" "mapping_table s1 = mapping_table s" "in_nvram s1 = in_nvram s"
      "\<And>b. 0 \<le> b \<Longrightarrow> live s1 b = live s b + of_bool (CALC_BLOCK s p = b)"
      "\<And>q. 0 \<le> q \<Longrightarrow> page_ref s1 q = (if q = p then page_ref s q + 1 else page_ref s q)"
    and pm: "ssdparams s1 = ssdparams s" using assms(6) by (simp_all add: shared_def)
  have tb: "l2p s1 = l2p s" "nvm s1 = nvm s" by (intro ext, simp add: l2p_def nvm_def u(3,4))+
  have ms: "map_shape s1" using A(3) by (simp add: map_shape_def pm u(3,4))
  have cb: "CALC_BLOCK s1 = CALC_BLOCK s" by (intro ext) (simp add: CALC_BLOCK_def pm)
  define m' where "m' = (l2p s)(l := p)"
  have "\<exists>s2. UPDATE_OLD_PAGE_MAPPING s1 l = Some (SUCCESS, s2) \<and> core_inv {} s2 (refs_of (pages_of s) m') \<and>
    nv_inv s2 \<and> map_frame s1 s2 \<and> mapping_table s2 = mapping_table s1 \<and> in_nvram s2 = in_nvram s1 \<and>
    (\<forall>b. 0 \<le> b \<longrightarrow> live s2 b = live s1 b - of_bool (l2p s l \<noteq> - 1 \<and> nvm s l = 1 \<and> CALC_BLOCK s (l2p s l) = b)) \<and>
    (\<forall>q. 0 \<le> q \<longrightarrow> page_ref s2 q = (if q = l2p s l then dropped (page_ref s1 q) else page_ref s1 q))"
  proof (cases "l2p s l = - 1")
    case True
    have "UPDATE_OLD_PAGE_MAPPING s1 l = Some (SUCCESS, s1)"
      using set_mapping_ok(3) [OF ms assms(2)] assms(3) True by (simp add: UPDATE_OLD_PAGE_MAPPING_def pm tb)
    moreover have "core_inv {} s1 (refs_of (pages_of s) m')"
      by (rule core_inv_cong [OF u(1)]) (use assms(2,3) True in \<open>simp add: more_refs_of m'_def\<close>)
    ultimately show ?thesis using u(2) True by (intro exI [of _ s1]) simp
  next
    case False
    then have o: "0 \<le> l2p s1 l" "l2p s1 l < pages_of s1" using A(4) assms(2,3) by (auto simp: in_dev_def tb pm)
    have E: "0 < more_ref (refs_of (pages_of s) (l2p s)) p l (l2p s1 l) l"
      using assms(2,3) by (simp add: refs_of_def more_ref_def tb)
    have lv: "0 < live s1 (CALC_BLOCK s1 (l2p s1 l))" if "nvm s1 l = 1"
      using map_inv_live [OF assms(1-3) False] that u(5) calc_ranges(3) [OF A(7) o(1)] o(2)
      by (simp add: tb cb pm)
    have lp: "l < pages_of s1" using assms(3) pm by simp
    from drop_old [OF u(1,2) ms assms(2) lp o E _ lv] obtain s2 where
      d: "UPDATE_OLD_PAGE_MAPPING s1 l = Some (SUCCESS, s2)"
        "core_inv {} s2 (less_ref (more_ref (refs_of (pages_of s) (l2p s)) p l) (l2p s1 l) l)" "nv_inv s2" "map_frame s1 s2"
        "mapping_table s2 = mapping_table s1" "in_nvram s2 = in_nvram s1"
        "\<forall>b. 0 \<le> b \<longrightarrow> live s2 b = live s1 b - of_bool (nvm s1 l = 1 \<and> CALC_BLOCK s1 (l2p s1 l) = b)"
        "\<forall>q. 0 \<le> q \<longrightarrow> page_ref s2 q = (if q = l2p s1 l then dropped (page_ref s1 q) else page_ref s1 q)" by auto
    have "core_inv {} s2 (refs_of (pages_of s) m')"
      by (rule core_inv_cong [OF d(2)]) (use assms(2,3) in \<open>simp add: less_more_refs_of m'_def tb\<close>)
    then show ?thesis using d False by (intro exI [of _ s2]) (simp add: tb cb)
  qed
  then obtain s2 where d: "UPDATE_OLD_PAGE_MAPPING s1 l = Some (SUCCESS, s2)" "core_inv {} s2 (refs_of (pages_of s) m')"
    "nv_inv s2" "map_frame s1 s2" "mapping_table s2 = mapping_table s1" "in_nvram s2 = in_nvram s1"
    "\<forall>b. 0 \<le> b \<longrightarrow> live s2 b = live s1 b - of_bool (l2p s l \<noteq> - 1 \<and> nvm s l = 1 \<and> CALC_BLOCK s (l2p s l) = b)"
    "\<forall>q. 0 \<le> q \<longrightarrow> page_ref s2 q = (if q = l2p s l then dropped (page_ref s1 q) else page_ref s1 q)" by blast
  have pm2: "ssdparams s2 = ssdparams s" using d(4) pm by (simp add: map_frame_def same_alloc_def)
  have "nv_acc {} s2 m' ((nvm s)(l := 1))"
    unfolding nv_acc_def
    using remap_nv_acc [OF assms(1-4)] u(5) d(7) by (simp add: nv_set_params [OF pm2] pm2 m'_def)
  moreover have "map_shape s2" "in_dev s2 m'"
    using A(3,4) assms(4,5) by (simp_all add: map_shape_def in_dev_def pm2 d(5,6) u(3,4) m'_def)
  ultimately have "acc {} {} s2 m' ((nvm s)(l := 1))" using d(2,3) by (simp add: acc_def pm2)
  then show ?thesis
    using u d by (intro exI [of _ s2]) (auto simp: remap_ref_def m'_def)
qed

text \<open>Sharing a live page and redirecting \<open>l\<close> to it is a remap.\<close>

lemma redirect_ok:
  assumes "map_inv s" "0 \<le> l" "l < pages_of s" "0 \<le> p" "p < pages_of s" "shared s p l s1"
  shows "\<exists>s'. redirect s1 l p = Some s' \<and> map_inv s' \<and> map_frame s1 s' \<and>
    mapping_table s' = (mapping_table s)[nat l := p] \<and> in_nvram s' = (in_nvram s)[nat l := 1] \<and>
    (\<forall>q. 0 \<le> q \<longrightarrow> page_ref s' q = remap_ref s l p q)"
proof -
  note A = accD [OF assms(1) [unfolded map_inv_def]]
  from share_drop [OF assms] obtain s2 where
    u: "UPDATE_OLD_PAGE_MAPPING s1 l = Some (SUCCESS, s2)" "map_frame s1 s2" "mapping_table s2 = mapping_table s"
      "in_nvram s2 = in_nvram s" "acc {} {} s2 ((l2p s)(l := p)) ((nvm s)(l := 1))"
      "\<forall>q. 0 \<le> q \<longrightarrow> page_ref s2 q = remap_ref s l p q" by blast
  have pm: "ssdparams s2 = ssdparams s" using u(2) assms(6) by (simp add: map_frame_def same_alloc_def shared_def)
  let ?s3 = "s2\<lparr>mapping_table := (mapping_table s)[nat l := p]\<rparr>"
  let ?s' = "s2\<lparr>mapping_table := (mapping_table s)[nat l := p], in_nvram := (in_nvram s)[nat l := 1]\<rparr>"
  have "set_mapping s2 l p = Some ?s3"
    using set_mapping_ok(1) [OF accD(3) [OF u(5)] assms(2)] assms(3) pm u(3) by simp
  moreover have "set_in_nvram ?s3 l 1 = Some ?s'"
    using set_mapping_ok(2) [of ?s3 l 1] accD(3) [OF u(5)] assms(2,3) pm u(3,4) by (simp add: map_shape_def)
  ultimately have run: "redirect s1 l p = Some ?s'" using u(1) by (simp add: redirect_def)
  have "map_inv ?s'"
  proof (rule map_invI)
    show "acc {} {} ?s' ((l2p s)(l := p)) ((nvm s)(l := 1))" by (rule acc_tables(1) [OF u(5)]) (simp_all add: u(3,4))
    show "((l2p s)(l := p)) q = l2p ?s' q \<and> ((nvm s)(l := 1)) q = nvm ?s' q" if "0 \<le> q" "q < pages_of ?s'" for q
      using l2p_set [OF A(3) assms(2,3) that(1)] by (auto simp: l2p_def nvm_def)
  qed
  moreover have "map_frame s1 ?s'" by (rule map_frame_trans [OF u(2)]) (simp add: map_frame_def same_alloc_def)
  ultimately show ?thesis
    using run u(6) by (intro exI [of _ ?s']) (simp add: page_ref_def page_refs_def)
qed

end
