(* ===== verification/Statistics.thy ===== *)
theory Statistics
  imports IoTiming
begin

section \<open>Statistics\<close>

text \<open>
  The counters of \<open>struct ssdstate\<close> are cleared by \<open>INIT_STAT_COUNT\<close> and written to the statistics
  file by \<open>stat_print\<close> (\<open>vssim_config_manager.c\<close>). The file itself is not part of the model:
  \<open>stat_row\<close> is the line that is appended, and \<open>stat_print\<close> the effect on the counters. The block
  that reads, writes and collections repeat to print every \<open>PRINT_INTERVAL\<close> seconds is \<open>stat_tick\<close>.
\<close>

definition INIT_STAT_COUNT :: "ssdstate \<Rightarrow> ssdstate" where
  "INIT_STAT_COUNT ssd = ssd\<lparr>
     pstat := \<lparr>stat_ppn_valid = 0, stat_ppn_n21 = 0, stat_ppn_invalid = 0,
       stat_ppn_free = u64 (PAGE_MAPPING_ENTRY_NB (ssdparams ssd)), stat_lpn_valid = 0, max_valid_array = 0\<rparr>,
     nstat := \<lparr>stat_use_remap_fail = 0, stat_gc_remap_fail = 0, stat_total_alloc_seg = 0,
       stat_total_OOB_entry = 0, stat_total_invalid_entry = 0, stat_total_seg_bytes = 0,
       stat_max_alloc_seg = 0, stat_min_alloc_seg = 100\<rparr>,
     iostat := (iostat ssd)\<lparr>stat_type := 0, stat_time := 0, stat_temp := 0, stat_total_read_count := 0,
       stat_total_write_count := 0, stat_host_write_count := 0, gc_count := 0, stat_gc_count := 0,
       stat_erase_count := 0, stat_gc_write_count := 0, stat_remap_cnt := 0, stat_commit_cnt := 0,
       stat_reduced_write := 0, stat_avg_write_delay := 0, stat_write_req_print := 0,
       stat_write_delay_print := 0, stat_min_write_delay := 10000000000, stat_max_write_delay := 0,
       stat_write_size_print := 0, stat_avg_req_size := 0, stat_read_size_print := 0,
       stat_avg_GCRNVRAM_delay := 0, stat_GCRNVRAM_print := 0, stat_GCRNVRAM_delay_print := 0,
       stat_avg_NVRAMGC_delay := 0, stat_NVRAMGC_print := 0, stat_NVRAMGC_delay_print := 0\<rparr>\<rparr>"

definition stat_row :: "ssdstate \<Rightarrow> int list" where
  "stat_row ssd =
     (let io = iostat ssd; pg = pstat ssd; nv = nstat ssd in
      [stat_type io, stat_total_write_count io, stat_host_write_count io, stat_gc_count io,
       stat_reduced_write io, stat_commit_cnt io, stat_ppn_valid pg, stat_ppn_invalid pg, stat_lpn_valid pg,
       stat_total_alloc_seg nv, stat_total_OOB_entry nv, stat_total_invalid_entry nv, stat_min_alloc_seg nv,
       stat_max_alloc_seg nv, stat_GCRNVRAM_print io, stat_avg_GCRNVRAM_delay io, stat_NVRAMGC_print io,
       stat_avg_NVRAMGC_delay io, stat_write_req_print io, stat_avg_write_delay io,
       stat_write_size_print io div 2, stat_read_size_print io div 2, stat_max_write_delay io,
       max_valid_array pg, stat_use_remap_fail nv, stat_gc_remap_fail nv])"

definition stat_print :: "ssdstate \<Rightarrow> ssdstate" where
  "stat_print = upd_iostat (\<lambda>st.
     (if stat_type st = 3
      then st\<lparr>stat_write_req_print := 0, stat_write_delay_print := 0, stat_avg_write_delay := 0,
        stat_min_write_delay := 10000000000, stat_max_write_delay := 0, stat_write_size_print := 0,
        stat_avg_req_size := 0, stat_read_size_print := 0, stat_avg_GCRNVRAM_delay := 0,
        stat_GCRNVRAM_print := 0, stat_GCRNVRAM_delay_print := 0, stat_avg_NVRAMGC_delay := 0,
        stat_NVRAMGC_print := 0, stat_NVRAMGC_delay_print := 0, stat_type := 0\<rparr>
      else st\<lparr>stat_type := 0\<rparr>))"

text \<open>The difference of the 64-bit stamps is compared with the double \<open>1e9 * PRINT_INTERVAL\<close>.\<close>

definition stat_tick :: "ssdstate \<Rightarrow> ssdstate" where
  "stat_tick ssd =
     (let (t, ssd1) = read_clock TS_NS ssd;
          ssd2 = upd_iostat (\<lambda>st. st\<lparr>stat_temp := u64 t\<rparr>) ssd1
      in if 5000000000 \<le> dbl (u64 (u64 t - stat_time (iostat ssd2)))
         then upd_iostat (\<lambda>st. st\<lparr>stat_time := stat_temp st\<rparr>)
                (stat_print (upd_iostat (\<lambda>st. st\<lparr>stat_type := 3\<rparr>) ssd2))
         else ssd2)"

section \<open>Lemmas\<close>

lemma stat_print_ok:
  "same_but_time s (stat_print s)" "time_inv (stat_print s) = time_inv s" "devtime (stat_print s) = devtime s"
  by (simp_all add: stat_print_def) (simp add: upd_iostat_def)

lemma stat_tick_ok:
  assumes "time_inv s"
  shows "same_but_time s (stat_tick s)" "time_inv (stat_tick s)"
proof -
  obtain t s1 where r: "read_clock TS_NS s = (t, s1)" by (cases "read_clock TS_NS s")
  have s1: "same_but_time s s1" "time_inv s1"
    using read_clock_same [of s TS_NS] time_inv_upd(2) [of TS_NS s] assms r by simp_all
  have tr: "same_but_time s (upd_iostat f x)" if "same_but_time s x" for f x
    using that same_but_time_trans same_but_time_upd(1) by blast
  have tr2: "same_but_time s (stat_print x)" if "same_but_time s x" for x
    using that same_but_time_trans stat_print_ok(1) by blast
  show "same_but_time s (stat_tick s)" "time_inv (stat_tick s)"
    using s1 by (simp_all add: stat_tick_def Let_def r tr tr2 stat_print_ok(2))
qed

lemma read_clock_devtime [simp]:
  "iostat (snd (read_clock src s)) = iostat s" "perf (snd (read_clock src s)) = perf s"
  by (simp_all add: read_clock_def)

lemma stat_tick_iostat:
  "iostat (stat_tick s) = iostat s\<lparr>stat_temp := stat_temp (iostat (stat_tick s))\<rparr> \<or>
   stat_write_req_print (iostat (stat_tick s)) = 0 \<and> stat_GCRNVRAM_print (iostat (stat_tick s)) = 0 \<and>
   stat_NVRAMGC_print (iostat (stat_tick s)) = 0"
proof -
  obtain t s1 where r: "read_clock TS_NS s = (t, s1)" by (cases "read_clock TS_NS s")
  have "iostat s1 = iostat s" using read_clock_devtime(1) [of TS_NS s] r by simp
  then show ?thesis
    by (simp add: stat_tick_def stat_print_def upd_iostat_def r Let_def)
qed

text \<open>Printing only clears the counters.\<close>

lemma stat_tick_room:
  assumes "print_room n r w (iostat s)"
  shows "print_room n r w (iostat (stat_tick s))"
proof -
  have "int n < 2 ^ 32" "int r < 2 ^ 32" "int w < 2 ^ 32" using assms by (simp_all add: print_room_def)
  with stat_tick_iostat [of s] show ?thesis
  proof (elim disjE)
    assume "iostat (stat_tick s) = iostat s\<lparr>stat_temp := stat_temp (iostat (stat_tick s))\<rparr>"
    then have "stat_NVRAMGC_print (iostat (stat_tick s)) = stat_NVRAMGC_print (iostat s)"
      "stat_GCRNVRAM_print (iostat (stat_tick s)) = stat_GCRNVRAM_print (iostat s)"
      "stat_write_req_print (iostat (stat_tick s)) = stat_write_req_print (iostat s)"
      by (metis io_stat.select_convs io_stat.surjective io_stat.update_convs)+
    then show ?thesis using assms by (simp add: print_room_def)
  qed (simp add: print_room_def)
qed

subsection \<open>Steps of device time\<close>

text \<open>What the timing operations and the printing have in common.\<close>

definition room_kept :: "io_stat \<Rightarrow> io_stat \<Rightarrow> bool" where
  "room_kept st st' \<longleftrightarrow> (\<forall>n r w. print_room n r w st \<longrightarrow> print_room n r w st')"

definition timed :: "ssdstate \<Rightarrow> ssdstate \<Rightarrow> bool" where
  "timed s s' \<longleftrightarrow> same_but_time s s' \<and> time_inv s' \<and> room_kept (iostat s) (iostat s')"

lemma room_kept_refl [simp]: "room_kept st st" "room_kept st (count_read st)" "room_kept st (count_write st)"
  "room_kept st (count_write (count_read st))"
  by (simp_all add: room_kept_def)

lemma timed_trans: "timed s s' \<Longrightarrow> timed s' s'' \<Longrightarrow> timed s s''"
  by (auto simp: timed_def room_kept_def intro: same_but_time_trans)

lemma timed_refl: "time_inv s \<Longrightarrow> timed s s"
  by (simp add: timed_def)

lemma timed_iostat:
  assumes "time_inv s" "stat_NVRAMGC_print (f (iostat s)) = stat_NVRAMGC_print (iostat s)"
    "stat_GCRNVRAM_print (f (iostat s)) = stat_GCRNVRAM_print (iostat s)"
    "stat_write_req_print (f (iostat s)) = stat_write_req_print (iostat s)"
  shows "timed s (upd_iostat f s)"
proof -
  have "iostat (upd_iostat f s) = f (iostat s)" by (simp add: upd_iostat_def)
  then show ?thesis using assms by (simp add: timed_def room_kept_def print_room_def)
qed

lemma timed_clock: "time_inv s \<Longrightarrow> timed s (snd (read_clock src s))"
  by (simp add: timed_def)

lemma timed_stat_tick: "time_inv s \<Longrightarrow> timed s (stat_tick s)"
  by (simp add: timed_def stat_tick_ok room_kept_def stat_tick_room)

lemma timed_stat_print:
  assumes "time_inv s"
  shows "timed s (stat_print s)"
proof -
  have "int n < 2 ^ 32 \<and> int r < 2 ^ 32 \<and> int w < 2 ^ 32" if "print_room n r w st" for n r w st
    using that by (simp add: print_room_def)
  then have "room_kept (iostat s) (iostat (stat_print s))"
    by (auto simp: room_kept_def stat_print_def upd_iostat_def print_room_def)
  then show ?thesis using assms by (simp add: timed_def stat_print_ok)
qed

lemma SSD_PAGE_WRITE_timed:
  assumes "time_inv s" "0 \<le> f" "f < flash_nb_of s"
  shows "\<exists>d s'. SSD_PAGE_WRITE s f b p = Some (d, s') \<and> timed s s' \<and>
    REG_WRITE_DELAY (ssdparams s) + CELL_PROGRAM_DELAY (ssdparams s) \<le> d"
proof -
  have "iostat s' = count_write (iostat s)" if "SSD_PAGE_WRITE s f b p = Some (d, s')" for d s'
    using that by (auto simp: SSD_PAGE_WRITE_def Let_def split_beta upd_iostat_def bind_eq_Some_conv)
  with SSD_PAGE_WRITE_ok [OF assms, of b p] show ?thesis by (auto simp: timed_def)
qed

lemma SSD_PAGE_PARTIAL_WRITE_timed:
  assumes "time_inv s" "0 \<le> f" "f < flash_nb_of s"
  shows "\<exists>d s'. SSD_PAGE_PARTIAL_WRITE s f b p f' b' p' = Some (d, s') \<and> timed s s' \<and>
    REG_WRITE_DELAY (ssdparams s) + CELL_PROGRAM_DELAY (ssdparams s) \<le> d"
proof -
  have "iostat s' = count_write (count_read (iostat s))" if "SSD_PAGE_PARTIAL_WRITE s f b p f' b' p' = Some (d, s')" for d s'
    using that by (auto simp: SSD_PAGE_PARTIAL_WRITE_def Let_def split_beta upd_iostat_def bind_eq_Some_conv)
  with SSD_PAGE_PARTIAL_WRITE_ok [OF assms, of b p f' b' p'] show ?thesis by (auto simp: timed_def)
qed

lemma SSD_PAGE_READ_timed:
  assumes "time_inv s" "0 \<le> f" "f < flash_nb_of s"
  shows "\<exists>d s'. SSD_PAGE_READ s f b p = Some (d, s') \<and> timed s s' \<and>
    CELL_READ_DELAY (ssdparams s) + REG_READ_DELAY (ssdparams s) \<le> d"
proof -
  have "iostat s' = count_read (iostat s)" if "SSD_PAGE_READ s f b p = Some (d, s')" for d s'
    using that by (auto simp: SSD_PAGE_READ_def Let_def split_beta upd_iostat_def bind_eq_Some_conv)
  with SSD_PAGE_READ_ok [OF assms, of b p] show ?thesis by (auto simp: timed_def)
qed

lemma SSD_BLOCK_ERASE_timed:
  assumes "time_inv s" "0 \<le> f" "f < flash_nb_of s"
  shows "\<exists>s'. SSD_BLOCK_ERASE s f b = Some (SUCCESS, s') \<and> timed s s'"
proof -
  have "iostat s' = iostat s" if "SSD_BLOCK_ERASE s f b = Some (d, s')" for d s'
    using that by (auto simp: SSD_BLOCK_ERASE_def Let_def split_beta upd_devtime_def bind_eq_Some_conv)
  with SSD_BLOCK_ERASE_ok [OF assms, of b] show ?thesis by (auto simp: timed_def)
qed

lemma UPDATE_NVRAM_TS_timed:
  assumes "time_inv s" "0 \<le> b" "b < block_nb_of s"
  shows "\<exists>d s'. UPDATE_NVRAM_TS s b need = Some (d, s') \<and> timed s s' \<and> iostat s' = iostat s \<and> need \<le> d"
proof -
  have "iostat s' = iostat s" if "UPDATE_NVRAM_TS s b need = Some (d, s')" for d s'
    using that by (auto simp: UPDATE_NVRAM_TS_def Let_def split_beta upd_devtime_def bind_eq_Some_conv)
  with UPDATE_NVRAM_TS_ok [OF assms, of need] show ?thesis by (auto simp: timed_def)
qed

lemma UPDATE_FLASH_TS_timed:
  assumes "time_inv s"
  shows "\<exists>s'. UPDATE_FLASH_TS s need = Some s' \<and> timed s s' \<and> iostat s' = iostat s"
proof -
  have "iostat s' = iostat s" if "UPDATE_FLASH_TS s need = Some s'" for s'
    using that by (auto simp: UPDATE_FLASH_TS_def Let_def split_beta upd_devtime_def bind_eq_Some_conv)
  with UPDATE_FLASH_TS_ok [OF assms, of need] show ?thesis by (auto simp: timed_def)
qed

end
