(* ===== verification/GcManager.thy ===== *)
theory GcManager
  imports PageMapping Statistics
begin

section \<open>Garbage collection\<close>

text \<open>
  \<open>ftl_gc_manager.c\<close>: a collection selects the full superblock with the fewest valid pages, reads
  its NVRAM entries, copies every valid page to a new one together with all the logical pages that
  refer to it, erases the blocks and returns them to the free lists. \<open>GC_CHECK\<close> collects until
  there are enough empty blocks and free pages again or there is no victim left.
\<close>

subsection \<open>Operations\<close>

definition sb_blk_nb :: "ssdconf \<Rightarrow> int" where
  "sb_blk_nb sc = FLASH_NB sc * PLANES_PER_FLASH sc"

text \<open>Whether a block of the superblock has a valid page (the loop that sets \<open>flag\<close>).\<close>

fun any_valid :: "ssdstate \<Rightarrow> int \<Rightarrow> int list \<Rightarrow> bool option" where
  "any_valid ssd b [] = Some False"
| "any_valid ssd b (f # fs) =
     do {
       e \<leftarrow> cread (block_state_table ssd) (GET_BLOCK_STATE_ENTRY ssd f b);
       (if 0 < valid_page_nb e then Some True else any_valid ssd b fs)
     }"

text \<open>Reading the NVRAM entries of the victim blocks the flash chips until they have arrived.\<close>

definition gc_read_oob :: "ssdstate \<Rightarrow> int \<Rightarrow> (int \<times> ssdstate) option" where
  "gc_read_oob ssd b =
     do {
       flag \<leftarrow> any_valid ssd b (cupto (sb_blk_nb (ssdparams ssd)));
       seg \<leftarrow> cread (NVRAM_OOB_TABLE ssd) b;
       (if flag \<and> 0 < alloc_seg seg
        then UPDATE_NVRAM_TS ssd b
          (((alloc_seg seg * OOB_ENTRY_PER_SEG - free_entry seg) * OOB_ENTRY_BYTES * NVRAM_READ_DELAY) sdiv 64)
        else Some (0, ssd))
     }"

definition gc_block_flash :: "ssdstate \<Rightarrow> int \<Rightarrow> ssdstate option" where
  "gc_block_flash ssd blocking_time =
     (if 0 < blocking_time then do {
        ssd1 \<leftarrow> UPDATE_FLASH_TS ssd blocking_time;
        let print = u32 (stat_GCRNVRAM_print (iostat ssd1) + 1);
        let delay = u64 (stat_GCRNVRAM_delay_print (iostat ssd1) + blocking_time);
        (if print = 0 then None
         else Some (upd_iostat (\<lambda>st. st\<lparr>stat_GCRNVRAM_print := print,
           stat_GCRNVRAM_delay_print := delay, stat_avg_GCRNVRAM_delay := delay div print\<rparr>) ssd1))
      }
      else Some ssd)"

text \<open>
  Moving the references of a page, from the tail of its chain: the first one moved is stored with
  the new page (\<open>oob_write\<close>), every further one gets an entry in the NVRAM.
\<close>

partial_function (option) move_refs :: "int \<Rightarrow> int \<Rightarrow> bool \<Rightarrow> ssdstate \<Rightarrow> ssdstate option" where
  "move_refs old_ppn new_ppn oob_write ssd =
     do {
       e \<leftarrow> GET_INVERSE_MAPPING_INFO ssd old_ppn;
       (if lpns e = [] then Some ssd
        else do {
          let lpn = last (lpns e);
          (r1, ssd1) \<leftarrow> DECREASE_INVERSE_MAPPING ssd old_ppn lpn;
          (r2, ssd2) \<leftarrow> UPDATE_NEW_PAGE_MAPPING ssd1 lpn new_ppn DATA_BLOCK;
          (if \<not> oob_write then do {
             ssd3 \<leftarrow> set_in_nvram ssd2 lpn 0;
             move_refs old_ppn new_ppn True ssd3
           }
           else do {
             (r3, ssd3) \<leftarrow> UPDATE_NVRAM_OOB ssd2 (CALC_BLOCK ssd2 new_ppn) VALID;
             ssd4 \<leftarrow> set_in_nvram ssd3 lpn 1;
             (d, ssd5) \<leftarrow> UPDATE_NVRAM_TS ssd4 (CALC_BLOCK ssd4 new_ppn) (NVRAM_WRITE_DELAY div 4);
             move_refs old_ppn new_ppn True ssd5
           })
        })
     }"

text \<open>Copying one valid page; the first component is \<open>FAIL\<close> when there is no new page.\<close>

definition old_addr :: "ssdconf \<Rightarrow> int \<Rightarrow> int \<Rightarrow> int \<Rightarrow> int" where
  "old_addr sc f b i = u32 (f * PAGES_PER_FLASH sc + b * PAGE_NB sc + i)"

definition gc_copy_page :: "ssdstate \<Rightarrow> int \<Rightarrow> int \<Rightarrow> int \<Rightarrow> (int \<times> ssdstate) option" where
  "gc_copy_page ssd f b i =
     do {
       (p, ssd1) \<leftarrow> GET_NEW_PAGE ssd VICTIM_OVERALL (EMPTY_TABLE_ENTRY_NB (ssdparams ssd));
       (case p of
          None \<Rightarrow> Some (FAIL, ssd1)
        | Some new_ppn \<Rightarrow> do {
            (d1, ssd2) \<leftarrow> SSD_PAGE_READ ssd1 f b i;
            (d2, ssd3) \<leftarrow> SSD_PAGE_WRITE ssd2 (CALC_FLASH ssd2 new_ppn) (CALC_BLOCK ssd2 new_ppn) (CALC_PAGE ssd2 new_ppn);
            let ssd4 = stat_tick (upd_iostat (\<lambda>st. st\<lparr>stat_gc_write_count := u32 (stat_gc_write_count st + 1)\<rparr>) ssd3);
            let old_ppn = old_addr (ssdparams ssd4) f b i;
            (if old_ppn = xl2p_ppn ssd4 then do {
               let ssd5 = ssd4\<lparr>xl2p_ppn := new_ppn\<rparr>;
               (r6, ssd6) \<leftarrow> UPDATE_BLOCK_STATE ssd5 (CALC_FLASH ssd5 new_ppn) (CALC_BLOCK ssd5 new_ppn) DATA_BLOCK;
               (r7, ssd7) \<leftarrow> UPDATE_BLOCK_STATE_ENTRY ssd6 (CALC_FLASH ssd6 new_ppn) (CALC_BLOCK ssd6 new_ppn)
                              (CALC_PAGE ssd6 new_ppn) VALID;
               Some (SUCCESS, ssd7)
             }
             else do {
               ssd5 \<leftarrow> move_refs old_ppn new_ppn False ssd4;
               Some (SUCCESS, ssd5)
             })
          })
     }"

text \<open>The pages of one block; the result has the number of pages copied.\<close>

fun gc_pages :: "int \<Rightarrow> int \<Rightarrow> int list \<Rightarrow> int \<Rightarrow> ssdstate \<Rightarrow> (int \<times> int \<times> ssdstate) option" where
  "gc_pages f b [] n ssd = Some (SUCCESS, n, ssd)"
| "gc_pages f b (i # is) n ssd =
     do {
       e \<leftarrow> cread (block_state_table ssd) (GET_BLOCK_STATE_ENTRY ssd f b);
       v \<leftarrow> cread (valid_array e) i;
       (if 0 < v then do {
          (r, ssd1) \<leftarrow> gc_copy_page ssd f b i;
          (if r = FAIL then Some (FAIL, n, ssd1) else gc_pages f b is (n + 1) ssd1)
        }
        else gc_pages f b is n ssd)
     }"

text \<open>All blocks of the superblock; a wrong number of valid pages ends the collection.\<close>

fun gc_blocks :: "int \<Rightarrow> int list \<Rightarrow> int \<Rightarrow> ssdstate \<Rightarrow> (int \<times> int \<times> ssdstate) option" where
  "gc_blocks b [] copied ssd = Some (SUCCESS, copied, ssd)"
| "gc_blocks b (f # fs) copied ssd =
     do {
       (r, n, ssd1) \<leftarrow> gc_pages f b (cupto (PAGE_NB (ssdparams ssd))) 0 ssd;
       (if r = FAIL then Some (FAIL, copied + n, ssd1)
        else do {
          e \<leftarrow> cread (block_state_table ssd1) (GET_BLOCK_STATE_ENTRY ssd1 f b);
          (if n \<noteq> valid_page_nb e then Some (FAIL, copied + n, ssd1)
           else gc_blocks b fs (copied + n) ssd1)
        })
     }"

definition gc_erase :: "int \<Rightarrow> int \<Rightarrow> ssdstate \<Rightarrow> ssdstate option" where
  "gc_erase b f ssd =
     do {
       (r1, ssd1) \<leftarrow> SSD_BLOCK_ERASE ssd f b;
       (r2, ssd2) \<leftarrow> UPDATE_BLOCK_STATE ssd1 f b EMPTY_BLOCK;
       (r3, ssd3) \<leftarrow> INSERT_EMPTY_BLOCK ssd2 f b;
       Some ssd3
     }"

definition gc_slot_of :: "ssdconf \<Rightarrow> int \<Rightarrow> int \<Rightarrow> int option" where
  "gc_slot_of sc f b =
     (if GC_MODE sc = WHOLE_BLOCKING then Some 0
      else if GC_MODE sc = CHANNEL_BLOCKING then channel_of sc f
      else if GC_MODE sc = CHIP_BLOCKING then
        (if u32 (PLANES_PER_FLASH sc) = 0 then None
         else Some (s32 (f * PLANES_PER_FLASH sc + b mod u32 (PLANES_PER_FLASH sc))))
      else Some 0)"

text \<open>The slot of a block is busy for the erase, the copies and 64 more pages.\<close>

definition gc_occupy :: "int \<Rightarrow> int \<Rightarrow> int \<Rightarrow> ssdstate \<Rightarrow> ssdstate option" where
  "gc_occupy b copied f ssd =
     do {
       let gc_time = s32 (BLOCK_ERASE_DELAY (ssdparams ssd) + copied * 920 + 64 * 920);
       slot \<leftarrow> gc_slot_of (ssdparams ssd) f b;
       let (curtime, ssd1) = read_clock USEC ssd;
       t \<leftarrow> cread (gc_slot (devtime ssd1)) slot;
       ts \<leftarrow> cwrite (gc_slot (devtime ssd1)) slot (slot_reserve curtime t gc_time);
       let ssd2 = upd_devtime (\<lambda>dt. dt\<lparr>gc_slot := ts\<rparr>) ssd1;
       Some (if t \<le> curtime then ssd2
             else upd_iostat (\<lambda>st. st\<lparr>stacking_gc_count := s32 (stacking_gc_count st + 1)\<rparr>) ssd2)
     }"

text \<open>The accumulated run times of the collector's phases.\<close>

definition add_time :: "((int \<Rightarrow> int) \<Rightarrow> io_stat \<Rightarrow> io_stat) \<Rightarrow> int \<Rightarrow> ssdstate \<Rightarrow> ssdstate" where
  "add_time upd start ssd =
     (let (now, ssd1) = read_clock TS_NS ssd in upd_iostat (upd (\<lambda>t. t + (now - start))) ssd1)"

definition gc_reclaim :: "int \<Rightarrow> int \<Rightarrow> ssdstate \<Rightarrow> ssdstate option" where
  "gc_reclaim b copied ssd =
     do {
       let sc = ssdparams ssd;
       let ssd1 = upd_iostat (\<lambda>st. st\<lparr>mycopy_page_nb := mycopy_page_nb st + copied\<rparr>) ssd;
       let (up_start, ssd2) = read_clock TS_NS ssd1;
       ssd3 \<leftarrow> foldM (gc_erase b) (cupto (FLASH_NB sc)) ssd2;
       let ssd4 = add_time time_up_update up_start ssd3;
       let ssd5 = upd_iostat (\<lambda>st. st\<lparr>stat_gc_count := u32 (stat_gc_count st + 1),
         stat_erase_count := u32 (stat_erase_count st + FLASH_NB sc * PLANES_PER_FLASH sc),
         mygc_cnt := mygc_cnt st + 1\<rparr>) ssd4;
       foldM (gc_occupy b copied) (cupto (FLASH_NB sc)) ssd5
     }"

definition SB_GARBAGE_COLLECTION :: "ssdstate \<Rightarrow> (int \<times> ssdstate) option" where
  "SB_GARBAGE_COLLECTION ssd =
     do {
       let (gc_start, ssd1) = read_clock TS_NS ssd;
       let (svb_start, ssd2) = read_clock TS_NS ssd1;
       (victim, ssd3) \<leftarrow> SELECT_VICTIM_SUPERBLOCK ssd2;
       let ssd4 = add_time time_svb_update svb_start ssd3;
       (case victim of
          None \<Rightarrow> Some (FAIL, ssd4)
        | Some b \<Rightarrow> do {
            (blocking_time, ssd5) \<leftarrow> gc_read_oob ssd4 b;
            let (cp_start, ssd6) = read_clock TS_NS ssd5;
            ssd7 \<leftarrow> gc_block_flash ssd6 blocking_time;
            (r8, ssd8) \<leftarrow> UPDATE_NVRAM_OOB ssd7 b 0;
            (r, copied, ssd9) \<leftarrow> gc_blocks b (cupto (sb_blk_nb (ssdparams ssd8))) 0 ssd8;
            (if r = FAIL then Some (FAIL, ssd9)
             else do {
               ssd10 \<leftarrow> gc_reclaim b copied (add_time time_cp_update cp_start ssd9);
               Some (SUCCESS, add_time time_gc_update gc_start ssd10)
             })
          })
     }"

definition gc_needed :: "ssdstate \<Rightarrow> bool" where
  "gc_needed ssd \<longleftrightarrow>
     total_empty_block_nb ssd < GC_THRESHOLD_BLOCK_NB (ssdparams ssd) \<or>
     stat_ppn_free (pstat ssd) < u64 (s32 (GC_THRESHOLD_BLOCK_NB (ssdparams ssd) * PAGE_NB (ssdparams ssd)))"

partial_function (option) gc_loop :: "ssdstate \<Rightarrow> ssdstate option" where
  "gc_loop ssd =
     (if gc_needed ssd then do {
        (r, ssd1) \<leftarrow> SB_GARBAGE_COLLECTION ssd;
        (if r = FAIL then Some ssd1
         else gc_loop (upd_iostat (\<lambda>st. st\<lparr>gc_count := s32 (gc_count st + 1)\<rparr>) ssd1))
      }
      else Some ssd)"

text \<open>The index that \<open>GC_CHECK\<close> computes from the page is only used by the per-chip trigger.\<close>

definition GC_CHECK :: "ssdstate \<Rightarrow> int \<Rightarrow> int \<Rightarrow> ssdstate option" where
  "GC_CHECK ssd phy_flash_nb phy_block_nb =
     (if u32 (PLANES_PER_FLASH (ssdparams ssd)) = 0 then None else gc_loop ssd)"

section \<open>Lemmas\<close>

subsection \<open>Moving the references of a page\<close>

lemma count_list_le1_distinct: "(\<And>x. count_list xs x \<le> 1) \<Longrightarrow> distinct xs"
proof (induction xs)
  case (Cons y ys)
  have "count_list ys x \<le> 1" for x using Cons.prems [of x] by (auto split: if_splits)
  moreover have "count_list ys y = 0" using Cons.prems [of y] by simp
  ultimately show ?case using Cons.IH by (simp add: count_list_0_iff)
qed simp

lemma chain_refs:
  assumes "acc X V s m v" "0 \<le> p" "p < pages_of s"
  shows "l \<in> set (chain s p) \<longleftrightarrow> 0 \<le> l \<and> l < pages_of s \<and> m l = p" "distinct (chain s p)"
proof -
  note A = accD [OF assms(1)]
  have c: "count_list (chain s p) x = refs_of (pages_of s) m p x" for x
    using A(1) assms(2,3) by (simp add: core_inv_def refs_are_def)
  show "distinct (chain s p)" by (rule count_list_le1_distinct) (simp add: c refs_of_def)
  show "l \<in> set (chain s p) \<longleftrightarrow> 0 \<le> l \<and> l < pages_of s \<and> m l = p"
    using core_inv_mem [OF A(1) assms(2,3), of l] by (auto simp: refs_of_def split: if_splits)
qed

text \<open>Taking a reference out of a page that is being collected.\<close>

lemma move_out_acc:
  assumes "acc X V s m v" "0 \<le> p" "p < pages_of s" "p \<in> X" "chain s p = xs @ [l]" "\<And>q. q \<in> X \<Longrightarrow> CALC_BLOCK s q \<in> V"
  shows "DECREASE_INVERSE_MAPPING s p l = Some (SUCCESS, set_chain s p xs)" "acc X V (set_chain s p xs) (m(l := - 1)) v"
proof -
  note A = accD [OF assms(1)]
  have l: "0 \<le> l" "l < pages_of s" "m l = p" and d: "l \<notin> set xs"
    using chain_refs [OF assms(1-3)] assms(5) by auto
  have r: "remove1 l (chain s p) = xs" using d by (simp add: assms(5) remove1_append)
  have E: "0 < refs_of (pages_of s) m p l" using l by (simp add: refs_of_def)
  note mo = move_out [OF A(1) assms(2,3) E assms(4), unfolded r]
  show "DECREASE_INVERSE_MAPPING s p l = Some (SUCCESS, set_chain s p xs)" by (rule mo(1))
  let ?s = "set_chain s p xs"
  have "core_inv X ?s (refs_of (pages_of s) (m(l := - 1)))"
    by (rule core_inv_cong [OF mo(2)]) (simp add: less_ref_refs_of [of _ _ m l, unfolded l(3)])
  moreover have "nv_acc V ?s (m(l := - 1)) v"
    unfolding nv_acc_def
  proof (intro allI impI)
    fix b assume b: "0 \<le> b" "b < block_nb_of ?s" "b \<notin> V"
    have "CALC_BLOCK s p \<noteq> b" using assms(4,6) b(3) by blast
    then have "nv_set s (m(l := - 1)) v b = nv_set s m v b" using l(3) by (auto simp: nv_set_def)
    moreover have "nv_set ?s (m(l := - 1)) v b = nv_set s (m(l := - 1)) v b" by (rule nv_set_params) simp
    moreover have "live ?s b = live s b" by (simp add: live_def)
    ultimately show "live ?s b = int (card (nv_set ?s (m(l := - 1)) v b))" using A(5) b by (simp add: nv_acc_def)
  qed
  ultimately show "acc X V ?s (m(l := - 1)) v"
    using A(2-4) by (simp add: acc_def nv_inv_def map_shape_def in_dev_def)
qed

text \<open>What one pass of the loop does.\<close>

definition wacc :: "int set \<Rightarrow> int set \<Rightarrow> ssdstate \<Rightarrow> bool" where
  "wacc X V s \<longleftrightarrow> acc X V s (l2p s) (nvm s)"

definition moved :: "int \<Rightarrow> int list \<Rightarrow> int \<Rightarrow> ssdstate \<Rightarrow> ssdstate \<Rightarrow> bool" where
  "moved old ls new s s' \<longleftrightarrow> same_alloc s s' \<and> iostat s' = iostat s \<and>
     (\<forall>q. 0 \<le> q \<longrightarrow> q < pages_of s \<longrightarrow> l2p s' q = (if q \<in> set ls then new else l2p s q)) \<and>
     (\<forall>q. 0 \<le> q \<longrightarrow> q \<noteq> old \<longrightarrow> q \<noteq> new \<longrightarrow> chain s' q = chain s q) \<and>
     (\<forall>q. 0 \<le> q \<longrightarrow> page_ref s' q = (if q = new then page_ref s q + int (length ls) else page_ref s q)) \<and>
     (\<forall>b. 0 \<le> b \<longrightarrow> b \<noteq> CALC_BLOCK s new \<longrightarrow> live s' b = live s b)"

lemma moved_trans:
  assumes "moved old xs new s s'" "moved old ys new s' s''"
  shows "moved old (xs @ ys) new s s''"
proof -
  have p: "ssdparams s' = ssdparams s" using assms(1) by (simp add: moved_def same_alloc_def)
  then have "CALC_BLOCK s' new = CALC_BLOCK s new" by (simp add: CALC_BLOCK_def)
  with assms p show ?thesis by (auto simp: moved_def intro: same_alloc_trans)
qed

lemma wacc_time:
  assumes "wacc X V s" "same_but_time s s'"
  shows "wacc X V s'" "l2p s' = l2p s" "nvm s' = nvm s"
proof -
  note t = same_tables_of(1) [OF assms(2)]
  show e: "l2p s' = l2p s" "nvm s' = nvm s" by (intro ext, simp add: acc_same(4,5) [OF t])+
  show "wacc X V s'" using acc_same(1) [OF t] assms(1) by (simp add: wacc_def e)
qed

lemma move_first:
  assumes "wacc X V s" "time_inv s" "0 \<le> old" "old < pages_of s" "old \<in> X" "chain s old = xs @ [l]"
    "\<And>q. q \<in> X \<Longrightarrow> CALC_BLOCK s q \<in> V" "0 \<le> new" "new < pages_of s" "new \<notin> X"
    "0 \<le> page_ref s new" "page_ref s new < 127"
  shows "\<exists>s2. UPDATE_NEW_PAGE_MAPPING (set_chain s old xs) l new DATA_BLOCK = Some (SUCCESS, s2) \<and>
    DECREASE_INVERSE_MAPPING s old l = Some (SUCCESS, set_chain s old xs) \<and>
    acc X V s2 (l2p s2) ((nvm s)(l := 0)) \<and> time_inv s2 \<and> in_nvram s2 = in_nvram s \<and> 0 \<le> l \<and> l < pages_of s \<and>
    map_frame s s2 \<and> chain s2 old = xs \<and> moved old [l] new s s2 \<and> l2p s2 l = new"
proof -
  note A = accD [OF assms(1) [unfolded wacc_def]]
  note mo = move_out_acc [OF assms(1) [unfolded wacc_def] assms(3-7)]
  have l: "0 \<le> l" "l < pages_of s" "l2p s l = old"
    using chain_refs [OF assms(1) [unfolded wacc_def] assms(3,4)] assms(6) by auto
  let ?s1 = "set_chain s old xs"
  have pr: "0 \<le> page_ref ?s1 new" "page_ref ?s1 new < 127" "new < pages_of ?s1" "l < pages_of ?s1"
    using assms(9,11,12) l(2) by simp_all
  from update_new_acc [OF mo(2) l(1) pr(4) _ assms(8) pr(3) assms(10) pr(1,2), of DATA_BLOCK] obtain s2 where
    u: "UPDATE_NEW_PAGE_MAPPING ?s1 l new DATA_BLOCK = Some (SUCCESS, s2)"
      "acc X V s2 ((l2p s)(l := - 1, l := new)) ((nvm s)(l := 0))" "map_frame ?s1 s2"
      "mapping_table s2 = (mapping_table ?s1)[nat l := new]" "in_nvram s2 = in_nvram ?s1"
      "\<forall>q. 0 \<le> q \<longrightarrow> page_ref s2 q = (if q = new then page_ref ?s1 new + 1 else page_ref ?s1 q)"
      "\<forall>q. 0 \<le> q \<longrightarrow> chain s2 q = (if q = new then chain ?s1 new @ [l] else chain ?s1 q)"
      "\<forall>b. live s2 b = live ?s1 b" by auto
  have fr: "map_frame s s2" by (rule map_frame_trans [OF _ u(3)]) simp
  then have pm: "ssdparams s2 = ssdparams s" and sa: "same_alloc s s2" and io: "iostat s2 = iostat s" "devtime s2 = devtime s"
    by (simp_all add: map_frame_def same_alloc_def)
  have lp: "l2p s2 q = (if q = l then new else l2p s q)" if "0 \<le> q" for q
    using l2p_set(1) [OF A(3) l(1,2) that, of new] by (simp add: l2p_def u(4))
  have a2: "acc X V s2 (l2p s2) ((nvm s)(l := 0))"
    by (rule acc_ext [OF u(2)]) (simp add: lp)
  have ti: "time_inv s2" using assms(2) by (simp add: time_inv_def pm io)
  have no: "new \<noteq> old" using assms(5,10) by auto
  note cs = chain_set_chain [OF A(9) assms(3,4)]
  have lv: "live s2 b = live s b" if "0 \<le> b" "b \<noteq> CALC_BLOCK s new" for b
    using u(8) by (simp add: live_def)
  show ?thesis
    using u(1,5,6,7) mo(1) a2 ti fr l no cs assms(3) lp sa io lv by (intro exI [of _ s2]) (auto simp: moved_def)
qed

lemma wacc_flag:
  assumes "acc X V s (l2p s) (v(l := x))" "in_nvram s = in_nvram s0" "v = nvm s0" "map_shape s0" "pages_of s = pages_of s0"
    "0 \<le> l" "l < pages_of s"
  shows "set_in_nvram s l x = Some (s\<lparr>in_nvram := (in_nvram s)[nat l := x]\<rparr>)"
    "wacc X V (s\<lparr>in_nvram := (in_nvram s)[nat l := x]\<rparr>)"
proof -
  let ?s = "s\<lparr>in_nvram := (in_nvram s)[nat l := x]\<rparr>"
  note A = accD [OF assms(1)]
  show "set_in_nvram s l x = Some ?s" using set_mapping_ok(2) [OF A(3) assms(6,7)] by simp
  have l: "l < pages_of s0" using assms(5,7) by simp
  have "acc X V ?s (l2p s) (v(l := x))" by (rule acc_tables(3) [OF assms(1)]) simp_all
  then show "wacc X V ?s"
    unfolding wacc_def
  proof (rule acc_ext)
    fix q assume q: "0 \<le> q" "q < pages_of ?s"
    show "l2p ?s q = l2p s q \<and> nvm ?s q = (v(l := x)) q"
      using l2p_set(2) [OF assms(4,6) l q(1), of x] by (auto simp: l2p_def nvm_def assms(2,3))
  qed
qed

lemma moved_tail:
  assumes "moved old ls new s s'" "ssdparams s'' = ssdparams s'" "same_alloc s' s''" "iostat s'' = iostat s'"
    "mapping_table s'' = mapping_table s'" "inverse_mapping_table s'' = inverse_mapping_table s'"
    "block_state_table s'' = block_state_table s'"
    "\<And>b. 0 \<le> b \<Longrightarrow> b \<noteq> CALC_BLOCK s new \<Longrightarrow> live s'' b = live s' b"
  shows "moved old ls new s s''" "chain s'' q = chain s' q"
proof -
  show c: "chain s'' q = chain s' q" for q by (simp add: chain_def assms(6))
  have p: "page_ref s'' q = page_ref s' q" for q by (simp add: page_ref_def page_refs_def assms(7))
  show "moved old ls new s s''"
    using assms(1) same_alloc_trans [OF _ assms(3)] by (simp add: moved_def assms(4,5,8) l2p_def c p)
qed

lemma move_refs_step:
  assumes "wacc X V s" "time_inv s" "0 \<le> old" "old < pages_of s" "old \<in> X" "chain s old = xs @ [l]"
    "\<And>q. q \<in> X \<Longrightarrow> CALC_BLOCK s q \<in> V" "0 \<le> new" "new < pages_of s" "new \<notin> X"
    "0 \<le> page_ref s new" "page_ref s new < 127"
  shows "\<exists>s'. move_refs old new oob s = move_refs old new True s' \<and> wacc X V s' \<and> time_inv s' \<and> chain s' old = xs \<and>
    moved old [l] new s s'"
proof -
  note A = accD [OF assms(1) [unfolded wacc_def]]
  from move_first [OF assms] obtain s2 where
    u: "UPDATE_NEW_PAGE_MAPPING (set_chain s old xs) l new DATA_BLOCK = Some (SUCCESS, s2)"
      "DECREASE_INVERSE_MAPPING s old l = Some (SUCCESS, set_chain s old xs)"
      "acc X V s2 (l2p s2) ((nvm s)(l := 0))" "time_inv s2" "in_nvram s2 = in_nvram s" "0 \<le> l" "l < pages_of s"
      "map_frame s s2" "chain s2 old = xs" "moved old [l] new s s2" "l2p s2 l = new" by blast
  have pm: "ssdparams s2 = ssdparams s" using u(8) by (simp add: map_frame_def same_alloc_def)
  have gi: "GET_INVERSE_MAPPING_INFO s old = Some (inverse_mapping_table s ! nat old)"
    "lpns (inverse_mapping_table s ! nat old) = xs @ [l]"
    using link_inv_entry(1) [OF A(9) assms(3,4)] assms(3,6) by (simp_all add: GET_INVERSE_MAPPING_INFO_def cmem chain_def)
  show ?thesis
  proof (cases oob)
    case False
    have l2: "l < pages_of s2" using u(7) pm by simp
    note f = wacc_flag [OF u(3,5) refl A(3) _ u(6) l2, unfolded pm, OF refl]
    let ?s3 = "s2\<lparr>in_nvram := (in_nvram s2)[nat l := 0]\<rparr>"
    have "move_refs old new oob s = move_refs old new True ?s3"
      by (subst move_refs.simps) (simp add: gi u(1,2) f(1) False Let_def)
    moreover have "time_inv ?s3" using u(4) by (simp add: time_inv_def)
    moreover have "moved old [l] new s ?s3"
      by (rule moved_tail(1) [OF u(10)]) (simp_all add: same_alloc_def live_def)
    ultimately show ?thesis using f(2) u(9) by (intro exI [of _ ?s3]) simp
  next
    case True
    have l2: "l < pages_of s2" and n1: "l2p s2 l \<noteq> - 1" using u(7,11) pm assms(8) by simp_all
    have v0: "((nvm s)(l := 0)) l \<noteq> 1" by simp
    from nvram_entry_acc [OF u(3) u(6) l2 v0 n1] obtain s3 where
      w: "UPDATE_NVRAM_OOB s2 (CALC_BLOCK s2 new) VALID = Some (SUCCESS, s3)"
        "acc X V s3 (l2p s2) ((nvm s)(l := 0, l := 1))" "same_but_nv s2 s3" "devtime s3 = devtime s2" "iostat s3 = iostat s2"
        "\<forall>c. 0 \<le> c \<longrightarrow> c \<noteq> CALC_BLOCK s2 new \<longrightarrow> live s3 c = live s2 c" unfolding u(11) by blast
    note fr = same_but_nv_frame [OF w(3)]
    have e3: "l2p s3 = l2p s2" by (intro ext) (simp add: l2p_def fr)
    have a3: "acc X V s3 (l2p s3) ((nvm s)(l := 1))" using w(2) by (simp add: e3)
    have i3: "in_nvram s3 = in_nvram s" "pages_of s3 = pages_of s" "l < pages_of s3" using fr u(5,7) pm by simp_all
    note f = wacc_flag [OF a3 i3(1) refl A(3) i3(2) u(6) i3(3)]
    let ?s4 = "s3\<lparr>in_nvram := (in_nvram s3)[nat l := 1]\<rparr>"
    have cb: "CALC_BLOCK ?s4 new = CALC_BLOCK s new" "CALC_BLOCK s2 new = CALC_BLOCK s new"
      by (simp_all add: CALC_BLOCK_def fr pm)
    have t4: "time_inv ?s4" using u(4) by (simp add: time_inv_def fr w(4))
    have b: "0 \<le> CALC_BLOCK s new" "CALC_BLOCK s new < block_nb_of ?s4"
      using calc_ranges(3,4) [OF A(7) assms(8,9)] by (simp_all add: fr pm)
    from UPDATE_NVRAM_TS_timed [OF t4 b, of "NVRAM_WRITE_DELAY div 4"] obtain d s5 where
      t: "UPDATE_NVRAM_TS ?s4 (CALC_BLOCK s new) (NVRAM_WRITE_DELAY div 4) = Some (d, s5)" "timed ?s4 s5" "iostat s5 = iostat ?s4"
      by blast
    have sb: "same_but_time ?s4 s5" "time_inv s5" using t(2) by (simp_all add: timed_def)
    note tf = same_but_time_frame [OF sb(1)]
    have "move_refs old new oob s = move_refs old new True s5"
      by (subst move_refs.simps) (use w(1) t(1) in \<open>simp add: gi u(1,2) f(1) True Let_def cb\<close>)
    moreover have "wacc X V s5" by (rule wacc_time(1) [OF f(2) sb(1)])
    moreover have "same_alloc s2 s5"
      using same_alloc_of(3) [OF sb(1)] same_alloc_of(2) [OF w(3)] by (simp add: same_alloc_def)
    then have "moved old [l] new s s5"
      by (intro moved_tail(1) [OF u(10)]) (use w(6) in \<open>simp_all add: tf fr t(3) w(5) live_def cb\<close>)
    moreover have "chain s5 old = xs" using u(9) by (simp add: chain_def tf fr)
    ultimately show ?thesis using sb(2) by (intro exI [of _ s5]) simp
  qed
qed

lemma move_refs_ok:
  assumes "wacc X V s" "time_inv s" "0 \<le> old" "old < pages_of s" "old \<in> X"
    "\<And>q. q \<in> X \<Longrightarrow> CALC_BLOCK s q \<in> V" "0 \<le> new" "new < pages_of s" "new \<notin> X"
    "0 \<le> page_ref s new" "page_ref s new + int (length (chain s old)) \<le> 127"
  shows "\<exists>s'. move_refs old new oob s = Some s' \<and> wacc X V s' \<and> time_inv s' \<and> chain s' old = [] \<and>
    moved old (rev (chain s old)) new s s'"
  using assms
proof (induction "chain s old" arbitrary: s oob rule: rev_induct)
  case Nil
  note A = accD [OF Nil.prems(1) [unfolded wacc_def]]
  have "GET_INVERSE_MAPPING_INFO s old = Some (inverse_mapping_table s ! nat old)"
    "lpns (inverse_mapping_table s ! nat old) = []"
    using link_inv_entry(1) [OF A(9) Nil.prems(3,4)] Nil.prems(3) Nil.hyps
    by (simp_all add: GET_INVERSE_MAPPING_INFO_def cmem chain_def)
  then have "move_refs old new oob s = Some s" by (subst move_refs.simps) simp
  then show ?case using Nil.prems(1,2) Nil.hyps by (intro exI [of _ s]) (simp add: moved_def)
next
  case (snoc l xs)
  have lt: "page_ref s new < 127" using snoc.prems(11) by (simp flip: snoc.hyps(2))
  from move_refs_step [OF snoc.prems(1-5) snoc.hyps(2) [symmetric] snoc.prems(6-10) lt, of oob] obtain s1 where
    m: "move_refs old new oob s = move_refs old new True s1" "wacc X V s1" "time_inv s1" "chain s1 old = xs"
      "moved old [l] new s s1" by auto
  have pm: "ssdparams s1 = ssdparams s" using m(5) by (simp add: moved_def same_alloc_def)
  have pr: "page_ref s1 new = page_ref s new + 1" using m(5) snoc.prems(7) by (simp add: moved_def)
  have 1: "0 \<le> page_ref s1 new" using snoc.prems(10) pr by simp
  have 2: "page_ref s1 new + int (length (chain s1 old)) \<le> 127"
    using snoc.prems(11) pr m(4) by (simp flip: snoc.hyps(2))
  have 3: "CALC_BLOCK s1 q \<in> V" if "q \<in> X" for q using snoc.prems(6) [OF that] pm by (simp add: CALC_BLOCK_def)
  have 4: "old < pages_of s1" "new < pages_of s1" using snoc.prems(4,8) pm by simp_all
  from snoc.hyps(1) [OF m(4) [symmetric] m(2,3) snoc.prems(3) 4(1) snoc.prems(5) 3 snoc.prems(7) 4(2) snoc.prems(9) 1 2, of True]
  obtain s' where s': "move_refs old new True s1 = Some s'" "wacc X V s'" "time_inv s'" "chain s' old = []"
    "moved old (rev xs) new s1 s'" by (auto simp: m(4))
  have "moved old (rev (chain s old)) new s s'"
    using moved_trans [OF m(5) s'(5)] by (simp flip: snoc.hyps(2))
  then show ?case using m(1) s' by simp
qed

subsection \<open>Copying the pages of the victim\<close>

text \<open>
  A relocation keeps which logical pages are mapped and which of them share a physical page, and
  it does not move the pages of other superblocks.
\<close>

definition relocated :: "int set \<Rightarrow> ssdstate \<Rightarrow> ssdstate \<Rightarrow> bool" where
  "relocated B s s' \<longleftrightarrow>
     (\<forall>l. 0 \<le> l \<longrightarrow> l < pages_of s \<longrightarrow>
        (l2p s' l = - 1 \<longleftrightarrow> l2p s l = - 1) \<and> (CALC_BLOCK s (l2p s l) \<notin> B \<longrightarrow> l2p s' l = l2p s l) \<and>
        (\<forall>k. 0 \<le> k \<longrightarrow> k < pages_of s \<longrightarrow> (l2p s' k = l2p s' l \<longleftrightarrow> l2p s k = l2p s l)))"

lemma relocated_refl [simp]: "relocated B s s"
  by (simp add: relocated_def)

lemma relocated_l2p: "l2p s' = l2p s \<Longrightarrow> relocated B s s'"
  by (simp add: relocated_def)

lemma relocated_trans:
  "relocated B s s' \<Longrightarrow> relocated C s' s'' \<Longrightarrow> ssdparams s' = ssdparams s \<Longrightarrow> relocated (B \<union> C) s s''"
  by (simp add: relocated_def CALC_BLOCK_def)

lemma relocated_mono: "relocated B s s' \<Longrightarrow> B \<subseteq> C \<Longrightarrow> relocated C s s'"
  unfolding relocated_def by blast

definition sb_set :: "ssdstate \<Rightarrow> int \<Rightarrow> int set" where
  "sb_set s b = {p. 0 \<le> p \<and> p < pages_of s \<and> CALC_BLOCK s p = b}"

definition fresh :: "int set \<Rightarrow> ssdstate \<Rightarrow> allocator \<Rightarrow> bool" where
  "fresh X s A \<longleftrightarrow> (\<forall>p. 0 \<le> p \<longrightarrow> p < pages_of s \<longrightarrow> p \<notin> X \<longrightarrow>
     (page_ref s p = 0 \<longleftrightarrow> p \<in> free_slots (ssdparams s) A))"

text \<open>
  The state after the pages \<open>D\<close> of superblock \<open>b\<close> have been copied, \<open>n\<close> of them, seen from the state
  \<open>s0\<close> and allocator \<open>A0\<close> before the first copy.
\<close>

definition gc_mid :: "int \<Rightarrow> ssdstate \<Rightarrow> allocator \<Rightarrow> int set \<Rightarrow> int \<Rightarrow> ssdstate \<Rightarrow> allocator \<Rightarrow> bool" where
  "gc_mid b s0 A0 D n s A \<longleftrightarrow>
     wacc (sb_set s0 b) {b} s \<and> time_inv s \<and> alloc_rel s A \<and> xl2p_ppn s = - 1 \<and> ssdparams s = ssdparams s0 \<and>
     b \<notin> set (sbs A0) \<and> set (sbs A) = set (sbs A0) \<and> live s b = 0 \<and> fresh (sb_set s0 b) s A \<and>
     (\<forall>p \<in> sb_set s0 b. page_ref s p = page_ref s0 p \<and> chain s p = (if p \<in> D then [] else chain s0 p)) \<and>
     relocated {b} s0 s \<and>
     int (card (free_slots (ssdparams s0) A)) + n = int (card (free_slots (ssdparams s0) A0)) \<and>
     room_kept (iostat s0) (iostat s) \<and> perf s = perf s0"

lemma free_slot_block:
  assumes "alloc_rel s A" "p \<in> free_slots (ssdparams s) A"
  shows "CALC_BLOCK s p \<in> set (sbs A)"
proof -
  note R = alloc_relD [OF assms(1)]
  obtain b n where b: "p = sb_page (ssdparams s) b n" "0 \<le> n" "n < sb_pages (ssdparams s)" "is_free A b n"
    using assms(2) by (auto simp: free_slots_eq)
  have "0 \<le> b" "b < block_nb_of s" using is_free_range [OF R(2) b(4)] by simp_all
  from sb_page_addr(5) [OF R(1) b(2,3) this] have "CALC_BLOCK s p = b" by (simp add: b(1))
  then show ?thesis using b(4) by (auto simp: is_free_def sbs_def)
qed

lemma moved_relocated:
  assumes "wacc X V s" "0 \<le> old" "old < pages_of s" "CALC_BLOCK s old \<in> B" "0 \<le> new" "new < pages_of s"
    "chain s new = []" "moved old (rev (chain s old)) new s s'"
  shows "relocated B s s'"
proof -
  note c = chain_refs(1) [OF assms(1) [unfolded wacc_def]]
  have l: "l2p s' q = (if l2p s q = old then new else l2p s q)" if "0 \<le> q" "q < pages_of s" for q
    using assms(8) c [OF assms(2,3), of q] that by (simp add: moved_def)
  have n: "l2p s q \<noteq> new" if "0 \<le> q" "q < pages_of s" for q
    using c [OF assms(5,6), of q] that assms(7) by simp
  show ?thesis using l n assms(2,4,5) by (auto simp: relocated_def)
qed

lemma same_alloc_time: "timed s s' \<Longrightarrow> alloc_rel s A \<Longrightarrow> alloc_rel s' A"
  unfolding timed_def by (elim conjE) (rule alloc_rel_same [OF same_alloc_of(3)])

lemma gc_copy_page_ok:
  assumes "gc_mid b s0 A0 D n s A" "0 \<le> f" "f < flash_nb_of s" "0 \<le> i" "i < page_nb_of s" "0 \<le> b" "b < block_nb_of s"
    "free_slots (ssdparams s) A \<noteq> {}" "phys_addr s f b i \<notin> D" "chain s0 (phys_addr s f b i) \<noteq> []"
  shows "\<exists>s' A'. gc_copy_page s f b i = Some (SUCCESS, s') \<and> gc_mid b s0 A0 (insert (phys_addr s f b i) D) (n + 1) s' A'"
proof -
  let ?X = "sb_set s0 b" and ?old = "phys_addr s f b i" and ?c = "ssdparams s"
  have g: "wacc ?X {b} s" "time_inv s" "alloc_rel s A" "xl2p_ppn s = - 1" "ssdparams s0 = ?c" "b \<notin> set (sbs A)"
    "set (sbs A) = set (sbs A0)" "live s b = 0" "fresh ?X s A" "relocated {b} s0 s"
    "int (card (free_slots ?c A)) + n = int (card (free_slots ?c A0))" "room_kept (iostat s0) (iostat s)" "perf s = perf s0"
    and gx: "\<And>p. p \<in> ?X \<Longrightarrow> page_ref s p = page_ref s0 p \<and> chain s p = (if p \<in> D then [] else chain s0 p)"
    using assms(1) unfolding gc_mid_def by (elim conjE, simp)+
  note A = accD [OF g(1) [unfolded wacc_def]] and R = alloc_relD [OF g(3)]
  note a = phys_addr_bounds [OF A(7) assms(2,3,6,7,4,5)] and ca = calc_phys_addr [OF A(7) assms(2,3,6,7,4,5)]
  have oX: "?old \<in> ?X" using a ca(2) by (simp add: sb_set_def CALC_BLOCK_def g(5))
  from new_page_ok [OF g(3) assms(8), of "EMPTY_TABLE_ENTRY_NB ?c"] obtain new s1 A1 where
    p: "GET_NEW_PAGE s VICTIM_OVERALL (EMPTY_TABLE_ENTRY_NB ?c) = Some (Some new, s1)" "alloc_rel s1 A1"
      "same_but_alloc s s1" "new \<in> free_slots ?c A" "free_slots ?c A1 = free_slots ?c A - {new}" "set (sbs A1) = set (sbs A)"
    by blast
  note fr1 = same_but_alloc_frame [OF p(3)]
  have nr: "0 \<le> new" "new < pages_of s" using free_slots_range [OF R(1,2) p(4)] by simp_all
  have nb: "CALC_BLOCK s new \<noteq> b" using free_slot_block [OF g(3) p(4)] g(6) by auto
  then have nX: "new \<notin> ?X" by (simp add: sb_set_def CALC_BLOCK_def g(5))
  have n0: "page_ref s new = 0" using g(9) nr nX p(4) by (simp add: fresh_def)
  then have cn: "chain s new = []" using page_ref_chain(2) [OF A(6) nr nX] by simp
  have t1: "time_inv s1" using g(2) by (simp add: time_inv_def fr1)
  from SSD_PAGE_READ_timed [OF t1 assms(2), of b i] assms(3) fr1(1) obtain d2 s2 where
    r2: "SSD_PAGE_READ s1 f b i = Some (d2, s2)" "timed s1 s2" by auto
  have p2: "ssdparams s2 = ?c" and t2: "time_inv s2"
    using r2(2) same_but_time_frame(1) [of s1 s2] fr1(1) by (simp_all add: timed_def)
  have cn2: "CALC_FLASH s2 new = CALC_FLASH s new" by (simp add: CALC_FLASH_def p2)
  note cr = calc_ranges [OF A(7) nr]
  from SSD_PAGE_WRITE_timed [OF t2 cr(1), of "CALC_BLOCK s2 new" "CALC_PAGE s2 new"] cr(2) p2 obtain d3 s3 where
    r3: "SSD_PAGE_WRITE s2 (CALC_FLASH s2 new) (CALC_BLOCK s2 new) (CALC_PAGE s2 new) = Some (d3, s3)" "timed s2 s3"
    by (auto simp: cn2)
  let ?cnt = "\<lambda>st :: io_stat. st\<lparr>stat_gc_write_count := u32 (stat_gc_write_count st + 1)\<rparr>"
  define s4 where "s4 = stat_tick (upd_iostat ?cnt s3)"
  have t3: "time_inv s3" using r3(2) by (simp add: timed_def)
  have "timed s3 (upd_iostat ?cnt s3)" by (rule timed_iostat [OF t3]) simp_all
  then have "timed s3 s4" using timed_trans [OF _ timed_stat_tick] t3 by (simp add: s4_def)
  then have td: "timed s1 s4" using timed_trans [OF timed_trans [OF r2(2) r3(2)]] by blast
  then have sb: "same_but_time s1 s4" "time_inv s4" "room_kept (iostat s1) (iostat s4)" by (simp_all add: timed_def)
  note fr4 = same_but_time_frame [OF sb(1)]
  have st: "same_tables s s4" by (rule same_tables_trans [OF same_tables_of(2) [OF p(3)] same_tables_of(1) [OF sb(1)]])
  note as = acc_same [OF st]
  have pm: "ssdparams s4 = ?c" by (simp add: fr4 fr1)
  have l4: "l2p s4 = l2p s" "nvm s4 = nvm s" by (intro ext, simp add: as)+
  have w4: "wacc ?X {b} s4" using as(1) g(1) by (simp add: wacc_def l4)
  have al4: "alloc_rel s4 A1" using same_alloc_time [OF td p(2)] .
  have x4: "xl2p_ppn s4 = - 1" by (simp add: fr4 fr1 g(4))
  have XV: "CALC_BLOCK s4 q \<in> {b}" if "q \<in> ?X" for q using that by (simp add: sb_set_def CALC_BLOCK_def pm g(5))
  have co: "chain s4 ?old = chain s0 ?old" using gx [OF oX] assms(9) by (simp add: as(3))
  have le: "page_ref s4 new + int (length (chain s4 ?old)) \<le> 127"
    using link_inv_entry(4) [OF A(9) a(2,3)] by (simp add: as(2,3) n0)
  have rg: "?old < pages_of s4" "new < pages_of s4" "0 \<le> page_ref s4 new" using a nr n0 by (simp_all add: pm as(2))
  from move_refs_ok [OF w4 sb(2) a(2) rg(1) oX XV nr(1) rg(2) nX rg(3) le, of False] obtain s5 where
    m: "move_refs ?old new False s4 = Some s5" "wacc ?X {b} s5" "time_inv s5" "chain s5 ?old = []"
      "moved ?old (rev (chain s4 ?old)) new s4 s5" by blast
  have oa: "old_addr ?c f b i = ?old" using A(7) by (simp add: old_addr_def phys_addr_def wf_conf_def mult.commute mult.left_commute)
  have run: "gc_copy_page s f b i = Some (SUCCESS, s5)"
    using p(1) r2(1) r3(1) m(1) a(2) x4 by (simp add: gc_copy_page_def Let_def s4_def [symmetric] pm oa)
  have mv: "same_alloc s4 s5" "iostat s5 = iostat s4"
    "\<And>q. 0 \<le> q \<Longrightarrow> q \<noteq> ?old \<Longrightarrow> q \<noteq> new \<Longrightarrow> chain s5 q = chain s q"
    "\<And>q. 0 \<le> q \<Longrightarrow> page_ref s5 q = (if q = new then int (length (chain s0 ?old)) else page_ref s q)"
    using m(5) n0 co by (auto simp: moved_def as)
  have p5: "ssdparams s5 = ?c" using mv(1) pm by (simp add: same_alloc_def)
  have rl: "relocated {b} s4 s5"
    by (rule moved_relocated [OF w4 a(2) rg(1) _ nr(1) rg(2) _ m(5)]) (use XV [OF oX] cn in \<open>simp_all add: as(3)\<close>)
  have lv: "live s5 b = 0" using m(5) assms(6) nb g(8) as(6,7) by (simp add: moved_def)
  have fr: "fresh ?X s5 A1"
    using g(9) assms(10) n0 by (auto simp: fresh_def p5 mv(4) p(5))
  have gx': "page_ref s5 q = page_ref s0 q \<and> chain s5 q = (if q \<in> insert ?old D then [] else chain s0 q)" if "q \<in> ?X" for q
  proof -
    have "0 \<le> q" "q \<noteq> new" using that nX by (auto simp: sb_set_def)
    then show ?thesis using gx [OF that] mv(3,4) m(4) by (cases "q = ?old") auto
  qed
  have cd: "int (card (free_slots ?c A1)) + (n + 1) = int (card (free_slots ?c A0))"
    using g(11) p(4,5) finite_free_slots [OF g(3)] card_Suc_Diff1 [OF finite_free_slots [OF g(3)] p(4)] by simp
  have rl2: "relocated {b} s0 s5"
    using relocated_trans [OF relocated_trans [OF g(10) relocated_l2p [OF l4(1), of "{b}"]] rl] by (simp add: g(5) pm)
  have rk: "room_kept (iostat s0) (iostat s5)"
    using g(12) sb(3) by (simp add: mv(2) fr1 room_kept_def)
  have pf: "perf s5 = perf s0" using mv(1) g(13) by (simp add: same_alloc_def fr4 fr1)
  have xl: "xl2p_ppn s5 = - 1" using mv(1) x4 by (simp add: same_alloc_def)
  have "gc_mid b s0 A0 (insert ?old D) (n + 1) s5 A1"
    unfolding gc_mid_def
    using m(2,3) alloc_rel_same [OF mv(1) al4] xl p5 g(5,6,7) p(6) lv fr gx' rl2 cd rk pf by simp
  then show ?thesis using run by blast
qed

lemma block_entry:
  assumes "blk_shape s" "wf_conf (ssdparams s)" "0 \<le> f" "f < flash_nb_of s" "0 \<le> b" "b < block_nb_of s"
  shows "\<exists>e. cread (block_state_table s) (GET_BLOCK_STATE_ENTRY s f b) = Some e \<and>
    e = block_state_table s ! nat (f * block_nb_of s + b) \<and>
    (\<forall>i. 0 \<le> i \<longrightarrow> i < page_nb_of s \<longrightarrow> cread (valid_array e) i = Some (page_ref s (phys_addr s f b i))) \<and>
    valid_page_nb e = int (length (filter (\<lambda>i. 0 < page_ref s (phys_addr s f b i)) (cupto (page_nb_of s))))"
proof -
  note ix = block_index_range [OF assms]
  define e where "e = block_state_table s ! nat (f * block_nb_of s + b)"
  have "nat (f * block_nb_of s + b) < length (block_state_table s)" using ix(2,3) by linarith
  then have "e \<in> set (block_state_table s)" by (simp add: e_def)
  then have e: "int (length (valid_array e)) = page_nb_of s"
    "valid_page_nb e = int (length (filter (\<lambda>v. 0 < v) (valid_array e)))"
    using assms(1) by (simp_all add: blk_shape_def)
  have v: "valid_array e ! nat i = page_ref s (phys_addr s f b i)" if i: "0 \<le> i" "i < page_nb_of s" for i
  proof -
    note a = phys_addr_bounds [OF assms(2-6) i]
    have "phys_addr s f b i div page_nb_of s = f * block_nb_of s + b" "phys_addr s f b i mod page_nb_of s = i"
      unfolding a(1) using i by simp_all
    then show ?thesis using page_ref_nth [OF assms(1,2) a(2,3)] by (simp add: e_def)
  qed
  have m: "valid_array e = map (\<lambda>i. page_ref s (phys_addr s f b i)) (cupto (page_nb_of s))"
  proof (rule nth_equalityI)
    show "length (valid_array e) = length (map (\<lambda>i. page_ref s (phys_addr s f b i)) (cupto (page_nb_of s)))"
      using e(1) by simp
    fix i assume i: "i < length (valid_array e)"
    then have "int i < page_nb_of s" using e(1) by linarith
    then show "valid_array e ! i = map (\<lambda>i. page_ref s (phys_addr s f b i)) (cupto (page_nb_of s)) ! i"
      using v [of "int i"] by (simp add: cupto_def)
  qed
  show ?thesis
  proof (intro exI [of _ e] conjI allI impI)
    show "cread (block_state_table s) (GET_BLOCK_STATE_ENTRY s f b) = Some e" using ix by (simp add: cmem e_def)
    show "cread (valid_array e) i = Some (page_ref s (phys_addr s f b i))" if "0 \<le> i" "i < page_nb_of s" for i
      using v [OF that] e(1) that by (simp add: cmem)
    show "valid_page_nb e = int (length (filter (\<lambda>i. 0 < page_ref s (phys_addr s f b i)) (cupto (page_nb_of s))))"
      by (simp add: e(2) m filter_map comp_def)
  qed (rule e_def)
qed

lemma gc_mid_skip:
  "gc_mid b s0 A0 D n s A \<Longrightarrow> chain s0 p = [] \<Longrightarrow> gc_mid b s0 A0 (insert p D) n s A"
  by (simp add: gc_mid_def)

definition blk_page :: "ssdconf \<Rightarrow> int \<Rightarrow> int \<Rightarrow> int \<Rightarrow> int" where
  "blk_page c b f i = (f * BLOCK_NB c + b) * PAGE_NB c + i"

definition valid_pages :: "ssdstate \<Rightarrow> int \<Rightarrow> int \<Rightarrow> int list \<Rightarrow> int" where
  "valid_pages s b f is = int (length (filter (\<lambda>i. 0 < page_ref s (blk_page (ssdparams s) b f i)) is))"

lemma gc_midD:
  assumes "gc_mid b s0 A0 D n s A" "0 \<le> f" "f < flash_nb_of s0" "0 \<le> i" "i < page_nb_of s0" "0 \<le> b" "b < block_nb_of s0"
  shows "blk_shape s" "wf_conf (ssdparams s)" "ssdparams s = ssdparams s0" "phys_addr s f b i = blk_page (ssdparams s0) b f i"
    "page_ref s (blk_page (ssdparams s0) b f i) = page_ref s0 (blk_page (ssdparams s0) b f i)"
proof -
  have g: "wacc (sb_set s0 b) {b} s" "ssdparams s = ssdparams s0"
    "\<And>p. p \<in> sb_set s0 b \<Longrightarrow> page_ref s p = page_ref s0 p"
    using assms(1) by (simp_all add: gc_mid_def)
  note A = accD [OF g(1) [unfolded wacc_def]]
  show "blk_shape s" "wf_conf (ssdparams s)" "ssdparams s = ssdparams s0" using A(7,10) g(2) by simp_all
  have w: "wf_conf (ssdparams s0)" using A(7) g(2) by simp
  note a = phys_addr_bounds [OF w assms(2,3,6,7,4,5)] and c = calc_phys_addr [OF w assms(2,3,6,7,4,5)]
  have e: "phys_addr s0 f b i = blk_page (ssdparams s0) b f i" unfolding a(1) by (simp add: blk_page_def)
  then show "phys_addr s f b i = blk_page (ssdparams s0) b f i" by (simp add: phys_addr_def g(2))
  show "page_ref s (blk_page (ssdparams s0) b f i) = page_ref s0 (blk_page (ssdparams s0) b f i)"
    using g(3) [of "blk_page (ssdparams s0) b f i"] a c by (simp add: sb_set_def e)
qed

lemma gc_pages_ok:
  assumes "gc_mid b s0 A0 D n s A" "0 \<le> f" "f < flash_nb_of s0" "0 \<le> b" "b < block_nb_of s0"
    "\<forall>i \<in> set is. 0 \<le> i \<and> i < page_nb_of s0 \<and> blk_page (ssdparams s0) b f i \<notin> D" "distinct is"
    "\<And>p. p \<in> sb_set s0 b \<Longrightarrow> chain s0 p \<noteq> [] \<longleftrightarrow> 0 < page_ref s0 p"
    "valid_pages s0 b f is \<le> int (card (free_slots (ssdparams s0) A))"
  shows "\<exists>s' A'. gc_pages f b is k s = Some (SUCCESS, k + valid_pages s0 b f is, s') \<and>
    gc_mid b s0 A0 (D \<union> blk_page (ssdparams s0) b f ` set is) (n + valid_pages s0 b f is) s' A'"
  using assms(1,6,7,9)
proof (induction "is" arbitrary: D n s A k)
  case Nil
  then show ?case by (auto simp: valid_pages_def)
next
  case (Cons i "is")
  let ?p = "blk_page (ssdparams s0) b f i" and ?c = "ssdparams s0"
  have i: "0 \<le> i" "i < page_nb_of s0" "?p \<notin> D" using Cons.prems(2) by simp_all
  note d = gc_midD [OF Cons.prems(1) assms(2,3) i(1,2) assms(4,5)]
  have fb: "f < flash_nb_of s" "b < block_nb_of s" "i < page_nb_of s" using assms(3,5) i(2) d(3) by simp_all
  from block_entry [OF d(1,2) assms(2) fb(1) assms(4) fb(2)] obtain e where
    e: "cread (block_state_table s) (GET_BLOCK_STATE_ENTRY s f b) = Some e" "cread (valid_array e) i = Some (page_ref s0 ?p)"
    using i(1) fb(3) d(4,5) by auto
  have pX: "?p \<in> sb_set s0 b"
    using phys_addr_bounds [OF _ assms(2) fb(1) assms(4) fb(2) i(1) fb(3)] calc_phys_addr(2) [OF _ assms(2) fb(1) assms(4) fb(2) i(1) fb(3)]
      d(2,3,4) by (simp add: sb_set_def CALC_BLOCK_def)
  have sub: "\<forall>j \<in> set is. 0 \<le> j \<and> j < page_nb_of s0 \<and> blk_page ?c b f j \<notin> insert ?p D" "distinct is"
    using Cons.prems(2,3) by (auto simp: blk_page_def)
  have eq: "D \<union> blk_page ?c b f ` set (i # is) = insert ?p D \<union> blk_page ?c b f ` set is" by auto
  show ?case
  proof (cases "0 < page_ref s0 ?p")
    case True
    then have vp: "valid_pages s0 b f (i # is) = valid_pages s0 b f is + 1" by (simp add: valid_pages_def)
    have nn: "0 \<le> valid_pages s0 b f is" by (simp add: valid_pages_def)
    have "int (card (free_slots ?c A)) \<noteq> 0" using Cons.prems(4) vp nn by linarith
    then have ne: "free_slots (ssdparams s) A \<noteq> {}" by (auto simp: d(3))
    have ch: "phys_addr s f b i \<notin> D" "chain s0 (phys_addr s f b i) \<noteq> []" using i(3) assms(8) [OF pX] True by (simp_all add: d(4))
    from gc_copy_page_ok [OF Cons.prems(1) assms(2) fb(1) i(1) fb(3) assms(4) fb(2) ne ch] obtain s1 A1 where
      g: "gc_copy_page s f b i = Some (SUCCESS, s1)" "gc_mid b s0 A0 (insert ?p D) (n + 1) s1 A1" by (auto simp: d(4))
    have "int (card (free_slots ?c A1)) + (n + 1) = int (card (free_slots ?c A)) + n"
      using g(2) Cons.prems(1) d(3) by (simp add: gc_mid_def)
    then have le: "valid_pages s0 b f is \<le> int (card (free_slots ?c A1))" using Cons.prems(4) vp by linarith
    from Cons.IH [OF g(2) sub le, of "k + 1"] show ?thesis
      using e g(1) True by (simp add: vp eq add.assoc add.commute add.left_commute)
  next
    case False
    then have vp: "valid_pages s0 b f (i # is) = valid_pages s0 b f is" by (simp add: valid_pages_def)
    have g: "gc_mid b s0 A0 (insert ?p D) n s A"
      using gc_mid_skip [OF Cons.prems(1)] assms(8) [OF pX] False by simp
    have le: "valid_pages s0 b f is \<le> int (card (free_slots ?c A))" using Cons.prems(4) vp by simp
    from Cons.IH [OF g sub le, of k] show ?thesis using e False by (simp add: vp eq)
  qed
qed

definition sb_valid_pages :: "ssdstate \<Rightarrow> int \<Rightarrow> int list \<Rightarrow> int" where
  "sb_valid_pages s b fs = sum_list (map (\<lambda>f. valid_pages s b f (cupto (page_nb_of s))) fs)"

lemma valid_pages_nonneg: "0 \<le> valid_pages s b f is"
  by (simp add: valid_pages_def)

lemma sb_valid_pages_nonneg: "0 \<le> sb_valid_pages s b fs"
  by (auto simp: sb_valid_pages_def valid_pages_nonneg intro!: sum_list_nonneg)

lemma distinct_cupto [simp]: "distinct (cupto n)"
  by (simp add: cupto_def distinct_map)

lemma blk_page_inj:
  assumes "blk_page c b f i = blk_page c b g j" "0 \<le> i" "i < PAGE_NB c" "0 \<le> j" "j < PAGE_NB c" "0 < BLOCK_NB c"
  shows "f = g \<and> i = j"
proof -
  have "(f * BLOCK_NB c + b) = (g * BLOCK_NB c + b)"
    using arg_cong [OF assms(1), of "\<lambda>x. x div PAGE_NB c"] assms(2-5) by (simp add: blk_page_def)
  then show ?thesis using assms(1,6) by (simp add: blk_page_def)
qed

lemma gc_blocks_ok:
  assumes "gc_mid b s0 A0 D n s A" "0 \<le> b" "b < block_nb_of s0" "distinct fs"
    "\<forall>f \<in> set fs. 0 \<le> f \<and> f < flash_nb_of s0 \<and> (\<forall>i. 0 \<le> i \<longrightarrow> i < page_nb_of s0 \<longrightarrow> blk_page (ssdparams s0) b f i \<notin> D)"
    "\<And>p. p \<in> sb_set s0 b \<Longrightarrow> chain s0 p \<noteq> [] \<longleftrightarrow> 0 < page_ref s0 p"
    "sb_valid_pages s0 b fs \<le> int (card (free_slots (ssdparams s0) A))"
  shows "\<exists>s' A'. gc_blocks b fs k s = Some (SUCCESS, k + sb_valid_pages s0 b fs, s') \<and>
    gc_mid b s0 A0 (D \<union> (\<Union>f \<in> set fs. blk_page (ssdparams s0) b f ` {0..<page_nb_of s0})) (n + sb_valid_pages s0 b fs) s' A'"
  using assms(1,4,5,7)
proof (induction fs arbitrary: D n s A k)
  case Nil
  then show ?case by (auto simp: sb_valid_pages_def)
next
  case (Cons f fs)
  let ?P = "cupto (page_nb_of s0)" and ?c = "ssdparams s0"
  let ?D = "D \<union> blk_page ?c b f ` {0..<page_nb_of s0}" and ?v = "valid_pages s0 b f (cupto (page_nb_of s0))"
  have f: "0 \<le> f" "f < flash_nb_of s0" "\<forall>i \<in> set ?P. 0 \<le> i \<and> i < page_nb_of s0 \<and> blk_page ?c b f i \<notin> D"
    using Cons.prems(3) by auto
  have vp: "sb_valid_pages s0 b (f # fs) = ?v + sb_valid_pages s0 b fs" by (simp add: sb_valid_pages_def)
  have le: "?v \<le> int (card (free_slots ?c A))"
    using Cons.prems(4) vp sb_valid_pages_nonneg [of s0 b fs] by linarith
  have pm: "ssdparams s = ?c" and wa: "wacc (sb_set s0 b) {b} s" using Cons.prems(1) by (simp_all add: gc_mid_def)
  have w: "wf_conf ?c" using accD(7) [OF wa [unfolded wacc_def]] pm by simp
  have B: "0 < block_nb_of s0" "0 < page_nb_of s0" using w by (simp_all add: wf_conf_def)
  from gc_pages_ok [OF Cons.prems(1) f(1,2) assms(2,3) f(3) distinct_cupto assms(6) le, of 0] obtain s1 A1 where
    g: "gc_pages f b ?P 0 s = Some (SUCCESS, ?v, s1)" "gc_mid b s0 A0 ?D (n + ?v) s1 A1" by auto
  note d = gc_midD [OF g(2) f(1,2) order.refl B(2) assms(2,3)]
  have fb: "f < flash_nb_of s1" "b < block_nb_of s1" using f(2) assms(3) d(3) by simp_all
  from block_entry [OF d(1,2) f(1) fb(1) assms(2) fb(2)] obtain e where
    e: "cread (block_state_table s1) (GET_BLOCK_STATE_ENTRY s1 f b) = Some e"
      "valid_page_nb e = int (length (filter (\<lambda>i. 0 < page_ref s1 (phys_addr s1 f b i)) (cupto (page_nb_of s1))))" by blast
  have "filter (\<lambda>i. 0 < page_ref s1 (phys_addr s1 f b i)) ?P = filter (\<lambda>i. 0 < page_ref s0 (blk_page ?c b f i)) ?P"
    by (rule filter_cong [OF refl]) (use gc_midD(4,5) [OF g(2) f(1,2) _ _ assms(2,3)] in simp)
  then have en: "valid_page_nb e = ?v" by (simp add: e(2) d(3) valid_pages_def)
  have sub: "distinct fs"
    "\<forall>g \<in> set fs. 0 \<le> g \<and> g < flash_nb_of s0 \<and> (\<forall>i. 0 \<le> i \<longrightarrow> i < page_nb_of s0 \<longrightarrow> blk_page ?c b g i \<notin> ?D)"
    using Cons.prems(2,3) by (auto dest!: blk_page_inj [OF _ _ _ _ _ B(1)])
  have "int (card (free_slots ?c A1)) + (n + ?v) = int (card (free_slots ?c A)) + n"
    using g(2) Cons.prems(1) by (simp add: gc_mid_def)
  then have le1: "sb_valid_pages s0 b fs \<le> int (card (free_slots ?c A1))" using Cons.prems(4) vp by linarith
  have eq: "D \<union> (\<Union>f \<in> set (f # fs). blk_page ?c b f ` {0..<page_nb_of s0})
      = ?D \<union> (\<Union>f \<in> set fs. blk_page ?c b f ` {0..<page_nb_of s0})" by auto
  from Cons.IH [OF g(2) sub le1, of "k + ?v"] show ?case
    using g(1) e(1) by (simp add: pm en vp eq add.assoc Un_assoc)
qed

lemma sb_set_pages:
  assumes "wf_conf (ssdparams s)" "0 \<le> b" "b < block_nb_of s"
  shows "sb_set s b = (\<Union>f \<in> {0..<flash_nb_of s}. blk_page (ssdparams s) b f ` {0..<page_nb_of s})"
proof (intro equalityI subsetI)
  fix p assume "p \<in> sb_set s b"
  then have p: "0 \<le> p" "p < pages_of s" "CALC_BLOCK s p = b" by (simp_all add: sb_set_def)
  note c = calc_ranges [OF assms(1) p(1,2)]
  have "p = blk_page (ssdparams s) b (CALC_FLASH s p) (CALC_PAGE s p)"
    using calc_compose(2) [OF assms(1) p(1,2)] phys_addr_bounds(1) [OF assms(1) c] p(3) by (simp add: blk_page_def)
  with c show "p \<in> (\<Union>f \<in> {0..<flash_nb_of s}. blk_page (ssdparams s) b f ` {0..<page_nb_of s})" by force
next
  fix p assume "p \<in> (\<Union>f \<in> {0..<flash_nb_of s}. blk_page (ssdparams s) b f ` {0..<page_nb_of s})"
  then obtain f i where f: "0 \<le> f" "f < flash_nb_of s" "0 \<le> i" "i < page_nb_of s" "p = blk_page (ssdparams s) b f i" by auto
  note a = phys_addr_bounds [OF assms(1) f(1,2) assms(2,3) f(3,4)] and c = calc_phys_addr(2) [OF assms(1) f(1,2) assms(2,3) f(3,4)]
  show "p \<in> sb_set s b" using a c by (simp add: sb_set_def f(5) blk_page_def)
qed

lemma sb_valid_count:
  assumes "blk_shape s" "wf_conf (ssdparams s)" "0 \<le> b" "b < block_nb_of s"
  shows "sb_valid s b = sb_valid_pages s b (cupto (flash_nb_of s))"
proof -
  have "valid_page_nb (block_state_table s ! nat (f * block_nb_of s + b)) = valid_pages s b f (cupto (page_nb_of s))"
    if f: "0 \<le> f" "f < flash_nb_of s" for f
  proof -
    have "filter (\<lambda>i. 0 < page_ref s (phys_addr s f b i)) (cupto (page_nb_of s))
        = filter (\<lambda>i. 0 < page_ref s (blk_page (ssdparams s) b f i)) (cupto (page_nb_of s))"
      by (rule filter_cong [OF refl])
        (use phys_addr_bounds(1) [OF assms(2) f assms(3,4)] in \<open>simp add: blk_page_def\<close>)
    then show ?thesis using block_entry [OF assms(1,2) f assms(3,4)] by (auto simp: valid_pages_def)
  qed
  then have "map (\<lambda>f. valid_page_nb (block_state_table s ! nat (f * block_nb_of s + b))) (cupto (flash_nb_of s))
      = map (\<lambda>f. valid_pages s b f (cupto (page_nb_of s))) (cupto (flash_nb_of s))"
    by (intro map_cupto_cong) simp
  then show ?thesis unfolding sb_valid_def sb_valid_pages_def by (rule arg_cong)
qed

subsection \<open>Erasing the victim\<close>

lemma acc_blk:
  assumes "acc X V s m v" "core_inv X' s' (refs_of (pages_of s) m)" "same_but_blk s s'"
  shows "acc X' V s' m v"
proof -
  note fr = same_but_blk_frame [OF assms(3)]
  show ?thesis
    using assms(1,2) by (simp add: acc_def fr nv_inv_def map_shape_def in_dev_def nv_acc_def live_def nv_set_params [OF fr(1)])
qed

definition blk_pages :: "ssdstate \<Rightarrow> int \<Rightarrow> int \<Rightarrow> int set" where
  "blk_pages s b f = {p. 0 \<le> p \<and> p < pages_of s \<and> p div page_nb_of s = f * block_nb_of s + b}"

lemma blk_pages_sb:
  assumes "wf_conf (ssdparams s)" "0 \<le> b" "b < block_nb_of s" "p \<in> sb_set s b" "0 \<le> f" "f < flash_nb_of s"
  shows "p \<in> blk_pages s b f \<longleftrightarrow> CALC_FLASH s p = f"
proof -
  have p: "0 \<le> p" "p < pages_of s" "CALC_BLOCK s p = b" using assms(4) by (simp_all add: sb_set_def)
  note c = calc_ranges [OF assms(1) p(1,2)]
  have e: "p div page_nb_of s = CALC_FLASH s p * block_nb_of s + b"
    using calc_compose(1) [OF assms(1) p(1,2)] calc_eqs [OF assms(1) p(1,2)] p(3)
    by (metis div_mult_mod_eq)
  show ?thesis using p e wf_confD(2) [OF assms(1)] assms(2,3) by (simp add: blk_pages_def)
qed

lemma blk_pages_sub:
  assumes "wf_conf (ssdparams s)" "0 \<le> b" "b < block_nb_of s" "0 \<le> f"
  shows "blk_pages s b f \<subseteq> sb_set s b"
proof
  fix p assume "p \<in> blk_pages s b f"
  then have p: "0 \<le> p" "p < pages_of s" "p div page_nb_of s = f * block_nb_of s + b" by (simp_all add: blk_pages_def)
  have "CALC_BLOCK s p = b" using calc_eqs(2) [OF assms(1) p(1,2)] p(3) assms(2,3) by simp
  then show "p \<in> sb_set s b" using p by (simp add: sb_set_def)
qed

text \<open>The state after the blocks on the flashes below \<open>i\<close> have been erased and returned.\<close>

definition freed :: "allocator \<Rightarrow> int \<Rightarrow> allocator" where
  "freed A b = A\<lparr>free_sbs := free_sbs A @ [b]\<rparr>"

definition erased :: "int \<Rightarrow> ssdstate \<Rightarrow> allocator \<Rightarrow> int \<Rightarrow> ssdstate \<Rightarrow> bool" where
  "erased b s1 A i s \<longleftrightarrow>
     acc {p \<in> sb_set s1 b. i \<le> CALC_FLASH s1 p} {b} s (l2p s1) (nvm s1) \<and> time_inv s \<and> ssdparams s = ssdparams s1 \<and>
     mapping_table s = mapping_table s1 \<and> in_nvram s = in_nvram s1 \<and> NVRAM_OOB_TABLE s = NVRAM_OOB_TABLE s1 \<and>
     (\<forall>q. 0 \<le> q \<longrightarrow> q < pages_of s1 \<longrightarrow>
        page_ref s q = (if q \<in> sb_set s1 b \<and> CALC_FLASH s1 q < i then 0 else page_ref s1 q)) \<and>
     empty_block_list s
       = map (\<lambda>f. empty_root (flash_nb_of s1) (if f < i then freed A b else A) f) (cupto (flash_nb_of s1)) \<and>
     total_empty_block_nb s = total_empty_block_nb s1 + i \<and>
     victim_block_list s = victim_block_list s1 \<and> total_victim_block_nb s = total_victim_block_nb s1 \<and>
     empty_block_table_index s = empty_block_table_index s1 \<and> sb_deb s = sb_deb s1 \<and> xl2p_ppn s = xl2p_ppn s1 \<and>
     perf s = perf s1 \<and> room_kept (iostat s1) (iostat s)"

lemma gc_erase_step:
  assumes "erased b s1 A f s" "alloc_rel s1 A" "0 \<le> f" "f < flash_nb_of s1" "0 \<le> b" "b < block_nb_of s1"
    "\<And>l. 0 \<le> l \<Longrightarrow> l < pages_of s1 \<Longrightarrow> l2p s1 l \<notin> sb_set s1 b"
  shows "\<exists>s'. gc_erase b f s = Some s' \<and> erased b s1 A (f + 1) s'"
proof -
  let ?X = "\<lambda>i. {p \<in> sb_set s1 b. i \<le> CALC_FLASH s1 p}" and ?F = "flash_nb_of s1"
  have e: "acc (?X f) {b} s (l2p s1) (nvm s1)" "time_inv s" "ssdparams s = ssdparams s1"
     "mapping_table s = mapping_table s1" "in_nvram s = in_nvram s1" "NVRAM_OOB_TABLE s = NVRAM_OOB_TABLE s1"
     "empty_block_list s = map (\<lambda>g. empty_root ?F (if g < f then freed A b else A) g) (cupto ?F)"
     "total_empty_block_nb s = total_empty_block_nb s1 + f"
     "victim_block_list s = victim_block_list s1" "total_victim_block_nb s = total_victim_block_nb s1"
     "empty_block_table_index s = empty_block_table_index s1" "sb_deb s = sb_deb s1" "xl2p_ppn s = xl2p_ppn s1"
     "perf s = perf s1" "room_kept (iostat s1) (iostat s)"
    and ep: "\<And>q. 0 \<le> q \<Longrightarrow> q < pages_of s1 \<Longrightarrow>
        page_ref s q = (if q \<in> sb_set s1 b \<and> CALC_FLASH s1 q < f then 0 else page_ref s1 q)"
    using assms(1) by (simp_all add: erased_def)
  note R = alloc_relD [OF assms(2)]
  have w: "wf_conf (ssdparams s1)" using sb_confD(1) [OF R(1)] .
  from SSD_BLOCK_ERASE_timed [OF e(2) assms(3), of b] assms(4) e(3) obtain s2 where
    s2: "SSD_BLOCK_ERASE s f b = Some (SUCCESS, s2)" "timed s s2" by auto
  have tb: "same_but_time s s2" "time_inv s2" "room_kept (iostat s) (iostat s2)" using s2(2) by (simp_all add: timed_def)
  note fr2 = same_but_time_frame [OF tb(1)]
  note as2 = acc_same [OF same_tables_of(1) [OF tb(1)]]
  have a2: "acc (?X f) {b} s2 (l2p s1) (nvm s1)" using as2(1) e(1) .
  have p2: "ssdparams s2 = ssdparams s1" by (simp add: fr2 e(3))
  have bp: "p \<in> blk_pages s1 b f" if "0 \<le> p" "p < pages_of s2" "p div page_nb_of s2 = f * block_nb_of s2 + b" for p
    using that by (simp add: blk_pages_def p2)
  have E: "refs_of (pages_of s2) (l2p s1) p l = 0"
    if "0 \<le> p" "p < pages_of s2" "p div page_nb_of s2 = f * block_nb_of s2 + b" for p l
    using bp [OF that] blk_pages_sub [OF w assms(5,6,3)] assms(7) [of l] by (auto simp: refs_of_def p2)
  have fb: "f < flash_nb_of s2" "b < block_nb_of s2" using assms(4,6) p2 by simp_all
  from erase_block_inv [OF accD(1) [OF a2] assms(3) fb(1) assms(5) fb(2) E] obtain s3 where
    s3: "UPDATE_BLOCK_STATE s2 f b EMPTY_BLOCK = Some (SUCCESS, s3)"
      "core_inv (?X f - {p. p div page_nb_of s2 = f * block_nb_of s2 + b}) s3 (refs_of (pages_of s2) (l2p s1))"
      "same_but_blk s2 s3"
      "\<And>p. 0 \<le> p \<Longrightarrow> p < pages_of s2 \<Longrightarrow>
         page_ref s3 p = (if p div page_nb_of s2 = f * block_nb_of s2 + b then 0 else page_ref s2 p)" by blast
  note fr3 = same_but_blk_frame [OF s3(3)]
  have div: "p div page_nb_of s1 = f * block_nb_of s1 + b \<longleftrightarrow> p \<in> sb_set s1 b \<and> CALC_FLASH s1 p = f"
    if "0 \<le> p" "p < pages_of s1" for p
    using blk_pages_sb [OF w assms(5,6) _ assms(3,4), of p] blk_pages_sub [OF w assms(5,6,3)] that
    by (auto simp: blk_pages_def)
  have X: "?X f - {p. p div page_nb_of s2 = f * block_nb_of s2 + b} = ?X (f + 1)"
    using div by (force simp: p2 sb_set_def)
  have a3: "acc (?X (f + 1)) {b} s3 (l2p s1) (nvm s1)" by (rule acc_blk [OF a2 _ s3(3)]) (use s3(2) X in simp)
  have g: "(if f < f then freed A b else A) = A" by simp
  have len: "int (length (free_sbs A)) < 2 ^ 31"
    using sb_lengths(1) [OF R(2,1)] by simp
  have sc: "sb_conf (ssdparams s3)" "f < flash_nb_of s3" using R(1) fr3 p2 fb by simp_all
  have el: "empty_block_list s3 = map (\<lambda>g. empty_root (flash_nb_of s3) (if g < f then freed A b else A) g) (cupto (flash_nb_of s3))"
    using e(7) by (simp add: fr3 fr2 e(3))
  from INSERT_EMPTY_BLOCK_ok [OF sc(1) assms(3) sc(2) len el, of b]
  have ins: "INSERT_EMPTY_BLOCK s3 f b = Some (SUCCESS, s3\<lparr>empty_block_list :=
      map ((\<lambda>g. empty_root (flash_nb_of s3) (if g < f then freed A b else A) g)(f := empty_root (flash_nb_of s3) (freed A b) f)) (cupto (flash_nb_of s3)),
      total_empty_block_nb := total_empty_block_nb s3 + 1\<rparr>)" (is "_ = Some (_, ?s4)")
    by (simp add: freed_def)
  have el4: "empty_block_list ?s4 = map (\<lambda>g. empty_root ?F (if g < f + 1 then freed A b else A) g) (cupto ?F)"
    using p2 fr3(1) by (auto intro!: map_cupto_cong)
  have run: "gc_erase b f s = Some ?s4" using s2(1) s3(1) ins by (simp add: gc_erase_def)
  have st4: "same_tables s3 ?s4" by (simp add: same_tables_def)
  have pr4: "page_ref ?s4 q = (if q \<in> sb_set s1 b \<and> CALC_FLASH s1 q < f + 1 then 0 else page_ref s1 q)"
    if q: "0 \<le> q" "q < pages_of s1" for q
    using s3(4) [of q] div [OF q] ep [OF q] as2(2) acc_same(2) [OF st4] q by (auto simp: p2)
  have "erased b s1 A (f + 1) ?s4"
    unfolding erased_def
    using acc_same(1) [OF st4 a3] tb pr4 el4 e
    by (simp add: fr3 fr2 time_inv_def room_kept_def)
  then show ?thesis using run by blast
qed

text \<open>Sets of slots of the enlarged allocator.\<close>

lemma freed_wf:
  assumes "sb_conf c" "alloc_wf c A" "0 \<le> b" "b < BLOCK_NB c" "b \<notin> set (sbs A)"
  shows "alloc_wf c (freed A b)" "set (sbs (freed A b)) = insert b (set (sbs A))"
    "free_slots c (freed A b) = free_slots c A \<union> {sb_page c b n | n. 0 \<le> n \<and> n < sb_pages c}"
  using assms by (auto simp: alloc_wf_def sbs_def freed_def free_slots_def)

lemma sb_set_slots:
  assumes "sb_conf (ssdparams s)" "0 \<le> b" "b < block_nb_of s"
  shows "sb_set s b = {sb_page (ssdparams s) b n | n. 0 \<le> n \<and> n < sb_pages (ssdparams s)}"
proof (intro equalityI subsetI)
  fix p assume "p \<in> sb_set s b"
  then obtain f i where f: "0 \<le> f" "f < flash_nb_of s" "0 \<le> i" "i < page_nb_of s" "p = blk_page (ssdparams s) b f i"
    using sb_set_pages [OF sb_confD(1) [OF assms(1)] assms(2,3)] by auto
  let ?n = "i * flash_nb_of s + f"
  have n: "?n mod flash_nb_of s = f" "?n div flash_nb_of s = i" using f(1,2) by simp_all
  have "i * flash_nb_of s \<le> (page_nb_of s - 1) * flash_nb_of s" using f by (intro mult_right_mono) auto
  then have "?n < sb_pages (ssdparams s)" using f(2) by (simp add: sb_pages_def algebra_simps)
  moreover have "p = sb_page (ssdparams s) b ?n" using n by (simp add: sb_page_def f(5) blk_page_def)
  moreover have "0 \<le> ?n" using f by simp
  ultimately show "p \<in> {sb_page (ssdparams s) b n | n. 0 \<le> n \<and> n < sb_pages (ssdparams s)}" by blast
next
  fix p assume "p \<in> {sb_page (ssdparams s) b n | n. 0 \<le> n \<and> n < sb_pages (ssdparams s)}"
  then show "p \<in> sb_set s b" using sb_page_addr(2,3,5) [OF assms(1) _ _ assms(2,3)] by (auto simp: sb_set_def)
qed

lemma gc_erase_all:
  assumes "alloc_rel s1 A" "0 \<le> b" "b < block_nb_of s1" "b \<notin> set (sbs A)"
    "acc (sb_set s1 b) {b} s1 (l2p s1) (nvm s1)" "time_inv s1"
    "\<And>l. 0 \<le> l \<Longrightarrow> l < pages_of s1 \<Longrightarrow> l2p s1 l \<notin> sb_set s1 b" "live s1 b = 0" "fresh (sb_set s1 b) s1 A"
  shows "\<exists>s'. foldM (gc_erase b) (cupto (flash_nb_of s1)) s1 = Some s' \<and> map_inv s' \<and> time_inv s' \<and>
    alloc_rel s' (freed A b) \<and> fresh {} s' (freed A b) \<and> l2p s' = l2p s1 \<and> ssdparams s' = ssdparams s1 \<and>
    xl2p_ppn s' = xl2p_ppn s1 \<and> perf s' = perf s1 \<and> room_kept (iostat s1) (iostat s')"
proof -
  let ?F = "flash_nb_of s1"
  note R = alloc_relD [OF assms(1)]
  have w: "wf_conf (ssdparams s1)" using sb_confD(1) [OF R(1)] .
  have fl: "0 \<le> CALC_FLASH s1 p \<and> CALC_FLASH s1 p < ?F" if "p \<in> sb_set s1 b" for p
    using that calc_ranges(1,2) [OF w] by (simp add: sb_set_def)
  have X: "{p \<in> sb_set s1 b. 0 \<le> CALC_FLASH s1 p} = sb_set s1 b" "{p \<in> sb_set s1 b. ?F \<le> CALC_FLASH s1 p} = {}"
    using fl by force+
  have n0: "q \<in> sb_set s1 b \<Longrightarrow> \<not> CALC_FLASH s1 q < 0" for q using fl [of q] by simp
  have i0: "erased b s1 A 0 s1"
    unfolding erased_def X(1) using assms(5,6) R(3) n0 by (auto intro!: map_cupto_cong)
  have "\<exists>s'. foldM (gc_erase b) (cupto ?F) s1 = Some s' \<and> erased b s1 A ?F s'"
    by (rule for_rule [where Q = "erased b s1 A", OF _ i0])
      (use w gc_erase_step [OF _ assms(1) _ _ assms(2,3,7)] in \<open>auto simp: wf_conf_def\<close>)
  then obtain s' where s': "foldM (gc_erase b) (cupto ?F) s1 = Some s'" "erased b s1 A ?F s'" by blast
  have e: "acc {} {b} s' (l2p s1) (nvm s1)" "time_inv s'" "ssdparams s' = ssdparams s1"
     "mapping_table s' = mapping_table s1" "in_nvram s' = in_nvram s1" "NVRAM_OOB_TABLE s' = NVRAM_OOB_TABLE s1"
     "empty_block_list s' = map (\<lambda>g. empty_root ?F (if g < ?F then freed A b else A) g) (cupto ?F)"
     "total_empty_block_nb s' = total_empty_block_nb s1 + ?F"
     "victim_block_list s' = victim_block_list s1" "total_victim_block_nb s' = total_victim_block_nb s1"
     "empty_block_table_index s' = empty_block_table_index s1" "sb_deb s' = sb_deb s1" "xl2p_ppn s' = xl2p_ppn s1"
     "perf s' = perf s1" "room_kept (iostat s1) (iostat s')"
    and ep: "\<And>q. 0 \<le> q \<Longrightarrow> q < pages_of s1 \<Longrightarrow>
        page_ref s' q = (if q \<in> sb_set s1 b \<and> CALC_FLASH s1 q < ?F then 0 else page_ref s1 q)"
    using s'(2) unfolding erased_def X(2) by simp_all
  have el: "empty_block_list s' = map (empty_root ?F (freed A b)) (cupto ?F)"
    unfolding e(7) by (rule map_cupto_cong) simp
  note fw = freed_wf [OF R(1,2) assms(2,3,4)]
  have ar: "alloc_rel s' (freed A b)"
    unfolding alloc_rel_def
    using R fw(1) el e by (auto simp: freed_def open_state_def victim_root_def [abs_def] distrib_left split: option.splits)
  have lp: "l2p s' = l2p s1" "nvm s' = nvm s1" by (intro ext, simp add: l2p_def nvm_def e(4,5))+
  have "nv_set s' (l2p s1) (nvm s1) b = {}"
  proof -
    have "CALC_BLOCK s' (l2p s1 l) \<noteq> b" if "0 \<le> l" "l < pages_of s1" "l2p s1 l \<noteq> - 1" for l
      using assms(7) [OF that(1,2)] accD(4) [OF assms(5)] that by (auto simp: in_dev_def sb_set_def CALC_BLOCK_def e(3))
    then show ?thesis by (auto simp: nv_set_def e(3))
  qed
  moreover have "live s' b = 0" using assms(8) by (simp add: live_def e(6))
  ultimately have "nv_acc {} s' (l2p s1) (nvm s1)"
    using accD(5) [OF e(1)] by (auto simp: nv_acc_def)
  then have mi: "map_inv s'" using e(1) by (simp add: map_inv_def acc_def lp)
  have "fresh {} s' (freed A b)"
    using assms(9) ep fl fw(3) sb_set_slots [OF R(1) assms(2,3)]
    by (auto simp: fresh_def e(3))
  then show ?thesis using s'(1) mi e(2) ar lp e(3,13-15) by blast
qed

subsection \<open>The phases of a collection\<close>

lemma add_time_timed:
  assumes "time_inv s" "\<And>g st. stat_NVRAMGC_print (upd g st) = stat_NVRAMGC_print st"
    "\<And>g st. stat_GCRNVRAM_print (upd g st) = stat_GCRNVRAM_print st"
    "\<And>g st. stat_write_req_print (upd g st) = stat_write_req_print st"
  shows "timed s (add_time upd start s)"
proof -
  obtain now s1 where c: "read_clock TS_NS s = (now, s1)" by (cases "read_clock TS_NS s")
  then have s1: "timed s s1" using timed_clock [OF assms(1), of TS_NS] by simp
  then have "timed s1 (upd_iostat (upd (\<lambda>t. t + (now - start))) s1)"
    by (intro timed_iostat) (simp_all add: timed_def assms)
  then show ?thesis using timed_trans [OF s1] by (simp add: add_time_def c)
qed

lemma gc_slot_of_ok:
  assumes "time_inv s" "sb_conf (ssdparams s)" "0 \<le> f" "f < flash_nb_of s" "0 \<le> b"
  shows "\<exists>k. gc_slot_of (ssdparams s) f b = Some k \<and> 0 \<le> k \<and> k < int (length (gc_slot (devtime s)))"
proof -
  note T = time_invD [OF assms(1)] and C = sb_confD [OF assms(2)]
  have "s32 f = f" "u32 1 = 1" using assms(3,4) C(6) by (simp_all add: cint)
  then show ?thesis
    using T C assms(3-5) channel_of_ok [OF T(1) assms(3)]
    by (auto simp: gc_slot_of_def gc_slots_def split: if_splits)
qed

lemma gc_occupy_timed:
  assumes "time_inv s" "sb_conf (ssdparams s)" "0 \<le> f" "f < flash_nb_of s" "0 \<le> b"
  shows "\<exists>s'. gc_occupy b n f s = Some s' \<and> timed s s'"
proof -
  obtain k where k: "gc_slot_of (ssdparams s) f b = Some k" "0 \<le> k" "k < int (length (gc_slot (devtime s)))"
    using gc_slot_of_ok [OF assms] by blast
  obtain now s1 where c: "read_clock USEC s = (now, s1)" by (cases "read_clock USEC s")
  then have s1: "timed s s1" using timed_clock [OF assms(1), of USEC] by simp
  have g: "gc_slot (devtime s1) = gc_slot (devtime s)" using read_clock_time(7) [of USEC s] c by simp
  let ?t = "gc_slot (devtime s) ! nat k"
  let ?ts = "(gc_slot (devtime s))[nat k := slot_reserve now ?t (s32 (BLOCK_ERASE_DELAY (ssdparams s) + n * 920 + 64 * 920))]"
  let ?s2 = "upd_devtime (\<lambda>dt. dt\<lparr>gc_slot := ?ts\<rparr>) s1"
  have "time_inv s1" using s1 by (simp add: timed_def)
  then have t2: "time_inv ?s2" using g by (simp add: time_inv_def time_shape_def upd_devtime_def)
  then have s2: "timed s1 ?s2" by (simp add: timed_def) (simp add: upd_devtime_def)
  have "timed ?s2 (upd_iostat (\<lambda>st. st\<lparr>stacking_gc_count := s32 (stacking_gc_count st + 1)\<rparr>) ?s2)"
    by (rule timed_iostat [OF t2]) simp_all
  then show ?thesis
    using timed_trans [OF timed_trans [OF s1 s2]] timed_trans [OF s1 s2] k c g
    by (auto simp: gc_occupy_def Let_def cmem)
qed

lemma gc_occupy_all:
  assumes "time_inv s" "sb_conf (ssdparams s)" "0 \<le> b"
  shows "\<exists>s'. foldM (gc_occupy b n) (cupto (flash_nb_of s)) s = Some s' \<and> timed s s'"
proof (rule for_rule [where Q = "\<lambda>i s'. timed s s'"])
  show "0 \<le> flash_nb_of s" using sb_confD(3) [OF assms(2)] by simp
  show "timed s s" by (rule timed_refl [OF assms(1)])
  fix i s' assume i: "0 \<le> i" "i < flash_nb_of s" and t: "timed s s'"
  then have "time_inv s'" "ssdparams s' = ssdparams s" using same_but_time_frame(1) [of s s'] by (simp_all add: timed_def)
  then show "\<exists>s''. gc_occupy b n i s' = Some s'' \<and> timed s s''"
    using gc_occupy_timed [of s' i b n] assms(2,3) i timed_trans [OF t] by auto
qed

lemma any_valid_ok:
  assumes "blk_shape s" "wf_conf (ssdparams s)" "0 \<le> b" "b < block_nb_of s" "\<forall>f \<in> set fs. 0 \<le> f \<and> f < flash_nb_of s"
  shows "\<exists>x. any_valid s b fs = Some x"
  using assms(5)
proof (induction fs)
  case Nil
  show ?case by (intro exI [of _ False]) simp
next
  case (Cons f fs)
  then obtain x where "any_valid s b fs = Some x" by auto
  moreover obtain e where "cread (block_state_table s) (GET_BLOCK_STATE_ENTRY s f b) = Some e"
    using block_entry [OF assms(1,2) _ _ assms(3,4), of f] Cons.prems by auto
  ultimately show ?case by (intro exI [of _ "0 < valid_page_nb e \<or> x"]) simp
qed

lemma gc_read_oob_ok:
  assumes "blk_shape s" "nv_inv s" "time_inv s" "sb_conf (ssdparams s)" "0 \<le> b" "b < block_nb_of s"
  shows "\<exists>d s'. gc_read_oob s b = Some (d, s') \<and> timed s s'"
proof -
  note C = sb_confD [OF assms(4)] and N = nv_invD [OF assms(2,5,6)]
  have fs: "\<forall>f \<in> set (cupto (sb_blk_nb (ssdparams s))). 0 \<le> f \<and> f < flash_nb_of s" using C(2) by (simp add: sb_blk_nb_def)
  obtain x where x: "any_valid s b (cupto (sb_blk_nb (ssdparams s))) = Some x"
    using any_valid_ok [OF assms(1) C(1) assms(5,6) fs] by blast
  have rd: "cread (NVRAM_OOB_TABLE s) b = Some (NVRAM_OOB_TABLE s ! nat b)" using N assms(5) by (simp add: cmem)
  let ?seg = "NVRAM_OOB_TABLE s ! nat b"
  let ?t = "((alloc_seg ?seg * OOB_ENTRY_PER_SEG - free_entry ?seg) * OOB_ENTRY_BYTES * NVRAM_READ_DELAY) sdiv 64"
  have "gc_read_oob s b = (if x \<and> 0 < alloc_seg ?seg then UPDATE_NVRAM_TS s b ?t else Some (0, s))"
    by (simp only: gc_read_oob_def x rd bind.bind_lunit)
  then show ?thesis
    using UPDATE_NVRAM_TS_timed [OF assms(3,5,6), of ?t] timed_refl [OF assms(3)]
    by (cases "x \<and> 0 < alloc_seg ?seg") auto
qed

lemma gc_block_flash_ok:
  assumes "time_inv s" "room n (Suc r) w s"
  shows "\<exists>s'. gc_block_flash s d = Some s' \<and> same_but_time s s' \<and> time_inv s' \<and> room n r w s'"
proof (cases "0 < d")
  case True
  from UPDATE_FLASH_TS_timed [OF assms(1), of d] obtain s1 where
    s1: "UPDATE_FLASH_TS s d = Some s1" "timed s s1" "iostat s1 = iostat s" by blast
  define pr where "pr = stat_GCRNVRAM_print (iostat s) + 1"
  have pr: "u32 pr = pr" "pr \<noteq> 0" using assms(2) by (simp_all add: pr_def print_room_def cint)
  let ?dl = "u64 (stat_GCRNVRAM_delay_print (iostat s) + d)"
  let ?s2 = "upd_iostat (\<lambda>st. st\<lparr>stat_GCRNVRAM_print := pr, stat_GCRNVRAM_delay_print := ?dl,
      stat_avg_GCRNVRAM_delay := ?dl div pr\<rparr>) s1"
  have "gc_block_flash s d = Some ?s2" using True s1(1,3) pr by (simp add: gc_block_flash_def Let_def pr_def)
  moreover have "room n r w ?s2" using assms(2) s1(3) by (simp add: print_room_def upd_iostat_def pr_def)
  moreover have "same_but_time s ?s2" "time_inv ?s2"
    using s1(2) same_but_time_trans [OF _ same_but_time_upd(1)] by (auto simp: timed_def)
  ultimately show ?thesis by blast
next
  case False
  have "room n r w s" using assms(2) by (rule print_room_mono) simp_all
  then show ?thesis using False assms(1) by (intro exI [of _ s]) (simp add: gc_block_flash_def)
qed

subsection \<open>The device invariant\<close>

text \<open>
  Between operations: the tables agree with each other, the lists represent an allocator that owns
  every superblock, and the pages that were never written since their last erase are exactly the
  ones the allocator can still hand out.
\<close>

definition dev_inv :: "ssdstate \<Rightarrow> allocator \<Rightarrow> bool" where
  "dev_inv s A \<longleftrightarrow> map_inv s \<and> time_inv s \<and> alloc_rel s A \<and> fresh {} s A \<and>
     set (sbs A) = {0..<block_nb_of s} \<and> xl2p_ppn s = - 1"

lemma dev_invD:
  assumes "dev_inv s A"
  shows "map_inv s" "time_inv s" "alloc_rel s A" "fresh {} s A" "set (sbs A) = {0..<block_nb_of s}" "xl2p_ppn s = - 1"
    "sb_conf (ssdparams s)" "wf_conf (ssdparams s)" "blk_shape s" "nv_inv s" "alloc_wf (ssdparams s) A"
proof -
  show *: "map_inv s" "time_inv s" "alloc_rel s A" "fresh {} s A" "set (sbs A) = {0..<block_nb_of s}" "xl2p_ppn s = - 1"
    using assms by (simp_all add: dev_inv_def)
  show "sb_conf (ssdparams s)" "alloc_wf (ssdparams s) A" using alloc_relD [OF *(3)] by simp_all
  show "wf_conf (ssdparams s)" "blk_shape s" "nv_inv s" using accD [OF *(1) [unfolded map_inv_def]] by simp_all
qed

text \<open>The state in which a superblock has been taken out of the victim lists.\<close>

definition victim_taken :: "int \<Rightarrow> ssdstate \<Rightarrow> allocator \<Rightarrow> bool" where
  "victim_taken b s A \<longleftrightarrow> map_inv s \<and> time_inv s \<and> alloc_rel s A \<and> fresh {} s A \<and>
     set (sbs A) = {0..<block_nb_of s} - {b} \<and> xl2p_ppn s = - 1 \<and> 0 \<le> b \<and> b < block_nb_of s"

lemma time_tables:
  assumes "same_but_time s s'"
  shows "map_inv s \<Longrightarrow> map_inv s'" "l2p s' = l2p s" "fresh X s A \<Longrightarrow> fresh X s' A" "sb_valid s' b = sb_valid s b"
    "page_ref s' q = page_ref s q" "blk_shape s' = blk_shape s" "CALC_BLOCK s' q = CALC_BLOCK s q"
proof -
  note t = acc_same [OF same_tables_of(1) [OF assms]] and fr = same_but_time_frame [OF assms]
  show e: "l2p s' = l2p s" by (intro ext) (rule t(4))
  have "nvm s' = nvm s" by (intro ext) (rule t(5))
  then show "map_inv s \<Longrightarrow> map_inv s'" using t(1) by (simp add: map_inv_def e)
  show "fresh X s A \<Longrightarrow> fresh X s' A" by (simp add: fresh_def t(2) fr)
  show "sb_valid s' b = sb_valid s b" by (simp add: sb_valid_def fr)
  show "page_ref s' q = page_ref s q" "CALC_BLOCK s' q = CALC_BLOCK s q" by (rule t)+
  show "blk_shape s' = blk_shape s" by (simp add: blk_shape_def fr)
qed

lemma victim_taken_time:
  "victim_taken b s A \<Longrightarrow> same_but_time s s' \<Longrightarrow> time_inv s' \<Longrightarrow> victim_taken b s' A"
  by (simp add: victim_taken_def time_tables same_but_time_frame alloc_rel_same [OF same_alloc_of(3)])

lemma dev_inv_time:
  "dev_inv s A \<Longrightarrow> same_but_time s s' \<Longrightarrow> time_inv s' \<Longrightarrow> dev_inv s' A"
  by (simp add: dev_inv_def time_tables same_but_time_frame alloc_rel_same [OF same_alloc_of(3)])

lemma acc_mono:
  assumes "acc X V s m v" "X \<subseteq> X'" "V \<subseteq> V'"
  shows "acc X' V' s m v"
  using assms core_inv_mono [OF accD(1) [OF assms(1)] assms(2)] by (auto simp: acc_def nv_acc_def)

text \<open>Dropping the NVRAM entries of the victim starts the copying.\<close>

lemma gc_start:
  assumes "victim_taken b s A"
  shows "\<exists>s'. UPDATE_NVRAM_OOB s b 0 = Some (SUCCESS, s') \<and> gc_mid b s' A {} 0 s' A \<and> l2p s' = l2p s \<and>
    (\<forall>p. p \<in> sb_set s' b \<longrightarrow> (chain s' p \<noteq> [] \<longleftrightarrow> 0 < page_ref s' p)) \<and> sb_valid s' b = sb_valid s b \<and>
    iostat s' = iostat s \<and> perf s' = perf s \<and> ssdparams s' = ssdparams s \<and> blk_shape s'"
proof -
  have v: "map_inv s" "time_inv s" "alloc_rel s A" "fresh {} s A" "set (sbs A) = {0..<block_nb_of s} - {b}"
    "xl2p_ppn s = - 1" "0 \<le> b" "b < block_nb_of s" using assms by (simp_all add: victim_taken_def)
  note A = accD [OF v(1) [unfolded map_inv_def]]
  from UPDATE_NVRAM_OOB_reset [OF A(2) v(7,8)] obtain s' where
    u: "UPDATE_NVRAM_OOB s b 0 = Some (SUCCESS, s')" "nv_inv s'" "same_but_nv s s'" "devtime s' = devtime s" "iostat s' = iostat s"
      "\<forall>c. 0 \<le> c \<longrightarrow> live s' c = (if c = b then 0 else live s c)" by blast
  note fr = same_but_nv_frame [OF u(3)]
  have l: "l2p s' = l2p s" "nvm s' = nvm s" by (intro ext, simp add: l2p_def nvm_def fr)+
  have m0: "acc (sb_set s b) {b} s (l2p s) (nvm s)" by (rule acc_mono [OF v(1) [unfolded map_inv_def]]) simp_all
  have lv: "live s' c = int (card (nv_set s (l2p s) (nvm s) c))" if "0 \<le> c" "c < block_nb_of s" "c \<notin> {b}" for c
    using u(6) A(5) that by (simp add: nv_acc_def)
  note an = acc_nv [OF m0 u(3,2) lv refl]
  have X: "sb_set s' b = sb_set s b" by (simp add: sb_set_def CALC_BLOCK_def fr)
  have pr: "page_ref s' q = page_ref s q" and ch: "chain s' q = chain s q" for q using an(2,3) by simp_all
  have "alloc_rel s' A" by (rule alloc_rel_same [OF same_alloc_of(2) [OF u(3)] v(3)])
  moreover have "time_inv s'" using v(2) by (simp add: time_inv_def fr u(4))
  moreover have "fresh (sb_set s b) s' A" using v(4) by (simp add: fresh_def pr fr)
  ultimately have "gc_mid b s' A {} 0 s' A"
    using an(1) v(5,6) u(6) v(7) by (simp add: gc_mid_def wacc_def X l fr)
  moreover have "chain s' p \<noteq> [] \<longleftrightarrow> 0 < page_ref s' p" if "p \<in> sb_set s' b" for p
    using page_ref_chain(3) [OF A(6), of p] that [unfolded X] by (simp add: sb_set_def pr ch)
  moreover have "blk_shape s'" "sb_valid s' b = sb_valid s b" using A(10) by (simp_all add: blk_shape_def sb_valid_def fr)
  ultimately show ?thesis using u(1,5) l(1) fr by (intro exI [of _ s']) simp
qed

lemma gc_mid_clean:
  assumes "gc_mid b s0 A0 (sb_set s0 b) n s A" "0 \<le> l" "l < pages_of s"
  shows "l2p s l \<notin> sb_set s b" "sb_set s b = sb_set s0 b"
proof -
  have g: "wacc (sb_set s0 b) {b} s" "ssdparams s = ssdparams s0" "\<And>p. p \<in> sb_set s0 b \<Longrightarrow> chain s p = []"
    using assms(1) by (simp_all add: gc_mid_def)
  show e: "sb_set s b = sb_set s0 b" by (simp add: sb_set_def CALC_BLOCK_def g(2))
  show "l2p s l \<notin> sb_set s b"
  proof
    assume a: "l2p s l \<in> sb_set s b"
    then have "0 \<le> l2p s l" "l2p s l < pages_of s" by (simp_all add: sb_set_def)
    with chain_refs(1) [OF g(1) [unfolded wacc_def], of "l2p s l" l] assms(2,3) g(3) a e show False by simp
  qed
qed

lemma gc_mid_time:
  assumes "gc_mid b s0 A0 D n s A" "timed s s'"
  shows "gc_mid b s0 A0 D n s' A"
proof -
  have t: "same_but_time s s'" "time_inv s'" "room_kept (iostat s) (iostat s')" using assms(2) by (simp_all add: timed_def)
  note fr = same_but_time_frame [OF t(1)] and tt = time_tables [OF t(1)]
  have g: "wacc (sb_set s0 b) {b} s" "alloc_rel s A" using assms(1) by (simp_all add: gc_mid_def)
  have "live s' b = live s b" by (simp add: live_def fr)
  moreover have "chain s' p = chain s p" for p by (simp add: chain_def fr)
  moreover have "relocated {b} s0 s \<Longrightarrow> relocated {b} s0 s'" by (simp add: relocated_def tt)
  moreover have "room_kept (iostat s0) (iostat s) \<Longrightarrow> room_kept (iostat s0) (iostat s')" using t(3) by (simp add: room_kept_def)
  ultimately show ?thesis
    using assms(1) wacc_time(1) [OF g(1) t(1)] same_alloc_time [OF assms(2) g(2)] t(2)
    by (simp add: gc_mid_def tt fr)
qed

text \<open>Reclaiming the emptied superblock.\<close>

lemma slots_of_sb:
  assumes "sb_conf c" "0 \<le> b" "b < BLOCK_NB c"
  shows "finite {sb_page c b n | n. 0 \<le> n \<and> n < sb_pages c}"
    "int (card {sb_page c b n | n. 0 \<le> n \<and> n < sb_pages c}) = sb_pages c"
proof -
  have e: "{sb_page c b n | n. 0 \<le> n \<and> n < sb_pages c} = sb_page c b ` {0..<sb_pages c}" by auto
  have "inj_on (sb_page c b) {0..<sb_pages c}"
    using sb_page_inj [OF assms(1)] assms(2,3) by (auto simp: inj_on_def)
  moreover have "0 \<le> sb_pages c" using sb_confD(3,9) [OF assms(1)] by (simp add: sb_pages_def)
  ultimately show "finite {sb_page c b n | n. 0 \<le> n \<and> n < sb_pages c}"
    "int (card {sb_page c b n | n. 0 \<le> n \<and> n < sb_pages c}) = sb_pages c"
    unfolding e by (simp_all add: card_image)
qed

lemma freed_slots_card:
  assumes "alloc_rel s A" "0 \<le> b" "b < block_nb_of s" "b \<notin> set (sbs A)"
  shows "int (card (free_slots (ssdparams s) (freed A b))) = int (card (free_slots (ssdparams s) A)) + sb_pages (ssdparams s)"
proof -
  note R = alloc_relD [OF assms(1)]
  note f = freed_wf(3) [OF R(1,2) assms(2-4)] and k = slots_of_sb [OF R(1) assms(2,3)]
  have "free_slots (ssdparams s) A \<inter> {sb_page (ssdparams s) b n | n. 0 \<le> n \<and> n < sb_pages (ssdparams s)} = {}"
    using free_slot_block [OF assms(1)] sb_page_addr(5) [OF R(1) _ _ assms(2,3)] assms(4) by fastforce
  then show ?thesis using card_Un_disjoint [OF finite_free_slots [OF assms(1)] k(1)] k(2) by (simp add: f)
qed

lemma gc_reclaim_ok:
  assumes "gc_mid b s0 A0 (sb_set s0 b) n s A" "0 \<le> b" "b < block_nb_of s0" "set (sbs A0) = {0..<block_nb_of s0} - {b}"
  shows "\<exists>s'. gc_reclaim b k s = Some s' \<and> dev_inv s' (freed A b) \<and> relocated {b} s0 s' \<and> ssdparams s' = ssdparams s0 \<and>
    room_kept (iostat s0) (iostat s') \<and> perf s' = perf s0"
proof -
  let ?f1 = "\<lambda>st :: io_stat. st\<lparr>mycopy_page_nb := mycopy_page_nb st + k\<rparr>"
  let ?f5 = "\<lambda>st :: io_stat. st\<lparr>stat_gc_count := u32 (stat_gc_count st + 1),
         stat_erase_count := u32 (stat_erase_count st + flash_nb_of s * PLANES_PER_FLASH (ssdparams s)),
         mygc_cnt := mygc_cnt st + 1\<rparr>"
  have g: "wacc (sb_set s0 b) {b} s" "time_inv s" "alloc_rel s A" "ssdparams s = ssdparams s0" "relocated {b} s0 s"
    "set (sbs A) = set (sbs A0)" "xl2p_ppn s = - 1" "perf s = perf s0" "room_kept (iostat s0) (iostat s)" using assms(1) by (simp_all add: gc_mid_def)
  obtain t2 s2 where c2: "read_clock TS_NS (upd_iostat ?f1 s) = (t2, s2)" by (cases "read_clock TS_NS (upd_iostat ?f1 s)")
  have "timed s (upd_iostat ?f1 s)" by (rule timed_iostat [OF g(2)]) simp_all
  moreover from this have "timed (upd_iostat ?f1 s) s2" using timed_clock [of "upd_iostat ?f1 s" TS_NS] c2 by (simp add: timed_def)
  ultimately have t12: "timed s s2" by (rule timed_trans)
  note m2 = gc_mid_time [OF assms(1) t12]
  have h: "wacc (sb_set s0 b) {b} s2" "time_inv s2" "alloc_rel s2 A" "ssdparams s2 = ssdparams s0" "live s2 b = 0"
    "fresh (sb_set s0 b) s2 A" "xl2p_ppn s2 = - 1" "relocated {b} s0 s2" "room_kept (iostat s0) (iostat s2)" "perf s2 = perf s0"
    using m2 by (simp_all add: gc_mid_def)
  have sbe: "sb_set s2 b = sb_set s0 b" by (simp add: sb_set_def CALC_BLOCK_def h(4))
  have bb: "b < block_nb_of s2" "b \<notin> set (sbs A)" using assms(3,4) g(6) h(4) by simp_all
  from gc_erase_all [OF h(3) assms(2) bb, unfolded sbe, OF h(1) [unfolded wacc_def] h(2) _ h(5,6)] gc_mid_clean(1) [OF m2, unfolded sbe]
  obtain s3 where s3: "foldM (gc_erase b) (cupto (flash_nb_of s2)) s2 = Some s3" "map_inv s3" "time_inv s3"
    "alloc_rel s3 (freed A b)" "fresh {} s3 (freed A b)" "l2p s3 = l2p s2" "ssdparams s3 = ssdparams s2"
    "xl2p_ppn s3 = xl2p_ppn s2" "perf s3 = perf s2" "room_kept (iostat s2) (iostat s3)" by blast
  have ins: "insert b ({0..<block_nb_of s0} - {b}) = {0..<block_nb_of s0}" using assms(2,3) by auto
  have "set (sbs (freed A b)) = {0..<block_nb_of s3}"
    using freed_wf(2) [OF alloc_relD(1,2) [OF h(3)] assms(2) bb] assms(4) g(6) ins by (simp add: s3(7) h(4))
  then have d3: "dev_inv s3 (freed A b)" using s3 h(7) by (simp add: dev_inv_def)
  define s4 where "s4 = add_time time_up_update t2 s3"
  have t4: "timed s3 s4" unfolding s4_def by (rule add_time_timed [OF s3(3)]) simp_all
  have "timed s4 (upd_iostat ?f5 s4)" by (rule timed_iostat) (use t4 in \<open>simp_all add: timed_def\<close>)
  then have t5: "timed s3 (upd_iostat ?f5 s4)" by (rule timed_trans [OF t4])
  have p5: "ssdparams (upd_iostat ?f5 s4) = ssdparams s0" "time_inv (upd_iostat ?f5 s4)"
    using t5 same_but_time_frame(1) [of s3 "upd_iostat ?f5 s4"] s3(7) h(4) by (simp_all add: timed_def)
  have sc: "sb_conf (ssdparams (upd_iostat ?f5 s4))" using alloc_relD(1) [OF h(3)] h(4) p5 by simp
  from gc_occupy_all [OF p5(2) sc assms(2), of k] obtain s6 where
    s6: "foldM (gc_occupy b k) (cupto (flash_nb_of s0)) (upd_iostat ?f5 s4) = Some s6" "timed (upd_iostat ?f5 s4) s6"
    by (auto simp: p5(1))
  have t6: "timed s3 s6" by (rule timed_trans [OF t5 s6(2)])
  then have t6': "same_but_time s3 s6" "time_inv s6" "room_kept (iostat s3) (iostat s6)" by (simp_all add: timed_def)
  have "gc_reclaim b k s = Some s6"
    using c2 s3(1) s6(1) h(4) g(4) by (simp add: gc_reclaim_def Let_def s4_def [symmetric])
  moreover have "relocated {b} s0 s6"
    using h(8) by (simp add: relocated_def time_tables(2) [OF t6'(1)] s3(6))
  moreover have "room_kept (iostat s0) (iostat s6)" using h(9) s3(10) t6'(3) by (simp add: room_kept_def)
  ultimately show ?thesis
    using dev_inv_time [OF d3 t6'(1,2)] same_but_time_frame [OF t6'(1)] s3(7,9) h(4,10) by (intro exI [of _ s6]) simp
qed

text \<open>Selecting and taking the victim.\<close>

lemma gc_take_victim:
  assumes "dev_inv s A"
  shows "(\<exists>b A1 s'. SELECT_VICTIM_SUPERBLOCK s = Some (Some b, s') \<and> b \<in> set (victim_sbs A) \<and> victim_taken b s' A1 \<and>
        same_but_alloc s s' \<and> free_slots (ssdparams s) A1 = free_slots (ssdparams s) A \<and>
        sb_valid s b < sb_pages (ssdparams s) \<and> (\<forall>d \<in> set (victim_sbs A). sb_valid s b \<le> sb_valid s d)) \<or>
    (\<exists>s'. SELECT_VICTIM_SUPERBLOCK s = Some (None, s') \<and> timed s s' \<and>
        (\<forall>d \<in> set (victim_sbs A). sb_pages (ssdparams s) \<le> sb_valid s d))"
  using SELECT_VICTIM_SUPERBLOCK_ok [OF dev_invD(3,9) [OF assms]]
proof (elim disjE exE conjE)
  fix k s' assume v: "SELECT_VICTIM_SUPERBLOCK s = Some (Some (victim_sbs A ! nat k), s')" "0 \<le> k"
    "k < int (length (victim_sbs A))" "alloc_rel s' (without A k)" "same_but_alloc s s'"
    "sb_valid s (victim_sbs A ! nat k) < sb_pages (ssdparams s)"
    "\<forall>d \<in> set (victim_sbs A). sb_valid s (victim_sbs A ! nat k) \<le> sb_valid s d"
  note D = dev_invD [OF assms] and fr = same_but_alloc_frame [OF v(5)]
  let ?b = "victim_sbs A ! nat k"
  have "nat k < length (victim_sbs A)" using v(2,3) by linarith
  then have b: "?b \<in> set (victim_sbs A)" by simp
  note w = without_wf [OF D(11) v(2,3)] and r = victim_range [OF D(11) b]
  note t = acc_same [OF same_tables_of(2) [OF v(5)]]
  have l: "l2p s' = l2p s" "nvm s' = nvm s" by (intro ext, rule t)+
  have "map_inv s'" using t(1) D(1) by (simp add: map_inv_def l)
  moreover have "fresh {} s' (without A k)" using D(4) by (simp add: fresh_def t(2) fr w(5))
  moreover have "time_inv s'" using D(2) by (simp add: time_inv_def fr)
  ultimately have "victim_taken ?b s' (without A k)"
    using v(4) w(2) D(5,6) r by (simp add: victim_taken_def fr)
  then show ?thesis using v b w(5) by blast
next
  assume f: "\<forall>d \<in> set (victim_sbs A). sb_pages (ssdparams s) \<le> sb_valid s d" "SELECT_VICTIM_SUPERBLOCK s = Some (None, s)"
  then show ?thesis using timed_refl [OF dev_invD(2) [OF assms]] by blast
next
  let ?f = "\<lambda>st :: io_stat. st\<lparr>fail_cnt := fail_cnt st + 1\<rparr>"
  assume f: "\<forall>d \<in> set (victim_sbs A). sb_pages (ssdparams s) \<le> sb_valid s d"
    "SELECT_VICTIM_SUPERBLOCK s = Some (None, s\<lparr>iostat := (iostat s)\<lparr>fail_cnt := fail_cnt (iostat s) + 1\<rparr>\<rparr>)"
  have "timed s (upd_iostat ?f s)" by (rule timed_iostat [OF dev_invD(2) [OF assms]]) simp_all
  then show ?thesis using f by (simp add: upd_iostat_def)
qed

text \<open>From the taken victim to the end of the collection.\<close>

lemma gc_run:
  assumes "victim_taken b s A" "sb_valid s b \<le> int (card (free_slots (ssdparams s) A))"
  shows "\<exists>s1 s2 A2. UPDATE_NVRAM_OOB s b 0 = Some (SUCCESS, s1) \<and> ssdparams s1 = ssdparams s \<and>
    gc_blocks b (cupto (flash_nb_of s)) 0 s1 = Some (SUCCESS, sb_valid s b, s2) \<and>
    gc_mid b s1 A (sb_set s1 b) (sb_valid s b) s2 A2 \<and> l2p s1 = l2p s \<and> iostat s1 = iostat s \<and> perf s1 = perf s"
proof -
  from gc_start [OF assms(1)] obtain s1 where
    u: "UPDATE_NVRAM_OOB s b 0 = Some (SUCCESS, s1)" "gc_mid b s1 A {} 0 s1 A" "l2p s1 = l2p s"
      "\<And>p. p \<in> sb_set s1 b \<Longrightarrow> chain s1 p \<noteq> [] \<longleftrightarrow> 0 < page_ref s1 p" "sb_valid s1 b = sb_valid s b"
      "iostat s1 = iostat s" "perf s1 = perf s" "ssdparams s1 = ssdparams s" "blk_shape s1" by blast
  have b: "0 \<le> b" "b < block_nb_of s1" and R: "alloc_rel s A" using assms(1) u(8) by (simp_all add: victim_taken_def)
  have w: "wf_conf (ssdparams s1)" using sb_confD(1) [OF alloc_relD(1) [OF R]] u(8) by simp
  note vc = sb_valid_count [OF u(9) w b]
  have fs: "\<forall>f \<in> set (cupto (flash_nb_of s1)). 0 \<le> f \<and> f < flash_nb_of s1 \<and>
      (\<forall>i. 0 \<le> i \<longrightarrow> i < page_nb_of s1 \<longrightarrow> blk_page (ssdparams s1) b f i \<notin> {})" by simp
  have le: "sb_valid_pages s1 b (cupto (flash_nb_of s1)) \<le> int (card (free_slots (ssdparams s1) A))"
    using assms(2) u(5,8) vc by simp
  from gc_blocks_ok [OF u(2) b distinct_cupto fs u(4) le, of 0] obtain s2 A2 where
    "gc_blocks b (cupto (flash_nb_of s1)) 0 s1 = Some (SUCCESS, sb_valid s b, s2)"
    "gc_mid b s1 A (sb_set s1 b) (sb_valid s b) s2 A2"
    using vc u(5) by (auto simp: sb_set_pages [OF w b])
  then show ?thesis using u(1,3,6-8) by auto
qed

text \<open>What a successful collection achieves: \<open>b\<close> was a cheapest victim and all its pages are free.\<close>

definition collected :: "ssdstate \<Rightarrow> allocator \<Rightarrow> ssdstate \<Rightarrow> allocator \<Rightarrow> bool" where
  "collected s A s' A' \<longleftrightarrow> (\<exists>b \<in> set (victim_sbs A).
     (\<forall>d \<in> set (victim_sbs A). sb_valid s b \<le> sb_valid s d) \<and> sb_valid s b < sb_pages (ssdparams s) \<and>
     sb_set s b \<subseteq> free_slots (ssdparams s) A' \<and> relocated {b} s s' \<and>
     int (card (free_slots (ssdparams s) A'))
       = int (card (free_slots (ssdparams s) A)) + sb_pages (ssdparams s) - sb_valid s b)"

lemma gc_after_select:
  assumes "victim_taken b s4 A1" "sb_valid s4 b \<le> int (card (free_slots (ssdparams s4) A1))" "room n (Suc r) w s4"
  shows "\<exists>s' A'. do {
      (blocking_time, ssd5) \<leftarrow> gc_read_oob s4 b;
      let (cp_start, ssd6) = read_clock TS_NS ssd5;
      ssd7 \<leftarrow> gc_block_flash ssd6 blocking_time;
      (r8, ssd8) \<leftarrow> UPDATE_NVRAM_OOB ssd7 b 0;
      (r, copied, ssd9) \<leftarrow> gc_blocks b (cupto (sb_blk_nb (ssdparams ssd8))) 0 ssd8;
      (if r = FAIL then Some (FAIL, ssd9)
       else do {
         ssd10 \<leftarrow> gc_reclaim b copied (add_time time_cp_update cp_start ssd9);
         Some (SUCCESS, add_time time_gc_update gc_start ssd10)
       })
    } = Some (SUCCESS, s') \<and> dev_inv s' A' \<and> relocated {b} s4 s' \<and> ssdparams s' = ssdparams s4 \<and>
    room n r w s' \<and> perf s' = perf s4 \<and> sb_set s4 b \<subseteq> free_slots (ssdparams s4) A' \<and>
    int (card (free_slots (ssdparams s4) A'))
      = int (card (free_slots (ssdparams s4) A1)) + sb_pages (ssdparams s4) - sb_valid s4 b"
proof -
  have v: "map_inv s4" "time_inv s4" "alloc_rel s4 A1" "0 \<le> b" "b < block_nb_of s4" "set (sbs A1) = {0..<block_nb_of s4} - {b}"
    using assms(1) by (simp_all add: victim_taken_def)
  note A = accD [OF v(1) [unfolded map_inv_def]] and R = alloc_relD [OF v(3)]
  from gc_read_oob_ok [OF A(10,2) v(2) R(1) v(4,5)] obtain d s5 where s5: "gc_read_oob s4 b = Some (d, s5)" "timed s4 s5" by blast
  obtain t s6 where c: "read_clock TS_NS s5 = (t, s6)" by (cases "read_clock TS_NS s5")
  have t5: "time_inv s5" using s5(2) by (simp add: timed_def)
  have "timed s5 s6" using timed_clock [OF t5, of TS_NS] c by simp
  then have "timed s4 s6" by (rule timed_trans [OF s5(2)])
  then have t6: "same_but_time s4 s6" "time_inv s6" "room n (Suc r) w s6" using assms(3) by (simp_all add: timed_def room_kept_def)
  from gc_block_flash_ok [OF t6(2,3), of d] obtain s7 where
    s7: "gc_block_flash s6 d = Some s7" "same_but_time s6 s7" "time_inv s7" "room n r w s7" by blast
  have t7: "same_but_time s4 s7" by (rule same_but_time_trans [OF t6(1) s7(2)])
  note fr = same_but_time_frame [OF t7] and tt = time_tables [OF t7]
  have vt: "victim_taken b s7 A1" by (rule victim_taken_time [OF assms(1) t7 s7(3)])
  have le: "sb_valid s7 b \<le> int (card (free_slots (ssdparams s7) A1))" using assms(2) by (simp add: tt fr)
  from gc_run [OF vt le] obtain s8 s9 A2 where
    g: "UPDATE_NVRAM_OOB s7 b 0 = Some (SUCCESS, s8)" "ssdparams s8 = ssdparams s7"
      "gc_blocks b (cupto (flash_nb_of s7)) 0 s8 = Some (SUCCESS, sb_valid s7 b, s9)"
      "gc_mid b s8 A1 (sb_set s8 b) (sb_valid s7 b) s9 A2" "l2p s8 = l2p s7" "iostat s8 = iostat s7" "perf s8 = perf s7" by blast
  have p8: "ssdparams s8 = ssdparams s4" using g(2) fr by simp
  define s9' where "s9' = add_time time_cp_update t s9"
  have h9: "time_inv s9" "set (sbs A2) = set (sbs A1)" "alloc_rel s9 A2" "ssdparams s9 = ssdparams s8"
    "int (card (free_slots (ssdparams s8) A2)) + sb_valid s7 b = int (card (free_slots (ssdparams s8) A1))"
    using g(4) by (simp_all add: gc_mid_def)
  have t9: "timed s9 s9'" unfolding s9'_def by (rule add_time_timed [OF h9(1)]) simp_all
  note m9 = gc_mid_time [OF g(4) t9]
  have b8: "b < block_nb_of s8" "set (sbs A1) = {0..<block_nb_of s8} - {b}" using v(5,6) p8 by simp_all
  from gc_reclaim_ok [OF m9 v(4) b8, of "sb_valid s7 b"] obtain s10 where
    s10: "gc_reclaim b (sb_valid s7 b) s9' = Some s10" "dev_inv s10 (freed A2 b)" "relocated {b} s8 s10"
      "ssdparams s10 = ssdparams s8" "room_kept (iostat s8) (iostat s10)" "perf s10 = perf s8" by blast
  define s11 where "s11 = add_time time_gc_update gc_start s10"
  have t11: "timed s10 s11" unfolding s11_def by (rule add_time_timed [OF dev_invD(2) [OF s10(2)]]) simp_all
  then have t11': "same_but_time s10 s11" "time_inv s11" "room_kept (iostat s10) (iostat s11)" by (simp_all add: timed_def)
  have sbn: "sb_blk_nb (ssdparams s8) = flash_nb_of s7" using sb_confD(2) [OF R(1)] p8 fr by (simp add: sb_blk_nb_def)
  have l11: "l2p s11 = l2p s10" by (rule time_tables(2) [OF t11'(1)])
  have rl: "relocated {b} s4 s11"
    using s10(3) by (simp add: relocated_def l11 g(5) tt(2) p8 CALC_BLOCK_def)
  have bA: "b < block_nb_of s9" "b \<notin> set (sbs A2)" using v(5,6) h9(2,4) p8 by simp_all
  have cd: "int (card (free_slots (ssdparams s4) (freed A2 b)))
      = int (card (free_slots (ssdparams s4) A1)) + sb_pages (ssdparams s4) - sb_valid s4 b"
    using freed_slots_card [OF h9(3) v(4) bA] h9(4,5) by (simp add: p8 tt(4))
  have sub: "sb_set s4 b \<subseteq> free_slots (ssdparams s4) (freed A2 b)"
    using sb_set_slots [OF R(1) v(4,5)] freed_wf(3) [OF alloc_relD(1,2) [OF h9(3)] v(4) bA] by (simp add: h9(4) p8)
  have rm: "room n r w s11" using s7(4) s10(5) t11'(3) by (simp add: room_kept_def g(6))
  have pf: "perf s11 = perf s4" "ssdparams s11 = ssdparams s4"
    using same_but_time_frame [OF t11'(1)] s10(4,6) g(7) p8 fr by simp_all
  show ?thesis
    using s5(1) c s7(1) g(1,3) s10(1) dev_inv_time [OF s10(2) t11'(1,2)] rl cd sub rm pf
    by (intro exI [of _ s11] exI [of _ "freed A2 b"]) (simp add: sbn s9'_def [symmetric] s11_def [symmetric])
qed

lemma SB_GARBAGE_COLLECTION_ok:
  assumes "dev_inv s A" "sb_pages (ssdparams s) \<le> int (card (free_slots (ssdparams s) A)) + 1" "room n (Suc r) w s"
  shows "\<exists>r' s' A'. SB_GARBAGE_COLLECTION s = Some (r', s') \<and> dev_inv s' A' \<and> ssdparams s' = ssdparams s \<and> room n r w s' \<and>
    perf s' = perf s \<and>
    (r' = SUCCESS \<and> collected s A s' A' \<or>
     r' = FAIL \<and> A' = A \<and> timed s s' \<and> (\<forall>d \<in> set (victim_sbs A). sb_pages (ssdparams s) \<le> sb_valid s d))"
proof -
  note D = dev_invD [OF assms(1)]
  obtain t1 s1 where c1: "read_clock TS_NS s = (t1, s1)" by (cases "read_clock TS_NS s")
  obtain t2 s2 where c2: "read_clock TS_NS s1 = (t2, s2)" by (cases "read_clock TS_NS s1")
  have "timed s s1" using timed_clock [OF D(2), of TS_NS] c1 by simp
  moreover from this have "timed s1 s2" using timed_clock [of s1 TS_NS] c2 by (simp add: timed_def)
  ultimately have ts2: "timed s s2" by (rule timed_trans)
  then have t2: "same_but_time s s2" "time_inv s2" "room n (Suc r) w s2" using assms(3) by (simp_all add: timed_def room_kept_def)
  note fr2 = same_but_time_frame [OF t2(1)] and tt2 = time_tables [OF t2(1)]
  have d2: "dev_inv s2 A" by (rule dev_inv_time [OF assms(1) t2(1,2)])
  from gc_take_victim [OF d2] show ?thesis
  proof (elim disjE exE conjE)
    fix b A1 s3
    assume v: "SELECT_VICTIM_SUPERBLOCK s2 = Some (Some b, s3)" "b \<in> set (victim_sbs A)" "victim_taken b s3 A1"
      "same_but_alloc s2 s3" "free_slots (ssdparams s2) A1 = free_slots (ssdparams s2) A"
      "sb_valid s2 b < sb_pages (ssdparams s2)" "\<forall>d \<in> set (victim_sbs A). sb_valid s2 b \<le> sb_valid s2 d"
    note fr3 = same_but_alloc_frame [OF v(4)]
    define s4 where "s4 = add_time time_svb_update t2 s3"
    have "time_inv s3" using v(3) by (simp add: victim_taken_def)
    then have "timed s3 s4" unfolding s4_def by (rule add_time_timed) simp_all
    then have t4: "same_but_time s3 s4" "time_inv s4" "room_kept (iostat s3) (iostat s4)" by (simp_all add: timed_def)
    note fr4 = same_but_time_frame [OF t4(1)] and tt4 = time_tables [OF t4(1)]
    have vt: "victim_taken b s4 A1" by (rule victim_taken_time [OF v(3) t4(1,2)])
    have p4: "ssdparams s4 = ssdparams s" "perf s4 = perf s" by (simp_all add: fr4 fr3 fr2)
    have "sb_valid s3 b = sb_valid s2 b" by (simp add: sb_valid_def fr3)
    then have vb: "sb_valid s4 b = sb_valid s b" by (simp add: tt4 tt2)
    have fs: "free_slots (ssdparams s) A1 = free_slots (ssdparams s) A" using v(5) by (simp add: fr2)
    have mn: "sb_valid s b < sb_pages (ssdparams s)" "\<forall>d \<in> set (victim_sbs A). sb_valid s b \<le> sb_valid s d"
      using v(6,7) by (simp_all add: fr2 tt2)
    have le: "sb_valid s4 b \<le> int (card (free_slots (ssdparams s4) A1))" using mn(1) assms(2) fs by (simp add: vb p4)
    have rm: "room n (Suc r) w s4" using t2(3) t4(3) by (simp add: room_kept_def fr3)
    from gc_after_select [OF vt le rm, of t1] obtain s' A' where
      s': "SB_GARBAGE_COLLECTION s = Some (SUCCESS, s')" "dev_inv s' A'" "relocated {b} s4 s'" "ssdparams s' = ssdparams s"
        "room n r w s'" "perf s' = perf s" "sb_set s4 b \<subseteq> free_slots (ssdparams s) A'"
        "int (card (free_slots (ssdparams s) A')) = int (card (free_slots (ssdparams s) A)) + sb_pages (ssdparams s) - sb_valid s b"
      using c1 c2 v(1) by (auto simp: SB_GARBAGE_COLLECTION_def Let_def s4_def [symmetric] p4 fs vb)
    have "l2p s3 = l2p s2" by (intro ext) (simp add: l2p_def fr3)
    then have "relocated {b} s s'" using s'(3) by (simp add: relocated_def tt4(2) tt2(2) p4 CALC_BLOCK_def)
    moreover have "sb_set s4 b = sb_set s b" by (simp add: sb_set_def CALC_BLOCK_def p4)
    ultimately have "collected s A s' A'"
      unfolding collected_def using v(2) mn s'(7,8) by (intro bexI [of _ b]) simp_all
    then show ?thesis using s' by blast
  next
    fix s3 assume v: "SELECT_VICTIM_SUPERBLOCK s2 = Some (None, s3)" "timed s2 s3"
      "\<forall>d \<in> set (victim_sbs A). sb_pages (ssdparams s2) \<le> sb_valid s2 d"
    define s4 where "s4 = add_time time_svb_update t2 s3"
    have "time_inv s3" using v(2) by (simp add: timed_def)
    then have "timed s3 s4" unfolding s4_def by (rule add_time_timed) simp_all
    then have ts4: "timed s2 s4" by (rule timed_trans [OF v(2)])
    then have t4: "same_but_time s2 s4" "time_inv s4" "room_kept (iostat s2) (iostat s4)" by (simp_all add: timed_def)
    have "room n (Suc r) w s4" using t2(3) t4(3) by (simp add: room_kept_def)
    then have "room n r w s4" by (rule print_room_mono) simp_all
    moreover have "SB_GARBAGE_COLLECTION s = Some (FAIL, s4)"
      using c1 c2 v(1) by (simp add: SB_GARBAGE_COLLECTION_def Let_def s4_def [symmetric])
    ultimately show ?thesis
      using dev_inv_time [OF d2 t4(1,2)] same_but_time_frame [OF t4(1)] timed_trans [OF ts2 ts4] v(3)
      by (intro exI [of _ FAIL] exI [of _ s4] exI [of _ A]) (simp add: fr2 tt2)
  qed
qed

subsection \<open>Collecting until there is enough space\<close>

lemma free_slots_bound:
  assumes "alloc_rel s A"
  shows "int (card (free_slots (ssdparams s) A)) \<le> pages_of s"
proof -
  note R = alloc_relD [OF assms]
  have "free_slots (ssdparams s) A \<subseteq> {0..<pages_of s}" using free_slots_range [OF R(1,2)] by auto
  then have "card (free_slots (ssdparams s) A) \<le> card {0..<pages_of s}" by (intro card_mono) simp_all
  moreover have "0 \<le> pages_of s" using sb_confD(1) [OF R(1)] by (simp add: wf_conf_def)
  ultimately show ?thesis by simp
qed

text \<open>The counter of free pages, which triggers the collector, is the number of free slots.\<close>

lemma stat_ppn_free_slots:
  assumes "dev_inv s A"
  shows "stat_ppn_free (pstat s) = int (card (free_slots (ssdparams s) A))"
proof -
  note D = dev_invD [OF assms]
  have bi: "blk_inv s" using accD(8) [OF D(1) [unfolded map_inv_def]] .
  note L = blk_invD(5) [OF bi]
  have "stat_ppn_free (pstat s) = int (length (filter (\<lambda>v. v = 0) (page_refs s)))"
    using bi by (simp add: blk_inv_def stat_ok_def)
  also have "\<dots> = int (card {i. i < length (page_refs s) \<and> page_refs s ! i = 0})" by (simp add: length_filter_conv_card)
  also have "card {i. i < length (page_refs s) \<and> page_refs s ! i = 0} = card (nat ` free_slots (ssdparams s) A)"
  proof -
    have "{i. i < length (page_refs s) \<and> page_refs s ! i = 0} = nat ` free_slots (ssdparams s) A"
    proof (intro equalityI subsetI)
      fix i assume i: "i \<in> {i. i < length (page_refs s) \<and> page_refs s ! i = 0}"
      then have "int i < pages_of s" "page_ref s (int i) = 0" using L by (auto simp: page_ref_def)
      then have "int i \<in> free_slots (ssdparams s) A" using D(4) by (simp add: fresh_def)
      then show "i \<in> nat ` free_slots (ssdparams s) A" by force
    next
      fix i assume "i \<in> nat ` free_slots (ssdparams s) A"
      then obtain p where p: "p \<in> free_slots (ssdparams s) A" "i = nat p" by blast
      note r = free_slots_range [OF D(7,11) p(1)]
      have "page_ref s p = 0" using D(4) r p(1) by (simp add: fresh_def)
      then show "i \<in> {i. i < length (page_refs s) \<and> page_refs s ! i = 0}" using L r p(2) by (simp add: page_ref_def)
    qed
    then show ?thesis by simp
  qed
  also have "\<dots> = card (free_slots (ssdparams s) A)"
    by (rule card_image) (use free_slots_range(1) [OF D(7,11)] in \<open>auto simp: inj_on_def eq_nat_nat_iff\<close>)
  finally show ?thesis .
qed

definition gc_done :: "ssdstate \<Rightarrow> allocator \<Rightarrow> bool" where
  "gc_done s A \<longleftrightarrow> \<not> gc_needed s \<or> (\<forall>d \<in> set (victim_sbs A). sb_pages (ssdparams s) \<le> sb_valid s d)"

lemma relocated_chain:
  assumes "relocated B s s'" "relocated C s' s''" "ssdparams s' = ssdparams s"
  shows "relocated UNIV s s''"
  by (rule relocated_mono [OF relocated_trans [OF assms]]) simp

lemma gc_loop_ok:
  assumes "dev_inv s A" "sb_pages (ssdparams s) \<le> int (card (free_slots (ssdparams s) A)) + 1"
    "nat (pages_of s) \<le> card (free_slots (ssdparams s) A) + r" "room n (Suc r + x) w s"
  shows "\<exists>s' A'. gc_loop s = Some s' \<and> dev_inv s' A' \<and> relocated UNIV s s' \<and> ssdparams s' = ssdparams s \<and> room n x w s' \<and>
    perf s' = perf s \<and> gc_done s' A' \<and> card (free_slots (ssdparams s) A) \<le> card (free_slots (ssdparams s) A')"
  using assms
proof (induction r arbitrary: s A rule: less_induct)
  case (less r)
  show ?case
  proof (cases "gc_needed s")
    case False
    moreover have "room n x w s" using less.prems(4) by (rule print_room_mono) simp_all
    ultimately show ?thesis
      using less.prems(1) by (intro exI [of _ s] exI [of _ A]) (simp add: gc_loop.simps gc_done_def)
  next
    case True
    have rm: "room n (Suc (r + x)) w s" using less.prems(4) by simp
    from SB_GARBAGE_COLLECTION_ok [OF less.prems(1,2) rm] obtain r' s1 A1 where
      g: "SB_GARBAGE_COLLECTION s = Some (r', s1)" "dev_inv s1 A1" "ssdparams s1 = ssdparams s" "room n (r + x) w s1" "perf s1 = perf s"
      "r' = SUCCESS \<and> collected s A s1 A1 \<or>
       r' = FAIL \<and> A1 = A \<and> timed s s1 \<and> (\<forall>d \<in> set (victim_sbs A). sb_pages (ssdparams s) \<le> sb_valid s d)" by blast
    from g(6) show ?thesis
    proof (elim disjE conjE)
      assume f: "r' = FAIL" "A1 = A" "timed s s1" "\<forall>d \<in> set (victim_sbs A). sb_pages (ssdparams s) \<le> sb_valid s d"
      have st: "same_but_time s s1" using f(3) by (simp add: timed_def)
      note tt = time_tables [OF st]
      have "gc_loop s = Some s1" using True g(1) f(1) by (simp add: gc_loop.simps)
      moreover have "gc_done s1 A" using f(4) by (simp add: gc_done_def g(3) tt(4))
      moreover have "room n x w s1" using g(4) by (rule print_room_mono) simp_all
      ultimately show ?thesis
        using g(2,3,5) f(2) relocated_l2p [OF tt(2)] by (intro exI [of _ s1] exI [of _ A]) simp
    next
      assume c: "r' = SUCCESS" "collected s A s1 A1"
      let ?s2 = "upd_iostat (\<lambda>st. st\<lparr>gc_count := s32 (gc_count st + 1)\<rparr>) s1" and ?c = "ssdparams s"
      have "timed s1 ?s2" by (rule timed_iostat [OF dev_invD(2) [OF g(2)]]) simp_all
      then have t2: "same_but_time s1 ?s2" "time_inv ?s2" "room n (r + x) w ?s2" using g(4) by (simp_all add: timed_def room_kept_def)
      have d2: "dev_inv ?s2 A1" by (rule dev_inv_time [OF g(2) t2(1,2)])
      have p2: "ssdparams ?s2 = ?c" "perf ?s2 = perf s" using same_but_time_frame [OF t2(1)] g(3,5) by simp_all
      from c(2) obtain b where b: "relocated {b} s s1" "sb_valid s b < sb_pages ?c"
        "int (card (free_slots ?c A1)) = int (card (free_slots ?c A)) + sb_pages ?c - sb_valid s b"
        by (auto simp: collected_def)
      have gt: "card (free_slots ?c A) < card (free_slots ?c A1)" using b(2,3) by linarith
      have bd: "card (free_slots ?c A1) \<le> nat (pages_of s)"
        using free_slots_bound [OF dev_invD(3) [OF d2]] p2 by simp
      obtain r0 where r0: "r = Suc r0" using gt bd less.prems(3) by (cases r) simp_all
      have 1: "sb_pages (ssdparams ?s2) \<le> int (card (free_slots (ssdparams ?s2) A1)) + 1" using less.prems(2) gt p2 by simp
      have 2: "nat (pages_of ?s2) \<le> card (free_slots (ssdparams ?s2) A1) + r0" using less.prems(3) gt p2 r0 by simp
      have 3: "room n (Suc r0 + x) w ?s2" using t2(3) r0 by simp
      have lt: "r0 < r" using r0 by simp
      from less.IH [OF lt d2 1 2 3] obtain s' A' where
        i: "gc_loop ?s2 = Some s'" "dev_inv s' A'" "relocated UNIV ?s2 s'" "ssdparams s' = ?c" "room n x w s'" "perf s' = perf s"
          "gc_done s' A'" "card (free_slots ?c A1) \<le> card (free_slots ?c A')" using p2 by auto
      have "gc_loop s = Some s'" using True g(1) c(1) i(1) by (simp add: gc_loop.simps [of s])
      moreover have "relocated UNIV s s'"
        using relocated_chain [OF relocated_chain [OF b(1) relocated_l2p [OF time_tables(2) [OF t2(1)]] g(3)] i(3)] p2 by simp
      ultimately show ?thesis using i gt by (intro exI [of _ s'] exI [of _ A']) simp
    qed
  qed
qed

lemma GC_CHECK_ok:
  assumes "dev_inv s A" "sb_pages (ssdparams s) \<le> int (card (free_slots (ssdparams s) A)) + 1" "room n (Suc (nat (pages_of s)) + x) w s"
  shows "\<exists>s' A'. GC_CHECK s f b = Some s' \<and> dev_inv s' A' \<and> relocated UNIV s s' \<and> ssdparams s' = ssdparams s \<and> room n x w s' \<and>
    perf s' = perf s \<and> gc_done s' A' \<and> card (free_slots (ssdparams s) A) \<le> card (free_slots (ssdparams s) A')"
proof -
  have "u32 (PLANES_PER_FLASH (ssdparams s)) = 1" using sb_confD(2) [OF dev_invD(7) [OF assms(1)]] by (simp add: cint)
  then show ?thesis using gc_loop_ok [OF assms(1,2) _ assms(3)] by (simp add: GC_CHECK_def)
qed

end
