(* ===== verification/PerfManager.thy ===== *)
theory PerfManager
  imports Statistics
begin

section \<open>Requests: splitting into pages and the request list\<close>

text \<open>
  A request of sectors is processed page by page; the loop that splits it is written out in
  \<open>_FTL_READ\<close>, \<open>_FTL_WRITE\<close> (\<open>ftl.c\<close>), \<open>femu_discard_process\<close> (\<open>ssd.c\<close>) and \<open>ALLOC_IO_REQUEST\<close>, and is
  the function \<open>page_loop\<close> here. The rest is the list of outstanding requests of
  \<open>ftl_perf_manager.c\<close>. The average delays that \<open>SEND_TO_PERF_CHECKER\<close> keeps as doubles are not part
  of the model.
\<close>

subsection \<open>The page loop\<close>

text \<open>The sectors of the current page that the request leaves out on the right, and those it covers.\<close>

definition right_skip_of :: "int \<Rightarrow> int \<Rightarrow> int \<Rightarrow> int" where
  "right_skip_of spp left_skip remain =
     (if spp - left_skip < remain then 0 else u32 (spp - left_skip - remain))"

definition sects_of :: "int \<Rightarrow> int \<Rightarrow> int \<Rightarrow> int" where
  "sects_of spp left_skip remain = u32 (spp - left_skip - right_skip_of spp left_skip remain)"

text \<open>
  \<open>page_loop body spp lba remain left_skip i s\<close>: the body gets the sector address, the two skips and
  the number of the page within the request. \<open>Inl r\<close> is an early return of \<open>r\<close>. The sector address is
  an unbounded integer: a request that passes the range check ends below \<open>2^63\<close>, except when the
  sum in the check wraps, and then already the first page is outside of the mapping table.
\<close>

partial_function (option) page_loop ::
  "(int \<Rightarrow> int \<Rightarrow> int \<Rightarrow> int \<Rightarrow> 's \<Rightarrow> ('r + 's) option) \<Rightarrow> int \<Rightarrow> int \<Rightarrow> int \<Rightarrow> int \<Rightarrow> int \<Rightarrow> 's \<Rightarrow> ('r + 's) option" where
  "page_loop body spp lba remain left_skip i s =
     (if 0 < remain then do {
        let right_skip = right_skip_of spp left_skip remain;
        let sects = sects_of spp left_skip remain;
        r \<leftarrow> body lba left_skip right_skip i s;
        (case r of
           Inl ret \<Rightarrow> Some (Inl ret)
         | Inr s' \<Rightarrow> page_loop body spp (lba + sects) (u32 (remain - sects)) 0 (i + 1) s')
      }
      else Some (Inr s))"

text \<open>The first \<open>left_skip\<close>: a 64-bit remainder stored in an \<open>unsigned int\<close>.\<close>

definition left_skip_of :: "ssdconf \<Rightarrow> int \<Rightarrow> int option" where
  "left_skip_of sc sector_nb =
     (if SECTORS_PER_PAGE sc = 0 then None else Some (u32 (sector_nb smod SECTORS_PER_PAGE sc)))"

definition for_pages ::
  "ssdconf \<Rightarrow> (int \<Rightarrow> int \<Rightarrow> int \<Rightarrow> int \<Rightarrow> 's \<Rightarrow> ('r + 's) option) \<Rightarrow> int \<Rightarrow> int \<Rightarrow> 's \<Rightarrow> ('r + 's) option" where
  "for_pages sc body sector_nb len s =
     do {
       left_skip \<leftarrow> left_skip_of sc sector_nb;
       page_loop body (SECTORS_PER_PAGE sc) sector_nb len left_skip 0 s
     }"

subsection \<open>The request list\<close>

definition INIT_PERF_CHECKER :: "ssdstate \<Rightarrow> ssdstate" where
  "INIT_PERF_CHECKER ssd = ssd\<lparr>perf := (perf ssd)\<lparr>io_request_nb := 0, io_request_seq_nb := 0, io_requests := []\<rparr>\<rparr>"

definition ALLOC_IO_REQUEST :: "ssdstate \<Rightarrow> int \<Rightarrow> int \<Rightarrow> int \<Rightarrow> (int \<times> int \<times> ssdstate) option" where
  "ALLOC_IO_REQUEST ssd sector_nb len io_type =
     do {
       let (start, ssd1) = read_clock USEC ssd;
       r \<leftarrow> for_pages (ssdparams ssd1) (\<lambda>lba l r i n. Some (Inr (n + 1)) :: (unit + int) option) sector_nb len 0;
       (case r of
          Inl _ \<Rightarrow> None
        | Inr io_page_nb \<Rightarrow> do {
            let p = perf ssd1;
            let req = \<lparr>request_nb = io_request_seq_nb p, request_type = s16 io_type, request_size = s16 io_page_nb,
              start_count = 0, end_count = 0, start_time = replicate (nat io_page_nb) 0,
              end_time = replicate (nat io_page_nb) 0\<rparr>;
            let reqs = (if io_requests p = [] \<and> io_request_nb p = 0 then [req]
                        else if io_requests p \<noteq> [] then io_requests p @ [req]
                        else io_requests p);
            let ssd2 = ssd1\<lparr>perf := p\<lparr>io_requests := reqs, io_request_nb := u32 (io_request_nb p + 1)\<rparr>\<rparr>;
            let (fin, ssd3) = read_clock USEC ssd2;
            Some (fin - start, io_page_nb, ssd3)
          })
     }"

definition INCREASE_IO_REQUEST_SEQ_NB :: "ssdstate \<Rightarrow> ssdstate" where
  "INCREASE_IO_REQUEST_SEQ_NB ssd = ssd\<lparr>perf := (perf ssd)\<lparr>io_request_seq_nb :=
     (if io_request_seq_nb (perf ssd) = 2 ^ 32 - 1 then 0 else io_request_seq_nb (perf ssd) + 1)\<rparr>\<rparr>"

text \<open>The index of the request in the list; at most \<open>io_request_nb\<close> nodes are looked at.\<close>

fun find_request :: "nat \<Rightarrow> int \<Rightarrow> io_request list \<Rightarrow> nat option" where
  "find_request 0 nb rs = None"
| "find_request (Suc n) nb [] = None"
| "find_request (Suc n) nb (r # rs) = (if request_nb r = nb then Some 0 else map_option Suc (find_request n nb rs))"

definition LOOKUP_IO_REQUEST :: "ssdstate \<Rightarrow> int \<Rightarrow> nat option" where
  "LOOKUP_IO_REQUEST ssd nb =
     find_request (nat (s32 (io_request_nb (perf ssd)))) (u32 nb) (io_requests (perf ssd))"

text \<open>Unlinking the request at index \<open>k\<close>; with a count of one the whole list is dropped.\<close>

definition FREE_IO_REQUEST :: "ssdstate \<Rightarrow> nat \<Rightarrow> ssdstate" where
  "FREE_IO_REQUEST ssd k =
     (let p = perf ssd; rs = io_requests p; n = io_request_nb p in
      if n = 1 then ssd\<lparr>perf := p\<lparr>io_requests := [], io_request_nb := u32 (n - 1)\<rparr>\<rparr>
      else if k = 0 \<or> int k \<le> u32 (n - 1)
      then ssd\<lparr>perf := p\<lparr>io_requests := take k rs @ drop (Suc k) rs, io_request_nb := u32 (n - 1)\<rparr>\<rparr>
      else ssd)"

text \<open>The latency of a request whose pages have all started and ended.\<close>

definition fill_end_time :: "ssdconf \<Rightarrow> int \<Rightarrow> int \<Rightarrow> int \<Rightarrow> int" where
  "fill_end_time sc ty st en =
     (if en = 0 then
        (if ty = READ then st + REG_READ_DELAY sc + CELL_READ_DELAY sc
         else if ty = WRITE then st + REG_WRITE_DELAY sc + CELL_PROGRAM_DELAY sc
         else en)
      else en)"

definition CALC_IO_LATENCY :: "ssdstate \<Rightarrow> io_request \<Rightarrow> int option" where
  "CALC_IO_LATENCY ssd req =
     do {
       let n = nat (request_size req);
       (if length (start_time req) < n \<or> length (end_time req) < n then None else Some ());
       let ends = map2 (fill_end_time (ssdparams ssd) (request_type req)) (start_time req) (end_time req);
       min0 \<leftarrow> cread (start_time req) 0;
       max0 \<leftarrow> cread ends 0;
       let min_start = foldl min min0 (take n (start_time req));
       let max_end = foldl max max0 (take n ends);
       (if request_size req = 0 then None else Some ((max_end - min_start) sdiv request_size req))
     }"

definition CREATE_NAND_IO_INFO :: "int \<Rightarrow> int \<Rightarrow> int \<Rightarrow> int \<Rightarrow> nand_io_info" where
  "CREATE_NAND_IO_INFO offset ty io_page_nb io_seq_nb =
     \<lparr>nio_offset = s32 offset, nio_type = s32 ty, nio_page_nb = s32 io_page_nb, nio_seq_nb = s32 io_seq_nb\<rparr>"

section \<open>Lemmas\<close>

subsection \<open>The page loop visits every page of the request once\<close>

definition page_count :: "int \<Rightarrow> int \<Rightarrow> int \<Rightarrow> int" where
  "page_count spp left len = (if len = 0 then 0 else (left + len + spp - 1) div spp)"

definition req_pages :: "ssdconf \<Rightarrow> int \<Rightarrow> int \<Rightarrow> int" where
  "req_pages sc sector_nb len = page_count (SECTORS_PER_PAGE sc) (sector_nb mod SECTORS_PER_PAGE sc) len"

lemma page_count_step:
  assumes "0 \<le> left" "left < spp" "0 < remain"
  shows "sects \<le> spp - left \<Longrightarrow> sects = remain \<Longrightarrow> page_count spp left remain = 1"
    "sects = spp - left \<Longrightarrow> sects < remain \<Longrightarrow> page_count spp left remain = page_count spp 0 (remain - sects) + 1"
proof -
  assume "sects \<le> spp - left" "sects = remain"
  then have "(left + remain - 1) div spp = 0" using assms by (intro div_pos_pos_trivial) auto
  moreover have "(left + remain + spp - 1) div spp = 1 + (left + remain - 1) div spp"
    using assms div_mult_self1 [of spp "left + remain - 1" 1] by (simp add: algebra_simps)
  ultimately show "page_count spp left remain = 1" using assms by (simp add: page_count_def)
next
  assume "sects = spp - left" "sects < remain"
  moreover have "(left + remain + spp - 1) div spp = 1 + (remain - (spp - left) + spp - 1) div spp"
    using assms div_mult_self1 [of spp "remain - (spp - left) + spp - 1" 1] by (simp add: algebra_simps)
  ultimately show "page_count spp left remain = page_count spp 0 (remain - sects) + 1" using assms by (simp add: page_count_def)
qed

lemma sects_of_eq:
  assumes "0 \<le> left" "left < spp" "0 < remain" "spp < 2 ^ 32" "remain < 2 ^ 32"
  shows "sects_of spp left remain = min (spp - left) remain"
  using assms by (auto simp: sects_of_def right_skip_of_def cint min_def)

lemma page_loop_rule:
  assumes spp: "0 < spp" "spp < 2 ^ 32"
    and body: "\<And>lba l r j s. 0 \<le> j \<Longrightarrow> j < n \<Longrightarrow> lba div spp = lpn + j \<Longrightarrow> 0 \<le> lba \<Longrightarrow> Q j s \<Longrightarrow>
       \<exists>x. body lba l r j s = Some x \<and> (case x of Inl y \<Rightarrow> R y | Inr s' \<Rightarrow> Q (j + 1) s')"
    and start: "0 \<le> remain" "remain < 2 ^ 32" "0 \<le> k" "k + page_count spp left remain = n" "Q k s"
      "0 < remain \<Longrightarrow> 0 \<le> lba \<and> lba div spp = lpn + k \<and> lba mod spp = left"
  shows "\<exists>x. page_loop body spp lba remain left k s = Some x \<and> (case x of Inl y \<Rightarrow> R y | Inr s' \<Rightarrow> Q n s')"
  using start
proof (induction "nat remain" arbitrary: lba remain left k s rule: less_induct)
  case less
  show ?case
  proof (cases "remain = 0")
    case True
    then show ?thesis using less.prems by (simp add: page_loop.simps page_count_def)
  next
    case False
    then have pos: "0 < remain" and l: "0 \<le> lba" "lba div spp = lpn + k" "lba mod spp = left"
      using less.prems(1,6) by auto
    have lf: "0 \<le> left" "left < spp" using l(3) spp(1) by auto
    define sects where "sects = sects_of spp left remain"
    have se: "sects = min (spp - left) remain" using sects_of_eq [OF lf pos spp(2) less.prems(2)] by (simp add: sects_def)
    have sb: "0 < sects" "sects \<le> remain" using se lf pos by auto
    have u: "u32 (remain - sects) = remain - sects" using sb less.prems(2) by (simp add: cint)
    have cnt: "k < n" "remain - sects = 0 \<Longrightarrow> k + 1 = n"
      "0 < remain - sects \<Longrightarrow> k + 1 + page_count spp 0 (remain - sects) = n \<and> sects = spp - left"
    proof -
      show "remain - sects = 0 \<Longrightarrow> k + 1 = n" using page_count_step(1) [OF lf pos, of sects] se less.prems(4) by auto
      show *: "0 < remain - sects \<Longrightarrow> k + 1 + page_count spp 0 (remain - sects) = n \<and> sects = spp - left"
        using page_count_step(2) [OF lf pos, of sects] se less.prems(4) by (auto simp: min_def split: if_splits)
      have "0 \<le> page_count spp 0 (remain - sects)"
        using spp(1) sb(2) by (auto simp: page_count_def intro!: pos_imp_zdiv_nonneg_iff [THEN iffD2])
      with * \<open>remain - sects = 0 \<Longrightarrow> k + 1 = n\<close> sb(2) show "k < n" by (cases "remain - sects = 0") auto
    qed
    from body [OF less.prems(3) cnt(1) l(2,1) less.prems(5), of left "right_skip_of spp left remain"] obtain x where
      x: "body lba left (right_skip_of spp left remain) k s = Some x" "case x of Inl y \<Rightarrow> R y | Inr s' \<Rightarrow> Q (k + 1) s'" by blast
    show ?thesis
    proof (cases x)
      case (Inl y)
      then show ?thesis using x pos by (subst page_loop.simps) (simp add: Let_def)
    next
      case (Inr s')
      have step: "page_loop body spp lba remain left k s = page_loop body spp (lba + sects) (remain - sects) 0 (k + 1) s'"
        using x(1) Inr pos u by (subst page_loop.simps) (simp add: Let_def sects_def [symmetric])
      have Q: "Q (k + 1) s'" using x(2) Inr by simp
      have lt: "nat (remain - sects) < nat remain" using sb pos by simp
      have pc: "k + 1 + page_count spp 0 (remain - sects) = n"
        using cnt(2,3) sb(2) by (cases "remain - sects = 0") (auto simp: page_count_def)
      have nx: "0 \<le> lba + sects \<and> (lba + sects) div spp = lpn + (k + 1) \<and> (lba + sects) mod spp = 0" if "0 < remain - sects"
      proof -
        have "lba + sects = (lba div spp + 1) * spp" using cnt(3) [OF that] l(3) by (simp add: algebra_simps minus_mod_eq_mult_div [symmetric])
        then show ?thesis using l(1,2) sb spp(1) by simp
      qed
      have rg: "0 \<le> remain - sects" "remain - sects < 2 ^ 32" "0 \<le> k + 1" using sb less.prems(2,3) by simp_all
      show ?thesis unfolding step by (rule less.hyps [OF lt rg pc Q nx])
    qed
  qed
qed

lemma for_pages_rule:
  assumes "wf_conf sc" "SECTORS_PER_PAGE sc < 2 ^ 32" "0 \<le> sector" "0 \<le> len" "len < 2 ^ 32" "Q 0 s"
    and "\<And>lba l r j s. 0 \<le> j \<Longrightarrow> j < req_pages sc sector len \<Longrightarrow>
       lba div SECTORS_PER_PAGE sc = sector div SECTORS_PER_PAGE sc + j \<Longrightarrow> 0 \<le> lba \<Longrightarrow> Q j s \<Longrightarrow>
       \<exists>x. body lba l r j s = Some x \<and> (case x of Inl y \<Rightarrow> R y | Inr s' \<Rightarrow> Q (j + 1) s')"
  shows "\<exists>x. for_pages sc body sector len s = Some x \<and>
    (case x of Inl y \<Rightarrow> R y | Inr s' \<Rightarrow> Q (req_pages sc sector len) s')"
proof -
  let ?p = "SECTORS_PER_PAGE sc"
  have p: "0 < ?p" using assms(1) by (simp add: wf_conf_def)
  have "0 \<le> sector mod ?p" "sector mod ?p < ?p" using p by simp_all
  then have "0 \<le> sector mod ?p" "sector mod ?p < 2 ^ 32" using assms(2) by linarith+
  then have l: "left_skip_of sc sector = Some (sector mod ?p)"
    using p assms(3) by (simp add: left_skip_of_def smod_nonneg cint)
  have "\<exists>x. page_loop body ?p sector len (sector mod ?p) 0 s = Some x \<and>
      (case x of Inl y \<Rightarrow> R y | Inr s' \<Rightarrow> Q (req_pages sc sector len) s')"
    by (rule page_loop_rule [where lpn = "sector div ?p"]) (use p assms in \<open>simp_all add: req_pages_def\<close>)
  then show ?thesis by (simp add: for_pages_def l)
qed

text \<open>The pages of a request that ends within the device are pages of the device.\<close>

lemma req_page_range:
  assumes "wf_conf sc" "0 \<le> sector" "0 \<le> len" "sector + len \<le> SECTOR_NB sc" "0 \<le> j" "j < req_pages sc sector len"
  shows "0 \<le> sector div SECTORS_PER_PAGE sc + j" "sector div SECTORS_PER_PAGE sc + j < PAGE_MAPPING_ENTRY_NB sc"
proof -
  let ?p = "SECTORS_PER_PAGE sc"
  have p: "0 < ?p" using assms(1) by (simp add: wf_conf_def)
  show "0 \<le> sector div ?p + j" using assms(2,5) p by (simp add: pos_imp_zdiv_nonneg_iff)
  have n: "len \<noteq> 0" using assms(5,6) by (auto simp: req_pages_def page_count_def split: if_splits)
  then have "(sector div ?p + j) * ?p \<le> sector div ?p * ?p + ((sector mod ?p + len + ?p - 1) div ?p - 1) * ?p"
    using assms(6) p by (simp add: req_pages_def page_count_def distrib_right)
  also have "\<dots> \<le> sector div ?p * ?p + (sector mod ?p + len - 1)"
  proof -
    have "0 \<le> (sector mod ?p + len + ?p - 1) mod ?p" using p by simp
    then show ?thesis by (simp add: left_diff_distrib minus_mod_eq_div_mult [symmetric])
  qed
  also have "\<dots> < SECTOR_NB sc" using assms(4) div_mult_mod_eq [of sector ?p] by linarith
  finally have "(sector div ?p + j) * ?p < PAGE_MAPPING_ENTRY_NB sc * ?p"
    using assms(1) by (simp add: wf_conf_def mult_ac)
  then show "sector div ?p + j < PAGE_MAPPING_ENTRY_NB sc" using p by simp
qed

text \<open>The 64-bit end of such a request does not wrap.\<close>

lemma range_end:
  assumes "wf_conf sc" "SECTORS_PER_PAGE sc < 2 ^ 32" "0 \<le> sector" "0 \<le> len" "sector + len \<le> SECTOR_NB sc"
  shows "s64 (sector + len) = sector + len"
proof -
  have w: "0 < SECTORS_PER_PAGE sc" "0 < PAGE_MAPPING_ENTRY_NB sc" "PAGE_MAPPING_ENTRY_NB sc < 2 ^ 31"
    "SECTOR_NB sc = SECTORS_PER_PAGE sc * PAGE_MAPPING_ENTRY_NB sc" using assms(1) by (simp_all add: wf_conf_def mult_ac)
  have "SECTOR_NB sc < 2 ^ 32 * 2 ^ 31" unfolding w(4) using w(1-3) assms(2) by (intro mult_strict_mono) simp_all
  then show ?thesis using assms(3-5) by (simp add: cint)
qed

subsection \<open>Entering a request\<close>

definition same_but_perf :: "ssdstate \<Rightarrow> ssdstate \<Rightarrow> bool" where
  "same_but_perf s s' \<longleftrightarrow> (\<exists>io dt p. s' = s\<lparr>iostat := io, devtime := dt, perf := p\<rparr>)"

lemma same_but_perf_trans: "same_but_perf s s' \<Longrightarrow> same_but_perf s' s'' \<Longrightarrow> same_but_perf s s''"
  unfolding same_but_perf_def by clarsimp blast

lemma same_but_perf_of_time: "same_but_time s s' \<Longrightarrow> same_but_perf s s'"
proof -
  assume "same_but_time s s'"
  then obtain io dt where "s' = s\<lparr>iostat := io, devtime := dt\<rparr>" by (auto simp: same_but_time_def)
  then have "s' = s\<lparr>iostat := io, devtime := dt, perf := perf s\<rparr>" by simp
  then show ?thesis unfolding same_but_perf_def by blast
qed

lemma same_but_perf_upd [simp]: "same_but_perf s (s\<lparr>perf := p\<rparr>)"
  unfolding same_but_perf_def by (intro exI [of _ "iostat s"] exI [of _ "devtime s"] exI [of _ p]) simp

lemma same_but_perf_frame:
  assumes "same_but_perf s s'"
  shows "ssdparams s' = ssdparams s" "mapping_table s' = mapping_table s" "in_nvram s' = in_nvram s"
    "inverse_mapping_table s' = inverse_mapping_table s" "block_state_table s' = block_state_table s"
    "NVRAM_OOB_TABLE s' = NVRAM_OOB_TABLE s" "nstat s' = nstat s" "pstat s' = pstat s"
    "empty_block_list s' = empty_block_list s" "victim_block_list s' = victim_block_list s"
    "total_empty_block_nb s' = total_empty_block_nb s" "total_victim_block_nb s' = total_victim_block_nb s"
    "empty_block_table_index s' = empty_block_table_index s" "sb_deb s' = sb_deb s" "xl2p_ppn s' = xl2p_ppn s"
  using assms unfolding same_but_perf_def by (elim exE, simp)+

lemma page_count_nonneg: "0 < spp \<Longrightarrow> 0 \<le> left \<Longrightarrow> 0 \<le> len \<Longrightarrow> 0 \<le> page_count spp left len"
  by (auto simp: page_count_def intro!: pos_imp_zdiv_nonneg_iff [THEN iffD2])

text \<open>
  \<open>perf_ok\<close>: the count matches the list. Nothing in the read and write paths takes a request out
  again, so the list grows with every request.
\<close>

definition perf_ok :: "perf_state \<Rightarrow> bool" where
  "perf_ok p \<longleftrightarrow> io_request_nb p = u32 (int (length (io_requests p))) \<and>
     0 \<le> io_request_seq_nb p \<and> io_request_seq_nb p < 2 ^ 32"

lemma ALLOC_IO_REQUEST_ok:
  assumes "time_inv s" "SECTORS_PER_PAGE (ssdparams s) < 2 ^ 32" "0 \<le> sector" "0 \<le> len" "len < 2 ^ 32"
  shows "\<exists>d s'. ALLOC_IO_REQUEST s sector len ty = Some (d, req_pages (ssdparams s) sector len, s') \<and>
    time_inv s' \<and> same_but_perf s s' \<and> iostat s' = iostat s \<and>
    (perf_ok (perf s) \<longrightarrow> perf_ok (perf s') \<and> butlast (io_requests (perf s')) = io_requests (perf s) \<and>
       io_requests (perf s') \<noteq> [] \<and> request_nb (last (io_requests (perf s'))) = io_request_seq_nb (perf s) \<and>
       request_size (last (io_requests (perf s'))) = s16 (req_pages (ssdparams s) sector len))"
proof -
  let ?n = "req_pages (ssdparams s) sector len" and ?sc = "ssdparams s"
  have w: "wf_conf ?sc" using time_invD(1) [OF assms(1)] .
  obtain t1 s1 where c1: "read_clock USEC s = (t1, s1)" by (cases "read_clock USEC s")
  have t1: "same_but_time s s1" "time_inv s1" "iostat s1 = iostat s"
    using timed_clock [OF assms(1), of USEC] read_clock_devtime(1) [of USEC s] c1 by (simp_all add: timed_def)
  note fr = same_but_time_frame [OF t1(1)]
  obtain x where x: "for_pages ?sc (\<lambda>lba l r i n. Some (Inr (n + 1)) :: (unit + int) option) sector len 0 = Some x"
      "case x of Inl y \<Rightarrow> False | Inr n' \<Rightarrow> n' = ?n"
    using for_pages_rule [OF w assms(2-5), where Q = "\<lambda>j m. m = j" and R = "\<lambda>y. False"
        and body = "\<lambda>lba l r i n. Some (Inr (n + 1)) :: (unit + int) option" and s = 0] by auto
  then have lp: "for_pages ?sc (\<lambda>lba l r i n. Some (Inr (n + 1)) :: (unit + int) option) sector len 0 = Some (Inr ?n)"
    by (cases x) simp_all
  define req where "req = \<lparr>request_nb = io_request_seq_nb (perf s1), request_type = s16 ty, request_size = s16 ?n,
      start_count = 0, end_count = 0, start_time = replicate (nat ?n) 0, end_time = replicate (nat ?n) 0\<rparr>"
  define reqs where "reqs = (if io_requests (perf s1) = [] \<and> io_request_nb (perf s1) = 0 then [req]
      else if io_requests (perf s1) \<noteq> [] then io_requests (perf s1) @ [req] else io_requests (perf s1))"
  define s2 where "s2 = s1\<lparr>perf := (perf s1)\<lparr>io_requests := reqs, io_request_nb := u32 (io_request_nb (perf s1) + 1)\<rparr>\<rparr>"
  obtain t3 s3 where c3: "read_clock USEC s2 = (t3, s3)" by (cases "read_clock USEC s2")
  have ti2: "time_inv s2" using t1(2) by (simp add: s2_def time_inv_def)
  have t3: "same_but_time s2 s3" "time_inv s3" "iostat s3 = iostat s2"
    using timed_clock [OF ti2, of USEC] read_clock_devtime(1) [of USEC s2] c3 by (simp_all add: timed_def)
  have run: "ALLOC_IO_REQUEST s sector len ty = Some (t3 - t1, ?n, s3)"
    unfolding ALLOC_IO_REQUEST_def Let_def
    by (simp add: c1 lp fr(1) c3 [unfolded s2_def reqs_def req_def] split del: if_split)
  have "same_but_perf s s3"
    by (rule same_but_perf_trans [OF same_but_perf_of_time [OF t1(1)] same_but_perf_trans [OF _ same_but_perf_of_time [OF t3(1)]]])
      (simp add: s2_def)
  moreover have pf: "perf s3 = (perf s)\<lparr>io_requests := reqs, io_request_nb := u32 (io_request_nb (perf s) + 1)\<rparr>"
    using same_but_time_frame(15) [OF t3(1)] by (simp add: s2_def fr)
  moreover have "reqs = io_requests (perf s) @ [req]" "u32 (io_request_nb (perf s) + 1) = u32 (int (length reqs))"
    if "perf_ok (perf s)"
    using that by (auto simp: perf_ok_def reqs_def fr add.commute cint)
  ultimately show ?thesis
    using run t3 t1(3) by (intro exI [of _ "t3 - t1"] exI [of _ s3]) (auto simp: perf_ok_def req_def s2_def fr)
qed

end
