(* ===== verification/Ftl.thy ===== *)
theory Ftl
  imports GcManager PerfManager
begin

section \<open>The flash translation layer\<close>

text \<open>
  \<open>ftl.c\<close>: reading and writing a request of sectors. A write of a page goes to a new physical page,
  unless the host flagged it as a copy of a logical page that is mapped and the NVRAM has room for a
  further entry: then the logical page is remapped to the physical page of the copy's source.
\<close>

subsection \<open>Reading\<close>

text \<open>The slot of the collector that a page operation has to wait for.\<close>

definition slot_of :: "ssdconf \<Rightarrow> int \<Rightarrow> int \<Rightarrow> int option" where
  "slot_of sc num_flash num_blk =
     (if CHANNEL_NB sc = 0 \<or> PLANES_PER_FLASH sc = 0 then None
      else if GC_MODE sc = WHOLE_BLOCKING then Some 0
      else if GC_MODE sc = CHANNEL_BLOCKING then Some (num_flash smod CHANNEL_NB sc)
      else if GC_MODE sc = CHIP_BLOCKING then
        Some (num_flash * PLANES_PER_FLASH sc + num_blk smod PLANES_PER_FLASH sc)
      else None)"

definition wait_slot :: "ssdstate \<Rightarrow> int \<Rightarrow> int \<Rightarrow> ssdstate option" where
  "wait_slot ssd num_flash num_blk =
     do {
       slot \<leftarrow> slot_of (ssdparams ssd) num_flash num_blk;
       t \<leftarrow> cread (gc_slot (devtime ssd)) slot;
       Some (upd_devtime (\<lambda>dt. if blocking_to dt < t then dt\<lparr>blocking_to := t\<rparr> else dt) ssd)
     }"

definition read_page :: "int \<Rightarrow> int \<Rightarrow> int \<Rightarrow> int \<Rightarrow> int \<times> ssdstate \<Rightarrow> (unit + int \<times> ssdstate) option" where
  "read_page lba left_skip right_skip i = (\<lambda>(max_tt, ssd).
     do {
       let lpn = lba sdiv SECTORS_PER_PAGE (ssdparams ssd);
       p \<leftarrow> GET_MAPPING_INFO ssd lpn;
       let ppn = (if p = - 1 then 0 else p);
       ssd1 \<leftarrow> wait_slot ssd (CALC_FLASH ssd ppn) (CALC_BLOCK ssd ppn);
       (cur_tt, ssd2) \<leftarrow> SSD_PAGE_READ ssd1 (CALC_FLASH ssd ppn) (CALC_BLOCK ssd ppn) (CALC_PAGE ssd1 ppn);
       let ssd3 = stat_tick ssd2;
       Some (Inr (if max_tt < cur_tt then cur_tt else max_tt, ssd3))
     })"

definition FTL_READ_body :: "ssdstate \<Rightarrow> int \<Rightarrow> int \<Rightarrow> (int \<times> ssdstate) option" where
  "FTL_READ_body ssd sector_nb len =
     do {
       let (curtime, ssd1) = read_clock USEC ssd;
       let ssd2 = upd_iostat (\<lambda>st. st\<lparr>nb_total_reads := nb_total_reads st + 1,
         nb_total_rd_sz := nb_total_rd_sz st + len\<rparr>) ssd1;
       (if SECTOR_NB (ssdparams ssd2) < s64 (sector_nb + len) then Some (FAIL, ssd2)
        else do {
          u \<leftarrow> for_pages (ssdparams ssd2) (\<lambda>lba l r i s. do {
                 p \<leftarrow> GET_MAPPING_INFO ssd2 (lba sdiv SECTORS_PER_PAGE (ssdparams ssd2));
                 Some (Inr ()) :: (unit + unit) option
               }) sector_nb len ();
          (ovh, io_page_nb, ssd3) \<leftarrow> ALLOC_IO_REQUEST ssd2 sector_nb len READ;
          let ssd4 = upd_devtime (\<lambda>dt. dt\<lparr>blocking_to := 0\<rparr>) (ssd3\<lparr>perf := (perf ssd3)\<lparr>io_alloc_overhead := ovh\<rparr>\<rparr>);
          r \<leftarrow> for_pages (ssdparams ssd4) read_page sector_nb len (0, ssd4);
          (case r of
             Inl _ \<Rightarrow> None
           | Inr (max_tt, ssd5) \<Rightarrow>
               let ssd6 = upd_iostat (\<lambda>st. st\<lparr>
                     nb_blocked_reads := (if curtime < blocking_to (devtime ssd5) then nb_blocked_reads st + 1 else nb_blocked_reads st),
                     stat_read_size_print := u64 (stat_read_size_print st + len)\<rparr>) ssd5
               in Some (max_tt, INCREASE_IO_REQUEST_SEQ_NB ssd6))
        })
     }"

definition FTL_READ :: "ssdstate \<Rightarrow> int \<Rightarrow> int \<Rightarrow> (int \<times> ssdstate) option" where
  "FTL_READ ssd sector_nb len = FTL_READ_body ssd sector_nb len"

subsection \<open>Writing\<close>

text \<open>The physical page that a flagged write refers to (\<open>h_ppn\<close>); logical page 0 cannot be named.\<close>

definition hint_ppn :: "ssdstate \<Rightarrow> lpn_info \<Rightarrow> int option" where
  "hint_ppn ssd li = (if 0 < h_lpn li then cread (mapping_table ssd) (h_lpn li) else Some (- 1))"

definition remap_flag :: "int \<Rightarrow> bool" where
  "remap_flag flag \<longleftrightarrow> flag = CP_WRITE \<or> flag = DEDUP_WRITE \<or> flag = FS_GC_WRITE"

text \<open>Whether the page is remapped: the three conditions of the code ask the NVRAM for the matching flag only.\<close>

definition try_remap :: "ssdstate \<Rightarrow> int \<Rightarrow> int \<Rightarrow> (bool \<times> ssdstate) option" where
  "try_remap ssd flag h_ppn =
     (if remap_flag flag \<and> h_ppn \<noteq> - 1 then do {
        (r, ssd1) \<leftarrow> USE_REMAP ssd (CALC_BLOCK ssd h_ppn);
        Some (r = SUCCESS, ssd1)
      }
      else Some (False, ssd))"

definition count_remap :: "int \<Rightarrow> io_stat \<Rightarrow> io_stat" where
  "count_remap flag st =
     (let st1 = st\<lparr>stat_remap_cnt := u32 (stat_remap_cnt st + 1), stat_reduced_write := u32 (stat_reduced_write st + 1)\<rparr>
      in if flag = DEDUP_WRITE then st1\<lparr>stat_host_write_count := u32 (stat_host_write_count st + 1)\<rparr> else st1)"

definition remap_write :: "ssdstate \<Rightarrow> int \<Rightarrow> lpn_info \<Rightarrow> int \<Rightarrow> int \<Rightarrow> (int \<times> ssdstate) option" where
  "remap_write ssd lpn li h_ppn max_tt =
     do {
       (ok, ssd1) \<leftarrow> share_page ssd h_ppn lpn;
       (if \<not> ok then Some (max_tt, ssd1)
        else do {
          (d, ssd2) \<leftarrow> UPDATE_NVRAM_TS ssd1 (CALC_BLOCK ssd1 h_ppn) (NVRAM_WRITE_DELAY div 4);
          let cur_tt = (if lpn_flag li = DEDUP_WRITE then d + FING_DELAY else d);
          ssd3 \<leftarrow> redirect ssd2 lpn h_ppn;
          ssd4 \<leftarrow> (if lpn_flag li = FS_GC_WRITE then unmap_page ssd3 (h_lpn li) else Some ssd3);
          Some (if max_tt < cur_tt then cur_tt else max_tt, upd_iostat (count_remap (lpn_flag li)) ssd4)
        })
     }"

text \<open>
  A write to a new page; \<open>None\<close> in the result is the early return when there is no page. The
  \<open>nand_io_info\<close> record that the code allocates for the page is only passed to the timing functions,
  which do not look at it.
\<close>

definition new_write :: "ssdstate \<Rightarrow> int \<Rightarrow> bool \<Rightarrow> int \<Rightarrow> ((int \<times> int) option \<times> ssdstate) option" where
  "new_write ssd lpn partial max_tt =
     do {
       (p, ssd1) \<leftarrow> GET_NEW_PAGE ssd VICTIM_OVERALL (EMPTY_TABLE_ENTRY_NB (ssdparams ssd));
       (case p of
          None \<Rightarrow> Some (None, ssd1)
        | Some new_ppn \<Rightarrow> do {
            old_ppn \<leftarrow> GET_MAPPING_INFO ssd1 lpn;
            ssd2 \<leftarrow> wait_slot ssd1 (CALC_FLASH ssd1 new_ppn) (CALC_BLOCK ssd1 new_ppn);
            (d, ssd3) \<leftarrow> (if partial \<and> old_ppn \<noteq> - 1
              then SSD_PAGE_PARTIAL_WRITE ssd2 (CALC_FLASH ssd2 old_ppn) (CALC_BLOCK ssd2 old_ppn) (CALC_PAGE ssd2 old_ppn)
                     (CALC_FLASH ssd2 new_ppn) (CALC_BLOCK ssd2 new_ppn) (CALC_PAGE ssd2 new_ppn)
              else SSD_PAGE_WRITE ssd2 (CALC_FLASH ssd2 new_ppn) (CALC_BLOCK ssd2 new_ppn) (CALC_PAGE ssd2 new_ppn));
            let cur_tt = d + FING_DELAY;
            (r4, ssd4) \<leftarrow> UPDATE_OLD_PAGE_MAPPING ssd3 lpn;
            (r5, ssd5) \<leftarrow> UPDATE_NEW_PAGE_MAPPING ssd4 lpn new_ppn DATA_BLOCK;
            ssd6 \<leftarrow> set_in_nvram ssd5 lpn 0;
            let ssd7 = upd_iostat (\<lambda>st. st\<lparr>stat_host_write_count := u32 (stat_host_write_count st + 1)\<rparr>) ssd6;
            Some (Some (new_ppn, if max_tt < cur_tt then cur_tt else max_tt), ssd7)
          })
     }"

definition write_page :: "lpn_info list \<Rightarrow> int \<Rightarrow> int \<Rightarrow> int \<Rightarrow> int \<Rightarrow> int \<times> int \<times> ssdstate \<Rightarrow> (ssdstate + int \<times> int \<times> ssdstate) option" where
  "write_page infos lba left_skip right_skip i = (\<lambda>(new_ppn, max_tt, ssd).
     do {
       let lpn = lba sdiv SECTORS_PER_PAGE (ssdparams ssd);
       li \<leftarrow> cread infos i;
       h_ppn \<leftarrow> hint_ppn ssd li;
       (remap, ssd1) \<leftarrow> try_remap ssd (lpn_flag li) h_ppn;
       (if remap then do {
          (tt, ssd2) \<leftarrow> remap_write ssd1 lpn li h_ppn max_tt;
          Some (Inr (new_ppn, tt, stat_tick ssd2))
        }
        else do {
          (r, ssd2) \<leftarrow> new_write ssd1 lpn (left_skip \<noteq> 0 \<or> right_skip \<noteq> 0) max_tt;
          (case r of
             None \<Rightarrow> Some (Inl ssd2)
           | Some (p, tt) \<Rightarrow> Some (Inr (p, tt, stat_tick ssd2)))
        })
     })"

definition count_request :: "int \<Rightarrow> int \<Rightarrow> int \<Rightarrow> ssdstate \<Rightarrow> ssdstate option" where
  "count_request curtime max_tt len ssd =
     do {
       let st = iostat ssd;
       let req = u32 (stat_write_req_print st + 1);
       let delay = u64 (stat_write_delay_print st + max_tt);
       let size = u64 (stat_write_size_print st + len);
       (if req = 0 then None
        else Some (upd_iostat (\<lambda>st. st\<lparr>stat_write_req_print := req, stat_write_delay_print := delay,
          stat_avg_write_delay := delay div req, stat_write_size_print := size, stat_avg_req_size := size div req,
          stat_min_write_delay := (if u64 max_tt < stat_min_write_delay st then u64 max_tt else stat_min_write_delay st),
          stat_max_write_delay := (if stat_max_write_delay st < u64 max_tt then u64 max_tt else stat_max_write_delay st),
          nb_blocked_writes := (if curtime < blocking_to (devtime ssd) then nb_blocked_writes st + 1 else nb_blocked_writes st)\<rparr>) ssd))
     }"

text \<open>The end of a request: its statistics, the sequence number and the check for garbage collection.\<close>

definition finish_write :: "int \<Rightarrow> int \<Rightarrow> int \<times> int \<times> ssdstate \<Rightarrow> (int \<times> ssdstate) option" where
  "finish_write curtime len = (\<lambda>(new_ppn, max_tt, ssd).
     do {
       ssd1 \<leftarrow> count_request curtime max_tt len ssd;
       let ssd2 = INCREASE_IO_REQUEST_SEQ_NB ssd1;
       ssd3 \<leftarrow> (if 0 < new_ppn then GC_CHECK ssd2 (CALC_FLASH ssd2 new_ppn) (CALC_BLOCK ssd2 new_ppn) else Some ssd2);
       Some (max_tt, ssd3)
     })"

definition FTL_WRITE_body :: "ssdstate \<Rightarrow> request_meta \<Rightarrow> (int \<times> ssdstate) option" where
  "FTL_WRITE_body ssd req =
     do {
       let (curtime, ssd1) = read_clock USEC ssd;
       let len = req_length req;
       let sector_nb = req_sector_nb req;
       let ssd2 = (if in_warmup_stage (iostat ssd1) = 0
                   then upd_iostat (\<lambda>st. st\<lparr>nb_total_writes := nb_total_writes st + 1,
                          nb_total_wr_sz := nb_total_wr_sz st + len\<rparr>) ssd1
                   else ssd1);
       (if SECTOR_NB (ssdparams ssd2) < s64 (sector_nb + len) then Some (FAIL, ssd2)
        else do {
          (ovh, io_page_nb, ssd3) \<leftarrow> ALLOC_IO_REQUEST ssd2 sector_nb len WRITE;
          let (seed, ssd4) = read_clock USEC (ssd3\<lparr>perf := (perf ssd3)\<lparr>io_alloc_overhead := ovh\<rparr>\<rparr>);
          let ssd5 = upd_devtime (\<lambda>dt. dt\<lparr>blocking_to := 0\<rparr>) ssd4;
          r \<leftarrow> for_pages (ssdparams ssd5) (write_page (lpns_info req)) sector_nb len (- 1, 0, ssd5);
          (case r of
             Inl ssd6 \<Rightarrow> Some (FAIL, ssd6)
           | Inr st \<Rightarrow> finish_write curtime len st)
        })
     }"

text \<open>\<open>FTL_WRITE\<close> keeps the delay in an \<open>int\<close>.\<close>

definition FTL_WRITE :: "ssdstate \<Rightarrow> request_meta \<Rightarrow> (int \<times> ssdstate) option" where
  "FTL_WRITE ssd req = do { (ret, ssd1) \<leftarrow> FTL_WRITE_body ssd req; Some (s32 ret, ssd1) }"

subsection \<open>The host's view\<close>

text \<open>
  What the host may observe of the mapping: which logical pages are mapped and which of them are
  copies that share a page. A write to \<open>lpn\<close> either gives it a page that no other logical page
  has, or, if the host asked for it, the page of another logical page.
\<close>

definition tab :: "ssdstate \<Rightarrow> int \<Rightarrow> int" where
  "tab s l = (if 0 \<le> l \<and> l < pages_of s then l2p s l else - 1)"

inductive host_step :: "lpn_info \<Rightarrow> int \<Rightarrow> (int \<Rightarrow> int) \<Rightarrow> (int \<Rightarrow> int) \<Rightarrow> bool" where
  own_page: "(\<And>l. m l \<noteq> p) \<Longrightarrow> 0 \<le> p \<Longrightarrow> host_step li lpn m (m(lpn := p))"
| copy: "lpn_flag li = CP_WRITE \<or> lpn_flag li = DEDUP_WRITE \<Longrightarrow> 0 < h_lpn li \<Longrightarrow> m (h_lpn li) \<noteq> - 1 \<Longrightarrow>
    host_step li lpn m (m(lpn := m (h_lpn li)))"
| move: "lpn_flag li = FS_GC_WRITE \<Longrightarrow> 0 < h_lpn li \<Longrightarrow> m (h_lpn li) \<noteq> - 1 \<Longrightarrow>
    host_step li lpn m ((m(lpn := m (h_lpn li)))(h_lpn li := - 1))"

inductive host_steps :: "(lpn_info \<times> int) list \<Rightarrow> (int \<Rightarrow> int) \<Rightarrow> (int \<Rightarrow> int) \<Rightarrow> bool" where
  no_steps: "host_steps [] m m"
| one_more: "host_steps xs m m1 \<Longrightarrow> host_step li lpn m1 m2 \<Longrightarrow> host_steps (xs @ [(li, lpn)]) m m2"

text \<open>Two mappings are the same for the host.\<close>

definition same_sharing :: "(int \<Rightarrow> int) \<Rightarrow> (int \<Rightarrow> int) \<Rightarrow> bool" where
  "same_sharing m m' \<longleftrightarrow> (\<forall>l k. (m' l = - 1 \<longleftrightarrow> m l = - 1) \<and> (m' l = m' k \<longleftrightarrow> m l = m k))"

section \<open>Lemmas\<close>

lemma timedD:
  assumes "timed s s'"
  shows "same_but_time s s'" "time_inv s'" "room_kept (iostat s) (iostat s')"
  using assms by (simp_all add: timed_def)

lemma same_sharing_refl [simp]: "same_sharing m m"
  by (simp add: same_sharing_def)

lemma same_sharing_trans: "same_sharing m m' \<Longrightarrow> same_sharing m' m'' \<Longrightarrow> same_sharing m m''"
  by (simp add: same_sharing_def)

lemma relocated_sharing: "relocated B s s' \<Longrightarrow> ssdparams s' = ssdparams s \<Longrightarrow> same_sharing (tab s) (tab s')"
proof -
  assume r: "relocated B s s'" and pm: "ssdparams s' = ssdparams s"
  have un: "l2p s' l = - 1 \<longleftrightarrow> l2p s l = - 1" if "0 \<le> l" "l < pages_of s" for l
    using r that by (simp add: relocated_def)
  have sh: "l2p s' l = l2p s' k \<longleftrightarrow> l2p s l = l2p s k" if "0 \<le> l" "l < pages_of s" "0 \<le> k" "k < pages_of s" for l k
    using r that by (simp add: relocated_def)
  have "tab s' l = - 1 \<longleftrightarrow> tab s l = - 1" for l using un pm by (simp add: tab_def)
  moreover have "tab s' l = tab s' k \<longleftrightarrow> tab s l = tab s k" for l k
    using un [of l] un [of k] sh [of l k] pm by (auto simp: tab_def)
  ultimately show ?thesis by (simp add: same_sharing_def)
qed

lemma tab_upd:
  assumes "map_shape s" "0 \<le> l" "l < pages_of s" "mapping_table s' = (mapping_table s)[nat l := p]" "ssdparams s' = ssdparams s"
  shows "tab s' = (tab s)(l := p)"
proof
  fix q
  show "tab s' q = ((tab s)(l := p)) q"
    using l2p_set(1) [OF assms(1-3), of q p] assms(2-5) by (auto simp: tab_def l2p_def)
qed

lemma tab_same: "mapping_table s' = mapping_table s \<Longrightarrow> ssdparams s' = ssdparams s \<Longrightarrow> tab s' = tab s"
  by (rule ext) (simp add: tab_def l2p_def)

lemma mapped_ref:
  assumes "map_inv s" "0 \<le> l" "l < pages_of s" "l2p s l \<noteq> - 1"
  shows "0 \<le> l2p s l" "l2p s l < pages_of s" "1 \<le> page_ref s (l2p s l)" "page_ref s (l2p s l) \<le> 127"
proof -
  note A = accD [OF assms(1) [unfolded map_inv_def]]
  show r: "0 \<le> l2p s l" "l2p s l < pages_of s" using A(4) assms(2-4) by (auto simp: in_dev_def)
  have "l \<in> set (chain s (l2p s l))" using chain_refs(1) [OF assms(1) [unfolded map_inv_def] r] assms(2,3) by simp
  then have "0 < page_ref s (l2p s l)" using page_ref_chain(3) [OF A(6) r] by auto
  then show "1 \<le> page_ref s (l2p s l)" by simp
  show "page_ref s (l2p s l) \<le> 127" by (rule page_ref_range(2) [OF A(8) r])
qed

subsection \<open>Waiting and asking for room\<close>

lemma slot_of_ok:
  assumes "time_inv s" "sb_conf (ssdparams s)" "0 \<le> f" "f < flash_nb_of s" "0 \<le> b"
  shows "\<exists>k. slot_of (ssdparams s) f b = Some k \<and> 0 \<le> k \<and> k < int (length (gc_slot (devtime s)))"
proof -
  note T = time_invD [OF assms(1)] and C = sb_confD [OF assms(2)]
  have ch: "0 < CHANNEL_NB (ssdparams s)" using C(1) by (simp add: wf_conf_def)
  have "f smod CHANNEL_NB (ssdparams s) = f mod CHANNEL_NB (ssdparams s)" "b smod 1 = 0"
    using ch assms(3,5) by (simp_all add: smod_nonneg)
  then show ?thesis
    using T(5,6) C(2) assms(3,4) ch by (auto simp: slot_of_def gc_slots_def split: if_splits)
qed

lemma wait_slot_ok:
  assumes "time_inv s" "sb_conf (ssdparams s)" "0 \<le> f" "f < flash_nb_of s" "0 \<le> b"
  shows "\<exists>s'. wait_slot s f b = Some s' \<and> timed s s'"
proof -
  from slot_of_ok [OF assms] obtain k where
    k: "slot_of (ssdparams s) f b = Some k" "0 \<le> k" "k < int (length (gc_slot (devtime s)))" by blast
  let ?s = "upd_devtime (\<lambda>dt. if blocking_to dt < gc_slot (devtime s) ! nat k
    then dt\<lparr>blocking_to := gc_slot (devtime s) ! nat k\<rparr> else dt) s"
  have "wait_slot s f b = Some ?s" using k by (simp add: wait_slot_def cmem)
  moreover have "time_inv ?s" using assms(1) by (auto simp: time_inv_def time_shape_def upd_devtime_def)
  then have "timed s ?s" by (simp add: timed_def) (simp add: upd_devtime_def)
  ultimately show ?thesis by blast
qed

lemma dev_inv_nv:
  assumes "dev_inv s A" "same_but_nv s s'" "nv_inv s'" "time_inv s'" "\<And>c. 0 \<le> c \<Longrightarrow> live s' c = live s c"
  shows "dev_inv s' A" "page_ref s' q = page_ref s q" "tab s' = tab s"
proof -
  note D = dev_invD [OF assms(1)] and fr = same_but_nv_frame [OF assms(2)]
  note m = D(1) [unfolded map_inv_def]
  have l: "l2p s' = l2p s" "nvm s' = nvm s" by (intro ext, simp add: l2p_def nvm_def fr)+
  have "live s' c = int (card (nv_set s (l2p s) (nvm s) c))" if "0 \<le> c" "c < block_nb_of s" "c \<notin> {}" for c
    using accD(5) [OF m] assms(5) that by (simp add: nv_acc_def)
  note a = acc_nv [OF m assms(2,3) this refl]
  show pr: "page_ref s' q = page_ref s q" for q using a(2) by simp
  have "map_inv s'" using a(1) by (simp add: map_inv_def l)
  moreover have "fresh {} s' A" using D(4) by (simp add: fresh_def pr fr)
  ultimately show "dev_inv s' A"
    using D alloc_rel_same [OF same_alloc_of(2) [OF assms(2)] D(3)] assms(4) fr by (simp add: dev_inv_def)
  show "tab s' = tab s" by (rule tab_same) (simp_all add: fr)
qed

lemma USE_REMAP_dev:
  assumes "dev_inv s A" "0 \<le> b" "b < block_nb_of s" "room (Suc (nat (block_nb_of s)) + k) r w s"
  shows "\<exists>x s'. USE_REMAP s b = Some (x, s') \<and> dev_inv s' A \<and> room k r w s' \<and> tab s' = tab s \<and> ssdparams s' = ssdparams s \<and>
    perf s' = perf s \<and> (\<forall>q. page_ref s' q = page_ref s q) \<and> (x = SUCCESS \<and> has_room s' b \<or> x = FAIL)"
proof -
  note D = dev_invD [OF assms(1)]
  from USE_REMAP_ok [OF D(10,2) assms(4,2,3)] obtain x s' where
    u: "USE_REMAP s b = Some (x, s')" "nv_inv s'" "time_inv s'" "same_but_nv s s'" "room k r w s'"
      "\<forall>c. 0 \<le> c \<longrightarrow> live s' c = live s c" "x = SUCCESS \<and> has_room s' b \<or> x = FAIL" by blast
  note n = dev_inv_nv [OF assms(1) u(4,2,3)]
  show ?thesis using u n same_but_nv_frame [OF u(4)] by (intro exI [of _ x] exI [of _ s']) simp
qed

subsection \<open>Writing a page\<close>

text \<open>The table updates of a write to the unused page \<open>p\<close>.\<close>

lemma assign_page_ok:
  assumes "map_inv s" "0 \<le> l" "l < pages_of s" "0 \<le> p" "p < pages_of s" "page_ref s p = 0"
  shows "\<exists>s1 s2 s3. UPDATE_OLD_PAGE_MAPPING s l = Some (SUCCESS, s1) \<and>
    UPDATE_NEW_PAGE_MAPPING s1 l p DATA_BLOCK = Some (SUCCESS, s2) \<and> set_in_nvram s2 l 0 = Some s3 \<and>
    map_inv s3 \<and> map_frame s s3 \<and> tab s3 = (tab s)(l := p) \<and>
    (\<forall>q. 0 \<le> q \<longrightarrow> page_ref s3 q = (if q = p then 1 else if q = l2p s l then dropped (page_ref s q) else page_ref s q))"
proof -
  note A = accD [OF assms(1) [unfolded map_inv_def]]
  have ne: "p \<noteq> l2p s l" using mapped_ref(3) [OF assms(1-3)] assms(4,6) by (cases "l2p s l = - 1") auto
  from update_old_acc [OF assms(1-3)] obtain s1 where
    u: "UPDATE_OLD_PAGE_MAPPING s l = Some (SUCCESS, s1)" "acc {} {} s1 ((l2p s)(l := - 1)) (nvm s)" "map_frame s s1"
      "mapping_table s1 = mapping_table s" "in_nvram s1 = in_nvram s"
      "\<forall>q. 0 \<le> q \<longrightarrow> page_ref s1 q = (if q = l2p s l then dropped (page_ref s q) else page_ref s q)" by blast
  have p1: "ssdparams s1 = ssdparams s" using u(3) by (simp add: map_frame_def same_alloc_def)
  have r1: "page_ref s1 p = 0" using u(6) ne assms(4,6) by simp
  have "\<exists>s2. UPDATE_NEW_PAGE_MAPPING s1 l p DATA_BLOCK = Some (SUCCESS, s2) \<and>
    acc {} {} s2 (((l2p s)(l := - 1))(l := p)) ((nvm s)(l := 0)) \<and>
    map_frame s1 s2 \<and> mapping_table s2 = (mapping_table s1)[nat l := p] \<and> in_nvram s2 = in_nvram s1 \<and>
    (\<forall>q. 0 \<le> q \<longrightarrow> page_ref s2 q = (if q = p then page_ref s1 p + 1 else page_ref s1 q)) \<and>
    (\<forall>q. 0 \<le> q \<longrightarrow> chain s2 q = (if q = p then chain s1 p @ [l] else chain s1 q)) \<and> (\<forall>b. live s2 b = live s1 b)"
    by (rule update_new_acc [OF u(2)]) (use assms(2-5) p1 r1 in simp_all)
  then obtain s2 where
    n: "UPDATE_NEW_PAGE_MAPPING s1 l p DATA_BLOCK = Some (SUCCESS, s2)" "acc {} {} s2 ((l2p s)(l := p)) ((nvm s)(l := 0))"
      "map_frame s1 s2" "mapping_table s2 = (mapping_table s)[nat l := p]" "in_nvram s2 = in_nvram s"
      "\<forall>q. 0 \<le> q \<longrightarrow> page_ref s2 q = (if q = p then 1 else page_ref s1 q)"
    using u(4,5) r1 by auto
  have fr2: "map_frame s s2" by (rule map_frame_trans [OF u(3) n(3)])
  then have p2: "ssdparams s2 = ssdparams s" by (simp add: map_frame_def same_alloc_def)
  let ?s3 = "s2\<lparr>in_nvram := (in_nvram s2)[nat l := 0]\<rparr>"
  have "set_in_nvram s2 l 0 = Some ?s3" using set_mapping_ok(2) [OF accD(3) [OF n(2)] assms(2)] assms(3) p2 by simp
  moreover have "map_inv ?s3"
  proof (rule map_invI)
    show "acc {} {} ?s3 ((l2p s)(l := p)) ((nvm s)(l := 0))" by (rule acc_tables(3) [OF n(2)]) simp_all
    show "((l2p s)(l := p)) q = l2p ?s3 q \<and> ((nvm s)(l := 0)) q = nvm ?s3 q" if "0 \<le> q" "q < pages_of ?s3" for q
      using l2p_set [OF A(3) assms(2,3) that(1)] by (auto simp: l2p_def nvm_def n(4,5))
  qed
  moreover have "map_frame s ?s3" by (rule map_frame_trans [OF fr2]) simp
  moreover have "tab ?s3 = (tab s)(l := p)" by (rule tab_upd [OF A(3) assms(2,3)]) (simp_all add: n(4) p2)
  ultimately show ?thesis using u(1,6) n(1,6) by (intro exI [of _ s1] exI [of _ s2] exI [of _ ?s3]) simp
qed

definition program_delay :: "ssdconf \<Rightarrow> int" where
  "program_delay c = REG_WRITE_DELAY c + CELL_PROGRAM_DELAY c"

lemma dev_inv_assign:
  assumes "dev_inv s A0" "alloc_rel s' A" "map_inv s'" "time_inv s'" "xl2p_ppn s' = - 1" "ssdparams s' = ssdparams s"
    "set (sbs A) = set (sbs A0)" "p \<in> free_slots (ssdparams s) A0" "free_slots (ssdparams s) A = free_slots (ssdparams s) A0 - {p}"
    "\<And>q. 0 \<le> q \<Longrightarrow> page_ref s' q = (if q = p then 1 else if q = l2p s l then dropped (page_ref s q) else page_ref s q)"
    "l2p s l = - 1 \<or> 1 \<le> page_ref s (l2p s l)"
  shows "dev_inv s' A"
proof -
  have "dropped r = 0 \<longleftrightarrow> r = 0" if "1 \<le> r" for r using that by (simp add: dropped_def)
  then have "fresh {} s' A"
    using dev_invD(4) [OF assms(1)] assms(6,8-11) by (auto simp: fresh_def)
  then show ?thesis using assms(2-7) dev_invD(5) [OF assms(1)] by (simp add: dev_inv_def)
qed

text \<open>The time of a page write on the new page, read-modify-write included.\<close>

lemma program_ok:
  assumes "time_inv s" "sb_conf (ssdparams s)" "0 \<le> p" "p < pages_of s"
    "partial \<and> old \<noteq> - 1 \<Longrightarrow> 0 \<le> old \<and> old < pages_of s"
  shows "\<exists>s2 d s3. wait_slot s (CALC_FLASH s p) (CALC_BLOCK s p) = Some s2 \<and>
    (if partial \<and> old \<noteq> - 1
     then SSD_PAGE_PARTIAL_WRITE s2 (CALC_FLASH s2 old) (CALC_BLOCK s2 old) (CALC_PAGE s2 old)
            (CALC_FLASH s2 p) (CALC_BLOCK s2 p) (CALC_PAGE s2 p)
     else SSD_PAGE_WRITE s2 (CALC_FLASH s2 p) (CALC_BLOCK s2 p) (CALC_PAGE s2 p)) = Some (d, s3) \<and>
    timed s s3 \<and> program_delay (ssdparams s) \<le> d"
proof -
  note w = sb_confD(1) [OF assms(2)]
  note r = calc_ranges [OF w assms(3,4)]
  from wait_slot_ok [OF assms(1,2) r(1,2,3)] obtain s2 where
    s2: "wait_slot s (CALC_FLASH s p) (CALC_BLOCK s p) = Some s2" "timed s s2" by blast
  have p2: "ssdparams s2 = ssdparams s" and t2: "time_inv s2"
    using s2(2) same_but_time_frame(1) [of s s2] by (simp_all add: timed_def)
  have w2: "wf_conf (ssdparams s2)" using w p2 by simp
  show ?thesis
  proof (cases "partial \<and> old \<noteq> - 1")
    case True
    then have o: "0 \<le> old" "old < pages_of s2" using assms(5) p2 by simp_all
    from SSD_PAGE_PARTIAL_WRITE_timed [OF t2 calc_ranges(1,2) [OF w2 o]]
    show ?thesis using s2 True p2 timed_trans [OF s2(2)] by (fastforce simp: program_delay_def)
  next
    case False
    have pr: "p < pages_of s2" using assms(4) p2 by simp
    from SSD_PAGE_WRITE_timed [OF t2 calc_ranges(1,2) [OF w2 assms(3) pr]]
    show ?thesis using s2 False p2 timed_trans [OF s2(2)] by (fastforce simp: program_delay_def)
  qed
qed

lemma new_write_ok:
  assumes "dev_inv s A" "0 \<le> l" "l < pages_of s" "free_slots (ssdparams s) A \<noteq> {}"
  shows "\<exists>p tt s' A'. new_write s l partial tt0 = Some (Some (p, tt), s') \<and> dev_inv s' A' \<and>
    p \<in> free_slots (ssdparams s) A \<and> free_slots (ssdparams s) A' = free_slots (ssdparams s) A - {p} \<and>
    ssdparams s' = ssdparams s \<and> perf s' = perf s \<and> room_kept (iostat s) (iostat s') \<and> tab s' = (tab s)(l := p) \<and>
    (\<forall>q. 0 \<le> q \<longrightarrow> page_ref s' q \<le> max 1 (page_ref s q)) \<and> tt0 \<le> tt \<and> program_delay (ssdparams s) \<le> tt"
proof -
  note D = dev_invD [OF assms(1)] and A = accD [OF dev_invD(1) [OF assms(1), unfolded map_inv_def]]
  let ?c = "ssdparams s"
  from new_page_ok [OF D(3) assms(4), of "EMPTY_TABLE_ENTRY_NB ?c"] obtain p s1 A1 where
    g: "GET_NEW_PAGE s VICTIM_OVERALL (EMPTY_TABLE_ENTRY_NB ?c) = Some (Some p, s1)" "alloc_rel s1 A1" "same_but_alloc s s1"
      "p \<in> free_slots ?c A" "free_slots ?c A1 = free_slots ?c A - {p}" "set (sbs A1) = set (sbs A)" by blast
  note fr1 = same_but_alloc_frame [OF g(3)]
  note pr = free_slots_range [OF D(7,11) g(4)]
  have l1: "GET_MAPPING_INFO s1 l = Some (l2p s l)"
    using set_mapping_ok(3) [OF A(3) assms(2,3)] by (simp add: GET_MAPPING_INFO_def fr1)
  have old: "0 \<le> l2p s l \<and> l2p s l < pages_of s1" if "partial \<and> l2p s l \<noteq> - 1"
    using that mapped_ref [OF D(1) assms(2,3)] by (simp add: fr1)
  have t1: "time_inv s1" "sb_conf (ssdparams s1)" "p < pages_of s1" using D(2,7) pr by (simp_all add: time_inv_def fr1)
  from program_ok [OF t1(1,2) pr(1) t1(3), of partial "l2p s l", OF old] obtain s2 d s3 where
    w: "wait_slot s1 (CALC_FLASH s1 p) (CALC_BLOCK s1 p) = Some s2"
       "(if partial \<and> l2p s l \<noteq> - 1
         then SSD_PAGE_PARTIAL_WRITE s2 (CALC_FLASH s2 (l2p s l)) (CALC_BLOCK s2 (l2p s l)) (CALC_PAGE s2 (l2p s l))
                (CALC_FLASH s2 p) (CALC_BLOCK s2 p) (CALC_PAGE s2 p)
         else SSD_PAGE_WRITE s2 (CALC_FLASH s2 p) (CALC_BLOCK s2 p) (CALC_PAGE s2 p)) = Some (d, s3)"
       "timed s1 s3" "program_delay ?c \<le> d" unfolding fr1(1) by blast
  have sb: "same_but_time s1 s3" "time_inv s3" "room_kept (iostat s) (iostat s3)" using w(3) by (simp_all add: timed_def fr1)
  note fr3 = same_but_time_frame [OF sb(1)]
  have st: "same_tables s s3" by (rule same_tables_trans [OF same_tables_of(2) [OF g(3)] same_tables_of(1) [OF sb(1)]])
  note as = acc_same [OF st]
  have pm: "ssdparams s3 = ?c" by (simp add: fr3 fr1)
  have l3: "l2p s3 = l2p s" "nvm s3 = nvm s" by (intro ext, simp add: as)+
  have m3: "map_inv s3" using as(1) D(1) by (simp add: map_inv_def l3)
  have tb: "tab s3 = tab s" by (rule tab_same) (simp_all add: fr3 fr1)
  have r0: "page_ref s3 p = 0" using D(4) g(4) pr by (simp add: as(2) fresh_def)
  from assign_page_ok [OF m3 assms(2) _ pr(1) _ r0] assms(3) pr(2) pm obtain s4 s5 s6 where
    u: "UPDATE_OLD_PAGE_MAPPING s3 l = Some (SUCCESS, s4)" "UPDATE_NEW_PAGE_MAPPING s4 l p DATA_BLOCK = Some (SUCCESS, s5)"
      "set_in_nvram s5 l 0 = Some s6" "map_inv s6" "map_frame s3 s6" "tab s6 = (tab s)(l := p)"
      "\<And>q. 0 \<le> q \<Longrightarrow> page_ref s6 q = (if q = p then 1 else if q = l2p s l then dropped (page_ref s q) else page_ref s q)"
    by (auto simp: tb l3 as(2))
  have fr6: "same_alloc s3 s6" "devtime s6 = devtime s3" "iostat s6 = iostat s3" using u(5) by (simp_all add: map_frame_def)
  then have f6: "ssdparams s6 = ?c" "perf s6 = perf s" "xl2p_ppn s6 = - 1"
    using D(6) by (simp_all add: same_alloc_def fr3 fr1)
  have t6: "time_inv s6" using sb(2) fr6 by (simp add: time_inv_def same_alloc_def)
  have d6: "dev_inv s6 A1"
    by (rule dev_inv_assign [OF assms(1) _ u(4) t6 f6(3,1) g(6,4,5) u(7)])
      (use alloc_rel_same [OF fr6(1) same_alloc_time [OF w(3) g(2)]] mapped_ref(3) [OF D(1) assms(2,3)] in auto)
  let ?f = "\<lambda>st :: io_stat. st\<lparr>stat_host_write_count := u32 (stat_host_write_count st + 1)\<rparr>"
  have td: "timed s6 (upd_iostat ?f s6)" by (rule timed_iostat [OF t6]) simp_all
  then have t7: "same_but_time s6 (upd_iostat ?f s6)" "time_inv (upd_iostat ?f s6)" "room_kept (iostat s) (iostat (upd_iostat ?f s6))"
    using sb(3) by (simp_all add: timed_def fr6 room_kept_def)
  note fr7 = same_but_time_frame [OF t7(1)]
  have "new_write s l partial tt0 = Some (Some (p, if tt0 < d then d else tt0), upd_iostat ?f s6)"
    unfolding new_write_def using g(1) l1 w(1,2) u(1-3) by (simp add: Let_def split del: if_split)
  moreover have "dev_inv (upd_iostat ?f s6) A1" by (rule dev_inv_time [OF d6 t7(1,2)])
  moreover have "tab (upd_iostat ?f s6) = (tab s)(l := p)" using tab_same [OF fr7(2,1)] u(6) by simp
  moreover have "page_ref (upd_iostat ?f s6) q \<le> max 1 (page_ref s q)" if "0 \<le> q" for q
    using u(7) [OF that] time_tables(5) [OF t7(1), of q] by (auto simp: dropped_def max_def)
  ultimately show ?thesis
    using g(4,5) f6 t7(3) w(4) fr7 by (intro exI [of _ p] exI [of _ "if tt0 < d then d else tt0"]
      exI [of _ "upd_iostat ?f s6"] exI [of _ A1]) simp
qed

subsection \<open>Remapping a page\<close>

text \<open>An operation that neither takes a free page nor frees one.\<close>

lemma dev_inv_refs:
  assumes "dev_inv s A" "same_alloc s s'" "map_inv s'" "time_inv s'"
    "\<And>q. 0 \<le> q \<Longrightarrow> q < pages_of s \<Longrightarrow> page_ref s' q = 0 \<longleftrightarrow> page_ref s q = 0"
  shows "dev_inv s' A"
proof -
  note D = dev_invD [OF assms(1)] and pm = same_alloc_params [OF assms(2)]
  have "fresh {} s' A" using D(4) assms(5) by (simp add: fresh_def pm)
  then show ?thesis using D(5,6) assms(3,4) alloc_rel_same [OF assms(2) D(3)] assms(2)
    by (simp add: dev_inv_def same_alloc_def)
qed

lemma time_inv_frame: "time_inv s \<Longrightarrow> devtime s' = devtime s \<Longrightarrow> ssdparams s' = ssdparams s \<Longrightarrow> time_inv s'"
  by (simp add: time_inv_def)

lemma unmap_dev:
  assumes "dev_inv s A" "0 \<le> l" "l < pages_of s"
  shows "\<exists>s'. unmap_page s l = Some s' \<and> dev_inv s' A \<and> tab s' = (tab s)(l := - 1) \<and> map_frame s s' \<and>
    (\<forall>q. 0 \<le> q \<longrightarrow> page_ref s' q \<le> page_ref s q)"
proof -
  note D = dev_invD [OF assms(1)] and A = accD [OF dev_invD(1) [OF assms(1), unfolded map_inv_def]]
  from unmap_page_ok [OF D(1) assms(2,3)] obtain s' where
    u: "unmap_page s l = Some s'" "map_inv s'" "map_frame s s'" "mapping_table s' = (mapping_table s)[nat l := - 1]"
      "\<And>q. 0 \<le> q \<Longrightarrow> page_ref s' q = (if q = l2p s l then dropped (page_ref s q) else page_ref s q)" by blast
  have fr: "same_alloc s s'" "devtime s' = devtime s" using u(3) by (simp_all add: map_frame_def)
  note pm = same_alloc_params [OF fr(1)]
  have "dev_inv s' A"
  proof (rule dev_inv_refs [OF assms(1) fr(1) u(2) time_inv_frame [OF D(2) fr(2) pm]])
    fix q assume "0 \<le> q" "q < pages_of s"
    then show "page_ref s' q = 0 \<longleftrightarrow> page_ref s q = 0"
      using u(5) mapped_ref(3) [OF D(1) assms(2,3)] by (auto simp: dropped_def)
  qed
  moreover have "tab s' = (tab s)(l := - 1)" by (rule tab_upd [OF A(3) assms(2,3) u(4) pm])
  moreover have "page_ref s' q \<le> page_ref s q" if "0 \<le> q" for q
    using u(5) [OF that] by (simp add: dropped_def)
  ultimately show ?thesis using u(1,3) by blast
qed

lemma remap_dev:
  assumes "dev_inv s A" "0 \<le> l" "l < pages_of s" "0 \<le> p" "p < pages_of s" "0 < page_ref s p" "page_ref s p < 127"
  shows "\<exists>s1. share_page s p l = Some (True, s1) \<and> time_inv s1 \<and> map_frame s s1 \<and>
    (\<forall>s2. timed s1 s2 \<longrightarrow> (\<exists>s3. redirect s2 l p = Some s3 \<and> dev_inv s3 A \<and> tab s3 = (tab s)(l := p) \<and> map_frame s2 s3 \<and>
      (\<forall>q. 0 \<le> q \<longrightarrow> page_ref s3 q \<le> page_ref s q + of_bool (q = p))))"
proof -
  note D = dev_invD [OF assms(1)] and A = accD [OF dev_invD(1) [OF assms(1), unfolded map_inv_def]]
  from share_page_ok [OF D(1) assms(4-7), of l] obtain s1 where
    s1: "share_page s p l = Some (True, s1)" "shared s p l s1" "map_frame s s1" by blast
  have t1: "time_inv s1" using s1(3) time_inv_frame [OF D(2)] by (simp add: map_frame_def same_alloc_def)
  have "\<exists>s3. redirect s2 l p = Some s3 \<and> dev_inv s3 A \<and> tab s3 = (tab s)(l := p) \<and> map_frame s2 s3 \<and>
      (\<forall>q. 0 \<le> q \<longrightarrow> page_ref s3 q \<le> page_ref s q + of_bool (q = p))" if "timed s1 s2" for s2
  proof -
    have sb: "same_but_time s1 s2" "time_inv s2" using that by (simp_all add: timed_def)
    from redirect_ok [OF D(1) assms(2-5) shared_time [OF s1(2) sb(1)]] obtain s3 where
      r: "redirect s2 l p = Some s3" "map_inv s3" "map_frame s2 s3" "mapping_table s3 = (mapping_table s)[nat l := p]"
        "\<And>q. 0 \<le> q \<Longrightarrow> page_ref s3 q = remap_ref s l p q" by blast
    have sa: "same_alloc s s3"
      using s1(3) same_alloc_of(3) [OF sb(1)] r(3) by (auto simp: map_frame_def intro: same_alloc_trans)
    note pm = same_alloc_params [OF sa]
    have t3: "time_inv s3" using r(3) time_inv_frame [OF sb(2)] by (simp add: map_frame_def same_alloc_def)
    have "dev_inv s3 A"
    proof (rule dev_inv_refs [OF assms(1) sa r(2) t3])
      fix q assume "0 \<le> q" "q < pages_of s"
      then show "page_ref s3 q = 0 \<longleftrightarrow> page_ref s q = 0"
        using r(5) mapped_ref(3) [OF D(1) assms(2,3)] assms(6) by (auto simp: remap_ref_def dropped_def Let_def)
    qed
    moreover have "tab s3 = (tab s)(l := p)" by (rule tab_upd [OF A(3) assms(2,3) r(4) pm])
    moreover have "page_ref s3 q \<le> page_ref s q + of_bool (q = p)" if "0 \<le> q" for q
      using r(5) [OF that] by (simp add: remap_ref_def dropped_def Let_def)
    ultimately show ?thesis using r(1,3) by blast
  qed
  then show ?thesis using s1(1,3) t1 by blast
qed

lemma remap_write_ok:
  assumes "dev_inv s A" "0 \<le> l" "l < pages_of s" "0 \<le> p" "p < pages_of s" "0 < page_ref s p" "page_ref s p < 127"
    "lpn_flag li = FS_GC_WRITE \<Longrightarrow> 0 \<le> h_lpn li \<and> h_lpn li < pages_of s"
  shows "\<exists>tt s'. remap_write s l li p tt0 = Some (tt, s') \<and> dev_inv s' A \<and> ssdparams s' = ssdparams s \<and> perf s' = perf s \<and>
    room_kept (iostat s) (iostat s') \<and>
    tab s' = (if lpn_flag li = FS_GC_WRITE then ((tab s)(l := p))(h_lpn li := - 1) else (tab s)(l := p)) \<and>
    (\<forall>q. 0 \<le> q \<longrightarrow> page_ref s' q \<le> page_ref s q + of_bool (q = p)) \<and> tt0 \<le> tt \<and> NVRAM_WRITE_DELAY div 4 \<le> tt"
proof -
  note D = dev_invD [OF assms(1)]
  from remap_dev [OF assms(1-7)] obtain s1 where
    s1: "share_page s p l = Some (True, s1)" "time_inv s1" "map_frame s s1"
      "\<And>s2. timed s1 s2 \<Longrightarrow> \<exists>s3. redirect s2 l p = Some s3 \<and> dev_inv s3 A \<and> tab s3 = (tab s)(l := p) \<and> map_frame s2 s3 \<and>
        (\<forall>q. 0 \<le> q \<longrightarrow> page_ref s3 q \<le> page_ref s q + of_bool (q = p))" by blast
  have p1: "ssdparams s1 = ssdparams s" "perf s1 = perf s" "iostat s1 = iostat s" using s1(3) by (simp_all add: map_frame_def same_alloc_def)
  have w1: "wf_conf (ssdparams s1)" "p < pages_of s1" using D(8) assms(5) p1 by simp_all
  from UPDATE_NVRAM_TS_timed [OF s1(2) calc_ranges(3,4) [OF w1(1) assms(4) w1(2)], of "NVRAM_WRITE_DELAY div 4"] obtain d s2 where
    n: "UPDATE_NVRAM_TS s1 (CALC_BLOCK s1 p) (NVRAM_WRITE_DELAY div 4) = Some (d, s2)" "timed s1 s2" "NVRAM_WRITE_DELAY div 4 \<le> d" by auto
  have sb2: "same_but_time s1 s2" "room_kept (iostat s) (iostat s2)" using n(2) p1 by (simp_all add: timed_def)
  note fr2 = same_but_time_frame [OF sb2(1)]
  from s1(4) [OF n(2)] obtain s3 where
    r: "redirect s2 l p = Some s3" "dev_inv s3 A" "tab s3 = (tab s)(l := p)" "map_frame s2 s3"
      "\<And>q. 0 \<le> q \<Longrightarrow> page_ref s3 q \<le> page_ref s q + of_bool (q = p)" by blast
  have p3: "ssdparams s3 = ssdparams s" using r(4) p1 by (simp add: map_frame_def same_alloc_def fr2)
  let ?t = "if lpn_flag li = FS_GC_WRITE then ((tab s)(l := p))(h_lpn li := - 1) else (tab s)(l := p)"
  have "\<exists>s4. (if lpn_flag li = FS_GC_WRITE then unmap_page s3 (h_lpn li) else Some s3) = Some s4 \<and> dev_inv s4 A \<and> tab s4 = ?t \<and>
    map_frame s3 s4 \<and> (\<forall>q. 0 \<le> q \<longrightarrow> page_ref s4 q \<le> page_ref s3 q)"
  proof (cases "lpn_flag li = FS_GC_WRITE")
    case True
    then show ?thesis using unmap_dev [OF r(2), of "h_lpn li"] assms(8) p3 r(3) by simp
  next
    case False
    then show ?thesis using r(2,3) by simp
  qed
  then obtain s4 where u: "(if lpn_flag li = FS_GC_WRITE then unmap_page s3 (h_lpn li) else Some s3) = Some s4" "dev_inv s4 A"
    "tab s4 = ?t" "map_frame s3 s4" "\<And>q. 0 \<le> q \<Longrightarrow> page_ref s4 q \<le> page_ref s3 q" by blast
  let ?s5 = "upd_iostat (count_remap (lpn_flag li)) s4" and ?d = "if lpn_flag li = DEDUP_WRITE then d + FING_DELAY else d"
  have "timed s4 ?s5" by (rule timed_iostat [OF dev_invD(2) [OF u(2)]]) (simp_all add: count_remap_def Let_def)
  then have t5: "same_but_time s4 ?s5" "time_inv ?s5" "room_kept (iostat s4) (iostat ?s5)" by (simp_all add: timed_def)
  note fr5 = same_but_time_frame [OF t5(1)]
  have "map_frame s2 s4" by (rule map_frame_trans [OF r(4) u(4)])
  then have p4: "ssdparams s4 = ssdparams s" "perf s4 = perf s" "iostat s4 = iostat s2"
    using p1 by (simp_all add: map_frame_def same_alloc_def fr2)
  have "remap_write s l li p tt0 = Some (if tt0 < ?d then ?d else tt0, ?s5)"
    unfolding remap_write_def using s1(1) n(1) r(1) u(1) by (simp add: Let_def split del: if_split)
  moreover have "dev_inv ?s5 A" by (rule dev_inv_time [OF u(2) t5(1,2)])
  moreover have "tab ?s5 = ?t" using tab_same [OF fr5(2,1)] u(3) by simp
  moreover have "page_ref ?s5 q \<le> page_ref s q + of_bool (q = p)" if "0 \<le> q" for q
    using time_tables(5) [OF t5(1), of q] u(5) [OF that] r(5) [OF that] by linarith
  moreover have "room_kept (iostat s) (iostat ?s5)" using sb2(2) t5(3) p4(3) by (simp add: room_kept_def)
  ultimately show ?thesis
    using p4 n(3) by (intro exI [of _ "if tt0 < ?d then ?d else tt0"] exI [of _ ?s5]) (simp add: fr5)
qed

subsection \<open>One page of a write request\<close>

text \<open>
  Room for \<open>k\<close> more references on any page: the reference counts are eight bits wide and the code
  does not guard them.
\<close>

definition ref_room :: "nat \<Rightarrow> ssdstate \<Rightarrow> bool" where
  "ref_room k s \<longleftrightarrow> int k \<le> 126 \<and> (\<forall>q. 0 \<le> q \<longrightarrow> q < pages_of s \<longrightarrow> page_ref s q + int k \<le> 127)"

lemma ref_room_mono: "ref_room k s \<Longrightarrow> j \<le> k \<Longrightarrow> ref_room j s"
  by (fastforce simp: ref_room_def)

lemma ref_room_step:
  assumes "ref_room (k + m) s" "ssdparams s' = ssdparams s" "m \<le> 1"
    "\<And>q. 0 \<le> q \<Longrightarrow> page_ref s' q \<le> max 1 (page_ref s q) + int m"
  shows "ref_room k s'"
  unfolding ref_room_def
proof (intro conjI allI impI)
  show "int k \<le> 126" using assms(1) by (simp add: ref_room_def)
  fix q assume q: "0 \<le> q" "q < pages_of s'"
  have "page_ref s q + int (k + m) \<le> 127" "int (k + m) \<le> 126" using assms(1,2) q by (simp_all add: ref_room_def)
  then show "page_ref s' q + int k \<le> 127" using assms(4) [OF q(1)] by (simp add: max_def split: if_splits)
qed

definition flagged :: "lpn_info list \<Rightarrow> nat" where
  "flagged infos = length (filter (\<lambda>li. remap_flag (lpn_flag li)) infos)"

lemma tab_mapped:
  assumes "map_inv s" "tab s l = p" "p \<noteq> - 1"
  shows "0 \<le> l" "l < pages_of s" "l2p s l = p" "0 \<le> p" "p < pages_of s" "1 \<le> page_ref s p"
proof -
  show l: "0 \<le> l" "l < pages_of s" "l2p s l = p" using assms(2,3) by (simp_all add: tab_def split: if_splits)
  show "0 \<le> p" "p < pages_of s" "1 \<le> page_ref s p" using mapped_ref [OF assms(1) l(1,2)] l(3) assms(3) by simp_all
qed

text \<open>What one page of the request has achieved.\<close>

definition page_written :: "lpn_info \<Rightarrow> int \<Rightarrow> ssdstate \<Rightarrow> allocator \<Rightarrow> int \<Rightarrow> ssdstate \<Rightarrow> allocator \<Rightarrow> int \<Rightarrow> bool" where
  "page_written li lpn s A tt0 s' A' tt \<longleftrightarrow> dev_inv s' A' \<and> host_step li lpn (tab s) (tab s') \<and>
     card (free_slots (ssdparams s) A) \<le> card (free_slots (ssdparams s) A') + 1 \<and> ssdparams s' = ssdparams s \<and> perf s' = perf s \<and>
     tt0 \<le> tt \<and> min (NVRAM_WRITE_DELAY div 4) (program_delay (ssdparams s)) \<le> tt"

lemma page_written_tick:
  assumes "page_written li lpn s A tt0 s' A' tt"
  shows "page_written li lpn s A tt0 (stat_tick s') A' tt" "page_ref (stat_tick s') q = page_ref s' q"
    "room_kept (iostat s') (iostat (stat_tick s'))"
proof -
  have "dev_inv s' A'" using assms by (simp add: page_written_def)
  then have t: "same_but_time s' (stat_tick s')" "time_inv (stat_tick s')" "room_kept (iostat s') (iostat (stat_tick s'))"
    using timed_stat_tick [OF dev_invD(2)] by (simp_all add: timed_def)
  note fr = same_but_time_frame [OF t(1)]
  show "page_ref (stat_tick s') q = page_ref s' q" by (rule time_tables(5) [OF t(1)])
  show "room_kept (iostat s') (iostat (stat_tick s'))" by (rule t)
  have "tab (stat_tick s') = tab s'" by (rule tab_same) (simp_all add: fr)
  then show "page_written li lpn s A tt0 (stat_tick s') A' tt"
    using assms dev_inv_time [OF \<open>dev_inv s' A'\<close> t(1,2)] by (simp add: page_written_def fr)
qed

lemma new_write_step:
  assumes "dev_inv s A" "0 \<le> l" "l < pages_of s" "free_slots (ssdparams s) A \<noteq> {}"
  shows "\<exists>p tt s' A'. new_write s l partial tt0 = Some (Some (p, tt), s') \<and> page_written li l s A tt0 s' A' tt \<and>
    room_kept (iostat s) (iostat s') \<and> (\<forall>q. 0 \<le> q \<longrightarrow> page_ref s' q \<le> max 1 (page_ref s q))"
proof -
  note D = dev_invD [OF assms(1)]
  from new_write_ok [OF assms, of partial tt0] obtain p tt s' A' where
    n: "new_write s l partial tt0 = Some (Some (p, tt), s')" "dev_inv s' A'" "p \<in> free_slots (ssdparams s) A"
      "free_slots (ssdparams s) A' = free_slots (ssdparams s) A - {p}" "ssdparams s' = ssdparams s" "perf s' = perf s"
      "room_kept (iostat s) (iostat s')" "tab s' = (tab s)(l := p)" "\<forall>q. 0 \<le> q \<longrightarrow> page_ref s' q \<le> max 1 (page_ref s q)"
      "tt0 \<le> tt" "program_delay (ssdparams s) \<le> tt" by blast
  note r = free_slots_range [OF D(7,11) n(3)]
  have "page_ref s p = 0" using D(4) n(3) r by (simp add: fresh_def)
  then have "tab s k \<noteq> p" for k using tab_mapped(6) [OF D(1), of k p] r(1) by auto
  then have "host_step li l (tab s) (tab s')" using host_step.own_page [of "tab s" p li l] r(1) n(8) by simp
  moreover have "card (free_slots (ssdparams s) A) = card (free_slots (ssdparams s) A') + 1"
    using card_Suc_Diff1 [OF finite_free_slots [OF D(3)] n(3)] n(4) by simp
  ultimately have "page_written li l s A tt0 s' A' tt"
    using n(2,5,6,10,11) by (simp add: page_written_def)
  then show ?thesis using n(1,7,9) by blast
qed

lemma remap_write_step:
  assumes "dev_inv s A" "0 \<le> l" "l < pages_of s" "0 < h_lpn li" "tab s (h_lpn li) = p" "p \<noteq> - 1" "remap_flag (lpn_flag li)"
    "page_ref s p < 127"
  shows "\<exists>tt s'. remap_write s l li p tt0 = Some (tt, s') \<and> page_written li l s A tt0 s' A tt \<and>
    room_kept (iostat s) (iostat s') \<and> (\<forall>q. 0 \<le> q \<longrightarrow> page_ref s' q \<le> max 1 (page_ref s q) + 1)"
proof -
  note m = tab_mapped [OF dev_invD(1) [OF assms(1)] assms(5,6)]
  have g: "lpn_flag li = FS_GC_WRITE \<Longrightarrow> 0 \<le> h_lpn li \<and> h_lpn li < pages_of s" using m by simp
  have "0 < page_ref s p" using m(6) by simp
  from remap_write_ok [OF assms(1-3) m(4,5) this assms(8), of li tt0, OF g] obtain tt s' where
    r: "remap_write s l li p tt0 = Some (tt, s')" "dev_inv s' A" "ssdparams s' = ssdparams s" "perf s' = perf s"
      "room_kept (iostat s) (iostat s')"
      "tab s' = (if lpn_flag li = FS_GC_WRITE then ((tab s)(l := p))(h_lpn li := - 1) else (tab s)(l := p))"
      "\<And>q. 0 \<le> q \<Longrightarrow> page_ref s' q \<le> page_ref s q + of_bool (q = p)" "tt0 \<le> tt" "NVRAM_WRITE_DELAY div 4 \<le> tt" by blast
  have "host_step li l (tab s) (tab s')"
  proof (cases "lpn_flag li = FS_GC_WRITE")
    case True
    then show ?thesis using host_step.move [of li "tab s" l] assms(4-6) r(6) by simp
  next
    case False
    then show ?thesis using host_step.copy [of li "tab s" l] assms(4-7) r(6) by (simp add: remap_flag_def)
  qed
  then have "page_written li l s A tt0 s' A tt" using r(2-4,8,9) by (simp add: page_written_def)
  moreover have "page_ref s' q \<le> max 1 (page_ref s q) + 1" if "0 \<le> q" for q
    using r(7) [OF that] by (simp add: max_def of_bool_def split: if_splits)
  ultimately show ?thesis using r(1,5) by blast
qed

lemma hint_ppn_ok:
  assumes "dev_inv s A" "h_lpn li < pages_of s"
  shows "hint_ppn s li = Some (if 0 < h_lpn li then tab s (h_lpn li) else - 1)"
  using set_mapping_ok(3) [OF accD(3) [OF dev_invD(1) [OF assms(1), unfolded map_inv_def]], of "h_lpn li"] assms(2)
  by (simp add: hint_ppn_def GET_MAPPING_INFO_def tab_def)

lemma try_remap_ok:
  assumes "dev_inv s A" "room (Suc (nat (block_nb_of s)) + k) r w s" "h = - 1 \<or> 0 \<le> h \<and> h < pages_of s"
  shows "\<exists>ok s'. try_remap s flag h = Some (ok, s') \<and> dev_inv s' A \<and> room k r w s' \<and> tab s' = tab s \<and> ssdparams s' = ssdparams s \<and>
    perf s' = perf s \<and> (\<forall>q. page_ref s' q = page_ref s q) \<and> (ok \<longrightarrow> remap_flag flag \<and> h \<noteq> - 1)"
proof (cases "remap_flag flag \<and> h \<noteq> - 1")
  case True
  then have h: "0 \<le> h" "h < pages_of s" using assms(3) by auto
  note r = calc_ranges(3,4) [OF dev_invD(8) [OF assms(1)] h]
  from USE_REMAP_dev [OF assms(1) r assms(2)] show ?thesis using True by (auto simp: try_remap_def)
next
  case False
  have "room k r w s" using assms(2) by (rule print_room_mono) simp_all
  then show ?thesis using False assms(1) by (intro exI [of _ False] exI [of _ s]) (auto simp: try_remap_def)
qed

lemma room_keptD: "room_kept st st' \<Longrightarrow> print_room n r w st \<Longrightarrow> print_room n r w st'"
  by (simp add: room_kept_def)

lemma page_written_pre:
  assumes "page_written li l s1 A tt0 s' A' tt" "tab s1 = tab s" "ssdparams s1 = ssdparams s" "perf s1 = perf s"
  shows "page_written li l s A tt0 s' A' tt"
  using assms by (simp add: page_written_def)

lemma write_page_ok:
  assumes "dev_inv s A" "lba sdiv SECTORS_PER_PAGE (ssdparams s) = l" "0 \<le> l" "l < pages_of s"
    "cread infos i = Some li" "h_lpn li < pages_of s" "free_slots (ssdparams s) A \<noteq> {}"
    "ref_room (k + of_bool (remap_flag (lpn_flag li))) s" "room (Suc (nat (block_nb_of s)) + n) r w s"
  shows "\<exists>np tt s' A'. write_page infos lba lf rt i (np0, tt0, s) = Some (Inr (np, tt, s')) \<and>
    page_written li l s A tt0 s' A' tt \<and> room n r w s' \<and> ref_room k s'"
proof -
  define h where "h = (if 0 < h_lpn li then tab s (h_lpn li) else - 1)"
  have hp: "hint_ppn s li = Some h" using hint_ppn_ok [OF assms(1,6)] by (simp add: h_def)
  have hr: "h = - 1 \<or> 0 \<le> h \<and> h < pages_of s"
    using tab_mapped(4,5) [OF dev_invD(1) [OF assms(1)], of "h_lpn li" h] by (auto simp: h_def)
  from try_remap_ok [OF assms(1,9) hr, of "lpn_flag li"] obtain ok s1 where
    t: "try_remap s (lpn_flag li) h = Some (ok, s1)" "dev_inv s1 A" "room n r w s1" "tab s1 = tab s" "ssdparams s1 = ssdparams s"
      "perf s1 = perf s" "\<And>q. page_ref s1 q = page_ref s q" "ok \<longrightarrow> remap_flag (lpn_flag li) \<and> h \<noteq> - 1" by blast
  have l1: "l < pages_of s1" using assms(4) t(5) by simp
  have rr: "ref_room (k + of_bool (remap_flag (lpn_flag li))) s1" using assms(8) by (simp add: ref_room_def t(5,7))
  show ?thesis
  proof (cases ok)
    case True
    then have f: "remap_flag (lpn_flag li)" "h \<noteq> - 1" using t(8) by simp_all
    then have hl: "0 < h_lpn li" "tab s1 (h_lpn li) = h" "0 \<le> h" "h < pages_of s1" using hr t(4,5) by (auto simp: h_def split: if_splits)
    have "page_ref s1 h < 127" using rr f(1) hl(3,4) by (auto simp: ref_room_def)
    from remap_write_step [OF t(2) assms(3) l1 hl(1,2) f(2,1) this, of tt0] obtain tt s' where
      r: "remap_write s1 l li h tt0 = Some (tt, s')" "page_written li l s1 A tt0 s' A tt" "room_kept (iostat s1) (iostat s')"
        "\<And>q. 0 \<le> q \<Longrightarrow> page_ref s' q \<le> max 1 (page_ref s1 q) + 1" by blast
    note pw = page_written_tick [OF page_written_pre [OF r(2) t(4-6)]]
    have "ref_room k (stat_tick s')"
      by (rule ref_room_step [of k 1 s1]) (use rr f(1) r(4) pw(1) in \<open>auto simp: pw(2) page_written_def t(5)\<close>)
    moreover have "write_page infos lba lf rt i (np0, tt0, s) = Some (Inr (np0, tt, stat_tick s'))"
      using assms(2,5) hp t(1) True r(1) by (simp add: write_page_def Let_def)
    ultimately show ?thesis using pw(1) room_keptD [OF pw(3) room_keptD [OF r(3) t(3)]] by blast
  next
    case False
    let ?pt = "lf \<noteq> 0 \<or> rt \<noteq> 0"
    have "free_slots (ssdparams s1) A \<noteq> {}" using assms(7) t(5) by simp
    from new_write_step [OF t(2) assms(3) l1 this, of ?pt tt0 li] obtain p tt s' A' where
      r: "new_write s1 l ?pt tt0 = Some (Some (p, tt), s')" "page_written li l s1 A tt0 s' A' tt" "room_kept (iostat s1) (iostat s')"
        "\<And>q. 0 \<le> q \<Longrightarrow> page_ref s' q \<le> max 1 (page_ref s1 q)" by blast
    note pw = page_written_tick [OF page_written_pre [OF r(2) t(4-6)]]
    have "ref_room k s1" by (rule ref_room_mono [OF rr]) simp
    then have "ref_room k (stat_tick s')"
      by (intro ref_room_step [of k 0 s1]) (use r(4) pw(1) in \<open>auto simp: pw(2) page_written_def t(5)\<close>)
    moreover have "write_page infos lba lf rt i (np0, tt0, s) = Some (Inr (p, tt, stat_tick s'))"
      using assms(2,5) hp t(1) False r(1) by (simp add: write_page_def Let_def)
    ultimately show ?thesis using pw(1) room_keptD [OF pw(3) room_keptD [OF r(3) t(3)]] by blast
  qed
qed

subsection \<open>A whole write request\<close>

lemma dev_inv_perf:
  assumes "dev_inv s A" "same_but_perf s s'" "time_inv s'"
  shows "dev_inv s' A" "tab s' = tab s" "page_ref s' q = page_ref s q"
proof -
  note D = dev_invD [OF assms(1)] and fr = same_but_perf_frame [OF assms(2)]
  have st: "same_tables s s'" by (simp add: same_tables_def fr)
  note as = acc_same [OF st]
  have l: "l2p s' = l2p s" "nvm s' = nvm s" by (intro ext, simp add: as)+
  have "map_inv s'" using as(1) D(1) by (simp add: map_inv_def l)
  moreover have "alloc_rel s' A" using D(3) by (simp add: alloc_rel_def fr)
  moreover have "fresh {} s' A" using D(4) by (simp add: fresh_def as(2) fr)
  ultimately show "dev_inv s' A" using D(5,6) assms(3) by (simp add: dev_inv_def fr)
  show "tab s' = tab s" by (rule tab_same) (simp_all add: fr)
  show "page_ref s' q = page_ref s q" by (rule as)
qed

lemma cupto_Suc: "0 \<le> j \<Longrightarrow> cupto (j + 1) = cupto j @ [j]"
  by (simp add: cupto_def nat_add_distrib)

text \<open>The pages of a request, each with the host's information about it.\<close>

definition req_steps :: "ssdconf \<Rightarrow> request_meta \<Rightarrow> int \<Rightarrow> (lpn_info \<times> int) list" where
  "req_steps c req j = map (\<lambda>i. (lpns_info req ! nat i, req_sector_nb req div SECTORS_PER_PAGE c + i)) (cupto j)"

definition pages_in :: "ssdconf \<Rightarrow> request_meta \<Rightarrow> int" where
  "pages_in c req = req_pages c (req_sector_nb req) (req_length req)"

definition req_ok :: "ssdconf \<Rightarrow> request_meta \<Rightarrow> bool" where
  "req_ok c req \<longleftrightarrow> SECTORS_PER_PAGE c < 2 ^ 32 \<and> 0 \<le> req_sector_nb req \<and> 0 \<le> req_length req \<and> req_length req < 2 ^ 32 \<and>
     req_sector_nb req + req_length req \<le> SECTOR_NB c \<and> pages_in c req \<le> int (length (lpns_info req)) \<and>
     (\<forall>li \<in> set (lpns_info req). h_lpn li < PAGE_MAPPING_ENTRY_NB c)"

definition write_loop :: "ssdstate \<Rightarrow> allocator \<Rightarrow> request_meta \<Rightarrow> nat \<Rightarrow> nat \<Rightarrow> nat \<Rightarrow> nat \<Rightarrow> int \<Rightarrow> int \<times> int \<times> ssdstate \<Rightarrow> bool" where
  "write_loop s A req k n r w j = (\<lambda>(np, tt, s'). let c = ssdparams s in
     \<exists>A'. dev_inv s' A' \<and> host_steps (req_steps c req j) (tab s) (tab s') \<and>
       card (free_slots c A) \<le> card (free_slots c A') + nat j \<and> ssdparams s' = c \<and> perf s' = perf s \<and>
       room (n + nat (pages_in c req - j) * Suc (nat (BLOCK_NB c))) r w s' \<and>
       ref_room (k + flagged (drop (nat j) (take (nat (pages_in c req)) (lpns_info req)))) s' \<and>
       0 \<le> tt \<and> (0 < j \<longrightarrow> min (NVRAM_WRITE_DELAY div 4) (program_delay c) \<le> tt))"

lemma flagged_drop:
  assumes "0 \<le> j" "j < n" "n \<le> int (length xs)"
  shows "flagged (drop (nat j) (take (nat n) xs))
    = flagged (drop (nat (j + 1)) (take (nat n) xs)) + of_bool (remap_flag (lpn_flag (xs ! nat j)))"
proof -
  have "drop (nat j) (take (nat n) xs) = xs ! nat j # drop (Suc (nat j)) (take (nat n) xs)"
    using Cons_nth_drop_Suc [of "nat j" "take (nat n) xs"] assms by (simp add: nat_less_iff)
  then show ?thesis using assms(1) by (simp add: flagged_def nat_add_distrib)
qed

lemma write_loop_step:
  assumes "req_ok (ssdparams s) req" "0 \<le> j" "j < pages_in (ssdparams s) req"
    "lba div SECTORS_PER_PAGE (ssdparams s) = req_sector_nb req div SECTORS_PER_PAGE (ssdparams s) + j" "0 \<le> lba"
    "pages_in (ssdparams s) req \<le> int (card (free_slots (ssdparams s) A))" "write_loop s A req k n r w j st"
  shows "\<exists>st'. write_page (lpns_info req) lba lf rt j st = Some (Inr st') \<and> write_loop s A req k n r w (j + 1) st'"
proof -
  let ?c = "ssdparams s" and ?n = "pages_in (ssdparams s) req"
  obtain np tt s1 where st: "st = (np, tt, s1)" by (cases st)
  from assms(7) obtain A1 where q: "dev_inv s1 A1" "host_steps (req_steps ?c req j) (tab s) (tab s1)"
    "card (free_slots ?c A) \<le> card (free_slots ?c A1) + nat j" "ssdparams s1 = ?c" "perf s1 = perf s"
    "room (n + nat (?n - j) * Suc (nat (BLOCK_NB ?c))) r w s1" "ref_room (k + flagged (drop (nat j) (take (nat ?n) (lpns_info req)))) s1" "0 \<le> tt"
    by (auto simp: write_loop_def st Let_def)
  note R = assms(1) [unfolded req_ok_def]
  have w: "wf_conf ?c" using dev_invD(8) [OF q(1)] q(4) by simp
  have p: "0 < SECTORS_PER_PAGE ?c" using w by (simp add: wf_conf_def)
  define l where "l = req_sector_nb req div SECTORS_PER_PAGE ?c + j"
  have l: "0 \<le> l" "l < pages_of s1"
    using req_page_range [OF w _ _ _ assms(2), of "req_sector_nb req" "req_length req"] R assms(3) q(4) by (simp_all add: l_def pages_in_def)
  have lq: "lba sdiv SECTORS_PER_PAGE (ssdparams s1) = l" using assms(4,5) p q(4) by (simp add: sdiv_nonneg l_def)
  have jl: "nat j < length (lpns_info req)" using R assms(2,3) by linarith
  let ?li = "lpns_info req ! nat j"
  have cr: "cread (lpns_info req) j = Some ?li" using assms(2) jl by (simp add: cread_def)
  have h: "h_lpn ?li < pages_of s1" using R nth_mem [OF jl] q(4) by auto
  have fs: "free_slots (ssdparams s1) A1 \<noteq> {}" using q(3,4) assms(2,3,6) by (auto simp: card_eq_0_iff)
  let ?k = "flagged (drop (nat (j + 1)) (take (nat ?n) (lpns_info req)))"
  have rr: "ref_room (k + ?k + of_bool (remap_flag (lpn_flag ?li))) s1" using q(7) flagged_drop [OF assms(2,3)] R by (simp add: add_ac)
  have "nat (?n - j) = Suc (nat (?n - (j + 1)))" using assms(3) by linarith
  then have rm: "room (Suc (nat (block_nb_of s1)) + (n + nat (?n - (j + 1)) * Suc (nat (BLOCK_NB ?c)))) r w s1"
    using q(6) by (simp add: q(4) add_ac)
  from write_page_ok [OF q(1) lq l cr h fs rr rm, of lf rt np tt] obtain np' tt' s2 A2 where
    x: "write_page (lpns_info req) lba lf rt j st = Some (Inr (np', tt', s2))" "page_written ?li l s1 A1 tt s2 A2 tt'"
      "room (n + nat (?n - (j + 1)) * Suc (nat (BLOCK_NB ?c))) r w s2" "ref_room (k + ?k) s2" by (auto simp: st)
  have y: "dev_inv s2 A2" "host_step ?li l (tab s1) (tab s2)" "card (free_slots ?c A1) \<le> card (free_slots ?c A2) + 1"
    "ssdparams s2 = ?c" "perf s2 = perf s" "0 \<le> tt'" "min (NVRAM_WRITE_DELAY div 4) (program_delay ?c) \<le> tt'"
    using x(2) q(4,5,8) by (auto simp: page_written_def)
  have "host_steps (req_steps ?c req (j + 1)) (tab s) (tab s2)"
    using host_steps.one_more [OF q(2) y(2)] by (simp add: req_steps_def cupto_Suc [OF assms(2)] l_def)
  moreover have "card (free_slots ?c A) \<le> card (free_slots ?c A2) + nat (j + 1)" using q(3) y(3) assms(2) by simp
  ultimately have "write_loop s A req k n r w (j + 1) (np', tt', s2)"
    using y x(3,4) unfolding write_loop_def Let_def split_conv by blast
  then show ?thesis using x(1) by blast
qed

lemma count_request_ok:
  assumes "time_inv s" "room n r (Suc w) s"
  shows "\<exists>s'. count_request ct tt len s = Some s' \<and> same_but_time s s' \<and> time_inv s' \<and> room n r w s'"
proof -
  have "0 \<le> stat_write_req_print (iostat s)" "stat_write_req_print (iostat s) + 1 < 2 ^ 32"
    using assms(2) by (simp_all add: print_room_def)
  then have u: "u32 (stat_write_req_print (iostat s) + 1) = stat_write_req_print (iostat s) + 1" by (simp add: cint)
  with \<open>0 \<le> stat_write_req_print (iostat s)\<close> have nz: "u32 (stat_write_req_print (iostat s) + 1) \<noteq> 0" by simp
  obtain s' where s': "count_request ct tt len s = Some s'" using nz by (simp add: count_request_def Let_def)
  then obtain f where f: "s' = upd_iostat f s" "stat_NVRAMGC_print (f (iostat s)) = stat_NVRAMGC_print (iostat s)"
    "stat_GCRNVRAM_print (f (iostat s)) = stat_GCRNVRAM_print (iostat s)"
    "stat_write_req_print (f (iostat s)) = stat_write_req_print (iostat s) + 1"
    unfolding count_request_def Let_def using nz u by (auto split: if_splits)
  then have "iostat s' = f (iostat s)" by (simp add: upd_iostat_def)
  then have "room n r w s'" using f assms(2) by (simp add: print_room_def)
  then show ?thesis using s' f(1) assms(1) by simp
qed

lemma finish_write_ok:
  assumes "dev_inv s A" "sb_pages (ssdparams s) \<le> int (card (free_slots (ssdparams s) A)) + 1"
    "room n (Suc (nat (pages_of s)) + x) (Suc w) s"
  shows "\<exists>s' A'. finish_write ct len (np, tt, s) = Some (tt, s') \<and> dev_inv s' A' \<and> relocated UNIV s s' \<and>
    ssdparams s' = ssdparams s \<and> room n x w s' \<and> card (free_slots (ssdparams s) A) \<le> card (free_slots (ssdparams s) A') \<and>
    (0 < np \<longrightarrow> gc_done s' A') \<and> perf s' = perf (INCREASE_IO_REQUEST_SEQ_NB s)"
proof -
  note D = dev_invD [OF assms(1)]
  from count_request_ok [OF D(2) assms(3), of ct tt len] obtain s1 where
    c: "count_request ct tt len s = Some s1" "same_but_time s s1" "time_inv s1" "room n (Suc (nat (pages_of s)) + x) w s1" by blast
  let ?s2 = "INCREASE_IO_REQUEST_SEQ_NB s1"
  note fr = same_but_time_frame [OF c(2)]
  have sp: "same_but_perf s ?s2"
    by (rule same_but_perf_trans [OF same_but_perf_of_time [OF c(2)]]) (simp add: INCREASE_IO_REQUEST_SEQ_NB_def)
  have t2: "time_inv ?s2" "iostat ?s2 = iostat s1" using c(3) by (simp_all add: time_inv_def INCREASE_IO_REQUEST_SEQ_NB_def)
  note p2 = same_but_perf_frame(1,2) [OF sp]
  note d2 = dev_inv_perf [OF assms(1) sp t2(1)]
  have pf: "perf ?s2 = perf (INCREASE_IO_REQUEST_SEQ_NB s)" by (simp add: INCREASE_IO_REQUEST_SEQ_NB_def fr)
  have l2: "l2p ?s2 = l2p s" by (intro ext) (simp add: l2p_def p2)
  show ?thesis
  proof (cases "0 < np")
    case True
    have "sb_pages (ssdparams ?s2) \<le> int (card (free_slots (ssdparams ?s2) A)) + 1"
      "room n (Suc (nat (pages_of ?s2)) + x) w ?s2" using assms(2) c(4) t2(2) p2 by simp_all
    from GC_CHECK_ok [OF d2(1) this, of "CALC_FLASH ?s2 np" "CALC_BLOCK ?s2 np"] obtain s3 A3 where
      g: "GC_CHECK ?s2 (CALC_FLASH ?s2 np) (CALC_BLOCK ?s2 np) = Some s3" "dev_inv s3 A3" "relocated UNIV ?s2 s3"
        "ssdparams s3 = ssdparams ?s2" "room n x w s3" "perf s3 = perf ?s2" "gc_done s3 A3"
        "card (free_slots (ssdparams ?s2) A) \<le> card (free_slots (ssdparams ?s2) A3)" by blast
    have "relocated UNIV s s3" using relocated_trans [OF relocated_l2p [OF l2] g(3)] p2 by simp
    then show ?thesis
      using c(1) True g p2 pf by (intro exI [of _ s3] exI [of _ A3]) (simp add: finish_write_def Let_def)
  next
    case False
    have "room n x w ?s2" using c(4) t2(2) by (auto intro: print_room_mono)
    then show ?thesis
      using c(1) False d2(1) p2 pf relocated_l2p [OF l2]
      by (intro exI [of _ ?s2] exI [of _ A]) (simp add: finish_write_def Let_def)
  qed
qed

text \<open>Everything before the loop only touches time, counters and the request list.\<close>

definition perf_grown :: "perf_state \<Rightarrow> perf_state \<Rightarrow> bool" where
  "perf_grown p p' \<longleftrightarrow> (perf_ok p \<longrightarrow> perf_ok p' \<and> length (io_requests p') = length (io_requests p) + 1)"

lemma perf_grown_upd: "perf_grown p p' \<Longrightarrow> perf_grown p (p'\<lparr>io_alloc_overhead := x\<rparr>)"
  by (simp add: perf_grown_def perf_ok_def)

lemma perf_grown_seq:
  assumes "perf_grown p (perf s)"
  shows "perf_grown p (perf (INCREASE_IO_REQUEST_SEQ_NB s))"
  using assms by (auto simp: perf_grown_def perf_ok_def INCREASE_IO_REQUEST_SEQ_NB_def)

text \<open>Entering a request into the list, storing the overhead and clearing \<open>blocking_to\<close>.\<close>

lemma start_request:
  assumes "time_inv s" "SECTORS_PER_PAGE (ssdparams s) < 2 ^ 32" "0 \<le> sector" "0 \<le> len" "len < 2 ^ 32"
  shows "\<exists>d s1. ALLOC_IO_REQUEST s sector len ty = Some (d, req_pages (ssdparams s) sector len, s1) \<and>
    (\<forall>s2. s2 = s1\<lparr>perf := (perf s1)\<lparr>io_alloc_overhead := d\<rparr>\<rparr> \<longrightarrow>
      time_inv s2 \<and> same_but_perf s s2 \<and> iostat s2 = iostat s \<and> perf_grown (perf s) (perf s2))"
proof -
  from ALLOC_IO_REQUEST_ok [OF assms, of ty] obtain d s1 where
    a: "ALLOC_IO_REQUEST s sector len ty = Some (d, req_pages (ssdparams s) sector len, s1)" "time_inv s1" "same_but_perf s s1"
      "iostat s1 = iostat s" "perf_ok (perf s) \<longrightarrow> perf_ok (perf s1) \<and> butlast (io_requests (perf s1)) = io_requests (perf s) \<and>
         io_requests (perf s1) \<noteq> []" by blast
  have "length (io_requests (perf s1)) = length (io_requests (perf s)) + 1" if "perf_ok (perf s)"
  proof -
    have "butlast (io_requests (perf s1)) = io_requests (perf s)" "io_requests (perf s1) \<noteq> []" using a(5) that by blast+
    then show ?thesis by (metis length_append_singleton append_butlast_last_id Suc_eq_plus1)
  qed
  then have "perf_grown (perf s) (perf s1)" using a(5) by (simp add: perf_grown_def)
  moreover have "same_but_perf s (s1\<lparr>perf := p\<rparr>)" for p by (rule same_but_perf_trans [OF a(3)]) simp
  ultimately show ?thesis
    using a(1,2,4) by (intro exI [of _ d] exI [of _ s1]) (simp add: time_inv_def perf_grown_upd)
qed

definition no_block :: "ssdstate \<Rightarrow> ssdstate" where
  "no_block s = upd_devtime (\<lambda>dt. dt\<lparr>blocking_to := 0\<rparr>) s"

lemma no_block_timed: "time_inv s \<Longrightarrow> timed s (no_block s)"
  by (simp add: timed_def no_block_def) (simp add: time_inv_def time_shape_def upd_devtime_def)

definition prelude_of :: "ssdstate \<Rightarrow> ssdstate \<Rightarrow> bool" where
  "prelude_of s s' \<longleftrightarrow> same_but_perf s s' \<and> time_inv s' \<and> room_kept (iostat s) (iostat s') \<and> perf_grown (perf s) (perf s')"

lemma start_write:
  assumes "time_inv s" "req_ok (ssdparams s) req"
  shows "\<exists>ct s1. prelude_of s s1 \<and> FTL_WRITE_body s req = do {
      r \<leftarrow> for_pages (ssdparams s) (write_page (lpns_info req)) (req_sector_nb req) (req_length req) (- 1, 0, s1);
      (case r of Inl s2 \<Rightarrow> Some (FAIL, s2) | Inr st \<Rightarrow> finish_write ct (req_length req) st) }"
proof -
  note R = assms(2) [unfolded req_ok_def]
  obtain ct s1 where c1: "read_clock USEC s = (ct, s1)" by (cases "read_clock USEC s")
  have t1: "timed s s1" using timed_clock [OF assms(1), of USEC] c1 by simp
  define s2 where "s2 = (if in_warmup_stage (iostat s1) = 0
    then upd_iostat (\<lambda>st. st\<lparr>nb_total_writes := nb_total_writes st + 1, nb_total_wr_sz := nb_total_wr_sz st + req_length req\<rparr>) s1
    else s1)"
  have "timed s1 s2"
    unfolding s2_def by (cases "in_warmup_stage (iostat s1) = 0")
      (simp_all add: timed_iostat timed_refl timedD(2) [OF t1])
  then have "timed s s2" by (rule timed_trans [OF t1])
  then have t2: "same_but_time s s2" "time_inv s2" "room_kept (iostat s) (iostat s2)" by (simp_all add: timed_def)
  note fr2 = same_but_time_frame [OF t2(1)]
  have "\<exists>d s3. ALLOC_IO_REQUEST s2 (req_sector_nb req) (req_length req) WRITE
       = Some (d, req_pages (ssdparams s2) (req_sector_nb req) (req_length req), s3) \<and>
    (\<forall>s4. s4 = s3\<lparr>perf := (perf s3)\<lparr>io_alloc_overhead := d\<rparr>\<rparr> \<longrightarrow>
      time_inv s4 \<and> same_but_perf s2 s4 \<and> iostat s4 = iostat s2 \<and> perf_grown (perf s2) (perf s4))"
    by (rule start_request [OF t2(2)]) (use R fr2 in simp_all)
  then obtain d s3 where a: "ALLOC_IO_REQUEST s2 (req_sector_nb req) (req_length req) WRITE
       = Some (d, req_pages (ssdparams s2) (req_sector_nb req) (req_length req), s3)"
     "\<And>s4. s4 = s3\<lparr>perf := (perf s3)\<lparr>io_alloc_overhead := d\<rparr>\<rparr> \<Longrightarrow>
      time_inv s4 \<and> same_but_perf s2 s4 \<and> iostat s4 = iostat s2 \<and> perf_grown (perf s2) (perf s4)" by blast
  define s4 where "s4 = s3\<lparr>perf := (perf s3)\<lparr>io_alloc_overhead := d\<rparr>\<rparr>"
  note b = a(2) [OF s4_def]
  obtain seed s5 where c5: "read_clock USEC s4 = (seed, s5)" by (cases "read_clock USEC s4")
  have t5: "timed s4 s5" using timed_clock [of s4 USEC] b c5 by simp
  then have "timed s4 (no_block s5)" using no_block_timed [OF timedD(2) [OF t5]] timed_trans by blast
  then have t6: "same_but_time s4 (no_block s5)" "time_inv (no_block s5)" "room_kept (iostat s4) (iostat (no_block s5))"
    by (simp_all add: timed_def)
  note fr6 = same_but_time_frame [OF t6(1)] and fr4 = same_but_perf_frame [OF conjunct1 [OF conjunct2 [OF b]]]
  have "same_but_perf s (no_block s5)"
    by (rule same_but_perf_trans [OF same_but_perf_of_time [OF t2(1)] same_but_perf_trans [OF _ same_but_perf_of_time [OF t6(1)]]])
      (use b in simp)
  then have "prelude_of s (no_block s5)" using t2(3) t6(2,3) b by (simp add: prelude_of_def fr2 fr6 room_kept_def)
  moreover have "FTL_WRITE_body s req = do {
      r \<leftarrow> for_pages (ssdparams s) (write_page (lpns_info req)) (req_sector_nb req) (req_length req) (- 1, 0, no_block s5);
      (case r of Inl s2 \<Rightarrow> Some (FAIL, s2) | Inr st \<Rightarrow> finish_write ct (req_length req) st) }"
  proof -
    have ps: "ssdparams (no_block s5) = ssdparams s" by (simp add: fr6 fr4 fr2)
    have g: "\<not> SECTOR_NB (ssdparams s2) < s64 (req_sector_nb req + req_length req)"
      using R range_end [of "ssdparams s" "req_sector_nb req" "req_length req"] time_invD(1) [OF assms(1)] by (simp add: fr2)
    show ?thesis
      unfolding FTL_WRITE_body_def c1 Let_def split_conv s2_def [symmetric] if_not_P [OF g] a(1) bind.bind_lunit s4_def [symmetric] c5
        no_block_def [symmetric] ps by simp
  qed
  ultimately show ?thesis by blast
qed

text \<open>
  When a write can be served: enough free pages for the request and for the collector to work
  with afterwards, room in the reference counts, and print counters that do not wrap on the way.
  \<open>k\<close>, \<open>n\<close>, \<open>r\<close>, \<open>w\<close> are what should be left of the rooms.
\<close>

definition write_ready :: "nat \<Rightarrow> nat \<Rightarrow> nat \<Rightarrow> nat \<Rightarrow> ssdstate \<Rightarrow> allocator \<Rightarrow> request_meta \<Rightarrow> bool" where
  "write_ready k n r w s A req \<longleftrightarrow> (let c = ssdparams s; p = pages_in c req in
     p + sb_pages c \<le> int (card (free_slots c A)) + 1 \<and> ref_room (k + flagged (take (nat p) (lpns_info req))) s \<and>
     room (n + nat p * Suc (nat (BLOCK_NB c))) (Suc (nat (PAGE_MAPPING_ENTRY_NB c)) + r) (Suc w) s)"

text \<open>The references of a page are the logical pages that the table maps to it.\<close>

lemma page_ref_card:
  assumes "map_inv s" "0 \<le> q" "q < pages_of s"
  shows "int (card {l. tab s l = q}) = max 0 (page_ref s q)"
proof -
  note A = accD [OF assms(1) [unfolded map_inv_def]]
  note c = chain_refs [OF assms(1) [unfolded map_inv_def] assms(2,3)]
  have "{l. tab s l = q} = set (chain s q)" using c(1) assms(2) by (auto simp: tab_def)
  then have e: "card {l. tab s l = q} = length (chain s q)" using distinct_card [OF c(2)] by simp
  show ?thesis using page_ref_chain [OF A(6) assms(2,3)] e by (cases "0 < page_ref s q") auto
qed

definition share_room :: "nat \<Rightarrow> (int \<Rightarrow> int) \<Rightarrow> bool" where
  "share_room k m \<longleftrightarrow> int k \<le> 126 \<and> (\<forall>l. m l \<noteq> - 1 \<longrightarrow> int (card {j. m j = m l}) + int k \<le> 127)"

lemma share_room_sharing: "same_sharing m m' \<Longrightarrow> share_room k m \<Longrightarrow> share_room k m'"
  by (simp add: share_room_def same_sharing_def)

lemma ref_room_tab:
  assumes "map_inv s"
  shows "ref_room k s \<longleftrightarrow> share_room k (tab s)"
proof
  assume r: "ref_room k s"
  show "share_room k (tab s)"
    unfolding share_room_def
  proof (intro conjI allI impI)
    show "int k \<le> 126" using r by (simp add: ref_room_def)
    fix l assume "tab s l \<noteq> - 1"
    note m = tab_mapped [OF assms refl this]
    show "int (card {j. tab s j = tab s l}) + int k \<le> 127"
      using page_ref_card [OF assms m(4,5)] r m(4-6) by (simp add: ref_room_def)
  qed
next
  assume r: "share_room k (tab s)"
  show "ref_room k s"
    unfolding ref_room_def
  proof (intro conjI allI impI)
    show k: "int k \<le> 126" using r by (simp add: share_room_def)
    fix q assume q: "0 \<le> q" "q < pages_of s"
    note c = page_ref_card [OF assms q]
    show "page_ref s q + int k \<le> 127"
    proof (cases "0 < page_ref s q")
      case True
      then have "{l. tab s l = q} \<noteq> {}" using c by (metis card.empty of_nat_0 max.absorb2 less_le order_less_imp_le)
      then obtain l where l: "tab s l = q" by blast
      then have "int (card {j. tab s j = q}) + int k \<le> 127" using r q(1) unfolding share_room_def by force
      then show ?thesis using c True by simp
    qed (use k in simp)
  qed
qed

lemma write_pages_ok:
  assumes "dev_inv s A" "req_ok (ssdparams s) req" "pages_in (ssdparams s) req \<le> int (card (free_slots (ssdparams s) A))"
    "ref_room (k + flagged (take (nat (pages_in (ssdparams s) req)) (lpns_info req))) s"
    "room (n + nat (pages_in (ssdparams s) req) * Suc (nat (block_nb_of s))) r w s"
  shows "\<exists>st. for_pages (ssdparams s) (write_page (lpns_info req)) (req_sector_nb req) (req_length req) (- 1, 0, s) = Some (Inr st) \<and>
    write_loop s A req k n r w (pages_in (ssdparams s) req) st"
proof -
  note R = assms(2) [unfolded req_ok_def] and D = dev_invD [OF assms(1)]
  have Q0: "write_loop s A req k n r w 0 (- 1, 0, s)"
    using assms host_steps.no_steps by (auto simp: write_loop_def req_steps_def cupto_def Let_def)
  have "\<exists>x. for_pages (ssdparams s) (write_page (lpns_info req)) (req_sector_nb req) (req_length req) (- 1, 0, s) = Some x \<and>
    (case x of Inl y \<Rightarrow> False | Inr st \<Rightarrow> write_loop s A req k n r w (req_pages (ssdparams s) (req_sector_nb req) (req_length req)) st)"
  proof (rule for_pages_rule [OF D(8)])
    fix lba l rt j st
    assume h: "0 \<le> j" "j < req_pages (ssdparams s) (req_sector_nb req) (req_length req)"
      "lba div SECTORS_PER_PAGE (ssdparams s) = req_sector_nb req div SECTORS_PER_PAGE (ssdparams s) + j" "0 \<le> lba"
      "write_loop s A req k n r w j st"
    have "\<exists>st'. write_page (lpns_info req) lba l rt j st = Some (Inr st') \<and> write_loop s A req k n r w (j + 1) st'"
      by (rule write_loop_step [OF assms(2) h(1) _ h(3,4) assms(3) h(5)]) (use h(2) in \<open>simp add: pages_in_def\<close>)
    then show "\<exists>x. write_page (lpns_info req) lba l rt j st = Some x \<and> (case x of Inl y \<Rightarrow> False | Inr st' \<Rightarrow> write_loop s A req k n r w (j + 1) st')"
      by fastforce
  qed (use R Q0 in simp_all)
  then obtain x where x: "for_pages (ssdparams s) (write_page (lpns_info req)) (req_sector_nb req) (req_length req) (- 1, 0, s) = Some x"
    "case x of Inl y \<Rightarrow> False | Inr st \<Rightarrow> write_loop s A req k n r w (pages_in (ssdparams s) req) st" unfolding pages_in_def by blast
  then show ?thesis by (cases x) auto
qed

lemma FTL_WRITE_body_ok:
  assumes "dev_inv s A" "req_ok (ssdparams s) req" "write_ready k n r w s A req"
  shows "\<exists>tt s' A' m. FTL_WRITE_body s req = Some (tt, s') \<and> dev_inv s' A' \<and> ssdparams s' = ssdparams s \<and>
    host_steps (req_steps (ssdparams s) req (pages_in (ssdparams s) req)) (tab s) m \<and> same_sharing m (tab s') \<and>
    0 \<le> tt \<and> (0 < pages_in (ssdparams s) req \<longrightarrow> min (NVRAM_WRITE_DELAY div 4) (program_delay (ssdparams s)) \<le> tt) \<and>
    int (card (free_slots (ssdparams s) A)) \<le> int (card (free_slots (ssdparams s) A')) + pages_in (ssdparams s) req \<and>
    perf_grown (perf s) (perf s') \<and> ref_room k s' \<and> room n r w s'"
proof -
  let ?c = "ssdparams s" and ?n = "pages_in (ssdparams s) req"
  note D = dev_invD [OF assms(1)] and R = assms(2) [unfolded req_ok_def]
  have n0: "0 \<le> ?n"
    using R D(8) page_count_nonneg [of "SECTORS_PER_PAGE ?c" "req_sector_nb req mod SECTORS_PER_PAGE ?c"]
    by (simp add: pages_in_def req_pages_def wf_conf_def)
  have W: "?n + sb_pages ?c \<le> int (card (free_slots ?c A)) + 1" "ref_room (k + flagged (take (nat ?n) (lpns_info req))) s"
    "room (n + nat ?n * Suc (nat (BLOCK_NB ?c))) (Suc (nat (pages_of s)) + r) (Suc w) s" using assms(3) by (simp_all add: write_ready_def Let_def)
  have sb0: "1 \<le> sb_pages ?c" using sb_confD(3,9) [OF D(7)] by (simp add: sb_pages_def int_one_le_iff_zero_less)
  from start_write [OF D(2) assms(2)] obtain ct s1 where
    s1: "prelude_of s s1" "FTL_WRITE_body s req = do {
      r \<leftarrow> for_pages ?c (write_page (lpns_info req)) (req_sector_nb req) (req_length req) (- 1, 0, s1);
      (case r of Inl s2 \<Rightarrow> Some (FAIL, s2) | Inr st \<Rightarrow> finish_write ct (req_length req) st) }" by blast
  have pr: "same_but_perf s s1" "time_inv s1" "room_kept (iostat s) (iostat s1)" "perf_grown (perf s) (perf s1)"
    using s1(1) by (simp_all add: prelude_of_def)
  note d1 = dev_inv_perf [OF assms(1) pr(1,2)] and p1 = same_but_perf_frame(1) [OF pr(1)]
  have 1: "req_ok (ssdparams s1) req" "pages_in (ssdparams s1) req \<le> int (card (free_slots (ssdparams s1) A))"
    "ref_room (k + flagged (take (nat (pages_in (ssdparams s1) req)) (lpns_info req))) s1"
    "room (n + nat (pages_in (ssdparams s1) req) * Suc (nat (block_nb_of s1))) (Suc (nat (pages_of s)) + r) (Suc w) s1"
    using assms(2) W sb0 room_keptD [OF pr(3)] by (simp_all add: p1 ref_room_def d1(3))
  from write_pages_ok [OF d1(1) 1] obtain np tt s2 where
    l: "for_pages ?c (write_page (lpns_info req)) (req_sector_nb req) (req_length req) (- 1, 0, s1) = Some (Inr (np, tt, s2))"
      "write_loop s1 A req k n (Suc (nat (pages_of s)) + r) (Suc w) ?n (np, tt, s2)" by (auto simp: p1)
  then obtain A2 where q: "dev_inv s2 A2" "host_steps (req_steps ?c req ?n) (tab s) (tab s2)"
    "card (free_slots ?c A) \<le> card (free_slots ?c A2) + nat ?n" "ssdparams s2 = ?c" "perf s2 = perf s1"
    "room n (Suc (nat (pages_of s)) + r) (Suc w) s2" "ref_room k s2" "0 \<le> tt" "0 < ?n \<longrightarrow> min (NVRAM_WRITE_DELAY div 4) (program_delay ?c) \<le> tt"
    by (auto simp: write_loop_def Let_def p1 d1(2) flagged_def)
  have 2: "sb_pages (ssdparams s2) \<le> int (card (free_slots (ssdparams s2) A2)) + 1" "room n (Suc (nat (pages_of s2)) + r) (Suc w) s2"
    using q(3,4,6) W(1) n0 by simp_all
  from finish_write_ok [OF q(1) 2, of ct "req_length req" np tt] obtain s3 A3 where
    f: "finish_write ct (req_length req) (np, tt, s2) = Some (tt, s3)" "dev_inv s3 A3" "relocated UNIV s2 s3" "ssdparams s3 = ?c"
      "card (free_slots ?c A2) \<le> card (free_slots ?c A3)" "perf s3 = perf (INCREASE_IO_REQUEST_SEQ_NB s2)" "room n r w s3" by (auto simp: q(4))
  have sh: "same_sharing (tab s2) (tab s3)" by (rule relocated_sharing [OF f(3)]) (simp add: f(4) q(4))
  moreover have "ref_room k s3"
    using share_room_sharing [OF sh] q(7) ref_room_tab [OF dev_invD(1) [OF q(1)]] ref_room_tab [OF dev_invD(1) [OF f(2)]] by simp
  moreover have "perf_grown (perf s) (perf s3)" unfolding f(6) by (rule perf_grown_seq) (simp add: q(5) pr(4))
  moreover have "int (card (free_slots ?c A)) \<le> int (card (free_slots ?c A3)) + ?n" using q(3) f(5) n0 by linarith
  ultimately show ?thesis
    using s1(2) l(1) f q(2,8,9) by (intro exI [of _ tt] exI [of _ s3] exI [of _ A3] exI [of _ "tab s2"]) simp
qed

subsection \<open>A read request\<close>

lemma read_page_ok:
  assumes "dev_inv s A" "lba sdiv SECTORS_PER_PAGE (ssdparams s) = l" "0 \<le> l" "l < pages_of s"
  shows "\<exists>tt s'. read_page lba lf rt i (tt0, s) = Some (Inr (tt, s')) \<and> timed s s' \<and> tt0 \<le> tt \<and>
    CELL_READ_DELAY (ssdparams s) + REG_READ_DELAY (ssdparams s) \<le> tt"
proof -
  note D = dev_invD [OF assms(1)] and A = accD [OF dev_invD(1) [OF assms(1), unfolded map_inv_def]]
  let ?p = "if l2p s l = - 1 then 0 else l2p s l"
  have p: "0 \<le> ?p" "?p < pages_of s" using mapped_ref [OF D(1) assms(3,4)] assms(3,4) by auto
  note r = calc_ranges [OF D(8) p]
  from wait_slot_ok [OF D(2,7) r(1-3)] obtain s1 where
    w: "wait_slot s (CALC_FLASH s ?p) (CALC_BLOCK s ?p) = Some s1" "timed s s1" by blast
  note fr = same_but_time_frame [OF timedD(1) [OF w(2)]]
  have r2: "CALC_FLASH s ?p < flash_nb_of s1" using r(2) fr by simp
  from SSD_PAGE_READ_timed [OF timedD(2) [OF w(2)] r(1) r2, of "CALC_BLOCK s ?p" "CALC_PAGE s1 ?p"] obtain d s2 where
    x: "SSD_PAGE_READ s1 (CALC_FLASH s ?p) (CALC_BLOCK s ?p) (CALC_PAGE s1 ?p) = Some (d, s2)" "timed s1 s2"
      "CELL_READ_DELAY (ssdparams s) + REG_READ_DELAY (ssdparams s) \<le> d" by (auto simp: fr)
  have "timed s (stat_tick s2)"
    using timed_trans [OF timed_trans [OF w(2) x(2)] timed_stat_tick [OF timedD(2) [OF x(2)]]] .
  moreover have "read_page lba lf rt i (tt0, s) = Some (Inr (if tt0 < d then d else tt0, stat_tick s2))"
    using assms(2) set_mapping_ok(3) [OF A(3) assms(3,4)] w(1) x(1) by (simp add: read_page_def Let_def split del: if_split)
  ultimately show ?thesis using x(3) by (intro exI [of _ "if tt0 < d then d else tt0"] exI [of _ "stat_tick s2"]) simp
qed

definition read_loop :: "ssdstate \<Rightarrow> int \<Rightarrow> int \<times> ssdstate \<Rightarrow> bool" where
  "read_loop s j = (\<lambda>(tt, s'). timed s s' \<and> 0 \<le> tt \<and>
     (0 < j \<longrightarrow> CELL_READ_DELAY (ssdparams s) + REG_READ_DELAY (ssdparams s) \<le> tt))"

definition range_ok :: "ssdconf \<Rightarrow> int \<Rightarrow> int \<Rightarrow> bool" where
  "range_ok c sector len \<longleftrightarrow> SECTORS_PER_PAGE c < 2 ^ 32 \<and> 0 \<le> sector \<and> 0 \<le> len \<and> len < 2 ^ 32 \<and> sector + len \<le> SECTOR_NB c"

lemma read_pages_ok:
  assumes "dev_inv s A" "range_ok (ssdparams s) sector len"
  shows "\<exists>tt s'. for_pages (ssdparams s) read_page sector len (0, s) = Some (Inr (tt, s')) \<and>
    read_loop s (req_pages (ssdparams s) sector len) (tt, s')"
    "\<exists>u. for_pages (ssdparams s) (\<lambda>lba l r i x. do {
       p \<leftarrow> GET_MAPPING_INFO s (lba sdiv SECTORS_PER_PAGE (ssdparams s));
       Some (Inr ()) :: (unit + unit) option }) sector len () = Some u"
proof -
  note D = dev_invD [OF assms(1)] and R = assms(2) [unfolded range_ok_def]
  let ?c = "ssdparams s"
  have spp: "0 < SECTORS_PER_PAGE ?c" using D(8) by (simp add: wf_conf_def)
  have pg: "0 \<le> lba sdiv SECTORS_PER_PAGE ?c" "lba sdiv SECTORS_PER_PAGE ?c < pages_of s"
    if "0 \<le> j" "j < req_pages ?c sector len" "lba div SECTORS_PER_PAGE ?c = sector div SECTORS_PER_PAGE ?c + j" "0 \<le> lba" for lba j
    using req_page_range [OF D(8) _ _ _ that(1,2)] R that(3,4) spp by (simp_all add: sdiv_nonneg)
  have "\<exists>x. for_pages ?c read_page sector len (0, s) = Some x \<and>
    (case x of Inl y \<Rightarrow> False | Inr st \<Rightarrow> read_loop s (req_pages ?c sector len) st)"
  proof (rule for_pages_rule [OF D(8)])
    fix lba l r j st
    assume h: "0 \<le> j" "j < req_pages ?c sector len" "lba div SECTORS_PER_PAGE ?c = sector div SECTORS_PER_PAGE ?c + j" "0 \<le> lba"
      "read_loop s j st"
    obtain tt s1 where st: "st = (tt, s1)" "timed s s1" "0 \<le> tt" using h(5) by (auto simp: read_loop_def)
    have d1: "dev_inv s1 A" by (rule dev_inv_time [OF assms(1) timedD(1,2) [OF st(2)]])
    have p1: "ssdparams s1 = ?c" using same_but_time_frame(1) [OF timedD(1) [OF st(2)]] .
    from read_page_ok [OF d1 refl, of lba l r j tt] pg [OF h(1-4)] obtain tt' s2 where
      x: "read_page lba l r j (tt, s1) = Some (Inr (tt', s2))" "timed s1 s2" "tt \<le> tt'" "CELL_READ_DELAY ?c + REG_READ_DELAY ?c \<le> tt'"
      by (auto simp: p1)
    then have "read_loop s (j + 1) (tt', s2)" using timed_trans [OF st(2) x(2)] st(3) by (simp add: read_loop_def)
    then show "\<exists>x. read_page lba l r j st = Some x \<and> (case x of Inl y \<Rightarrow> False | Inr st' \<Rightarrow> read_loop s (j + 1) st')"
      using x(1) st(1) by (intro exI [of _ "Inr (tt', s2)"]) simp
  qed (use R D(2) in \<open>simp_all add: read_loop_def timed_refl\<close>)
  then obtain x where x: "for_pages ?c read_page sector len (0, s) = Some x"
    "case x of Inl y \<Rightarrow> False | Inr st \<Rightarrow> read_loop s (req_pages ?c sector len) st" by blast
  then show "\<exists>tt s'. for_pages ?c read_page sector len (0, s) = Some (Inr (tt, s')) \<and> read_loop s (req_pages ?c sector len) (tt, s')"
    by (cases x) auto
  let ?b = "\<lambda>lba l r i x. do { p \<leftarrow> GET_MAPPING_INFO s (lba sdiv SECTORS_PER_PAGE ?c); Some (Inr ()) :: (unit + unit) option }"
  have "\<exists>x. for_pages ?c ?b sector len () = Some x \<and> (case x of Inl y \<Rightarrow> True | Inr st \<Rightarrow> True)"
  proof (rule for_pages_rule [OF D(8)])
    fix lba l r j st
    assume h: "0 \<le> j" "j < req_pages ?c sector len" "lba div SECTORS_PER_PAGE ?c = sector div SECTORS_PER_PAGE ?c + j" "0 \<le> lba"
    show "\<exists>x. ?b lba l r j st = Some x \<and> (case x of Inl y \<Rightarrow> True | Inr st \<Rightarrow> True)"
      using set_mapping_ok(3) [OF accD(3) [OF D(1) [unfolded map_inv_def]] pg [OF h]] by simp
  qed (use R in simp_all)
  then show "\<exists>u. for_pages ?c ?b sector len () = Some u" by blast
qed

lemma FTL_READ_ok:
  assumes "dev_inv s A" "range_ok (ssdparams s) sector len"
  shows "\<exists>tt s'. FTL_READ s sector len = Some (tt, s') \<and> dev_inv s' A \<and> tab s' = tab s \<and> ssdparams s' = ssdparams s \<and>
    room_kept (iostat s) (iostat s') \<and> 0 \<le> tt \<and>
    (0 < len \<longrightarrow> CELL_READ_DELAY (ssdparams s) + REG_READ_DELAY (ssdparams s) \<le> tt) \<and> perf_grown (perf s) (perf s')"
proof -
  note D = dev_invD [OF assms(1)] and R = assms(2) [unfolded range_ok_def]
  let ?c = "ssdparams s"
  obtain ct s1 where c1: "read_clock USEC s = (ct, s1)" by (cases "read_clock USEC s")
  have t1: "timed s s1" using timed_clock [OF D(2), of USEC] c1 by simp
  define s2 where "s2 = upd_iostat (\<lambda>st. st\<lparr>nb_total_reads := nb_total_reads st + 1, nb_total_rd_sz := nb_total_rd_sz st + len\<rparr>) s1"
  have "timed s1 s2" by (simp add: s2_def timed_iostat timedD(2) [OF t1])
  then have t2: "timed s s2" by (rule timed_trans [OF t1])
  note fr2 = same_but_time_frame [OF timedD(1) [OF t2]]
  have d2: "dev_inv s2 A" by (rule dev_inv_time [OF assms(1) timedD(1,2) [OF t2]])
  have r2: "range_ok (ssdparams s2) sector len" using assms(2) fr2 by simp
  from read_pages_ok(2) [OF d2 r2] obtain u where
    u: "for_pages (ssdparams s2) (\<lambda>lba l r i x. do { p \<leftarrow> GET_MAPPING_INFO s2 (lba sdiv SECTORS_PER_PAGE (ssdparams s2));
          Some (Inr ()) :: (unit + unit) option }) sector len () = Some u" by blast
  have "\<exists>d s3. ALLOC_IO_REQUEST s2 sector len READ = Some (d, req_pages (ssdparams s2) sector len, s3) \<and>
    (\<forall>s4. s4 = s3\<lparr>perf := (perf s3)\<lparr>io_alloc_overhead := d\<rparr>\<rparr> \<longrightarrow>
      time_inv s4 \<and> same_but_perf s2 s4 \<and> iostat s4 = iostat s2 \<and> perf_grown (perf s2) (perf s4))"
    by (rule start_request [OF timedD(2) [OF t2]]) (use R fr2 in simp_all)
  then obtain d s3 where a: "ALLOC_IO_REQUEST s2 sector len READ = Some (d, req_pages (ssdparams s2) sector len, s3)"
     "\<And>s4. s4 = s3\<lparr>perf := (perf s3)\<lparr>io_alloc_overhead := d\<rparr>\<rparr> \<Longrightarrow>
      time_inv s4 \<and> same_but_perf s2 s4 \<and> iostat s4 = iostat s2 \<and> perf_grown (perf s2) (perf s4)" by blast
  define s4 where "s4 = s3\<lparr>perf := (perf s3)\<lparr>io_alloc_overhead := d\<rparr>\<rparr>"
  note b = a(2) [OF s4_def]
  have sp4: "same_but_perf s2 s4" "time_inv s4" using b by simp_all
  note d4 = dev_inv_perf [OF d2 sp4]
  define s5 where "s5 = no_block s4"
  have t5: "timed s4 s5" using no_block_timed [OF sp4(2)] by (simp add: s5_def)
  note fr5 = same_but_time_frame [OF timedD(1) [OF t5]] and fr4 = same_but_perf_frame [OF sp4(1)]
  have p5: "ssdparams s5 = ?c" by (simp add: fr5 fr4 fr2)
  have d5: "dev_inv s5 A" by (rule dev_inv_time [OF d4(1) timedD(1,2) [OF t5]])
  have "range_ok (ssdparams s5) sector len" using assms(2) p5 by simp
  from read_pages_ok(1) [OF d5 this] obtain tt s6 where
    x: "for_pages ?c read_page sector len (0, s5) = Some (Inr (tt, s6))" "read_loop s5 (req_pages ?c sector len) (tt, s6)"
    by (auto simp: p5)
  have t6: "timed s5 s6" using x(2) by (simp add: read_loop_def)
  define f where "f = (\<lambda>st :: io_stat. st\<lparr>
     nb_blocked_reads := (if ct < blocking_to (devtime s6) then nb_blocked_reads st + 1 else nb_blocked_reads st),
     stat_read_size_print := u64 (stat_read_size_print st + len)\<rparr>)"
  have "timed s6 (upd_iostat f s6)" by (rule timed_iostat [OF timedD(2) [OF t6]]) (simp_all add: f_def)
  then have t7: "timed s5 (upd_iostat f s6)" by (rule timed_trans [OF t6])
  let ?s7 = "upd_iostat f s6" let ?s8 = "INCREASE_IO_REQUEST_SEQ_NB ?s7"
  note fr7 = same_but_time_frame [OF timedD(1) [OF t7]]
  have d7: "dev_inv ?s7 A" by (rule dev_inv_time [OF d5 timedD(1,2) [OF t7]])
  have sp8: "same_but_perf ?s7 ?s8" "time_inv ?s8" "iostat ?s8 = iostat ?s7"
    using timedD(2) [OF t7] by (simp_all add: INCREASE_IO_REQUEST_SEQ_NB_def time_inv_def)
  note d8 = dev_inv_perf [OF d7 sp8(1,2)] and fr8 = same_but_perf_frame [OF sp8(1)]
  have np: "0 < req_pages ?c sector len" if "0 < len"
  proof -
    have p: "0 < SECTORS_PER_PAGE ?c" using D(8) by (simp add: wf_conf_def)
    then have "SECTORS_PER_PAGE ?c \<le> sector mod SECTORS_PER_PAGE ?c + len + SECTORS_PER_PAGE ?c - 1" using that pos_mod_sign [OF p, of sector] by linarith
    then show ?thesis using p that pos_imp_zdiv_pos_iff [OF p] by (simp add: req_pages_def page_count_def)
  qed
  have g: "\<not> SECTOR_NB (ssdparams s2) < s64 (sector + len)" using R range_end [OF D(8), of sector len] by (simp add: fr2)
  have "FTL_READ s sector len = Some (tt, ?s8)"
    unfolding FTL_READ_def FTL_READ_body_def c1 Let_def split_conv s2_def [symmetric] if_not_P [OF g] u a(1) bind.bind_lunit
      s4_def [symmetric] no_block_def [symmetric] s5_def [symmetric] p5 x(1) sum.case f_def [symmetric] ..
  moreover have "tab ?s8 = tab s" by (rule tab_same) (simp_all add: fr8 fr7 fr5 fr4 fr2)
  moreover have "room_kept (iostat s) (iostat ?s8)"
    using timedD(3) [OF t2] timedD(3) [OF t5] timedD(3) [OF t7] b sp8(3) by (simp add: room_kept_def)
  moreover have "perf_grown (perf s) (perf ?s8)" by (rule perf_grown_seq) (use b in \<open>simp add: fr7 fr5 fr2\<close>)
  ultimately show ?thesis
    using d8(1) x(2) np by (intro exI [of _ tt] exI [of _ ?s8]) (simp add: read_loop_def fr8 fr7 p5)
qed

end
