(* ===== verification/SsdFront.thy ===== *)
theory SsdFront
  imports Ftl
begin

section \<open>The operations of the device\<close>

text \<open>
  \<open>ssd.c\<close>: what the NVMe front end calls. Reads and writes go to the flash translation layer; a
  discard unmaps every page it touches; \<open>SSD_REMAP\<close> maps destination pages to the physical pages of
  source pages, or writes a new page when the NVRAM has no room for a further entry.
\<close>

subsection \<open>Reading, writing, discarding\<close>

definition SSD_WRITE :: "ssdstate \<Rightarrow> request_meta \<Rightarrow> (int \<times> ssdstate) option" where
  "SSD_WRITE ssd request1 = FTL_WRITE ssd request1"

definition SSD_READ :: "ssdstate \<Rightarrow> int \<Rightarrow> int \<Rightarrow> (int \<times> ssdstate) option" where
  "SSD_READ ssd len sector_nb = FTL_READ ssd sector_nb len"

definition discard_page :: "int \<Rightarrow> int \<Rightarrow> int \<Rightarrow> int \<Rightarrow> ssdstate \<Rightarrow> (unit + ssdstate) option" where
  "discard_page lba left_skip right_skip i ssd =
     do {
       ssd1 \<leftarrow> unmap_page ssd (lba sdiv SECTORS_PER_PAGE (ssdparams ssd));
       Some (Inr ssd1)
     }"

definition femu_discard_process :: "ssdstate \<Rightarrow> int \<Rightarrow> int \<Rightarrow> (int \<times> ssdstate) option" where
  "femu_discard_process ssd len sector_nb =
     (if SECTOR_NB (ssdparams ssd) < s64 (sector_nb + len) then Some (FAIL, ssd)
      else do {
        r \<leftarrow> for_pages (ssdparams ssd) discard_page sector_nb len ssd;
        (case r of
           Inl _ \<Rightarrow> None
         | Inr ssd1 \<Rightarrow> Some (SUCCESS, stat_print (upd_iostat (\<lambda>st. st\<lparr>stat_type := 2\<rparr>) ssd1)))
      })"

subsection \<open>Remapping\<close>

text \<open>The request that \<open>SSD_REMAP\<close> writes when it cannot remap; only its first page has information.\<close>

definition remap_request :: "ssdconf \<Rightarrow> int \<Rightarrow> request_meta" where
  "remap_request sc d_lpn =
     \<lparr>req_length = u32 (SECTORS_PER_PAGE sc), req_sector_nb = s64 (u64 (d_lpn * SECTORS_PER_PAGE sc)),
      lpns_info = [\<lparr>tx_id = u32 (- 1), lpn_flag = 0, h_lpn = - 1\<rparr>]\<rparr>"

definition remap_page :: "int \<Rightarrow> int \<Rightarrow> int \<Rightarrow> ssdstate \<Rightarrow> ssdstate option" where
  "remap_page ope s_lpn d_lpn ssd =
     do {
       s_ppn \<leftarrow> cread (mapping_table ssd) s_lpn;
       (r, ssd1) \<leftarrow> USE_REMAP ssd (CALC_BLOCK ssd s_ppn);
       (if r = SUCCESS then do {
          (ok, ssd2) \<leftarrow> share_page ssd1 s_ppn d_lpn;
          (if ok then do {
             ssd3 \<leftarrow> redirect ssd2 d_lpn s_ppn;
             ssd4 \<leftarrow> (if ope = REMAP_MOVE then unmap_page ssd3 s_lpn else Some ssd3);
             Some (upd_iostat (\<lambda>st. st\<lparr>stat_remap_cnt := u32 (stat_remap_cnt st + 1),
               stat_reduced_write := u32 (stat_reduced_write st + 1)\<rparr>) ssd4)
           }
           else Some ssd2)
        }
        else do {
          (r2, ssd2) \<leftarrow> FTL_WRITE_body ssd1 (remap_request (ssdparams ssd1) d_lpn);
          (if ope = REMAP_MOVE then unmap_page ssd2 s_lpn else Some ssd2)
        })
     }"

fun remap_pages :: "int \<Rightarrow> nat \<Rightarrow> int \<Rightarrow> int \<Rightarrow> ssdstate \<Rightarrow> ssdstate option" where
  "remap_pages ope 0 s_lpn d_lpn ssd = Some ssd"
| "remap_pages ope (Suc n) s_lpn d_lpn ssd =
     do {
       ssd1 \<leftarrow> remap_page ope s_lpn d_lpn ssd;
       remap_pages ope n (u64 (s_lpn + 1)) (u64 (d_lpn + 1)) ssd1
     }"

text \<open>The length becomes an \<open>int32_t\<close> loop counter.\<close>

definition SSD_REMAP :: "ssdstate \<Rightarrow> int \<Rightarrow> int \<Rightarrow> int \<Rightarrow> int \<Rightarrow> (int \<times> ssdstate) option" where
  "SSD_REMAP ssd src_lpn dst_lpn len ope =
     do {
       ssd1 \<leftarrow> (if ope = REMAP_CKPT \<or> ope = REMAP_COPY \<or> ope = REMAP_MOVE
                 then remap_pages ope (nat (s32 len)) src_lpn dst_lpn ssd
                 else Some ssd);
       Some (SUCCESS,
         if stat_remap_cnt (iostat ssd1) mod 10000 = 1
         then stat_print (upd_iostat (\<lambda>st. st\<lparr>stat_type := 4\<rparr>) ssd1)
         else ssd1)
     }"

subsection \<open>The host's view of a remap\<close>

definition moved_out :: "int \<Rightarrow> int \<Rightarrow> (int \<Rightarrow> int) \<Rightarrow> int \<Rightarrow> int" where
  "moved_out ope s m = (if ope = REMAP_MOVE then m(s := - 1) else m)"

inductive remap_step :: "int \<Rightarrow> int \<Rightarrow> int \<Rightarrow> (int \<Rightarrow> int) \<Rightarrow> (int \<Rightarrow> int) \<Rightarrow> bool" where
  aliased: "m s \<noteq> - 1 \<Longrightarrow> remap_step ope s d m (moved_out ope s (m(d := m s)))"
| written: "(\<And>l. m l \<noteq> p) \<Longrightarrow> 0 \<le> p \<Longrightarrow> remap_step ope s d m (moved_out ope s (m(d := p)))"
| nothing: "m s = - 1 \<Longrightarrow> remap_step ope s d m m"

text \<open>A write inside the remap may collect garbage, which the host cannot observe.\<close>

inductive remap_steps :: "int \<Rightarrow> nat \<Rightarrow> int \<Rightarrow> int \<Rightarrow> (int \<Rightarrow> int) \<Rightarrow> (int \<Rightarrow> int) \<Rightarrow> bool" where
  no_page: "remap_steps ope 0 s d m m"
| next_page: "remap_step ope s d m m1 \<Longrightarrow> same_sharing m1 m2 \<Longrightarrow> remap_steps ope n (s + 1) (d + 1) m2 m3 \<Longrightarrow>
    remap_steps ope (Suc n) s d m m3"

section \<open>Lemmas\<close>

subsection \<open>Discarding\<close>

lemma discard_loop_ok:
  assumes "dev_inv s A" "range_ok (ssdparams s) sector len"
  defines "first \<equiv> sector div SECTORS_PER_PAGE (ssdparams s)"
  shows "\<exists>s'. for_pages (ssdparams s) discard_page sector len s = Some (Inr s') \<and> dev_inv s' A \<and> map_frame s s' \<and>
    tab s' = (\<lambda>l. if first \<le> l \<and> l < first + req_pages (ssdparams s) sector len then - 1 else tab s l)"
proof -
  note D = dev_invD [OF assms(1)] and R = assms(2) [unfolded range_ok_def]
  let ?c = "ssdparams s"
  let ?Q = "\<lambda>j s'. dev_inv s' A \<and> map_frame s s' \<and> tab s' = (\<lambda>l. if first \<le> l \<and> l < first + j then - 1 else tab s l)"
  have "\<exists>x. for_pages ?c discard_page sector len s = Some x \<and> (case x of Inl y \<Rightarrow> False | Inr s' \<Rightarrow> ?Q (req_pages ?c sector len) s')"
  proof (rule for_pages_rule [OF D(8), where Q = ?Q])
    fix lba l r j s1
    assume h: "0 \<le> j" "j < req_pages ?c sector len" "lba div SECTORS_PER_PAGE ?c = sector div SECTORS_PER_PAGE ?c + j" "0 \<le> lba" "?Q j s1"
    have p1: "ssdparams s1 = ?c" using h(5) by (simp add: map_frame_def same_alloc_def)
    have "0 < SECTORS_PER_PAGE ?c" using D(8) by (simp add: wf_conf_def)
    then have lp: "lba sdiv SECTORS_PER_PAGE (ssdparams s1) = first + j" using h(3,4) by (simp add: sdiv_nonneg p1 first_def)
    have rg: "0 \<le> first + j" "first + j < pages_of s1"
      using req_page_range [OF D(8) _ _ _ h(1,2)] R by (simp_all add: first_def p1)
    from unmap_dev [OF conjunct1 [OF h(5)] rg] obtain s2 where
      u: "unmap_page s1 (first + j) = Some s2" "dev_inv s2 A" "tab s2 = (tab s1)(first + j := - 1)" "map_frame s1 s2" by blast
    have "(\<lambda>l. if first \<le> l \<and> l < first + j then - 1 else tab s l)(first + j := - 1)
        = (\<lambda>l. if first \<le> l \<and> l < first + (j + 1) then - 1 else tab s l)" using h(1) by (intro ext) auto
    then have "?Q (j + 1) s2" using u h(5) map_frame_trans [of s s1 s2] by simp
    then show "\<exists>x. discard_page lba l r j s1 = Some x \<and> (case x of Inl y \<Rightarrow> False | Inr s' \<Rightarrow> ?Q (j + 1) s')"
      using u(1) by (intro exI [of _ "Inr s2"]) (simp add: discard_page_def lp)
  qed (use R assms(1) in auto)
  then obtain x where x: "for_pages ?c discard_page sector len s = Some x" "case x of Inl y \<Rightarrow> False | Inr s' \<Rightarrow> ?Q (req_pages ?c sector len) s'" by blast
  then show ?thesis by (cases x) auto
qed

lemma print_dev:
  assumes "dev_inv s A"
  shows "dev_inv (stat_print (upd_iostat (\<lambda>st. st\<lparr>stat_type := x\<rparr>) s)) A"
    "tab (stat_print (upd_iostat (\<lambda>st. st\<lparr>stat_type := x\<rparr>) s)) = tab s"
    "ssdparams (stat_print (upd_iostat (\<lambda>st. st\<lparr>stat_type := x\<rparr>) s)) = ssdparams s"
    "perf (stat_print (upd_iostat (\<lambda>st. st\<lparr>stat_type := x\<rparr>) s)) = perf s"
    "room_kept (iostat s) (iostat (stat_print (upd_iostat (\<lambda>st. st\<lparr>stat_type := x\<rparr>) s)))"
proof -
  have t: "timed s (upd_iostat (\<lambda>st. st\<lparr>stat_type := x\<rparr>) s)" by (rule timed_iostat [OF dev_invD(2) [OF assms]]) simp_all
  note t2 = timed_trans [OF t timed_stat_print [OF timedD(2) [OF t]]]
  note fr = same_but_time_frame [OF timedD(1) [OF t2]]
  show "dev_inv (stat_print (upd_iostat (\<lambda>st. st\<lparr>stat_type := x\<rparr>) s)) A" by (rule dev_inv_time [OF assms timedD(1,2) [OF t2]])
  show "tab (stat_print (upd_iostat (\<lambda>st. st\<lparr>stat_type := x\<rparr>) s)) = tab s" by (rule tab_same [OF fr(2,1)])
  show "ssdparams (stat_print (upd_iostat (\<lambda>st. st\<lparr>stat_type := x\<rparr>) s)) = ssdparams s"
    "perf (stat_print (upd_iostat (\<lambda>st. st\<lparr>stat_type := x\<rparr>) s)) = perf s" by (rule fr)+
  show "room_kept (iostat s) (iostat (stat_print (upd_iostat (\<lambda>st. st\<lparr>stat_type := x\<rparr>) s)))" by (rule timedD(3) [OF t2])
qed

lemma femu_discard_process_ok:
  assumes "dev_inv s A" "range_ok (ssdparams s) sector len"
  defines "first \<equiv> sector div SECTORS_PER_PAGE (ssdparams s)"
  shows "\<exists>s'. femu_discard_process s len sector = Some (SUCCESS, s') \<and> dev_inv s' A \<and> ssdparams s' = ssdparams s \<and> perf s' = perf s \<and>
    room_kept (iostat s) (iostat s') \<and>
    tab s' = (\<lambda>l. if first \<le> l \<and> l < first + req_pages (ssdparams s) sector len then - 1 else tab s l)"
proof -
  from discard_loop_ok [OF assms(1,2)] obtain s1 where
    d: "for_pages (ssdparams s) discard_page sector len s = Some (Inr s1)" "dev_inv s1 A" "map_frame s s1"
      "tab s1 = (\<lambda>l. if first \<le> l \<and> l < first + req_pages (ssdparams s) sector len then - 1 else tab s l)" by (auto simp: first_def)
  have g: "\<not> SECTOR_NB (ssdparams s) < s64 (sector + len)"
    using assms(2) range_end [OF dev_invD(8) [OF assms(1)], of sector len] by (simp add: range_ok_def)
  have f: "ssdparams s1 = ssdparams s" "perf s1 = perf s" "iostat s1 = iostat s" using d(3) by (simp_all add: map_frame_def same_alloc_def)
  note p = print_dev [OF d(2), of 2]
  show ?thesis using g d(1,4) p f by (intro exI [of _ "stat_print (upd_iostat (\<lambda>st. st\<lparr>stat_type := 2\<rparr>) s1)"]) (simp add: femu_discard_process_def)
qed

subsection \<open>Remapping\<close>

lemma same_sharing_unmap: "same_sharing m m' \<Longrightarrow> same_sharing (m(l := - 1)) (m'(l := - 1))"
  unfolding same_sharing_def by (auto; metis)

inductive_cases host_step_plain: "host_step li lpn m m'"

lemma host_steps_single:
  assumes "host_steps [(li, l)] m m'" "\<not> remap_flag (lpn_flag li)"
  obtains p where "\<And>k. m k \<noteq> p" "0 \<le> p" "m' = m(l := p)"
proof -
  from assms(1) have "host_step li l m m'"
    by (cases rule: host_steps.cases) (auto elim: host_steps.cases)
  then show thesis using assms(2) that by (cases rule: host_step.cases) (auto simp: remap_flag_def)
qed

lemma remap_request_ok:
  assumes "wf_conf c" "SECTORS_PER_PAGE c < 2 ^ 32" "0 \<le> d" "d < PAGE_MAPPING_ENTRY_NB c"
  shows "req_ok c (remap_request c d)" "pages_in c (remap_request c d) = 1"
    "req_steps c (remap_request c d) 1 = [(\<lparr>tx_id = u32 (- 1), lpn_flag = 0, h_lpn = - 1\<rparr>, d)]"
    "flagged (take n (lpns_info (remap_request c d))) = 0"
proof -
  let ?p = "SECTORS_PER_PAGE c"
  have p: "0 < ?p" using assms(1) by (simp add: wf_conf_def)
  have pg: "PAGE_MAPPING_ENTRY_NB c < 2 ^ 31" and sn: "SECTOR_NB c = PAGE_MAPPING_ENTRY_NB c * ?p"
    using assms(1) by (simp_all add: wf_conf_def mult_ac)
  have "d * ?p < 2 ^ 31 * 2 ^ 32" using assms(2-4) pg p by (intro mult_strict_mono) simp_all
  then have dp: "0 \<le> d * ?p" "d * ?p < 2 ^ 63" using assms(3) p by simp_all
  then have sec: "req_sector_nb (remap_request c d) = d * ?p" by (simp add: remap_request_def cint)
  have len: "req_length (remap_request c d) = ?p" using p assms(2) by (simp add: remap_request_def cint)
  have "(2 * ?p - 1) div ?p = 1" using p div_mult_self1 [of ?p "?p - 1" 1] by (simp add: div_pos_pos_trivial algebra_simps)
  then show n: "pages_in c (remap_request c d) = 1"
    using p by (simp add: pages_in_def req_pages_def page_count_def sec len)
  have "(d + 1) * ?p \<le> SECTOR_NB c" unfolding sn using assms(4) p by (intro mult_right_mono) simp_all
  moreover have "0 < PAGE_MAPPING_ENTRY_NB c" using assms(3,4) by simp
  ultimately show "req_ok c (remap_request c d)"
    using assms(2) dp p n by (simp add: req_ok_def sec len) (simp add: remap_request_def algebra_simps)
  show "req_steps c (remap_request c d) 1 = [(\<lparr>tx_id = u32 (- 1), lpn_flag = 0, h_lpn = - 1\<rparr>, d)]"
    using p by (simp add: req_steps_def cupto_def sec) (simp add: remap_request_def)
  show "flagged (take n (lpns_info (remap_request c d))) = 0"
    by (cases n) (simp_all add: flagged_def remap_request_def remap_flag_def)
qed

lemma calc_block_unmapped:
  assumes "wf_conf (ssdparams s)" "1 < page_nb_of s" "p = - 1 \<or> 0 \<le> p \<and> p < pages_of s"
  shows "0 \<le> CALC_BLOCK s p" "CALC_BLOCK s p < block_nb_of s"
proof -
  have b: "0 < block_nb_of s" using assms(1) by (simp add: wf_conf_def)
  have "CALC_BLOCK s (- 1) = 0" using assms(2) b by (simp add: CALC_BLOCK_def sdiv_nonneg div_pos_pos_trivial smod_nonneg u32_def)
  then show "0 \<le> CALC_BLOCK s p" "CALC_BLOCK s p < block_nb_of s"
    using assms(3) b calc_ranges(3,4) [OF assms(1)] by auto
qed

text \<open>What remapping one page has achieved.\<close>

definition page_remapped :: "int \<Rightarrow> int \<Rightarrow> int \<Rightarrow> nat \<Rightarrow> ssdstate \<Rightarrow> allocator \<Rightarrow> ssdstate \<Rightarrow> allocator \<Rightarrow> bool" where
  "page_remapped ope sl d k s A s' A' \<longleftrightarrow> dev_inv s' A' \<and> ssdparams s' = ssdparams s \<and> ref_room k s' \<and>
     card (free_slots (ssdparams s) A) \<le> card (free_slots (ssdparams s) A') + 1 \<and>
     (\<exists>m. remap_step ope sl d (tab s) m \<and> same_sharing m (tab s'))"

lemma maybe_unmap:
  assumes "dev_inv s A" "0 \<le> l" "l < pages_of s"
  shows "\<exists>s'. (if ope = REMAP_MOVE then unmap_page s l else Some s) = Some s' \<and> dev_inv s' A \<and>
    tab s' = moved_out ope l (tab s) \<and> map_frame s s' \<and> (\<forall>q. 0 \<le> q \<longrightarrow> page_ref s' q \<le> page_ref s q)"
  using unmap_dev [OF assms] assms(1) by (cases "ope = REMAP_MOVE") (auto simp: moved_out_def)

lemma ref_room_le:
  assumes "ref_room (k + m) s" "ssdparams s' = ssdparams s" "\<And>q. 0 \<le> q \<Longrightarrow> page_ref s' q \<le> page_ref s q + int m"
  shows "ref_room k s'"
  unfolding ref_room_def
proof (intro conjI allI impI)
  show "int k \<le> 126" using assms(1) by (simp add: ref_room_def)
  fix q assume q: "0 \<le> q" "q < pages_of s'"
  have "page_ref s q + int (k + m) \<le> 127" using assms(1,2) q by (simp add: ref_room_def)
  then show "page_ref s' q + int k \<le> 127" using assms(3) [OF q(1)] by simp
qed

lemma remap_page_share:
  assumes "dev_inv s A" "0 \<le> sl" "sl < pages_of s" "0 \<le> d" "d < pages_of s" "tab s sl = p" "p \<noteq> - 1" "ref_room (k + 1) s"
  shows "\<exists>s2 s3 s4. share_page s p d = Some (True, s2) \<and> redirect s2 d p = Some s3 \<and>
    (if ope = REMAP_MOVE then unmap_page s3 sl else Some s3) = Some s4 \<and> page_remapped ope sl d k s A s4 A \<and>
    iostat s4 = iostat s"
proof -
  note m = tab_mapped [OF dev_invD(1) [OF assms(1)] assms(6,7)]
  have r: "0 < page_ref s p" "page_ref s p < 127" using m(4-6) assms(8) by (auto simp: ref_room_def)
  from remap_dev [OF assms(1,4,5) m(4,5) r] obtain s2 where
    s2: "share_page s p d = Some (True, s2)" "time_inv s2" "map_frame s s2"
      "\<And>s2'. timed s2 s2' \<Longrightarrow> \<exists>s3. redirect s2' d p = Some s3 \<and> dev_inv s3 A \<and> tab s3 = (tab s)(d := p) \<and> map_frame s2' s3 \<and>
        (\<forall>q. 0 \<le> q \<longrightarrow> page_ref s3 q \<le> page_ref s q + of_bool (q = p))" by blast
  from s2(4) [OF timed_refl [OF s2(2)]] obtain s3 where
    s3: "redirect s2 d p = Some s3" "dev_inv s3 A" "tab s3 = (tab s)(d := p)" "map_frame s2 s3"
      "\<And>q. 0 \<le> q \<Longrightarrow> page_ref s3 q \<le> page_ref s q + of_bool (q = p)" by blast
  note f3 = map_frame_trans [OF s2(3) s3(4)]
  have p3: "ssdparams s3 = ssdparams s" using f3 by (simp add: map_frame_def same_alloc_def)
  have "sl < pages_of s3" using assms(3) p3 by simp
  from maybe_unmap [OF s3(2) assms(2) this, of ope] obtain s4 where
    s4: "(if ope = REMAP_MOVE then unmap_page s3 sl else Some s3) = Some s4" "dev_inv s4 A" "tab s4 = moved_out ope sl (tab s3)"
      "map_frame s3 s4" "\<And>q. 0 \<le> q \<Longrightarrow> page_ref s4 q \<le> page_ref s3 q" by blast
  note f4 = map_frame_trans [OF f3 s4(4)]
  have p4: "ssdparams s4 = ssdparams s" "iostat s4 = iostat s" using f4 by (simp_all add: map_frame_def same_alloc_def)
  have "page_ref s4 q \<le> page_ref s q + int 1" if "0 \<le> q" for q using s3(5) [OF that] s4(5) [OF that] by (cases "q = p") auto
  then have "ref_room k s4" by (rule ref_room_le [OF assms(8) p4(1)])
  moreover have "remap_step ope sl d (tab s) (tab s4)" using remap_step.aliased [of "tab s" sl ope d] assms(6,7) s4(3) s3(3) by simp
  ultimately have "page_remapped ope sl d k s A s4 A" using s4(2) p4(1) by (auto simp: page_remapped_def)
  then show ?thesis using s2(1) s3(1) s4(1) p4(2) by blast
qed

lemma remap_page_write:
  assumes "dev_inv s A" "0 \<le> sl" "sl < pages_of s" "0 \<le> d" "d < pages_of s" "SECTORS_PER_PAGE (ssdparams s) < 2 ^ 32" "ref_room k s"
    "sb_pages (ssdparams s) \<le> int (card (free_slots (ssdparams s) A))"
    "room (n + Suc (nat (block_nb_of s))) (Suc (nat (pages_of s)) + r) (Suc w) s"
  shows "\<exists>tt s2 s3 A'. FTL_WRITE_body s (remap_request (ssdparams s) d) = Some (tt, s2) \<and>
    (if ope = REMAP_MOVE then unmap_page s2 sl else Some s2) = Some s3 \<and> page_remapped ope sl d k s A s3 A' \<and> room n r w s3"
proof -
  let ?c = "ssdparams s"
  note q = remap_request_ok [OF dev_invD(8) [OF assms(1)] assms(6,4,5)]
  have "write_ready k n r w s A (remap_request ?c d)"
    using assms(7-9) by (simp add: write_ready_def q(2,4))
  from FTL_WRITE_body_ok [OF assms(1) q(1) this] obtain tt s2 A2 m where
    f: "FTL_WRITE_body s (remap_request ?c d) = Some (tt, s2)" "dev_inv s2 A2" "ssdparams s2 = ?c"
      "host_steps [(\<lparr>tx_id = u32 (- 1), lpn_flag = 0, h_lpn = - 1\<rparr>, d)] (tab s) m" "same_sharing m (tab s2)"
      "int (card (free_slots ?c A)) \<le> int (card (free_slots ?c A2)) + 1" "ref_room k s2" "room n r w s2"
    by (auto simp: q(2,3))
  from host_steps_single [OF f(4)] obtain p where p: "\<And>l. tab s l \<noteq> p" "0 \<le> p" "m = (tab s)(d := p)" by (auto simp: remap_flag_def)
  have "sl < pages_of s2" using assms(3) f(3) by simp
  from maybe_unmap [OF f(2) assms(2) this, of ope] obtain s3 where
    s3: "(if ope = REMAP_MOVE then unmap_page s2 sl else Some s2) = Some s3" "dev_inv s3 A2" "tab s3 = moved_out ope sl (tab s2)"
      "map_frame s2 s3" "\<And>q. 0 \<le> q \<Longrightarrow> page_ref s3 q \<le> page_ref s2 q" by blast
  have p3: "ssdparams s3 = ?c" "iostat s3 = iostat s2" using s3(4) f(3) by (simp_all add: map_frame_def same_alloc_def)
  have "ref_room k s3" by (rule ref_room_le [of k 0 s2]) (use f(3,7) p3 s3(5) in simp_all)
  moreover have "remap_step ope sl d (tab s) (moved_out ope sl m)" unfolding p(3) by (rule remap_step.written [OF p(1,2)])
  moreover have "same_sharing (moved_out ope sl m) (tab s3)" using f(5) same_sharing_unmap by (simp add: s3(3) moved_out_def)
  ultimately have "page_remapped ope sl d k s A s3 A2" using s3(2) p3(1) f(6) by (auto simp: page_remapped_def)
  then show ?thesis using f(1,8) s3(1) p3(2) by auto
qed

lemma page_remapped_pre:
  assumes "page_remapped ope sl d k s1 A s' A'" "tab s1 = tab s" "ssdparams s1 = ssdparams s"
  shows "page_remapped ope sl d k s A s' A'"
  using assms by (simp add: page_remapped_def)

lemma page_remapped_time:
  assumes "page_remapped ope sl d k s A s1 A'" "timed s1 s'"
  shows "page_remapped ope sl d k s A s' A'"
proof -
  note fr = same_but_time_frame [OF timedD(1) [OF assms(2)]]
  have "tab s' = tab s1" by (rule tab_same [OF fr(2,1)])
  then show ?thesis
    using assms(1) dev_inv_time [OF _ timedD(1,2) [OF assms(2)]] time_tables(5) [OF timedD(1) [OF assms(2)]]
    by (simp add: page_remapped_def ref_room_def fr)
qed

definition remap_ready :: "nat \<Rightarrow> nat \<Rightarrow> ssdstate \<Rightarrow> allocator \<Rightarrow> bool" where
  "remap_ready k j s A \<longleftrightarrow> (let c = ssdparams s in SECTORS_PER_PAGE c < 2 ^ 32 \<and> 1 < PAGE_NB c \<and> ref_room (k + j) s \<and>
     int j + sb_pages c \<le> int (card (free_slots c A)) + 1 \<and>
     room (j * (2 * Suc (nat (BLOCK_NB c)))) (j * Suc (nat (PAGE_MAPPING_ENTRY_NB c))) j s)"

lemma remap_page_ok:
  assumes "dev_inv s A" "0 \<le> sl" "sl < pages_of s" "0 \<le> d" "d < pages_of s" "remap_ready k (Suc j) s A"
  shows "\<exists>s' A'. remap_page ope sl d s = Some s' \<and> page_remapped ope sl d (k + j) s A s' A' \<and> remap_ready k j s' A'"
proof -
  note D = dev_invD [OF assms(1)] and A = accD [OF dev_invD(1) [OF assms(1), unfolded map_inv_def]]
  let ?c = "ssdparams s" and ?p = "tab s sl"
  let ?B = "Suc (nat (block_nb_of s))" and ?P = "Suc (nat (pages_of s))"
  have R: "SECTORS_PER_PAGE ?c < 2 ^ 32" "1 < page_nb_of s" "ref_room (k + j + 1) s"
    "int (Suc j) + sb_pages ?c \<le> int (card (free_slots ?c A)) + 1" "room (?B + (j * (2 * ?B) + ?B)) (?P + j * ?P) (Suc j) s"
    using assms(6) by (simp_all add: remap_ready_def Let_def add_ac)
  have left: "remap_ready k j s' A'" if "page_remapped ope sl d (k + j) s A s' A'" "room (j * (2 * ?B)) (j * ?P) j s'" for s' A'
    using that R(1,2,4) by (auto simp: remap_ready_def page_remapped_def Let_def)
  have pr: "?p = - 1 \<or> 0 \<le> ?p \<and> ?p < pages_of s" using tab_mapped(4,5) [OF D(1) refl, of sl] by blast
  note cb = calc_block_unmapped [OF D(8) R(2) pr]
  have ld: "cread (mapping_table s) sl = Some ?p"
    using set_mapping_ok(3) [OF A(3) assms(2,3)] assms(2,3) by (simp add: GET_MAPPING_INFO_def tab_def)
  from USE_REMAP_dev [OF assms(1) cb R(5)] obtain x s1 where
    u: "USE_REMAP s (CALC_BLOCK s ?p) = Some (x, s1)" "dev_inv s1 A" "room (j * (2 * ?B) + ?B) (?P + j * ?P) (Suc j) s1" "tab s1 = tab s"
      "ssdparams s1 = ?c" "\<And>q. page_ref s1 q = page_ref s q" "x = SUCCESS \<or> x = FAIL" by blast
  have rr: "ref_room (k + j + 1) s1" using R(3) by (simp add: ref_room_def u(5,6))
  have rg: "sl < pages_of s1" "d < pages_of s1" using assms(3,5) u(5) by simp_all
  have rm: "room (j * (2 * ?B)) (j * ?P) j s1" using u(3) by (rule print_room_mono) simp_all
  show ?thesis
  proof (cases "x = SUCCESS")
    case False
    have "ref_room (k + j) s1" by (rule ref_room_mono [OF rr]) simp
    from remap_page_write [OF u(2) assms(2) rg(1) assms(4) rg(2) _ this, of "j * (2 * ?B)" "j * ?P" j ope] R(1,4) u(3,5) obtain tt s2 s3 A' where
      w: "FTL_WRITE_body s1 (remap_request (ssdparams s1) d) = Some (tt, s2)" "(if ope = REMAP_MOVE then unmap_page s2 sl else Some s2) = Some s3"
        "page_remapped ope sl d (k + j) s1 A s3 A'" "room (j * (2 * ?B)) (j * ?P) j s3" by auto
    note pp = page_remapped_pre [OF w(3) u(4,5)]
    have "remap_page ope sl d s = Some s3"
      unfolding remap_page_def using ld u(1) False w(1,2) by (simp split del: if_split)
    then show ?thesis using pp left [OF pp w(4)] by blast
  next
    case True
    show ?thesis
    proof (cases "?p = - 1")
      case un: True
      have "remap_page ope sl d s = Some s1"
        using ld u(1) True un by (simp add: remap_page_def share_page_def INCREASE_INVERSE_MAPPING_def)
      moreover have "page_remapped ope sl d (k + j) s A s1 A"
        using u(2,4,5) ref_room_mono [OF rr, of "k + j"] remap_step.nothing [of "tab s" sl ope d] un by (auto simp: page_remapped_def)
      ultimately show ?thesis using left rm by blast
    next
      case mp: False
      have "tab s1 sl = ?p" using u(4) by simp
      from remap_page_share [OF u(2) assms(2) rg(1) assms(4) rg(2) this mp rr, of ope] obtain s2 s3 s4 where
        w: "share_page s1 ?p d = Some (True, s2)" "redirect s2 d ?p = Some s3" "(if ope = REMAP_MOVE then unmap_page s3 sl else Some s3) = Some s4"
          "page_remapped ope sl d (k + j) s1 A s4 A" "iostat s4 = iostat s1" by blast
      define f where "f = (\<lambda>st :: io_stat. st\<lparr>stat_remap_cnt := u32 (stat_remap_cnt st + 1), stat_reduced_write := u32 (stat_reduced_write st + 1)\<rparr>)"
      have t4: "time_inv s4" using w(4) dev_invD(2) by (auto simp: page_remapped_def)
      have t5: "timed s4 (upd_iostat f s4)" by (rule timed_iostat [OF t4]) (simp_all add: f_def)
      note pp = page_remapped_time [OF page_remapped_pre [OF w(4) u(4,5)] t5]
      have "remap_page ope sl d s = Some (upd_iostat f s4)"
        unfolding remap_page_def using ld u(1) True w(1-3) by (simp add: f_def split del: if_split)
      moreover have "room (j * (2 * ?B)) (j * ?P) j (upd_iostat f s4)" using room_keptD [OF timedD(3) [OF t5]] rm w(5) by simp
      ultimately show ?thesis using pp left [OF pp] by blast
    qed
  qed
qed

lemma remap_pages_ok:
  assumes "dev_inv s A" "0 \<le> sl" "sl + int j \<le> pages_of s" "0 \<le> d" "d + int j \<le> pages_of s" "remap_ready k j s A"
  shows "\<exists>s' A'. remap_pages ope j sl d s = Some s' \<and> dev_inv s' A' \<and> ssdparams s' = ssdparams s \<and>
    remap_steps ope j sl d (tab s) (tab s') \<and> ref_room k s'"
  using assms
proof (induction j arbitrary: s A sl d)
  case 0
  then show ?case using remap_steps.no_page by (auto simp: remap_ready_def Let_def)
next
  case (Suc j)
  have rg: "sl < pages_of s" "d < pages_of s" using Suc.prems(3,5) by simp_all
  from remap_page_ok [OF Suc.prems(1,2) rg(1) Suc.prems(4) rg(2) Suc.prems(6), of ope] obtain s1 A1 where
    o: "remap_page ope sl d s = Some s1" "page_remapped ope sl d (k + j) s A s1 A1" "remap_ready k j s1 A1" by blast
  obtain m where q: "dev_inv s1 A1" "ssdparams s1 = ssdparams s" "remap_step ope sl d (tab s) m" "same_sharing m (tab s1)"
    using o(2) by (auto simp: page_remapped_def)
  have "pages_of s < 2 ^ 31" using dev_invD(8) [OF Suc.prems(1)] by (simp add: wf_conf_def)
  then have uu: "u64 (sl + 1) = sl + 1" "u64 (d + 1) = d + 1" using Suc.prems(2,4) rg by (simp_all add: cint)
  have nx: "0 \<le> sl + 1" "sl + 1 + int j \<le> pages_of s1" "0 \<le> d + 1" "d + 1 + int j \<le> pages_of s1"
    using Suc.prems(2-5) q(2) by simp_all
  from Suc.IH [OF q(1) nx o(3)] obtain s' A' where
    i: "remap_pages ope j (sl + 1) (d + 1) s1 = Some s'" "dev_inv s' A'" "ssdparams s' = ssdparams s1"
      "remap_steps ope j (sl + 1) (d + 1) (tab s1) (tab s')" "ref_room k s'" by blast
  have "remap_steps ope (Suc j) sl d (tab s) (tab s')" by (rule remap_steps.next_page [OF q(3,4) i(4)])
  then show ?case using o(1) i q(2) uu by auto
qed

lemma SSD_REMAP_ok:
  assumes "dev_inv s A" "0 \<le> src" "0 \<le> dst" "0 \<le> len" "src + len \<le> pages_of s" "dst + len \<le> pages_of s"
    "ope = REMAP_CKPT \<or> ope = REMAP_COPY \<or> ope = REMAP_MOVE" "remap_ready 0 (nat len) s A"
  shows "\<exists>s' A'. SSD_REMAP s src dst len ope = Some (SUCCESS, s') \<and> dev_inv s' A' \<and> ssdparams s' = ssdparams s \<and>
    remap_steps ope (nat len) src dst (tab s) (tab s')"
proof -
  have "pages_of s < 2 ^ 31" using dev_invD(8) [OF assms(1)] by (simp add: wf_conf_def)
  then have n: "s32 len = len" using assms(2,4,5) by (simp add: cint)
  have rg: "src + int (nat len) \<le> pages_of s" "dst + int (nat len) \<le> pages_of s" using assms(4-6) by simp_all
  from remap_pages_ok [OF assms(1,2) rg(1) assms(3) rg(2) assms(8), of ope] obtain s1 A1 where
    r: "remap_pages ope (nat len) src dst s = Some s1" "dev_inv s1 A1" "ssdparams s1 = ssdparams s"
      "remap_steps ope (nat len) src dst (tab s) (tab s1)" by blast
  note p = print_dev [OF r(2), of 4]
  show ?thesis
  proof (cases "stat_remap_cnt (iostat s1) mod 10000 = 1")
    case True
    then show ?thesis using assms(7) n r p
      by (intro exI [of _ "stat_print (upd_iostat (\<lambda>st. st\<lparr>stat_type := 4\<rparr>) s1)"] exI [of _ A1]) (auto simp: SSD_REMAP_def)
  next
    case False
    then show ?thesis using assms(7) n r by (intro exI [of _ s1] exI [of _ A1]) (auto simp: SSD_REMAP_def)
  qed
qed

end
