(* ===== verification/DeviceInit.thy ===== *)
theory DeviceInit
  imports SsdConfig SsdFront
begin

section \<open>Initialisation\<close>

text \<open>
  \<open>SSD_INIT\<close> (\<open>ssd.c\<close>) clears the state and calls \<open>FTL_INIT\<close> (\<open>ftl.c\<close>), which reads the configuration and
  fills the tables. The files that the functions look for are parameters; for the two block lists
  only the case without a file is modelled, because the file has raw pointers. The tables that the
  active configuration never reads (the zipf distribution, the meta data buffer, the registers of
  \<open>SSD_IO_INIT\<close>) are left out, and allocations succeed.
\<close>

subsection \<open>The tables\<close>

text \<open>Reading a file into a cleared table: what the file does not fill stays zero.\<close>

definition fread_table :: "'a \<Rightarrow> nat \<Rightarrow> 'a list \<Rightarrow> 'a list" where
  "fread_table z n xs = take n (xs @ replicate n z)"

definition INIT_MAPPING_TABLE :: "int list option \<Rightarrow> ssdstate \<Rightarrow> ssdstate" where
  "INIT_MAPPING_TABLE file ssd =
     (let n = nat (PAGE_MAPPING_ENTRY_NB (ssdparams ssd)) in
      case file of
        Some xs \<Rightarrow> ssd\<lparr>mapping_table := fread_table 0 n xs, in_nvram := replicate n 0\<rparr>
      | None \<Rightarrow> ssd\<lparr>mapping_table := replicate n (- 1), in_nvram := replicate n (- 1)\<rparr>)"

definition INIT_INVERSE_MAPPING_TABLE :: "ssdstate \<Rightarrow> ssdstate" where
  "INIT_INVERSE_MAPPING_TABLE ssd =
     ssd\<lparr>inverse_mapping_table := replicate (nat (PAGE_MAPPING_ENTRY_NB (ssdparams ssd)))
       \<lparr>fingerprint = - 1, lpn_cnt = 0, lpns = []\<rparr>\<rparr>"

definition INIT_NVRAM_OOB :: "ssdstate \<Rightarrow> ssdstate" where
  "INIT_NVRAM_OOB ssd =
     ssd\<lparr>NVRAM_OOB_TABLE := replicate (nat (BLOCK_NB (ssdparams ssd))) \<lparr>alloc_seg = 0, free_entry = 0, invalid_entry = 0\<rparr>\<rparr>"

text \<open>The entries of the file carry no usable \<open>valid_array\<close>: it is set by \<open>INIT_VALID_ARRAY\<close>.\<close>

definition INIT_BLOCK_STATE_TABLE :: "block_state_entry list option \<Rightarrow> ssdstate \<Rightarrow> ssdstate" where
  "INIT_BLOCK_STATE_TABLE file ssd =
     (let n = nat (BLOCK_MAPPING_ENTRY_NB (ssdparams ssd)) in
      ssd\<lparr>block_state_table :=
        (case file of
           Some es \<Rightarrow> fread_table \<lparr>valid_page_nb = 0, block_type = 0, erase_count = 0, valid_array = []\<rparr> n es
         | None \<Rightarrow> replicate n \<lparr>valid_page_nb = 0, block_type = EMPTY_BLOCK, erase_count = 0, valid_array = []\<rparr>)\<rparr>)"

fun set_valid_arrays :: "nat \<Rightarrow> int list \<Rightarrow> block_state_entry list \<Rightarrow> block_state_entry list" where
  "set_valid_arrays p bytes [] = []"
| "set_valid_arrays p bytes (e # es) =
     e\<lparr>valid_array := fread_table 0 p (map s8 (take p bytes))\<rparr> # set_valid_arrays p (drop p bytes) es"

definition INIT_VALID_ARRAY :: "int list option \<Rightarrow> ssdstate \<Rightarrow> ssdstate" where
  "INIT_VALID_ARRAY file ssd =
     ssd\<lparr>block_state_table := set_valid_arrays (nat (PAGE_NB (ssdparams ssd)))
       (case file of Some bytes \<Rightarrow> bytes | None \<Rightarrow> []) (block_state_table ssd)\<rparr>"

subsection \<open>The block lists\<close>

text \<open>The blocks \<open>k = i, i + PLANES_PER_FLASH, ...\<close> of plane \<open>i\<close>.\<close>

definition plane_blocks :: "ssdconf \<Rightarrow> int \<Rightarrow> int list" where
  "plane_blocks sc i = filter (\<lambda>k. k mod PLANES_PER_FLASH sc = i) (cupto (BLOCK_NB sc))"

definition empty_blocks :: "int \<Rightarrow> int list \<Rightarrow> empty_block_entry list" where
  "empty_blocks j ks = map (\<lambda>k. \<lparr>eb_flash = j, eb_block = k, eb_curr_page = 0\<rparr>) ks"

definition init_empty_root :: "ssdconf \<Rightarrow> int \<times> int \<Rightarrow> empty_block_root list \<times> ssdstate \<Rightarrow> (empty_block_root list \<times> ssdstate) option" where
  "init_empty_root sc = (\<lambda>(i, j) (roots, ssd).
     do {
       ssd1 \<leftarrow> foldM (\<lambda>k s. do { (r, s') \<leftarrow> UPDATE_BLOCK_STATE s j k EMPTY_BLOCK; Some s' }) (plane_blocks sc i) ssd;
       Some (roots @ [\<lparr>empty_head = empty_blocks j (plane_blocks sc i), eb_head = None,
                       empty_block_nb = u32 (EACH_EMPTY_TABLE_ENTRY_NB sc)\<rparr>], ssd1)
     })"

definition INIT_EMPTY_BLOCK_LIST :: "ssdstate \<Rightarrow> ssdstate option" where
  "INIT_EMPTY_BLOCK_LIST ssd =
     (let sc = ssdparams ssd in do {
       (roots, ssd1) \<leftarrow> foldM (init_empty_root sc)
         (concat (map (\<lambda>i. map (Pair i) (cupto (FLASH_NB sc))) (cupto (PLANES_PER_FLASH sc)))) ([], ssd);
       Some (ssd1\<lparr>empty_block_list := roots, total_empty_block_nb := s32 (BLOCK_MAPPING_ENTRY_NB sc),
         empty_block_table_index := 0,
         sb_deb := \<lparr>sb_plane_nb = PLANES_PER_FLASH sc * FLASH_NB sc - 1, sb_block_nb = 0\<rparr>\<rparr>)
     })"

definition INIT_VICTIM_BLOCK_LIST :: "ssdstate \<Rightarrow> ssdstate" where
  "INIT_VICTIM_BLOCK_LIST ssd =
     ssd\<lparr>victim_block_list := replicate (nat (PLANES_PER_FLASH (ssdparams ssd) * FLASH_NB (ssdparams ssd)))
           \<lparr>vb_chain = [], victim_block_nb = 0\<rparr>,
         total_victim_block_nb := 0\<rparr>"

subsection \<open>The device\<close>

text \<open>The files of the data directory, where they exist.\<close>

record data_files =
  mapping_file :: "int list option"
  block_file :: "block_state_entry list option"
  valid_file :: "int list option"

definition no_files :: data_files where
  "no_files = \<lparr>mapping_file = None, block_file = None, valid_file = None\<rparr>"

text \<open>
  \<open>FTL_INIT\<close> only runs its body when \<open>g_init\<close> is 0. \<open>SSD_INIT\<close> has just cleared the state and no code stores
  another value into that field, so the test always succeeds.
\<close>

definition FTL_INIT :: "string option \<Rightarrow> data_files \<Rightarrow> ssdstate \<Rightarrow> ssdstate option" where
  "FTL_INIT conffile fs ssd =
     do {
       ssd1 \<leftarrow> INIT_SSD_CONFIG conffile ssd;
       let ssd2 = INIT_NVRAM_OOB (INIT_INVERSE_MAPPING_TABLE (INIT_MAPPING_TABLE (mapping_file fs) ssd1));
       let ssd3 = INIT_VALID_ARRAY (valid_file fs) (INIT_BLOCK_STATE_TABLE (block_file fs) ssd2);
       ssd4 \<leftarrow> INIT_EMPTY_BLOCK_LIST ssd3;
       Some (INIT_STAT_COUNT (INIT_PERF_CHECKER (INIT_VICTIM_BLOCK_LIST ssd4)))
     }"

text \<open>\<open>memset\<close> of the whole state; the clock is the environment.\<close>

definition zero_iostat :: io_stat where
  "zero_iostat = \<lparr>in_warmup_stage = 0, stat_type = 0, stat_time = 0, stat_temp = 0, stat_total_read_count = 0,
     stat_total_write_count = 0, stat_host_write_count = 0, stat_gc_count = 0, stat_erase_count = 0, stat_gc_write_count = 0,
     stat_remap_cnt = 0, stat_commit_cnt = 0, stat_reduced_write = 0, stat_avg_write_delay = 0, stat_write_req_print = 0,
     stat_write_delay_print = 0, stat_min_write_delay = 0, stat_max_write_delay = 0, stat_write_size_print = 0,
     stat_avg_req_size = 0, stat_read_size_print = 0, stat_avg_GCRNVRAM_delay = 0, stat_GCRNVRAM_print = 0,
     stat_GCRNVRAM_delay_print = 0, stat_avg_NVRAMGC_delay = 0, stat_NVRAMGC_print = 0, stat_NVRAMGC_delay_print = 0,
     gc_count = 0, stacking_gc_count = 0, mygc_cnt = 0, mycopy_page_nb = 0, fail_cnt = 0, block_cnt = 0, nb_total_reads = 0,
     nb_blocked_reads = 0, nb_total_writes = 0, nb_blocked_writes = 0, nb_total_rd_sz = 0, nb_total_wr_sz = 0,
     time_gc = 0, time_svb = 0, time_cp = 0, time_up = 0\<rparr>"

definition zero_ssd :: "(clock_src \<Rightarrow> nat \<Rightarrow> int) \<Rightarrow> ssdstate" where
  "zero_ssd clk = \<lparr>ssdparams = zero_conf, mapping_table = [], in_nvram = [], inverse_mapping_table = [],
     block_state_table = [], NVRAM_OOB_TABLE = [], empty_block_list = [], victim_block_list = [],
     total_empty_block_nb = 0, total_victim_block_nb = 0, empty_block_table_index = 0,
     sb_deb = \<lparr>sb_plane_nb = 0, sb_block_nb = 0\<rparr>, xl2p_ppn = 0,
     pstat = \<lparr>stat_ppn_valid = 0, stat_ppn_n21 = 0, stat_ppn_invalid = 0, stat_ppn_free = 0, stat_lpn_valid = 0, max_valid_array = 0\<rparr>,
     nstat = \<lparr>stat_use_remap_fail = 0, stat_gc_remap_fail = 0, stat_total_alloc_seg = 0, stat_total_OOB_entry = 0,
       stat_total_invalid_entry = 0, stat_total_seg_bytes = 0, stat_max_alloc_seg = 0, stat_min_alloc_seg = 0\<rparr>,
     iostat = zero_iostat,
     devtime = \<lparr>clock = clk, ticks = 0, chnl_next_avail_time = [], chip_next_avail_time = [], nvram_next_avail_time = [],
       gc_slot = [], blocking_to = 0\<rparr>,
     perf = \<lparr>io_requests = [], io_request_nb = 0, io_request_seq_nb = 0, io_alloc_overhead = 0, io_update_overhead = 0\<rparr>\<rparr>"

text \<open>
  The warm-up replays a trace of offsets and sizes into a request that it only has an
  uninitialised pointer to, so any record in the file is a fault.
\<close>

definition do_rand_warmup :: "(int \<times> int) list option \<Rightarrow> ssdstate \<Rightarrow> ssdstate option" where
  "do_rand_warmup trace ssd =
     (case trace of
        None \<Rightarrow> Some ssd
      | Some [] \<Rightarrow> Some (upd_iostat (\<lambda>st. st\<lparr>in_warmup_stage := 0\<rparr>) (upd_iostat (\<lambda>st. st\<lparr>in_warmup_stage := 1\<rparr>) ssd))
      | Some (r # rs) \<Rightarrow> None)"

definition SSD_INIT :: "(clock_src \<Rightarrow> nat \<Rightarrow> int) \<Rightarrow> string option \<Rightarrow> data_files \<Rightarrow> bool \<Rightarrow> (int \<times> int) list option \<Rightarrow> ssdstate option" where
  "SSD_INIT clk conffile fs statfile trace =
     do {
       ssd1 \<leftarrow> FTL_INIT conffile fs ((zero_ssd clk)\<lparr>xl2p_ppn := - 1\<rparr>);
       (if statfile then do_rand_warmup trace ssd1 else None)
     }"

section \<open>Lemmas\<close>

subsection \<open>Freshly cleared tables\<close>

definition blank_block :: "ssdconf \<Rightarrow> block_state_entry" where
  "blank_block c = \<lparr>valid_page_nb = 0, block_type = EMPTY_BLOCK, erase_count = 0, valid_array = replicate (nat (PAGE_NB c)) 0\<rparr>"

definition blank_blocks :: "ssdstate \<Rightarrow> bool" where
  "blank_blocks s \<longleftrightarrow> block_state_table s = replicate (nat (BLOCK_MAPPING_ENTRY_NB (ssdparams s))) (blank_block (ssdparams s))"

lemma set_valid_arrays_none:
  "set_valid_arrays p [] (replicate n e) = replicate n (e\<lparr>valid_array := replicate p 0\<rparr>)"
  by (induction n) (simp_all add: fread_table_def)

lemma blank_shape:
  assumes "wf_conf (ssdparams s)" "blank_blocks s"
  shows "blk_shape s" "page_refs s = replicate (nat (pages_of s)) 0"
proof -
  note w = wf_confD [OF assms(1)] and t = assms(2) [unfolded blank_blocks_def]
  show "blk_shape s" using w(1) by (auto simp: blk_shape_def t blank_block_def)
  have "concat (replicate n (replicate p z)) = replicate (n * p) z" for n p :: nat and z :: int
    by (induction n) (simp_all add: replicate_add)
  moreover have "nat (pages_of s) = nat (BLOCK_MAPPING_ENTRY_NB (ssdparams s)) * nat (page_nb_of s)"
    using w by (simp add: nat_mult_distrib)
  ultimately show "page_refs s = replicate (nat (pages_of s)) 0" by (simp add: page_refs_def t blank_block_def)
qed

lemma access_replicate:
  assumes "0 \<le> k" "k < int (length xs)" "xs = replicate n e"
  shows "cread xs k = Some e" "cwrite xs k e = Some xs"
proof -
  have "nat k < n" using assms by (simp add: nat_less_iff)
  then have e: "xs ! nat k = e" using assms(3) by simp
  then show "cread xs k = Some e" "cwrite xs k e = Some xs"
    using assms(1,2) list_update_id [of xs "nat k"] by (simp_all add: cread_def cwrite_def)
qed

text \<open>Marking a blank block as empty changes nothing.\<close>

lemma erase_blank_page:
  assumes "wf_conf (ssdparams s)" "blank_blocks s" "0 \<le> f" "f < flash_nb_of s" "0 \<le> b" "b < block_nb_of s" "0 \<le> p" "p < page_nb_of s"
  shows "UPDATE_BLOCK_STATE_ENTRY s f b p 0 = Some (SUCCESS, s)"
proof -
  note sh = blank_shape [OF assms(1,2)]
  note ix = block_index_range [OF sh(1) assms(1,3-6)] and wb = wf_conf_bounds [OF assms(1)]
  let ?k = "f * block_nb_of s + b" and ?e = "blank_block (ssdparams s)"
  note ac = access_replicate [OF ix(2,3) assms(2) [unfolded blank_blocks_def]]
  have va: "valid_array ?e = replicate (nat (page_nb_of s)) 0" "valid_page_nb ?e = 0" by (simp_all add: blank_block_def)
  have v: "cread (valid_array ?e) p = Some 0" "cwrite (valid_array ?e) p 0 = Some (valid_array ?e)"
    using assms(7,8) by (simp_all add: va cread_def cwrite_def nat_less_iff list_update_same_conv)
  have c: "count_valid (valid_array ?e) (page_nb_of s) = Some 0"
    using count_valid_eq [of "valid_array ?e" "page_nb_of s"] assms(7,8) by (simp add: va)
  have g: "\<not> (u32 (flash_nb_of s) \<le> f \<or> u32 (block_nb_of s) \<le> b \<or> u32 (page_nb_of s) \<le> p)"
    using assms(3-8) wb by (simp add: cint)
  have e: "?e\<lparr>valid_array := valid_array ?e, valid_page_nb := 0\<rparr> = ?e" by (simp add: blank_block_def)
  show ?thesis
    unfolding UPDATE_BLOCK_STATE_ENTRY_def if_not_P [OF g] Let_def ix(1)
    using ac v c e by (simp add: bse_update_def bse_free_def)
qed

lemma mark_blank_block:
  assumes "wf_conf (ssdparams s)" "blank_blocks s" "0 \<le> f" "f < flash_nb_of s" "0 \<le> b" "b < block_nb_of s"
  shows "UPDATE_BLOCK_STATE s f b EMPTY_BLOCK = Some (SUCCESS, s)"
proof -
  note sh = blank_shape [OF assms(1,2)]
  note ix = block_index_range [OF sh(1) assms(1,3-6)]
  let ?k = "f * block_nb_of s + b" and ?e = "blank_block (ssdparams s)"
  note ac = access_replicate [OF ix(2,3) assms(2) [unfolded blank_blocks_def]]
  have ty: "?e\<lparr>block_type := EMPTY_BLOCK\<rparr> = ?e" by (simp add: blank_block_def)
  have "\<exists>s'. foldM (\<lambda>i s. do { (r, s') \<leftarrow> UPDATE_BLOCK_STATE_ENTRY s f b i 0; Some s' }) (cupto (page_nb_of s)) s = Some s' \<and> s' = s"
    by (rule for_rule [where Q = "\<lambda>i s'. s' = s"])
      (use wf_confD(1) [OF assms(1)] erase_blank_page [OF assms] in \<open>simp_all add: order_less_imp_le\<close>)
  then show ?thesis
    using ac by (simp add: UPDATE_BLOCK_STATE_def ix(1) Let_def ty)
qed

lemma foldM_id: "(\<And>x. x \<in> set xs \<Longrightarrow> f x s = Some s) \<Longrightarrow> foldM f xs s = Some s"
  by (induction xs) simp_all

lemma plane_blocks_one: "PLANES_PER_FLASH c = 1 \<Longrightarrow> plane_blocks c 0 = cupto (BLOCK_NB c)"
  by (simp add: plane_blocks_def)

lemma init_empty_root_ok:
  assumes "wf_conf (ssdparams s)" "PLANES_PER_FLASH (ssdparams s) = 1" "blank_blocks s" "0 \<le> j" "j < flash_nb_of s"
  shows "init_empty_root (ssdparams s) (0, j) (roots, s) = Some (roots @ [\<lparr>empty_head = empty_blocks j (cupto (block_nb_of s)),
    eb_head = None, empty_block_nb = u32 (EACH_EMPTY_TABLE_ENTRY_NB (ssdparams s))\<rparr>], s)"
proof -
  have "foldM (\<lambda>k s. do { (r, s') \<leftarrow> UPDATE_BLOCK_STATE s j k EMPTY_BLOCK; Some s' }) (cupto (block_nb_of s)) s = Some s"
    by (rule foldM_id) (use mark_blank_block [OF assms(1,3-5)] in auto)
  then show ?thesis by (simp add: init_empty_root_def plane_blocks_one [OF assms(2)])
qed

definition all_free :: "ssdconf \<Rightarrow> allocator" where
  "all_free c = \<lparr>free_sbs = cupto (BLOCK_NB c), open_sb = None, victim_sbs = []\<rparr>"

lemma INIT_EMPTY_BLOCK_LIST_ok:
  assumes "sb_conf (ssdparams s)" "blank_blocks s" "EACH_EMPTY_TABLE_ENTRY_NB (ssdparams s) = block_nb_of s"
  shows "INIT_EMPTY_BLOCK_LIST s = Some (s\<lparr>empty_block_list := map (empty_root (flash_nb_of s) (all_free (ssdparams s))) (cupto (flash_nb_of s)),
    total_empty_block_nb := flash_nb_of s * block_nb_of s, empty_block_table_index := 0,
    sb_deb := \<lparr>sb_plane_nb = flash_nb_of s - 1, sb_block_nb = 0\<rparr>\<rparr>)"
proof -
  note S = sb_confD [OF assms(1)] and w = wf_confD [OF sb_confD(1) [OF assms(1)]]
  let ?c = "ssdparams s"
  let ?root = "\<lambda>j. \<lparr>empty_head = empty_blocks j (cupto (block_nb_of s)), eb_head = None, empty_block_nb = u32 (block_nb_of s)\<rparr>"
  have r: "?root j = empty_root (flash_nb_of s) (all_free ?c) j" for j
    using w(2) wf_conf_bounds(2) [OF S(1)] by (simp add: empty_root_def all_free_def empty_blocks_def cint)
  have "foldM (init_empty_root ?c) (map (Pair 0) (cupto j)) ([], s) = Some (map ?root (cupto j), s)" if "0 \<le> j" "j \<le> flash_nb_of s" for j
    using that
  proof (induction "nat j" arbitrary: j)
    case 0
    then show ?case by (simp add: cupto_def)
  next
    case (Suc n)
    then have j: "0 \<le> j - 1" "j - 1 < flash_nb_of s" "n = nat (j - 1)" by linarith+
    have e: "cupto j = cupto (j - 1) @ [j - 1]" using cupto_Suc [OF j(1)] by simp
    show ?case
      using Suc.hyps(1) [OF j(3)] j(1,2) init_empty_root_ok [OF S(1,2) assms(2) j(1,2)] assms(3)
      by (simp add: e foldM_append)
  qed
  from this [of "flash_nb_of s"] w(3)
  have "foldM (init_empty_root ?c) (map (Pair 0) (cupto (flash_nb_of s))) ([], s) = Some (map ?root (cupto (flash_nb_of s)), s)" by simp
  moreover have "cupto 1 = [0]" by (simp add: cupto_def)
  moreover have "s32 (BLOCK_MAPPING_ENTRY_NB ?c) = flash_nb_of s * block_nb_of s"
    using mult_pos_pos [OF w(3,2)] w(8) wf_conf_bounds(4) [OF S(1)] by (simp add: s32_def)
  ultimately show ?thesis by (simp add: INIT_EMPTY_BLOCK_LIST_def Let_def S(2) r)
qed

subsection \<open>The initial state\<close>

text \<open>A device on which nothing has been written.\<close>

definition blank_dev :: "ssdstate \<Rightarrow> bool" where
  "blank_dev s \<longleftrightarrow> (let c = ssdparams s; n = nat (PAGE_MAPPING_ENTRY_NB c) in
     sb_conf c \<and> time_inv s \<and> blank_blocks s \<and>
     mapping_table s = replicate n (- 1) \<and> in_nvram s = replicate n (- 1) \<and>
     inverse_mapping_table s = replicate n \<lparr>fingerprint = - 1, lpn_cnt = 0, lpns = []\<rparr> \<and>
     NVRAM_OOB_TABLE s = replicate (nat (BLOCK_NB c)) \<lparr>alloc_seg = 0, free_entry = 0, invalid_entry = 0\<rparr> \<and>
     stat_total_alloc_seg (nstat s) = 0 \<and> stat_total_OOB_entry (nstat s) = 0 \<and> stat_total_invalid_entry (nstat s) = 0 \<and>
     stat_total_seg_bytes (nstat s) = 0 \<and>
     stat_ppn_free (pstat s) = PAGE_MAPPING_ENTRY_NB c \<and> stat_ppn_valid (pstat s) = 0 \<and> stat_ppn_n21 (pstat s) = 0 \<and>
     stat_ppn_invalid (pstat s) = 0 \<and> stat_lpn_valid (pstat s) = 0 \<and>
     alloc_rel s (all_free c) \<and> xl2p_ppn s = - 1)"

lemma blank_tables:
  assumes "blank_dev s"
  shows "wf_conf (ssdparams s)" "0 \<le> q \<Longrightarrow> q < pages_of s \<Longrightarrow> page_ref s q = 0 \<and> chain s q = [] \<and> l2p s q = - 1 \<and> nvm s q = - 1"
    "0 \<le> b \<Longrightarrow> b < block_nb_of s \<Longrightarrow> live s b = 0"
proof -
  note B = assms [unfolded blank_dev_def Let_def]
  show w: "wf_conf (ssdparams s)" using B by (simp add: sb_conf_def)
  have "blank_blocks s" using B by simp
  note sh = blank_shape [OF w this]
  show "page_ref s q = 0 \<and> chain s q = [] \<and> l2p s q = - 1 \<and> nvm s q = - 1" if "0 \<le> q" "q < pages_of s"
  proof -
    have "nat q < nat (pages_of s)" using that by simp
    then show ?thesis using B by (simp add: page_ref_def sh(2) chain_def l2p_def nvm_def)
  qed
  show "live s b = 0" if "0 \<le> b" "b < block_nb_of s"
  proof -
    have "nat b < nat (block_nb_of s)" using that by simp
    then show ?thesis using B by (simp add: live_def live_entries_def entries_def)
  qed
qed

lemma blank_core:
  assumes "blank_dev s"
  shows "core_inv {} s (refs_of (pages_of s) (l2p s))"
proof -
  note B = assms [unfolded blank_dev_def Let_def] and T = blank_tables [OF assms]
  have "blank_blocks s" using B by simp
  note sh = blank_shape [OF T(1) this]
  have "map (max 0) (replicate n (0 :: int)) = replicate n 0" for n by simp
  then have "stat_ok (page_refs s) (pstat s)"
    using B wf_confD(7) [OF T(1)] wf_confD(1-3) [OF T(1)] by (simp add: stat_ok_def sh(2) sum_list_replicate)
  then have "blk_inv s" using sh T(1) by (simp add: blk_inv_def refs_range_def)
  moreover have "link_inv s" using B by (simp add: link_inv_def)
  ultimately have "ref_inv {} s" using T(2) by (simp add: ref_inv_def)
  moreover have "refs_are s (refs_of (pages_of s) (l2p s))" using T(2) by (auto simp: refs_are_def refs_of_def)
  ultimately show ?thesis by (simp add: core_inv_def)
qed

lemma all_free_slots:
  assumes "sb_conf (ssdparams s)" "0 \<le> p" "p < pages_of s"
  shows "p \<in> free_slots (ssdparams s) (all_free (ssdparams s))"
proof -
  note r = calc_ranges(3,4) [OF sb_confD(1) [OF assms(1)] assms(2,3)]
  have "p \<in> sb_set s (CALC_BLOCK s p)" using assms(2,3) by (simp add: sb_set_def)
  then show ?thesis using sb_set_slots [OF assms(1) r] r by (auto simp: free_slots_def all_free_def)
qed

lemma blank_dev_inv:
  assumes "blank_dev s"
  shows "dev_inv s (all_free (ssdparams s))" "tab s = (\<lambda>l. - 1)"
proof -
  note B = assms [unfolded blank_dev_def Let_def] and T = blank_tables [OF assms]
  note w = wf_confD [OF T(1)]
  have "nv_set s (l2p s) (nvm s) b = {}" for b using T(2) by (auto simp: nv_set_def)
  then have "nv_acc {} s (l2p s) (nvm s)" using T(3) by (simp add: nv_acc_def)
  moreover have "nv_inv s"
    using B T(1) w(2) by (auto simp: nv_inv_def seg_ok_def entries_def totals_ok_def sum_list_replicate u64_def)
  moreover have "0 \<le> pages_of s" using w by simp
  then have "map_shape s" using B by (simp add: map_shape_def)
  moreover have "in_dev s (l2p s)" using T(2) by (simp add: in_dev_def)
  ultimately have "map_inv s" using blank_core [OF assms] by (simp add: map_inv_def acc_def)
  moreover have "fresh {} s (all_free (ssdparams s))" using T(2) all_free_slots [of s] B by (simp add: fresh_def)
  moreover have "set (sbs (all_free (ssdparams s))) = {0..<block_nb_of s}" by (simp add: sbs_def all_free_def)
  ultimately show "dev_inv s (all_free (ssdparams s))" using B by (simp add: dev_inv_def)
  show "tab s = (\<lambda>l. - 1)" using T(2) by (auto simp: tab_def)
qed

lemma all_free_rel:
  assumes "sb_conf c" "ssdparams s = c" "empty_block_list s = map (empty_root (FLASH_NB c) (all_free c)) (cupto (FLASH_NB c))"
    "victim_block_list s = replicate (nat (FLASH_NB c)) \<lparr>vb_chain = [], victim_block_nb = 0\<rparr>"
    "total_empty_block_nb s = FLASH_NB c * BLOCK_NB c" "total_victim_block_nb s = 0" "empty_block_table_index s = 0"
    "sb_plane_nb (sb_deb s) = FLASH_NB c - 1"
  shows "alloc_rel s (all_free c)"
proof -
  have "map (victim_root (all_free c)) (cupto n) = replicate (nat n) \<lparr>vb_chain = [], victim_block_nb = 0\<rparr>" for n
    by (rule nth_equalityI) (simp_all add: victim_root_def all_free_def cupto_def)
  moreover have "distinct (cupto n)" for n by (simp add: cupto_def distinct_map)
  ultimately show ?thesis
    using assms sb_confD(10) [OF assms(1)] by (simp add: alloc_rel_def alloc_wf_def sbs_def open_state_def all_free_def)
qed

lemma FTL_INIT_ok:
  assumes "parse_conf text (zero_conf\<lparr>sos := 24, max_page := 0\<rparr>) = Some c" "params_ok c"
  shows "\<exists>s. FTL_INIT (Some text) no_files ((zero_ssd clk)\<lparr>xl2p_ppn := - 1\<rparr>) = Some s \<and> blank_dev s \<and> derive_conf c = Some (ssdparams s) \<and>
    perf_ok (perf s) \<and> io_requests (perf s) = [] \<and>
    stat_NVRAMGC_print (iostat s) = 0 \<and> stat_GCRNVRAM_print (iostat s) = 0 \<and> stat_write_req_print (iostat s) = 0 \<and>
    clock (devtime s) = clk"
proof -
  let ?s0 = "(zero_ssd clk)\<lparr>xl2p_ppn := - 1\<rparr>"
  have "parse_conf text ((ssdparams ?s0)\<lparr>sos := 24, max_page := 0\<rparr>) = Some c" using assms(1) by (simp add: zero_ssd_def)
  from INIT_SSD_CONFIG_ok [OF this assms(2)] obtain c' dt where
    i: "INIT_SSD_CONFIG (Some text) ?s0 = Some (upd_iostat (\<lambda>st. st\<lparr>block_cnt := 0\<rparr>) (?s0\<lparr>ssdparams := c', devtime := dt\<rparr>))"
      "derive_conf c = Some c'" "sb_conf c'" "time_shape c' dt" "EACH_EMPTY_TABLE_ENTRY_NB c' = BLOCK_NB c'" "clock dt = clk"
    by (auto simp: zero_ssd_def)
  note S = sb_confD [OF i(3)] and w = wf_confD [OF sb_confD(1) [OF i(3)]]
  define s1 where "s1 = upd_iostat (\<lambda>st. st\<lparr>block_cnt := 0\<rparr>) (?s0\<lparr>ssdparams := c', devtime := dt\<rparr>)"
  define s3 where "s3 = INIT_VALID_ARRAY None (INIT_BLOCK_STATE_TABLE None (INIT_NVRAM_OOB (INIT_INVERSE_MAPPING_TABLE (INIT_MAPPING_TABLE None s1))))"
  have p1: "ssdparams s1 = c'" by (simp add: s1_def upd_iostat_def)
  have p3: "ssdparams s3 = c'"
    by (simp add: s3_def INIT_VALID_ARRAY_def INIT_BLOCK_STATE_TABLE_def INIT_NVRAM_OOB_def INIT_INVERSE_MAPPING_TABLE_def INIT_MAPPING_TABLE_def Let_def p1)
  have bb: "blank_blocks s3"
    by (simp add: s3_def blank_blocks_def INIT_VALID_ARRAY_def INIT_BLOCK_STATE_TABLE_def INIT_NVRAM_OOB_def INIT_INVERSE_MAPPING_TABLE_def
        INIT_MAPPING_TABLE_def Let_def p1 set_valid_arrays_none blank_block_def)
  have el: "sb_conf (ssdparams s3)" "EACH_EMPTY_TABLE_ENTRY_NB (ssdparams s3) = block_nb_of s3" using i p3 by simp_all
  note e = INIT_EMPTY_BLOCK_LIST_ok [OF el(1) bb el(2)]
  define s4 where "s4 = s3\<lparr>empty_block_list := map (empty_root (flash_nb_of s3) (all_free (ssdparams s3))) (cupto (flash_nb_of s3)),
    total_empty_block_nb := flash_nb_of s3 * block_nb_of s3, empty_block_table_index := 0,
    sb_deb := \<lparr>sb_plane_nb = flash_nb_of s3 - 1, sb_block_nb = 0\<rparr>\<rparr>"
  define s5 where "s5 = INIT_STAT_COUNT (INIT_PERF_CHECKER (INIT_VICTIM_BLOCK_LIST s4))"
  have run: "FTL_INIT (Some text) no_files ?s0 = Some s5"
    using i(1) e by (simp add: FTL_INIT_def no_files_def s1_def [symmetric] s3_def [symmetric] s4_def [symmetric] s5_def Let_def)
  have f: "ssdparams s5 = c'" "devtime s5 = dt" "block_state_table s5 = block_state_table s3" "xl2p_ppn s5 = - 1"
    "perf s5 = (perf s3)\<lparr>io_request_nb := 0, io_request_seq_nb := 0, io_requests := []\<rparr>"
    by (simp_all add: s5_def s4_def INIT_STAT_COUNT_def INIT_PERF_CHECKER_def INIT_VICTIM_BLOCK_LIST_def p3
        s3_def INIT_VALID_ARRAY_def INIT_BLOCK_STATE_TABLE_def INIT_NVRAM_OOB_def INIT_INVERSE_MAPPING_TABLE_def INIT_MAPPING_TABLE_def Let_def
        s1_def upd_iostat_def)
  have "blank_blocks s5" using bb by (simp add: blank_blocks_def f p3)
  moreover have "time_inv s5" using i(3,4) S(1) by (simp add: time_inv_def f)
  moreover have "alloc_rel s5 (all_free c')"
    by (rule all_free_rel [OF i(3) f(1)])
      (simp_all add: s5_def s4_def INIT_STAT_COUNT_def INIT_PERF_CHECKER_def INIT_VICTIM_BLOCK_LIST_def p3 S(2))
  moreover have "0 \<le> PAGE_MAPPING_ENTRY_NB c'" "PAGE_MAPPING_ENTRY_NB c' < 2 ^ 31"
    using S(1) w(1-3) by (simp_all add: wf_conf_def)
  then have "u64 (PAGE_MAPPING_ENTRY_NB c') = PAGE_MAPPING_ENTRY_NB c'" by (simp add: cint)
  ultimately have "blank_dev s5"
    using i(3) by (simp add: blank_dev_def Let_def f) (simp add: s5_def s4_def s3_def INIT_STAT_COUNT_def INIT_PERF_CHECKER_def
        INIT_VICTIM_BLOCK_LIST_def INIT_VALID_ARRAY_def INIT_BLOCK_STATE_TABLE_def INIT_NVRAM_OOB_def INIT_INVERSE_MAPPING_TABLE_def
        INIT_MAPPING_TABLE_def Let_def p1)
  moreover have "perf_ok (perf s5)" by (simp add: f perf_ok_def u32_def)
  moreover have "stat_NVRAMGC_print (iostat s5) = 0" "stat_GCRNVRAM_print (iostat s5) = 0" "stat_write_req_print (iostat s5) = 0"
    by (simp_all add: s5_def INIT_STAT_COUNT_def)
  ultimately show ?thesis using run i(2,6) by (intro exI [of _ s5]) (simp add: f)
qed

lemma SSD_INIT_blank:
  assumes "parse_conf text (zero_conf\<lparr>sos := 24, max_page := 0\<rparr>) = Some c" "params_ok c"
  shows "\<exists>s. SSD_INIT clk (Some text) no_files True None = Some s \<and> blank_dev s \<and> derive_conf c = Some (ssdparams s) \<and>
    perf_ok (perf s) \<and> io_requests (perf s) = [] \<and> stat_NVRAMGC_print (iostat s) = 0 \<and> stat_GCRNVRAM_print (iostat s) = 0 \<and>
    stat_write_req_print (iostat s) = 0 \<and> clock (devtime s) = clk"
  using FTL_INIT_ok [OF assms, of clk] by (auto simp: SSD_INIT_def do_rand_warmup_def)

end
