(* ===== verification/Device.thy ===== *)
theory Device
  imports DeviceInit
begin

section \<open>The device as a machine that serves host commands\<close>

text \<open>
  The commands that the front end passes to the device, when the device can serve them, and what
  the host may observe of each. The step relation \<open>cmd_step\<close> is the specification: it speaks of the
  logical-to-physical table only, up to a relocation of pages.
\<close>

subsection \<open>Commands\<close>

datatype host_cmd =
    Read int int
  | Write request_meta
  | Discard int int
  | Remap int int int int

primrec exec :: "ssdstate \<Rightarrow> host_cmd \<Rightarrow> (int \<times> ssdstate) option" where
  "exec ssd (Read len sector_nb) = SSD_READ ssd len sector_nb"
| "exec ssd (Write req) = SSD_WRITE ssd req"
| "exec ssd (Discard len sector_nb) = femu_discard_process ssd len sector_nb"
| "exec ssd (Remap src dst len ope) = SSD_REMAP ssd src dst len ope"

text \<open>
  A command is in range and the device has room for it. The number of free pages is the counter
  that the device keeps itself.
\<close>

primrec cmd_ready :: "ssdstate \<Rightarrow> host_cmd \<Rightarrow> bool" where
  "cmd_ready s (Read len sector) \<longleftrightarrow> range_ok (ssdparams s) sector len"
| "cmd_ready s (Write req) \<longleftrightarrow> (let c = ssdparams s; n = pages_in c req in req_ok c req \<and>
     n + sb_pages c \<le> stat_ppn_free (pstat s) + 1 \<and> ref_room (flagged (take (nat n) (lpns_info req))) s \<and>
     room (nat n * Suc (nat (BLOCK_NB c))) (Suc (nat (PAGE_MAPPING_ENTRY_NB c))) 1 s)"
| "cmd_ready s (Discard len sector) \<longleftrightarrow> range_ok (ssdparams s) sector len"
| "cmd_ready s (Remap src dst len ope) \<longleftrightarrow> (let c = ssdparams s in 0 \<le> src \<and> 0 \<le> dst \<and> 0 \<le> len \<and>
     src + len \<le> PAGE_MAPPING_ENTRY_NB c \<and> dst + len \<le> PAGE_MAPPING_ENTRY_NB c \<and>
     (ope = REMAP_CKPT \<or> ope = REMAP_COPY \<or> ope = REMAP_MOVE) \<and> SECTORS_PER_PAGE c < 2 ^ 32 \<and> 1 < PAGE_NB c \<and>
     ref_room (nat len) s \<and> len + sb_pages c \<le> stat_ppn_free (pstat s) + 1 \<and>
     room (nat len * (2 * Suc (nat (BLOCK_NB c)))) (nat len * Suc (nat (PAGE_MAPPING_ENTRY_NB c))) (nat len) s)"

subsection \<open>The specification\<close>

inductive cmd_step :: "ssdconf \<Rightarrow> host_cmd \<Rightarrow> (int \<Rightarrow> int) \<Rightarrow> (int \<Rightarrow> int) \<Rightarrow> bool" where
  read_cmd: "cmd_step c (Read len sector) m m"
| write_cmd: "host_steps (req_steps c req (pages_in c req)) m m1 \<Longrightarrow> same_sharing m1 m2 \<Longrightarrow> cmd_step c (Write req) m m2"
| discard_cmd: "first = sector div SECTORS_PER_PAGE c \<Longrightarrow>
    cmd_step c (Discard len sector) m (\<lambda>l. if first \<le> l \<and> l < first + req_pages c sector len then - 1 else m l)"
| remap_cmd: "remap_steps ope (nat len) src dst m m' \<Longrightarrow> cmd_step c (Remap src dst len ope) m m'"

inductive_cases cmd_step_writeE: "cmd_step c (Write req) m m'"
inductive_cases cmd_step_readE: "cmd_step c (Read len sector) m m'"
inductive_cases cmd_step_discardE: "cmd_step c (Discard len sector) m m'"
inductive_cases cmd_step_remapE: "cmd_step c (Remap src dst len ope) m m'"

definition dev_ok :: "ssdstate \<Rightarrow> bool" where
  "dev_ok s \<longleftrightarrow> (\<exists>A. dev_inv s A)"

subsection \<open>Sequences of commands\<close>

fun run_cmds :: "('s \<Rightarrow> 'c \<Rightarrow> ('r \<times> 's) option) \<Rightarrow> 's \<Rightarrow> 'c list \<Rightarrow> ('r list \<times> 's) option" where
  "run_cmds ex s [] = Some ([], s)"
| "run_cmds ex s (c # cs) = do { (r, s1) \<leftarrow> ex s c; (rs, s2) \<leftarrow> run_cmds ex s1 cs; Some (r # rs, s2) }"

text \<open>Every command is ready in the state in which its turn comes.\<close>

fun ready_run :: "('s \<Rightarrow> 'c \<Rightarrow> bool) \<Rightarrow> ('s \<Rightarrow> 'c \<Rightarrow> ('r \<times> 's) option) \<Rightarrow> 's \<Rightarrow> 'c list \<Rightarrow> bool" where
  "ready_run rdy ex s [] \<longleftrightarrow> True"
| "ready_run rdy ex s (c # cs) \<longleftrightarrow> rdy s c \<and> (case ex s c of None \<Rightarrow> True | Some (r, s1) \<Rightarrow> ready_run rdy ex s1 cs)"

text \<open>The states between the commands of a run.\<close>

inductive reachable :: "ssdstate \<Rightarrow> ssdstate \<Rightarrow> bool" for s0 where
  start: "reachable s0 s0"
| command: "reachable s0 s \<Longrightarrow> cmd_ready s c \<Longrightarrow> exec s c = Some (r, s') \<Longrightarrow> reachable s0 s'"

section \<open>Lemmas\<close>

subsection \<open>A machine whose commands simulate a specification\<close>

text \<open>
  The contract of a served command: in a good state a ready command returns, keeps the state good
  and takes a step of the specification.
\<close>

locale served_machine =
  fixes good :: "'s \<Rightarrow> bool" and rdy :: "'s \<Rightarrow> 'c \<Rightarrow> bool" and ex :: "'s \<Rightarrow> 'c \<Rightarrow> ('r \<times> 's) option"
    and view :: "'s \<Rightarrow> 'a" and spec :: "'s \<Rightarrow> 'c \<Rightarrow> 'a \<Rightarrow> 'a \<Rightarrow> bool"
  assumes served: "good s \<Longrightarrow> rdy s c \<Longrightarrow> \<exists>r s'. ex s c = Some (r, s') \<and> good s' \<and> spec s c (view s) (view s')"
    and spec_const: "ex s c = Some (r, s') \<Longrightarrow> good s \<Longrightarrow> rdy s c \<Longrightarrow> spec s' = spec s"
begin

lemma run_ok:
  "good s \<Longrightarrow> ready_run rdy ex s cs \<Longrightarrow> \<exists>rs s'. run_cmds ex s cs = Some (rs, s') \<and> good s' \<and> length rs = length cs"
proof (induction cs arbitrary: s)
  case (Cons c cs)
  then obtain r s1 where e: "ex s c = Some (r, s1)" "good s1" using served [of s c] by auto
  then have "ready_run rdy ex s1 cs" using Cons.prems(2) by simp
  from Cons.IH [OF e(2) this] e(1) show ?case by auto
qed simp

lemma run_spec:
  "good s \<Longrightarrow> ready_run rdy ex s cs \<Longrightarrow> run_cmds ex s cs = Some (rs, s') \<Longrightarrow>
    \<exists>vs. length vs = length cs + 1 \<and> vs ! 0 = view s \<and> vs ! length cs = view s' \<and>
      (\<forall>i < length cs. spec s (cs ! i) (vs ! i) (vs ! Suc i))"
proof (induction cs arbitrary: s rs)
  case Nil
  then show ?case by (intro exI [of _ "[view s]"]) simp
next
  case (Cons c cs)
  then obtain r s1 where e: "ex s c = Some (r, s1)" "good s1" "spec s c (view s) (view s1)" using served [of s c] by auto
  then have "ready_run rdy ex s1 cs" using Cons.prems(2) by simp
  moreover obtain rs1 where "run_cmds ex s1 cs = Some (rs1, s')" using Cons.prems(3) e(1) by (auto split: bind_splits)
  ultimately obtain vs where v: "length vs = length cs + 1" "vs ! 0 = view s1" "vs ! length cs = view s'"
      "\<forall>i < length cs. spec s1 (cs ! i) (vs ! i) (vs ! Suc i)"
    using Cons.IH [OF e(2)] by blast
  have "spec s1 = spec s" using spec_const [OF e(1)] Cons.prems(1,2) by simp
  then have "\<forall>i < length (c # cs). spec s ((c # cs) ! i) ((view s # vs) ! i) ((view s # vs) ! Suc i)"
    using e(3) v(2,4) by (auto simp: less_Suc_eq_0_disj)
  then show ?case using v by (intro exI [of _ "view s # vs"]) simp
qed

end

subsection \<open>The device serves its commands\<close>

lemma exec_step:
  assumes "dev_inv s A" "cmd_ready s c"
  shows "\<exists>r s' A'. exec s c = Some (r, s') \<and> dev_inv s' A' \<and> ssdparams s' = ssdparams s \<and> cmd_step (ssdparams s) c (tab s) (tab s')"
proof -
  note fr = stat_ppn_free_slots [OF assms(1)]
  show ?thesis
  proof (cases c)
    case (Read len sector)
    then show ?thesis using FTL_READ_ok [OF assms(1), of sector len] assms(2) cmd_step.read_cmd by (fastforce simp: SSD_READ_def)
  next
    case (Write req)
    then have w: "req_ok (ssdparams s) req" "write_ready 0 0 0 0 s A req"
      using assms(2) fr by (simp_all add: write_ready_def Let_def)
    from FTL_WRITE_body_ok [OF assms(1) w] obtain tt s' A' m where
      "FTL_WRITE_body s req = Some (tt, s')" "dev_inv s' A'" "ssdparams s' = ssdparams s"
      "host_steps (req_steps (ssdparams s) req (pages_in (ssdparams s) req)) (tab s) m" "same_sharing m (tab s')" by blast
    then show ?thesis using Write cmd_step.write_cmd by (auto simp: SSD_WRITE_def FTL_WRITE_def)
  next
    case (Discard len sector)
    then show ?thesis using femu_discard_process_ok [OF assms(1), of sector len] assms(2) cmd_step.discard_cmd [OF refl] by fastforce
  next
    case (Remap src dst len ope)
    then have "remap_ready 0 (nat len) s A" "0 \<le> src" "0 \<le> dst" "0 \<le> len" "src + len \<le> pages_of s" "dst + len \<le> pages_of s"
      "ope = REMAP_CKPT \<or> ope = REMAP_COPY \<or> ope = REMAP_MOVE"
      using assms(2) fr by (simp_all add: remap_ready_def Let_def)
    from SSD_REMAP_ok [OF assms(1) this(2-7,1)] show ?thesis using Remap cmd_step.remap_cmd by fastforce
  qed
qed

interpretation femu: served_machine dev_ok cmd_ready exec tab "\<lambda>s. cmd_step (ssdparams s)"
proof unfold_locales
  fix s c assume "dev_ok s" "cmd_ready s c"
  then show "\<exists>r s'. exec s c = Some (r, s') \<and> dev_ok s' \<and> cmd_step (ssdparams s) c (tab s) (tab s')"
    using exec_step unfolding dev_ok_def by blast
next
  fix s c r s' assume "exec s c = Some (r, s')" "dev_ok s" "cmd_ready s c"
  then show "cmd_step (ssdparams s') = cmd_step (ssdparams s)" using exec_step unfolding dev_ok_def by fastforce
qed

lemma reachable_ok: "reachable s0 s \<Longrightarrow> dev_ok s0 \<Longrightarrow> dev_ok s"
proof (induction rule: reachable.induct)
  case (command s c r s')
  then show ?case using femu.served [of s c] by auto
qed simp

end
