(* ===== verification/HostView.thy ===== *)
theory HostView
  imports Device
begin

section \<open>What the host sees of the commands\<close>

text \<open>
  Consequences of the step relations for particular commands: a write without flags gives its pages
  physical pages of their own, a flagged write shares, and pages that a command does not name keep
  their sharing.
\<close>

subsection \<open>Writes\<close>

inductive_cases host_stepE: "host_step li lpn m m'"

lemma host_step_plain:
  assumes "host_step li lpn m m'" "\<not> remap_flag (lpn_flag li)"
  obtains p where "\<And>l. m l \<noteq> p" "0 \<le> p" "m' = m(lpn := p)"
  using assms(1) by (cases rule: host_step.cases) (use assms(2) that in \<open>auto simp: remap_flag_def\<close>)

lemma host_steps_plain:
  assumes "host_steps xs m m'" "\<forall>x \<in> set xs. \<not> remap_flag (lpn_flag (fst x))"
  shows "(l \<in> snd ` set xs \<longrightarrow> m' l \<noteq> - 1 \<and> (\<forall>k. k \<noteq> l \<longrightarrow> m' k \<noteq> m' l)) \<and> (l \<notin> snd ` set xs \<longrightarrow> m' l = m l)"
  using assms
proof (induction arbitrary: l rule: host_steps.induct)
  case (one_more xs m m1 li lpn m2)
  then obtain p where p: "\<And>l. m1 l \<noteq> p" "0 \<le> p" "m2 = m1(lpn := p)" by (auto elim: host_step_plain)
  have "\<forall>x \<in> set xs. \<not> remap_flag (lpn_flag (fst x))" using one_more.prems by simp
  then show ?case using one_more.IH [of l] p by auto
qed simp

lemma host_steps_singleE:
  assumes "host_steps [(li, l)] m m'"
  obtains "host_step li l m m'"
  using assms by (cases rule: host_steps.cases) (auto elim: host_steps.cases)

text \<open>Pages that are neither written nor the source of a move are left alone.\<close>

lemma host_steps_frame:
  assumes "host_steps xs m m'" "\<forall>(li, lpn) \<in> set xs. lpn \<noteq> l \<and> (lpn_flag li = FS_GC_WRITE \<longrightarrow> h_lpn li \<noteq> l)"
  shows "m' l = m l"
  using assms
proof (induction rule: host_steps.induct)
  case (one_more xs m m1 li lpn m2)
  then show ?case by (auto elim!: host_stepE)
qed simp

lemma req_steps_pages:
  "snd ` set (req_steps c req n)
     = {l. req_sector_nb req div SECTORS_PER_PAGE c \<le> l \<and> l < req_sector_nb req div SECTORS_PER_PAGE c + n}"
proof -
  have "(\<lambda>i. k + i) ` set (cupto n) = {l. k \<le> l \<and> l < k + n}" for k :: int
  proof (intro set_eqI iffI)
    fix l assume "l \<in> {l. k \<le> l \<and> l < k + n}"
    then have "l = k + (l - k)" "l - k \<in> set (cupto n)" by auto
    then show "l \<in> (\<lambda>i. k + i) ` set (cupto n)" by blast
  qed auto
  then show ?thesis by (simp add: req_steps_def image_image)
qed

lemma req_steps_infos:
  assumes "x \<in> set (req_steps c req n)" "n \<le> int (length (lpns_info req))"
  shows "fst x \<in> set (lpns_info req)"
  using assms by (auto simp: req_steps_def)

subsection \<open>Remapping\<close>

text \<open>The pages that a remap may change.\<close>

definition remap_touched :: "int \<Rightarrow> nat \<Rightarrow> int \<Rightarrow> int \<Rightarrow> int \<Rightarrow> bool" where
  "remap_touched ope n s d l \<longleftrightarrow> d \<le> l \<and> l < d + int n \<or> ope = REMAP_MOVE \<and> s \<le> l \<and> l < s + int n"

inductive_cases remap_stepE: "remap_step ope s d m m'"

lemma remap_step_frame: "remap_step ope s d m m' \<Longrightarrow> l \<noteq> d \<Longrightarrow> ope = REMAP_MOVE \<longrightarrow> l \<noteq> s \<Longrightarrow> m' l = m l"
  by (auto elim!: remap_stepE simp: moved_out_def split: if_splits)

lemma remap_steps_frame:
  assumes "remap_steps ope n s d m m'" "\<not> remap_touched ope n s d l" "\<not> remap_touched ope n s d k"
  shows "(m' l = - 1 \<longleftrightarrow> m l = - 1) \<and> (m' l = m' k \<longleftrightarrow> m l = m k)"
  using assms
proof (induction rule: remap_steps.induct)
  case (next_page ope s d m m1 m2 n m3)
  have "\<not> remap_touched ope n (s + 1) (d + 1) l" "\<not> remap_touched ope n (s + 1) (d + 1) k"
    using next_page.prems by (auto simp: remap_touched_def)
  note IH = next_page.IH [OF this]
  have "m1 l = m l" "m1 k = m k"
    using next_page.prems by (auto intro!: remap_step_frame [OF next_page.hyps(1)] simp: remap_touched_def)
  then show ?case using IH next_page.hyps(2) unfolding same_sharing_def by metis
qed simp

text \<open>A copied page is an alias of its source or has a page of its own.\<close>

definition copied :: "(int \<Rightarrow> int) \<Rightarrow> int \<Rightarrow> int \<Rightarrow> bool" where
  "copied m s d \<longleftrightarrow> m d \<noteq> - 1 \<and> (m d = m s \<or> (\<forall>k. k \<noteq> d \<longrightarrow> m k \<noteq> m d))"

lemma copied_sharing: "same_sharing m m' \<Longrightarrow> copied m s d \<Longrightarrow> copied m' s d"
  unfolding same_sharing_def copied_def by metis

lemma copied_kept:
  assumes "remap_steps ope n s d m m'" "ope \<noteq> REMAP_MOVE" "copied m a b"
    "\<not> (d \<le> a \<and> a < d + int n)" "\<not> (d \<le> b \<and> b < d + int n)" "\<not> (s \<le> b \<and> b < s + int n)"
  shows "copied m' a b"
  using assms
proof (induction rule: remap_steps.induct)
  case (next_page ope s d m m1 m2 n m3)
  have "d \<noteq> a" "d \<noteq> b" "s \<noteq> b" using next_page.prems(3-5) by auto
  then have "copied m1 a b" using next_page.hyps(1) next_page.prems(1,2) unfolding copied_def
    by (auto elim!: remap_stepE simp: moved_out_def split: if_splits)
  from copied_sharing [OF next_page.hyps(2) this] show ?case using next_page.IH next_page.prems by auto
qed simp

lemma remap_steps_copied:
  assumes "remap_steps ope n s d m m'" "ope \<noteq> REMAP_MOVE" "s + int n \<le> d \<or> d + int n \<le> s" "i < n" "m (s + int i) \<noteq> - 1"
  shows "copied m' (s + int i) (d + int i)"
  using assms
proof (induction arbitrary: i rule: remap_steps.induct)
  case (next_page ope s d m m1 m2 n m3)
  show ?case
  proof (cases i)
    case 0
    then have "copied m1 s d" using next_page.hyps(1) next_page.prems(1,2,4)
      by (auto elim!: remap_stepE simp: moved_out_def copied_def)
    from copied_sharing [OF next_page.hyps(2) this] have "copied m2 s d" .
    from copied_kept [OF next_page.hyps(3) next_page.prems(1) this] have "copied m3 s d" using next_page.prems(2) by auto
    then show ?thesis using 0 by simp
  next
    case (Suc j)
    have "m1 (s + int i) = m (s + int i)"
      using next_page.prems by (intro remap_step_frame [OF next_page.hyps(1)]) auto
    then have "m2 (s + 1 + int j) \<noteq> - 1"
      using next_page.hyps(2) next_page.prems(4) Suc by (simp add: same_sharing_def add.assoc)
    then show ?thesis using next_page.IH [of j] next_page.prems Suc by (auto simp: add.assoc)
  qed
qed simp

text \<open>A moved page leaves its source.\<close>

lemma unmapped_kept:
  assumes "remap_steps ope n s d m m'" "m a = - 1" "\<not> (d \<le> a \<and> a < d + int n)"
  shows "m' a = - 1"
  using assms
proof (induction rule: remap_steps.induct)
  case (next_page ope s d m m1 m2 n m3)
  then have "m1 a = - 1" by (auto elim!: remap_stepE simp: moved_out_def)
  then show ?case using next_page by (auto simp: same_sharing_def)
qed simp

lemma mapped_kept:
  assumes "remap_steps ope n s d m m'" "m a \<noteq> - 1" "ope = REMAP_MOVE \<longrightarrow> \<not> (s \<le> a \<and> a < s + int n)"
  shows "m' a \<noteq> - 1"
  using assms
proof (induction rule: remap_steps.induct)
  case (next_page ope s d m m1 m2 n m3)
  then have "m1 a \<noteq> - 1" by (auto elim!: remap_stepE simp: moved_out_def split: if_splits)
  then show ?case using next_page by (auto simp: same_sharing_def)
qed simp

lemma remap_steps_moved:
  assumes "remap_steps ope n s d m m'" "ope = REMAP_MOVE" "s + int n \<le> d \<or> d + int n \<le> s" "i < n"
  shows "m' (s + int i) = - 1 \<and> (m (s + int i) \<noteq> - 1 \<longrightarrow> m' (d + int i) \<noteq> - 1)"
  using assms
proof (induction arbitrary: i rule: remap_steps.induct)
  case (next_page ope s d m m1 m2 n m3)
  show ?case
  proof (cases i)
    case 0
    have "m1 s = - 1" "m s \<noteq> - 1 \<longrightarrow> m1 d \<noteq> - 1"
      using next_page.hyps(1) next_page.prems(1,2) by (auto elim!: remap_stepE simp: moved_out_def)
    then have "m2 s = - 1" "m s \<noteq> - 1 \<longrightarrow> m2 d \<noteq> - 1" using next_page.hyps(2) by (auto simp: same_sharing_def)
    moreover have "\<not> (d + 1 \<le> s \<and> s < d + 1 + int n)" "\<not> (s + 1 \<le> d \<and> d < s + 1 + int n)" using next_page.prems(2) by auto
    ultimately show ?thesis
      using unmapped_kept [OF next_page.hyps(3), of s] mapped_kept [OF next_page.hyps(3), of d] 0 by auto
  next
    case (Suc j)
    have "m1 (s + int i) = m (s + int i)"
      using next_page.prems Suc by (intro remap_step_frame [OF next_page.hyps(1)]) auto
    then have "m2 (s + 1 + int j) \<noteq> - 1 \<longleftrightarrow> m (s + int i) \<noteq> - 1"
      using next_page.hyps(2) Suc by (simp add: same_sharing_def add.assoc)
    then show ?thesis using next_page.IH [of j] next_page.prems Suc by (auto simp: add.assoc)
  qed
qed simp

subsection \<open>What the invariant says about the counters\<close>

lemma dev_okE:
  assumes "dev_ok s"
  obtains A where "dev_inv s A" "map_inv s" "wf_conf (ssdparams s)" "blk_inv s" "link_inv s"
  using assms dev_invD(1,8) accD(8,9) unfolding dev_ok_def map_inv_def by blast

lemma finite_tab: "finite {l. tab s l \<noteq> - 1}" "0 \<le> q \<Longrightarrow> finite {l. tab s l = q}"
proof -
  have "finite {0..<pages_of s}" by simp
  moreover have "{l. tab s l \<noteq> - 1} \<subseteq> {0..<pages_of s}" "0 \<le> q \<Longrightarrow> {l. tab s l = q} \<subseteq> {0..<pages_of s}" for q
    by (auto simp: tab_def split: if_splits)
  ultimately show "finite {l. tab s l \<noteq> - 1}" "0 \<le> q \<Longrightarrow> finite {l. tab s l = q}" using finite_subset by blast+
qed

lemma page_ref_mapped:
  assumes "map_inv s" "0 \<le> q" "q < pages_of s"
  shows "0 < page_ref s q \<longleftrightarrow> (\<exists>l. tab s l = q)"
proof -
  have "0 < card {l. tab s l = q} \<longleftrightarrow> (\<exists>l. tab s l = q)" using finite_tab(2) [OF assms(2), of s] by (auto simp: card_gt_0_iff)
  then show ?thesis using page_ref_card [OF assms] by (auto simp: max_def split: if_splits)
qed

lemma count_refs:
  assumes "blk_inv s"
  shows "int (length (filter P (page_refs s))) = int (card {q. 0 \<le> q \<and> q < pages_of s \<and> P (page_ref s q)})"
proof -
  note b = blk_invD(5) [OF assms]
  have "{q. 0 \<le> q \<and> q < pages_of s \<and> P (page_ref s q)} = int ` {i. i < length (page_refs s) \<and> P (page_refs s ! i)}" (is "?L = ?R")
  proof (intro set_eqI iffI)
    fix q assume "q \<in> ?L"
    then have "q = int (nat q)" "nat q \<in> {i. i < length (page_refs s) \<and> P (page_refs s ! i)}" using b by (auto simp: page_ref_def)
    then show "q \<in> ?R" by blast
  qed (use b in \<open>auto simp: page_ref_def\<close>)
  then show ?thesis by (simp add: length_filter_conv_card card_image)
qed

lemma count_lpns:
  assumes "map_inv s"
  shows "sum_list (map (max 0) (page_refs s)) = int (card {l. tab s l \<noteq> - 1})"
proof -
  note a = accD [OF assms [unfolded map_inv_def]]
  note b = blk_invD(5) [OF a(8)] and w = wf_confD [OF a(7)]
  have "sum_list (map (max 0) (page_refs s)) = (\<Sum>i \<in> {0..<nat (pages_of s)}. max 0 (page_ref s (int i)))"
    using b by (simp add: sum_list_sum_nth page_ref_def)
  also have "\<dots> = (\<Sum>i \<in> {0..<nat (pages_of s)}. int (card {l. tab s l = int i}))"
    by (intro sum.cong refl) (simp add: page_ref_card [OF assms])
  also have "\<dots> = int (card (\<Union>i \<in> {0..<nat (pages_of s)}. {l. tab s l = int i}))"
    by (subst card_UN_disjoint) (auto simp: finite_tab)
  also have "(\<Union>i \<in> {0..<nat (pages_of s)}. {l. tab s l = int i}) = {l. tab s l \<noteq> - 1}" (is "?L = ?R")
  proof (intro set_eqI iffI)
    fix l assume "l \<in> ?R"
    then have "0 \<le> tab s l" "tab s l < pages_of s" using tab_mapped(4,5) [OF assms refl] by auto
    then show "l \<in> ?L" by (auto intro!: bexI [of _ "nat (tab s l)"])
  qed auto
  finally show ?thesis .
qed

text \<open>
  A page that the allocator may still hand out, by the lists of the code: its block is in the list of empty blocks of its chip, or it is the
  open block and the page is not below its write pointer.
\<close>

definition page_free :: "ssdstate \<Rightarrow> int \<Rightarrow> bool" where
  "page_free s p \<longleftrightarrow> (let r = empty_block_list s ! nat (CALC_FLASH s p)
     in (\<exists>e \<in> set (empty_head r). eb_block e = CALC_BLOCK s p) \<or>
        (\<exists>e. eb_head r = Some e \<and> eb_block e = CALC_BLOCK s p \<and> eb_curr_page e \<le> CALC_PAGE s p))"

lemma curr_page_le:
  assumes "0 \<le> f" "f < (F :: int)"
  shows "curr_page F k f \<le> g \<longleftrightarrow> k \<le> g * F + f"
proof -
  let ?a = "k + F - 1 - f"
  have a: "?a < ?a div F * F + F" using assms div_mult_mod_eq [of ?a F] pos_mod_bound [of F ?a] by linarith
  have "?a div F \<le> g \<longleftrightarrow> ?a < (g + 1) * F"
  proof
    assume "?a div F \<le> g"
    then have "?a div F * F \<le> g * F" using assms by (intro mult_right_mono) simp_all
    then show "?a < (g + 1) * F" using a by (simp add: distrib_right)
  next
    assume "?a < (g + 1) * F"
    then have "?a div F < g + 1" using div_lt_of_lt_mult [of F ?a "g + 1"] assms by (simp add: mult.commute)
    then show "?a div F \<le> g" by simp
  qed
  also have "\<dots> \<longleftrightarrow> k \<le> g * F + f" by (auto simp: algebra_simps)
  finally show ?thesis unfolding curr_page_def .
qed

lemma page_free_slots:
  assumes "dev_inv s A" "0 \<le> p" "p < pages_of s"
  shows "page_free s p \<longleftrightarrow> page_ref s p = 0"
proof -
  note D = dev_invD [OF assms(1)] and R = alloc_relD [OF dev_invD(3) [OF assms(1)]]
  note r = calc_ranges [OF D(8) assms(2,3)]
  let ?f = "CALC_FLASH s p" and ?b = "CALC_BLOCK s p" and ?g = "CALC_PAGE s p" and ?F = "flash_nb_of s"
  let ?n = "?g * ?F + ?f"
  have "?g * ?F + ?f < (?g + 1) * ?F" using r(2) by (simp add: algebra_simps)
  also have "\<dots> \<le> page_nb_of s * ?F" using r(1,2,6) by (intro mult_right_mono) simp_all
  finally have n: "0 \<le> ?n" "?n < sb_pages (ssdparams s)" "?n mod ?F = ?f" "?n div ?F = ?g"
    using r by (simp_all add: sb_pages_def mult.commute)
  have p: "sb_page (ssdparams s) ?b ?n = p"
    using phys_addr_bounds(1) [OF D(8) r] calc_compose(2) [OF D(8) assms(2,3)] n(3,4) by (simp add: sb_page_def)
  have e: "empty_block_list s ! nat ?f = empty_root ?F A ?f" using R(3) r(1,2) by (simp add: cupto_def)
  have "page_free s p \<longleftrightarrow> is_free A ?b ?n"
    using curr_page_le [OF r(1,2)] unfolding page_free_def Let_def e is_free_def empty_root_def by (auto split: option.splits)
  then show ?thesis
    using D(4) assms(2,3) free_slots_mem [OF D(7,11) n(1,2) r(3,4)] p by (simp add: fresh_def)
qed

lemma page_invalid_iff:
  assumes "dev_inv s A" "0 \<le> p" "p < pages_of s"
  shows "page_ref s p < 0 \<longleftrightarrow> \<not> page_free s p \<and> \<not> (\<exists>l. tab s l = p)"
proof -
  have "page_ref s p < 0 \<longleftrightarrow> page_ref s p \<noteq> 0 \<and> \<not> 0 < page_ref s p" by auto
  then show ?thesis unfolding page_free_slots [OF assms] page_ref_mapped [OF dev_invD(1) [OF assms(1)] assms(2,3)] .
qed

end
