(* ===== verification/Scenario.thy ===== *)
theory Scenario
  imports HostView
begin

section \<open>A concrete device\<close>

text \<open>
  The device that the configuration file of the repository describes, after its start and after a
  first write, and requests that are ready on it. The properties are applied to these states.
\<close>

subsection \<open>A device with the configuration of the repository\<close>

definition shipped_clock :: "clock_src \<Rightarrow> nat \<Rightarrow> int" where
  "shipped_clock src n = int n"

definition shipped_dev :: ssdstate where
  "shipped_dev = the (SSD_INIT shipped_clock (Some shipped_conf) no_files True None)"

lemma shipped_dev_blank:
  "SSD_INIT shipped_clock (Some shipped_conf) no_files True None = Some shipped_dev" "blank_dev shipped_dev"
  "derive_conf shipped_params = Some (ssdparams shipped_dev)" "perf_ok (perf shipped_dev)"
  "io_requests (perf shipped_dev) = []"
  "stat_NVRAMGC_print (iostat shipped_dev) = 0" "stat_GCRNVRAM_print (iostat shipped_dev) = 0"
  "stat_write_req_print (iostat shipped_dev) = 0"
  using SSD_INIT_blank [OF parse_shipped shipped_params_ok, of shipped_clock] by (auto simp: shipped_dev_def)

lemma shipped_conf_derived:
  assumes "derive_conf shipped_params = Some c"
  shows "PAGE_NB c = 640" "BLOCK_NB c = 1024" "FLASH_NB c = 8" "SECTORS_PER_PAGE c = 8" "PAGE_MAPPING_ENTRY_NB c = 5242880"
    "SECTOR_NB c = 41943040" "sb_pages c = 5120" "CHANNEL_NB c = 2" "GC_MODE c = 2" "CELL_READ_DELAY c = 40000"
    "REG_READ_DELAY c = 60000" "CELL_PROGRAM_DELAY c = 800000" "REG_WRITE_DELAY c = 40000"
  using assms by (auto simp: derive_conf_def shipped_params_def zero_conf_def Let_def sb_pages_def sdiv_nonneg)

lemmas shipped_dev_params = shipped_conf_derived [OF shipped_dev_blank(3)]

lemma shipped_dev_inv:
  "dev_inv shipped_dev (all_free (ssdparams shipped_dev))" "dev_ok shipped_dev" "tab shipped_dev = (\<lambda>l. - 1)"
  "stat_ppn_free (pstat shipped_dev) = 5242880"
proof -
  note b = blank_dev_inv [OF shipped_dev_blank(2)]
  show "dev_inv shipped_dev (all_free (ssdparams shipped_dev))" "tab shipped_dev = (\<lambda>l. - 1)" using b by simp_all
  show "dev_ok shipped_dev" using b(1) by (auto simp: dev_ok_def)
  show "stat_ppn_free (pstat shipped_dev) = 5242880" using shipped_dev_blank(2) by (simp add: blank_dev_def Let_def shipped_dev_params)
qed

lemma shipped_dev_room:
  "int n < 2 ^ 32 \<Longrightarrow> int r < 2 ^ 32 \<Longrightarrow> int w < 2 ^ 32 \<Longrightarrow> room n r w shipped_dev" "k \<le> 126 \<Longrightarrow> ref_room k shipped_dev"
proof -
  show "room n r w shipped_dev" if "int n < 2 ^ 32" "int r < 2 ^ 32" "int w < 2 ^ 32"
    using that shipped_dev_blank(6-8) by (simp add: print_room_def)
  show "ref_room k shipped_dev" if "k \<le> 126"
    using that blank_tables(2) [OF shipped_dev_blank(2)] by (auto simp: ref_room_def)
qed

subsection \<open>Requests\<close>

definition first_write :: request_meta where
  "first_write = \<lparr>req_length = 16, req_sector_nb = 8,
     lpns_info = [\<lparr>tx_id = 0, lpn_flag = 0, h_lpn = 0\<rparr>, \<lparr>tx_id = 0, lpn_flag = 0, h_lpn = 0\<rparr>]\<rparr>"

lemma first_write_ready: "cmd_ready shipped_dev (Write first_write)" "pages_in (ssdparams shipped_dev) first_write = 2"
proof -
  show p: "pages_in (ssdparams shipped_dev) first_write = 2"
    by (simp add: pages_in_def req_pages_def page_count_def first_write_def shipped_dev_params)
  show "cmd_ready shipped_dev (Write first_write)"
    by (simp add: p req_ok_def Let_def shipped_dev_params shipped_dev_inv shipped_dev_room)
      (simp add: first_write_def flagged_def remap_flag_def shipped_dev_room)
qed

lemma ready_after:
  assumes "dev_ok s" "cmd_ready s c" "\<And>s'. ssdparams s' = ssdparams s \<Longrightarrow> ready_run cmd_ready exec s' cs"
  shows "ready_run cmd_ready exec s (c # cs)"
  using assms exec_step unfolding dev_ok_def by fastforce

definition demo_cmds :: "host_cmd list" where
  "demo_cmds = [Write first_write, Read 8 0]"

lemma shipped_run: "ready_run cmd_ready exec shipped_dev demo_cmds"
  unfolding demo_cmds_def
  by (rule ready_after [OF shipped_dev_inv(2) first_write_ready(1)])
    (auto simp: range_ok_def shipped_dev_params split: option.splits)

text \<open>A state of the concrete device with room for a few more requests.\<close>

definition roomy :: "ssdstate \<Rightarrow> bool" where
  "roomy s \<longleftrightarrow> dev_ok s \<and> ssdparams s = ssdparams shipped_dev \<and> 20000 \<le> stat_ppn_free (pstat s) \<and> ref_room 50 s \<and>
     room 100000 10500000 10 s"

lemma roomyD:
  assumes "roomy s"
  shows "dev_ok s" "ssdparams s = ssdparams shipped_dev" "20000 \<le> stat_ppn_free (pstat s)" "k \<le> 50 \<Longrightarrow> ref_room k s"
    "n \<le> 100000 \<Longrightarrow> r \<le> 10500000 \<Longrightarrow> w \<le> 10 \<Longrightarrow> room n r w s"
proof -
  show "dev_ok s" "ssdparams s = ssdparams shipped_dev" "20000 \<le> stat_ppn_free (pstat s)" using assms by (simp_all add: roomy_def)
  show "ref_room k s" if "k \<le> 50" using assms that unfolding roomy_def by (blast intro: ref_room_mono)
  show "room n r w s" if "n \<le> 100000" "r \<le> 10500000" "w \<le> 10" using assms that unfolding roomy_def by (blast intro: print_room_mono)
qed

lemma shipped_dev_roomy: "roomy shipped_dev"
  by (simp add: roomy_def shipped_dev_inv shipped_dev_room)

lemma one_page_ready:
  fixes req :: request_meta and li :: lpn_info and l :: int
  assumes "roomy s" "req = \<lparr>req_length = 8, req_sector_nb = 8 * l, lpns_info = [li]\<rparr>" "0 \<le> l" "l < 5242880" "h_lpn li < 5242880"
  shows "cmd_ready s (Write req)" "pages_in (ssdparams s) req = 1" "req_steps (ssdparams s) req 1 = [(li, l)]"
proof -
  note R = roomyD [OF assms(1)]
  show p: "pages_in (ssdparams s) req = 1"
    by (simp add: assms(2) pages_in_def req_pages_def page_count_def R(2) shipped_dev_params)
  have "flagged (take 1 (lpns_info req)) \<le> 50" by (simp add: assms(2) flagged_def)
  then have "ref_room (flagged (take 1 (lpns_info req))) s" by (rule R(4))
  moreover have "room 1025 5242881 1 s" by (rule R(5)) simp_all
  moreover have "5120 \<le> stat_ppn_free (pstat s)" using R(3) by simp
  ultimately show "cmd_ready s (Write req)"
    using assms(3-5) p by (simp add: req_ok_def Let_def R(2) shipped_dev_params) (simp add: assms(2))
  show "req_steps (ssdparams s) req 1 = [(li, l)]"
    by (simp add: req_steps_def cupto_def assms(2) R(2) shipped_dev_params)
qed

subsection \<open>After the first write\<close>

definition written_dev :: ssdstate where
  "written_dev = snd (the (exec shipped_dev (Write first_write)))"

lemma first_write_run:
  "\<exists>r s A m. SSD_WRITE shipped_dev first_write = Some (r, s) \<and> dev_inv s A \<and> ssdparams s = ssdparams shipped_dev \<and>
     host_steps (req_steps (ssdparams shipped_dev) first_write 2) (tab shipped_dev) m \<and> same_sharing m (tab s) \<and>
     5242880 \<le> int (card (free_slots (ssdparams s) A)) + 2 \<and> ref_room 50 s \<and> room 100000 10500000 10 s"
proof -
  note fr = stat_ppn_free_slots [OF shipped_dev_inv(1), unfolded shipped_dev_inv(4)]
  have q: "req_ok (ssdparams shipped_dev) first_write" using first_write_ready(1) by (simp add: Let_def)
  have "flagged (take 2 (lpns_info first_write)) = 0" by (simp add: first_write_def flagged_def remap_flag_def)
  then have w: "write_ready 50 100000 10500000 10 shipped_dev (all_free (ssdparams shipped_dev)) first_write"
    using fr by (simp add: write_ready_def Let_def first_write_ready(2) shipped_dev_params shipped_dev_room)
  from FTL_WRITE_body_ok [OF shipped_dev_inv(1) q w, unfolded first_write_ready(2)] show ?thesis
    by (clarsimp simp: SSD_WRITE_def FTL_WRITE_def fr [symmetric]) blast
qed

lemma written_dev:
  "exec shipped_dev (Write first_write) = Some (fst (the (exec shipped_dev (Write first_write))), written_dev)"
  "roomy written_dev" "reachable shipped_dev written_dev" "ssdparams written_dev = ssdparams shipped_dev"
  "tab written_dev 1 \<noteq> - 1" "tab written_dev 2 \<noteq> - 1" "tab written_dev 1 \<noteq> tab written_dev 2"
  "l \<noteq> 1 \<Longrightarrow> l \<noteq> 2 \<Longrightarrow> tab written_dev l = - 1"
proof -
  from first_write_run obtain r s A m where
    e: "SSD_WRITE shipped_dev first_write = Some (r, s)" "dev_inv s A" "ssdparams s = ssdparams shipped_dev"
      "host_steps (req_steps (ssdparams shipped_dev) first_write 2) (tab shipped_dev) m" "same_sharing m (tab s)"
      "5242880 \<le> int (card (free_slots (ssdparams s) A)) + 2" "ref_room 50 s" "room 100000 10500000 10 s" by blast
  have w: "written_dev = s" using e(1) by (simp add: written_dev_def)
  show x: "exec shipped_dev (Write first_write) = Some (fst (the (exec shipped_dev (Write first_write))), written_dev)"
    "ssdparams written_dev = ssdparams shipped_dev" using e(1,3) w by simp_all
  show "roomy written_dev" using e stat_ppn_free_slots [OF e(2)] by (auto simp: w roomy_def dev_ok_def)
  show "reachable shipped_dev written_dev" by (rule reachable.command [OF reachable.start first_write_ready(1) x(1)])
  have st: "req_steps (ssdparams shipped_dev) first_write 2
      = [(\<lparr>tx_id = 0, lpn_flag = 0, h_lpn = 0\<rparr>, 1), (\<lparr>tx_id = 0, lpn_flag = 0, h_lpn = 0\<rparr>, 2)]"
    by (simp add: req_steps_def cupto_def first_write_def shipped_dev_params upt_rec)
  note p = host_steps_plain [OF e(4)]
  have m: "m 1 \<noteq> - 1" "m 2 \<noteq> - 1" "m 1 \<noteq> m 2" "\<And>l. l \<noteq> 1 \<Longrightarrow> l \<noteq> 2 \<Longrightarrow> m l = - 1"
    using p [of 1] p [of 2] p by (auto simp: st remap_flag_def shipped_dev_inv(3))
  show "tab written_dev 1 \<noteq> - 1" "tab written_dev 2 \<noteq> - 1" "tab written_dev 1 \<noteq> tab written_dev 2"
    "l \<noteq> 1 \<Longrightarrow> l \<noteq> 2 \<Longrightarrow> tab written_dev l = - 1" using e(5) m by (auto simp: w same_sharing_def)
qed

text \<open>A copy of page 1 to page 10, and a move of it by the file system.\<close>

definition copy_write :: request_meta where
  "copy_write = \<lparr>req_length = 8, req_sector_nb = 8 * 10, lpns_info = [\<lparr>tx_id = 0, lpn_flag = CP_WRITE, h_lpn = 1\<rparr>]\<rparr>"

definition gc_move :: request_meta where
  "gc_move = \<lparr>req_length = 8, req_sector_nb = 8 * 10, lpns_info = [\<lparr>tx_id = 0, lpn_flag = FS_GC_WRITE, h_lpn = 1\<rparr>]\<rparr>"

lemmas copy_write_ready = one_page_ready [OF written_dev(2) copy_write_def]
lemmas gc_move_ready = one_page_ready [OF written_dev(2) gc_move_def]

end
