(* ===== verification/BloomFilter.thy ===== *)
theory BloomFilter
  imports Complex_Main Prelude "HOL-Library.Word"
begin

unbundle bit_operations_syntax

section \<open>The Bloom filters for hot pages\<close>

text \<open>
  \<open>ftl_bf.c\<close>: four Bloom filters of \<open>2 ^ 14\<close> bits record how often a pair of inode and offset was written. The
  hash functions are at their 32-bit width; a byte array with its length is a list of bytes. The
  weights are floats in the code. They are multiples of one half and their sum is at most 5, so float
  arithmetic on them is exact, and they are rationals here. The five fields of \<open>struct ssdstate\<close> that
  belong to the filters are the record \<open>bf_state\<close>.
\<close>

subsection \<open>Constants and state\<close>

abbreviation (input) FILTER_NUMBER :: int where "FILTER_NUMBER \<equiv> 4"
abbreviation (input) FILTER_SIZE :: nat where "FILTER_SIZE \<equiv> 14"
abbreviation (input) FILTER_SIZE_BYTES :: nat where "FILTER_SIZE_BYTES \<equiv> 2048"
abbreviation (input) DACAY :: int where "DACAY \<equiv> 4096"
abbreviation (input) HOT :: int where "HOT \<equiv> 0"
abbreviation (input) COLD :: int where "COLD \<equiv> 1"

record bf_state =
  current_filter :: int
  current_decay_filter :: int
  data_buffer_counter :: int
  filter_weight :: "rat list"
  bf_filter :: "8 word list list"

text \<open>What \<open>INIT_SSD_CONFIG\<close> stores into the five fields.\<close>

definition init_filters :: bf_state where
  "init_filters = \<lparr>current_filter = 0, current_decay_filter = - 1, data_buffer_counter = 0,
     filter_weight = replicate (nat FILTER_NUMBER) 0,
     bf_filter = replicate (nat FILTER_NUMBER) (replicate FILTER_SIZE_BYTES 0)\<rparr>"

subsection \<open>Hash functions\<close>

definition ROT32 :: "32 word \<Rightarrow> nat \<Rightarrow> 32 word" where
  "ROT32 x y = push_bit y x OR drop_bit (32 - y) x"

definition RSHash :: "8 word list \<Rightarrow> 32 word" where
  "RSHash str = fst (foldl (\<lambda>(hash, a) c. (hash * a + ucast c, a * 378551)) (0, 63689) str)"

definition JSHash :: "8 word list \<Rightarrow> 32 word" where
  "JSHash str = foldl (\<lambda>hash c. hash XOR (push_bit 5 hash + ucast c + drop_bit 2 hash)) 1315423911 str"

definition PJWHash :: "8 word list \<Rightarrow> 32 word" where
  "PJWHash str = foldl (\<lambda>hash c.
     let hash1 = push_bit 4 hash + ucast c;
         test = hash1 AND 0xF0000000
     in if test \<noteq> 0 then (hash1 XOR drop_bit 24 test) AND NOT 0xF0000000 else hash1) 0 str"

definition SDBMHash :: "8 word list \<Rightarrow> 32 word" where
  "SDBMHash str = foldl (\<lambda>hash c. ucast c + push_bit 6 hash + push_bit 16 hash - hash) 0 str"

definition DJBHash :: "8 word list \<Rightarrow> 32 word" where
  "DJBHash str = foldl (\<lambda>hash c. push_bit 5 hash + hash + ucast c) 5381 str"

definition DEKHash :: "8 word list \<Rightarrow> 32 word" where
  "DEKHash str = foldl (\<lambda>hash c. (push_bit 5 hash XOR drop_bit 27 hash) XOR ucast c) (of_nat (length str)) str"

definition FNVHash :: "8 word list \<Rightarrow> 32 word" where
  "FNVHash str = foldl (\<lambda>hash c. (hash * 0x811C9DC5) XOR ucast c) 0 str"

text \<open>
  \<open>MURMURHash\<close>: the blocks are read as little-endian 32-bit values, the up to three bytes of the tail
  fall through the cases of the switch, and the last lines mix the result.
\<close>

definition murmur_k :: "32 word \<Rightarrow> 32 word" where
  "murmur_k k = ROT32 (k * 0xcc9e2d51) 15 * 0x1b873593"

definition murmur_fin :: "32 word \<Rightarrow> 32 word" where
  "murmur_fin hash =
     (let h1 = hash XOR drop_bit 16 hash;
          h2 = h1 * 0x85ebca6b;
          h3 = h2 XOR drop_bit 13 h2;
          h4 = h3 * 0xc2b2ae35
      in h4 XOR drop_bit 16 h4)"

fun murmur_blocks :: "8 word list \<Rightarrow> 32 word \<Rightarrow> 32 word" where
  "murmur_blocks (b0 # b1 # b2 # b3 # bs) hash =
     (let k = ucast b0 OR push_bit 8 (ucast b1) OR push_bit 16 (ucast b2) OR push_bit 24 (ucast b3)
      in murmur_blocks bs (ROT32 (hash XOR murmur_k k) 13 * 5 + 0xe6546b64))"
| "murmur_blocks [b0, b1, b2] hash =
     hash XOR murmur_k (push_bit 16 (ucast b2) XOR push_bit 8 (ucast b1) XOR ucast b0)"
| "murmur_blocks [b0, b1] hash = hash XOR murmur_k (push_bit 8 (ucast b1) XOR ucast b0)"
| "murmur_blocks [b0] hash = hash XOR murmur_k (ucast b0)"
| "murmur_blocks [] hash = hash"

definition MURMURHash :: "8 word list \<Rightarrow> 32 word" where
  "MURMURHash key = murmur_fin (murmur_blocks key 0 XOR of_nat (length key))"

subsection \<open>The filters\<close>

definition int_to_char :: "32 word \<Rightarrow> 8 word list" where
  "int_to_char lpn = map (\<lambda>i. ucast (drop_bit (8 * i) lpn)) [0..<4]"

definition get_hashes :: "8 word list \<Rightarrow> 8 word list \<Rightarrow> 32 word list" where
  "get_hashes in1 in2 = [FNVHash in1, MURMURHash in2]"

text \<open>A hash is folded to 14 bits; the upper 11 select a byte of the filter and the lower 3 a bit in it.\<close>

definition fold_hash :: "32 word \<Rightarrow> 32 word" where
  "fold_hash h = h mod 2 ^ FILTER_SIZE"

definition hash_bit :: "32 word \<Rightarrow> 8 word" where
  "hash_bit h = push_bit (unat (h AND 7)) 1"

text \<open>
  \<open>in_dict\<close> folds the hashes in place until one misses, so the array that the caller keeps changes too.
\<close>

fun in_dict :: "8 word list \<Rightarrow> 32 word list \<Rightarrow> (bool \<times> 32 word list) option" where
  "in_dict filt [] = Some (True, [])"
| "in_dict filt (h # hs) =
     do {
       let h' = fold_hash h;
       b \<leftarrow> cread filt (uint (drop_bit 3 h'));
       (if b AND hash_bit h' = 0 then Some (False, h' # hs)
        else do { (r, hs') \<leftarrow> in_dict filt hs; Some (r, h' # hs') })
     }"

fun insert_word :: "8 word list \<Rightarrow> 32 word list \<Rightarrow> 8 word list option" where
  "insert_word filt [] = Some filt"
| "insert_word filt (h # hs) =
     do {
       let h' = fold_hash h;
       b \<leftarrow> cread filt (uint (drop_bit 3 h'));
       filt' \<leftarrow> cwrite filt (uint (drop_bit 3 h')) (b OR hash_bit h');
       insert_word filt' hs
     }"

definition hot_step :: "bf_state \<Rightarrow> int \<Rightarrow> rat \<times> 32 word list \<Rightarrow> (rat \<times> 32 word list) option" where
  "hot_step ssd i = (\<lambda>(sum_weight, hash).
     do {
       filt \<leftarrow> cread (bf_filter ssd) i;
       (hit, hash') \<leftarrow> in_dict filt hash;
       w \<leftarrow> cread (filter_weight ssd) i;
       Some (if hit then sum_weight + w else sum_weight, hash')
     })"

definition check_hot :: "bf_state \<Rightarrow> 32 word list \<Rightarrow> (rat \<times> 32 word list) option" where
  "check_hot ssd hash = foldM (hot_step ssd) (cupto FILTER_NUMBER) (0, hash)"

text \<open>The decay: one filter is cleared and the weights are dealt out again.\<close>

definition set_weights :: "int \<Rightarrow> rat list \<Rightarrow> rat list option" where
  "set_weights cur ws = foldM (\<lambda>j ws. cwrite ws ((FILTER_NUMBER + cur - j) smod FILTER_NUMBER) (2 - of_int j * (2 / 4)))
     (cupto FILTER_NUMBER) ws"

definition decay :: "bf_state \<Rightarrow> bf_state option" where
  "decay ssd =
     do {
       let d = (if current_decay_filter ssd = - 1 then 0 else current_decay_filter ssd);
       filt \<leftarrow> cread (bf_filter ssd) d;
       fs \<leftarrow> cwrite (bf_filter ssd) d (replicate FILTER_SIZE_BYTES 0);
       ws \<leftarrow> set_weights (current_filter ssd) (filter_weight ssd);
       Some (ssd\<lparr>bf_filter := fs, filter_weight := ws, current_decay_filter := (FILTER_NUMBER + d + 1) smod FILTER_NUMBER\<rparr>)
     }"

text \<open>
  The search for the next filter that misses: the result is \<open>i\<close>, the number of the filter and the
  hashes at the end of the loop.
\<close>

function next_miss :: "8 word list list \<Rightarrow> int \<Rightarrow> int \<Rightarrow> 32 word list \<Rightarrow> (int \<times> int \<times> 32 word list) option" where
  "next_miss fs cur i hash =
     (let i1 = i + 1; next_filter = (cur + i1) smod FILTER_NUMBER
      in if FILTER_NUMBER - 1 < i1 then Some (i1, next_filter, hash)
         else do {
           filt \<leftarrow> cread fs next_filter;
           (hit, hash') \<leftarrow> in_dict filt hash;
           (if hit then next_miss fs cur i1 hash' else Some (i1, next_filter, hash'))
         })"
  by pat_completeness auto
termination by (relation "measure (\<lambda>(fs, cur, i, hash). nat (FILTER_NUMBER - i))") auto

declare next_miss.simps [simp del]

definition insert_at :: "bf_state \<Rightarrow> int \<Rightarrow> 32 word list \<Rightarrow> bf_state option" where
  "insert_at ssd j hash =
     do {
       filt \<leftarrow> cread (bf_filter ssd) j;
       filt' \<leftarrow> insert_word filt hash;
       fs \<leftarrow> cwrite (bf_filter ssd) j filt';
       Some (ssd\<lparr>bf_filter := fs\<rparr>)
     }"

definition record_access :: "bf_state \<Rightarrow> 32 word list \<Rightarrow> bf_state option" where
  "record_access ssd hash =
     do {
       filt \<leftarrow> cread (bf_filter ssd) (current_filter ssd);
       (hit, hash1) \<leftarrow> in_dict filt hash;
       (if hit then do {
          (i, next_filter, hash2) \<leftarrow> next_miss (bf_filter ssd) (current_filter ssd) 0 hash1;
          (if i < FILTER_NUMBER then insert_at ssd next_filter hash2 else Some ssd)
        }
        else insert_at ssd (current_filter ssd) hash1)
     }"

definition Bloom_filter :: "bf_state \<Rightarrow> int \<Rightarrow> int \<Rightarrow> (int \<times> bf_state) option" where
  "Bloom_filter ssd ino off =
     do {
       let hash = get_hashes (int_to_char (word_of_int ino)) (int_to_char (word_of_int off));
       (evict_weight, hash1) \<leftarrow> check_hot ssd hash;
       let max_weight = (if 0 < evict_weight then evict_weight else 0);
       let bloom_temp = (if 3 \<le> max_weight then HOT else COLD);
       ssd1 \<leftarrow> (if data_buffer_counter ssd mod DACAY = 1 then decay ssd else Some ssd);
       ssd2 \<leftarrow> record_access ssd1 hash;
       let cur = current_filter ssd2 + 1;
       Some (bloom_temp, ssd2\<lparr>current_filter := (if FILTER_NUMBER - 1 < cur then 0 else cur)\<rparr>)
     }"

section \<open>Lemmas\<close>


subsection \<open>Injectivity of the mixing steps\<close>

lemma mult_inverse_word:
  fixes a b x y :: "32 word"
  assumes "a * b = 1"
  shows "x * a = y * a \<longleftrightarrow> x = y"
proof
  assume "x * a = y * a"
  then have "x * a * b = y * a * b" by simp
  then show "x = y" using assms by (simp add: mult.assoc)
qed simp

lemma murmur_mult [simp]:
  fixes x y :: "32 word"
  shows "x * 0xcc9e2d51 = y * 0xcc9e2d51 \<longleftrightarrow> x = y" "x * 0x1b873593 = y * 0x1b873593 \<longleftrightarrow> x = y"
    "x * 0x85ebca6b = y * 0x85ebca6b \<longleftrightarrow> x = y" "x * 0xc2b2ae35 = y * 0xc2b2ae35 \<longleftrightarrow> x = y"
    "x * 5 = y * 5 \<longleftrightarrow> x = y"
  by (rule mult_inverse_word [where b = 3739302833], simp, rule mult_inverse_word [where b = 1458385051], simp,
      rule mult_inverse_word [where b = 2781581891], simp, rule mult_inverse_word [where b = 2127672349], simp,
      rule mult_inverse_word [where b = 3435973837], simp)

lemma left_inverse_eq: "(\<And>z. g (f z) = z) \<Longrightarrow> f x = f y \<longleftrightarrow> x = y"
  by metis

lemma xor_shift_eq [simp]:
  fixes x y :: "32 word"
  shows "x XOR drop_bit 16 x = y XOR drop_bit 16 y \<longleftrightarrow> x = y" "x XOR drop_bit 13 x = y XOR drop_bit 13 y \<longleftrightarrow> x = y"
proof -
  show "x XOR drop_bit 16 x = y XOR drop_bit 16 y \<longleftrightarrow> x = y"
    by (rule left_inverse_eq [where g = "\<lambda>z. z XOR drop_bit 16 z" and f = "\<lambda>z. z XOR drop_bit 16 z"])
      (rule bit_word_eqI, auto simp: bit_simps)
  show "x XOR drop_bit 13 x = y XOR drop_bit 13 y \<longleftrightarrow> x = y"
    by (rule left_inverse_eq [where g = "\<lambda>z. z XOR drop_bit 13 z XOR drop_bit 26 z" and f = "\<lambda>z. z XOR drop_bit 13 z"])
      (rule bit_word_eqI, auto simp: bit_simps)
qed

lemma ROT32_back:
  assumes "0 < n" "n < 32"
  shows "ROT32 (ROT32 x n) (32 - n) = x"
proof (rule bit_word_eqI)
  fix k :: nat assume "k < LENGTH(32)"
  then show "bit (ROT32 (ROT32 x n) (32 - n)) k = bit x k"
    using assms by (cases "k < 32 - n") (auto simp: ROT32_def bit_simps)
qed

lemma ROT32_eq: "0 < n \<Longrightarrow> n < 32 \<Longrightarrow> ROT32 x n = ROT32 y n \<longleftrightarrow> x = y"
  by (rule left_inverse_eq [where g = "\<lambda>z. ROT32 z (32 - n)" and f = "\<lambda>z. ROT32 z n"]) (rule ROT32_back)

lemma xor_eq_word [simp]: "x XOR c = y XOR c \<longleftrightarrow> x = y" for x y c :: "32 word"
  by (rule left_inverse_eq [where g = "\<lambda>z. z XOR c" and f = "\<lambda>z. z XOR c"]) (simp add: xor.assoc)

lemma murmur_k_eq [simp]: "murmur_k x = murmur_k y \<longleftrightarrow> x = y"
  by (simp add: murmur_k_def ROT32_eq)

lemma murmur_fin_eq [simp]: "murmur_fin x = murmur_fin y \<longleftrightarrow> x = y"
  by (simp add: murmur_fin_def Let_def)

lemma int_to_char_bytes:
  "int_to_char w = [ucast w, ucast (drop_bit 8 w), ucast (drop_bit 16 w), ucast (drop_bit 24 w)]"
  by (simp add: int_to_char_def upt_rec)

lemma bytes_join:
  fixes w :: "32 word"
  shows "ucast (ucast w :: 8 word) OR push_bit 8 (ucast (ucast (drop_bit 8 w) :: 8 word)) OR
    push_bit 16 (ucast (ucast (drop_bit 16 w) :: 8 word)) OR push_bit 24 (ucast (ucast (drop_bit 24 w) :: 8 word)) = w"
    (is "?j = w")
proof (rule bit_word_eqI)
  fix n :: nat assume n: "n < LENGTH(32)"
  consider "n < 8" | "8 \<le> n" "n < 16" | "16 \<le> n" "n < 24" | "24 \<le> n" by linarith
  then show "bit ?j n = bit w n" using n by cases (auto simp: bit_simps)
qed

lemma MURMURHash_word:
  "MURMURHash (int_to_char w) = murmur_fin ((ROT32 (murmur_k w) 13 * 5 + 0xe6546b64) XOR 4)"
  by (simp add: MURMURHash_def int_to_char_bytes bytes_join Let_def)

lemma PJWHash_high_bits: "PJWHash str AND 0xF0000000 = 0"
proof -
  have "foldl f a str AND 0xF0000000 = 0" if "a AND 0xF0000000 = 0" "\<And>h c. f h c AND 0xF0000000 = 0"
    for f :: "32 word \<Rightarrow> 8 word \<Rightarrow> 32 word" and a
    using that by (induction str arbitrary: a) auto
  then show ?thesis unfolding PJWHash_def
    by (auto simp: Let_def and.assoc)
qed


subsection \<open>Bits of a filter\<close>

definition fbit :: "8 word list \<Rightarrow> 32 word \<Rightarrow> bool" where
  "fbit filt h = bit (filt ! unat (drop_bit 3 (fold_hash h))) (unat (fold_hash h AND 7))"

definition holds :: "8 word list \<Rightarrow> 32 word list \<Rightarrow> bool" where
  "holds filt hs \<longleftrightarrow> (\<forall>h \<in> set hs. fbit filt h)"

lemma fold_hash_take: "fold_hash h = take_bit FILTER_SIZE h"
  by (simp add: fold_hash_def take_bit_eq_mod)

lemma fold_hash_idem [simp]: "fold_hash (fold_hash h) = fold_hash h"
  by (simp add: fold_hash_take)

lemma fbit_fold [simp]: "fbit filt (fold_hash h) = fbit filt h"
  by (simp add: fbit_def)

lemma byte_index: "unat (drop_bit 3 (fold_hash h)) < FILTER_SIZE_BYTES"
proof -
  have "unat (take_bit 14 h) < 2 ^ 14" using take_bit_nat_less_exp [of 14 "unat h"] by (simp add: unsigned_take_bit_eq)
  then show ?thesis using drop_bit_eq_div [of 3 "unat (take_bit 14 h)"] by (simp add: fold_hash_take unat_drop_bit_eq)
qed

lemma bit_index: "unat (fold_hash h AND 7) < 8"
proof -
  have "fold_hash h AND 7 = take_bit 3 (fold_hash h)" by (simp add: take_bit_eq_mask mask_numeral)
  then show ?thesis using take_bit_nat_less_exp [of 3 "unat (fold_hash h)"] by (simp add: unsigned_take_bit_eq)
qed

lemma low_bits_split: "push_bit 3 (drop_bit 3 x) OR (x AND 7) = x" for x :: "32 word"
proof (rule bit_word_eqI)
  fix n :: nat assume n: "n < LENGTH(32)"
  have "x AND 7 = take_bit 3 x" by (simp add: take_bit_eq_mask mask_numeral)
  then show "bit (push_bit 3 (drop_bit 3 x) OR (x AND 7)) n = bit x n"
    using n by (cases "n < 3") (simp_all add: bit_simps)
qed

lemma index_split:
  assumes "unat (drop_bit 3 (fold_hash g)) = unat (drop_bit 3 (fold_hash h))" "unat (fold_hash g AND 7) = unat (fold_hash h AND 7)"
  shows "fold_hash g = fold_hash h"
proof -
  from assms(1) have d: "drop_bit 3 (fold_hash g) = drop_bit 3 (fold_hash h)" by (rule unsigned_word_eqI)
  from assms(2) have a: "fold_hash g AND 7 = fold_hash h AND 7" by (rule unsigned_word_eqI)
  have "fold_hash g = push_bit 3 (drop_bit 3 (fold_hash g)) OR (fold_hash g AND 7)" by (rule low_bits_split [symmetric])
  also have "\<dots> = push_bit 3 (drop_bit 3 (fold_hash h)) OR (fold_hash h AND 7)" by (simp only: d a)
  also have "\<dots> = fold_hash h" by (rule low_bits_split)
  finally show ?thesis .
qed


lemma uint_nat: "nat (uint w) = unat w" for w :: "'a::len word"
  by (simp add: nat_uint_eq)

lemma byte_access [cmem]:
  assumes "length filt = FILTER_SIZE_BYTES"
  shows "cread filt (uint (drop_bit 3 (fold_hash h))) = Some (filt ! unat (drop_bit 3 (fold_hash h)))"
    "cwrite filt (uint (drop_bit 3 (fold_hash h))) b = Some (filt[unat (drop_bit 3 (fold_hash h)) := b])"
proof -
  have "uint (drop_bit 3 (fold_hash h)) < int (length filt)"
    using byte_index [of h] assms by (simp only: uint_nat [symmetric] zless_nat_eq_int_zless)
  then show "cread filt (uint (drop_bit 3 (fold_hash h))) = Some (filt ! unat (drop_bit 3 (fold_hash h)))"
    "cwrite filt (uint (drop_bit 3 (fold_hash h))) b = Some (filt[unat (drop_bit 3 (fold_hash h)) := b])"
    by (simp_all add: cread_def cwrite_def uint_nat)
qed

lemma bit_hash_bit: "bit (hash_bit h) n \<longleftrightarrow> n = unat (h AND 7) \<and> n < 8"
  by (auto simp: hash_bit_def bit_simps simp del: push_bit_of_1)

lemma test_hash_bit: "b AND hash_bit h = 0 \<longleftrightarrow> \<not> bit b (unat (h AND 7))" if "unat (h AND 7) < 8" for b :: "8 word"
proof -
  have "b AND hash_bit h = 0 \<longleftrightarrow> (\<forall>n < 8. \<not> bit (b AND hash_bit h) n)" by (auto simp: bit_word_eqI intro!: bit_word_eqI)
  then show ?thesis using that by (auto simp: bit_simps bit_hash_bit)
qed

lemma in_dict_ok:
  assumes "length filt = FILTER_SIZE_BYTES"
  shows "\<exists>hs'. in_dict filt hs = Some (holds filt hs, hs') \<and> map fold_hash hs' = map fold_hash hs"
proof (induction hs)
  case (Cons h hs)
  then obtain hs' where "in_dict filt hs = Some (holds filt hs, hs')" "map fold_hash hs' = map fold_hash hs" by blast
  then show ?case
    using assms bit_index [of h] by (auto simp: Let_def cmem test_hash_bit holds_def fbit_def)
qed (simp add: holds_def)

text \<open>Inserting sets the bits of the word and no other.\<close>

lemma fbit_set:
  assumes "length filt = FILTER_SIZE_BYTES"
  shows "fbit (filt[unat (drop_bit 3 (fold_hash h)) := filt ! unat (drop_bit 3 (fold_hash h)) OR hash_bit (fold_hash h)]) g
    \<longleftrightarrow> fbit filt g \<or> fold_hash g = fold_hash h"
proof (cases "unat (drop_bit 3 (fold_hash g)) = unat (drop_bit 3 (fold_hash h))")
  case True
  then show ?thesis
    using index_split [OF True] byte_index [of h] bit_index [of g] assms
    by (auto simp: fbit_def bit_simps bit_hash_bit)
qed (auto simp: fbit_def)

lemma insert_word_ok:
  assumes "length filt = FILTER_SIZE_BYTES"
  shows "\<exists>f. insert_word filt hs = Some f \<and> length f = FILTER_SIZE_BYTES \<and>
    (\<forall>g. fbit f g \<longleftrightarrow> fbit filt g \<or> fold_hash g \<in> fold_hash ` set hs)"
  using assms
proof (induction hs arbitrary: filt)
  case (Cons h hs)
  let ?f = "filt[unat (drop_bit 3 (fold_hash h)) := filt ! unat (drop_bit 3 (fold_hash h)) OR hash_bit (fold_hash h)]"
  from Cons.IH [of ?f] Cons.prems obtain f where f: "insert_word ?f hs = Some f" "length f = FILTER_SIZE_BYTES"
    "\<And>g. fbit f g \<longleftrightarrow> fbit ?f g \<or> fold_hash g \<in> fold_hash ` set hs" by auto
  show ?case
    using f Cons.prems by (auto simp: Let_def cmem fbit_set)
qed simp

lemma holds_cong: "map fold_hash hs' = map fold_hash hs \<Longrightarrow> holds filt hs' = holds filt hs"
proof -
  assume m: "map fold_hash hs' = map fold_hash hs"
  have "holds filt hs = (\<forall>h \<in> set (map fold_hash hs). fbit filt h)" for hs by (simp add: holds_def)
  then show ?thesis using m by metis
qed


subsection \<open>Counting accesses\<close>

definition bf_ok :: "bf_state \<Rightarrow> bool" where
  "bf_ok s \<longleftrightarrow> 0 \<le> current_filter s \<and> current_filter s < FILTER_NUMBER \<and>
     - 1 \<le> current_decay_filter s \<and> current_decay_filter s < FILTER_NUMBER \<and>
     length (filter_weight s) = nat FILTER_NUMBER \<and> length (bf_filter s) = nat FILTER_NUMBER \<and>
     (\<forall>f \<in> set (bf_filter s). length f = FILTER_SIZE_BYTES)"

text \<open>In how many of the filters a word is found.\<close>

definition hits :: "bf_state \<Rightarrow> 32 word list \<Rightarrow> nat" where
  "hits s hs = length (filter (\<lambda>f. holds f hs) (bf_filter s))"

definition word_of :: "int \<Rightarrow> int \<Rightarrow> 32 word list" where
  "word_of ino off = get_hashes (int_to_char (word_of_int ino)) (int_to_char (word_of_int off))"

lemma filter_access [cmem]:
  assumes "bf_ok s" "0 \<le> j" "j < FILTER_NUMBER"
  shows "cread (bf_filter s) j = Some (bf_filter s ! nat j)" "length (bf_filter s ! nat j) = FILTER_SIZE_BYTES"
    "cwrite (bf_filter s) j f = Some ((bf_filter s)[nat j := f])"
proof -
  have j: "nat j < length (bf_filter s)" "j < int (length (bf_filter s))" using assms by (auto simp: bf_ok_def)
  then show "cread (bf_filter s) j = Some (bf_filter s ! nat j)" "cwrite (bf_filter s) j f = Some ((bf_filter s)[nat j := f])"
    using assms(2) by (simp_all add: cread_def cwrite_def)
  show "length (bf_filter s ! nat j) = FILTER_SIZE_BYTES"
    using assms(1) nth_mem [OF j(1)] by (simp add: bf_ok_def)
qed

lemma insert_at_ok:
  assumes "bf_ok s" "0 \<le> j" "j < FILTER_NUMBER"
  shows "\<exists>f. insert_at s j hs = Some (s\<lparr>bf_filter := (bf_filter s)[nat j := f]\<rparr>) \<and> length f = FILTER_SIZE_BYTES \<and>
    (\<forall>g. fbit f g \<longleftrightarrow> fbit (bf_filter s ! nat j) g \<or> fold_hash g \<in> fold_hash ` set hs)"
proof -
  note a = filter_access [OF assms]
  from insert_word_ok [OF a(2), of hs] obtain f where "insert_word (bf_filter s ! nat j) hs = Some f" "length f = FILTER_SIZE_BYTES"
    "\<forall>g. fbit f g \<longleftrightarrow> fbit (bf_filter s ! nat j) g \<or> fold_hash g \<in> fold_hash ` set hs" by blast
  then show ?thesis using a by (intro exI [of _ f]) (simp add: insert_at_def)
qed

text \<open>Inserting into a filter that misses the word.\<close>

lemma insert_at_counts:
  assumes "bf_ok s" "0 \<le> j" "j < FILTER_NUMBER" "map fold_hash hs' = map fold_hash hs" "\<not> holds (bf_filter s ! nat j) hs"
  shows "\<exists>fs. insert_at s j hs' = Some (s\<lparr>bf_filter := fs\<rparr>) \<and> bf_ok (s\<lparr>bf_filter := fs\<rparr>) \<and>
    hits (s\<lparr>bf_filter := fs\<rparr>) hs = hits s hs + 1 \<and> (\<forall>g. hits s g \<le> hits (s\<lparr>bf_filter := fs\<rparr>) g)"
proof -
  from insert_at_ok [OF assms(1-3), of hs'] obtain f where f: "insert_at s j hs' = Some (s\<lparr>bf_filter := (bf_filter s)[nat j := f]\<rparr>)"
    "length f = FILTER_SIZE_BYTES" "\<And>g. fbit f g \<longleftrightarrow> fbit (bf_filter s ! nat j) g \<or> fold_hash g \<in> fold_hash ` set hs'" by blast
  have j: "nat j < length (bf_filter s)" using assms(1-3) by (auto simp: bf_ok_def)
  have "holds f hs'" using f(3) by (simp add: holds_def)
  then have h: "holds f hs" using holds_cong [OF assms(4)] by simp
  have mono: "holds (bf_filter s ! nat j) g \<Longrightarrow> holds f g" for g using f(3) by (auto simp: holds_def)
  have "bf_ok (s\<lparr>bf_filter := (bf_filter s)[nat j := f]\<rparr>)"
    using assms(1) f(2) by (auto simp: bf_ok_def dest!: subsetD [OF set_update_subset_insert])
  moreover have "hits (s\<lparr>bf_filter := (bf_filter s)[nat j := f]\<rparr>) hs = hits s hs + 1"
    using length_filter_update [OF j, of "\<lambda>f. holds f hs" f] h assms(5) by (simp add: hits_def of_bool_def)
  moreover have "hits s g \<le> hits (s\<lparr>bf_filter := (bf_filter s)[nat j := f]\<rparr>) g" for g
    using length_filter_update [OF j, of "\<lambda>f. holds f g" f] mono [of g] by (simp add: hits_def of_bool_def split: if_splits)
  ultimately show ?thesis using f(1) by blast
qed

lemma next_miss_ok:
  assumes "bf_ok s" "0 \<le> i" "i < FILTER_NUMBER" "0 \<le> cur" "cur < FILTER_NUMBER" "map fold_hash hs' = map fold_hash hs"
  shows "\<exists>i' j h. next_miss (bf_filter s) cur i hs' = Some (i', j, h) \<and> map fold_hash h = map fold_hash hs \<and>
    (if i' < FILTER_NUMBER then 0 \<le> j \<and> j < FILTER_NUMBER \<and> \<not> holds (bf_filter s ! nat j) hs
     else \<forall>k. i < k \<and> k < FILTER_NUMBER \<longrightarrow> holds (bf_filter s ! nat ((cur + k) mod FILTER_NUMBER)) hs)"
  using assms(2,3,6)
proof (induction "nat (FILTER_NUMBER - i)" arbitrary: i hs' rule: less_induct)
  case less
  define j where "j = (cur + (i + 1)) mod FILTER_NUMBER"
  have sm: "(cur + (i + 1)) smod FILTER_NUMBER = j" using less.prems(1) assms(4) by (simp add: j_def smod_nonneg)
  have j: "0 \<le> j" "j < FILTER_NUMBER" by (simp_all add: j_def)
  note a = filter_access [OF assms(1) j]
  from in_dict_ok [OF a(2), of hs'] obtain h1 where
    h1: "in_dict (bf_filter s ! nat j) hs' = Some (holds (bf_filter s ! nat j) hs, h1)" "map fold_hash h1 = map fold_hash hs"
    using less.prems(3) holds_cong [OF less.prems(3)] by auto
  note step = next_miss.simps [of "bf_filter s" cur i hs'] and sm
  consider "i = 3" | "i < 3" "holds (bf_filter s ! nat j) hs" | "i < 3" "\<not> holds (bf_filter s ! nat j) hs"
    using less.prems(2) by linarith
  then show ?case
  proof cases
    case 1
    then have "next_miss (bf_filter s) cur i hs' = Some (4, (cur + 4) smod 4, hs')" using step by simp
    moreover have "\<not> (i < k \<and> k < FILTER_NUMBER)" for k using 1 by linarith
    ultimately show ?thesis using less.prems(3) by auto
  next
    case 2
    have "nat (FILTER_NUMBER - (i + 1)) < nat (FILTER_NUMBER - i)" using 2(1) by simp
    from less.hyps [OF this _ _ h1(2)] 2(1) less.prems(1) obtain i' j' h where r: "next_miss (bf_filter s) cur (i + 1) h1 = Some (i', j', h)"
      "map fold_hash h = map fold_hash hs"
      "if i' < FILTER_NUMBER then 0 \<le> j' \<and> j' < FILTER_NUMBER \<and> \<not> holds (bf_filter s ! nat j') hs
       else \<forall>k. i + 1 < k \<and> k < FILTER_NUMBER \<longrightarrow> holds (bf_filter s ! nat ((cur + k) mod FILTER_NUMBER)) hs" by auto
    have "next_miss (bf_filter s) cur i hs' = Some (i', j', h)"
      using 2 step a(1) h1(1) r(1) sm by (simp add: Let_def)
    moreover have "holds (bf_filter s ! nat ((cur + k) mod FILTER_NUMBER)) hs"
      if "i < k" "k < FILTER_NUMBER" "\<not> i' < FILTER_NUMBER" for k
      using that r(3) 2(2) by (cases "k = i + 1") (auto simp: j_def)
    ultimately show ?thesis using r(2,3) by (auto split: if_splits)
  next
    case 3
    then show ?thesis using step a(1) h1 j sm by (simp add: Let_def)
  qed
qed

lemma hits_le: "bf_ok s \<Longrightarrow> hits s hs \<le> 4"
  using length_filter_le [of "\<lambda>f. holds f hs" "bf_filter s"] by (simp add: hits_def bf_ok_def)

lemma hits_full:
  assumes "bf_ok s" "\<And>k. 0 \<le> k \<Longrightarrow> k < FILTER_NUMBER \<Longrightarrow> holds (bf_filter s ! nat ((cur + k) mod FILTER_NUMBER)) hs"
  shows "hits s hs = 4"
proof -
  have "holds f hs" if "f \<in> set (bf_filter s)" for f
  proof -
    from that obtain n where n: "n < 4" "f = bf_filter s ! n" using assms(1) by (auto simp: in_set_conv_nth bf_ok_def)
    have "(cur + (int n - cur) mod FILTER_NUMBER) mod FILTER_NUMBER = int n" using n(1) by (simp add: mod_simps)
    then show ?thesis using assms(2) [of "(int n - cur) mod FILTER_NUMBER"] n(2) by simp
  qed
  then have "filter (\<lambda>f. holds f hs) (bf_filter s) = bf_filter s" by (simp add: filter_id_conv)
  then show ?thesis using assms(1) by (simp add: hits_def bf_ok_def)
qed

lemma record_access_ok:
  assumes "bf_ok s"
  shows "\<exists>fs. record_access s hs = Some (s\<lparr>bf_filter := fs\<rparr>) \<and> bf_ok (s\<lparr>bf_filter := fs\<rparr>) \<and>
    hits (s\<lparr>bf_filter := fs\<rparr>) hs = min 4 (hits s hs + 1) \<and> (\<forall>g. hits s g \<le> hits (s\<lparr>bf_filter := fs\<rparr>) g)"
proof -
  let ?cur = "current_filter s"
  have c: "0 \<le> ?cur" "?cur < FILTER_NUMBER" using assms by (simp_all add: bf_ok_def)
  note a = filter_access [OF assms c]
  have count: ?thesis if "record_access s hs = insert_at s j h" "0 \<le> j" "j < FILTER_NUMBER" "map fold_hash h = map fold_hash hs"
    "\<not> holds (bf_filter s ! nat j) hs" for j h
  proof -
    from insert_at_counts [OF assms that(2-5)] obtain fs where fs: "insert_at s j h = Some (s\<lparr>bf_filter := fs\<rparr>)" "bf_ok (s\<lparr>bf_filter := fs\<rparr>)"
      "hits (s\<lparr>bf_filter := fs\<rparr>) hs = hits s hs + 1" "\<forall>g. hits s g \<le> hits (s\<lparr>bf_filter := fs\<rparr>) g" by blast
    then show ?thesis using that(1) hits_le [OF fs(2), of hs] by auto
  qed
  from in_dict_ok [OF a(2), of hs] obtain h1 where h1: "in_dict (bf_filter s ! nat ?cur) hs = Some (holds (bf_filter s ! nat ?cur) hs, h1)"
    "map fold_hash h1 = map fold_hash hs" by blast
  show ?thesis
  proof (cases "holds (bf_filter s ! nat ?cur) hs")
    case False
    then show ?thesis using count [OF _ c h1(2)] a(1) h1(1) by (simp add: record_access_def)
  next
    case True
    from next_miss_ok [OF assms _ _ c h1(2), of 0] obtain i j h where m: "next_miss (bf_filter s) ?cur 0 h1 = Some (i, j, h)"
      "map fold_hash h = map fold_hash hs"
      "if i < FILTER_NUMBER then 0 \<le> j \<and> j < FILTER_NUMBER \<and> \<not> holds (bf_filter s ! nat j) hs
       else \<forall>k. 0 < k \<and> k < FILTER_NUMBER \<longrightarrow> holds (bf_filter s ! nat ((?cur + k) mod FILTER_NUMBER)) hs" by auto
    have r: "record_access s hs = (if i < FILTER_NUMBER then insert_at s j h else Some s)"
      using a(1) h1(1) True m(1) by (simp add: record_access_def)
    show ?thesis
    proof (cases "i < FILTER_NUMBER")
      case True
      then show ?thesis using count [of j h] r m(2,3) by simp
    next
      case False
      have "holds (bf_filter s ! nat ((?cur + k) mod FILTER_NUMBER)) hs" if "0 \<le> k" "k < FILTER_NUMBER" for k
        using that False m(3) \<open>holds (bf_filter s ! nat ?cur) hs\<close> c by (cases "k = 0") auto
      then have "hits s hs = 4" by (rule hits_full [OF assms])
      then show ?thesis using r False assms by (intro exI [of _ "bf_filter s"]) simp
    qed
  qed
qed

subsection \<open>Weights\<close>

definition hot_weight :: "bf_state \<Rightarrow> 32 word list \<Rightarrow> rat" where
  "hot_weight s hs = (\<Sum>i<4. if holds (bf_filter s ! i) hs then filter_weight s ! i else 0)"

lemma hot_step_ok:
  assumes "bf_ok s" "0 \<le> i" "i < FILTER_NUMBER" "map fold_hash h = map fold_hash hs"
  obtains h' where "hot_step s i (sw, h) = Some (sw + (if holds (bf_filter s ! nat i) hs then filter_weight s ! nat i else 0), h')"
    "map fold_hash h' = map fold_hash hs"
proof -
  note a = filter_access [OF assms(1-3)]
  from in_dict_ok [OF a(2), of h] obtain h' where h': "in_dict (bf_filter s ! nat i) h = Some (holds (bf_filter s ! nat i) hs, h')"
    "map fold_hash h' = map fold_hash hs" using holds_cong [OF assms(4)] assms(4) by auto
  have w: "cread (filter_weight s) i = Some (filter_weight s ! nat i)"
    using assms by (simp add: bf_ok_def cread_def)
  show ?thesis by (rule that [OF _ h'(2)]) (use a(1) h'(1) w in \<open>simp add: hot_step_def\<close>)
qed

lemma cupto_4: "cupto 4 = [0, 1, 2, 3]"
  by (simp add: cupto_def upt_rec)

lemma check_hot_ok:
  assumes "bf_ok s"
  shows "\<exists>h. check_hot s hs = Some (hot_weight s hs, h)"
proof -
  let ?w = "\<lambda>i. if holds (bf_filter s ! i) hs then filter_weight s ! i else 0"
  obtain h0 where h0: "hot_step s 0 (0, hs) = Some (0 + ?w (nat 0), h0)" "map fold_hash h0 = map fold_hash hs"
    by (rule hot_step_ok [OF assms, of 0 hs hs 0]) simp_all
  obtain h1 where h1: "hot_step s 1 (0 + ?w (nat 0), h0) = Some (0 + ?w (nat 0) + ?w (nat 1), h1)" "map fold_hash h1 = map fold_hash hs"
    by (rule hot_step_ok [OF assms _ _ h0(2), of 1 "0 + ?w (nat 0)"]) simp_all
  obtain h2 where h2: "hot_step s 2 (0 + ?w (nat 0) + ?w (nat 1), h1) = Some (0 + ?w (nat 0) + ?w (nat 1) + ?w (nat 2), h2)"
    "map fold_hash h2 = map fold_hash hs"
    by (rule hot_step_ok [OF assms _ _ h1(2), of 2 "0 + ?w (nat 0) + ?w (nat 1)"]) simp_all
  obtain h3 where h3: "hot_step s 3 (0 + ?w (nat 0) + ?w (nat 1) + ?w (nat 2), h2) =
      Some (0 + ?w (nat 0) + ?w (nat 1) + ?w (nat 2) + ?w (nat 3), h3)"
    by (rule hot_step_ok [OF assms _ _ h2(2), of 3 "0 + ?w (nat 0) + ?w (nat 1) + ?w (nat 2)"]) simp_all
  have "hot_weight s hs = 0 + ?w (nat 0) + ?w (nat 1) + ?w (nat 2) + ?w (nat 3)"
    by (simp add: hot_weight_def eval_nat_numeral)
  then show ?thesis using h0(1) h1(1) h2(1) h3(1) by (simp only: check_hot_def cupto_4 foldM.simps bind.bind_lunit)  simp
qed

text \<open>A decay clears one filter and gives the current one weight 2, the one before it 3/2, then 1 and 1/2.\<close>

definition weights_dealt :: "int \<Rightarrow> rat list \<Rightarrow> bool" where
  "weights_dealt cur ws \<longleftrightarrow> length ws = 4 \<and> (\<forall>j. 0 \<le> j \<and> j < FILTER_NUMBER \<longrightarrow> ws ! nat ((cur - j) mod FILTER_NUMBER) = 2 - of_int j / 2)"

lemma weights_dealtI:
  assumes "length ws = 4" "ws ! nat (cur mod 4) = 2" "ws ! nat ((cur - 1) mod 4) = 3 / 2" "ws ! nat ((cur - 2) mod 4) = 1" "ws ! nat ((cur - 3) mod 4) = 1 / 2"
  shows "weights_dealt cur ws"
  unfolding weights_dealt_def
proof (intro conjI allI impI)
  fix j :: int assume "0 \<le> j \<and> j < FILTER_NUMBER"
  then consider "j = 0" | "j = 1" | "j = 2" | "j = 3" by linarith
  then show "ws ! nat ((cur - j) mod FILTER_NUMBER) = 2 - of_int j / 2" using assms by cases simp_all
qed (rule assms(1))

lemma set_weights_ok:
  assumes "0 \<le> cur" "cur < FILTER_NUMBER" "length ws = nat FILTER_NUMBER"
  shows "\<exists>ws'. set_weights cur ws = Some ws' \<and> weights_dealt cur ws'"
proof -
  obtain a b c d where ws: "ws = [a, b, c, d]"
    using assms(3) by (auto simp: length_Suc_conv eval_nat_numeral)
  consider "cur = 0" | "cur = 1" | "cur = 2" | "cur = 3" using assms(1,2) by linarith
  then show ?thesis
    by cases (auto simp: set_weights_def cupto_4 ws cwrite_def smod_nonneg eval_nat_numeral intro!: weights_dealtI)
qed

lemma decay_ok:
  assumes "bf_ok s"
  shows "\<exists>s'. decay s = Some s' \<and> bf_ok s' \<and> current_filter s' = current_filter s \<and> data_buffer_counter s' = data_buffer_counter s \<and>
    weights_dealt (current_filter s) (filter_weight s') \<and> (\<forall>g. hits s g \<le> hits s' g + 1)"
proof -
  define d where "d = (if current_decay_filter s = - 1 then 0 else current_decay_filter s)"
  have d: "0 \<le> d" "d < FILTER_NUMBER" using assms by (auto simp: d_def bf_ok_def)
  note a = filter_access [OF assms d]
  from set_weights_ok [of "current_filter s" "filter_weight s"] assms obtain ws where
    ws: "set_weights (current_filter s) (filter_weight s) = Some ws" "weights_dealt (current_filter s) ws" by (auto simp: bf_ok_def)
  define s' where "s' = s\<lparr>bf_filter := (bf_filter s)[nat d := replicate FILTER_SIZE_BYTES 0], filter_weight := ws,
    current_decay_filter := (FILTER_NUMBER + d + 1) smod FILTER_NUMBER\<rparr>"
  have j: "nat d < length (bf_filter s)" using assms d by (auto simp: bf_ok_def)
  have "decay s = Some s'" using a ws(1) by (simp add: decay_def d_def [symmetric] s'_def Let_def)
  moreover have "bf_ok s'"
  proof -
    have "(FILTER_NUMBER + d + 1) smod FILTER_NUMBER = (FILTER_NUMBER + d + 1) mod FILTER_NUMBER" using d by (simp add: smod_nonneg)
    moreover have "0 \<le> (FILTER_NUMBER + d + 1) mod FILTER_NUMBER" "(FILTER_NUMBER + d + 1) mod FILTER_NUMBER < FILTER_NUMBER" by simp_all
    ultimately show ?thesis using assms ws(2)
      by (auto simp: bf_ok_def s'_def weights_dealt_def dest!: subsetD [OF set_update_subset_insert])
  qed
  moreover have "hits s g \<le> hits s' g + 1" for g
    using length_filter_update [OF j, of "\<lambda>f. holds f g" "replicate FILTER_SIZE_BYTES 0"] by (simp add: hits_def s'_def of_bool_def split: if_splits)
  ultimately show ?thesis using ws(2) by (intro exI [of _ s']) (simp add: s'_def)
qed

definition next_filter_of :: "int \<Rightarrow> int" where
  "next_filter_of cur = (if FILTER_NUMBER - 1 < cur + 1 then 0 else cur + 1)"

text \<open>A call is a classification, a decay when the counter asks for it, and the record of the access.\<close>

lemma Bloom_filter_ok:
  assumes "bf_ok s" "(if data_buffer_counter s mod DACAY = 1 then decay s else Some s) = Some s1" "bf_ok s1"
  shows "\<exists>fs. Bloom_filter s ino off = Some (if 3 \<le> hot_weight s (word_of ino off) then HOT else COLD,
      s1\<lparr>bf_filter := fs, current_filter := next_filter_of (current_filter s1)\<rparr>) \<and>
    bf_ok (s1\<lparr>bf_filter := fs, current_filter := next_filter_of (current_filter s1)\<rparr>) \<and>
    hits (s1\<lparr>bf_filter := fs\<rparr>) (word_of ino off) = min 4 (hits s1 (word_of ino off) + 1) \<and>
    (\<forall>g. hits s1 g \<le> hits (s1\<lparr>bf_filter := fs\<rparr>) g)"
proof -
  from check_hot_ok [OF assms(1), of "word_of ino off"] obtain h where h: "check_hot s (word_of ino off) = Some (hot_weight s (word_of ino off), h)" by blast
  from record_access_ok [OF assms(3), of "word_of ino off"] obtain fs where fs: "record_access s1 (word_of ino off) = Some (s1\<lparr>bf_filter := fs\<rparr>)"
    "bf_ok (s1\<lparr>bf_filter := fs\<rparr>)" "hits (s1\<lparr>bf_filter := fs\<rparr>) (word_of ino off) = min 4 (hits s1 (word_of ino off) + 1)"
    "\<forall>g. hits s1 g \<le> hits (s1\<lparr>bf_filter := fs\<rparr>) g" by blast
  have "Bloom_filter s ino off = Some (if 3 \<le> hot_weight s (word_of ino off) then HOT else COLD,
      s1\<lparr>bf_filter := fs, current_filter := next_filter_of (current_filter s1)\<rparr>)"
    using h fs(1) by (simp add: Bloom_filter_def word_of_def [symmetric] assms(2) next_filter_of_def Let_def)
  moreover have "bf_ok (s1\<lparr>bf_filter := fs, current_filter := next_filter_of (current_filter s1)\<rparr>)"
    using fs(2) by (auto simp: bf_ok_def next_filter_of_def)
  ultimately show ?thesis using fs(3,4) by blast
qed

lemma hits_current [simp]: "hits (s\<lparr>current_filter := c\<rparr>) g = hits s g"
  by (simp add: hits_def)

lemma init_filters_ok: "bf_ok init_filters"
  by (simp add: bf_ok_def init_filters_def)

text \<open>A sequence of calls with the temperatures they return.\<close>

fun bloom_run :: "bf_state \<Rightarrow> (int \<times> int) list \<Rightarrow> (int list \<times> bf_state) option" where
  "bloom_run s [] = Some ([], s)"
| "bloom_run s ((ino, off) # xs) = do { (t, s1) \<leftarrow> Bloom_filter s ino off; (ts, s2) \<leftarrow> bloom_run s1 xs; Some (t # ts, s2) }"

lemma hot_weight_zero: "length (filter_weight s) = 4 \<Longrightarrow> set (filter_weight s) \<subseteq> {0} \<Longrightarrow> hot_weight s g = 0"
  unfolding hot_weight_def by (rule sum.neutral) (auto simp: subset_iff)

lemma bloom_run_cold:
  assumes "bf_ok s" "data_buffer_counter s mod DACAY \<noteq> 1" "set (filter_weight s) \<subseteq> {0}"
  shows "\<exists>s'. bloom_run s xs = Some (replicate (length xs) COLD, s') \<and> bf_ok s'"
  using assms
proof (induction xs arbitrary: s)
  case (Cons x xs)
  obtain ino off where x: "x = (ino, off)" by (cases x)
  from Bloom_filter_ok [OF Cons.prems(1) _ Cons.prems(1), of ino off] Cons.prems(2) obtain fs where
    b: "Bloom_filter s ino off = Some (if 3 \<le> hot_weight s (word_of ino off) then HOT else COLD,
      s\<lparr>bf_filter := fs, current_filter := next_filter_of (current_filter s)\<rparr>)"
    "bf_ok (s\<lparr>bf_filter := fs, current_filter := next_filter_of (current_filter s)\<rparr>)" by auto
  have "hot_weight s (word_of ino off) = 0" using hot_weight_zero Cons.prems(1,3) by (simp add: bf_ok_def)
  then show ?case using Cons.IH [OF b(2)] Cons.prems(2,3) b(1) x by auto
qed simp

lemma hot_weight_dealt:
  assumes "bf_ok s" "weights_dealt cur (filter_weight s)"
  shows "hits s g = 4 \<Longrightarrow> hot_weight s g = 5" "hits s g \<le> 1 \<Longrightarrow> hot_weight s g \<le> 2"
proof -
  obtain a b c d where fs: "bf_filter s = [a, b, c, d]"
    using assms(1) by (auto simp: bf_ok_def length_Suc_conv eval_nat_numeral)
  obtain p q r t where ws: "filter_weight s = [p, q, r, t]"
    using assms(2) by (auto simp: weights_dealt_def length_Suc_conv eval_nat_numeral)
  have "filter_weight s ! nat ((cur - j) mod 4) = 2 - of_int j / 2" if "0 \<le> j" "j < 4" for j
    using assms(2) that by (simp add: weights_dealt_def)
  from this [of 0] this [of 1] this [of 2] this [of 3] have w: "[p, q, r, t] ! nat (cur mod 4) = 2"
    "[p, q, r, t] ! nat ((cur - 1) mod 4) = 3 / 2" "[p, q, r, t] ! nat ((cur - 2) mod 4) = 1" "[p, q, r, t] ! nat ((cur - 3) mod 4) = 1 / 2"
    by (simp_all add: ws)
  have "0 \<le> cur mod 4" "cur mod 4 < 4" by simp_all
  then consider "cur mod 4 = 0" | "cur mod 4 = 1" | "cur mod 4 = 2" | "cur mod 4 = 3" by linarith
  then have s: "p + q + r + t = 5 \<and> {p, q, r, t} \<subseteq> {1 / 2, 1, 3 / 2, 2}"
    by cases (use w in \<open>simp_all add: mod_diff_left_eq [symmetric, of cur] eval_nat_numeral\<close>)
  show "hits s g = 4 \<Longrightarrow> hot_weight s g = 5" "hits s g \<le> 1 \<Longrightarrow> hot_weight s g \<le> 2"
    using s by (auto simp: hits_def hot_weight_def fs ws eval_nat_numeral split: if_splits)
qed

end
