(* ===== verification/NvmeState.thy ===== *)
theory NvmeState
  imports SsdFront
begin

unbundle bit_operations_syntax

section \<open>State of the NVMe controller\<close>

text \<open>
  The structs of \<open>src/hw/block/nvme.h\<close> that the I/O path of \<open>nvme.c\<close> uses, and the accesses to the memory of
  the guest. A submission command is the list of its sixteen 32-bit words; the guest is little-endian.
  Guest memory, the controller memory buffer and the heap storage that holds the data of the disk are
  functions from offsets to bytes. The guest does not write memory while the controller runs one
  of its functions. A request is a value: it carries the number of its submission queue and its index
  in the array \<open>io_req\<close> of that queue, which identify it. A timer is the time at
  which it is due, or \<open>None\<close> when it is not armed. Interrupts and the mutex of QEMU are not part of the state;
  \<open>qemu_clock_get_ns\<close> reads the clock of the device.
\<close>

subsection \<open>Constants\<close>

definition u8 :: "int \<Rightarrow> int" where
  "u8 x = x mod 2 ^ 8"

definition u16 :: "int \<Rightarrow> int" where
  "u16 x = x mod 2 ^ 16"

abbreviation (input) NVME_SUCCESS :: int where "NVME_SUCCESS \<equiv> 0"
abbreviation (input) NVME_INVALID_OPCODE :: int where "NVME_INVALID_OPCODE \<equiv> 0x0001"
abbreviation (input) NVME_INVALID_FIELD :: int where "NVME_INVALID_FIELD \<equiv> 0x0002"
abbreviation (input) NVME_INTERNAL_DEV_ERROR :: int where "NVME_INTERNAL_DEV_ERROR \<equiv> 0x0006"
abbreviation (input) NVME_INVALID_NSID :: int where "NVME_INVALID_NSID \<equiv> 0x000b"
abbreviation (input) NVME_LBA_RANGE :: int where "NVME_LBA_RANGE \<equiv> 0x0080"
abbreviation (input) NVME_INVALID_CQID :: int where "NVME_INVALID_CQID \<equiv> 0x0100"
abbreviation (input) NVME_INVALID_QID :: int where "NVME_INVALID_QID \<equiv> 0x0101"
abbreviation (input) NVME_MAX_QSIZE_EXCEEDED :: int where "NVME_MAX_QSIZE_EXCEEDED \<equiv> 0x0102"
abbreviation (input) NVME_AER_LIMIT_EXCEEDED :: int where "NVME_AER_LIMIT_EXCEEDED \<equiv> 0x0105"
abbreviation (input) NVME_INVALID_IRQ_VECTOR :: int where "NVME_INVALID_IRQ_VECTOR \<equiv> 0x0108"
abbreviation (input) NVME_INVALID_QUEUE_DEL :: int where "NVME_INVALID_QUEUE_DEL \<equiv> 0x010c"
abbreviation (input) NVME_UNRECOVERED_READ :: int where "NVME_UNRECOVERED_READ \<equiv> 0x0281"
abbreviation (input) NVME_CMP_FAILURE :: int where "NVME_CMP_FAILURE \<equiv> 0x0285"
abbreviation (input) NVME_DNR :: int where "NVME_DNR \<equiv> 0x4000"
abbreviation (input) NVME_NO_COMPLETE :: int where "NVME_NO_COMPLETE \<equiv> 0xffff"

abbreviation (input) NVME_CMD_FLUSH :: int where "NVME_CMD_FLUSH \<equiv> 0x00"
abbreviation (input) NVME_CMD_WRITE :: int where "NVME_CMD_WRITE \<equiv> 0x01"
abbreviation (input) NVME_CMD_READ :: int where "NVME_CMD_READ \<equiv> 0x02"
abbreviation (input) NVME_CMD_WRITE_UNCOR :: int where "NVME_CMD_WRITE_UNCOR \<equiv> 0x04"
abbreviation (input) NVME_CMD_COMPARE :: int where "NVME_CMD_COMPARE \<equiv> 0x05"
abbreviation (input) NVME_CMD_WRITE_ZEROS :: int where "NVME_CMD_WRITE_ZEROS \<equiv> 0x08"
abbreviation (input) NVME_CMD_DSM :: int where "NVME_CMD_DSM \<equiv> 0x09"
abbreviation (input) NVME_OP_ABORTED :: int where "NVME_OP_ABORTED \<equiv> 0xff"

abbreviation (input) FEMU_WHITEBOX_MODE :: int where "FEMU_WHITEBOX_MODE \<equiv> 0"
abbreviation (input) FEMU_BLACKBOX_MODE :: int where "FEMU_BLACKBOX_MODE \<equiv> 1"
abbreviation (input) BDRV_SECTOR_BITS :: nat where "BDRV_SECTOR_BITS \<equiv> 9"

subsection \<open>Requests and queues\<close>

record NvmeRequest =
  rq_sq :: int
  rq_idx :: nat
  rq_cid :: int
  rq_opcode :: int
  rq_status :: int
  rq_slba :: int
  rq_nlb :: int
  rq_is_write :: bool
  rq_data_offset :: int
  rq_expire_time :: int
  rq_qsg :: "(int \<times> int) list"
  rq_qsg_size :: int
  rq_aiocb :: bool
  rq_result :: int

record NvmeSQueue =
  sq_sqid :: int
  sq_cqid :: int
  sq_head :: int
  sq_tail :: int
  sq_size :: int
  sq_contig :: bool
  sq_dma_addr :: int
  sq_prp_list :: "int list"
  sq_arb_burst :: int
  sq_completed :: int
  sq_req_list :: "NvmeRequest list"
  sq_out_req_list :: "NvmeRequest list"
  sq_db_addr :: int
  sq_timer :: "int option"

record NvmeCQueue =
  cq_cqid :: int
  cq_head :: int
  cq_tail :: int
  cq_size :: int
  cq_phase :: int
  cq_contig :: bool
  cq_irq_enabled :: int
  cq_vector :: int
  cq_dma_addr :: int
  cq_prp_list :: "int list"
  cq_sq_list :: "int list"
  cq_req_list :: "NvmeRequest list"
  cq_db_addr :: int
  cq_timer :: "int option"

record NvmeCqe =
  cqe_result :: int
  cqe_sq_head :: int
  cqe_sq_id :: int
  cqe_cid :: int
  cqe_status :: int

record NvmeErrorLog =
  el_error_count :: int
  el_sqid :: int
  el_cid :: int
  el_status_field :: int
  el_location :: int
  el_lba :: int
  el_nsid :: int

text \<open>
  A namespace with the fields of its \<open>id_ns\<close>: \<open>ncap\<close> and \<open>nuse\<close> always equal \<open>nsze\<close>. An LBA format is the pair of
  its metadata size and the exponent of its block size. Of \<open>lba_range\<close> only the first entry is accessed; it is kept as bytes.
\<close>

record NvmeNamespace =
  ns_id :: int
  ns_nsze :: int
  ns_nlbaf :: int
  ns_flbas :: int
  ns_mc :: int
  ns_dpc :: int
  ns_dps :: int
  ns_lbaf :: "(int \<times> nat) list"
  ns_vs :: int
  ns_lba_range :: "int list"
  ns_start_block :: int
  ns_util :: "bool list"
  ns_uncorrectable :: "bool list"

text \<open>The block size at the current format index \<open>NVME_ID_NS_FLBAS_INDEX\<close>; there are 16 formats.\<close>

definition ns_ds :: "NvmeNamespace \<Rightarrow> nat" where
  "ns_ds ns = snd (ns_lbaf ns ! nat (ns_flbas ns mod 2 ^ 4))"

record NvmeFeatureVal =
  ft_arbitration :: int
  ft_power_mgmt :: int
  ft_temp_thresh :: int
  ft_err_rec :: int
  ft_volatile_wc :: int
  ft_int_coalescing :: int
  ft_int_vector_config :: "int list"
  ft_write_atomicity :: int
  ft_async_config :: int
  ft_sw_prog_marker :: int

text \<open>
  \<open>n_notified\<close> lists the completion queues for which \<open>nvme_isr_notify\<close> found interrupts enabled, the latest
  one first; how the interrupt reaches the guest is left to QEMU. An asynchronous event is the triple of
  its type, information and log page.
\<close>

record NvmeCtrl =
  n_ssd :: ssdstate
  n_mem :: "int \<Rightarrow> int"
  n_heap :: "int \<Rightarrow> int"
  n_heap_size :: int
  n_cmbsz :: int
  n_cmb_addr :: int
  n_cmb_size :: int
  n_cmbuf :: "int \<Rightarrow> int"
  n_page_size :: int
  n_page_bits :: nat
  n_max_prp_ents :: int
  n_cqe_size :: int
  n_sqe_size :: int
  n_num_io_queues :: int
  n_num_namespaces :: int
  n_db_stride :: nat
  n_mdts :: nat
  n_oncs :: int
  n_vwc :: int
  n_features :: NvmeFeatureVal
  n_temperature :: int
  n_temp_warn_issued :: int
  n_start_time :: int
  n_oacs :: int
  n_id_ctrl :: "int list"
  n_mqes :: int
  n_cqr :: int
  n_dbs_addr :: int
  n_eis_addr :: int
  n_femu_mode :: int
  n_meta_buf :: "int list"
  n_namespaces :: "NvmeNamespace list"
  n_sq :: "NvmeSQueue option list"
  n_cq :: "NvmeCQueue option list"
  n_notified :: "int list"
  n_elpes :: "NvmeErrorLog list"
  n_elp_index :: int
  n_elpe :: int
  n_error_count :: int
  n_num_errors :: int
  n_aerl :: int
  n_outstanding_aers :: int
  n_aer_reqs :: "NvmeRequest option list"
  n_aer_queue :: "(int \<times> int \<times> int) list"
  n_aer_mask :: int
  n_aer_timer :: "int option"
  n_csts :: int
  n_cc :: int
  n_aqa :: int
  n_asq :: int
  n_acq :: int
  n_intms :: int
  n_intmc :: int
  n_vs :: int
  n_cmbloc :: int
  n_mpsmin :: int
  n_mpsmax :: int
  n_max_sqes :: int
  n_max_cqes :: int
  n_ns_size :: int
  n_meta :: int

definition get_ns :: "NvmeCtrl \<Rightarrow> int \<times> NvmeCtrl" where
  "get_ns n = (let (t, s) = read_clock REALTIME_NS (n_ssd n) in (t, n\<lparr>n_ssd := s\<rparr>))"

subsection \<open>Fields of a command\<close>

type_synonym NvmeCmd = "int list"

definition dw :: "NvmeCmd \<Rightarrow> nat \<Rightarrow> int" where
  "dw cmd i = (if i < length cmd then cmd ! i else 0)"

definition qw :: "NvmeCmd \<Rightarrow> nat \<Rightarrow> int" where
  "qw cmd i = dw cmd i + dw cmd (i + 1) * 2 ^ 32"

definition lo16 :: "int \<Rightarrow> int" where
  "lo16 x = x mod 2 ^ 16"

definition hi16 :: "int \<Rightarrow> int" where
  "hi16 x = x div 2 ^ 16"

definition cmd_opcode :: "NvmeCmd \<Rightarrow> int" where "cmd_opcode cmd = dw cmd 0 mod 2 ^ 8"
definition cmd_cid :: "NvmeCmd \<Rightarrow> int" where "cmd_cid cmd = hi16 (dw cmd 0)"
definition cmd_nsid :: "NvmeCmd \<Rightarrow> int" where "cmd_nsid cmd = dw cmd 1"
definition cmd_mptr :: "NvmeCmd \<Rightarrow> int" where "cmd_mptr cmd = qw cmd 4"
definition cmd_prp1 :: "NvmeCmd \<Rightarrow> int" where "cmd_prp1 cmd = qw cmd 6"
definition cmd_prp2 :: "NvmeCmd \<Rightarrow> int" where "cmd_prp2 cmd = qw cmd 8"
definition rw_slba :: "NvmeCmd \<Rightarrow> int" where "rw_slba cmd = qw cmd 10"
definition rw_nlb :: "NvmeCmd \<Rightarrow> int" where "rw_nlb cmd = lo16 (dw cmd 12)"
definition rw_control :: "NvmeCmd \<Rightarrow> int" where "rw_control cmd = hi16 (dw cmd 12)"

text \<open>\<open>NvmeRemap\<close> has its page numbers at bytes 8 and 16 and the length and operation at bytes 24 and 28.\<close>

definition remap_src :: "NvmeCmd \<Rightarrow> int" where "remap_src cmd = qw cmd 2"
definition remap_dst :: "NvmeCmd \<Rightarrow> int" where "remap_dst cmd = qw cmd 4"
definition remap_len :: "NvmeCmd \<Rightarrow> int" where "remap_len cmd = dw cmd 6"
definition remap_ope :: "NvmeCmd \<Rightarrow> int" where "remap_ope cmd = dw cmd 7"

subsection \<open>Memory\<close>

definition bytes_at :: "(int \<Rightarrow> int) \<Rightarrow> int \<Rightarrow> int \<Rightarrow> int list" where
  "bytes_at mem addr len = map (\<lambda>i. mem (addr + i)) (cupto len)"

text \<open>Bytes to integers, the least significant byte first and last.\<close>

fun le_int :: "int list \<Rightarrow> int" where
  "le_int [] = 0"
| "le_int (b # bs) = b + 2 ^ 8 * le_int bs"

definition be_int :: "int list \<Rightarrow> int" where
  "be_int bs = le_int (rev bs)"

definition in_cmb :: "NvmeCtrl \<Rightarrow> int \<Rightarrow> bool" where
  "in_cmb n addr \<longleftrightarrow> n_cmbsz n \<noteq> 0 \<and> n_cmb_addr n \<le> addr \<and> addr < n_cmb_addr n + n_cmb_size n"

definition nvme_addr_read :: "NvmeCtrl \<Rightarrow> int \<Rightarrow> int \<Rightarrow> int list option" where
  "nvme_addr_read n addr len =
     (if in_cmb n addr then
        (if addr - n_cmb_addr n + len \<le> n_cmb_size n then Some (bytes_at (n_cmbuf n) (addr - n_cmb_addr n) len) else None)
      else Some (bytes_at (n_mem n) addr len))"

definition store :: "(int \<Rightarrow> int) \<Rightarrow> int \<Rightarrow> int list \<Rightarrow> int \<Rightarrow> int" where
  "store mem addr bs = (\<lambda>a. if addr \<le> a \<and> a < addr + int (length bs) then bs ! nat (a - addr) else mem a)"

definition nvme_addr_write :: "NvmeCtrl \<Rightarrow> int \<Rightarrow> int list \<Rightarrow> NvmeCtrl option" where
  "nvme_addr_write n addr bs =
     (if in_cmb n addr then
        (if addr - n_cmb_addr n + int (length bs) \<le> n_cmb_size n
         then Some (n\<lparr>n_cmbuf := store (n_cmbuf n) (addr - n_cmb_addr n) bs\<rparr>) else None)
      else Some (n\<lparr>n_mem := store (n_mem n) addr bs\<rparr>))"

subsection \<open>The error log\<close>

text \<open>\<open>error_count\<close> and \<open>num_errors\<close> are \<open>uint8_t\<close>. The other bytes of an entry stay zero.\<close>

definition nvme_set_error_page :: "NvmeCtrl \<Rightarrow> int \<Rightarrow> int \<Rightarrow> int \<Rightarrow> int \<Rightarrow> int \<Rightarrow> int \<Rightarrow> NvmeCtrl option" where
  "nvme_set_error_page n sqid cid status location lba nsid =
     do {
       t \<leftarrow> cwrite (n_elpes n) (n_elp_index n) \<lparr>el_error_count = n_error_count n, el_sqid = sqid, el_cid = cid,
              el_status_field = status, el_location = location, el_lba = lba, el_nsid = nsid\<rparr>;
       (if n_elpe n = 0 then None
        else Some (n\<lparr>n_elpes := t, n_error_count := u8 (n_error_count n + 1),
          n_elp_index := u8 ((n_elp_index n + 1) smod n_elpe n), n_num_errors := u8 (n_num_errors n + 1)\<rparr>))
     }"

section \<open>Lemmas\<close>

text \<open>Sixteen words of 32 bits.\<close>

definition cmd_wf :: "NvmeCmd \<Rightarrow> bool" where
  "cmd_wf cmd \<longleftrightarrow> length cmd = 16 \<and> (\<forall>x \<in> set cmd. 0 \<le> x \<and> x < 2 ^ 32)"

lemma dw_range: "cmd_wf cmd \<Longrightarrow> 0 \<le> dw cmd i \<and> dw cmd i < 2 ^ 32"
  by (auto simp: cmd_wf_def dw_def)

end
