(* ===== verification/NvmePrp.thy ===== *)
theory NvmePrp
  imports NvmeState
begin

section \<open>Scatter lists and the data path\<close>

text \<open>
  \<open>nvme_map_prp\<close> turns the two PRP entries of a command into a list of segments of guest memory, and
  \<open>nvme_heap_storage_rw\<close> copies between these segments and the heap storage. A segment is an address and a
  length. Queues that are not contiguous are addressed through a list of pages
  (\<open>nvme_setup_discontig\<close>, \<open>nvme_discontig\<close>).
\<close>

subsection \<open>Segments of a transfer\<close>

definition prp_bad :: "NvmeCtrl \<Rightarrow> int \<Rightarrow> bool" where
  "prp_bad n ent \<longleftrightarrow> ent = 0 \<or> ent AND (n_page_size n - 1) \<noteq> 0"

text \<open>The PRP entries that one call of \<open>nvme_addr_read\<close> fetches for the \<open>len\<close> bytes that are left.\<close>

definition read_prps :: "NvmeCtrl \<Rightarrow> int \<Rightarrow> int \<Rightarrow> int list option" where
  "read_prps n addr len =
     do {
       let nents = u32 (len + n_page_size n - 1) div 2 ^ n_page_bits n;
       let cnt = min (n_max_prp_ents n) nents;
       bs \<leftarrow> nvme_addr_read n addr (cnt * 8);
       Some (map (\<lambda>k. le_int (take 8 (drop (nat (k * 8)) bs))) (cupto cnt))
     }"

definition seg_of :: "NvmeCtrl \<Rightarrow> bool \<Rightarrow> int \<Rightarrow> int \<Rightarrow> int \<times> int" where
  "seg_of n cmb addr len = (if cmb then addr - n_cmb_addr n else addr, len)"

text \<open>
  The entry for the next page of data: the last entry of a full page of entries is the address of the
  next page of entries when more than one page of data is left. \<open>Inl\<close> is the jump to \<open>unmap\<close>.
\<close>

definition prp_next :: "NvmeCtrl \<Rightarrow> int list \<Rightarrow> int \<Rightarrow> int \<Rightarrow> (unit + int list \<times> int \<times> int) option" where
  "prp_next n prps i len =
     do {
       ent \<leftarrow> cread prps i;
       (if i = n_max_prp_ents n - 1 \<and> n_page_size n < len then
          if prp_bad n ent then Some (Inl ())
          else do {
            prps1 \<leftarrow> read_prps n ent len;
            ent1 \<leftarrow> cread prps1 0;
            (if prp_bad n ent1 then Some (Inl ()) else Some (Inr (prps1, 0, ent1)))
          }
        else if prp_bad n ent then Some (Inl ())
        else Some (Inr (prps, i, ent)))
     }"

function prp_loop :: "NvmeCtrl \<Rightarrow> bool \<Rightarrow> int list \<Rightarrow> int \<Rightarrow> int \<Rightarrow> (unit + (int \<times> int) list) option" where
  "prp_loop n cmb prps i len =
     (if n_page_size n \<le> 0 \<or> len < 0 then None
      else if len = 0 then Some (Inr [])
      else case prp_next n prps i len of
        None \<Rightarrow> None
      | Some (Inl u) \<Rightarrow> Some (Inl ())
      | Some (Inr (prps1, i1, ent)) \<Rightarrow>
          (let trans_len = min len (n_page_size n)
           in case prp_loop n cmb prps1 (i1 + 1) (len - trans_len) of
                None \<Rightarrow> None
              | Some (Inl u) \<Rightarrow> Some (Inl ())
              | Some (Inr segs) \<Rightarrow> Some (Inr (seg_of n cmb ent trans_len # segs))))"
  by pat_completeness auto
termination by (relation "measure (\<lambda>(n, cmb, prps, i, len). nat len)") (auto split: sum.splits)

declare prp_loop.simps [simp del]

definition INVALID_FIELD :: int where
  "INVALID_FIELD = NVME_INVALID_FIELD OR NVME_DNR"

text \<open>
  In the controller memory buffer the second of two entries gets the length of the first one
  (\<open>trans_len\<close> instead of \<open>len\<close>).
\<close>

definition nvme_map_prp :: "NvmeCtrl \<Rightarrow> int \<Rightarrow> int \<Rightarrow> int \<Rightarrow> (int + bool \<times> (int \<times> int) list) option" where
  "nvme_map_prp n prp1 prp2 len0 =
     (if n_page_size n = 0 then None
      else
        let len = u32 len0; trans_len = min len (n_page_size n - prp1 mod n_page_size n); cmb = in_cmb n prp1;
            seg1 = seg_of n cmb prp1 trans_len; left = len - trans_len
        in if prp1 = 0 then Some (Inl INVALID_FIELD)
           else if left = 0 then Some (Inr (cmb, [seg1]))
           else if prp2 = 0 then Some (Inl INVALID_FIELD)
           else if n_page_size n < left then do {
             prps \<leftarrow> read_prps n prp2 left;
             r \<leftarrow> prp_loop n cmb prps 0 left;
             (case r of Inl u \<Rightarrow> Some (Inl INVALID_FIELD) | Inr segs \<Rightarrow> Some (Inr (cmb, seg1 # segs)))
           }
           else if prp2 AND (n_page_size n - 1) \<noteq> 0 then Some (Inl INVALID_FIELD)
           else Some (Inr (cmb, [seg1, seg_of n cmb prp2 (if cmb then trans_len else left)])))"

text \<open>The bytes of a list of segments, one after the other.\<close>

definition gather :: "(int \<Rightarrow> int) \<Rightarrow> (int \<times> int) list \<Rightarrow> int list" where
  "gather mem segs = concat (map (\<lambda>(addr, len). bytes_at mem addr len) segs)"

definition seg_bytes :: "(int \<times> int) list \<Rightarrow> int" where
  "seg_bytes segs = sum_list (map snd segs)"

fun scatter :: "(int \<Rightarrow> int) \<Rightarrow> (int \<times> int) list \<Rightarrow> int list \<Rightarrow> int \<Rightarrow> int" where
  "scatter mem [] bs = mem"
| "scatter mem ((addr, len) # segs) bs = scatter (store mem addr (take (nat len) bs)) segs (drop (nat len) bs)"

text \<open>
  \<open>nvme_dma_write_prp\<close> is called to fetch a buffer from the guest and \<open>nvme_dma_read_prp\<close> to deliver one. For the controller memory
  buffer both copy in the wrong direction (\<open>qemu_iovec_from_buf\<close>, \<open>qemu_iovec_to_buf\<close>). The argument \<open>buf\<close> is what the buffer holds
  before the call, \<open>None\<close> for a buffer on the stack that is not initialised; the result has the status and the buffer after the call.
\<close>

definition cmb_segs :: "NvmeCtrl \<Rightarrow> (int \<times> int) list \<Rightarrow> bool" where
  "cmb_segs n segs \<longleftrightarrow> list_all (\<lambda>(off, len). 0 \<le> off \<and> off + len \<le> n_cmb_size n) segs"

definition nvme_dma_write_prp :: "NvmeCtrl \<Rightarrow> int list option \<Rightarrow> int \<Rightarrow> int \<Rightarrow> int \<Rightarrow> (int \<times> int list option \<times> NvmeCtrl) option" where
  "nvme_dma_write_prp n buf len prp1 prp2 =
     do {
       r \<leftarrow> nvme_map_prp n prp1 prp2 len;
       (case r of
          Inl e \<Rightarrow> Some (INVALID_FIELD, buf, n)
        | Inr (cmb, segs) \<Rightarrow>
            if \<not> cmb then Some (NVME_SUCCESS, Some (gather (n_mem n) segs), n)
            else if \<not> cmb_segs n segs then None
            else do {
              bs \<leftarrow> buf;
              Some (if seg_bytes segs < len then INVALID_FIELD else NVME_SUCCESS, buf, n\<lparr>n_cmbuf := scatter (n_cmbuf n) segs (take (nat len) bs)\<rparr>)
            })
     }"

definition nvme_dma_read_prp :: "NvmeCtrl \<Rightarrow> int list \<Rightarrow> int \<Rightarrow> int \<Rightarrow> int \<Rightarrow> (int \<times> int list \<times> NvmeCtrl) option" where
  "nvme_dma_read_prp n buf len prp1 prp2 =
     do {
       r \<leftarrow> nvme_map_prp n prp1 prp2 len;
       (case r of
          Inl e \<Rightarrow> Some (INVALID_FIELD, buf, n)
        | Inr (cmb, segs) \<Rightarrow>
            if \<not> cmb then Some (NVME_SUCCESS, buf, n\<lparr>n_mem := scatter (n_mem n) segs (take (nat len) buf)\<rparr>)
            else if \<not> cmb_segs n segs then None
            else
              let bs = take (nat len) (gather (n_cmbuf n) segs)
              in Some (if int (length bs) < len then INVALID_FIELD else NVME_SUCCESS, bs @ drop (length bs) buf, n))
     }"

subsection \<open>The heap storage\<close>

text \<open>
  The segments are mapped completely. When their size is not a multiple of the sector size,
  \<open>qemu_iovec_discard_back\<close> is called with the size rounded down, so only the remainder is kept.
\<close>

fun take_segs :: "int \<Rightarrow> (int \<times> int) list \<Rightarrow> (int \<times> int) list" where
  "take_segs k [] = []"
| "take_segs k ((addr, len) # segs) = (if k \<le> 0 then [] else (addr, min k len) # take_segs (k - len) segs)"

definition nvme_heap_storage_rw :: "NvmeCtrl \<Rightarrow> NvmeRequest \<Rightarrow> NvmeCtrl option" where
  "nvme_heap_storage_rw n req =
     (let total = seg_bytes (rq_qsg req);
          segs = (if total mod 512 = 0 then rq_qsg req else take_segs (total mod 512) (rq_qsg req));
          oft = rq_data_offset req
      in if segs \<noteq> [] \<and> (oft < 0 \<or> n_heap_size n < oft + seg_bytes segs) then None
         else if rq_is_write req then Some (n\<lparr>n_heap := store (n_heap n) oft (gather (n_mem n) segs)\<rparr>)
         else Some (n\<lparr>n_mem := scatter (n_mem n) segs (bytes_at (n_heap n) oft (seg_bytes segs))\<rparr>))"

subsection \<open>Queues that are not contiguous\<close>

definition nvme_discontig :: "int list \<Rightarrow> int \<Rightarrow> int \<Rightarrow> int \<Rightarrow> int option" where
  "nvme_discontig dma_addr page_size queue_idx entry_size =
     (if entry_size = 0 then None
      else
        let entries_per_page = u16 (u16 page_size div entry_size)
        in if entries_per_page = 0 then None
           else do {
             base \<leftarrow> cread dma_addr (u16 queue_idx div entries_per_page);
             Some (base + (u16 queue_idx mod entries_per_page) * entry_size)
           })"

text \<open>
  \<open>nvme_setup_discontig\<close> fills its buffer of page addresses with \<open>nvme_addr_write\<close>, which writes it to the guest
  instead of reading it: the first entry it looks at is uninitialised. The result \<open>Some None\<close> is a null
  pointer, which also is the result of an allocation of no bytes.
\<close>

definition nvme_setup_discontig :: "NvmeCtrl \<Rightarrow> int \<Rightarrow> int \<Rightarrow> int \<Rightarrow> int list option option" where
  "nvme_setup_discontig n prp_addr queue_depth entry_size =
     (if n_page_size n = 0 then None
      else
        let total_prps = u16 ((queue_depth * entry_size + n_page_size n - 1) div n_page_size n)
        in if total_prps = 0 then Some None
           else if n_page_size n div 8 = 0 then None
           else if 0 < total_prps - 1 \<and> prp_bad n prp_addr then Some None
           else None)"

section \<open>Lemmas\<close>


subsection \<open>Segments\<close>

text \<open>The page size that \<open>nvme_start_ctrl\<close> sets: 16 bits wide, so at most \<open>2 ^ 15\<close>.\<close>

definition prp_conf :: "NvmeCtrl \<Rightarrow> bool" where
  "prp_conf n \<longleftrightarrow> 12 \<le> n_page_bits n \<and> n_page_bits n \<le> 15 \<and> n_page_size n = 2 ^ n_page_bits n \<and>
     n_max_prp_ents n = n_page_size n div 8 \<and> n_cmbsz n = 0"

lemma prp_confD:
  assumes "prp_conf n"
  shows "4096 \<le> n_page_size n" "n_page_size n \<le> 32768" "512 \<le> n_max_prp_ents n" "\<not> in_cmb n a"
proof -
  have b: "12 \<le> n_page_bits n" "n_page_bits n \<le> 15" "n_page_size n = 2 ^ n_page_bits n" using assms by (simp_all add: prp_conf_def)
  have "(2 :: int) ^ 12 \<le> 2 ^ n_page_bits n" "(2 :: int) ^ n_page_bits n \<le> 2 ^ 15"
    using b by (simp_all only: power_increasing_iff power_increasing)
  then show ps: "4096 \<le> n_page_size n" "n_page_size n \<le> 32768" using b(3) by simp_all
  then have "4096 div 8 \<le> n_page_size n div 8" by (intro zdiv_mono1) simp_all
  then show "512 \<le> n_max_prp_ents n" using assms by (simp add: prp_conf_def)
  show "\<not> in_cmb n a" using assms by (simp add: prp_conf_def in_cmb_def)
qed

lemma page_mask:
  assumes "prp_conf n"
  shows "a AND (n_page_size n - 1) = a mod n_page_size n"
  using assms by (simp add: prp_conf_def mask_eq_exp_minus_1 [symmetric] take_bit_eq_mask [symmetric] take_bit_eq_mod)

definition pages_left :: "NvmeCtrl \<Rightarrow> int \<Rightarrow> int" where
  "pages_left n len = (len + n_page_size n - 1) div n_page_size n"

lemma pages_left_pos: "prp_conf n \<Longrightarrow> 0 < len \<Longrightarrow> 1 \<le> pages_left n len"
  using zdiv_mono1 [of "n_page_size n" "len + n_page_size n - 1" "n_page_size n"] prp_confD(1) [of n]
  by (simp add: pages_left_def)

lemma pages_left_step:
  assumes "prp_conf n" "n_page_size n < len"
  shows "pages_left n (len - n_page_size n) = pages_left n len - 1"
proof -
  have "(len + n_page_size n - 1) div n_page_size n = (len - 1) div n_page_size n + 1"
    using prp_confD(1) [OF assms(1)] div_add_self2 [of "n_page_size n" "len - 1"] by (simp add: algebra_simps)
  then show ?thesis by (simp add: pages_left_def)
qed

lemma pages_left_last:
  assumes "prp_conf n" "0 < len" "len \<le> n_page_size n"
  shows "pages_left n len = 1"
proof -
  have "pages_left n len = (len - 1) div n_page_size n + 1"
    using prp_confD(1) [OF assms(1)] div_add_self2 [of "n_page_size n" "len - 1"] by (simp add: pages_left_def algebra_simps)
  then show ?thesis using assms by (simp add: div_pos_pos_trivial)
qed

lemma read_prps_ok:
  assumes "prp_conf n" "0 < len" "len < 2 ^ 31"
  shows "\<exists>prps. read_prps n addr len = Some prps \<and> int (length prps) = min (n_max_prp_ents n) (pages_left n len)"
proof -
  have u: "u32 (len + n_page_size n - 1) = len + n_page_size n - 1" using prp_confD(1,2) [OF assms(1)] assms(2,3) by (simp add: u32_def)
  have d: "u32 (len + n_page_size n - 1) div 2 ^ n_page_bits n = pages_left n len"
    using assms(1) by (simp add: u) (simp add: pages_left_def prp_conf_def)
  show ?thesis
    using prp_confD(3,4) [OF assms(1)] pages_left_pos [OF assms(1,2)]
    by (simp add: read_prps_def d nvme_addr_read_def Let_def cupto_def)
qed

text \<open>Invariant of the loop: enough entries are left in the page that was read.\<close>

definition prp_ready :: "NvmeCtrl \<Rightarrow> int list \<Rightarrow> int \<Rightarrow> int \<Rightarrow> bool" where
  "prp_ready n prps i len \<longleftrightarrow> len = 0 \<or> 0 \<le> i \<and> i < n_max_prp_ents n \<and>
     int (length prps) = min (n_max_prp_ents n) (i + pages_left n len)"

lemma prp_next_ok:
  assumes "prp_conf n" "0 < len" "len < 2 ^ 31" "prp_ready n prps i len"
  shows "prp_next n prps i len = Some (Inl ()) \<or>
    (\<exists>prps1 i1 e. prp_next n prps i len = Some (Inr (prps1, i1, e)) \<and> \<not> prp_bad n e \<and>
      prp_ready n prps1 (i1 + 1) (len - min len (n_page_size n)))"
proof -
  note ps = prp_confD(1-3) [OF assms(1)] and r = assms(4) [unfolded prp_ready_def]
  have pos: "1 \<le> pages_left n len" by (rule pages_left_pos [OF assms(1,2)])
  have step: "prp_ready n prps1 (i1 + 1) (len - min len (n_page_size n))"
    if "0 \<le> i1" "i1 < n_max_prp_ents n - 1 \<or> len \<le> n_page_size n"
      "int (length prps1) = min (n_max_prp_ents n) (i1 + pages_left n len)" for prps1 i1
    using that pages_left_step [OF assms(1), of len] by (cases "len \<le> n_page_size n") (auto simp: prp_ready_def)
  obtain e where e: "cread prps i = Some e" using r pos assms(2) by (auto simp: cread_def)
  show ?thesis
  proof (cases "i = n_max_prp_ents n - 1 \<and> n_page_size n < len")
    case False
    then have "prp_next n prps i len = (if prp_bad n e then Some (Inl ()) else Some (Inr (prps, i, e)))"
      using e by (auto simp: prp_next_def)
    moreover have "prp_ready n prps (i + 1) (len - min len (n_page_size n))"
      using r assms(2) False by (intro step) auto
    ultimately show ?thesis by (cases "prp_bad n e") auto
  next
    case True
    from read_prps_ok [OF assms(1-3), of e] obtain prps1 where
      p: "read_prps n e len = Some prps1" "int (length prps1) = min (n_max_prp_ents n) (pages_left n len)" by blast
    obtain e1 where e1: "cread prps1 0 = Some e1" using p(2) ps(3) pos by (auto simp: cread_def)
    have "prp_ready n prps1 (0 + 1) (len - min len (n_page_size n))" using ps(3) p(2) by (intro step) auto
    then show ?thesis using e p(1) e1 True by (auto simp: prp_next_def)
  qed
qed

lemma prp_loop_ok:
  assumes "prp_conf n" "0 \<le> len" "len < 2 ^ 31" "prp_ready n prps i len"
  shows "prp_loop n False prps i len = Some (Inl ()) \<or>
    (\<exists>segs. prp_loop n False prps i len = Some (Inr segs) \<and> seg_bytes segs = len \<and>
      (\<forall>(a, l) \<in> set segs. a \<noteq> 0 \<and> a mod n_page_size n = 0 \<and> 0 < l \<and> l \<le> n_page_size n))"
  using assms(2-)
proof (induction "nat len" arbitrary: len prps i rule: less_induct)
  case less
  note ps = prp_confD(1-3) [OF assms(1)]
  show ?case
  proof (cases "len = 0")
    case True
    then show ?thesis using ps by (simp add: prp_loop.simps [of n False prps i 0] seg_bytes_def)
  next
    case False
    then have len: "0 < len" using less.prems(1) by simp
    let ?t = "min len (n_page_size n)"
    from prp_next_ok [OF assms(1) len less.prems(2,3)] show ?thesis
    proof (elim disjE exE conjE)
      assume "prp_next n prps i len = Some (Inl ())"
      then show ?thesis using len ps by (simp add: prp_loop.simps [of n False prps i len])
    next
      fix prps1 i1 e
      assume nx: "prp_next n prps i len = Some (Inr (prps1, i1, e))" "\<not> prp_bad n e" "prp_ready n prps1 (i1 + 1) (len - ?t)"
      have "nat (len - ?t) < nat len" using len ps by simp
      from less.hyps [OF this _ _ nx(3)] less.prems(2) len ps have "prp_loop n False prps1 (i1 + 1) (len - ?t) = Some (Inl ()) \<or>
        (\<exists>segs. prp_loop n False prps1 (i1 + 1) (len - ?t) = Some (Inr segs) \<and> seg_bytes segs = len - ?t \<and>
          (\<forall>(a, l) \<in> set segs. a \<noteq> 0 \<and> a mod n_page_size n = 0 \<and> 0 < l \<and> l \<le> n_page_size n))" by simp
      moreover have "e \<noteq> 0" "e mod n_page_size n = 0" using nx(2) by (simp_all add: prp_bad_def page_mask [OF assms(1)])
      ultimately show ?thesis
        using len ps nx(1) by (auto simp: prp_loop.simps [of n False prps i len] Let_def seg_of_def seg_bytes_def)
    qed
  qed
qed

lemma nvme_map_prp_ok:
  assumes "prp_conf n" "0 < len" "len < 2 ^ 31" "0 \<le> prp1"
  shows "nvme_map_prp n prp1 prp2 len = Some (Inl INVALID_FIELD) \<or>
    (\<exists>l segs. nvme_map_prp n prp1 prp2 len = Some (Inr (False, (prp1, l) # segs)) \<and> prp1 \<noteq> 0 \<and>
      0 < l \<and> l \<le> n_page_size n - prp1 mod n_page_size n \<and> l + seg_bytes segs = len \<and>
      (\<forall>(a, k) \<in> set segs. a \<noteq> 0 \<and> a mod n_page_size n = 0 \<and> 0 < k \<and> k \<le> n_page_size n))"
proof -
  note ps = prp_confD(1-3) [OF assms(1)]
  have u: "u32 len = len" using assms(2,3) by (simp add: u32_def)
  have m: "0 < n_page_size n - prp1 mod n_page_size n" using ps by simp
  let ?t = "min len (n_page_size n - prp1 mod n_page_size n)"
  have t: "0 < ?t" "?t \<le> len" using m assms(2) by simp_all
  have eq: "nvme_map_prp n prp1 prp2 len =
    (if prp1 = 0 then Some (Inl INVALID_FIELD)
     else if len - ?t = 0 then Some (Inr (False, [(prp1, ?t)]))
     else if prp2 = 0 then Some (Inl INVALID_FIELD)
     else if n_page_size n < len - ?t then do {
       prps \<leftarrow> read_prps n prp2 (len - ?t);
       r \<leftarrow> prp_loop n False prps 0 (len - ?t);
       (case r of Inl u \<Rightarrow> Some (Inl INVALID_FIELD) | Inr segs \<Rightarrow> Some (Inr (False, (prp1, ?t) # segs)))
     }
     else if prp2 mod n_page_size n \<noteq> 0 then Some (Inl INVALID_FIELD)
     else Some (Inr (False, [(prp1, ?t), (prp2, len - ?t)])))"
    using ps prp_confD(4) [OF assms(1)] by (simp add: nvme_map_prp_def u Let_def seg_of_def page_mask [OF assms(1)])
  show ?thesis
  proof (cases "prp1 \<noteq> 0 \<and> len - ?t \<noteq> 0 \<and> prp2 \<noteq> 0 \<and> n_page_size n < len - ?t")
    case False
    then show ?thesis unfolding eq using t by (auto simp: seg_bytes_def)
  next
    case True
    have l: "0 < len - ?t" "len - ?t < 2 ^ 31" using t(1) True ps(1) assms(3) by linarith+
    from read_prps_ok [OF assms(1) l, of prp2] obtain prps where
      p: "read_prps n prp2 (len - ?t) = Some prps" "int (length prps) = min (n_max_prp_ents n) (pages_left n (len - ?t))" by blast
    have "prp_ready n prps 0 (len - ?t)" using p(2) ps(3) by (simp add: prp_ready_def)
    from prp_loop_ok [OF assms(1) less_imp_le [OF l(1)] l(2) this] show ?thesis
    proof (elim disjE exE conjE)
      assume "prp_loop n False prps 0 (len - ?t) = Some (Inl ())"
      then show ?thesis unfolding eq using True p(1) by simp
    next
      fix segs
      assume s: "prp_loop n False prps 0 (len - ?t) = Some (Inr segs)" "seg_bytes segs = len - ?t"
        "\<forall>(a, l) \<in> set segs. a \<noteq> 0 \<and> a mod n_page_size n = 0 \<and> 0 < l \<and> l \<le> n_page_size n"
      have "nvme_map_prp n prp1 prp2 len = Some (Inr (False, (prp1, ?t) # segs))" unfolding eq using True p(1) s(1) by simp
      then show ?thesis using s(2,3) t True by (intro disjI2 exI [of _ ?t] exI [of _ segs]) simp
    qed
  qed
qed


subsection \<open>Copies\<close>

definition segs_ok :: "(int \<times> int) list \<Rightarrow> bool" where
  "segs_ok segs \<longleftrightarrow> (\<forall>(a, l) \<in> set segs. 0 \<le> l)"

definition segs_disjoint :: "(int \<times> int) list \<Rightarrow> bool" where
  "segs_disjoint segs \<longleftrightarrow> sorted_wrt (\<lambda>(a, l) (b, k). a + l \<le> b \<or> b + k \<le> a) segs"

lemma segs_ok_Cons [simp]: "segs_ok ((a, l) # segs) \<longleftrightarrow> 0 \<le> l \<and> segs_ok segs"
  by (simp add: segs_ok_def)

lemma seg_bytes_simps [simp]: "seg_bytes [] = 0" "seg_bytes ((a, l) # segs) = l + seg_bytes segs"
  by (simp_all add: seg_bytes_def)

lemma seg_bytes_nonneg [simp]: "segs_ok segs \<Longrightarrow> 0 \<le> seg_bytes segs"
  by (induction segs) auto

lemma length_bytes_at [simp]: "length (bytes_at mem a l) = nat l"
  by (simp add: bytes_at_def cupto_def)

lemma nth_bytes_at [simp]: "i < nat l \<Longrightarrow> bytes_at mem a l ! i = mem (a + int i)"
  by (simp add: bytes_at_def cupto_def)

lemma gather_simps [simp]: "gather mem [] = []" "gather mem ((a, l) # segs) = bytes_at mem a l @ gather mem segs"
  by (simp_all add: gather_def)

lemma length_gather: "segs_ok segs \<Longrightarrow> length (gather mem segs) = nat (seg_bytes segs)"
  by (induction segs) (auto simp: nat_add_distrib)

lemma bytes_at_store: "int (length bs) = l \<Longrightarrow> bytes_at (store mem a bs) a l = bs"
  by (rule nth_equalityI) (auto simp: store_def)

lemma bytes_at_store_other:
  "b + l \<le> a \<or> a + int (length bs) \<le> b \<Longrightarrow> bytes_at (store mem a bs) b l = bytes_at mem b l"
  by (rule nth_equalityI) (auto simp: store_def)

lemma bytes_at_cong: "(\<And>x. a \<le> x \<Longrightarrow> x < a + l \<Longrightarrow> mem x = mem' x) \<Longrightarrow> bytes_at mem a l = bytes_at mem' a l"
  by (rule nth_equalityI) auto

lemma scatter_other:
  assumes "\<forall>(a, l) \<in> set segs. x < a \<or> a + l \<le> x" "segs_ok segs"
  shows "scatter mem segs bs x = mem x"
  using assms
proof (induction segs arbitrary: mem bs)
  case (Cons s segs)
  obtain a l where s: "s = (a, l)" by (cases s)
  have "int (length (take (nat l) bs)) \<le> l" using Cons.prems(2) s by (auto simp: min_def)
  then have "store mem a (take (nat l) bs) x = mem x" using Cons.prems(1) s by (auto simp: store_def)
  then show ?case using Cons.IH Cons.prems s by simp
qed simp

lemma gather_scatter:
  assumes "segs_ok segs" "segs_disjoint segs" "length bs = nat (seg_bytes segs)"
  shows "gather (scatter mem segs bs) segs = bs"
  using assms
proof (induction segs arbitrary: mem bs)
  case (Cons s segs)
  obtain a l where s: "s = (a, l)" by (cases s)
  have l: "0 \<le> l" "segs_ok segs" "segs_disjoint segs" "\<forall>(b, k) \<in> set segs. a + l \<le> b \<or> b + k \<le> a"
    using Cons.prems(1,2) s by (auto simp: segs_disjoint_def)
  have len: "length bs = nat l + nat (seg_bytes segs)" using Cons.prems(3) s l(1,2) by (simp add: nat_add_distrib)
  let ?m = "store mem a (take (nat l) bs)"
  have "bytes_at (scatter ?m segs (drop (nat l) bs)) a l = bytes_at ?m a l"
  proof (rule bytes_at_cong)
    fix x assume "a \<le> x" "x < a + l"
    then have "\<forall>(b, k) \<in> set segs. x < b \<or> b + k \<le> x" using l(4) by fastforce
    then show "scatter ?m segs (drop (nat l) bs) x = ?m x" by (rule scatter_other [OF _ l(2)])
  qed
  also have "\<dots> = take (nat l) bs" using len l(1) by (intro bytes_at_store) simp
  finally show ?case using Cons.IH [OF l(2,3)] len s by simp
qed simp

text \<open>What one request writes to the heap storage, another one of the same range reads.\<close>

lemma heap_write_ok:
  assumes "rq_is_write req" "segs_ok (rq_qsg req)" "seg_bytes (rq_qsg req) mod 512 = 0"
    "0 \<le> rq_data_offset req" "rq_data_offset req + seg_bytes (rq_qsg req) \<le> n_heap_size n"
  shows "nvme_heap_storage_rw n req = Some (n\<lparr>n_heap := store (n_heap n) (rq_data_offset req) (gather (n_mem n) (rq_qsg req))\<rparr>)"
  using assms by (simp add: nvme_heap_storage_rw_def Let_def)

lemma heap_read_ok:
  assumes "\<not> rq_is_write req" "segs_ok (rq_qsg req)" "segs_disjoint (rq_qsg req)" "seg_bytes (rq_qsg req) mod 512 = 0"
    "0 \<le> rq_data_offset req" "rq_data_offset req + seg_bytes (rq_qsg req) \<le> n_heap_size n"
  shows "\<exists>m. nvme_heap_storage_rw n req = Some (n\<lparr>n_mem := m\<rparr>) \<and>
    gather m (rq_qsg req) = bytes_at (n_heap n) (rq_data_offset req) (seg_bytes (rq_qsg req))"
proof -
  let ?bs = "bytes_at (n_heap n) (rq_data_offset req) (seg_bytes (rq_qsg req))"
  have "nvme_heap_storage_rw n req = Some (n\<lparr>n_mem := scatter (n_mem n) (rq_qsg req) ?bs\<rparr>)"
    using assms by (simp add: nvme_heap_storage_rw_def Let_def)
  moreover have "gather (scatter (n_mem n) (rq_qsg req) ?bs) (rq_qsg req) = ?bs"
    using assms(2,3) by (intro gather_scatter) simp_all
  ultimately show ?thesis by blast
qed

text \<open>The segments depend on the memory and the page geometry only.\<close>

definition same_mem :: "NvmeCtrl \<Rightarrow> NvmeCtrl \<Rightarrow> bool" where
  "same_mem n n' \<longleftrightarrow> n_mem n' = n_mem n \<and> n_cmbsz n' = n_cmbsz n \<and> n_cmb_addr n' = n_cmb_addr n \<and> n_cmb_size n' = n_cmb_size n \<and>
     n_cmbuf n' = n_cmbuf n \<and> n_page_size n' = n_page_size n \<and> n_page_bits n' = n_page_bits n \<and> n_max_prp_ents n' = n_max_prp_ents n"

lemma same_memD:
  assumes "same_mem n n'"
  shows "n_mem n' = n_mem n" "n_cmbsz n' = n_cmbsz n" "n_cmb_addr n' = n_cmb_addr n" "n_cmb_size n' = n_cmb_size n"
    "n_cmbuf n' = n_cmbuf n" "n_page_size n' = n_page_size n" "n_page_bits n' = n_page_bits n" "n_max_prp_ents n' = n_max_prp_ents n"
  using assms by (simp_all add: same_mem_def)

lemma same_mem_parts:
  assumes "same_mem n n'"
  shows "in_cmb n' = in_cmb n" "nvme_addr_read n' = nvme_addr_read n" "prp_bad n' = prp_bad n" "read_prps n' = read_prps n"
    "seg_of n' = seg_of n" "prp_next n' = prp_next n"
proof -
  note z = same_memD [OF assms]
  show c: "in_cmb n' = in_cmb n" unfolding in_cmb_def fun_eq_iff z by simp
  show r: "nvme_addr_read n' = nvme_addr_read n" unfolding nvme_addr_read_def fun_eq_iff c z by simp
  show b: "prp_bad n' = prp_bad n" unfolding prp_bad_def fun_eq_iff z by simp
  show p: "read_prps n' = read_prps n" unfolding read_prps_def fun_eq_iff r z by simp
  show "seg_of n' = seg_of n" unfolding seg_of_def fun_eq_iff z by simp
  show "prp_next n' = prp_next n" unfolding prp_next_def fun_eq_iff b p z by simp
qed

lemma prp_loop_cong:
  assumes "same_mem n n'"
  shows "prp_loop n' cmb ps i len = prp_loop n cmb ps i len"
proof (induction "nat len" arbitrary: ps i len rule: less_induct)
  case less
  note c = same_mem_parts [OF assms] same_memD [OF assms]
  show ?case
  proof (cases "n_page_size n \<le> 0 \<or> len \<le> 0")
    case True
    then show ?thesis by (subst (1 2) prp_loop.simps) (auto simp: c)
  next
    case False
    then have h: "prp_loop n' cmb q j (len - min len (n_page_size n)) = prp_loop n cmb q j (len - min len (n_page_size n))" for q j
      by (intro less.hyps) auto
    show ?thesis unfolding prp_loop.simps [of n' cmb ps i len] prp_loop.simps [of n cmb ps i len] c Let_def h by (rule refl)
  qed
qed

lemma nvme_map_prp_cong: "same_mem n n' \<Longrightarrow> nvme_map_prp n' = nvme_map_prp n"
proof -
  assume m: "same_mem n n'"
  have l: "prp_loop n' = prp_loop n" by (intro ext) (rule prp_loop_cong [OF m])
  show ?thesis unfolding nvme_map_prp_def fun_eq_iff same_mem_parts [OF m] same_memD [OF m] l by simp
qed

lemma same_mem_frame [simp]:
  "same_mem n (n\<lparr>n_meta_buf := b\<rparr>)" "same_mem n (n\<lparr>n_meta_buf := b, n_ssd := s, n_heap := h, n_mem := n_mem n\<rparr>)"
  by (simp_all add: same_mem_def)

end
