(* ===== verification/NvmeIo.thy ===== *)
theory NvmeIo
  imports NvmePrp
begin

section \<open>I/O commands\<close>

text \<open>
  The handlers of the I/O commands (\<open>nvme_io_cmd\<close> of \<open>nvme.c\<close>) and of the remap command of the admin queue. A
  handler returns the status, the request with its new fields and the controller. The block layer of
  QEMU, the set-up of interrupts and the functions for open-channel devices (\<open>femu-oc.c\<close>) are parameters, collected in \<open>blk_env\<close>;
  so are the accounting of the block layer, the wall clock and the bytes of an uninitialised buffer, each at a
  given number of clock readings. The error locations are the byte offsets of the fields in the command.
\<close>

record blk_env =
  blk_pdiscard :: "int \<Rightarrow> int \<Rightarrow> int"
  blk_pread :: "int \<Rightarrow> int \<Rightarrow> int list option"
  oc_dev :: bool
  oc_rw :: "NvmeCtrl \<Rightarrow> NvmeCmd \<Rightarrow> NvmeRequest \<Rightarrow> (int \<times> NvmeRequest \<times> NvmeCtrl) option"
  oc_erase :: "NvmeCtrl \<Rightarrow> NvmeCmd \<Rightarrow> NvmeRequest \<Rightarrow> (int \<times> NvmeRequest \<times> NvmeCtrl) option"
  oc_post_cqe :: "NvmeCtrl \<Rightarrow> NvmeRequest \<Rightarrow> NvmeRequest"
  aio_cancel :: "NvmeRequest \<Rightarrow> int"
  irq_setup :: "NvmeCQueue \<Rightarrow> bool"
  oc_admin :: "NvmeCtrl \<Rightarrow> NvmeCmd \<Rightarrow> NvmeRequest \<Rightarrow> (int \<times> NvmeRequest \<times> NvmeCtrl) option"
  oc_init :: "NvmeCtrl \<Rightarrow> NvmeCtrl option"
  blk_acct :: "nat \<Rightarrow> int \<times> int \<times> int \<times> int"
  wall_time :: "nat \<Rightarrow> int"
  stack_bytes :: "nat \<Rightarrow> nat \<Rightarrow> int"

definition LBA_RANGE :: int where
  "LBA_RANGE = NVME_LBA_RANGE OR NVME_DNR"

definition INVALID_OPCODE :: int where
  "INVALID_OPCODE = NVME_INVALID_OPCODE OR NVME_DNR"

definition INVALID_NSID :: int where
  "INVALID_NSID = NVME_INVALID_NSID OR NVME_DNR"

text \<open>An error that is reported through the error log.\<close>

definition fail_with :: "NvmeCtrl \<Rightarrow> NvmeNamespace \<Rightarrow> NvmeCmd \<Rightarrow> NvmeRequest \<Rightarrow> int \<Rightarrow> int \<Rightarrow> int \<Rightarrow> int \<Rightarrow> (int \<times> NvmeCtrl) option" where
  "fail_with n ns cmd req logged location lba status =
     do {
       n1 \<leftarrow> nvme_set_error_page n (rq_sq req) (cmd_cid cmd) logged location lba (ns_id ns);
       Some (status, n1)
     }"

subsection \<open>Bitmaps of a namespace\<close>

definition any_bit :: "bool list \<Rightarrow> int \<Rightarrow> int \<Rightarrow> bool" where
  "any_bit bs lo hi \<longleftrightarrow> list_ex (\<lambda>i. i < length bs \<and> bs ! i) [nat lo..<nat hi]"

definition bitmap_put :: "bool \<Rightarrow> bool list \<Rightarrow> int \<Rightarrow> int \<Rightarrow> bool list option" where
  "bitmap_put v bs start nr =
     (if nr \<le> 0 then Some bs
      else if start < 0 \<or> int (length bs) < start + nr then None
      else Some (take (nat start) bs @ replicate (nat nr) v @ drop (nat (start + nr)) bs))"

definition put_ns :: "NvmeCtrl \<Rightarrow> int \<Rightarrow> NvmeNamespace \<Rightarrow> NvmeCtrl option" where
  "put_ns n nsid ns = do { t \<leftarrow> cwrite (n_namespaces n) (nsid - 1) ns; Some (n\<lparr>n_namespaces := t\<rparr>) }"

subsection \<open>Reads and writes\<close>

definition nvme_rw_check_req :: "blk_env \<Rightarrow> NvmeCtrl \<Rightarrow> NvmeNamespace \<Rightarrow> NvmeCmd \<Rightarrow> NvmeRequest \<Rightarrow> int \<Rightarrow> int \<Rightarrow> int \<Rightarrow> int \<Rightarrow> int \<Rightarrow>
    int \<Rightarrow> (int \<times> NvmeCtrl) option" where
  "nvme_rw_check_req env n ns cmd req slba elba nlb ctrl data_size meta_size =
     (if ns_nsze ns < elba then fail_with n ns cmd req NVME_LBA_RANGE 48 elba LBA_RANGE
      else if n_mdts n \<noteq> 0 \<and> n_page_size n * 2 ^ n_mdts n < data_size then
        fail_with n ns cmd req NVME_INVALID_FIELD 48 nlb INVALID_FIELD
      else if meta_size \<noteq> 0 then fail_with n ns cmd req NVME_INVALID_FIELD 50 ctrl INVALID_FIELD
      else if ctrl AND 2 ^ 13 \<noteq> 0 \<and> ns_dps ns AND 7 = 0 then
        fail_with n ns cmd req NVME_INVALID_FIELD 50 ctrl
          (if n_femu_mode n = FEMU_WHITEBOX_MODE \<and> oc_dev env then 0 else INVALID_FIELD)
      else if \<not> rq_is_write req \<and> any_bit (ns_uncorrectable ns) slba elba then
        fail_with n ns cmd req NVME_UNRECOVERED_READ 40 elba NVME_UNRECOVERED_READ
      else Some (0, n))"

text \<open>
  The metadata of a page: checksum and tags in the first eight bytes, then transaction, flag and home
  page in big-endian order. A tuple whose flag or home page is not accepted is replaced by a plain write.
\<close>

definition ftl_meta_parse :: "ssdconf \<Rightarrow> int list \<Rightarrow> lpn_info" where
  "ftl_meta_parse sc meta =
     (let h = s64 (be_int (take 8 (drop 16 meta))); tx = be_int (take 4 (drop 8 meta)); flag = be_int (take 4 (drop 12 meta))
      in if (flag = WAL_WRITE \<or> flag = WAL_WRITE + 1 \<or> flag = CP_WRITE \<or> flag = FS_GC_WRITE) \<and>
            0 \<le> h \<and> h \<le> PAGE_MAPPING_ENTRY_NB sc
         then \<lparr>tx_id = tx, lpn_flag = flag, h_lpn = h\<rparr>
         else \<lparr>tx_id = 0, lpn_flag = 0, h_lpn = - 1\<rparr>)"

definition ftl_meta_write :: "int list \<Rightarrow> int \<Rightarrow> NvmeCtrl \<times> lpn_info list \<Rightarrow> (NvmeCtrl \<times> lpn_info list) option" where
  "ftl_meta_write meta i = (\<lambda>(n, infos).
     do {
       let sc = ssdparams (n_ssd n);
       infos1 \<leftarrow> cwrite infos i (ftl_meta_parse sc meta);
       Some (n\<lparr>n_meta_buf := take (nat (sos sc)) meta\<rparr>, infos1)
     })"

definition ftl_meta_index :: "ssdconf \<Rightarrow> int list \<Rightarrow> int \<Rightarrow> int list" where
  "ftl_meta_index sc msl i = drop (nat (i * sos sc)) msl"

text \<open>The buffer for metadata and the array in the request have room for 512 pages.\<close>

abbreviation (input) MAX_PAGES :: int where "MAX_PAGES \<equiv> 512"

definition no_info :: lpn_info where
  "no_info = \<lparr>tx_id = 0, lpn_flag = 0, h_lpn = 0\<rparr>"

definition rw_meta :: "NvmeCtrl \<Rightarrow> int \<Rightarrow> bool \<Rightarrow> int \<Rightarrow> (NvmeCtrl \<times> lpn_info list) option" where
  "rw_meta n meta is_write n_pages =
     (let sc = ssdparams (n_ssd n); infos = replicate (nat MAX_PAGES) no_info
      in if meta = 0 then Some (n, infos)
         else if MAX_PAGES < n_pages then None
         else if is_write then do {
           msl \<leftarrow> nvme_addr_read n meta (n_pages * sos sc);
           foldM (\<lambda>i. ftl_meta_write (ftl_meta_index sc msl i) i) (cupto n_pages) (n, infos)
         }
         else Some (n, infos))"

definition rw_ssd :: "NvmeCtrl \<Rightarrow> bool \<Rightarrow> request_meta \<Rightarrow> (int \<times> NvmeCtrl) option" where
  "rw_ssd n is_write request1 =
     do {
       (d, s) \<leftarrow> (if is_write then SSD_WRITE (n_ssd n) request1
                  else SSD_READ (n_ssd n) (req_length request1) (req_sector_nb request1));
       Some (d, n\<lparr>n_ssd := s\<rparr>)
     }"

text \<open>The part of \<open>nvme_rw\<close> after the checks: the time of completion and the data.\<close>

definition rw_transfer :: "NvmeCtrl \<Rightarrow> NvmeRequest \<Rightarrow> request_meta \<Rightarrow> (int \<times> NvmeRequest \<times> NvmeCtrl) option" where
  "rw_transfer n req request1 =
     (let (t1, n1) = get_ns n; (t2, n2) = get_ns n1
      in do {
        (d, n3) \<leftarrow> (if n_femu_mode n = FEMU_BLACKBOX_MODE then rw_ssd n2 (rq_is_write req) request1 else Some (t2 - t1, n2));
        let req1 = req\<lparr>rq_status := NVME_SUCCESS, rq_expire_time := t1 + (d - (t2 - t1))\<rparr>;
        n4 \<leftarrow> nvme_heap_storage_rw n3 req1;
        Some (NVME_SUCCESS, req1, n4)
      })"

definition nvme_rw :: "blk_env \<Rightarrow> NvmeCtrl \<Rightarrow> NvmeNamespace \<Rightarrow> NvmeCmd \<Rightarrow> NvmeRequest \<Rightarrow> (int \<times> NvmeRequest \<times> NvmeCtrl) option" where
  "nvme_rw env n ns cmd req =
     (let nlb = rw_nlb cmd + 1; slba = rw_slba cmd; data_size = u64 (nlb * 2 ^ ns_ds ns);
          data_offset = u64 (slba * 2 ^ ns_ds ns); elba = u64 (slba + nlb); is_write = (cmd_opcode cmd = NVME_CMD_WRITE);
          req1 = req\<lparr>rq_data_offset := data_offset, rq_is_write := is_write\<rparr>
      in do {
        (err, n1) \<leftarrow> nvme_rw_check_req env n ns cmd req1 slba elba nlb (rw_control cmd) data_size 0;
        (if err \<noteq> 0 then Some (err, req1, n1)
         else do {
           (n2, infos) \<leftarrow> rw_meta n1 (cmd_mptr cmd) is_write (u32 (data_size div 4096));
           r \<leftarrow> nvme_map_prp n2 (cmd_prp1 cmd) (cmd_prp2 cmd) data_size;
           (case r of
              Inl e \<Rightarrow> do {
                (st, n3) \<leftarrow> fail_with n2 ns cmd req1 NVME_INVALID_FIELD 24 0 INVALID_FIELD;
                Some (st, req1, n3)
              }
            | Inr (cmb, segs) \<Rightarrow>
                let req2 = (if cmb then req1\<lparr>rq_qsg := []\<rparr> else req1\<lparr>rq_qsg := segs, rq_qsg_size := seg_bytes segs\<rparr>)
                in if u32 (nlb * 2 ^ ns_ds ns) \<noteq> rq_qsg_size req2 then None
                   else rw_transfer n2 (req2\<lparr>rq_slba := slba, rq_nlb := u16 nlb\<rparr>)
                     \<lparr>req_length = u32 (data_size div 512), req_sector_nb = data_offset div 512, lpns_info = infos\<rparr>)
         })
      })"

subsection \<open>Discards\<close>

text \<open>A range is 16 bytes: attributes, number of blocks, first block.\<close>

definition dsm_ranges :: "int list \<Rightarrow> int \<Rightarrow> (int \<times> int) list" where
  "dsm_ranges bs nr = map (\<lambda>i. (le_int (take 4 (drop (nat (i * 16 + 4)) bs)), le_int (take 8 (drop (nat (i * 16 + 8)) bs)))) (cupto nr)"

definition discard_ssd :: "NvmeCtrl \<Rightarrow> int \<Rightarrow> int \<Rightarrow> NvmeCtrl option" where
  "discard_ssd n len sector =
     (if n_femu_mode n = FEMU_BLACKBOX_MODE then do {
        (r, s) \<leftarrow> femu_discard_process (n_ssd n) len sector;
        Some (n\<lparr>n_ssd := s\<rparr>)
      }
      else Some n)"

fun dsm_loop :: "blk_env \<Rightarrow> int \<Rightarrow> NvmeCmd \<Rightarrow> NvmeRequest \<Rightarrow> (int \<times> int) list \<Rightarrow> NvmeCtrl \<Rightarrow> (int \<times> NvmeCtrl) option" where
  "dsm_loop env nsid cmd req [] n = Some (NVME_SUCCESS, n)"
| "dsm_loop env nsid cmd req ((nlb, slba) # rs) n =
     do {
       ns \<leftarrow> cread (n_namespaces n) (nsid - 1);
       (if ns_nsze ns < u64 (slba + nlb) then fail_with n ns cmd req NVME_LBA_RANGE 40 (u64 (slba + nlb)) LBA_RANGE
        else if ns_ds ns < BDRV_SECTOR_BITS then None
        else
          let data_shift = ns_ds ns - BDRV_SECTOR_BITS; len = u32 (nlb * 2 ^ data_shift); start = u64 (slba * 2 ^ data_shift)
          in if blk_pdiscard env (u64 (ns_start_block ns + start)) len \<noteq> 0 then Some (NVME_INTERNAL_DEV_ERROR, n)
             else do {
               util \<leftarrow> bitmap_put False (ns_util ns) slba nlb;
               n1 \<leftarrow> put_ns n nsid (ns\<lparr>ns_util := util\<rparr>);
               n2 \<leftarrow> discard_ssd n1 len (s64 start);
               dsm_loop env nsid cmd req rs n2
             })
     }"

definition nvme_dsm :: "blk_env \<Rightarrow> NvmeCtrl \<Rightarrow> NvmeNamespace \<Rightarrow> NvmeCmd \<Rightarrow> NvmeRequest \<Rightarrow> (int \<times> NvmeRequest \<times> NvmeCtrl) option" where
  "nvme_dsm env n ns cmd req =
     (if dw cmd 11 AND 2 ^ 2 = 0 then Some (NVME_SUCCESS, req, n)
      else do {
        let nr = dw cmd 10 mod 2 ^ 8 + 1;
        (st0, buf, n0) \<leftarrow> nvme_dma_write_prp n None (nr * 16) (cmd_prp1 cmd) (cmd_prp2 cmd);
        (if st0 \<noteq> 0 then do { (st, n1) \<leftarrow> fail_with n0 ns cmd req NVME_INVALID_FIELD 24 0 INVALID_FIELD; Some (st, req, n1) }
         else do {
             bs \<leftarrow> buf;
             (st, n1) \<leftarrow> dsm_loop env (cmd_nsid cmd) cmd (req\<lparr>rq_status := NVME_SUCCESS\<rparr>) (dsm_ranges bs nr) n0;
             Some (st, req\<lparr>rq_status := (if st = NVME_INTERNAL_DEV_ERROR then st else NVME_SUCCESS)\<rparr>, n1)
           })
      })"

subsection \<open>The remaining commands\<close>

definition nvme_write_uncor :: "NvmeCtrl \<Rightarrow> NvmeNamespace \<Rightarrow> NvmeCmd \<Rightarrow> NvmeRequest \<Rightarrow> (int \<times> NvmeRequest \<times> NvmeCtrl) option" where
  "nvme_write_uncor n ns cmd req =
     (let slba = rw_slba cmd; nlb = rw_nlb cmd + 1
      in if ns_nsze ns < u64 (slba + nlb) then do {
           (st, n1) \<leftarrow> fail_with n ns cmd req NVME_LBA_RANGE 48 (u64 (slba + nlb)) LBA_RANGE;
           Some (st, req, n1)
         }
         else do {
           u \<leftarrow> bitmap_put True (ns_uncorrectable ns) slba nlb;
           n1 \<leftarrow> put_ns n (cmd_nsid cmd) (ns\<lparr>ns_uncorrectable := u\<rparr>);
           Some (NVME_SUCCESS, req, n1)
         })"

text \<open>The block layer completes \<open>nvme_write_zeros\<close> and \<open>nvme_flush\<close> later, with \<open>nvme_misc_cb\<close>.\<close>

definition nvme_flush :: "NvmeCtrl \<Rightarrow> NvmeRequest \<Rightarrow> (int \<times> NvmeRequest \<times> NvmeCtrl) option" where
  "nvme_flush n req = Some (NVME_NO_COMPLETE, req\<lparr>rq_aiocb := True\<rparr>, n)"

definition nvme_write_zeros :: "NvmeCtrl \<Rightarrow> NvmeNamespace \<Rightarrow> NvmeCmd \<Rightarrow> NvmeRequest \<Rightarrow> (int \<times> NvmeRequest \<times> NvmeCtrl) option" where
  "nvme_write_zeros n ns cmd req =
     (let slba = rw_slba cmd; nlb = rw_nlb cmd + 1
      in if ns_nsze ns < u64 (slba + nlb) then do {
           (st, n1) \<leftarrow> fail_with n ns cmd req NVME_LBA_RANGE 48 (u64 (slba + nlb)) LBA_RANGE;
           Some (st, req, n1)
         }
         else Some (NVME_NO_COMPLETE, req\<lparr>rq_aiocb := True\<rparr>, n))"

fun compare_loop :: "blk_env \<Rightarrow> NvmeCtrl \<Rightarrow> NvmeNamespace \<Rightarrow> NvmeRequest \<Rightarrow> int \<Rightarrow> (int \<times> int) list \<Rightarrow> (int \<times> NvmeCtrl) option" where
  "compare_loop env n ns req off [] = Some (NVME_SUCCESS, n)"
| "compare_loop env n ns req off ((addr, len) # segs) =
     (case blk_pread env off len of
        None \<Rightarrow> do {
          n1 \<leftarrow> nvme_set_error_page n (rq_sq req) (rq_cid req) NVME_INTERNAL_DEV_ERROR 40 (rq_slba req) (ns_id ns);
          Some (NVME_INTERNAL_DEV_ERROR, n1)
        }
      | Some disk \<Rightarrow> do {
          bs \<leftarrow> nvme_addr_read n addr len;
          (if disk \<noteq> bs then Some (NVME_CMP_FAILURE, n) else compare_loop env n ns req (off + len) segs)
        })"

definition nvme_compare :: "blk_env \<Rightarrow> NvmeCtrl \<Rightarrow> NvmeNamespace \<Rightarrow> NvmeCmd \<Rightarrow> NvmeRequest \<Rightarrow> (int \<times> NvmeRequest \<times> NvmeCtrl) option" where
  "nvme_compare env n ns cmd req =
     (let nlb = rw_nlb cmd + 1; slba = rw_slba cmd; elba = u64 (slba + nlb); data_size = u32 (nlb * 2 ^ ns_ds ns)
      in if ns_nsze ns < elba then do {
           (st, n1) \<leftarrow> fail_with n ns cmd req NVME_LBA_RANGE 48 elba LBA_RANGE; Some (st, req, n1) }
         else if n_mdts n \<noteq> 0 \<and> n_page_size n * 2 ^ n_mdts n < data_size then do {
           (st, n1) \<leftarrow> fail_with n ns cmd req NVME_INVALID_FIELD 48 nlb INVALID_FIELD; Some (st, req, n1) }
         else do {
           r \<leftarrow> nvme_map_prp n (cmd_prp1 cmd) (cmd_prp2 cmd) data_size;
           (case r of
              Inl e \<Rightarrow> do { (st, n1) \<leftarrow> fail_with n ns cmd req NVME_INVALID_FIELD 24 0 INVALID_FIELD; Some (st, req, n1) }
            | Inr (cmb, segs) \<Rightarrow>
                let req1 = (if cmb then req\<lparr>rq_qsg := []\<rparr> else req\<lparr>rq_qsg := segs, rq_qsg_size := seg_bytes segs\<rparr>)
                in if any_bit (ns_uncorrectable ns) slba elba then Some (NVME_UNRECOVERED_READ, req1, n)
                   else do {
                     (st, n1) \<leftarrow> compare_loop env n ns req1 (u64 (ns_start_block ns + slba * 2 ^ ns_ds ns)) (rq_qsg req1);
                     Some (st, req1, n1)
                   })
         })"

definition nvme_io_cmd :: "blk_env \<Rightarrow> NvmeCtrl \<Rightarrow> NvmeCmd \<Rightarrow> NvmeRequest \<Rightarrow> (int \<times> NvmeRequest \<times> NvmeCtrl) option" where
  "nvme_io_cmd env n cmd req =
     (let nsid = cmd_nsid cmd; opc = cmd_opcode cmd; invalid = Some (INVALID_OPCODE, req, n)
      in if nsid = 0 \<or> n_num_namespaces n < nsid then Some (INVALID_NSID, req, n)
         else do {
           ns \<leftarrow> cread (n_namespaces n) (nsid - 1);
           (if opc = 0x81 \<or> opc = 0x92 \<or> opc = 0x91 then oc_rw env n cmd req
            else if opc = NVME_CMD_READ \<or> opc = NVME_CMD_WRITE then nvme_rw env n ns cmd req
            else if opc = NVME_CMD_FLUSH then
              if n_vwc n = 0 \<or> ft_volatile_wc (n_features n) = 0 then Some (NVME_SUCCESS, req, n) else nvme_flush n req
            else if opc = NVME_CMD_DSM then if n_oncs n AND 2 ^ 2 \<noteq> 0 then nvme_dsm env n ns cmd req else invalid
            else if opc = NVME_CMD_COMPARE then if n_oncs n AND 2 ^ 0 \<noteq> 0 then nvme_compare env n ns cmd req else invalid
            else if opc = NVME_CMD_WRITE_ZEROS then if n_oncs n AND 2 ^ 3 \<noteq> 0 then nvme_write_zeros n ns cmd req else invalid
            else if opc = NVME_CMD_WRITE_UNCOR then if n_oncs n AND 2 ^ 1 \<noteq> 0 then nvme_write_uncor n ns cmd req else invalid
            else if opc = 0x90 then if oc_dev env then oc_erase env n cmd req else invalid
            else invalid)
         })"

subsection \<open>The remap command\<close>

text \<open>
  The copy of the data has the length \<open>len * PAGE_SIZE\<close>, computed in 32 bits. \<open>memcpy\<close> of overlapping areas is
  undefined.
\<close>

definition heap_copy :: "NvmeCtrl \<Rightarrow> int \<Rightarrow> int \<Rightarrow> int \<Rightarrow> NvmeCtrl option" where
  "heap_copy n dst src len =
     (if len = 0 then Some n
      else if n_heap_size n < dst + len \<or> n_heap_size n < src + len then None
      else if dst < src + len \<and> src < dst + len then None
      else Some (n\<lparr>n_heap := store (n_heap n) dst (bytes_at (n_heap n) src len)\<rparr>))"

definition nvme_remap :: "NvmeCtrl \<Rightarrow> NvmeCmd \<Rightarrow> (int \<times> NvmeCtrl) option" where
  "nvme_remap n cmd =
     (let src = remap_src cmd; dst = remap_dst cmd; len = remap_len cmd; psz = PAGE_SIZE (ssdparams (n_ssd n))
      in do {
        n1 \<leftarrow> (if n_femu_mode n = FEMU_BLACKBOX_MODE then do {
                  (r, s) \<leftarrow> SSD_REMAP (n_ssd n) src dst len (remap_ope cmd);
                  Some (n\<lparr>n_ssd := s\<rparr>)
                }
                else Some n);
        n2 \<leftarrow> heap_copy n1 (u64 (dst * psz)) (u64 (src * psz)) (u32 (len * psz));
        Some (NVME_SUCCESS, n2)
      })"

section \<open>Lemmas\<close>

end
