(* ===== verification/NvmeQueues.thy ===== *)
theory NvmeQueues
  imports NvmeIo "HOL-Library.Multiset"
begin

section \<open>Submission and completion queues\<close>

text \<open>
  The rings between guest and controller and the life of a request: \<open>nvme_process_sq_io\<close> fetches a command,
  moves a free request to the list of outstanding ones and runs the command; the request then waits in the
  list of its completion queue, ordered by the time at which the emulated device is done, until
  \<open>nvme_post_cqes_io\<close> posts it to the guest and frees it. The polling functions are callbacks of timers.
\<close>

subsection \<open>Rings\<close>

definition get_sq :: "NvmeCtrl \<Rightarrow> int \<Rightarrow> NvmeSQueue option" where
  "get_sq n sqid = do { q \<leftarrow> cread (n_sq n) sqid; q }"

definition get_cq :: "NvmeCtrl \<Rightarrow> int \<Rightarrow> NvmeCQueue option" where
  "get_cq n cqid = do { q \<leftarrow> cread (n_cq n) cqid; q }"

definition put_sq :: "NvmeCtrl \<Rightarrow> NvmeSQueue \<Rightarrow> NvmeCtrl" where
  "put_sq n sq = n\<lparr>n_sq := (n_sq n)[nat (sq_sqid sq) := Some sq]\<rparr>"

definition put_cq :: "NvmeCtrl \<Rightarrow> NvmeCQueue \<Rightarrow> NvmeCtrl" where
  "put_cq n cq = n\<lparr>n_cq := (n_cq n)[nat (cq_cqid cq) := Some cq]\<rparr>"

definition nvme_check_sqid :: "NvmeCtrl \<Rightarrow> int \<Rightarrow> int" where
  "nvme_check_sqid n sqid = (if sqid \<le> n_num_io_queues n \<and> get_sq n sqid \<noteq> None then 0 else - 1)"

definition nvme_check_cqid :: "NvmeCtrl \<Rightarrow> int \<Rightarrow> int" where
  "nvme_check_cqid n cqid = (if cqid \<le> n_num_io_queues n \<and> get_cq n cqid \<noteq> None then 0 else - 1)"

definition nvme_inc_cq_tail :: "NvmeCQueue \<Rightarrow> NvmeCQueue" where
  "nvme_inc_cq_tail cq =
     (let t = u32 (cq_tail cq + 1)
      in if cq_size cq \<le> t then cq\<lparr>cq_tail := 0, cq_phase := (if cq_phase cq = 0 then 1 else 0)\<rparr>
         else cq\<lparr>cq_tail := t\<rparr>)"

definition nvme_inc_sq_head :: "NvmeSQueue \<Rightarrow> NvmeSQueue option" where
  "nvme_inc_sq_head sq = (if sq_size sq = 0 then None else Some (sq\<lparr>sq_head := u32 (sq_head sq + 1) mod sq_size sq\<rparr>))"

text \<open>Head and tail are read from memory of the guest once \<open>nvme_set_db_memory\<close> was called.\<close>

definition nvme_update_cq_head :: "NvmeCtrl \<Rightarrow> NvmeCQueue \<Rightarrow> NvmeCQueue option" where
  "nvme_update_cq_head n cq =
     (if cq_db_addr cq = 0 then Some cq
      else do { bs \<leftarrow> nvme_addr_read n (cq_db_addr cq) 4; Some (cq\<lparr>cq_head := le_int bs\<rparr>) })"

definition nvme_cq_full :: "NvmeCtrl \<Rightarrow> NvmeCQueue \<Rightarrow> (bool \<times> NvmeCQueue) option" where
  "nvme_cq_full n cq =
     do {
       cq1 \<leftarrow> nvme_update_cq_head n cq;
       (if cq_size cq1 = 0 then None else Some (u32 (cq_tail cq1 + 1) mod cq_size cq1 = cq_head cq1, cq1))
     }"

definition nvme_sq_empty :: "NvmeSQueue \<Rightarrow> bool" where
  "nvme_sq_empty sq \<longleftrightarrow> sq_head sq = sq_tail sq"

definition nvme_update_sq_tail :: "NvmeCtrl \<Rightarrow> NvmeSQueue \<Rightarrow> NvmeSQueue option" where
  "nvme_update_sq_tail n sq =
     (if sq_db_addr sq = 0 then Some sq
      else do { bs \<leftarrow> nvme_addr_read n (sq_db_addr sq) 4; Some (sq\<lparr>sq_tail := le_int bs\<rparr>) })"

definition nvme_isr_notify :: "NvmeCtrl \<Rightarrow> NvmeCQueue \<Rightarrow> NvmeCtrl" where
  "nvme_isr_notify n cq = (if cq_irq_enabled cq \<noteq> 0 then n\<lparr>n_notified := cq_cqid cq # n_notified n\<rparr> else n)"

subsection \<open>Lists of requests\<close>

definition same_req :: "NvmeRequest \<Rightarrow> NvmeRequest \<Rightarrow> bool" where
  "same_req r q \<longleftrightarrow> rq_sq r = rq_sq q \<and> rq_idx r = rq_idx q"

text \<open>\<open>QTAILQ_REMOVE\<close> of an element that is not in the list is undefined.\<close>

definition unlink :: "NvmeRequest \<Rightarrow> NvmeRequest list \<Rightarrow> NvmeRequest list option" where
  "unlink r rs = (if list_ex (same_req r) rs then Some (filter (\<lambda>q. \<not> same_req r q) rs) else None)"

fun insert_req :: "NvmeRequest \<Rightarrow> NvmeRequest list \<Rightarrow> NvmeRequest list" where
  "insert_req req [] = [req]"
| "insert_req req (iter # rs) =
     (if rq_expire_time req < rq_expire_time iter then req # iter # rs else iter # insert_req req rs)"

subsection \<open>Completion\<close>

text \<open>The bytes of an integer, the least significant one first, and of a completion entry.\<close>

fun le_bytes :: "nat \<Rightarrow> int \<Rightarrow> int list" where
  "le_bytes 0 x = []"
| "le_bytes (Suc k) x = x mod 2 ^ 8 # le_bytes k (x div 2 ^ 8)"

definition cqe_bytes :: "NvmeCqe \<Rightarrow> int list" where
  "cqe_bytes cqe = le_bytes 8 (cqe_result cqe) @ le_bytes 2 (cqe_sq_head cqe) @ le_bytes 2 (cqe_sq_id cqe) @
     le_bytes 2 (cqe_cid cqe) @ le_bytes 2 (cqe_status cqe)"

text \<open>The tail and the page size are passed to \<open>nvme_discontig\<close> in the wrong order.\<close>

definition cqe_addr :: "NvmeCtrl \<Rightarrow> NvmeCQueue \<Rightarrow> int option" where
  "cqe_addr n cq =
     (if cq_contig cq then Some (u64 (cq_dma_addr cq + u32 (cq_tail cq * n_cqe_size n)))
      else nvme_discontig (cq_prp_list cq) (cq_tail cq) (n_page_size n) (n_cqe_size n))"

definition cqe_of :: "NvmeCQueue \<Rightarrow> NvmeSQueue \<Rightarrow> NvmeRequest \<Rightarrow> NvmeCqe" where
  "cqe_of cq sq req = \<lparr>cqe_result = rq_result req, cqe_sq_head = u16 (sq_head sq), cqe_sq_id = sq_sqid sq,
     cqe_cid = rq_cid req, cqe_status = u16 (rq_status req * 2 OR cq_phase cq)\<rparr>"

definition nvme_post_cqe :: "blk_env \<Rightarrow> NvmeCtrl \<Rightarrow> NvmeCQueue \<Rightarrow> NvmeRequest \<Rightarrow> NvmeCtrl option" where
  "nvme_post_cqe env n cq req =
     do {
       sq \<leftarrow> get_sq n (rq_sq req);
       addr \<leftarrow> cqe_addr n cq;
       let req1 = (if n_femu_mode n = FEMU_WHITEBOX_MODE then oc_post_cqe env n req else req);
       n1 \<leftarrow> nvme_addr_write n addr (cqe_bytes (cqe_of cq sq req1));
       Some (put_sq (put_cq n1 (nvme_inc_cq_tail cq)) (sq\<lparr>sq_req_list := sq_req_list sq @ [req1]\<rparr>))
     }"

text \<open>The loop over the waiting requests; every request that is not posted ends it. The first argument is the list.\<close>

fun post_admin_loop :: "blk_env \<Rightarrow> NvmeRequest list \<Rightarrow> int \<Rightarrow> NvmeCtrl \<Rightarrow> NvmeCtrl option" where
  "post_admin_loop env [] cqid n = Some n"
| "post_admin_loop env (req # rs) cqid n =
     do {
       cq \<leftarrow> get_cq n cqid;
       (full, cq1) \<leftarrow> nvme_cq_full n cq;
       (if full then Some (put_cq n cq1)
        else do {
          n1 \<leftarrow> nvme_post_cqe env n (cq1\<lparr>cq_req_list := rs\<rparr>) req;
          post_admin_loop env rs cqid n1
        })
     }"

definition nvme_post_cqes_admin :: "blk_env \<Rightarrow> int \<Rightarrow> NvmeCtrl \<Rightarrow> NvmeCtrl option" where
  "nvme_post_cqes_admin env cqid n =
     do {
       cq \<leftarrow> get_cq n cqid;
       n1 \<leftarrow> post_admin_loop env (cq_req_list cq) cqid n;
       cq1 \<leftarrow> get_cq n1 cqid;
       Some (nvme_isr_notify n1 cq1)
     }"

text \<open>The result has the time \<open>ntt\<close> of the next poll, 0 for the default, and the number \<open>nc\<close> of requests that were posted.\<close>

fun post_io_loop :: "blk_env \<Rightarrow> NvmeRequest list \<Rightarrow> int \<Rightarrow> NvmeCtrl \<Rightarrow> (int \<times> nat \<times> NvmeCtrl) option" where
  "post_io_loop env [] cqid n = Some (0, 0, n)"
| "post_io_loop env (req # rs) cqid n =
     do {
       cq \<leftarrow> get_cq n cqid;
       (full, cq1) \<leftarrow> nvme_cq_full n cq;
       (if full then Some (0, 0, put_cq n cq1)
        else
          let (cur_time, n1) = get_ns (put_cq n cq1)
          in if cq_cqid cq1 \<noteq> 0 \<and> cur_time < rq_expire_time req then Some (rq_expire_time req, 0, n1)
             else do {
               n2 \<leftarrow> nvme_post_cqe env n1 (cq1\<lparr>cq_req_list := rs\<rparr>) req;
               (ntt, nc, n3) \<leftarrow> post_io_loop env rs cqid n2;
               Some (ntt, Suc nc, n3)
             })
     }"

text \<open>\<open>nvme_post_cqes_io\<close> and \<open>nvme_post_cqes\<close> differ in the polling period only.\<close>

definition post_cqes_every :: "int \<Rightarrow> blk_env \<Rightarrow> int \<Rightarrow> NvmeCtrl \<Rightarrow> NvmeCtrl option" where
  "post_cqes_every period env cqid n =
     do {
       cq \<leftarrow> get_cq n cqid;
       (ntt, nc, n1) \<leftarrow> post_io_loop env (cq_req_list cq) cqid n;
       let (due, n2) = (if ntt = 0 then let (t, n2) = get_ns n1 in (t + period, n2) else (ntt, n1));
       cq1 \<leftarrow> get_cq n2 cqid;
       let cq2 = cq1\<lparr>cq_timer := Some due\<rparr>;
       let n3 = put_cq n2 cq2;
       Some (if 0 < nc then nvme_isr_notify n3 cq2 else n3)
     }"

abbreviation (input) CQ_POLLING_PERIOD_NS :: int where "CQ_POLLING_PERIOD_NS \<equiv> 5000"
abbreviation (input) SQ_POLLING_PERIOD_NS :: int where "SQ_POLLING_PERIOD_NS \<equiv> 5000"

definition nvme_post_cqes_io :: "blk_env \<Rightarrow> int \<Rightarrow> NvmeCtrl \<Rightarrow> NvmeCtrl option" where
  "nvme_post_cqes_io = post_cqes_every CQ_POLLING_PERIOD_NS"

definition nvme_post_cqes :: "blk_env \<Rightarrow> int \<Rightarrow> NvmeCtrl \<Rightarrow> NvmeCtrl option" where
  "nvme_post_cqes = post_cqes_every 8000"

subsection \<open>Waiting for completion\<close>

definition nvme_enqueue_req_completion_io :: "NvmeCtrl \<Rightarrow> int \<Rightarrow> NvmeRequest \<Rightarrow> NvmeCtrl option" where
  "nvme_enqueue_req_completion_io n cqid req =
     do {
       cq \<leftarrow> get_cq n cqid;
       sq \<leftarrow> get_sq n (rq_sq req);
       (if cq_cqid cq \<noteq> sq_cqid sq then None
        else do {
          out \<leftarrow> unlink req (sq_out_req_list sq);
          Some (put_cq (put_sq n (sq\<lparr>sq_out_req_list := out\<rparr>))
            (if cq_req_list cq = [] then cq\<lparr>cq_req_list := [req], cq_timer := Some (rq_expire_time req)\<rparr>
             else cq\<lparr>cq_req_list := insert_req req (cq_req_list cq)\<rparr>))
        })
     }"

text \<open>\<open>nvme_enqueue_req_completion_admin\<close> and \<open>nvme_enqueue_req_completion\<close> have the same body.\<close>

definition nvme_enqueue_req_completion :: "NvmeCtrl \<Rightarrow> int \<Rightarrow> NvmeRequest \<Rightarrow> NvmeCtrl option" where
  "nvme_enqueue_req_completion n cqid req =
     do {
       cq \<leftarrow> get_cq n cqid;
       sq \<leftarrow> get_sq n (rq_sq req);
       (if cq_cqid cq \<noteq> sq_cqid sq then None
        else do {
          out \<leftarrow> unlink req (sq_out_req_list sq);
          let (t, n1) = get_ns (put_sq n (sq\<lparr>sq_out_req_list := out\<rparr>));
          Some (put_cq n1 (cq\<lparr>cq_req_list := cq_req_list cq @ [req], cq_timer := Some (t + 500)\<rparr>))
        })
     }"

definition nvme_misc_cb :: "NvmeCtrl \<Rightarrow> NvmeRequest \<Rightarrow> int \<Rightarrow> NvmeCtrl option" where
  "nvme_misc_cb n req ret =
     do {
       sq \<leftarrow> get_sq n (rq_sq req);
       nvme_enqueue_req_completion n (sq_cqid sq) (req\<lparr>rq_status := (if ret = 0 then NVME_SUCCESS else NVME_INTERNAL_DEV_ERROR)\<rparr>)
     }"

subsection \<open>Submission\<close>

definition sqe_addr :: "NvmeCtrl \<Rightarrow> NvmeSQueue \<Rightarrow> int \<Rightarrow> int option" where
  "sqe_addr n sq idx =
     (if sq_contig sq then Some (u64 (sq_dma_addr sq + u32 (idx * n_sqe_size n)))
      else nvme_discontig (sq_prp_list sq) idx (n_page_size n) (n_sqe_size n))"

definition words_of :: "int list \<Rightarrow> NvmeCmd" where
  "words_of bs = map (\<lambda>k. u32 (le_int (take 4 (drop (4 * k) bs)))) [0..<16]"

definition fetch_cmd :: "NvmeCtrl \<Rightarrow> NvmeSQueue \<Rightarrow> int \<Rightarrow> NvmeCmd option" where
  "fetch_cmd n sq idx = do { addr \<leftarrow> sqe_addr n sq idx; bs \<leftarrow> nvme_addr_read n addr 64; Some (words_of bs) }"

text \<open>The first free request is taken for the command.\<close>

definition take_req :: "NvmeCtrl \<Rightarrow> NvmeSQueue \<Rightarrow> NvmeCmd \<Rightarrow> (NvmeRequest \<times> NvmeCtrl) option" where
  "take_req n sq cmd =
     (case sq_req_list sq of
        [] \<Rightarrow> None
      | req # rs \<Rightarrow>
          let req1 = req\<lparr>rq_result := 0, rq_cid := cmd_cid cmd, rq_aiocb := False, rq_opcode := cmd_opcode cmd\<rparr>
          in Some (req1, put_sq n (sq\<lparr>sq_req_list := rs, sq_out_req_list := sq_out_req_list sq @ [req1]\<rparr>)))"

text \<open>A request that is not completed yet stays outstanding with the fields that the handler gave it.\<close>

definition keep_out :: "NvmeCtrl \<Rightarrow> NvmeRequest \<Rightarrow> NvmeCtrl option" where
  "keep_out n req =
     do {
       sq \<leftarrow> get_sq n (rq_sq req);
       Some (put_sq n (sq\<lparr>sq_out_req_list := map (\<lambda>q. if same_req req q then req else q) (sq_out_req_list sq)\<rparr>))
     }"

definition process_io_one :: "blk_env \<Rightarrow> int \<Rightarrow> NvmeCtrl \<Rightarrow> NvmeCtrl option" where
  "process_io_one env sqid n =
     do {
       sq \<leftarrow> get_sq n sqid;
       cmd \<leftarrow> fetch_cmd n sq (sq_head sq);
       sq1 \<leftarrow> nvme_inc_sq_head sq;
       (if cmd_opcode cmd = NVME_OP_ABORTED then Some (put_sq n sq1)
        else do {
          (req, n1) \<leftarrow> take_req n sq1 cmd;
          (status, req1, n2) \<leftarrow> nvme_io_cmd env n1 cmd req;
          (if status \<noteq> NVME_NO_COMPLETE then nvme_enqueue_req_completion_io n2 (sq_cqid sq) (req1\<lparr>rq_status := status\<rparr>)
           else keep_out n2 req1)
        })
     }"

text \<open>
  The loops of the polling functions. The result is the final value of \<open>processed\<close>: the test increments it once
  more when the burst is used up.
\<close>

fun process_loop :: "(NvmeCtrl \<Rightarrow> NvmeCtrl option) \<Rightarrow> int \<Rightarrow> nat \<Rightarrow> NvmeCtrl \<Rightarrow> (int \<times> NvmeCtrl) option" where
  "process_loop step sqid 0 n =
     do { sq \<leftarrow> get_sq n sqid; Some (if nvme_sq_empty sq \<or> sq_req_list sq = [] then 0 else 1, n) }"
| "process_loop step sqid (Suc k) n =
     do {
       sq \<leftarrow> get_sq n sqid;
       (if nvme_sq_empty sq \<or> sq_req_list sq = [] then Some (0, n)
        else do { n1 \<leftarrow> step n; (p, n2) \<leftarrow> process_loop step sqid k n1; Some (p + 1, n2) })
     }"

definition nvme_process_sq_io :: "blk_env \<Rightarrow> int \<Rightarrow> NvmeCtrl \<Rightarrow> NvmeCtrl option" where
  "nvme_process_sq_io env sqid n =
     do {
       sq0 \<leftarrow> get_sq n sqid;
       sq \<leftarrow> nvme_update_sq_tail n sq0;
       (processed, n1) \<leftarrow> process_loop (process_io_one env sqid) sqid (nat (sq_arb_burst sq)) (put_sq n sq);
       sq1 \<leftarrow> get_sq n1 sqid;
       let (t, n2) = get_ns n1;
       Some (put_sq n2 (sq1\<lparr>sq_completed := u64 (sq_completed sq1 + processed), sq_timer := Some (t + SQ_POLLING_PERIOD_NS)\<rparr>))
     }"

section \<open>Lemmas\<close>


subsection \<open>Access\<close>

lemma get_put_sq:
  assumes "get_sq n i = Some sq0" "sq_sqid sq = i"
  shows "get_sq (put_sq n sq) j = (if j = i then Some sq else get_sq n j)"
  using assms by (auto simp: get_sq_def put_sq_def cread_def split: if_splits bind_splits)

lemma get_put_cq:
  assumes "get_cq n i = Some cq0" "cq_cqid cq = i"
  shows "get_cq (put_cq n cq) j = (if j = i then Some cq else get_cq n j)"
  using assms by (auto simp: get_cq_def put_cq_def cread_def split: if_splits bind_splits)

lemma get_put_other [simp]: "get_cq (put_sq n sq) j = get_cq n j" "get_sq (put_cq n cq) j = get_sq n j"
  by (simp_all add: get_sq_def put_sq_def get_cq_def put_cq_def)

text \<open>The arrays of queues have one entry for each I/O queue and the admin queue.\<close>

definition q_arrays :: "NvmeCtrl \<Rightarrow> bool" where
  "q_arrays n \<longleftrightarrow> int (length (n_sq n)) = n_num_io_queues n + 1 \<and> int (length (n_cq n)) = n_num_io_queues n + 1"

lemma arrays_put [simp]: "n_mqes (put_sq n sq) = n_mqes n" "n_mqes (put_cq n cq) = n_mqes n"
  "q_arrays (put_sq n sq) = q_arrays n" "q_arrays (put_cq n cq) = q_arrays n"
  by (simp_all add: put_sq_def put_cq_def q_arrays_def)

text \<open>The part of the controller that is not about queues.\<close>

definition same_queues :: "NvmeCtrl \<Rightarrow> NvmeCtrl \<Rightarrow> bool" where
  "same_queues n n' \<longleftrightarrow> n_sq n' = n_sq n \<and> n_cq n' = n_cq n \<and> n_mqes n' = n_mqes n \<and> n_num_io_queues n' = n_num_io_queues n"

lemma same_queues_refl [simp]: "same_queues n n"
  by (simp add: same_queues_def)

lemma same_queues_trans: "same_queues n n1 \<Longrightarrow> same_queues n1 n2 \<Longrightarrow> same_queues n n2"
  by (simp add: same_queues_def)

lemma same_queues_get: "same_queues n n' \<Longrightarrow> get_sq n' = get_sq n \<and> get_cq n' = get_cq n"
  by (auto simp: same_queues_def get_sq_def get_cq_def)

lemma same_queues_ns: "get_ns n = (t, n') \<Longrightarrow> same_queues n n'"
  by (auto simp: get_ns_def same_queues_def split: prod.splits)

lemma same_queues_write: "nvme_addr_write n a bs = Some n' \<Longrightarrow> same_queues n n'"
  by (auto simp: nvme_addr_write_def same_queues_def split: if_splits)

subsection \<open>Every request is in one place\<close>

abbreviation (input) req_key :: "NvmeRequest \<Rightarrow> int \<times> nat" where "req_key r \<equiv> (rq_sq r, rq_idx r)"

definition keys :: "NvmeRequest list \<Rightarrow> (int \<times> nat) multiset" where
  "keys rs = mset (map (\<lambda>r. (rq_sq r, rq_idx r)) rs)"

lemma keys_simps [simp]: "keys [] = {#}" "keys (r # rs) = add_mset (rq_sq r, rq_idx r) (keys rs)" "keys (rs @ qs) = keys rs + keys qs"
  by (simp_all add: keys_def)

lemma set_keys: "set_mset (keys rs) = (\<lambda>r. (rq_sq r, rq_idx r)) ` set rs"
  by (simp add: keys_def)

definition sq_inv :: "NvmeCtrl \<Rightarrow> int \<Rightarrow> NvmeSQueue \<Rightarrow> bool" where
  "sq_inv n i sq \<longleftrightarrow> sq_sqid sq = i \<and> sq_contig sq \<and> 0 < sq_size sq \<and> sq_size sq \<le> 2 ^ 16 \<and> 0 \<le> sq_head sq \<and> sq_head sq < sq_size sq \<and>
     (\<exists>cq. get_cq n (sq_cqid sq) = Some cq \<and>
        keys (sq_req_list sq @ sq_out_req_list sq) + filter_mset (\<lambda>k. fst k = i) (keys (cq_req_list cq)) =
        mset (map (Pair i) [0..<nat (sq_size sq)]))"

definition cq_inv :: "int set \<Rightarrow> NvmeCtrl \<Rightarrow> int \<Rightarrow> NvmeCQueue \<Rightarrow> bool" where
  "cq_inv X n c cq \<longleftrightarrow> cq_cqid cq = c \<and> cq_contig cq \<and> 0 < cq_size cq \<and> cq_size cq \<le> 2 ^ 16 \<and> 0 \<le> cq_tail cq \<and> cq_tail cq < cq_size cq \<and>
     (cq_phase cq = 0 \<or> cq_phase cq = 1) \<and>
     (\<forall>r \<in> set (cq_req_list cq). \<exists>sq. get_sq n (rq_sq r) = Some sq \<and> sq_cqid sq = c) \<and>
     (\<forall>i sq. get_sq n i = Some sq \<and> sq_cqid sq = c \<longrightarrow> i \<in> X \<or> i \<in> set (cq_sq_list cq))"

text \<open>
  A queue of 65536 entries would have the size 0 in 16 bits; the device is configured for less. The set \<open>X\<close> has
  the submission queues that are being deleted, which their completion queue does not list any more.
\<close>

definition q_inv :: "int set \<Rightarrow> NvmeCtrl \<Rightarrow> bool" where
  "q_inv X n \<longleftrightarrow> n_mqes n < 65535 \<and> q_arrays n \<and> (\<forall>i sq. get_sq n i = Some sq \<longrightarrow> sq_inv n i sq) \<and> (\<forall>c cq. get_cq n c = Some cq \<longrightarrow> cq_inv X n c cq)"

lemma q_inv_sq: "q_inv X n \<Longrightarrow> get_sq n i = Some sq \<Longrightarrow> sq_inv n i sq"
  and q_inv_cq: "q_inv X n \<Longrightarrow> get_cq n c = Some cq \<Longrightarrow> cq_inv X n c cq"
  by (simp_all add: q_inv_def)

lemma q_inv_cong: "same_queues n n' \<Longrightarrow> q_inv X n' = q_inv X n"
  using same_queues_get [of n n'] by (simp add: q_inv_def sq_inv_def cq_inv_def same_queues_def q_arrays_def)

lemma sq_inv_own:
  assumes "sq_inv n i sq"
  shows "\<forall>r \<in> set (sq_req_list sq @ sq_out_req_list sq). rq_sq r = i"
proof
  fix r assume "r \<in> set (sq_req_list sq @ sq_out_req_list sq)"
  then have "(rq_sq r, rq_idx r) \<in># keys (sq_req_list sq @ sq_out_req_list sq)" unfolding set_keys by blast
  moreover from assms obtain P where "keys (sq_req_list sq @ sq_out_req_list sq) + P = mset (map (Pair i) [0..<nat (sq_size sq)])"
    by (auto simp: sq_inv_def)
  ultimately have "(rq_sq r, rq_idx r) \<in># mset (map (Pair i) [0..<nat (sq_size sq)])" by (metis union_iff)
  then show "rq_sq r = i" by auto
qed

text \<open>
  One submission queue and its completion queue are replaced: the requests of the two together stay, and those
  that the submission queue keeps are its own.
\<close>

definition sq_like :: "NvmeSQueue \<Rightarrow> NvmeSQueue \<Rightarrow> bool" where
  "sq_like sq sq' \<longleftrightarrow> sq_sqid sq' = sq_sqid sq \<and> sq_cqid sq' = sq_cqid sq \<and> sq_size sq' = sq_size sq \<and> sq_contig sq' = sq_contig sq \<and>
     0 \<le> sq_head sq' \<and> sq_head sq' < sq_size sq"

definition cq_like :: "NvmeCQueue \<Rightarrow> NvmeCQueue \<Rightarrow> bool" where
  "cq_like cq cq' \<longleftrightarrow> cq_cqid cq' = cq_cqid cq \<and> cq_size cq' = cq_size cq \<and> cq_contig cq' = cq_contig cq \<and> cq_sq_list cq' = cq_sq_list cq \<and>
     0 \<le> cq_tail cq' \<and> cq_tail cq' < cq_size cq \<and> (cq_phase cq' = 0 \<or> cq_phase cq' = 1)"

lemma q_inv_update:
  assumes inv: "q_inv X n" and sq: "get_sq n i = Some sq" and cq: "get_cq n (sq_cqid sq) = Some cq" and like: "sq_like sq sq'" "cq_like cq cq'"
    and own: "\<forall>r \<in> set (sq_req_list sq' @ sq_out_req_list sq'). rq_sq r = i"
    and moved: "keys (sq_req_list sq' @ sq_out_req_list sq') + keys (cq_req_list cq') =
      keys (sq_req_list sq @ sq_out_req_list sq) + keys (cq_req_list cq)"
  shows "q_inv X (put_cq (put_sq n sq') cq')"
proof -
  let ?n = "put_cq (put_sq n sq') cq'"
  note si = q_inv_sq [OF inv sq] and ci = q_inv_cq [OF inv cq]
  have ids: "sq_sqid sq' = i" "cq_cqid cq' = sq_cqid sq" using si ci like by (simp_all add: sq_inv_def cq_inv_def sq_like_def cq_like_def)
  have gs: "get_sq ?n j = (if j = i then Some sq' else get_sq n j)" for j using get_put_sq [OF sq ids(1)] by simp
  have gc: "get_cq ?n j = (if j = sq_cqid sq then Some cq' else get_cq n j)" for j using get_put_cq [of "put_sq n sq'"] cq ids(2) by simp
  have mine: "filter_mset (\<lambda>k. fst k = j) (keys rs) = (if j = i then keys rs else {#})" if "\<forall>r \<in> set rs. rq_sq r = i" for j rs
    using that by (auto simp: keys_def filter_mset_eq_conv image_iff)
  have part: "filter_mset (\<lambda>k. fst k = j) (keys (sq_req_list sq' @ sq_out_req_list sq')) + filter_mset (\<lambda>k. fst k = j) (keys (cq_req_list cq')) =
      filter_mset (\<lambda>k. fst k = j) (keys (sq_req_list sq @ sq_out_req_list sq)) + filter_mset (\<lambda>k. fst k = j) (keys (cq_req_list cq))" for j
    unfolding filter_union_mset [symmetric] moved ..
  have pend: "filter_mset (\<lambda>k. fst k = j) (keys (cq_req_list cq')) = filter_mset (\<lambda>k. fst k = j) (keys (cq_req_list cq))" if "j \<noteq> i" for j
    using part [of j, unfolded mine [OF own] mine [OF sq_inv_own [OF si]]] that by simp
  have "sq_inv ?n j q" if g: "get_sq ?n j = Some q" for j q
  proof (cases "j = i")
    case True
    then have "q = sq'" using g gs by simp
    then show ?thesis
      using True si like part [of i, unfolded mine [OF own] mine [OF sq_inv_own [OF si]]] cq gc
      by (auto simp: sq_inv_def sq_like_def)
  next
    case False
    then have "sq_inv n j q" using q_inv_sq [OF inv] g gs by simp
    then show ?thesis using pend [OF False] cq gc by (auto simp: sq_inv_def)
  qed
  moreover have "cq_inv X ?n c q" if g: "get_cq ?n c = Some q" for c q
  proof -
    have live: "\<exists>s. get_sq ?n (rq_sq r) = Some s \<and> sq_cqid s = c" if "\<exists>s. get_sq n (rq_sq r) = Some s \<and> sq_cqid s = c" for r
      using that sq like gs by (auto simp: sq_like_def)
    have known: "\<exists>s. get_sq n k = Some s \<and> sq_cqid s = c" if "get_sq ?n k = Some s" "sq_cqid s = c" for k s
      using that sq like gs by (auto simp: sq_like_def split: if_splits)
    show ?thesis
    proof (cases "c = sq_cqid sq")
      case True
      have q: "q = cq'" using True g gc by simp
      have "\<exists>s. get_sq n (rq_sq r) = Some s \<and> sq_cqid s = c" if r: "r \<in> set (cq_req_list cq')" for r
      proof -
        have "(rq_sq r, rq_idx r) \<in># keys (sq_req_list sq' @ sq_out_req_list sq') + keys (cq_req_list cq')" using r by (auto simp: set_keys)
        then have "(rq_sq r, rq_idx r) \<in># keys (sq_req_list sq @ sq_out_req_list sq) + keys (cq_req_list cq)" unfolding moved .
        then have "rq_sq r = i \<or> (\<exists>q \<in> set (cq_req_list cq). rq_sq q = rq_sq r)" using sq_inv_own [OF si] by (auto simp: set_keys)
        then show ?thesis using ci sq True by (fastforce simp: cq_inv_def)
      qed
      then show ?thesis using live known ci like True q by (auto simp: cq_inv_def cq_like_def)
    next
      case False
      then have "cq_inv X n c q" using q_inv_cq [OF inv] g gc by simp
      then show ?thesis using live known unfolding cq_inv_def by blast
    qed
  qed
  ultimately show ?thesis using inv by (simp add: q_inv_def)
qed

lemma unlink_out:
  assumes "list_ex (same_req r) rs" "distinct (map (\<lambda>q. (rq_sq q, rq_idx q)) rs)"
  shows "\<exists>rs'. unlink r rs = Some rs' \<and> keys rs = add_mset (rq_sq r, rq_idx r) (keys rs') \<and> set rs' \<subseteq> set rs"
  using assms
proof (induction rs)
  case (Cons q rs)
  show ?case
  proof (cases "same_req r q")
    case True
    then have "\<forall>p \<in> set rs. \<not> same_req r p" using Cons.prems(2) by (auto simp: same_req_def)
    then show ?thesis using True by (auto simp: unlink_def same_req_def filter_id_conv)
  next
    case False
    then obtain rs' where "unlink r rs = Some rs'" "keys rs = add_mset (rq_sq r, rq_idx r) (keys rs')" "set rs' \<subseteq> set rs"
      using Cons by auto
    then show ?thesis using False by (auto simp: unlink_def split: if_splits)
  qed
qed simp

lemma keys_insert_req [simp]: "keys (insert_req r rs) = add_mset (rq_sq r, rq_idx r) (keys rs)"
  by (induction rs) auto

lemma sq_inv_distinct:
  assumes "sq_inv n i sq"
  shows "distinct (map (\<lambda>q. (rq_sq q, rq_idx q)) (sq_req_list sq @ sq_out_req_list sq))"
proof -
  from assms obtain P where p: "keys (sq_req_list sq @ sq_out_req_list sq) + P = mset (map (Pair i) [0..<nat (sq_size sq)])"
    by (auto simp: sq_inv_def)
  have d: "distinct (map (Pair i) [0..<nat (sq_size sq)])" by (simp add: distinct_map inj_on_def)
  obtain ps where "mset ps = P" using ex_mset by blast
  then have "mset (map (\<lambda>q. (rq_sq q, rq_idx q)) (sq_req_list sq @ sq_out_req_list sq) @ ps) = mset (map (Pair i) [0..<nat (sq_size sq)])"
    using p by (simp only: keys_def mset_append)
  from mset_eq_imp_distinct_iff [OF this] d show ?thesis by (simp only: distinct_append simp_thms)
qed

text \<open>Enqueueing moves an outstanding request to the completion queue.\<close>

lemma enqueue_io_ok:
  assumes "q_inv X n" "get_sq n (rq_sq req) = Some sq" "list_ex (same_req req) (sq_out_req_list sq)" "c = sq_cqid sq"
  shows "\<exists>n'. nvme_enqueue_req_completion_io n c req = Some n' \<and> q_inv X n'"
proof -
  note si = q_inv_sq [OF assms(1,2)]
  obtain cq where cq: "get_cq n (sq_cqid sq) = Some cq" using si by (auto simp: sq_inv_def)
  note ci = q_inv_cq [OF assms(1) cq]
  have "distinct (map (\<lambda>q. (rq_sq q, rq_idx q)) (sq_out_req_list sq))" using sq_inv_distinct [OF si] by simp
  from unlink_out [OF assms(3) this] obtain out where
    o: "unlink req (sq_out_req_list sq) = Some out" "keys (sq_out_req_list sq) = add_mset (rq_sq req, rq_idx req) (keys out)" "set out \<subseteq> set (sq_out_req_list sq)"
    by blast
  let ?cq = "if cq_req_list cq = [] then cq\<lparr>cq_req_list := [req], cq_timer := Some (rq_expire_time req)\<rparr>
    else cq\<lparr>cq_req_list := insert_req req (cq_req_list cq)\<rparr>"
  have "nvme_enqueue_req_completion_io n c req = Some (put_cq (put_sq n (sq\<lparr>sq_out_req_list := out\<rparr>)) ?cq)"
    using assms(2,4) cq o(1) ci by (simp add: nvme_enqueue_req_completion_io_def cq_inv_def)
  moreover have "q_inv X (put_cq (put_sq n (sq\<lparr>sq_out_req_list := out\<rparr>)) ?cq)"
    using si ci o sq_inv_own [OF si]
    by (intro q_inv_update [OF assms(1,2) cq]) (auto simp: sq_like_def cq_like_def sq_inv_def cq_inv_def)
  ultimately show ?thesis by blast
qed

subsection \<open>The ring of a completion queue\<close>

definition cqe_slot :: "NvmeCtrl \<Rightarrow> NvmeCQueue \<Rightarrow> nat \<Rightarrow> int" where
  "cqe_slot n cq j = cq_dma_addr cq + ((cq_tail cq + int j) mod cq_size cq) * n_cqe_size n"

definition phase_at :: "NvmeCQueue \<Rightarrow> nat \<Rightarrow> int" where
  "phase_at cq j = (if cq_tail cq + int j < cq_size cq then cq_phase cq else 1 - cq_phase cq)"

text \<open>The entry for the \<open>j\<close>-th waiting request.\<close>

definition cqe_entry :: "NvmeCtrl \<Rightarrow> NvmeCQueue \<Rightarrow> nat \<Rightarrow> NvmeCqe" where
  "cqe_entry n cq j =
     (let req = cq_req_list cq ! j
      in \<lparr>cqe_result = rq_result req, cqe_sq_head = u16 (case get_sq n (rq_sq req) of Some sq \<Rightarrow> sq_head sq | None \<Rightarrow> 0),
          cqe_sq_id = rq_sq req, cqe_cid = rq_cid req, cqe_status = u16 (rq_status req * 2 OR phase_at cq j)\<rparr>)"

definition head_of :: "NvmeCtrl \<Rightarrow> NvmeCQueue \<Rightarrow> int" where
  "head_of n cq = (if cq_db_addr cq = 0 then cq_head cq else le_int (bytes_at (n_mem n) (cq_db_addr cq) 4))"

definition ring_room :: "NvmeCtrl \<Rightarrow> NvmeCQueue \<Rightarrow> int" where
  "ring_room n cq = (head_of n cq - cq_tail cq - 1) mod cq_size cq"

text \<open>
  The ring lies in guest memory, the guest's copy of the head is not inside it, and the head is an index of
  the ring. The controller runs as a black box.
\<close>

definition ring_ok :: "NvmeCtrl \<Rightarrow> NvmeCQueue \<Rightarrow> bool" where
  "ring_ok n cq \<longleftrightarrow> n_femu_mode n \<noteq> FEMU_WHITEBOX_MODE \<and> n_cmbsz n = 0 \<and> 16 \<le> n_cqe_size n \<and> n_cqe_size n < 2 ^ 16 \<and>
     0 \<le> cq_dma_addr cq \<and> cq_dma_addr cq + cq_size cq * n_cqe_size n \<le> 2 ^ 64 \<and>
     (cq_db_addr cq = 0 \<or> cq_db_addr cq + 4 \<le> cq_dma_addr cq \<or> cq_dma_addr cq + cq_size cq * n_cqe_size n \<le> cq_db_addr cq) \<and>
     0 \<le> head_of n cq \<and> head_of n cq < cq_size cq"

definition ticks_of :: "NvmeCtrl \<Rightarrow> nat" where
  "ticks_of n = ticks (devtime (n_ssd n))"

definition clock_of :: "NvmeCtrl \<Rightarrow> nat \<Rightarrow> int" where
  "clock_of n = clock (devtime (n_ssd n)) REALTIME_NS"

lemma get_ns_clock: "get_ns n = (clock_of n (ticks_of n), n\<lparr>n_ssd := snd (read_clock REALTIME_NS (n_ssd n))\<rparr>)"
  by (simp add: get_ns_def read_clock_def clock_of_def ticks_of_def)

lemma ticks_of_ns: "ticks_of (n\<lparr>n_ssd := snd (read_clock REALTIME_NS (n_ssd n))\<rparr>) = Suc (ticks_of n)"
  "clock_of (n\<lparr>n_ssd := snd (read_clock REALTIME_NS (n_ssd n))\<rparr>) = clock_of n"
  by (simp_all add: read_clock_def clock_of_def ticks_of_def)

lemma inc_cq_tail:
  assumes "0 \<le> cq_tail cq" "cq_tail cq < cq_size cq" "cq_size cq \<le> 2 ^ 16" "cq_phase cq = 0 \<or> cq_phase cq = 1"
  shows "nvme_inc_cq_tail cq = cq\<lparr>cq_tail := (cq_tail cq + 1) mod cq_size cq, cq_phase := phase_at cq 1\<rparr>"
proof -
  have u: "u32 (cq_tail cq + 1) = cq_tail cq + 1" using assms by (simp add: u32_def)
  show ?thesis
  proof (cases "cq_tail cq + 1 < cq_size cq")
    case True
    then show ?thesis using assms by (simp add: nvme_inc_cq_tail_def u Let_def phase_at_def)
  next
    case False
    then have "cq_size cq = cq_tail cq + 1" using assms(2) by linarith
    then show ?thesis using assms by (auto simp: nvme_inc_cq_tail_def u Let_def phase_at_def)
  qed
qed

lemma cq_full_iff:
  assumes "cq_inv X n c cq" "ring_ok n cq"
  shows "nvme_cq_full n cq = Some (ring_room n cq = 0, cq\<lparr>cq_head := head_of n cq\<rparr>)"
proof -
  have b: "0 < cq_size cq" "cq_size cq \<le> 2 ^ 16" "0 \<le> cq_tail cq" "cq_tail cq < cq_size cq" "0 \<le> head_of n cq" "head_of n cq < cq_size cq" "n_cmbsz n = 0"
    using assms by (simp_all add: cq_inv_def ring_ok_def)
  have u: "u32 (cq_tail cq + 1) = cq_tail cq + 1" using b by (simp add: u32_def)
  have h: "nvme_update_cq_head n cq = Some (cq\<lparr>cq_head := head_of n cq\<rparr>)"
    using b(7) by (simp add: nvme_update_cq_head_def head_of_def nvme_addr_read_def in_cmb_def)
  have "(cq_tail cq + 1) mod cq_size cq = head_of n cq \<longleftrightarrow> (cq_tail cq + 1) mod cq_size cq = head_of n cq mod cq_size cq"
    using b by simp
  also have "\<dots> \<longleftrightarrow> (head_of n cq - (cq_tail cq + 1)) mod cq_size cq = 0"
    by (metis mod_eq_dvd_iff mod_0_imp_dvd dvd_imp_mod_0)
  finally show ?thesis using b(1) by (simp add: nvme_cq_full_def h u ring_room_def diff_diff_eq)
qed

subsection \<open>Posting\<close>

lemma length_le_bytes [simp]: "length (le_bytes k x) = k"
  by (induction k arbitrary: x) auto

lemma length_cqe_bytes [simp]: "length (cqe_bytes e) = 16"
  by (simp add: cqe_bytes_def)

lemma put_sq_cq: "put_sq (put_cq n cq) sq = put_cq (put_sq n sq) cq"
  by (simp add: put_sq_def put_cq_def)

lemma cqe_addr_slot:
  assumes "cq_inv X n c cq" "ring_ok n cq"
  shows "cqe_addr n cq = Some (cqe_slot n cq 0)"
proof -
  have b: "0 < cq_size cq" "cq_size cq \<le> 2 ^ 16" "0 \<le> cq_tail cq" "cq_tail cq < cq_size cq" "cq_contig cq" "16 \<le> n_cqe_size n" "n_cqe_size n < 2 ^ 16"
    "0 \<le> cq_dma_addr cq" "cq_dma_addr cq + cq_size cq * n_cqe_size n \<le> 2 ^ 64"
    using assms by (simp_all add: cq_inv_def ring_ok_def)
  have m: "(cq_tail cq + 1) * n_cqe_size n \<le> cq_size cq * n_cqe_size n" "cq_size cq * n_cqe_size n \<le> 65536 * n_cqe_size n"
    using b by (intro mult_right_mono; simp)+
  have z: "n_cqe_size n < 65536" using b(7) by simp
  have "cq_tail cq * n_cqe_size n + n_cqe_size n \<le> cq_size cq * n_cqe_size n" using m(1) by (simp add: distrib_right)
  moreover have "cq_size cq * n_cqe_size n < 4294967296" using m(2) z by linarith
  moreover have "0 \<le> cq_tail cq * n_cqe_size n" using b by simp
  ultimately have "u32 (cq_tail cq * n_cqe_size n) = cq_tail cq * n_cqe_size n"
    "u64 (cq_dma_addr cq + cq_tail cq * n_cqe_size n) = cq_dma_addr cq + cq_tail cq * n_cqe_size n"
    using b by (simp_all add: u32_def u64_def)
  then show ?thesis using b by (simp add: cqe_addr_def cqe_slot_def)
qed

text \<open>Posting the first waiting request.\<close>

lemma post_cqe_ok:
  assumes inv: "q_inv X n" and cq: "get_cq n c = Some cq" and ring: "ring_ok n cq" and first: "cq_req_list cq = req # rs"
  defines "cq' \<equiv> cq\<lparr>cq_tail := (cq_tail cq + 1) mod cq_size cq, cq_phase := phase_at cq 1, cq_req_list := rs\<rparr>"
  shows "\<exists>sq n'. get_sq n (rq_sq req) = Some sq \<and> nvme_post_cqe env n (cq\<lparr>cq_req_list := rs\<rparr>) req = Some n' \<and> q_inv X n' \<and>
    n' = put_cq (put_sq (n\<lparr>n_mem := store (n_mem n) (cqe_slot n cq 0) (cqe_bytes (cqe_entry n cq 0))\<rparr>)
      (sq\<lparr>sq_req_list := sq_req_list sq @ [req]\<rparr>)) cq'"
proof -
  note ci = q_inv_cq [OF inv cq]
  obtain sq where sq: "get_sq n (rq_sq req) = Some sq" "sq_cqid sq = c" using ci first by (auto simp: cq_inv_def)
  note si = q_inv_sq [OF inv sq(1)]
  let ?cq = "cq\<lparr>cq_req_list := rs\<rparr>" and ?m = "store (n_mem n) (cqe_slot n cq 0) (cqe_bytes (cqe_entry n cq 0))"
  let ?sq = "sq\<lparr>sq_req_list := sq_req_list sq @ [req]\<rparr>"
  have b: "0 \<le> cq_tail ?cq" "cq_tail ?cq < cq_size ?cq" "cq_size ?cq \<le> 2 ^ 16" "cq_phase ?cq = 0 \<or> cq_phase ?cq = 1"
    using ci by (simp_all add: cq_inv_def)
  have "nvme_inc_cq_tail ?cq = cq'" unfolding inc_cq_tail [OF b] by (simp add: cq'_def phase_at_def)
  moreover have "cqe_addr n ?cq = Some (cqe_slot n cq 0)" using cqe_addr_slot [OF ci ring] by (auto simp: cqe_addr_def split: if_splits)
  moreover have "cqe_of ?cq sq req = cqe_entry n cq 0"
    using sq(1) si b by (auto simp: cqe_of_def cqe_entry_def first phase_at_def sq_inv_def Let_def)
  ultimately have "nvme_post_cqe env n ?cq req = Some (put_cq (put_sq (n\<lparr>n_mem := ?m\<rparr>) ?sq) cq')"
    using ring sq(1) by (simp add: nvme_post_cqe_def ring_ok_def nvme_addr_write_def in_cmb_def put_sq_cq Let_def)
  moreover have "q_inv X (put_cq (put_sq (n\<lparr>n_mem := ?m\<rparr>) ?sq) cq')"
  proof (rule q_inv_update)
    have same: "same_queues n (n\<lparr>n_mem := ?m\<rparr>)" by (simp add: same_queues_def)
    show "q_inv X (n\<lparr>n_mem := ?m\<rparr>)" using inv q_inv_cong [OF same] by simp
    show "get_sq (n\<lparr>n_mem := ?m\<rparr>) (rq_sq req) = Some sq" "get_cq (n\<lparr>n_mem := ?m\<rparr>) (sq_cqid sq) = Some cq"
      using sq cq same_queues_get [OF same] by simp_all
    show "sq_like sq ?sq" using si by (simp add: sq_like_def sq_inv_def)
    show "cq_like cq cq'" using ci by (auto simp: cq_like_def cq_inv_def cq'_def phase_at_def)
    show "\<forall>r \<in> set (sq_req_list ?sq @ sq_out_req_list ?sq). rq_sq r = rq_sq req" using sq_inv_own [OF si] by simp
    show "keys (sq_req_list ?sq @ sq_out_req_list ?sq) + keys (cq_req_list cq') = keys (sq_req_list sq @ sq_out_req_list sq) + keys (cq_req_list cq)"
      by (simp add: cq'_def first)
  qed
  ultimately show ?thesis using sq(1) by blast
qed

lemma cqe_slot_apart:
  assumes "cq_inv X n c cq" "ring_ok n cq" "i \<noteq> j" "int i < cq_size cq" "int j < cq_size cq"
  shows "cqe_slot n cq i + 16 \<le> cqe_slot n cq j \<or> cqe_slot n cq j + 16 \<le> cqe_slot n cq i"
proof -
  let ?s = "cq_size cq" and ?z = "n_cqe_size n"
  define x y where "x = (cq_tail cq + int i) mod ?s" and "y = (cq_tail cq + int j) mod ?s"
  have z: "16 \<le> ?z" using assms(2) by (simp add: ring_ok_def)
  have "x \<noteq> y"
  proof
    assume "x = y"
    then have "?s dvd int i - int j" by (simp add: x_def y_def mod_eq_dvd_iff)
    then show False using assms(3-5) zdvd_imp_le [of ?s "int i - int j"] zdvd_imp_le [of ?s "int j - int i"]
      by (cases "i < j") (auto simp: dvd_diff_commute)
  qed
  then have "x + 1 \<le> y \<or> y + 1 \<le> x" by linarith
  then have "(x + 1) * ?z \<le> y * ?z \<or> (y + 1) * ?z \<le> x * ?z" using z by (auto intro: mult_right_mono)
  then show ?thesis using z by (auto simp: cqe_slot_def x_def [symmetric] y_def [symmetric] distrib_right)
qed

lemma cqe_slot_range:
  assumes "cq_inv X n c cq" "ring_ok n cq"
  shows "cq_dma_addr cq \<le> cqe_slot n cq j" "cqe_slot n cq j + 16 \<le> cq_dma_addr cq + cq_size cq * n_cqe_size n"
proof -
  define x where "x = (cq_tail cq + int j) mod cq_size cq"
  have x: "0 \<le> x" "x < cq_size cq" "16 \<le> n_cqe_size n" using assms by (simp_all add: x_def cq_inv_def ring_ok_def)
  then have "(x + 1) * n_cqe_size n \<le> cq_size cq * n_cqe_size n" "0 \<le> x * n_cqe_size n" by (auto intro: mult_right_mono)
  then show "cq_dma_addr cq \<le> cqe_slot n cq j" "cqe_slot n cq j + 16 \<le> cq_dma_addr cq + cq_size cq * n_cqe_size n"
    using x(3) by (simp_all add: cqe_slot_def x_def [symmetric] distrib_right)
qed

text \<open>The controller after the first request was posted: the ring is one entry further.\<close>

lemma post_step:
  assumes inv: "q_inv X n" and cq: "get_cq n c = Some cq" and ring: "ring_ok n cq" and room: "ring_room n cq \<noteq> 0" and sq: "get_sq n (rq_sq req) = Some sq"
    and first: "cq_req_list cq = req # rs"
  defines "n' \<equiv> put_cq (put_sq (n\<lparr>n_mem := store (n_mem n) (cqe_slot n cq 0) (cqe_bytes (cqe_entry n cq 0))\<rparr>)
      (sq\<lparr>sq_req_list := sq_req_list sq @ [req]\<rparr>)) (cq\<lparr>cq_tail := (cq_tail cq + 1) mod cq_size cq, cq_phase := phase_at cq 1, cq_req_list := rs\<rparr>)"
    and "cq' \<equiv> cq\<lparr>cq_tail := (cq_tail cq + 1) mod cq_size cq, cq_phase := phase_at cq 1, cq_req_list := rs\<rparr>"
  shows "get_cq n' c = Some cq'" "ring_ok n' cq'" "ring_room n' cq' = ring_room n cq - 1"
    "cqe_slot n' cq' j = cqe_slot n cq (Suc j)"
    "int j < cq_size cq \<Longrightarrow> phase_at cq' j = phase_at cq (Suc j)"
    "int j < cq_size cq \<Longrightarrow> j < length rs \<Longrightarrow> cqe_entry n' cq' j = cqe_entry n cq (Suc j)"
proof -
  note ci = q_inv_cq [OF inv cq] and si = q_inv_sq [OF inv sq]
  have b: "0 < cq_size cq" "cq_size cq \<le> 2 ^ 16" "0 \<le> cq_tail cq" "cq_tail cq < cq_size cq" "cq_cqid cq = c" "sq_sqid sq = rq_sq req"
    using ci si by (simp_all add: cq_inv_def sq_inv_def)
  have gc: "get_cq (put_sq (n\<lparr>n_mem := m\<rparr>) q) c = Some cq" for m q using cq by (simp add: get_cq_def put_sq_def)
  show "get_cq n' c = Some cq'" using get_put_cq [OF gc, of cq'] b(5) by (simp add: n'_def cq'_def)
  have gs: "get_sq n' i = (if i = rq_sq req then Some (sq\<lparr>sq_req_list := sq_req_list sq @ [req]\<rparr>) else get_sq n i)" for i
  proof -
    have "get_sq (n\<lparr>n_mem := m\<rparr>) i = get_sq n i" for m i by (simp add: get_sq_def)
    then show ?thesis using get_put_sq [of "n\<lparr>n_mem := m\<rparr>" for m] sq b(6) by (simp add: n'_def)
  qed
  have p: "n_femu_mode n' = n_femu_mode n" "n_cmbsz n' = n_cmbsz n" "n_cqe_size n' = n_cqe_size n"
    "n_mem n' = store (n_mem n) (cqe_slot n cq 0) (cqe_bytes (cqe_entry n cq 0))"
    by (simp_all add: n'_def put_cq_def put_sq_def)
  have hd: "head_of n' cq' = head_of n cq" if "cq_db_addr cq = 0 \<longrightarrow> cq_head cq = head_of n cq"
  proof (cases "cq_db_addr cq = 0")
    case False
    then have "cq_db_addr cq + 4 \<le> cqe_slot n cq 0 \<or> cqe_slot n cq 0 + 16 \<le> cq_db_addr cq"
      using ring cqe_slot_range [OF ci ring, of 0] unfolding ring_ok_def by linarith
    then show ?thesis using False by (simp add: head_of_def cq'_def p bytes_at_store_other)
  qed (simp add: head_of_def cq'_def)
  have h: "head_of n' cq' = head_of n cq" by (rule hd) (simp add: head_of_def)
  show "ring_ok n' cq'" using ring unfolding ring_ok_def h p by (simp add: cq'_def)
  have f: "0 \<le> ring_room n cq" "ring_room n cq < cq_size cq" using b(1) by (simp_all add: ring_room_def)
  have "(head_of n cq - (cq_tail cq + 1) mod cq_size cq - 1) mod cq_size cq = (ring_room n cq - 1) mod cq_size cq"
    using mod_diff_right_eq [of "head_of n cq - 1" "cq_tail cq + 1" "cq_size cq"] mod_diff_left_eq [of "head_of n cq - cq_tail cq - 1" "cq_size cq" 1]
    unfolding ring_room_def by (simp add: algebra_simps)
  also have "\<dots> = ring_room n cq - 1" using f room by simp
  finally show "ring_room n' cq' = ring_room n cq - 1" unfolding ring_room_def h by (simp add: cq'_def)
  show "cqe_slot n' cq' j = cqe_slot n cq (Suc j)" by (simp add: cqe_slot_def p cq'_def mod_simps algebra_simps)
  show ph: "phase_at cq' j = phase_at cq (Suc j)" if "int j < cq_size cq"
  proof (cases "cq_tail cq + 1 < cq_size cq")
    case True
    then show ?thesis using b by (simp add: phase_at_def cq'_def algebra_simps)
  next
    case False
    then have "cq_size cq = cq_tail cq + 1" using b(4) by linarith
    then show ?thesis using that by (simp add: phase_at_def cq'_def)
  qed
  show "cqe_entry n' cq' j = cqe_entry n cq (Suc j)" if "int j < cq_size cq" "j < length rs"
    using ph [OF that(1)] gs sq by (auto simp: cqe_entry_def first cq'_def Let_def)
qed

definition post_result :: "int set \<Rightarrow> NvmeCtrl \<Rightarrow> int \<Rightarrow> NvmeCQueue \<Rightarrow> nat \<Rightarrow> NvmeCtrl \<Rightarrow> bool" where
  "post_result X n c cq k n' \<longleftrightarrow> q_inv X n' \<and>
     (\<exists>h. get_cq n' c = Some (cq\<lparr>cq_head := h, cq_tail := (cq_tail cq + int k) mod cq_size cq, cq_phase := phase_at cq k,
        cq_req_list := drop k (cq_req_list cq)\<rparr>)) \<and>
     (\<forall>j < k. bytes_at (n_mem n') (cqe_slot n cq j) 16 = cqe_bytes (cqe_entry n cq j)) \<and>
     (\<forall>a. (\<forall>j < k. a < cqe_slot n cq j \<or> cqe_slot n cq j + 16 \<le> a) \<longrightarrow> n_mem n' a = n_mem n a) \<and>
     n_heap n' = n_heap n \<and> n_notified n' = n_notified n \<and> same_but_time (n_ssd n) (n_ssd n') \<and> clock_of n' = clock_of n"

text \<open>When the loop stops: nothing waits any more, the ring is full, or the next request is not due.\<close>

definition post_stops :: "NvmeCtrl \<Rightarrow> NvmeCQueue \<Rightarrow> nat \<Rightarrow> int \<Rightarrow> bool" where
  "post_stops n cq k ntt \<longleftrightarrow> int k \<le> ring_room n cq \<and> k \<le> length (cq_req_list cq) \<and>
     (\<forall>j < k. rq_expire_time (cq_req_list cq ! j) \<le> clock_of n (ticks_of n + j)) \<and>
     (k = length (cq_req_list cq) \<and> ntt = 0 \<or> int k = ring_room n cq \<and> ntt = 0 \<or>
      k < length (cq_req_list cq) \<and> clock_of n (ticks_of n + k) < rq_expire_time (cq_req_list cq ! k) \<and> ntt = rq_expire_time (cq_req_list cq ! k))"

lemma post_result_trans:
  assumes inv: "q_inv X n" and cq: "get_cq n c = Some cq" and ring: "ring_ok n cq" and room: "ring_room n cq \<noteq> 0" and sq: "get_sq n (rq_sq req) = Some sq"
    and first: "cq_req_list cq = req # rs"
  defines "n' \<equiv> put_cq (put_sq (n\<lparr>n_mem := store (n_mem n) (cqe_slot n cq 0) (cqe_bytes (cqe_entry n cq 0))\<rparr>)
      (sq\<lparr>sq_req_list := sq_req_list sq @ [req]\<rparr>)) (cq\<lparr>cq_tail := (cq_tail cq + 1) mod cq_size cq, cq_phase := phase_at cq 1, cq_req_list := rs\<rparr>)"
    and "cq' \<equiv> cq\<lparr>cq_tail := (cq_tail cq + 1) mod cq_size cq, cq_phase := phase_at cq 1, cq_req_list := rs\<rparr>"
  assumes res: "post_result X n' c cq' k n2" and k: "int k \<le> ring_room n' cq'" "k \<le> length rs"
  shows "post_result X n c cq (Suc k) n2"
proof -
  note ci = q_inv_cq [OF inv cq]
  note st = post_step [OF inv cq ring room sq first, folded n'_def cq'_def]
  have sz: "0 < cq_size cq" using ci by (simp add: cq_inv_def)
  have "ring_room n cq < cq_size cq" using sz by (simp add: ring_room_def)
  then have lt: "int k < cq_size cq - 1" using k(1) st(3) by linarith
  have mem: "n_mem n' = store (n_mem n) (cqe_slot n cq 0) (cqe_bytes (cqe_entry n cq 0))" by (simp add: n'_def put_cq_def put_sq_def)
  have out: "n_mem n2 a = n_mem n a" if "\<forall>j < Suc k. a < cqe_slot n cq j \<or> cqe_slot n cq j + 16 \<le> a" for a
  proof -
    have "n_mem n2 a = n_mem n' a" using res that st(4) by (simp add: post_result_def)
    also have "\<dots> = n_mem n a" using that by (auto simp: mem store_def)
    finally show ?thesis .
  qed
  have ent: "bytes_at (n_mem n2) (cqe_slot n cq j) 16 = cqe_bytes (cqe_entry n cq j)" if "j < Suc k" for j
  proof (cases j)
    case 0
    have "bytes_at (n_mem n2) (cqe_slot n cq 0) 16 = bytes_at (n_mem n') (cqe_slot n cq 0) 16"
    proof (rule bytes_at_cong)
      fix x assume x: "cqe_slot n cq 0 \<le> x" "x < cqe_slot n cq 0 + 16"
      have "x < cqe_slot n' cq' i \<or> cqe_slot n' cq' i + 16 \<le> x" if "i < k" for i
        using cqe_slot_apart [OF ci ring, of 0 "Suc i"] that lt sz x unfolding st(4) by linarith
      then show "n_mem n2 x = n_mem n' x" using res by (simp add: post_result_def)
    qed
    then show ?thesis using 0 by (simp add: mem bytes_at_store)
  next
    case (Suc i)
    then show ?thesis using res that st(4) st(6) [of i] lt k(2) by (simp add: post_result_def)
  qed
  have q: "((cq_tail cq + 1) mod cq_size cq + int k) mod cq_size cq = (cq_tail cq + int (Suc k)) mod cq_size cq"
    by (simp add: mod_simps algebra_simps)
  obtain h where "get_cq n2 c = Some (cq'\<lparr>cq_head := h, cq_tail := (cq_tail cq' + int k) mod cq_size cq', cq_phase := phase_at cq' k,
      cq_req_list := drop k (cq_req_list cq')\<rparr>)" using res by (auto simp: post_result_def)
  then have "get_cq n2 c = Some (cq\<lparr>cq_head := h, cq_tail := (cq_tail cq + int (Suc k)) mod cq_size cq, cq_phase := phase_at cq (Suc k),
      cq_req_list := drop (Suc k) (cq_req_list cq)\<rparr>)" using st(5) [of k] lt q first by (simp add: cq'_def)
  moreover have "n_heap n' = n_heap n" "n_ssd n' = n_ssd n" "n_notified n' = n_notified n" by (simp_all add: n'_def put_cq_def put_sq_def)
  ultimately show ?thesis using res out ent unfolding post_result_def by (auto simp: clock_of_def)
qed

lemma q_inv_put_cq:
  assumes inv: "q_inv X n" and cq: "get_cq n c = Some cq" and like: "cq_like cq cq'" "cq_req_list cq' = cq_req_list cq"
  shows "q_inv X (put_cq n cq')"
proof -
  note ci = q_inv_cq [OF inv cq]
  have id: "cq_cqid cq' = c" using ci like(1) by (simp add: cq_inv_def cq_like_def)
  have gc: "get_cq (put_cq n cq') j = (if j = c then Some cq' else get_cq n j)" for j by (rule get_put_cq [OF cq id])
  have "sq_inv (put_cq n cq') i sq" if "get_sq n i = Some sq" for i sq
    using q_inv_sq [OF inv that] cq like(2) by (auto simp: sq_inv_def gc)
  moreover have "cq_inv X (put_cq n cq') j q" if "get_cq (put_cq n cq') j = Some q" for j q
    using q_inv_cq [OF inv, of j] ci that like by (auto simp: cq_inv_def cq_like_def gc split: if_splits)
  ultimately show ?thesis using inv by (simp add: q_inv_def)
qed

text \<open>The controller after the head was read and the clock was read \<open>b\<close> times.\<close>

lemma post_poll:
  assumes inv: "q_inv X n" and cq: "get_cq n c = Some cq" and ring: "ring_ok n cq"
  defines "cq1 \<equiv> cq\<lparr>cq_head := head_of n cq\<rparr>"
  assumes n1: "n1 = put_cq n cq1 \<or> n1 = (put_cq n cq1)\<lparr>n_ssd := snd (read_clock REALTIME_NS (n_ssd (put_cq n cq1)))\<rparr>"
  shows "q_inv X n1" "get_cq n1 c = Some cq1" "ring_ok n1 cq1" "ring_room n1 cq1 = ring_room n cq" "clock_of n1 = clock_of n"
    "post_result X n1 c cq1 k n' \<Longrightarrow> post_result X n c cq k n'"
proof -
  note ci = q_inv_cq [OF inv cq]
  have like: "cq_like cq cq1" "cq_req_list cq1 = cq_req_list cq" using ci by (simp_all add: cq_like_def cq_inv_def cq1_def)
  have same: "same_queues (put_cq n cq1) n1" using n1 by (auto simp: same_queues_def)
  show "q_inv X n1" using q_inv_put_cq [OF inv cq like] q_inv_cong [OF same] by simp
  have id: "cq_cqid cq1 = c" using ci by (simp add: cq_inv_def cq1_def)
  show "get_cq n1 c = Some cq1" using get_put_cq [OF cq id] same_queues_get [OF same] by simp
  have p: "n_mem n1 = n_mem n" "n_femu_mode n1 = n_femu_mode n" "n_cmbsz n1 = n_cmbsz n" "n_cqe_size n1 = n_cqe_size n" "n_heap n1 = n_heap n"
    "n_notified n1 = n_notified n"
    using n1 by (auto simp: put_cq_def)
  have h: "head_of n1 cq1 = head_of n cq" by (simp add: head_of_def cq1_def p)
  show "ring_ok n1 cq1" using ring unfolding ring_ok_def h p by (simp add: cq1_def)
  show "ring_room n1 cq1 = ring_room n cq" unfolding ring_room_def h by (simp add: cq1_def)
  show cl: "clock_of n1 = clock_of n" using n1 by (auto simp: clock_of_def put_cq_def read_clock_def)
  have s: "same_but_time (n_ssd n) (n_ssd n1)" using n1 by (auto simp: put_cq_def)
  have gs: "get_sq n1 i = get_sq n i" for i using same_queues_get [OF same] by simp
  have "cqe_slot n1 cq1 j = cqe_slot n cq j" "phase_at cq1 j = phase_at cq j" for j by (simp_all add: cqe_slot_def phase_at_def cq1_def p)
  moreover from this have "cqe_entry n1 cq1 j = cqe_entry n cq j" for j by (simp add: cqe_entry_def gs) (simp add: cq1_def)
  ultimately show "post_result X n c cq k n'" if "post_result X n1 c cq1 k n'"
    using that s same_but_time_trans [of "n_ssd n" "n_ssd n1" "n_ssd n'"] unfolding post_result_def cl p by (auto simp: cq1_def)
qed

lemma post_result_0:
  assumes "q_inv X n" "get_cq n c = Some cq"
  shows "post_result X n c cq 0 n"
  using assms q_inv_cq [OF assms] by (auto simp: post_result_def phase_at_def cq_inv_def intro!: exI [of _ "cq_head cq"])

lemma post_io_loop_ok:
  assumes "q_inv X n" "get_cq n c = Some cq" "c \<noteq> 0" "ring_ok n cq" "cq_req_list cq = rs"
  shows "\<exists>ntt k n'. post_io_loop env rs c n = Some (ntt, k, n') \<and> post_result X n c cq k n' \<and> post_stops n cq k ntt"
  using assms
proof (induction rs arbitrary: n cq)
  case Nil
  have "0 \<le> ring_room n cq" using q_inv_cq [OF Nil(1,2)] by (simp add: ring_room_def cq_inv_def)
  then show ?case using Nil post_result_0 [OF Nil(1,2)] by (simp add: post_stops_def)
next
  case (Cons req rs)
  note inv = Cons.prems(1) and cq = Cons.prems(2) and ring = Cons.prems(4) and first = Cons.prems(5)
  note ci = q_inv_cq [OF inv cq]
  let ?cq = "cq\<lparr>cq_head := head_of n cq\<rparr>"
  let ?n0 = "put_cq n ?cq"
  let ?n1 = "?n0\<lparr>n_ssd := snd (read_clock REALTIME_NS (n_ssd ?n0))\<rparr>"
  note p0 = post_poll [OF inv cq ring disjI1 [OF refl]] and p1 = post_poll [OF inv cq ring disjI2 [OF refl]]
  have f: "0 \<le> ring_room n cq" using ci by (simp add: ring_room_def cq_inv_def)
  have t: "ticks_of ?n0 = ticks_of n" "clock_of ?n0 = clock_of n" by (simp_all add: ticks_of_def clock_of_def put_cq_def)
  have clk: "get_ns ?n0 = (clock_of n (ticks_of n), ?n1)" by (simp add: get_ns_clock t)
  have full: "nvme_cq_full n cq = Some (ring_room n cq = 0, ?cq)" by (rule cq_full_iff [OF ci ring])
  have id: "cq_cqid cq = c" using ci by (simp add: cq_inv_def)
  show ?case
  proof (cases "ring_room n cq = 0")
    case True
    have "post_result X n c cq 0 ?n0" by (rule p0(6) [OF post_result_0 [OF p0(1,2)]])
    then show ?thesis using cq full True by (simp add: post_stops_def)
  next
    case room: False
    show ?thesis
    proof (cases "clock_of n (ticks_of n) < rq_expire_time req")
      case True
      have "post_result X n c cq 0 ?n1" by (rule p1(6) [OF post_result_0 [OF p1(1,2)]])
      then show ?thesis using cq full room True f clk Cons.prems(3) id first by (simp add: post_stops_def)
    next
      case False
      let ?cq' = "?cq\<lparr>cq_tail := (cq_tail ?cq + 1) mod cq_size ?cq, cq_phase := phase_at ?cq 1, cq_req_list := rs\<rparr>"
      have r1: "ring_room ?n1 ?cq \<noteq> 0" using room p1(4) by simp
      have first1: "cq_req_list ?cq = req # rs" using first by simp
      from post_cqe_ok [OF p1(1-3) first1, of env] obtain sq n2 where
        sq: "get_sq ?n1 (rq_sq req) = Some sq" and post: "nvme_post_cqe env ?n1 (?cq\<lparr>cq_req_list := rs\<rparr>) req = Some n2" and i2: "q_inv X n2" and
        n2: "n2 = put_cq (put_sq (?n1\<lparr>n_mem := store (n_mem ?n1) (cqe_slot ?n1 ?cq 0) (cqe_bytes (cqe_entry ?n1 ?cq 0))\<rparr>)
          (sq\<lparr>sq_req_list := sq_req_list sq @ [req]\<rparr>)) ?cq'" by blast
      note st = post_step [OF p1(1-3) r1 sq first1, folded n2]
      from Cons.IH [OF i2 st(1) Cons.prems(3) st(2)] obtain ntt k n3 where
        l: "post_io_loop env rs c n2 = Some (ntt, k, n3)" "post_result X n2 c ?cq' k n3" "post_stops n2 ?cq' k ntt" by auto
      have k: "int k \<le> ring_room n2 ?cq'" "k \<le> length rs" using l(3) by (simp_all add: post_stops_def)
      have "post_result X ?n1 c ?cq (Suc k) n3"
        by (rule post_result_trans [OF p1(1-3) r1 sq first1, folded n2, OF l(2) k])
      then have res: "post_result X n c cq (Suc k) n3" by (rule p1(6))
      have tt: "ticks_of n2 = Suc (ticks_of n)" "clock_of n2 = clock_of n"
        by (simp_all add: n2 ticks_of_def clock_of_def put_cq_def put_sq_def read_clock_def)
      have "post_stops n cq (Suc k) ntt"
        using l(3) False st(3) p1(4) first unfolding post_stops_def tt by (auto simp: less_Suc_eq_0_disj)
      moreover have "post_io_loop env (req # rs) c n = Some (ntt, Suc k, n3)"
        using cq full room False clk Cons.prems(3) id post l(1) by simp
      ultimately show ?thesis using res by blast
    qed
  qed
qed

lemma post_cqes_every_ok:
  assumes "q_inv X n" "get_cq n c = Some cq" "c \<noteq> 0" "ring_ok n cq"
  shows "\<exists>ntt k h due n1 n'. post_cqes_every period env c n = Some n' \<and> post_result X n c cq k n1 \<and> post_stops n cq k ntt \<and> q_inv X n' \<and>
    get_cq n' c = Some (cq\<lparr>cq_head := h, cq_tail := (cq_tail cq + int k) mod cq_size cq, cq_phase := phase_at cq k,
      cq_req_list := drop k (cq_req_list cq), cq_timer := Some due\<rparr>) \<and>
    n_mem n' = n_mem n1 \<and> n_heap n' = n_heap n \<and> same_but_time (n_ssd n) (n_ssd n') \<and>
    (if ntt = 0 then \<exists>t. due = clock_of n t + period else due = ntt) \<and>
    n_notified n' = (if 0 < k \<and> cq_irq_enabled cq \<noteq> 0 then c # n_notified n else n_notified n)"
proof -
  from post_io_loop_ok [OF assms refl, of env] obtain ntt k n1 where
    l: "post_io_loop env (cq_req_list cq) c n = Some (ntt, k, n1)" "post_result X n c cq k n1" "post_stops n cq k ntt" by blast
  obtain h where h: "get_cq n1 c = Some (cq\<lparr>cq_head := h, cq_tail := (cq_tail cq + int k) mod cq_size cq, cq_phase := phase_at cq k,
      cq_req_list := drop k (cq_req_list cq)\<rparr>)" (is "_ = Some ?cq1") using l(2) by (auto simp: post_result_def)
  have r: "q_inv X n1" "n_heap n1 = n_heap n" "n_notified n1 = n_notified n" "same_but_time (n_ssd n) (n_ssd n1)" "clock_of n1 = clock_of n"
    using l(2) by (simp_all add: post_result_def)
  define due where "due = (if ntt = 0 then clock_of n1 (ticks_of n1) + period else ntt)"
  define n2 where "n2 = (if ntt = 0 then n1\<lparr>n_ssd := snd (read_clock REALTIME_NS (n_ssd n1))\<rparr> else n1)"
  have e: "(if ntt = 0 then let (t, n2) = get_ns n1 in (t + period, n2) else (ntt, n1)) = (due, n2)"
    by (simp add: due_def n2_def get_ns_clock)
  have same: "same_queues n1 n2" by (simp add: n2_def same_queues_def)
  have n2: "n_mem n2 = n_mem n1" "n_heap n2 = n_heap n" "n_notified n2 = n_notified n" "same_but_time (n_ssd n) (n_ssd n2)"
    using r same_but_time_trans [OF r(4)] by (simp_all add: n2_def)
  have g2: "get_cq n2 c = Some ?cq1" using h same_queues_get [OF same] by simp
  have i2: "q_inv X n2" using r(1) q_inv_cong [OF same] by simp
  let ?cq2 = "?cq1\<lparr>cq_timer := Some due\<rparr>"
  let ?n' = "if 0 < k then nvme_isr_notify (put_cq n2 ?cq2) ?cq2 else put_cq n2 ?cq2"
  have run: "post_cqes_every period env c n = Some ?n'"
    using assms(2) l(1) g2 e unfolding post_cqes_every_def by (auto simp: Let_def)
  have same': "same_queues (put_cq n2 ?cq2) ?n'" by (simp add: same_queues_def nvme_isr_notify_def)
  have id: "cq_cqid ?cq2 = c" using q_inv_cq [OF i2 g2] by (simp add: cq_inv_def)
  have "cq_like ?cq1 ?cq2" using q_inv_cq [OF i2 g2] by (simp add: cq_like_def cq_inv_def)
  then have "q_inv X ?n'" using q_inv_put_cq [OF i2 g2, of ?cq2] q_inv_cong [OF same'] by simp
  moreover have "get_cq ?n' c = Some ?cq2" using get_put_cq [OF g2 id] same_queues_get [OF same'] by simp
  moreover have "n_mem ?n' = n_mem n1" "n_heap ?n' = n_heap n" "same_but_time (n_ssd n) (n_ssd ?n')"
    using n2 by (simp_all add: nvme_isr_notify_def put_cq_def)
  moreover have "n_notified ?n' = (if 0 < k \<and> cq_irq_enabled cq \<noteq> 0 then c # n_notified n else n_notified n)"
    using n2(3) id by (auto simp: nvme_isr_notify_def put_cq_def)
  moreover have "if ntt = 0 then \<exists>t. due = clock_of n t + period else due = ntt" using r(5) by (auto simp: due_def)
  ultimately show ?thesis using run l(2,3) by blast
qed

text \<open>A poll after time \<open>T\<close> leaves no request that was due at \<open>T\<close>, unless the ring is full.\<close>

lemma post_stops_progress:
  assumes "post_stops n cq k ntt" "sorted (map rq_expire_time (cq_req_list cq))" "\<forall>t \<ge> ticks_of n. T \<le> clock_of n t"
  shows "int k = ring_room n cq \<or> (\<forall>r \<in> set (drop k (cq_req_list cq)). T < rq_expire_time r)"
proof (cases "int k = ring_room n cq \<or> k = length (cq_req_list cq)")
  case False
  then have k: "k < length (cq_req_list cq)" "clock_of n (ticks_of n + k) < rq_expire_time (cq_req_list cq ! k)"
    using assms(1) by (auto simp: post_stops_def)
  have "T < rq_expire_time r" if "r \<in> set (drop k (cq_req_list cq))" for r
  proof -
    from that obtain j where j: "j < length (cq_req_list cq) - k" "r = cq_req_list cq ! (k + j)" by (auto simp: in_set_conv_nth)
    have "rq_expire_time (cq_req_list cq ! k) \<le> rq_expire_time r"
      using sorted_nth_mono [OF assms(2), of k "k + j"] j k(1) by simp
    moreover have "T \<le> clock_of n (ticks_of n + k)" using assms(3) by simp
    ultimately show ?thesis using k(2) by linarith
  qed
  then show ?thesis by blast
qed auto

subsection \<open>The waiting list is a stable queue\<close>

text \<open>What the completion side relies on: a list that stays ordered by due time, first come first served among equals.\<close>

locale due_list =
  fixes enq :: "'r \<Rightarrow> 'r list \<Rightarrow> 'r list"
    and due :: "'r \<Rightarrow> int"
  assumes enq_mset: "mset (enq r rs) = add_mset r (mset rs)"
    and enq_sorted: "sorted (map due rs) \<Longrightarrow> sorted (map due (enq r rs))"
    and enq_fifo: "sorted (map due rs) \<Longrightarrow> filter (\<lambda>q. due q = t) (enq r rs) = filter (\<lambda>q. due q = t) rs @ (if due r = t then [r] else [])"
begin

lemma enq_sort: "enq r (sort_key due rs) = sort_key due (rs @ [r])"
proof (rule sym, rule properties_for_sort_key)
  show "mset (enq r (sort_key due rs)) = mset (rs @ [r])" by (simp add: enq_mset)
  show "filter (\<lambda>x. due k = due x) (enq r (sort_key due rs)) = filter (\<lambda>x. due k = due x) (rs @ [r])" for k
  proof -
    have e: "(\<lambda>x. due k = due x) = (\<lambda>x. due x = due k)" by auto
    show ?thesis unfolding e by (simp add: enq_fifo sort_key_stable)
  qed
  show "sorted (map due (enq r (sort_key due rs)))" by (rule enq_sorted) simp
qed

lemma arrivals: "fold enq rs [] = sort_key due rs"
proof (induction rs rule: rev_induct)
  case (snoc r rs)
  then show ?case using enq_sort [of r rs] by simp
qed simp

end

lemma insert_req_sorted: "sorted (map rq_expire_time rs) \<Longrightarrow> sorted (map rq_expire_time (insert_req r rs))"
proof (induction rs)
  case (Cons q rs)
  have "set (insert_req r rs) = insert r (set rs)" by (induction rs) auto
  then show ?case using Cons by (auto simp: less_imp_le)
qed simp

interpretation waiting: due_list insert_req rq_expire_time
proof
  show "mset (insert_req r rs) = add_mset r (mset rs)" for r rs by (induction rs) auto
  show "sorted (map rq_expire_time (insert_req r rs))" if "sorted (map rq_expire_time rs)" for r rs using that by (rule insert_req_sorted)
  show "filter (\<lambda>q. rq_expire_time q = t) (insert_req r rs) = filter (\<lambda>q. rq_expire_time q = t) rs @ (if rq_expire_time r = t then [r] else [])"
    if "sorted (map rq_expire_time rs)" for r rs t
    using that
  proof (induction rs)
    case (Cons q rs)
    show ?case
    proof (cases "rq_expire_time r < rq_expire_time q")
      case True
      then have "rq_expire_time r = t \<Longrightarrow> filter (\<lambda>q. rq_expire_time q = t) (q # rs) = []"
        using Cons.prems by (auto simp: filter_empty_conv)
      then show ?thesis using True by auto
    qed (use Cons in simp)
  qed simp
qed

subsection \<open>Frame of the I/O commands\<close>

text \<open>Open-channel handlers leave the queues alone and return the request that they got.\<close>

definition oc_frame :: "blk_env \<Rightarrow> bool" where
  "oc_frame env \<longleftrightarrow>
     (\<forall>n cmd req st req' n'. oc_rw env n cmd req = Some (st, req', n') \<longrightarrow> same_queues n n' \<and> same_req req req') \<and>
     (\<forall>n cmd req st req' n'. oc_erase env n cmd req = Some (st, req', n') \<longrightarrow> same_queues n n' \<and> same_req req req') \<and>
     (\<forall>n req. same_req req (oc_post_cqe env n req))"

lemma same_req_refl [simp]: "same_req r r"
  by (simp add: same_req_def)

lemma fail_with_queues: "fail_with n ns cmd req a b l st = Some (e, n') \<Longrightarrow> same_queues n n'"
  by (auto simp: fail_with_def nvme_set_error_page_def same_queues_def Let_def split: bind_splits if_splits)

lemma error_page_queues: "nvme_set_error_page n a b d e f g = Some n' \<Longrightarrow> same_queues n n'"
  by (auto simp: nvme_set_error_page_def same_queues_def split: bind_splits if_splits)

lemma rw_meta_queues:
  assumes "rw_meta n m w p = Some (n', infos)"
  shows "same_queues n n'"
proof -
  have "same_queues n0 n1" if "foldM (\<lambda>i. ftl_meta_write (ftl_meta_index sc msl i) i) is (n0, l0) = Some (n1, l1)" for sc msl "is" n0 l0 n1 l1
    using that
  proof (induction "is" arbitrary: n0 l0)
    case (Cons i "is")
    then obtain n2 l2 where "ftl_meta_write (ftl_meta_index sc msl i) i (n0, l0) = Some (n2, l2)"
      "foldM (\<lambda>i. ftl_meta_write (ftl_meta_index sc msl i) i) is (n2, l2) = Some (n1, l1)" by (auto split: bind_splits)
    then show ?case using Cons.IH same_queues_trans [of n0 n2 n1]
      by (fastforce simp: ftl_meta_write_def same_queues_def Let_def split: bind_splits)
  qed simp
  then show ?thesis using assms by (fastforce simp: rw_meta_def Let_def split: if_splits bind_splits)
qed



lemma heap_rw_queues: "nvme_heap_storage_rw n req = Some n' \<Longrightarrow> same_queues n n'"
  by (auto simp: nvme_heap_storage_rw_def same_queues_def Let_def split: if_splits)

lemma rw_ssd_queues: "rw_ssd n w r = Some (d, n') \<Longrightarrow> same_queues n n'"
  by (auto simp: rw_ssd_def same_queues_def split: bind_splits)

lemma rw_transfer_queues:
  assumes "rw_transfer n req r = Some (st, req', n')"
  shows "same_queues n n' \<and> same_req req req'"
proof -
  obtain t1 n1 t2 n2 where g: "get_ns n = (t1, n1)" "get_ns n1 = (t2, n2)" by (metis surj_pair)
  have q: "same_queues n n2" using same_queues_trans same_queues_ns g by blast
  from assms g obtain d n3 where r: "(if n_femu_mode n = FEMU_BLACKBOX_MODE then rw_ssd n2 (rq_is_write req) r else Some (t2 - t1, n2)) = Some (d, n3)"
    "nvme_heap_storage_rw n3 (req\<lparr>rq_status := NVME_SUCCESS, rq_expire_time := t1 + (d - (t2 - t1))\<rparr>) = Some n'"
    "req' = req\<lparr>rq_status := NVME_SUCCESS, rq_expire_time := t1 + (d - (t2 - t1))\<rparr>"
    by (auto simp: rw_transfer_def Let_def split: bind_splits prod.splits)
  have "same_queues n2 n3" using r(1) rw_ssd_queues by (auto split: if_splits)
  then show ?thesis using q heap_rw_queues [OF r(2)] r(3) same_queues_trans by (fastforce simp: same_req_def)
qed

lemma check_req_queues: "nvme_rw_check_req env n ns cmd req a b l ct ds ms = Some (e, n') \<Longrightarrow> same_queues n n'"
  by (auto simp: nvme_rw_check_req_def split: if_splits dest: fail_with_queues)

lemma nvme_rw_queues:
  assumes "nvme_rw env n ns cmd req = Some (st, req', n')"
  shows "same_queues n n' \<and> same_req req req'"
proof -
  let ?nlb = "rw_nlb cmd + 1"
  let ?off = "u64 (rw_slba cmd * 2 ^ ns_ds ns)" and ?w = "cmd_opcode cmd = NVME_CMD_WRITE" and ?ds = "u64 (?nlb * 2 ^ ns_ds ns)"
  let ?req1 = "req\<lparr>rq_data_offset := ?off, rq_is_write := ?w\<rparr>"
  note d = assms [unfolded nvme_rw_def Let_def]
  from d obtain err n1 where c: "nvme_rw_check_req env n ns cmd ?req1 (rw_slba cmd) (u64 (rw_slba cmd + ?nlb)) ?nlb (rw_control cmd) ?ds 0 = Some (err, n1)"
    by (auto split: bind_splits)
  note q1 = check_req_queues [OF c]
  show ?thesis
  proof (cases "err = 0")
    case False
    then show ?thesis using d c q1 by (auto simp: same_req_def)
  next
    case True
    from d c True obtain n2 infos where m: "rw_meta n1 (cmd_mptr cmd) ?w (u32 (?ds div 4096)) = Some (n2, infos)" by (auto split: bind_splits)
    have q2: "same_queues n n2" using q1 rw_meta_queues [OF m] same_queues_trans by blast
    from d c True m obtain r where p: "nvme_map_prp n2 (cmd_prp1 cmd) (cmd_prp2 cmd) ?ds = Some r" by (auto split: bind_splits)
    show ?thesis
    proof (cases r)
      case (Inl e)
      then show ?thesis using d c True m p q2 same_queues_trans [OF q2 fail_with_queues] by (auto simp: same_req_def split: bind_splits)
    next
      case (Inr v)
      obtain cmb segs where v: "v = (cmb, segs)" by (cases v)
      obtain req2 rm where "rw_transfer n2 req2 rm = Some (st, req', n')" "same_req req req2"
        using d c True m p Inr v by (fastforce simp: same_req_def split: if_splits)
      then show ?thesis using rw_transfer_queues q2 same_queues_trans by (fastforce simp: same_req_def)
    qed
  qed
qed

lemma ns_queues: "put_ns n nsid ns = Some n' \<Longrightarrow> same_queues n n'" "discard_ssd n len sector = Some n' \<Longrightarrow> same_queues n n'"
  by (auto simp: put_ns_def discard_ssd_def same_queues_def split: bind_splits if_splits)

lemma dsm_loop_queues: "dsm_loop env nsid cmd req rs n = Some (st, n') \<Longrightarrow> same_queues n n'"
proof (induction rs arbitrary: n)
  case (Cons r rs)
  obtain nlb slba where r: "r = (nlb, slba)" by (cases r)
  from Cons.prems r have "same_queues n n' \<or> (\<exists>n1 n2. same_queues n n1 \<and> same_queues n1 n2 \<and> dsm_loop env nsid cmd req rs n2 = Some (st, n'))"
    by (auto simp: Let_def split: if_splits bind_splits dest: fail_with_queues) (metis ns_queues)
  then show ?case using Cons.IH same_queues_trans by blast
qed simp

lemma dma_queues: "nvme_dma_write_prp n buf len p q = Some (st, buf', n') \<Longrightarrow> same_queues n n'"
  "nvme_dma_read_prp n bs len p q = Some (st, bs', n') \<Longrightarrow> same_queues n n'"
  by (auto simp: nvme_dma_write_prp_def nvme_dma_read_prp_def same_queues_def Let_def split: bind_splits sum.splits prod.splits if_splits)

lemma nvme_dsm_queues:
  assumes "nvme_dsm env n ns cmd req = Some (st, req', n')"
  shows "same_queues n n' \<and> same_req req req'"
  using assms
  by (auto simp: nvme_dsm_def same_req_def Let_def split: if_splits bind_splits prod.splits dest: fail_with_queues dsm_loop_queues
      intro: same_queues_trans [OF dma_queues(1)])

lemma compare_loop_queues: "compare_loop env n ns req off segs = Some (st, n') \<Longrightarrow> same_queues n n'"
  by (induction segs arbitrary: off) (auto split: option.splits bind_splits if_splits dest: error_page_queues)

lemma nvme_compare_queues:
  assumes "nvme_compare env n ns cmd req = Some (st, req', n')"
  shows "same_queues n n' \<and> same_req req req'"
  using assms
  by (auto simp: nvme_compare_def same_req_def Let_def split: if_splits bind_splits sum.splits prod.splits dest: fail_with_queues compare_loop_queues)

lemma write_zeros_queues:
  "nvme_write_zeros n ns cmd req = Some (st, req', n') \<Longrightarrow> same_queues n n' \<and> same_req req req'"
  by (auto simp: nvme_write_zeros_def same_req_def Let_def split: if_splits bind_splits dest: fail_with_queues)

lemma write_uncor_queues:
  "nvme_write_uncor n ns cmd req = Some (st, req', n') \<Longrightarrow> same_queues n n' \<and> same_req req req'"
  by (auto simp: nvme_write_uncor_def same_req_def Let_def split: if_splits bind_splits dest: fail_with_queues ns_queues)

lemma nvme_io_cmd_queues:
  assumes "oc_frame env" "nvme_io_cmd env n cmd req = Some (st, req', n')"
  shows "same_queues n n' \<and> same_req req req'"
proof -
  note oc = assms(1) [unfolded oc_frame_def]
  note frames = nvme_rw_queues nvme_dsm_queues nvme_compare_queues write_zeros_queues write_uncor_queues
  show ?thesis
    using assms(2) oc unfolding nvme_io_cmd_def Let_def
    by (auto simp: nvme_flush_def same_req_def split: if_splits bind_splits dest!: frames)
qed

subsection \<open>Processing keeps the requests\<close>

lemma put_cq_same:
  assumes "get_cq n c = Some cq" "cq_cqid cq = c"
  shows "put_cq n cq = n"
proof -
  have "(n_cq n)[nat c := Some cq] = n_cq n"
    using assms(1) by (intro list_update_same_conv [THEN iffD2]) (auto simp: get_cq_def cread_def split: if_splits bind_splits)
  then show ?thesis using assms(2) by (simp add: put_cq_def)
qed

lemma q_inv_put_sq:
  assumes inv: "q_inv X n" and sq: "get_sq n i = Some sq" and like: "sq_like sq sq'"
    and own: "\<forall>r \<in> set (sq_req_list sq' @ sq_out_req_list sq'). rq_sq r = i"
    and moved: "keys (sq_req_list sq' @ sq_out_req_list sq') = keys (sq_req_list sq @ sq_out_req_list sq)"
  shows "q_inv X (put_sq n sq')" "get_sq (put_sq n sq') i = Some sq'"
proof -
  note si = q_inv_sq [OF inv sq]
  obtain cq where cq: "get_cq n (sq_cqid sq) = Some cq" using si by (auto simp: sq_inv_def)
  note ci = q_inv_cq [OF inv cq]
  have "cq_like cq cq" "cq_cqid cq = sq_cqid sq" using ci by (simp_all add: cq_inv_def cq_like_def)
  then have "q_inv X (put_cq (put_sq n sq') cq)" "put_cq (put_sq n sq') cq = put_sq n sq'"
    using q_inv_update [OF inv sq cq like _ own, of cq] moved put_cq_same [of "put_sq n sq'" "sq_cqid sq" cq] cq by simp_all
  then show "q_inv X (put_sq n sq')" by simp
  show "get_sq (put_sq n sq') i = Some sq'" using get_put_sq [OF sq] like si by (simp add: sq_like_def sq_inv_def)
qed

lemma keys_map: "(\<And>r. r \<in> set rs \<Longrightarrow> same_req (f r) r) \<Longrightarrow> keys (map f rs) = keys rs"
  by (induction rs) (auto simp: same_req_def)

text \<open>The queue with the head moved on; the request that is taken for a command is outstanding afterwards.\<close>

lemma inc_sq_head_ok:
  assumes "sq_inv n i sq"
  shows "nvme_inc_sq_head sq = Some (sq\<lparr>sq_head := (sq_head sq + 1) mod sq_size sq\<rparr>)" "sq_like sq (sq\<lparr>sq_head := (sq_head sq + 1) mod sq_size sq\<rparr>)"
proof -
  have b: "0 < sq_size sq" "sq_size sq \<le> 2 ^ 16" "0 \<le> sq_head sq" "sq_head sq < sq_size sq" using assms by (simp_all add: sq_inv_def)
  then have "u32 (sq_head sq + 1) = sq_head sq + 1" by (simp add: u32_def)
  then show "nvme_inc_sq_head sq = Some (sq\<lparr>sq_head := (sq_head sq + 1) mod sq_size sq\<rparr>)" using b by (simp add: nvme_inc_sq_head_def)
  show "sq_like sq (sq\<lparr>sq_head := (sq_head sq + 1) mod sq_size sq\<rparr>)" using b by (simp add: sq_like_def)
qed

lemma take_req_ok:
  assumes inv: "q_inv X n" and sq: "get_sq n i = Some sq" and like: "sq_like sq sq1" "sq_req_list sq1 = sq_req_list sq" "sq_out_req_list sq1 = sq_out_req_list sq"
    and run: "take_req n sq1 cmd = Some (req, n1)"
  shows "q_inv X n1 \<and> rq_sq req = i \<and> (\<exists>sq'. get_sq n1 i = Some sq' \<and> sq_cqid sq' = sq_cqid sq \<and> list_ex (same_req req) (sq_out_req_list sq'))"
proof -
  from run like(2,3) obtain r rs where r: "sq_req_list sq = r # rs"
    "req = r\<lparr>rq_result := 0, rq_cid := cmd_cid cmd, rq_aiocb := False, rq_opcode := cmd_opcode cmd\<rparr>"
    "n1 = put_sq n (sq1\<lparr>sq_req_list := rs, sq_out_req_list := sq_out_req_list sq @ [req]\<rparr>)"
    by (auto simp: take_req_def Let_def split: list.splits)
  let ?sq = "sq1\<lparr>sq_req_list := rs, sq_out_req_list := sq_out_req_list sq @ [req]\<rparr>"
  note own = sq_inv_own [OF q_inv_sq [OF inv sq]]
  have "rq_sq req = i" using own r by simp
  moreover have "q_inv X (put_sq n ?sq)" "get_sq (put_sq n ?sq) i = Some ?sq"
    using like(1) own r by (intro q_inv_put_sq [OF inv sq]; auto simp: sq_like_def)+
  ultimately show ?thesis using r(3) like(1) by (auto simp: sq_like_def)
qed

lemma keep_out_ok:
  assumes "q_inv X n" "get_sq n (rq_sq req) = Some sq"
  shows "\<exists>n'. keep_out n req = Some n' \<and> q_inv X n'"
proof -
  let ?sq = "sq\<lparr>sq_out_req_list := map (\<lambda>q. if same_req req q then req else q) (sq_out_req_list sq)\<rparr>"
  note si = q_inv_sq [OF assms]
  have "keys (map (\<lambda>q. if same_req req q then req else q) (sq_out_req_list sq)) = keys (sq_out_req_list sq)"
    by (intro keys_map) (auto simp: same_req_def)
  then have "q_inv X (put_sq n ?sq)"
    using si sq_inv_own [OF si] by (intro q_inv_put_sq [OF assms]) (auto simp: sq_like_def sq_inv_def)
  then show ?thesis using assms(2) by (simp add: keep_out_def)
qed

lemma process_io_one_inv:
  assumes inv: "q_inv X n" and env: "oc_frame env" and run: "process_io_one env i n = Some n'"
  shows "q_inv X n'"
proof -
  from run obtain sq cmd where sq: "get_sq n i = Some sq" and cmd: "fetch_cmd n sq (sq_head sq) = Some cmd"
    by (auto simp: process_io_one_def split: bind_splits)
  let ?sq = "sq\<lparr>sq_head := (sq_head sq + 1) mod sq_size sq\<rparr>"
  note si = q_inv_sq [OF inv sq]
  note hd = inc_sq_head_ok [OF si]
  show ?thesis
  proof (cases "cmd_opcode cmd = NVME_OP_ABORTED")
    case True
    then have "n' = put_sq n ?sq" using run sq cmd hd(1) by (simp add: process_io_one_def)
    then show ?thesis using q_inv_put_sq(1) [OF inv sq hd(2)] sq_inv_own [OF si] by simp
  next
    case False
    from run sq cmd hd(1) False obtain req n1 status req1 n2 where t: "take_req n ?sq cmd = Some (req, n1)"
      and c: "nvme_io_cmd env n1 cmd req = Some (status, req1, n2)"
      and e: "(if status \<noteq> NVME_NO_COMPLETE then nvme_enqueue_req_completion_io n2 (sq_cqid sq) (req1\<lparr>rq_status := status\<rparr>) else keep_out n2 req1) = Some n'"
      by (auto simp: process_io_one_def split: bind_splits)
    from take_req_ok [OF inv sq hd(2) _ _ t] obtain sq' where
      a: "q_inv X n1" "rq_sq req = i" "get_sq n1 i = Some sq'" "sq_cqid sq' = sq_cqid sq" "list_ex (same_req req) (sq_out_req_list sq')" by auto
    from nvme_io_cmd_queues [OF env c] have f: "same_queues n1 n2" "same_req req req1" by auto
    have b: "q_inv X n2" "get_sq n2 (rq_sq req1) = Some sq'" "list_ex (same_req (req1\<lparr>rq_status := status\<rparr>)) (sq_out_req_list sq')"
      using a q_inv_cong [OF f(1)] same_queues_get [OF f(1)] f(2) by (auto simp: same_req_def list_ex_iff)
    show ?thesis
      using e enqueue_io_ok [OF b(1), of "req1\<lparr>rq_status := status\<rparr>" sq' "sq_cqid sq"] keep_out_ok [OF b(1,2)] b a(4) by (auto split: if_splits)
  qed
qed

lemma process_loop_inv:
  assumes "\<And>m m'. q_inv X m \<Longrightarrow> step m = Some m' \<Longrightarrow> q_inv X m'" "q_inv X n" "process_loop step i k n = Some (p, n')"
  shows "q_inv X n'"
  using assms(2,3)
proof (induction k arbitrary: n p)
  case (Suc k)
  then show ?case using assms(1) by (auto split: bind_splits if_splits)
qed (auto split: bind_splits)

lemma nvme_process_sq_io_inv:
  assumes inv: "q_inv X n" and env: "oc_frame env" and run: "nvme_process_sq_io env i n = Some n'"
  shows "q_inv X n'"
proof -
  from run obtain sq0 sq p n1 sq1 where r: "get_sq n i = Some sq0" "nvme_update_sq_tail n sq0 = Some sq"
    "process_loop (process_io_one env i) i (nat (sq_arb_burst sq)) (put_sq n sq) = Some (p, n1)" "get_sq n1 i = Some sq1"
    "n' = (let (t, n2) = get_ns n1 in put_sq n2 (sq1\<lparr>sq_completed := u64 (sq_completed sq1 + p), sq_timer := Some (t + SQ_POLLING_PERIOD_NS)\<rparr>))"
    by (auto simp: nvme_process_sq_io_def Let_def split: bind_splits prod.splits)
  note si = q_inv_sq [OF inv r(1)]
  have "sq_like sq0 sq" "sq_req_list sq = sq_req_list sq0" "sq_out_req_list sq = sq_out_req_list sq0"
    using r(2) si by (auto simp: nvme_update_sq_tail_def sq_like_def sq_inv_def split: if_splits bind_splits)
  then have "q_inv X (put_sq n sq)" using q_inv_put_sq(1) [OF inv r(1)] sq_inv_own [OF si] by simp
  from process_loop_inv [OF _ this r(3)] have i1: "q_inv X n1" using process_io_one_inv [OF _ env] by blast
  obtain t n2 where g: "get_ns n1 = (t, n2)" by (cases "get_ns n1")
  note same = same_queues_ns [OF g]
  have i2: "q_inv X n2" "get_sq n2 i = Some sq1" using i1 q_inv_cong [OF same] r(4) same_queues_get [OF same] by simp_all
  note s1 = q_inv_sq [OF i2]
  have "q_inv X (put_sq n2 (sq1\<lparr>sq_completed := u64 (sq_completed sq1 + p), sq_timer := Some (t + SQ_POLLING_PERIOD_NS)\<rparr>))"
    using s1 sq_inv_own [OF s1] by (intro q_inv_put_sq(1) [OF i2]) (auto simp: sq_like_def sq_inv_def)
  then show ?thesis using r(5) g by simp
qed

end
