(* ===== verification/NvmeFeatures.thy ===== *)
theory NvmeFeatures
  imports NvmeQueues DeviceInit
begin

section \<open>Identification, features, logs and formatting\<close>

text \<open>
  The admin commands of \<open>nvme.c\<close> that report or configure: \<open>nvme_identify\<close>, \<open>nvme_get_feature\<close>, \<open>nvme_set_feature\<close>, \<open>nvme_get_log\<close> and
  \<open>nvme_format\<close>; the registers that the guest reads; and the construction of the controller, \<open>nvme_init\<close>, with the checks of its
  properties. Structures that the guest reads are encoded as the bytes of their C layout.
\<close>

definition INVALID_FORMAT :: int where "INVALID_FORMAT = 0x010a OR NVME_DNR"
definition INVALID_LOG_ID :: int where "INVALID_LOG_ID = 0x0109 OR NVME_DNR"

abbreviation (input) NVME_AER_TYPE_ERROR :: int where "NVME_AER_TYPE_ERROR \<equiv> 0"
abbreviation (input) NVME_AER_TYPE_SMART :: int where "NVME_AER_TYPE_SMART \<equiv> 1"
abbreviation (input) NVME_AER_INFO_SMART_TEMP_THRESH :: int where "NVME_AER_INFO_SMART_TEMP_THRESH \<equiv> 1"
abbreviation (input) NVME_LOG_ERROR_INFO :: int where "NVME_LOG_ERROR_INFO \<equiv> 1"
abbreviation (input) NVME_LOG_SMART_INFO :: int where "NVME_LOG_SMART_INFO \<equiv> 2"
abbreviation (input) NVME_LOG_FW_SLOT_INFO :: int where "NVME_LOG_FW_SLOT_INFO \<equiv> 3"
abbreviation (input) NVME_SPARE_THRESHOLD :: int where "NVME_SPARE_THRESHOLD \<equiv> 20"
abbreviation (input) NVME_TEMPERATURE :: int where "NVME_TEMPERATURE \<equiv> 0x143"

subsection \<open>Events\<close>

definition nvme_enqueue_event :: "NvmeCtrl \<Rightarrow> int \<Rightarrow> int \<Rightarrow> int \<Rightarrow> NvmeCtrl" where
  "nvme_enqueue_event n event_type event_info log_page =
     (if n_csts n AND 1 = 0 then n
      else let (t, n1) = get_ns n in n1\<lparr>n_aer_queue := n_aer_queue n1 @ [(event_type, event_info, log_page)], n_aer_timer := Some (t + 500)\<rparr>)"

subsection \<open>Identification\<close>

definition zeros :: "nat \<Rightarrow> int list" where
  "zeros k = replicate k 0"

definition lbaf_bytes :: "int \<times> nat \<Rightarrow> int list" where
  "lbaf_bytes f = le_bytes 2 (fst f) @ [int (snd f), 0]"

definition id_ns_bytes :: "NvmeNamespace \<Rightarrow> int list" where
  "id_ns_bytes ns = le_bytes 8 (ns_nsze ns) @ le_bytes 8 (ns_nsze ns) @ le_bytes 8 (ns_nsze ns) @
     [0, ns_nlbaf ns, ns_flbas ns, ns_mc ns, ns_dpc ns, ns_dps ns] @ zeros 98 @ concat (map lbaf_bytes (ns_lbaf ns)) @ zeros 192 @
     [ns_vs ns] @ zeros 3711"

text \<open>
  In the controller memory buffer the copy goes into the structure of the controller. An identification or an error log that changed
  in this way is not represented and gives \<open>None\<close>.
\<close>

definition nvme_identify :: "NvmeCtrl \<Rightarrow> NvmeCmd \<Rightarrow> (int \<times> NvmeCtrl) option" where
  "nvme_identify n cmd =
     (let cns = dw cmd 10; nsid = cmd_nsid cmd; prp1 = cmd_prp1 cmd; prp2 = cmd_prp2 cmd
      in if cns = 1 then do { (st, bs, n1) \<leftarrow> nvme_dma_read_prp n (n_id_ctrl n) 4096 prp1 prp2; (if bs = n_id_ctrl n then Some (st, n1) else None) }
         else if cns \<noteq> 0 then Some (INVALID_FIELD, n)
         else if nsid = 0 \<or> n_num_namespaces n < nsid then Some (INVALID_NSID, n)
         else do {
           ns \<leftarrow> cread (n_namespaces n) (nsid - 1);
           (st, bs, n1) \<leftarrow> nvme_dma_read_prp n (id_ns_bytes ns) 4096 prp1 prp2;
           (if bs = id_ns_bytes ns then Some (st, n1) else None)
         })"

subsection \<open>Features\<close>

text \<open>The value goes to the lower half of the 64-bit result of the completion entry.\<close>

definition with_result :: "NvmeRequest \<Rightarrow> int \<Rightarrow> NvmeRequest" where
  "with_result req v = req\<lparr>rq_result := rq_result req div 2 ^ 32 * 2 ^ 32 + u32 v\<rparr>"

definition queue_count :: "NvmeCtrl \<Rightarrow> int" where
  "queue_count n = (let q = u32 (n_num_io_queues n - 1) in q OR u32 (q * 2 ^ 16))"

definition range_len :: "NvmeCmd \<Rightarrow> int" where
  "range_len cmd = min 64 (dw cmd 11 mod 2 ^ 6 * 64)"

definition get_lba_range :: "NvmeCtrl \<Rightarrow> NvmeCmd \<Rightarrow> (int \<times> NvmeCtrl) option" where
  "get_lba_range n cmd =
     (let nsid = cmd_nsid cmd
      in if nsid = 0 \<or> n_num_namespaces n < nsid then Some (INVALID_NSID, n)
         else do {
           ns \<leftarrow> cread (n_namespaces n) (nsid - 1);
           (st, bs, n1) \<leftarrow> nvme_dma_read_prp n (ns_lba_range ns) (range_len cmd) (cmd_prp1 cmd) (cmd_prp2 cmd);
           nss \<leftarrow> cwrite (n_namespaces n1) (nsid - 1) (ns\<lparr>ns_lba_range := bs\<rparr>);
           Some (st, n1\<lparr>n_namespaces := nss\<rparr>)
         })"

definition nvme_get_feature :: "NvmeCtrl \<Rightarrow> NvmeCmd \<Rightarrow> NvmeRequest \<Rightarrow> (int \<times> NvmeRequest \<times> NvmeCtrl) option" where
  "nvme_get_feature n cmd req =
     (let dw10 = dw cmd 10; dw11 = dw cmd 11; ft = n_features n; ok = (\<lambda>v. Some (NVME_SUCCESS, with_result req v, n))
      in if dw10 = 0x1 then ok (ft_arbitration ft)
         else if dw10 = 0x2 then ok (ft_power_mgmt ft)
         else if dw10 = 0x3 then do { (st, n1) \<leftarrow> get_lba_range n cmd; Some (st, req, n1) }
         else if dw10 = 0x7 then ok (queue_count n)
         else if dw10 = 0x4 then ok (ft_temp_thresh ft)
         else if dw10 = 0x5 then ok (ft_err_rec ft)
         else if dw10 = 0x6 then ok (ft_volatile_wc ft)
         else if dw10 = 0x8 then ok (ft_int_coalescing ft)
         else if dw10 = 0x9 then
           (if n_num_io_queues n < dw11 mod 2 ^ 16 then Some (INVALID_FIELD, req, n)
            else do { v \<leftarrow> cread (ft_int_vector_config ft) (dw11 mod 2 ^ 16); ok v })
         else if dw10 = 0xa then ok (ft_write_atomicity ft)
         else if dw10 = 0xb then ok (ft_async_config ft)
         else if dw10 = 0x80 then ok (ft_sw_prog_marker ft)
         else Some (INVALID_FIELD, req, n))"

definition set_lba_range :: "NvmeCtrl \<Rightarrow> NvmeCmd \<Rightarrow> (int \<times> NvmeCtrl) option" where
  "set_lba_range n cmd =
     (let nsid = cmd_nsid cmd
      in if nsid = 0 \<or> n_num_namespaces n < nsid then Some (INVALID_NSID, n)
         else do {
           ns \<leftarrow> cread (n_namespaces n) (nsid - 1);
           (st, buf, n1) \<leftarrow> nvme_dma_write_prp n (Some (ns_lba_range ns)) (range_len cmd) (cmd_prp1 cmd) (cmd_prp2 cmd);
           bs \<leftarrow> buf;
           nss \<leftarrow> cwrite (n_namespaces n1) (nsid - 1) (ns\<lparr>ns_lba_range := bs @ drop (length bs) (ns_lba_range ns)\<rparr>);
           Some (st, n1\<lparr>n_namespaces := nss\<rparr>)
         })"

text \<open>A threshold at or below the temperature raises an event once.\<close>

definition set_temp_thresh :: "NvmeCtrl \<Rightarrow> int \<Rightarrow> NvmeCtrl" where
  "set_temp_thresh n v =
     (let n1 = n\<lparr>n_features := (n_features n)\<lparr>ft_temp_thresh := v\<rparr>\<rparr>
      in if v \<le> n_temperature n \<and> n_temp_warn_issued n = 0 then
           nvme_enqueue_event (n1\<lparr>n_temp_warn_issued := 1\<rparr>) NVME_AER_TYPE_SMART NVME_AER_INFO_SMART_TEMP_THRESH NVME_LOG_SMART_INFO
         else if n_temperature n < v \<and> n_aer_mask n AND 2 ^ 1 = 0 then n1\<lparr>n_temp_warn_issued := 0\<rparr>
         else n1)"

definition nvme_set_feature :: "NvmeCtrl \<Rightarrow> NvmeCmd \<Rightarrow> NvmeRequest \<Rightarrow> (int \<times> NvmeRequest \<times> NvmeCtrl) option" where
  "nvme_set_feature n cmd req =
     (let dw10 = dw cmd 10; dw11 = dw cmd 11; ft = n_features n; put = (\<lambda>f. Some (NVME_SUCCESS, req, n\<lparr>n_features := f\<rparr>))
      in if dw10 = 0x1 then Some (NVME_SUCCESS, with_result req (ft_arbitration ft), n\<lparr>n_features := ft\<lparr>ft_arbitration := dw11\<rparr>\<rparr>)
         else if dw10 = 0x2 then put (ft\<lparr>ft_power_mgmt := dw11\<rparr>)
         else if dw10 = 0x3 then do { (st, n1) \<leftarrow> set_lba_range n cmd; Some (st, req, n1) }
         else if dw10 = 0x7 then Some (NVME_SUCCESS, with_result req (queue_count n), n)
         else if dw10 = 0x4 then Some (NVME_SUCCESS, req, set_temp_thresh n dw11)
         else if dw10 = 0x5 then put (ft\<lparr>ft_err_rec := dw11\<rparr>)
         else if dw10 = 0x6 then put (ft\<lparr>ft_volatile_wc := dw11\<rparr>)
         else if dw10 = 0x8 then put (ft\<lparr>ft_int_coalescing := dw11\<rparr>)
         else if dw10 = 0x9 then
           (if n_num_io_queues n < dw11 mod 2 ^ 16 then Some (INVALID_FIELD, req, n)
            else do {
              vs \<leftarrow> cwrite (ft_int_vector_config ft) (dw11 mod 2 ^ 16) (dw11 mod 2 ^ 17);
              put (ft\<lparr>ft_int_vector_config := vs\<rparr>)
            })
         else if dw10 = 0xa then put (ft\<lparr>ft_write_atomicity := dw11\<rparr>)
         else if dw10 = 0xb then put (ft\<lparr>ft_async_config := dw11\<rparr>)
         else if dw10 = 0x80 then put (ft\<lparr>ft_sw_prog_marker := dw11\<rparr>)
         else Some (INVALID_FIELD, req, n))"


subsection \<open>Log pages\<close>

definition el_bytes :: "NvmeErrorLog \<Rightarrow> int list" where
  "el_bytes e = le_bytes 8 (el_error_count e) @ le_bytes 2 (el_sqid e) @ le_bytes 2 (el_cid e) @ le_bytes 2 (el_status_field e) @
     le_bytes 2 (el_location e) @ le_bytes 8 (el_lba e) @ le_bytes 4 (el_nsid e) @ zeros 36"

text \<open>Reading a log allows the next event of its type.\<close>

definition unmask_event :: "NvmeCtrl \<Rightarrow> int \<Rightarrow> int \<Rightarrow> NvmeCtrl" where
  "unmask_event n event_type delay =
     (let n1 = n\<lparr>n_aer_mask := n_aer_mask n - (n_aer_mask n AND 2 ^ nat event_type)\<rparr>
      in if n_aer_queue n1 = [] then n1 else let (t, n2) = get_ns n1 in n2\<lparr>n_aer_timer := Some (t + delay)\<rparr>)"

text \<open>The log of the firmware slots is never filled in: the guest gets the bytes that are on the stack.\<close>

definition nvme_fw_log_info :: "blk_env \<Rightarrow> NvmeCtrl \<Rightarrow> NvmeCmd \<Rightarrow> int \<Rightarrow> (int \<times> NvmeCtrl) option" where
  "nvme_fw_log_info env n cmd buf_len =
     do {
       (st, bs, n1) \<leftarrow> nvme_dma_read_prp n (map (stack_bytes env (ticks_of n)) [0..<512]) (min 512 buf_len) (cmd_prp1 cmd) (cmd_prp2 cmd);
       Some (st, n1)
     }"

definition nvme_error_log_info :: "NvmeCtrl \<Rightarrow> NvmeCmd \<Rightarrow> int \<Rightarrow> (int \<times> NvmeCtrl) option" where
  "nvme_error_log_info n cmd buf_len =
     (let log = concat (map el_bytes (n_elpes n))
      in do {
        (st, bs, n1) \<leftarrow> nvme_dma_read_prp (unmask_event n NVME_AER_TYPE_ERROR 20000) log (min (64 * n_elpe n) buf_len) (cmd_prp1 cmd) (cmd_prp2 cmd);
        (if bs = log then Some (st, n1) else None)
      })"

text \<open>\<open>available_spare\<close> is left at zero, so the spare warning is always set.\<close>

definition smart_bytes :: "blk_env \<Rightarrow> NvmeCtrl \<Rightarrow> int list" where
  "smart_bytes env n =
     (let (rd, wr, rd_ops, wr_ops) = blk_acct env (ticks_of n); available_spare = (0 :: int); pair = (\<lambda>x. le_bytes 8 x @ zeros 8);
          hours = (wall_time env (ticks_of n) - n_start_time n) sdiv 60 sdiv 60;
          warning = (if available_spare \<le> NVME_SPARE_THRESHOLD then 1 else 0) OR (if ft_temp_thresh (n_features n) \<le> n_temperature n then 2 else 0)
      in [warning, n_temperature n mod 2 ^ 8, n_temperature n div 2 ^ 8 mod 2 ^ 8, available_spare, NVME_SPARE_THRESHOLD, 0] @ zeros 26 @
         pair rd @ pair wr @ pair rd_ops @ pair wr_ops @ zeros 16 @ zeros 16 @ pair hours @ zeros 16 @ zeros 16 @ pair (n_num_errors n) @ zeros 320)"

definition nvme_smart_info :: "blk_env \<Rightarrow> NvmeCtrl \<Rightarrow> NvmeCmd \<Rightarrow> int \<Rightarrow> (int \<times> NvmeCtrl) option" where
  "nvme_smart_info env n cmd buf_len =
     do {
       (st, bs, n1) \<leftarrow> nvme_dma_read_prp (unmask_event n NVME_AER_TYPE_SMART 500) (smart_bytes env n) (min 512 buf_len) (cmd_prp1 cmd) (cmd_prp2 cmd);
       Some (st, n1)
     }"

definition nvme_get_log :: "blk_env \<Rightarrow> NvmeCtrl \<Rightarrow> NvmeCmd \<Rightarrow> (int \<times> NvmeCtrl) option" where
  "nvme_get_log env n cmd =
     (let lid = lo16 (dw cmd 10); len = dw cmd 10 div 2 ^ 16 mod 2 ^ 8 * 4
      in if lid = NVME_LOG_ERROR_INFO then nvme_error_log_info n cmd len
         else if lid = NVME_LOG_SMART_INFO then nvme_smart_info env n cmd len
         else if lid = NVME_LOG_FW_SLOT_INFO then nvme_fw_log_info env n cmd len
         else Some (INVALID_LOG_ID, n))"

subsection \<open>Namespaces\<close>

definition ns_blks :: "NvmeCtrl \<Rightarrow> NvmeNamespace \<Rightarrow> int \<Rightarrow> int" where
  "ns_blks n ns lba_idx = n_ns_size n div (2 ^ snd (ns_lbaf ns ! nat lba_idx) + n_meta n)"

definition ns_bdrv_blks :: "NvmeNamespace \<Rightarrow> int \<Rightarrow> int \<Rightarrow> int" where
  "ns_bdrv_blks ns blks lba_idx = blks * 2 ^ (snd (ns_lbaf ns ! nat lba_idx) - BDRV_SECTOR_BITS)"

text \<open>The tables of open-channel devices and the offset of metadata on the drive, which nothing reads, are left out.\<close>

definition nvme_partition_ns :: "NvmeNamespace \<Rightarrow> int \<Rightarrow> NvmeNamespace" where
  "nvme_partition_ns ns blks =
     ns\<lparr>ns_nsze := blks, ns_util := replicate (nat blks) False, ns_uncorrectable := replicate (nat blks) False\<rparr>"

text \<open>The formatted blocks keep their data and the device keeps their mapping, also for a secure erase.\<close>

definition nvme_format_namespace :: "NvmeCtrl \<Rightarrow> NvmeNamespace \<Rightarrow> int \<Rightarrow> int \<Rightarrow> int \<Rightarrow> int \<Rightarrow> int \<times> NvmeNamespace" where
  "nvme_format_namespace n ns lba_idx meta_loc pil pi =
     (let ms = fst (ns_lbaf ns ! nat lba_idx); dpc = ns_dpc ns; mc = ns_mc ns
      in if ns_nlbaf ns < lba_idx then (INVALID_FORMAT, ns)
         else if pi \<noteq> 0 \<and> pil \<noteq> 0 \<and> dpc div 2 ^ 4 mod 2 = 0 then (INVALID_FORMAT, ns)
         else if pi \<noteq> 0 \<and> pil = 0 \<and> dpc div 2 ^ 3 mod 2 = 0 then (INVALID_FORMAT, ns)
         else if pi \<noteq> 0 \<and> (dpc AND 7) AND 2 ^ nat (pi - 1) = 0 then (INVALID_FORMAT, ns)
         else if meta_loc \<noteq> 0 \<and> ms \<noteq> 0 \<and> mc mod 2 = 0 then (INVALID_FORMAT, ns)
         else if meta_loc = 0 \<and> ms \<noteq> 0 \<and> mc div 2 mod 2 = 0 then (INVALID_FORMAT, ns)
         else (NVME_SUCCESS, nvme_partition_ns (ns\<lparr>ns_flbas := lba_idx OR meta_loc, ns_dps := pil OR pi\<rparr>) (ns_blks n ns lba_idx)))"

fun format_all :: "(NvmeNamespace \<Rightarrow> int \<times> NvmeNamespace) \<Rightarrow> NvmeNamespace list \<Rightarrow> int \<times> NvmeNamespace list" where
  "format_all f [] = (NVME_SUCCESS, [])"
| "format_all f (ns # nss) =
     (let (st, ns1) = f ns
      in if st \<noteq> NVME_SUCCESS then (st, ns1 # nss) else let (st1, nss1) = format_all f nss in (st1, ns1 # nss1))"

definition nvme_format :: "NvmeCtrl \<Rightarrow> NvmeCmd \<Rightarrow> (int \<times> NvmeCtrl) option" where
  "nvme_format n cmd =
     (let dw10 = dw cmd 10; nsid = cmd_nsid cmd;
          f = (\<lambda>ns. nvme_format_namespace n ns (dw10 AND 0xf) (dw10 AND 0x10) (dw10 div 2 ^ 5 AND 0x8) (dw10 div 2 ^ 5 AND 0x7))
      in if nsid = 0xffffffff then let (st, nss) = format_all f (n_namespaces n) in Some (st, n\<lparr>n_namespaces := nss\<rparr>)
         else if nsid = 0 \<or> n_num_namespaces n < nsid then Some (INVALID_NSID, n)
         else do {
           ns \<leftarrow> cread (n_namespaces n) (nsid - 1);
           let (st, ns1) = f ns;
           nss \<leftarrow> cwrite (n_namespaces n) (nsid - 1) ns1;
           Some (st, n\<lparr>n_namespaces := nss\<rparr>)
         })"


subsection \<open>Registers\<close>

text \<open>The capabilities register, from the fields that the model keeps of it.\<close>

definition cap_of :: "blk_env \<Rightarrow> NvmeCtrl \<Rightarrow> int" where
  "cap_of env n = n_mqes n OR n_cqr n mod 2 * 2 ^ 16 OR 2 ^ 17 OR 0xf * 2 ^ 24 OR int (n_db_stride n) mod 2 ^ 4 * 2 ^ 32 OR 2 ^ 37 OR
     (if n_femu_mode n = FEMU_WHITEBOX_MODE \<and> oc_dev env then 2 ^ 44 else 0) OR n_mpsmin n mod 2 ^ 4 * 2 ^ 48 OR n_mpsmax n mod 2 ^ 4 * 2 ^ 52"

definition bar_bytes :: "blk_env \<Rightarrow> NvmeCtrl \<Rightarrow> int list" where
  "bar_bytes env n = le_bytes 8 (cap_of env n) @ le_bytes 4 (n_vs n) @ le_bytes 4 (n_intms n) @ le_bytes 4 (n_intmc n) @ le_bytes 4 (n_cc n) @
     zeros 4 @ le_bytes 4 (n_csts n) @ zeros 4 @ le_bytes 4 (n_aqa n) @ le_bytes 8 (n_asq n) @ le_bytes 8 (n_acq n) @
     le_bytes 4 (n_cmbloc n) @ le_bytes 4 (n_cmbsz n)"

text \<open>An access that starts in the registers and ends behind them reads the field after \<open>bar\<close>.\<close>

definition nvme_mmio_read :: "blk_env \<Rightarrow> NvmeCtrl \<Rightarrow> int \<Rightarrow> int \<Rightarrow> int option" where
  "nvme_mmio_read env n addr sz =
     (if 64 \<le> addr then Some 0
      else if 64 < addr + sz then None
      else Some (le_int (take (nat sz) (drop (nat addr) (bar_bytes env n)))))"

definition nvme_cmb_write :: "NvmeCtrl \<Rightarrow> int \<Rightarrow> int \<Rightarrow> int \<Rightarrow> NvmeCtrl option" where
  "nvme_cmb_write n addr data sz =
     (if addr < 0 \<or> n_cmb_size n < addr + sz then None else Some (n\<lparr>n_cmbuf := store (n_cmbuf n) addr (le_bytes (nat sz) data)\<rparr>))"

text \<open>Only the lower \<open>size\<close> bytes of the result are set.\<close>

definition nvme_cmb_read :: "NvmeCtrl \<Rightarrow> int \<Rightarrow> int \<Rightarrow> int option" where
  "nvme_cmb_read n addr sz = (if addr < 0 \<or> n_cmb_size n < addr + sz then None else Some (le_int (bytes_at (n_cmbuf n) addr sz)))"

subsection \<open>Construction\<close>

text \<open>The properties of the device (\<open>nvme_props\<close>) that are not about open-channel devices, and its PCI identifiers.\<close>

record NvmeProps =
  pr_blk :: bool
  pr_serial :: "string option"
  pr_namespaces :: int
  pr_queues :: int
  pr_entries :: int
  pr_max_cqes :: int
  pr_max_sqes :: int
  pr_stride :: nat
  pr_aerl :: nat
  pr_acl :: int
  pr_elpe :: nat
  pr_mdts :: nat
  pr_cqr :: int
  pr_vwc :: int
  pr_intc :: int
  pr_intc_thresh :: int
  pr_intc_time :: int
  pr_mpsmin :: int
  pr_mpsmax :: int
  pr_nlbaf :: int
  pr_lba_index :: int
  pr_extended :: int
  pr_dpc :: int
  pr_dps :: int
  pr_mc :: int
  pr_meta :: int
  pr_cmbsz :: int
  pr_cmbloc :: int
  pr_oacs :: int
  pr_oncs :: int
  pr_vid :: int
  pr_ssvid :: int
  pr_femu_mode :: int

definition nvme_check_constraints :: "NvmeProps \<Rightarrow> int" where
  "nvme_check_constraints p =
     (if \<not> pr_blk p \<or> pr_serial p = None \<or> pr_namespaces p = 0 \<or> 256 < pr_namespaces p \<or> pr_queues p < 1 \<or> 0x7ff < pr_queues p \<or>
         12 < pr_stride p \<or> pr_entries p < 1 \<or> 0xf < pr_max_sqes p \<or> 0xf < pr_max_cqes p \<or> pr_max_sqes p < 6 \<or> pr_max_cqes p < 4 \<or>
         1 < pr_vwc p \<or> 1 < pr_intc p \<or> 1 < pr_cqr p \<or> 1 < pr_extended p \<or> 16 < pr_nlbaf p \<or> pr_nlbaf p \<le> pr_lba_index p \<or>
         pr_meta p \<noteq> 0 \<and> pr_mc p = 0 \<or> pr_extended p \<noteq> 0 \<and> pr_mc p mod 2 = 0 \<or>
         pr_extended p = 0 \<and> pr_meta p \<noteq> 0 \<and> pr_mc p div 2 mod 2 = 0 \<or> pr_dps p \<noteq> 0 \<and> pr_meta p < 8 \<or>
         pr_dps p \<noteq> 0 \<and> pr_dps p AND 8 \<noteq> 0 \<and> pr_dpc p div 2 ^ 3 mod 2 = 0 \<or>
         pr_dps p \<noteq> 0 \<and> pr_dps p AND 8 = 0 \<and> pr_dpc p div 2 ^ 4 mod 2 = 0 \<or>
         pr_dps p AND 7 \<noteq> 0 \<and> (pr_dpc p AND 7) AND 2 ^ nat ((pr_dps p AND 7) - 1) = 0 \<or>
         0xf < pr_mpsmax p \<or> pr_mpsmin p < pr_mpsmax p \<or> pr_oacs p - (pr_oacs p AND 2) \<noteq> 0 \<or> pr_oncs p - (pr_oncs p AND 0xf) \<noteq> 0
      then - 1 else 0)"

definition strpadcpy :: "nat \<Rightarrow> string \<Rightarrow> int list" where
  "strpadcpy sz str = (let cs = map (\<lambda>c. int (of_char c)) (take sz str) in cs @ replicate (sz - length cs) 0x20)"

definition id_ctrl_bytes :: "NvmeProps \<Rightarrow> int list" where
  "id_ctrl_bytes p = le_bytes 2 (pr_vid p) @ le_bytes 2 (pr_ssvid p) @ strpadcpy 20 (case pr_serial p of None \<Rightarrow> [] | Some s \<Rightarrow> s) @
     strpadcpy 40 ''FEMU NVMe Ctrl'' @ strpadcpy 8 ''1.0'' @ [6, 0x00, 0x02, 0xb3, 0, int (pr_mdts p)] @ zeros 178 @
     le_bytes 2 (pr_oacs p OR 2 ^ 8) @ [pr_acl p, int (pr_aerl p), 15, 0, int (pr_elpe p), 0] @ zeros 248 @
     [u8 (pr_max_sqes p * 2 ^ 4) OR 0x6, u8 (pr_max_cqes p * 2 ^ 4) OR 0x4, 0, 0] @ le_bytes 4 (pr_namespaces p) @ le_bytes 2 (pr_oncs p) @
     [0, 0, 0, pr_vwc p, 0, 0, 0, 0] @ zeros 174 @ zeros 1344 @ le_bytes 2 0x9c4 @ zeros 2 @ le_bytes 4 0x10 @ le_bytes 4 0x4 @ zeros 20 @
     zeros 992 @ zeros 1024"

text \<open>The part of \<open>nvme_init_ctrl\<close> that sets the features, the registers and the temperature.\<close>

definition nvme_init_ctrl :: "NvmeProps \<Rightarrow> NvmeCtrl \<Rightarrow> NvmeCtrl" where
  "nvme_init_ctrl p n =
     n\<lparr>n_id_ctrl := id_ctrl_bytes p,
       n_features := \<lparr>ft_arbitration = 0x1f0f0706, ft_power_mgmt = 0, ft_temp_thresh = 0x14d, ft_err_rec = 0, ft_volatile_wc = pr_vwc p,
         ft_int_coalescing = pr_intc_thresh p OR pr_intc_time p * 2 ^ 8,
         ft_int_vector_config = map (\<lambda>i. i OR pr_intc p * 2 ^ 16) (cupto (pr_queues p + 1)),
         ft_write_atomicity = 0, ft_async_config = 0, ft_sw_prog_marker = 0\<rparr>,
       n_mqes := pr_entries p mod 2 ^ 16, n_cqr := pr_cqr p mod 2, n_mpsmin := pr_mpsmin p mod 2 ^ 4, n_mpsmax := pr_mpsmax p mod 2 ^ 4,
       n_vs := (if pr_cmbsz p \<noteq> 0 then 0x00010200 else 0x00010100), n_intms := 0, n_intmc := 0, n_temperature := NVME_TEMPERATURE\<rparr>"


definition nvme_init_namespace :: "blk_env \<Rightarrow> NvmeProps \<Rightarrow> NvmeCtrl \<Rightarrow> int \<Rightarrow> NvmeNamespace" where
  "nvme_init_namespace env p n i =
     (let flbas = u8 (pr_lba_index p OR pr_extended p * 2 ^ 4); lba_index = flbas mod 2 ^ 4;
          ns = \<lparr>ns_id = i + 1, ns_nsze = 0, ns_nlbaf = u8 (pr_nlbaf p - 1), ns_flbas = flbas, ns_mc = pr_mc p, ns_dpc = pr_dpc p, ns_dps = pr_dps p,
            ns_lbaf = map (\<lambda>j. if j = 0 \<or> int j < pr_nlbaf p then (24, 12) else (0, 0)) [0..<16],
            ns_vs = (if n_femu_mode n = FEMU_WHITEBOX_MODE \<and> oc_dev env then 1 else 0), ns_lba_range = zeros 64, ns_start_block = 0,
            ns_util = [], ns_uncorrectable = []\<rparr>;
          blks = ns_blks n ns lba_index
      in nvme_partition_ns (ns\<lparr>ns_start_block := u64 (i * (n_ns_size n div 2 ^ 9 + n_meta n * ns_bdrv_blks ns blks lba_index))\<rparr>) blks)"

definition nvme_init_namespaces :: "blk_env \<Rightarrow> NvmeProps \<Rightarrow> NvmeCtrl \<Rightarrow> NvmeCtrl" where
  "nvme_init_namespaces env p n = n\<lparr>n_namespaces := map (nvme_init_namespace env p n) (cupto (n_num_namespaces n))\<rparr>"

definition cmb_bytes :: "int \<Rightarrow> int" where
  "cmb_bytes cmbsz = cmbsz div 2 ^ 12 mod 2 ^ 20 * 2 ^ nat (12 + 4 * (cmbsz div 2 ^ 8 mod 2 ^ 4))"

text \<open>The controller with its arrays allocated and everything else zero; \<open>mem\<close> is the memory of the guest.\<close>

definition blank_ctrl :: "NvmeProps \<Rightarrow> int \<Rightarrow> int \<Rightarrow> (int \<Rightarrow> int) \<Rightarrow> ssdstate \<Rightarrow> NvmeCtrl" where
  "blank_ctrl p bs_size now mem ssd =
     \<lparr>n_ssd = ssd, n_mem = mem, n_heap = \<lambda>a. 0, n_heap_size = bs_size, n_cmbsz = pr_cmbsz p, n_cmb_addr = 0, n_cmb_size = cmb_bytes (pr_cmbsz p),
      n_cmbuf = \<lambda>a. 0, n_page_size = 0, n_page_bits = 0, n_max_prp_ents = 0, n_cqe_size = 0, n_sqe_size = 0, n_num_io_queues = pr_queues p,
      n_num_namespaces = pr_namespaces p, n_db_stride = pr_stride p, n_mdts = pr_mdts p, n_oncs = pr_oncs p, n_vwc = pr_vwc p,
      n_features = \<lparr>ft_arbitration = 0, ft_power_mgmt = 0, ft_temp_thresh = 0, ft_err_rec = 0, ft_volatile_wc = 0, ft_int_coalescing = 0,
        ft_int_vector_config = [], ft_write_atomicity = 0, ft_async_config = 0, ft_sw_prog_marker = 0\<rparr>,
      n_temperature = 0, n_temp_warn_issued = 0, n_start_time = now, n_oacs = pr_oacs p, n_id_ctrl = [], n_mqes = 0, n_cqr = 0, n_dbs_addr = 0,
      n_eis_addr = 0, n_femu_mode = pr_femu_mode p, n_meta_buf = [], n_namespaces = [], n_sq = replicate (nat (pr_queues p + 1)) None,
      n_cq = replicate (nat (pr_queues p + 1)) None, n_notified = [],
      n_elpes = replicate (pr_elpe p + 1) \<lparr>el_error_count = 0, el_sqid = 0, el_cid = 0, el_status_field = 0, el_location = 0, el_lba = 0, el_nsid = 0\<rparr>,
      n_elp_index = 0, n_elpe = int (pr_elpe p), n_error_count = 0, n_num_errors = 0, n_aerl = int (pr_aerl p), n_outstanding_aers = 0,
      n_aer_reqs = replicate (pr_aerl p + 1) None, n_aer_queue = [], n_aer_mask = 0, n_aer_timer = None, n_csts = 0, n_cc = 0, n_aqa = 0, n_asq = 0,
      n_acq = 0, n_intms = 0, n_intmc = 0, n_vs = 0, n_cmbloc = (if pr_cmbsz p \<noteq> 0 then pr_cmbloc p else 0), n_mpsmin = 0, n_mpsmax = 0,
      n_max_sqes = pr_max_sqes p, n_max_cqes = pr_max_cqes p, n_ns_size = bs_size div pr_namespaces p, n_meta = pr_meta p\<rparr>"

text \<open>\<open>Inl\<close> is the result \<open>-1\<close>. The last arguments are those of \<open>SSD_INIT\<close>.\<close>

definition nvme_init :: "blk_env \<Rightarrow> NvmeProps \<Rightarrow> int \<Rightarrow> int \<Rightarrow> (int \<Rightarrow> int) \<Rightarrow> (clock_src \<Rightarrow> nat \<Rightarrow> int) \<Rightarrow> string option \<Rightarrow> data_files \<Rightarrow> bool \<Rightarrow>
    (int \<times> int) list option \<Rightarrow> (unit + NvmeCtrl) option" where
  "nvme_init env p bs_size now mem clk conffile fs statfile trace =
     (if nvme_check_constraints p \<noteq> 0 \<or> bs_size < 0 then Some (Inl ())
      else
        let n = nvme_init_namespaces env p (nvme_init_ctrl p (blank_ctrl p bs_size now mem (zero_ssd clk)))
        in if pr_femu_mode p = FEMU_WHITEBOX_MODE \<and> oc_dev env then
             (case oc_init env n of None \<Rightarrow> Some (Inl ()) | Some n1 \<Rightarrow> Some (Inr n1))
           else if pr_femu_mode p = FEMU_BLACKBOX_MODE then do { ssd \<leftarrow> SSD_INIT clk conffile fs statfile trace; Some (Inr (n\<lparr>n_ssd := ssd\<rparr>)) }
           else Some (Inr n))"


section \<open>Lemmas\<close>

subsection \<open>Sizes of the structures\<close>

lemma length_zeros [simp]: "length (zeros k) = k"
  by (simp add: zeros_def)

lemma length_strpadcpy [simp]: "length (strpadcpy k s) = k"
  by (simp add: strpadcpy_def Let_def)

lemma length_lbafs: "length (concat (map lbaf_bytes fs)) = 4 * length fs"
  by (induction fs) (auto simp: lbaf_bytes_def simp del: le_bytes.simps)

lemma structure_sizes:
  "length (id_ctrl_bytes p) = 4096" "length (ns_lbaf ns) = 16 \<Longrightarrow> length (id_ns_bytes ns) = 4096" "length (bar_bytes env n) = 64"
  "length (el_bytes e) = 64" "length (smart_bytes env n) = 512"
  by (simp_all add: id_ctrl_bytes_def id_ns_bytes_def bar_bytes_def el_bytes_def smart_bytes_def length_lbafs Let_def split: prod.splits del: le_bytes.simps)

subsection \<open>Queues are left alone\<close>

lemma event_queues: "same_queues n (nvme_enqueue_event n a b c)"
proof -
  obtain t n1 where g: "get_ns n = (t, n1)" by (cases "get_ns n")
  show ?thesis using same_queues_ns [OF g] by (simp add: nvme_enqueue_event_def g same_queues_def)
qed

lemma unmask_queues: "same_queues n (unmask_event n a b)"
proof -
  let ?n = "n\<lparr>n_aer_mask := n_aer_mask n - (n_aer_mask n AND 2 ^ nat a)\<rparr>"
  obtain t n1 where g: "get_ns ?n = (t, n1)" by (cases "get_ns ?n")
  show ?thesis using same_queues_ns [OF g] by (simp add: unmask_event_def Let_def g same_queues_def)
qed

lemma identify_queues: "nvme_identify n cmd = Some (st, n') \<Longrightarrow> same_queues n n'"
  by (auto simp: nvme_identify_def Let_def same_queues_def split: if_splits bind_splits prod.splits dest!: dma_queues(2))

lemma range_queues: "get_lba_range n cmd = Some (st, n') \<Longrightarrow> same_queues n n'" "set_lba_range n cmd = Some (st, n') \<Longrightarrow> same_queues n n'"
  by (auto simp: get_lba_range_def set_lba_range_def Let_def same_queues_def split: if_splits bind_splits prod.splits dest!: dma_queues)

lemma log_queues: "nvme_get_log env n cmd = Some (st, n') \<Longrightarrow> same_queues n n'"
  using unmask_queues same_queues_trans
  by (fastforce simp: nvme_get_log_def nvme_error_log_info_def nvme_smart_info_def nvme_fw_log_info_def Let_def
      split: if_splits bind_splits prod.splits dest!: dma_queues(2))

lemma format_queues: "nvme_format n cmd = Some (st, n') \<Longrightarrow> same_queues n n'"
  by (auto simp: nvme_format_def Let_def same_queues_def split: if_splits bind_splits prod.splits)

lemma set_temp_queues: "same_queues n (set_temp_thresh n v)"
proof -
  have "same_queues n (nvme_enqueue_event (n\<lparr>n_features := f, n_temp_warn_issued := w\<rparr>) a b c)" for f w a b c
    by (rule same_queues_trans [OF _ event_queues]) (simp add: same_queues_def)
  then show ?thesis by (simp add: set_temp_thresh_def Let_def) (simp add: same_queues_def)
qed

lemma with_result_same [simp]: "same_req req (with_result req v)" "rq_sq (with_result req v) = rq_sq req" "rq_idx (with_result req v) = rq_idx req"
  by (simp_all add: with_result_def same_req_def)

lemma feature_queues:
  "nvme_get_feature n cmd req = Some (st, req', n') \<Longrightarrow> same_queues n n' \<and> same_req req req'"
  "nvme_set_feature n cmd req = Some (st, req', n') \<Longrightarrow> same_queues n n' \<and> same_req req req'"
  by (auto simp: nvme_get_feature_def nvme_set_feature_def Let_def set_temp_queues split: if_splits bind_splits prod.splits dest: range_queues)
    (auto simp: same_queues_def)


subsection \<open>Features\<close>

lemma temp_thresh_set: "ft_temp_thresh (n_features (set_temp_thresh n v)) = v"
proof -
  have "n_features (nvme_enqueue_event m a b c) = n_features m" for m a b c
    by (simp add: nvme_enqueue_event_def get_ns_def split: prod.splits)
  then show ?thesis by (simp add: set_temp_thresh_def Let_def)
qed

lemma feature_read_back:
  assumes "dw scmd 10 = fid" "dw gcmd 10 = fid" "fid \<in> {0x1, 0x2, 0x4, 0x5, 0x6, 0x8, 0xa, 0xb, 0x80}"
  shows "\<exists>req' n'. nvme_set_feature n scmd req = Some (NVME_SUCCESS, req', n') \<and> nvme_get_feature n' gcmd greq = Some (NVME_SUCCESS, with_result greq (dw scmd 11), n')"
  using assms by (auto simp: nvme_set_feature_def nvme_get_feature_def Let_def temp_thresh_set)

lemma vector_read_back:
  assumes "dw scmd 10 = 0x9" "dw gcmd 10 = 0x9" "dw gcmd 11 mod 2 ^ 16 = dw scmd 11 mod 2 ^ 16" "dw scmd 11 mod 2 ^ 16 \<le> n_num_io_queues n"
    "int (length (ft_int_vector_config (n_features n))) = n_num_io_queues n + 1"
  shows "\<exists>n'. nvme_set_feature n scmd req = Some (NVME_SUCCESS, req, n') \<and> nvme_get_feature n' gcmd greq = Some (NVME_SUCCESS, with_result greq (dw scmd 11 mod 2 ^ 17), n')"
proof -
  let ?v = "dw scmd 11 mod 2 ^ 16" and ?ft = "n_features n"
  have v: "0 \<le> ?v" "nat ?v < length (ft_int_vector_config ?ft)" using assms(4,5) by auto
  let ?n = "n\<lparr>n_features := ?ft\<lparr>ft_int_vector_config := (ft_int_vector_config ?ft)[nat ?v := dw scmd 11 mod 2 ^ 17]\<rparr>\<rparr>"
  have "nvme_set_feature n scmd req = Some (NVME_SUCCESS, req, ?n)" using assms(1,4) v by (simp add: nvme_set_feature_def Let_def cwrite_def)
  moreover have "nvme_get_feature ?n gcmd greq = Some (NVME_SUCCESS, with_result greq (dw scmd 11 mod 2 ^ 17), ?n)"
    using assms(2-4) v by (simp add: nvme_get_feature_def Let_def cread_def)
  ultimately show ?thesis by blast
qed

lemma temp_event_once:
  assumes "v \<le> n_temperature n" "n_csts n AND 1 \<noteq> 0"
  shows "n_aer_queue (set_temp_thresh n v) = n_aer_queue n @ (if n_temp_warn_issued n = 0 then [(1, 1, 2)] else [])"
    "n_temp_warn_issued (set_temp_thresh n v) \<noteq> 0"
  using assms by (auto simp: set_temp_thresh_def nvme_enqueue_event_def get_ns_def Let_def split: prod.splits)

subsection \<open>Identification\<close>

lemma map_page:
  assumes "prp_conf n" "prp \<noteq> 0" "prp mod n_page_size n = 0" "0 < len" "len \<le> 4096"
  shows "nvme_map_prp n prp prp2 len = Some (Inr (False, [(prp, len)]))"
  using prp_confD [OF assms(1)] assms(2-5) by (simp add: nvme_map_prp_def seg_of_def Let_def u32_def)

lemma identify_namespace_ok:
  assumes "prp_conf n" "cmd_prp1 cmd \<noteq> 0" "cmd_prp1 cmd mod n_page_size n = 0" "dw cmd 10 = 0" "1 \<le> cmd_nsid cmd"
    "cmd_nsid cmd \<le> n_num_namespaces n" "cread (n_namespaces n) (cmd_nsid cmd - 1) = Some ns" "length (ns_lbaf ns) = 16"
  shows "nvme_identify n cmd = Some (NVME_SUCCESS, n\<lparr>n_mem := store (n_mem n) (cmd_prp1 cmd) (id_ns_bytes ns)\<rparr>)"
proof -
  have l: "length (id_ns_bytes ns) = 4096" by (rule structure_sizes(2) [OF assms(8)])
  have "nvme_dma_read_prp n (id_ns_bytes ns) 4096 (cmd_prp1 cmd) (cmd_prp2 cmd) =
      Some (NVME_SUCCESS, id_ns_bytes ns, n\<lparr>n_mem := store (n_mem n) (cmd_prp1 cmd) (id_ns_bytes ns)\<rparr>)"
    using map_page [OF assms(1-3), of 4096] l by (simp add: nvme_dma_read_prp_def)
  then show ?thesis using assms(4-7) by (simp add: nvme_identify_def Let_def)
qed

subsection \<open>Construction\<close>

lemma format_index:
  assumes "0 \<le> x" "x < 16" "0 \<le> e" "e \<le> 1"
  shows "u8 (x OR e * 2 ^ 4) mod 2 ^ 4 = x"
proof -
  have "take_bit 4 (x OR e * 2 ^ 4) = x"
  proof -
    have "take_bit 4 x = x" "take_bit 4 (e * 2 ^ 4) = 0" using assms by (simp_all add: take_bit_eq_mod)
    then show ?thesis by (simp add: take_bit_or)
  qed
  then show ?thesis by (simp add: u8_def mod_mod_cancel take_bit_eq_mod)
qed

text \<open>What \<open>nvme_check_constraints\<close> and the unsigned types of the properties say about the LBA formats.\<close>

definition format_props :: "NvmeProps \<Rightarrow> bool" where
  "format_props p \<longleftrightarrow> 0 \<le> pr_lba_index p \<and> pr_lba_index p < pr_nlbaf p \<and> pr_nlbaf p \<le> 16 \<and> 0 \<le> pr_extended p \<and> pr_extended p \<le> 1"

lemma init_namespace_ok:
  assumes "format_props p" "ns = nvme_init_namespace env p n i"
  shows "ns_id ns = i + 1" "ns_ds ns = 12" "ns_nsze ns = n_ns_size n div (4096 + n_meta n)" "length (ns_lbaf ns) = 16" "ns_dps ns = pr_dps p"
    "ns_uncorrectable ns = replicate (nat (ns_nsze ns)) False"
proof -
  have p: "0 \<le> pr_lba_index p" "pr_lba_index p < 16" "nat (pr_lba_index p) < 16" "pr_lba_index p < pr_nlbaf p" using assms(1) by (auto simp: format_props_def)
  have k: "u8 (pr_lba_index p OR pr_extended p * 2 ^ 4) mod 2 ^ 4 = pr_lba_index p"
    using format_index p assms(1) by (simp add: format_props_def)
  have f: "map (\<lambda>j. if j = 0 \<or> int j < pr_nlbaf p then (24 :: int, 12 :: nat) else (0, 0)) [0..<16] ! nat (pr_lba_index p) = (24, 12)"
    using p by (simp del: upt_rec_numeral)
  show "ns_id ns = i + 1" "length (ns_lbaf ns) = 16" "ns_dps ns = pr_dps p" "ns_uncorrectable ns = replicate (nat (ns_nsze ns)) False"
    using assms(2) by (simp_all add: nvme_init_namespace_def nvme_partition_ns_def Let_def del: upt_rec_numeral)
  show "ns_ds ns = 12" "ns_nsze ns = n_ns_size n div (4096 + n_meta n)"
    using assms(2) p f by (simp_all add: nvme_init_namespace_def nvme_partition_ns_def Let_def ns_ds_def ns_blks_def k [simplified] del: upt_rec_numeral)
qed

end
