(* ===== verification/NvmeAdmin.thy ===== *)
theory NvmeAdmin
  imports NvmeFeatures
begin

section \<open>Administration of the controller\<close>

text \<open>
  The life of queues (\<open>nvme_create_sq\<close>, \<open>nvme_create_cq\<close> and their deletion), the abort and asynchronous-event
  commands, the polling of the admin queue, the doorbells and the registers that start and stop the controller.
  The fields of the commands are those of the structs \<open>NvmeDeleteQ\<close>, \<open>NvmeCreateCq\<close> and \<open>NvmeCreateSq\<close>.
\<close>

definition INVALID_CQID :: int where "INVALID_CQID = NVME_INVALID_CQID OR NVME_DNR"
definition INVALID_QID :: int where "INVALID_QID = NVME_INVALID_QID OR NVME_DNR"
definition MAX_QSIZE_EXCEEDED :: int where "MAX_QSIZE_EXCEEDED = NVME_MAX_QSIZE_EXCEEDED OR NVME_DNR"
definition INVALID_IRQ_VECTOR :: int where "INVALID_IRQ_VECTOR = 0x0108 OR NVME_DNR"

subsection \<open>Queues\<close>

definition blank_req :: "int \<Rightarrow> nat \<Rightarrow> NvmeRequest" where
  "blank_req sqid i = \<lparr>rq_sq = sqid, rq_idx = i, rq_cid = 0, rq_opcode = 0, rq_status = 0, rq_slba = 0, rq_nlb = 0, rq_is_write = False,
     rq_data_offset = 0, rq_expire_time = 0, rq_qsg = [], rq_qsg_size = 0, rq_aiocb = False, rq_result = 0\<rparr>"

text \<open>\<open>arb_burst\<close> is an \<open>uint8_t\<close>.\<close>

definition arb_burst_of :: "int \<Rightarrow> int \<Rightarrow> int" where
  "arb_burst_of arbitration prio =
     u8 (if prio = 0 then 2 ^ nat (arbitration mod 2 ^ 3)
         else if prio = 1 then arbitration div 2 ^ 24 mod 2 ^ 8 + 1
         else if prio = 2 then arbitration div 2 ^ 16 mod 2 ^ 8 + 1
         else arbitration div 2 ^ 8 mod 2 ^ 8 + 1)"

definition db_entry_size :: "NvmeCtrl \<Rightarrow> int" where
  "db_entry_size n = 2 ^ (2 + n_db_stride n)"

text \<open>The admin queues are part of the controller; their counter \<open>completed\<close>, which nothing reads, restarts here.\<close>

definition nvme_init_sq :: "NvmeCtrl \<Rightarrow> int \<Rightarrow> int \<Rightarrow> int \<Rightarrow> int \<Rightarrow> int \<Rightarrow> bool \<Rightarrow> (int \<times> NvmeCtrl) option" where
  "nvme_init_sq n dma_addr sqid cqid sz prio contig =
     do {
       prps \<leftarrow> (if contig then Some (Some []) else nvme_setup_discontig n dma_addr sz (n_sqe_size n));
       (case prps of
          None \<Rightarrow> Some (INVALID_FIELD, n)
        | Some prp_list \<Rightarrow> do {
            cq \<leftarrow> get_cq n cqid;
            let (t, n1) = (if sqid = 0 then (None, n) else let (now, n1) = get_ns n in (Some (now + 1000000), n1));
            let n2 = put_cq n1 (cq\<lparr>cq_sq_list := cq_sq_list cq @ [sqid]\<rparr>);
            sqs \<leftarrow> cwrite (n_sq n2) sqid (Some \<lparr>sq_sqid = sqid, sq_cqid = cqid, sq_head = 0, sq_tail = 0, sq_size = sz, sq_contig = contig,
              sq_dma_addr = (if contig then dma_addr else 0), sq_prp_list = prp_list, sq_arb_burst = arb_burst_of (ft_arbitration (n_features n)) prio,
              sq_completed = 0, sq_req_list = map (blank_req sqid) [0..<nat sz], sq_out_req_list = [],
              sq_db_addr = (if sqid \<noteq> 0 \<and> n_dbs_addr n \<noteq> 0 \<and> n_eis_addr n \<noteq> 0 then u64 (n_dbs_addr n + 2 * sqid * db_entry_size n) else 0),
              sq_timer = t\<rparr>);
            Some (NVME_SUCCESS, n2\<lparr>n_sq := sqs\<rparr>)
          })
     }"

definition nvme_create_sq :: "NvmeCtrl \<Rightarrow> NvmeCmd \<Rightarrow> (int \<times> NvmeCtrl) option" where
  "nvme_create_sq n cmd =
     (let sqid = lo16 (dw cmd 10); qsize = hi16 (dw cmd 10); qflags = lo16 (dw cmd 11); cqid = hi16 (dw cmd 11); prp1 = cmd_prp1 cmd
      in if cqid = 0 \<or> nvme_check_cqid n cqid \<noteq> 0 then Some (INVALID_CQID, n)
         else if sqid = 0 \<or> nvme_check_sqid n sqid = 0 then Some (INVALID_QID, n)
         else if qsize = 0 \<or> n_mqes n < qsize then Some (MAX_QSIZE_EXCEEDED, n)
         else if prp1 = 0 \<or> prp1 AND (n_page_size n - 1) \<noteq> 0 then Some (INVALID_FIELD, n)
         else if qflags mod 2 = 0 \<and> n_cqr n \<noteq> 0 then Some (INVALID_FIELD, n)
         else do {
           (st, n1) \<leftarrow> nvme_init_sq n prp1 sqid cqid (u16 (qsize + 1)) (qflags div 2 mod 4) (qflags mod 2 = 1);
           Some (if st \<noteq> 0 then INVALID_FIELD else NVME_SUCCESS, n1)
         })"

definition nvme_free_sq :: "NvmeCtrl \<Rightarrow> int \<Rightarrow> NvmeCtrl" where
  "nvme_free_sq n sqid = n\<lparr>n_sq := (n_sq n)[nat sqid := None]\<rparr>"

definition nvme_free_cq :: "NvmeCtrl \<Rightarrow> int \<Rightarrow> NvmeCtrl" where
  "nvme_free_cq n cqid = n\<lparr>n_cq := (n_cq n)[nat cqid := None]\<rparr>"

text \<open>\<open>blk_aio_cancel\<close> runs the callback of the operation, \<open>nvme_misc_cb\<close>, before it returns.\<close>

definition nvme_del_sq :: "blk_env \<Rightarrow> NvmeCtrl \<Rightarrow> NvmeCmd \<Rightarrow> (int \<times> NvmeCtrl) option" where
  "nvme_del_sq env n cmd =
     (let qid = lo16 (dw cmd 10)
      in if qid = 0 \<or> nvme_check_sqid n qid \<noteq> 0 then Some (INVALID_QID, n)
         else do {
           sq \<leftarrow> get_sq n qid;
           n1 \<leftarrow> foldM (\<lambda>req n. nvme_misc_cb n req (aio_cancel env req)) (filter rq_aiocb (sq_out_req_list sq)) n;
           n2 \<leftarrow> (if nvme_check_cqid n1 (sq_cqid sq) = 0 then do {
                      cq \<leftarrow> get_cq n1 (sq_cqid sq);
                      n2 \<leftarrow> nvme_post_cqes env (sq_cqid sq) (put_cq n1 (cq\<lparr>cq_sq_list := remove1 qid (cq_sq_list cq)\<rparr>));
                      cq1 \<leftarrow> get_cq n2 (sq_cqid sq);
                      Some (put_cq n2 (cq1\<lparr>cq_req_list := filter (\<lambda>r. rq_sq r \<noteq> qid) (cq_req_list cq1)\<rparr>))
                    }
                    else Some n1);
           Some (NVME_SUCCESS, nvme_free_sq n2 qid)
         })"

definition nvme_init_cq :: "NvmeCtrl \<Rightarrow> int \<Rightarrow> int \<Rightarrow> int \<Rightarrow> int \<Rightarrow> int \<Rightarrow> bool \<Rightarrow> (int \<times> NvmeCtrl) option" where
  "nvme_init_cq n dma_addr cqid vector sz irq_enabled contig =
     do {
       prps \<leftarrow> (if contig then Some (Some []) else nvme_setup_discontig n dma_addr sz (n_cqe_size n));
       (case prps of
          None \<Rightarrow> Some (INVALID_FIELD, n)
        | Some prp_list \<Rightarrow> do {
            let (t, n1) = (if cqid = 0 then (None, n) else let (now, n1) = get_ns n in (Some (now + 200000), n1));
            cqs \<leftarrow> cwrite (n_cq n1) cqid (Some \<lparr>cq_cqid = cqid, cq_head = 0, cq_tail = 0, cq_size = sz, cq_phase = 1, cq_contig = contig,
              cq_irq_enabled = irq_enabled, cq_vector = vector, cq_dma_addr = (if contig then dma_addr else 0), cq_prp_list = prp_list,
              cq_sq_list = [], cq_req_list = [],
              cq_db_addr = (if cqid \<noteq> 0 \<and> n_dbs_addr n \<noteq> 0 \<and> n_eis_addr n \<noteq> 0 then u64 (n_dbs_addr n + (2 * cqid + 1) * db_entry_size n) else 0),
              cq_timer = t\<rparr>);
            Some (NVME_SUCCESS, n1\<lparr>n_cq := cqs\<rparr>)
          })
     }"

text \<open>When the interrupt cannot be set up the result is \<open>-1\<close>, which is \<open>NVME_NO_COMPLETE\<close> in 16 bits.\<close>

definition nvme_create_cq :: "blk_env \<Rightarrow> NvmeCtrl \<Rightarrow> NvmeCmd \<Rightarrow> (int \<times> NvmeCtrl) option" where
  "nvme_create_cq env n cmd =
     (let cqid = lo16 (dw cmd 10); qsize = hi16 (dw cmd 10); qflags = lo16 (dw cmd 11); vector = hi16 (dw cmd 11); prp1 = cmd_prp1 cmd
      in if cqid = 0 \<or> nvme_check_cqid n cqid = 0 then Some (INVALID_CQID, n)
         else if qsize = 0 \<or> n_mqes n < qsize then Some (MAX_QSIZE_EXCEEDED, n)
         else if prp1 = 0 then Some (INVALID_FIELD, n)
         else if n_num_io_queues n < vector then Some (INVALID_IRQ_VECTOR, n)
         else if qflags mod 2 = 0 \<and> n_cqr n \<noteq> 0 then Some (INVALID_FIELD, n)
         else do {
           (st, n1) \<leftarrow> nvme_init_cq n prp1 cqid vector (u16 (qsize + 1)) (qflags div 2 mod 2) (qflags mod 2 = 1);
           (if st \<noteq> 0 then Some (INVALID_FIELD, n1)
            else do {
              cq \<leftarrow> get_cq n1 cqid;
              Some (if cq_irq_enabled cq \<noteq> 0 \<and> \<not> irq_setup env cq then u16 (- 1) else NVME_SUCCESS, n1)
            })
         })"

definition nvme_del_cq :: "NvmeCtrl \<Rightarrow> NvmeCmd \<Rightarrow> (int \<times> NvmeCtrl) option" where
  "nvme_del_cq n cmd =
     (let qid = lo16 (dw cmd 10)
      in if qid = 0 \<or> nvme_check_cqid n qid \<noteq> 0 then Some (INVALID_CQID, n)
         else do {
           cq \<leftarrow> get_cq n qid;
           Some (if cq_sq_list cq \<noteq> [] then (NVME_INVALID_QUEUE_DEL, n) else (NVME_SUCCESS, nvme_free_cq n qid))
         })"

text \<open>The addresses of the doorbells in guest memory.\<close>

definition nvme_set_db_memory :: "NvmeCtrl \<Rightarrow> NvmeCmd \<Rightarrow> (int \<times> NvmeCtrl) option" where
  "nvme_set_db_memory n cmd =
     (let dbs_addr = cmd_prp1 cmd; eis_addr = cmd_prp2 cmd
      in if dbs_addr = 0 \<or> dbs_addr AND (n_page_size n - 1) \<noteq> 0 \<or> eis_addr = 0 \<or> eis_addr AND (n_page_size n - 1) \<noteq> 0
         then Some (INVALID_FIELD, n)
         else do {
           n1 \<leftarrow> foldM (\<lambda>i n. do {
               q \<leftarrow> cread (n_sq n) (i + 1);
               c \<leftarrow> cread (n_cq n) (i + 1);
               let n1 = (case q of None \<Rightarrow> n | Some sq \<Rightarrow> put_sq n (sq\<lparr>sq_db_addr := u64 (dbs_addr + 2 * (i + 1) * db_entry_size n)\<rparr>));
               Some (case c of None \<Rightarrow> n1 | Some cq \<Rightarrow> put_cq n1 (cq\<lparr>cq_db_addr := u64 (dbs_addr + (2 * (i + 1) + 1) * db_entry_size n)\<rparr>))
             }) (cupto (n_num_io_queues n)) (n\<lparr>n_dbs_addr := dbs_addr, n_eis_addr := eis_addr\<rparr>);
           Some (NVME_SUCCESS, n1)
         })"

subsection \<open>Events\<close>

text \<open>\<open>aer_reqs\<close> has \<open>aerl + 1\<close> entries, one less than the test allows.\<close>

definition nvme_async_req :: "NvmeCtrl \<Rightarrow> NvmeRequest \<Rightarrow> (int \<times> NvmeCtrl) option" where
  "nvme_async_req n req =
     (if n_aerl n + 1 < n_outstanding_aers n then Some (NVME_AER_LIMIT_EXCEEDED, n)
      else do {
        rs \<leftarrow> cwrite (n_aer_reqs n) (n_outstanding_aers n) (Some req);
        let (t, n1) = get_ns n;
        Some (NVME_NO_COMPLETE, n1\<lparr>n_aer_reqs := rs, n_aer_timer := Some (t + 500), n_outstanding_aers := u8 (n_outstanding_aers n + 1)\<rparr>)
      })"

text \<open>
  The callback removes the head of the queue but frees the event that it handled: when an event before it is
  masked, the queue keeps a freed event and everything after that is undefined. The second argument is true
  once a masked event was passed.
\<close>

fun aer_loop :: "(int \<times> int \<times> int) list \<Rightarrow> bool \<Rightarrow> NvmeCtrl \<Rightarrow> NvmeCtrl option" where
  "aer_loop [] skipped n = Some n"
| "aer_loop ((event_type, event_info, log_page) # events) skipped n =
     (if n_outstanding_aers n \<le> 0 then Some n
      else if n_aer_mask n AND 2 ^ nat event_type \<noteq> 0 then aer_loop events True n
      else if skipped then None
      else do {
        let left = n_outstanding_aers n - 1;
        r \<leftarrow> cread (n_aer_reqs n) left;
        req \<leftarrow> r;
        n1 \<leftarrow> nvme_enqueue_req_completion
                (n\<lparr>n_aer_queue := events, n_aer_mask := u8 (n_aer_mask n OR 2 ^ nat event_type), n_outstanding_aers := left\<rparr>) 0
                (req\<lparr>rq_result := rq_result req div 2 ^ 24 * 2 ^ 24 + event_type + event_info * 2 ^ 8 + log_page * 2 ^ 16, rq_status := NVME_SUCCESS\<rparr>);
        aer_loop events False n1
      })"

definition nvme_aer_process_cb :: "NvmeCtrl \<Rightarrow> NvmeCtrl option" where
  "nvme_aer_process_cb n = aer_loop (n_aer_queue n) False n"

subsection \<open>Abort\<close>

text \<open>
  The commands from head to tail are searched. A tail outside the ring, which the guest can leave in its
  memory, is never reached: the search does not end when no command matches.
\<close>

fun abort_loop :: "nat list \<Rightarrow> int \<Rightarrow> NvmeSQueue \<Rightarrow> NvmeCtrl \<Rightarrow> (int \<times> NvmeCtrl) option" where
  "abort_loop [] cid sq n = None"
| "abort_loop (index # is) cid sq n =
     (let pos = u32 (sq_head sq + int index) mod sq_size sq
      in if pos = sq_tail sq then Some (1, n)
         else do {
           addr \<leftarrow> sqe_addr n sq pos;
           bs \<leftarrow> nvme_addr_read n addr 64;
           (if cmd_cid (words_of bs) \<noteq> cid then abort_loop is cid sq n
            else case sq_req_list sq of
              [] \<Rightarrow> None
            | req # rs \<Rightarrow>
                let req1 = req\<lparr>rq_result := 0, rq_cid := cid, rq_status := 7\<rparr>
                in do {
                  n1 \<leftarrow> nvme_addr_write (put_sq n (sq\<lparr>sq_req_list := rs, sq_out_req_list := sq_out_req_list sq @ [req1]\<rparr>)) addr
                          (NVME_OP_ABORTED # tl bs);
                  n2 \<leftarrow> nvme_enqueue_req_completion n1 (sq_cqid sq) req1;
                  Some (0, n2)
                })
         })"

text \<open>The result is the value for the completion entry of the abort command, with the controller.\<close>

definition nvme_abort_req :: "blk_env \<Rightarrow> NvmeCtrl \<Rightarrow> NvmeCmd \<Rightarrow> (int \<times> NvmeCtrl) option" where
  "nvme_abort_req env n cmd =
     (let sqid = lo16 (dw cmd 10); cid = hi16 (dw cmd 10)
      in if nvme_check_sqid n sqid \<noteq> 0 then Some (1, n)
         else do {
           sq \<leftarrow> get_sq n sqid;
           (if sq_size sq = 0 then None
            else case filter (\<lambda>q. sq_sqid sq \<noteq> 0 \<and> rq_aiocb q \<and> rq_cid q = cid) (sq_out_req_list sq) of
              q # qs \<Rightarrow> do { n1 \<leftarrow> nvme_misc_cb n q (aio_cancel env q); Some (0, n1) }
            | [] \<Rightarrow> abort_loop [0..<nat (sq_size sq)] cid sq n)
         })"

subsection \<open>Admin commands\<close>

definition with_req :: "NvmeRequest \<Rightarrow> (int \<times> NvmeCtrl) option \<Rightarrow> (int \<times> NvmeRequest \<times> NvmeCtrl) option" where
  "with_req req r = do { (st, n) \<leftarrow> r; Some (st, req, n) }"

text \<open>The debug command 0xee sets the flash timings of the open-channel mode, which are not part of the state.\<close>

definition nvme_admin_cmd :: "blk_env \<Rightarrow> NvmeCtrl \<Rightarrow> NvmeCmd \<Rightarrow> NvmeRequest \<Rightarrow> (int \<times> NvmeRequest \<times> NvmeCtrl) option" where
  "nvme_admin_cmd env n cmd req =
     (let opc = cmd_opcode cmd
      in if opc = 0x3c then with_req req (nvme_remap n cmd)
         else if opc = 0xee then Some (NVME_SUCCESS, req, n)
         else if opc = 0x00 then with_req req (nvme_del_sq env n cmd)
         else if opc = 0x01 then with_req req (nvme_create_sq n cmd)
         else if opc = 0x04 then with_req req (nvme_del_cq n cmd)
         else if opc = 0x05 then with_req req (nvme_create_cq env n cmd)
         else if opc = 0x0c then with_req req (nvme_async_req n req)
         else if opc = 0x08 then do { (res, n1) \<leftarrow> nvme_abort_req env n cmd; Some (NVME_SUCCESS, req\<lparr>rq_result := res\<rparr>, n1) }
         else if opc = 0x7c then with_req req (nvme_set_db_memory n cmd)
         else if opc = 0x06 then with_req req (nvme_identify n cmd)
         else if opc = 0x09 then nvme_set_feature n cmd req
         else if opc = 0x0a then nvme_get_feature n cmd req
         else if opc = 0x02 then with_req req (nvme_get_log env n cmd)
         else if opc = 0x80 then (if n_oacs n AND 2 \<noteq> 0 then with_req req (nvme_format n cmd) else Some (INVALID_OPCODE, req, n))
         else if opc \<in> {0xe2, 0xea, 0xf2, 0xf1} then oc_admin env n cmd req
         else Some (INVALID_OPCODE, req, n))"

definition process_admin_one :: "blk_env \<Rightarrow> int \<Rightarrow> NvmeCtrl \<Rightarrow> NvmeCtrl option" where
  "process_admin_one env sqid n =
     do {
       sq \<leftarrow> get_sq n sqid;
       cmd \<leftarrow> fetch_cmd n sq (sq_head sq);
       sq1 \<leftarrow> nvme_inc_sq_head sq;
       (if cmd_opcode cmd = NVME_OP_ABORTED then Some (put_sq n sq1)
        else if sq_sqid sq \<noteq> 0 then None
        else do {
          (req, n1) \<leftarrow> take_req n sq1 cmd;
          (status, req1, n2) \<leftarrow> nvme_admin_cmd env n1 cmd req;
          (if status \<noteq> NVME_NO_COMPLETE then nvme_enqueue_req_completion n2 (sq_cqid sq) (req1\<lparr>rq_status := status\<rparr>)
           else keep_out n2 req1)
        })
     }"

definition nvme_process_sq_admin :: "blk_env \<Rightarrow> int \<Rightarrow> NvmeCtrl \<Rightarrow> NvmeCtrl option" where
  "nvme_process_sq_admin env sqid n =
     do {
       sq0 \<leftarrow> get_sq n sqid;
       sq \<leftarrow> nvme_update_sq_tail n sq0;
       (processed, n1) \<leftarrow> process_loop (process_admin_one env sqid) sqid (nat (sq_arb_burst sq)) (put_sq n sq);
       sq1 \<leftarrow> get_sq n1 sqid;
       Some (put_sq n1 (sq1\<lparr>sq_completed := u64 (sq_completed sq1 + processed)\<rparr>))
     }"

subsection \<open>Doorbells\<close>

definition rearm :: "int \<Rightarrow> NvmeCtrl \<Rightarrow> NvmeCtrl option" where
  "rearm sqid n =
     do {
       sq \<leftarrow> get_sq n sqid;
       Some (if sq_timer sq = None \<and> sq_sqid sq = 0
             then let (t, n1) = get_ns n in put_sq n1 (sq\<lparr>sq_timer := Some (t + 500)\<rparr>) else n)
     }"

text \<open>
  The controller has a timer for events from \<open>nvme_start_ctrl\<close> to \<open>nvme_clear_ctrl\<close>, as it has an admin completion queue. A shutdown
  removes it but leaves \<open>READY\<close> set: reporting a bad doorbell then arms a null timer.
\<close>

definition doorbell_event :: "NvmeCtrl \<Rightarrow> int \<Rightarrow> NvmeCtrl option" where
  "doorbell_event n event_info =
     (if n_csts n AND 1 \<noteq> 0 \<and> get_cq n 0 = None then None else Some (nvme_enqueue_event n NVME_AER_TYPE_ERROR event_info NVME_LOG_ERROR_INFO))"

text \<open>The queue is checked with the number cut to 16 bits. Completion queues have the odd doorbells.\<close>

definition nvme_process_db :: "NvmeCtrl \<Rightarrow> int \<Rightarrow> int \<Rightarrow> NvmeCtrl option" where
  "nvme_process_db n addr val =
     (let new_val = val mod 2 ^ 16; stride = 2 ^ (2 + n_db_stride n); bad = doorbell_event n
      in if addr mod stride \<noteq> 0 then bad 1
         else if (addr - 0x1000) div stride mod 2 = 1 then
           let qid = u32 ((addr - (0x1000 + stride)) div (2 * stride))
           in if nvme_check_cqid n (u16 qid) \<noteq> 0 then bad 1
              else do {
                cq \<leftarrow> get_cq n qid;
                (if cq_size cq \<le> new_val then bad 1
                 else do {
                   (start_sqs, cq1) \<leftarrow> nvme_cq_full n cq;
                   let cq2 = (if cq_db_addr cq1 = 0 then cq1\<lparr>cq_head := new_val\<rparr> else cq1);
                   let n1 = put_cq n cq2;
                   (if start_sqs then do {
                      n2 \<leftarrow> foldM rearm (cq_sq_list cq2) n1;
                      Some (if cq_cqid cq2 = 0 then let (t, n3) = get_ns n2 in put_cq n3 (cq2\<lparr>cq_timer := Some (t + 500)\<rparr>) else n2)
                    }
                    else Some (if cq_tail cq2 \<noteq> cq_head cq2 then nvme_isr_notify n1 cq2 else n1))
                 })
              }
         else
           let qid = u32 ((addr - 0x1000) div (2 * stride))
           in if nvme_check_sqid n (u16 qid) \<noteq> 0 then bad 0
              else do {
                sq \<leftarrow> get_sq n qid;
                (if sq_size sq \<le> new_val then bad 1
                 else rearm qid (put_sq n (if sq_db_addr sq = 0 then sq\<lparr>sq_tail := new_val\<rparr> else sq)))
              })"

subsection \<open>Start and stop\<close>

definition clear_queues :: "NvmeCtrl \<Rightarrow> NvmeCtrl" where
  "clear_queues n = n\<lparr>n_sq := map (\<lambda>i. if int i \<le> n_num_io_queues n then None else n_sq n ! i) [0..<length (n_sq n)],
     n_cq := map (\<lambda>i. if int i \<le> n_num_io_queues n then None else n_cq n ! i) [0..<length (n_cq n)]\<rparr>"

definition nvme_clear_ctrl :: "NvmeCtrl \<Rightarrow> NvmeCtrl" where
  "nvme_clear_ctrl n = (clear_queues n)\<lparr>n_aer_timer := None, n_aer_queue := [], n_cc := 0,
     n_features := (n_features n)\<lparr>ft_temp_thresh := 0x14d\<rparr>, n_temp_warn_issued := 0, n_outstanding_aers := 0\<rparr>"

definition bits :: "int \<Rightarrow> nat \<Rightarrow> nat \<Rightarrow> int" where
  "bits x lo w = x div 2 ^ lo mod 2 ^ w"

text \<open>The minimum sizes of queue entries are 16 and 64 bytes; \<open>page_size\<close> and the entry sizes are 16 bits wide.\<close>

definition nvme_start_ctrl :: "NvmeCtrl \<Rightarrow> (int \<times> NvmeCtrl) option" where
  "nvme_start_ctrl n =
     (let mps = bits (n_cc n) 7 4; page_bits = nat (mps + 12); page_size = 2 ^ page_bits; iosqes = bits (n_cc n) 16 4; iocqes = bits (n_cc n) 20 4;
          asqs = bits (n_aqa n) 0 12; acqs = bits (n_aqa n) 16 12
      in do {
        c0 \<leftarrow> cread (n_cq n) 0;
        s0 \<leftarrow> cread (n_sq n) 0;
        (if c0 \<noteq> None \<or> s0 \<noteq> None \<or> n_asq n = 0 \<or> n_acq n = 0 \<or> n_asq n mod page_size \<noteq> 0 \<or> n_acq n mod page_size \<noteq> 0 \<or>
            mps < n_mpsmin n mod 2 ^ 4 \<or> n_mpsmax n mod 2 ^ 4 < mps \<or> iocqes < 4 \<or> n_max_cqes n mod 2 ^ 4 < iocqes \<or>
            iosqes < 6 \<or> n_max_sqes n mod 2 ^ 4 < iosqes \<or> asqs = 0 \<or> acqs = 0
         then Some (- 1, n)
         else do {
           let n1 = n\<lparr>n_page_bits := page_bits, n_page_size := u16 page_size, n_max_prp_ents := u16 page_size div 8,
             n_cqe_size := 2 ^ nat iocqes, n_sqe_size := 2 ^ nat iosqes\<rparr>;
           (e1, n2) \<leftarrow> nvme_init_cq n1 (n_acq n) 0 0 (acqs + 1) 1 True;
           (e2, n3) \<leftarrow> nvme_init_sq n2 (n_asq n) 0 0 (asqs + 1) 1 True;
           Some (0, n3\<lparr>n_aer_timer := None, n_aer_queue := []\<rparr>)
         })
      })"

definition cc_write :: "NvmeCtrl \<Rightarrow> int \<Rightarrow> NvmeCtrl option" where
  "cc_write n data =
     do {
       n1 \<leftarrow> (if bits data 0 1 \<noteq> 0 \<and> bits (n_cc n) 0 1 = 0 then do {
                  (e, n1) \<leftarrow> nvme_start_ctrl (n\<lparr>n_cc := u32 data\<rparr>);
                  Some (n1\<lparr>n_csts := (if e \<noteq> 0 then 2 else 1)\<rparr>)
                }
                else if bits data 0 1 = 0 \<and> bits (n_cc n) 0 1 \<noteq> 0 then
                  let n1 = nvme_clear_ctrl n in Some (n1\<lparr>n_csts := n_csts n1 div 2 * 2\<rparr>)
                else Some n);
       Some (if bits data 14 2 \<noteq> 0 \<and> bits (n_cc n1) 14 2 = 0 then
               let n2 = nvme_clear_ctrl n1 in n2\<lparr>n_cc := u32 data, n_csts := n_csts n2 OR 8\<rparr>
             else if bits data 14 2 = 0 \<and> bits (n_cc n1) 14 2 \<noteq> 0 then
               n1\<lparr>n_csts := n_csts n1 - (n_csts n1 AND 8), n_cc := u32 data\<rparr>
             else n1)
     }"

definition nvme_write_bar :: "NvmeCtrl \<Rightarrow> int \<Rightarrow> int \<Rightarrow> NvmeCtrl option" where
  "nvme_write_bar n offset data =
     (if offset = 0xc then let m = n_intms n OR u32 data in Some (n\<lparr>n_intms := m, n_intmc := m\<rparr>)
      else if offset = 0x10 then let m = n_intms n - (n_intms n AND u32 data) in Some (n\<lparr>n_intms := m, n_intmc := m\<rparr>)
      else if offset = 0x14 then cc_write n data
      else if offset = 0x24 then Some (n\<lparr>n_aqa := u32 data\<rparr>)
      else if offset = 0x28 then Some (n\<lparr>n_asq := u64 data\<rparr>)
      else if offset = 0x2c then Some (n\<lparr>n_asq := n_asq n OR u64 (data * 2 ^ 32)\<rparr>)
      else if offset = 0x30 then Some (n\<lparr>n_acq := u64 data\<rparr>)
      else if offset = 0x34 then Some (n\<lparr>n_acq := n_acq n OR u64 (data * 2 ^ 32)\<rparr>)
      else Some n)"

text \<open>The registers take the first 64 bytes of the region.\<close>

definition nvme_mmio_write :: "NvmeCtrl \<Rightarrow> int \<Rightarrow> int \<Rightarrow> NvmeCtrl option" where
  "nvme_mmio_write n addr data =
     (if addr < 64 then nvme_write_bar n addr data else if 0x1000 \<le> addr then nvme_process_db n addr (s32 data) else Some n)"

section \<open>Lemmas\<close>


subsection \<open>Posting keeps the requests\<close>

lemma cq_full_head: "nvme_cq_full n cq = Some (f, cq1) \<Longrightarrow> \<exists>h. cq1 = cq\<lparr>cq_head := h\<rparr>"
  by (auto simp: nvme_cq_full_def nvme_update_cq_head_def split: bind_splits if_splits intro: exI [of _ "cq_head cq"])

lemma q_inv_head:
  assumes "q_inv X n" "get_cq n c = Some cq"
  shows "q_inv X (put_cq n (cq\<lparr>cq_head := h\<rparr>))" "get_cq (put_cq n (cq\<lparr>cq_head := h\<rparr>)) c = Some (cq\<lparr>cq_head := h\<rparr>)"
proof -
  note ci = q_inv_cq [OF assms]
  show "q_inv X (put_cq n (cq\<lparr>cq_head := h\<rparr>))" using ci by (intro q_inv_put_cq [OF assms]) (auto simp: cq_like_def cq_inv_def)
  show "get_cq (put_cq n (cq\<lparr>cq_head := h\<rparr>)) c = Some (cq\<lparr>cq_head := h\<rparr>)" using ci by (simp add: get_put_cq [OF assms(2)] cq_inv_def)
qed

text \<open>The submission queues stay with their completion queues.\<close>

definition same_cqids :: "NvmeCtrl \<Rightarrow> NvmeCtrl \<Rightarrow> bool" where
  "same_cqids n n' \<longleftrightarrow> (\<forall>j. map_option sq_cqid (get_sq n' j) = map_option sq_cqid (get_sq n j))"

lemma same_cqids_refl [simp]: "same_cqids n n"
  by (simp add: same_cqids_def)

lemma same_cqids_trans: "same_cqids n n1 \<Longrightarrow> same_cqids n1 n2 \<Longrightarrow> same_cqids n n2"
  by (simp add: same_cqids_def)

lemma same_cqids_put: "get_sq n i = Some sq \<Longrightarrow> sq_sqid sq' = i \<Longrightarrow> sq_cqid sq' = sq_cqid sq \<Longrightarrow> same_cqids n (put_sq n sq')"
  "same_cqids n (put_cq n cq)" "same_queues n n' \<Longrightarrow> same_cqids n n'"
  by (auto simp: same_cqids_def get_put_sq dest: same_queues_get)

lemma same_cqids_get: "same_cqids n n' \<Longrightarrow> get_sq n i = Some sq \<Longrightarrow> \<exists>sq'. get_sq n' i = Some sq' \<and> sq_cqid sq' = sq_cqid sq"
  unfolding same_cqids_def by (metis map_option_eq_Some)

lemma post_cqe_inv:
  assumes inv: "q_inv X n" and cq: "get_cq n c = Some cq" and first: "cq_req_list cq = req # rs" and env: "oc_frame env"
    and run: "nvme_post_cqe env n (cq\<lparr>cq_head := h, cq_req_list := rs\<rparr>) req = Some n'"
  shows "q_inv X n' \<and> (\<exists>cq'. get_cq n' c = Some cq' \<and> cq_req_list cq' = rs) \<and> same_cqids n n'"
proof -
  note ci = q_inv_cq [OF inv cq]
  let ?cq = "cq\<lparr>cq_head := h, cq_req_list := rs\<rparr>"
  from run obtain sq n1 addr where r: "get_sq n (rq_sq req) = Some sq"
    "nvme_addr_write n addr (cqe_bytes (cqe_of ?cq sq (if n_femu_mode n = FEMU_WHITEBOX_MODE then oc_post_cqe env n req else req))) = Some n1"
    "n' = put_sq (put_cq n1 (nvme_inc_cq_tail ?cq)) (sq\<lparr>sq_req_list := sq_req_list sq @ [if n_femu_mode n = FEMU_WHITEBOX_MODE then oc_post_cqe env n req else req]\<rparr>)"
    unfolding nvme_post_cqe_def Let_def by (auto split: bind_splits simp del: if_split_asm)
  define req1 where "req1 = (if n_femu_mode n = FEMU_WHITEBOX_MODE then oc_post_cqe env n req else req)"
  have rq: "rq_sq req1 = rq_sq req" "rq_idx req1 = rq_idx req" using env by (auto simp: req1_def oc_frame_def same_req_def)
  note same = same_queues_write [OF r(2)]
  have i1: "q_inv X n1" "get_sq n1 (rq_sq req) = Some sq" "get_cq n1 c = Some cq" using inv q_inv_cong [OF same] r(1) cq same_queues_get [OF same] by simp_all
  note si = q_inv_sq [OF i1(1,2)]
  have cqid: "sq_cqid sq = c" using ci first r(1) by (auto simp: cq_inv_def)
  let ?cq' = "nvme_inc_cq_tail ?cq" and ?sq = "sq\<lparr>sq_req_list := sq_req_list sq @ [req1]\<rparr>"
  have b: "0 \<le> cq_tail ?cq" "cq_tail ?cq < cq_size ?cq" "cq_size ?cq \<le> 2 ^ 16" "cq_phase ?cq = 0 \<or> cq_phase ?cq = 1" using ci by (simp_all add: cq_inv_def)
  have like: "cq_like cq ?cq'" "cq_req_list ?cq' = rs" unfolding inc_cq_tail [OF b] using ci by (auto simp: cq_like_def cq_inv_def phase_at_def)
  have "q_inv X (put_cq (put_sq n1 ?sq) ?cq')"
  proof (rule q_inv_update [OF i1(1,2)])
    show "get_cq n1 (sq_cqid sq) = Some cq" using i1(3) cqid by simp
    show "sq_like sq ?sq" using si by (simp add: sq_like_def sq_inv_def)
    show "\<forall>r \<in> set (sq_req_list ?sq @ sq_out_req_list ?sq). rq_sq r = rq_sq req" using sq_inv_own [OF si] rq by simp
    show "keys (sq_req_list ?sq @ sq_out_req_list ?sq) + keys (cq_req_list ?cq') = keys (sq_req_list sq @ sq_out_req_list sq) + keys (cq_req_list cq)"
      using like(2) rq by (simp add: first)
  qed (rule like(1))
  moreover have "get_cq (put_cq (put_sq n1 ?sq) ?cq') c = Some ?cq'"
    using get_put_cq [of "put_sq n1 ?sq" c cq ?cq'] i1(3) like(1) ci by (simp add: cq_like_def cq_inv_def)
  moreover have "same_cqids n (put_cq (put_sq n1 ?sq) ?cq')"
    using same_cqids_trans [OF same_cqids_put(3) [OF same] same_cqids_trans [OF same_cqids_put(1) [OF i1(2)] same_cqids_put(2)]] si
    by (simp add: sq_inv_def)
  ultimately show ?thesis using r(3) like(2) by (auto simp: put_sq_cq req1_def)
qed

lemma post_admin_loop_inv:
  assumes "q_inv X n" "get_cq n c = Some cq" "cq_req_list cq = rs" "oc_frame env" "post_admin_loop env rs c n = Some n'"
  shows "q_inv X n' \<and> same_cqids n n'"
  using assms
proof (induction rs arbitrary: n cq)
  case (Cons req rs)
  from Cons.prems(2,5) obtain f cq1 where f: "nvme_cq_full n cq = Some (f, cq1)" by (auto split: bind_splits)
  then obtain h where h: "cq1 = cq\<lparr>cq_head := h\<rparr>" using cq_full_head by blast
  show ?case
  proof (cases f)
    case True
    then show ?thesis using Cons.prems f h q_inv_head(1) same_cqids_put(2) by auto
  next
    case False
    then obtain n1 where n1: "nvme_post_cqe env n (cq\<lparr>cq_head := h, cq_req_list := rs\<rparr>) req = Some n1" "post_admin_loop env rs c n1 = Some n'"
      using Cons.prems(2,5) f h by (auto split: bind_splits)
    from post_cqe_inv [OF Cons.prems(1-4) n1(1)] Cons.IH n1(2) Cons.prems(4) show ?thesis using same_cqids_trans by blast
  qed
qed simp

lemma post_io_loop_inv:
  assumes "q_inv X n" "get_cq n c = Some cq" "cq_req_list cq = rs" "oc_frame env" "post_io_loop env rs c n = Some (ntt, k, n')"
  shows "q_inv X n' \<and> same_cqids n n'"
  using assms
proof (induction rs arbitrary: n cq ntt k)
  case (Cons req rs)
  from Cons.prems(2,5) obtain f cq1 where f: "nvme_cq_full n cq = Some (f, cq1)" by (auto split: bind_splits)
  then obtain h where h: "cq1 = cq\<lparr>cq_head := h\<rparr>" using cq_full_head by blast
  let ?n0 = "put_cq n (cq\<lparr>cq_head := h\<rparr>)"
  obtain t n1 where g: "get_ns ?n0 = (t, n1)" by (cases "get_ns ?n0")
  note same = same_queues_ns [OF g] and hd = q_inv_head [OF Cons.prems(1,2), of h]
  have i1: "q_inv X n1" "get_cq n1 c = Some (cq\<lparr>cq_head := h\<rparr>)" using hd q_inv_cong [OF same] same_queues_get [OF same] by simp_all
  have ids: "same_cqids n n1" using same_cqids_trans [OF same_cqids_put(2) same_cqids_put(3) [OF same]] .
  show ?case
  proof (cases "f \<or> cq_cqid cq \<noteq> 0 \<and> t < rq_expire_time req")
    case True
    then show ?thesis using Cons.prems(2,5) f h g i1(1) hd(1) ids same_cqids_put(2) by (auto split: if_splits)
  next
    case False
    then obtain n2 ntt' k' where n2: "nvme_post_cqe env n1 (cq\<lparr>cq_head := h, cq_req_list := rs\<rparr>) req = Some n2" "post_io_loop env rs c n2 = Some (ntt', k', n')"
      using Cons.prems(2,5) f h g by (auto split: bind_splits if_splits)
    have "cq_req_list (cq\<lparr>cq_head := h\<rparr>) = req # rs" using Cons.prems(3) by simp
    from post_cqe_inv [OF i1 this Cons.prems(4), of h n2] n2 obtain cq2 where "q_inv X n2" "get_cq n2 c = Some cq2" "cq_req_list cq2 = rs" "same_cqids n1 n2" by auto
    then show ?thesis using Cons.IH [OF _ _ _ Cons.prems(4) n2(2)] ids same_cqids_trans by blast
  qed
qed simp

lemma cq_put_inv:
  assumes "q_inv X n" "get_cq n c = Some cq" "cq_like cq cq'" "cq_req_list cq' = cq_req_list cq" "same_queues (put_cq n cq') n'"
  shows "q_inv X n'"
  using q_inv_put_cq [OF assms(1-4)] q_inv_cong [OF assms(5)] by simp

lemma post_cqes_every_inv:
  assumes "q_inv X n" "oc_frame env" "post_cqes_every period env c n = Some n'"
  shows "q_inv X n' \<and> same_cqids n n'"
proof -
  from assms(3) obtain cq ntt nc n1 where a: "get_cq n c = Some cq" "post_io_loop env (cq_req_list cq) c n = Some (ntt, nc, n1)"
    by (auto simp: post_cqes_every_def split: bind_splits)
  obtain due n2 where e: "(if ntt = 0 then let (t, n2) = get_ns n1 in (t + period, n2) else (ntt, n1)) = (due, n2)" by (meson surj_pair)
  from assms(3) a e obtain cq1 where b: "get_cq n2 c = Some cq1"
    "n' = (if 0 < nc then nvme_isr_notify (put_cq n2 (cq1\<lparr>cq_timer := Some due\<rparr>)) (cq1\<lparr>cq_timer := Some due\<rparr>) else put_cq n2 (cq1\<lparr>cq_timer := Some due\<rparr>))"
    unfolding post_cqes_every_def by (auto simp: Let_def split: bind_splits)
  note i1 = post_io_loop_inv [OF assms(1) a(1) refl assms(2) a(2)]
  have same: "same_queues n1 n2" using e same_queues_ns by (auto split: if_splits prod.splits)
  then have i2: "q_inv X n2" using i1 q_inv_cong by simp
  note ci = q_inv_cq [OF i2 b(1)]
  have "same_cqids n2 n'"
    using same_cqids_trans [OF same_cqids_put(2) same_cqids_put(3), of n2 "cq1\<lparr>cq_timer := Some due\<rparr>" n'] b(2) by (auto simp: same_queues_def nvme_isr_notify_def)
  then have "same_cqids n n'" using i1 same_cqids_trans same_cqids_put(3) [OF same] by blast
  moreover have "q_inv X n'"
    by (rule cq_put_inv [OF i2 b(1), of "cq1\<lparr>cq_timer := Some due\<rparr>"]) (use ci b(2) in \<open>auto simp: cq_like_def cq_inv_def same_queues_def nvme_isr_notify_def\<close>)
  ultimately show ?thesis by blast
qed

lemma post_cqes_admin_inv:
  assumes "q_inv X n" "oc_frame env" "nvme_post_cqes_admin env c n = Some n'"
  shows "q_inv X n'"
proof -
  from assms(3) obtain cq n1 cq1 where a: "get_cq n c = Some cq" "post_admin_loop env (cq_req_list cq) c n = Some n1" "n' = nvme_isr_notify n1 cq1"
    by (auto simp: nvme_post_cqes_admin_def split: bind_splits)
  have "same_queues n1 n'" using a(3) by (simp add: nvme_isr_notify_def same_queues_def)
  then show ?thesis using post_admin_loop_inv [OF assms(1) a(1) refl assms(2) a(2)] q_inv_cong by simp
qed

lemma enqueue_inv:
  assumes inv: "q_inv X n" and run: "nvme_enqueue_req_completion n c req = Some n'"
  shows "q_inv X n' \<and> same_cqids n n'"
proof -
  from run obtain cq sq out where r: "get_cq n c = Some cq" "get_sq n (rq_sq req) = Some sq" "cq_cqid cq = sq_cqid sq" "unlink req (sq_out_req_list sq) = Some out"
    by (auto simp: nvme_enqueue_req_completion_def split: bind_splits if_splits)
  note si = q_inv_sq [OF inv r(2)] and ci = q_inv_cq [OF inv r(1)]
  have cq: "get_cq n (sq_cqid sq) = Some cq" using r(1,3) ci by (simp add: cq_inv_def)
  have "list_ex (same_req req) (sq_out_req_list sq)" using r(4) by (simp add: unlink_def split: if_splits)
  from unlink_out [OF this] sq_inv_distinct [OF si] r(4) have
    o: "keys (sq_out_req_list sq) = add_mset (rq_sq req, rq_idx req) (keys out)" "set out \<subseteq> set (sq_out_req_list sq)" by auto
  obtain t n1 where g: "get_ns (put_sq n (sq\<lparr>sq_out_req_list := out\<rparr>)) = (t, n1)" by (meson surj_pair)
  let ?cq = "cq\<lparr>cq_req_list := cq_req_list cq @ [req], cq_timer := Some (t + 500)\<rparr>"
  have n': "n' = put_cq n1 ?cq" using run r g by (simp add: nvme_enqueue_req_completion_def)
  have "q_inv X (put_cq (put_sq n (sq\<lparr>sq_out_req_list := out\<rparr>)) ?cq)"
    using si ci o sq_inv_own [OF si] by (intro q_inv_update [OF inv r(2) cq]) (auto simp: sq_like_def cq_like_def sq_inv_def cq_inv_def)
  moreover have "same_queues (put_cq (put_sq n (sq\<lparr>sq_out_req_list := out\<rparr>)) ?cq) n'"
    using same_queues_ns [OF g] n' by (simp add: same_queues_def put_cq_def)
  moreover have "same_cqids n (put_cq (put_sq n (sq\<lparr>sq_out_req_list := out\<rparr>)) ?cq)"
    using same_cqids_trans [OF same_cqids_put(1) [OF r(2)] same_cqids_put(2)] si by (simp add: sq_inv_def)
  ultimately show ?thesis using q_inv_cong same_cqids_trans same_cqids_put(3) by blast
qed

lemma misc_cb_inv: "q_inv X n \<Longrightarrow> nvme_misc_cb n req ret = Some n' \<Longrightarrow> q_inv X n' \<and> same_cqids n n'"
  by (auto simp: nvme_misc_cb_def split: bind_splits dest: enqueue_inv)

subsection \<open>Queues come and go\<close>

lemma q_inv_new_cq:
  assumes inv: "q_inv X n" and new: "get_cq n c = None" and at: "cwrite (n_cq n) c (Some cq) = Some cqs"
    and ok: "cq_cqid cq = c" "cq_contig cq" "0 < cq_size cq" "cq_size cq \<le> 2 ^ 16" "cq_tail cq = 0" "cq_phase cq = 1" "cq_req_list cq = []"
  shows "q_inv X (n\<lparr>n_cq := cqs\<rparr>)"
proof -
  let ?n = "n\<lparr>n_cq := cqs\<rparr>"
  have gs: "get_sq ?n i = get_sq n i" for i by (simp add: get_sq_def)
  have gc: "get_cq ?n j = (if j = c then Some cq else get_cq n j)" for j
    using at by (auto simp: get_cq_def cread_def cwrite_def split: if_splits)
  have "sq_inv ?n i sq" if "get_sq n i = Some sq" for i sq
    using q_inv_sq [OF inv that] new by (auto simp: sq_inv_def gc)
  moreover have "sq_cqid sq \<noteq> c" if "get_sq n i = Some sq" for i sq using q_inv_sq [OF inv that] new by (auto simp: sq_inv_def)
  then have "cq_inv X ?n j q" if "get_cq ?n j = Some q" for j q
    using q_inv_cq [OF inv, of j] that ok by (auto simp: cq_inv_def gc gs split: if_splits)
  moreover have "q_arrays ?n" using inv at by (auto simp: q_inv_def q_arrays_def cwrite_def split: if_splits)
  ultimately show ?thesis using inv by (simp add: q_inv_def gs)
qed

lemma q_inv_new_sq:
  assumes inv: "q_inv X n" and new: "get_sq n i = None" and cq: "get_cq n c = Some cq"
    and at: "cwrite (n_sq (put_cq n (cq\<lparr>cq_sq_list := cq_sq_list cq @ [i]\<rparr>))) i (Some sq) = Some sqs"
    and ok: "sq_sqid sq = i" "sq_cqid sq = c" "sq_contig sq" "0 < sq_size sq" "sq_size sq \<le> 2 ^ 16" "sq_head sq = 0" "sq_out_req_list sq = []"
      "sq_req_list sq = map (blank_req i) [0..<nat (sq_size sq)]"
  shows "q_inv X ((put_cq n (cq\<lparr>cq_sq_list := cq_sq_list cq @ [i]\<rparr>))\<lparr>n_sq := sqs\<rparr>)"
proof -
  let ?cq = "cq\<lparr>cq_sq_list := cq_sq_list cq @ [i]\<rparr>"
  let ?n = "(put_cq n ?cq)\<lparr>n_sq := sqs\<rparr>"
  note ci = q_inv_cq [OF inv cq]
  have gs: "get_sq ?n j = (if j = i then Some sq else get_sq n j)" for j
    using at by (auto simp: get_sq_def cread_def cwrite_def put_cq_def split: if_splits)
  have gc: "get_cq ?n j = (if j = c then Some ?cq else get_cq n j)" for j
    using get_put_cq [OF cq, of ?cq j] ci by (auto simp: get_cq_def cq_inv_def)
  have none: "rq_sq r \<noteq> i" if "r \<in> set (cq_req_list q)" "get_cq n j = Some q" for r q j
    using q_inv_cq [OF inv that(2)] that(1) new by (auto simp: cq_inv_def)
  have fresh: "filter_mset (\<lambda>k. fst k = i) (keys (cq_req_list cq)) = {#}"
    using none [OF _ cq] unfolding keys_def mset_filter [symmetric] by (auto simp: filter_map filter_empty_conv)
  have "keys (map (blank_req i) is) = mset (map (Pair i) is)" for "is" by (induction "is") (auto simp: blank_req_def)
  then have "sq_inv ?n i sq" using ok fresh by (auto simp: sq_inv_def gc)
  moreover have "sq_inv ?n j q" if "get_sq n j = Some q" for j q
    using q_inv_sq [OF inv that] cq by (auto simp: sq_inv_def gc)
  ultimately have "\<forall>j q. get_sq ?n j = Some q \<longrightarrow> sq_inv ?n j q" by (auto simp: gs split: if_splits)
  moreover have live: "\<exists>s. get_sq ?n k = Some s \<and> sq_cqid s = j" if "\<exists>s. get_sq n k = Some s \<and> sq_cqid s = j" for k j
    using that new gs by auto
  have known: "k = i \<and> j = c \<or> get_sq n k = Some s \<and> sq_cqid s = j" if "get_sq ?n k = Some s \<and> sq_cqid s = j" for k j s
    using that ok(2) gs by (auto split: if_splits)
  have "cq_inv X ?n j q" if "get_cq ?n j = Some q" for j q
  proof (cases "j = c")
    case True
    then have "q = ?cq" using that gc by simp
    then show ?thesis using ci True live [of _ c] known [of _ _ c] by (simp add: cq_inv_def) blast
  next
    case False
    then have "cq_inv X n j q" using q_inv_cq [OF inv] that gc by simp
    then show ?thesis using False live [of _ j] known [of _ _ j] unfolding cq_inv_def by blast
  qed
  moreover have "q_arrays ?n" using inv at by (auto simp: q_inv_def q_arrays_def put_cq_def cwrite_def split: if_splits)
  ultimately show ?thesis using inv by (simp add: q_inv_def)
qed

lemma setup_discontig_null: "nvme_setup_discontig n a d e \<noteq> Some (Some l)"
  by (simp add: nvme_setup_discontig_def Let_def)

lemma new_id:
  assumes "q_inv X n"
  shows "nvme_check_sqid n i \<noteq> 0 \<Longrightarrow> get_sq n i = None" "nvme_check_cqid n i \<noteq> 0 \<Longrightarrow> get_cq n i = None"
  using assms by (auto simp: nvme_check_sqid_def nvme_check_cqid_def get_sq_def get_cq_def cread_def q_inv_def q_arrays_def split: if_splits)

lemma init_sq_inv:
  assumes inv: "q_inv X n" and new: "get_sq n i = None" and sz: "0 < sz" "sz \<le> 2 ^ 16" and run: "nvme_init_sq n a i c sz prio contig = Some (st, n')"
  shows "q_inv X n'"
proof (cases contig)
  case False
  then show ?thesis using run inv setup_discontig_null by (auto simp: nvme_init_sq_def split: bind_splits option.splits)
next
  case True
  let ?tn = "if i = 0 then (None, n) else let (now, n1) = get_ns n in (Some (now + 1000000), n1)"
  obtain t n1 where tn: "?tn = (t, n1)" by (meson surj_pair)
  have same: "same_queues n n1" using tn same_queues_ns by (auto split: if_splits prod.splits)
  have i1: "q_inv X n1" "get_sq n1 i = None" "get_cq n1 = get_cq n" using inv q_inv_cong [OF same] new same_queues_get [OF same] by simp_all
  from run True obtain cq where cq: "get_cq n c = Some cq" by (auto simp: nvme_init_sq_def split: bind_splits)
  from run True tn cq obtain sqs where w: "cwrite (n_sq (put_cq n1 (cq\<lparr>cq_sq_list := cq_sq_list cq @ [i]\<rparr>))) i
      (Some \<lparr>sq_sqid = i, sq_cqid = c, sq_head = 0, sq_tail = 0, sq_size = sz, sq_contig = True,
              sq_dma_addr = a, sq_prp_list = [], sq_arb_burst = arb_burst_of (ft_arbitration (n_features n)) prio,
              sq_completed = 0, sq_req_list = map (blank_req i) [0..<nat sz], sq_out_req_list = [],
              sq_db_addr = (if i \<noteq> 0 \<and> n_dbs_addr n \<noteq> 0 \<and> n_eis_addr n \<noteq> 0 then u64 (n_dbs_addr n + 2 * i * db_entry_size n) else 0),
              sq_timer = t\<rparr>) = Some sqs"
    and n': "n' = (put_cq n1 (cq\<lparr>cq_sq_list := cq_sq_list cq @ [i]\<rparr>))\<lparr>n_sq := sqs\<rparr>"
    unfolding nvme_init_sq_def by (auto simp: Let_def [of "put_cq n1 x" for x] split: bind_splits)
  show ?thesis unfolding n' by (rule q_inv_new_sq [OF i1(1,2) _ w]) (use cq i1(3) sz in simp_all)
qed

lemma init_cq_inv:
  assumes inv: "q_inv X n" and new: "get_cq n c = None" and sz: "0 < sz" "sz \<le> 2 ^ 16" and run: "nvme_init_cq n a c v sz irq contig = Some (st, n')"
  shows "q_inv X n'"
proof (cases contig)
  case False
  then show ?thesis using run inv setup_discontig_null by (auto simp: nvme_init_cq_def split: bind_splits option.splits)
next
  case True
  let ?tn = "if c = 0 then (None, n) else let (now, n1) = get_ns n in (Some (now + 200000), n1)"
  obtain t n1 where tn: "?tn = (t, n1)" by (meson surj_pair)
  have same: "same_queues n n1" using tn same_queues_ns by (auto split: if_splits prod.splits)
  have i1: "q_inv X n1" "get_cq n1 c = None" using inv q_inv_cong [OF same] new same_queues_get [OF same] by simp_all
  from run True tn obtain cqs where w: "cwrite (n_cq n1) c (Some \<lparr>cq_cqid = c, cq_head = 0, cq_tail = 0, cq_size = sz, cq_phase = 1, cq_contig = True,
              cq_irq_enabled = irq, cq_vector = v, cq_dma_addr = a, cq_prp_list = [], cq_sq_list = [], cq_req_list = [],
              cq_db_addr = (if c \<noteq> 0 \<and> n_dbs_addr n \<noteq> 0 \<and> n_eis_addr n \<noteq> 0 then u64 (n_dbs_addr n + (2 * c + 1) * db_entry_size n) else 0),
              cq_timer = t\<rparr>) = Some cqs" and n': "n' = n1\<lparr>n_cq := cqs\<rparr>"
    unfolding nvme_init_cq_def by (auto split: bind_splits)
  show ?thesis unfolding n' by (rule q_inv_new_cq [OF i1 w]) (use sz in simp_all)
qed

lemma qsize_ok:
  assumes "cmd_wf cmd" "n_mqes n < 65535" "hi16 (dw cmd 10) \<noteq> 0" "\<not> n_mqes n < hi16 (dw cmd 10)"
  shows "0 < u16 (hi16 (dw cmd 10) + 1)" "u16 (hi16 (dw cmd 10) + 1) \<le> 2 ^ 16"
proof -
  have "0 \<le> hi16 (dw cmd 10)" using dw_range [OF assms(1), of 10] by (simp add: hi16_def pos_imp_zdiv_nonneg_iff)
  then have "u16 (hi16 (dw cmd 10) + 1) = hi16 (dw cmd 10) + 1" using assms(2,4) by (simp add: u16_def)
  then show "0 < u16 (hi16 (dw cmd 10) + 1)" "u16 (hi16 (dw cmd 10) + 1) \<le> 2 ^ 16"
    using \<open>0 \<le> hi16 (dw cmd 10)\<close> by (simp_all add: u16_def)
qed

lemma create_sq_inv:
  assumes inv: "q_inv X n" and wf: "cmd_wf cmd" and run: "nvme_create_sq n cmd = Some (st, n')"
  shows "q_inv X n'"
proof -
  have m: "n_mqes n < 65535" using inv by (simp add: q_inv_def)
  show ?thesis
    using run inv init_sq_inv [OF inv new_id(1) [OF inv]] qsize_ok [OF wf m] unfolding nvme_create_sq_def Let_def
    by (auto split: if_splits bind_splits)
qed

lemma create_cq_inv:
  assumes inv: "q_inv X n" and wf: "cmd_wf cmd" and run: "nvme_create_cq env n cmd = Some (st, n')"
  shows "q_inv X n'"
proof -
  have m: "n_mqes n < 65535" using inv by (simp add: q_inv_def)
  show ?thesis
    using run inv init_cq_inv [OF inv new_id(2) [OF inv]] qsize_ok [OF wf m] unfolding nvme_create_cq_def Let_def
    by (auto split: if_splits bind_splits)
qed

lemma del_cq_inv:
  assumes inv: "q_inv {} n" and run: "nvme_del_cq n cmd = Some (st, n')"
  shows "q_inv {} n'"
proof (cases "n' = n")
  case False
  let ?c = "lo16 (dw cmd 10)"
  from run False obtain cq where r: "get_cq n ?c = Some cq" "cq_sq_list cq = []" "n' = nvme_free_cq n ?c"
    by (auto simp: nvme_del_cq_def Let_def split: if_splits bind_splits)
  have gc: "get_cq n' j = (if j = ?c then None else get_cq n j)" for j
    using r(1,3) by (auto simp: nvme_free_cq_def get_cq_def cread_def split: if_splits bind_splits)
  have gs: "get_sq n' j = get_sq n j" for j using r(3) by (simp add: nvme_free_cq_def get_sq_def)
  have used: "sq_cqid sq \<noteq> ?c" if "get_sq n i = Some sq" for i sq
    using q_inv_cq [OF inv r(1)] r(2) that by (auto simp: cq_inv_def)
  have "sq_inv n' i sq" if "get_sq n i = Some sq" for i sq
    using q_inv_sq [OF inv that] used [OF that] by (simp add: sq_inv_def gc)
  moreover have "cq_inv {} n' j q" if "get_cq n' j = Some q" for j q
    using q_inv_cq [OF inv, of j q] that by (simp add: cq_inv_def gc gs split: if_splits)
  moreover have "n_mqes n' = n_mqes n" "q_arrays n' = q_arrays n" using r(3) by (simp_all add: nvme_free_cq_def q_arrays_def)
  ultimately show ?thesis using inv by (simp add: q_inv_def gs)
qed (use inv in simp)

lemma q_inv_weaken: "q_inv {} n \<Longrightarrow> q_inv X n"
  by (auto simp: q_inv_def cq_inv_def)

lemma q_inv_unlist:
  assumes inv: "q_inv {} n" and cq: "get_cq n c = Some cq"
  shows "q_inv {i} (put_cq n (cq\<lparr>cq_sq_list := remove1 i (cq_sq_list cq)\<rparr>))"
proof -
  let ?cq = "cq\<lparr>cq_sq_list := remove1 i (cq_sq_list cq)\<rparr>"
  note ci = q_inv_cq [OF inv cq]
  have gc: "get_cq (put_cq n ?cq) j = (if j = c then Some ?cq else get_cq n j)" for j using get_put_cq [OF cq, of ?cq] ci by (simp add: cq_inv_def)
  have "sq_inv (put_cq n ?cq) k sq" if "get_sq n k = Some sq" for k sq
    using q_inv_sq [OF inv that] cq by (auto simp: sq_inv_def gc)
  moreover have rm: "k = i \<or> k \<in> set (remove1 i l) \<longleftrightarrow> k = i \<or> k \<in> set l" for k and l :: "int list" by (cases "k = i") simp_all
  have "cq_inv {i} (put_cq n ?cq) j q" if "get_cq (put_cq n ?cq) j = Some q" for j q
  proof (cases "j = c")
    case True
    then have "q = ?cq" using that gc by simp
    then show ?thesis using True ci by (simp add: cq_inv_def rm)
  next
    case False
    then show ?thesis using q_inv_cq [OF inv, of j] that gc by (simp add: cq_inv_def)
  qed
  ultimately show ?thesis using inv by (simp add: q_inv_def)
qed

lemma q_inv_free_sq:
  assumes inv: "q_inv {i} n" and sq: "get_sq n i = Some sq" and cq: "get_cq n (sq_cqid sq) = Some cq"
  shows "q_inv {} (nvme_free_sq (put_cq n (cq\<lparr>cq_req_list := filter (\<lambda>r. rq_sq r \<noteq> i) (cq_req_list cq)\<rparr>)) i)" (is "q_inv {} ?n")
proof -
  let ?cq = "cq\<lparr>cq_req_list := filter (\<lambda>r. rq_sq r \<noteq> i) (cq_req_list cq)\<rparr>"
  note ci = q_inv_cq [OF inv cq]
  have gc: "get_cq ?n j = (if j = sq_cqid sq then Some ?cq else get_cq n j)" for j
    using get_put_cq [OF cq, of ?cq j] ci by (auto simp: nvme_free_sq_def get_cq_def cq_inv_def)
  have gs: "get_sq ?n j = (if j = i then None else get_sq n j)" for j
    using sq by (auto simp: nvme_free_sq_def get_sq_def put_cq_def cread_def split: if_splits bind_splits)
  have fk: "filter_mset (\<lambda>k. fst k = j) (keys (filter (\<lambda>r. rq_sq r \<noteq> i) rs)) = filter_mset (\<lambda>k. fst k = j) (keys rs)" if "j \<noteq> i" for j rs
    using that by (induction rs) auto
  have "sq_inv ?n j q" if "get_sq ?n j = Some q" for j q
  proof -
    have j: "j \<noteq> i" "get_sq n j = Some q" using that gs by (auto split: if_splits)
    show ?thesis using q_inv_sq [OF inv j(2)] cq fk [OF j(1)] by (auto simp: sq_inv_def gc)
  qed
  moreover have "cq_inv {} ?n j q" if q: "get_cq ?n j = Some q" for j q
  proof (cases "j = sq_cqid sq")
    case True
    then have "q = ?cq" using q gc by simp
    then show ?thesis using ci True by (auto simp: cq_inv_def gs)
  next
    case False
    then have c: "cq_inv {i} n j q" using q_inv_cq [OF inv] q gc by simp
    then have "\<forall>r \<in> set (cq_req_list q). rq_sq r \<noteq> i" using sq False by (auto simp: cq_inv_def)
    then show ?thesis using c by (auto simp: cq_inv_def gs)
  qed
  moreover have "n_mqes ?n = n_mqes n" "q_arrays ?n = q_arrays n" by (simp_all add: nvme_free_sq_def put_cq_def q_arrays_def)
  ultimately show ?thesis using inv by (simp add: q_inv_def)
qed

lemma cancel_inv:
  assumes "q_inv X n" "foldM (\<lambda>req n. nvme_misc_cb n req (f req)) rs n = Some n'"
  shows "q_inv X n' \<and> same_cqids n n'"
  using assms
proof (induction rs arbitrary: n)
  case (Cons r rs)
  then obtain n1 where "nvme_misc_cb n r (f r) = Some n1" "foldM (\<lambda>req n. nvme_misc_cb n req (f req)) rs n1 = Some n'"
    by (auto split: bind_splits)
  then show ?case using Cons.IH misc_cb_inv [OF Cons.prems(1)] same_cqids_trans by blast
qed simp

lemma del_sq_inv:
  assumes inv: "q_inv {} n" and env: "oc_frame env" and run: "nvme_del_sq env n cmd = Some (st, n')"
  shows "q_inv {} n'"
proof (cases "lo16 (dw cmd 10) = 0 \<or> nvme_check_sqid n (lo16 (dw cmd 10)) \<noteq> 0")
  case True
  then show ?thesis using run inv by (auto simp: nvme_del_sq_def Let_def)
next
  case False
  let ?i = "lo16 (dw cmd 10)"
  from run False obtain sq n1 where sq: "get_sq n ?i = Some sq"
    and c: "foldM (\<lambda>req n. nvme_misc_cb n req (aio_cancel env req)) (filter rq_aiocb (sq_out_req_list sq)) n = Some n1"
    by (auto simp: nvme_del_sq_def Let_def split: bind_splits)
  from cancel_inv [OF inv c] have i1: "q_inv {} n1" "same_cqids n n1" by auto
  from same_cqids_get [OF i1(2) sq] obtain s1 where s1: "get_sq n1 ?i = Some s1" "sq_cqid s1 = sq_cqid sq" by blast
  then obtain cq where cq: "get_cq n1 (sq_cqid sq) = Some cq" using q_inv_sq [OF i1(1) s1(1)] by (auto simp: sq_inv_def)
  then have chk: "nvme_check_cqid n1 (sq_cqid sq) = 0" using new_id(2) [OF i1(1)] by force
  let ?m = "put_cq n1 (cq\<lparr>cq_sq_list := remove1 ?i (cq_sq_list cq)\<rparr>)"
  from run False sq c chk cq obtain n2 cq1 where p: "nvme_post_cqes env (sq_cqid sq) ?m = Some n2" "get_cq n2 (sq_cqid sq) = Some cq1"
    "n' = nvme_free_sq (put_cq n2 (cq1\<lparr>cq_req_list := filter (\<lambda>r. rq_sq r \<noteq> ?i) (cq_req_list cq1)\<rparr>)) ?i"
    by (auto simp: nvme_del_sq_def Let_def split: bind_splits)
  from post_cqes_every_inv [OF q_inv_unlist [OF i1(1) cq] env] p(1) have i2: "q_inv {?i} n2" "same_cqids ?m n2" by (auto simp: nvme_post_cqes_def)
  from same_cqids_get [OF i2(2), of ?i s1] s1 obtain s2 where "get_sq n2 ?i = Some s2" "sq_cqid s2 = sq_cqid sq" by auto
  then show ?thesis using q_inv_free_sq [OF i2(1), of s2 cq1] p(2,3) by simp
qed

subsection \<open>Admin commands and doorbells\<close>

text \<open>The remaining admin commands leave the queues alone and return the request that they got.\<close>

definition adm_frame :: "blk_env \<Rightarrow> bool" where
  "adm_frame env \<longleftrightarrow> (\<forall>n cmd req st req' n'. oc_admin env n cmd req = Some (st, req', n') \<longrightarrow> same_queues n n' \<and> same_req req req')"

lemma words_wf: "cmd_wf (words_of bs)"
  by (auto simp: cmd_wf_def words_of_def u32_def)

lemma fetch_wf: "fetch_cmd n sq i = Some cmd \<Longrightarrow> cmd_wf cmd"
  by (auto simp: fetch_cmd_def words_wf split: bind_splits)

lemma remap_queues: "nvme_remap n cmd = Some (st, n') \<Longrightarrow> same_queues n n'"
  by (auto simp: nvme_remap_def heap_copy_def same_queues_def Let_def split: bind_splits if_splits)

lemma async_queues: "nvme_async_req n req = Some (st, n') \<Longrightarrow> same_queues n n'"
  by (auto simp: nvme_async_req_def same_queues_def Let_def split: bind_splits if_splits prod.splits dest!: same_queues_ns)

lemma abort_loop_inv:
  assumes inv: "q_inv X n" and sq: "get_sq n i = Some sq" and run: "abort_loop is cid sq n = Some (r, n')"
  shows "q_inv X n'"
  using run
proof (induction "is")
  case (Cons k "is")
  let ?pos = "u32 (sq_head sq + int k) mod sq_size sq"
  show ?case
  proof (cases "?pos = sq_tail sq")
    case True
    then show ?thesis using Cons.prems inv by (simp add: Let_def)
  next
    case False
    then obtain addr bs where a: "sqe_addr n sq ?pos = Some addr" "nvme_addr_read n addr 64 = Some bs"
      using Cons.prems by (auto simp: Let_def split: bind_splits)
    show ?thesis
    proof (cases "cmd_cid (words_of bs) = cid")
      case False
      then show ?thesis using Cons \<open>?pos \<noteq> sq_tail sq\<close> a by (simp add: Let_def)
    next
      case True
      then obtain req rs where q: "sq_req_list sq = req # rs" using Cons.prems False a by (auto simp: Let_def split: list.splits)
      let ?req = "req\<lparr>rq_result := 0, rq_cid := cid, rq_status := 7\<rparr>"
      let ?sq = "sq\<lparr>sq_req_list := rs, sq_out_req_list := sq_out_req_list sq @ [?req]\<rparr>"
      from True Cons.prems False a q obtain n1 where w: "nvme_addr_write (put_sq n ?sq) addr (NVME_OP_ABORTED # tl bs) = Some n1"
        "nvme_enqueue_req_completion n1 (sq_cqid sq) ?req = Some n'" by (auto simp: Let_def split: bind_splits)
      note si = q_inv_sq [OF inv sq]
      have "q_inv X (put_sq n ?sq)" using si sq_inv_own [OF si] q by (intro q_inv_put_sq(1) [OF inv sq]) (auto simp: sq_like_def sq_inv_def)
      then have "q_inv X n1" using q_inv_cong [OF same_queues_write [OF w(1)]] by simp
      then show ?thesis using enqueue_inv w(2) by blast
    qed
  qed
qed simp

lemma abort_inv:
  assumes "q_inv X n" "nvme_abort_req env n cmd = Some (r, n')"
  shows "q_inv X n'"
proof (cases "nvme_check_sqid n (lo16 (dw cmd 10)) \<noteq> 0")
  case True
  then show ?thesis using assms by (auto simp: nvme_abort_req_def Let_def)
next
  case False
  from assms(2) False obtain sq where sq: "get_sq n (lo16 (dw cmd 10)) = Some sq" by (auto simp: nvme_abort_req_def Let_def split: bind_splits)
  show ?thesis
    using assms False sq abort_loop_inv [OF assms(1) sq] misc_cb_inv [OF assms(1)]
    by (auto simp: nvme_abort_req_def Let_def split: bind_splits if_splits list.splits)
qed

lemma set_db_inv:
  assumes "q_inv X n" "nvme_set_db_memory n cmd = Some (st, n')"
  shows "q_inv X n'"
proof -
  let ?step = "\<lambda>i n. do {
               q \<leftarrow> cread (n_sq n) (i + 1);
               c \<leftarrow> cread (n_cq n) (i + 1);
               let n1 = (case q of None \<Rightarrow> n | Some sq \<Rightarrow> put_sq n (sq\<lparr>sq_db_addr := u64 (cmd_prp1 cmd + 2 * (i + 1) * db_entry_size n)\<rparr>));
               Some (case c of None \<Rightarrow> n1 | Some cq \<Rightarrow> put_cq n1 (cq\<lparr>cq_db_addr := u64 (cmd_prp1 cmd + (2 * (i + 1) + 1) * db_entry_size n)\<rparr>))
             }"
  have one: "q_inv X m'" if i: "q_inv X m" and r: "?step k m = Some m'" for k m m'
  proof -
    from r obtain q c where qc: "cread (n_sq m) (k + 1) = Some q" "cread (n_cq m) (k + 1) = Some c" by (auto split: bind_splits)
    let ?m1 = "case q of None \<Rightarrow> m | Some sq \<Rightarrow> put_sq m (sq\<lparr>sq_db_addr := u64 (cmd_prp1 cmd + 2 * (k + 1) * db_entry_size m)\<rparr>)"
    have g: "get_sq m (k + 1) = q" "get_cq m (k + 1) = c" using qc by (simp_all add: get_sq_def get_cq_def)
    have i1: "q_inv X ?m1"
    proof (cases q)
      case (Some sq)
      note si = q_inv_sq [OF i, of "k + 1" sq]
      show ?thesis using Some g si sq_inv_own [OF si] by (auto intro!: q_inv_put_sq(1) [OF i] simp: sq_like_def sq_inv_def)
    qed (use i in simp)
    have gc: "get_cq ?m1 (k + 1) = c" using g by (cases q) simp_all
    show ?thesis
    proof (cases c)
      case None
      then show ?thesis using r qc i1 by (simp add: Let_def)
    next
      case (Some cq)
      note ci = q_inv_cq [OF i1, of "k + 1" cq]
      have "q_inv X (put_cq ?m1 (cq\<lparr>cq_db_addr := u64 (cmd_prp1 cmd + (2 * (k + 1) + 1) * db_entry_size m)\<rparr>))"
        using Some gc ci by (auto intro!: q_inv_put_cq [OF i1] simp: cq_like_def cq_inv_def)
      then show ?thesis using r qc Some by (simp add: Let_def)
    qed
  qed
  have fold: "q_inv X m \<Longrightarrow> foldM ?step ks m = Some m' \<Longrightarrow> q_inv X m'" for ks m m'
  proof (induction ks arbitrary: m)
    case (Cons k ks)
    from Cons.prems(2) obtain m1 where "?step k m = Some m1" "foldM ?step ks m1 = Some m'" by (auto simp del: Option.bind_eq_Some_conv split: Option.bind_split_asm)
    then show ?case using one [OF Cons.prems(1)] Cons.IH by blast
  qed simp
  let ?n = "n\<lparr>n_dbs_addr := cmd_prp1 cmd, n_eis_addr := cmd_prp2 cmd\<rparr>"
  have "q_inv X ?n" using assms(1) q_inv_cong [of n ?n] by (simp add: same_queues_def)
  from fold [OF this] show ?thesis using assms unfolding nvme_set_db_memory_def Let_def by (auto split: if_splits bind_splits)
qed

lemma nvme_admin_cmd_inv:
  assumes inv: "q_inv {} n" and env: "oc_frame env" "adm_frame env" and wf: "cmd_wf cmd" and run: "nvme_admin_cmd env n cmd req = Some (st, req', n')"
  shows "q_inv {} n'"
proof -
  have same: "same_queues n m \<Longrightarrow> q_inv {} m" for m using inv q_inv_cong by simp
  note del = del_sq_inv [OF inv env(1)] del_cq_inv [OF inv] create_sq_inv [OF inv wf] create_cq_inv [OF inv wf] abort_inv [OF inv] set_db_inv [OF inv]
  show ?thesis
    using run env(2) inv del remap_queues [THEN same] async_queues [THEN same] same identify_queues [THEN same] log_queues [THEN same]
      format_queues [THEN same] feature_queues [THEN conjunct1, THEN same]
    unfolding nvme_admin_cmd_def Let_def with_req_def adm_frame_def
    by (auto split: if_splits bind_splits)
qed

lemma keep_out_inv: "q_inv X n \<Longrightarrow> keep_out n req = Some n' \<Longrightarrow> q_inv X n'"
  using keep_out_ok by (fastforce simp: keep_out_def split: bind_splits)

lemma process_admin_one_inv:
  assumes inv: "q_inv {} n" and env: "oc_frame env" "adm_frame env" and run: "process_admin_one env i n = Some n'"
  shows "q_inv {} n'"
proof -
  from run obtain sq cmd where sq: "get_sq n i = Some sq" and cmd: "fetch_cmd n sq (sq_head sq) = Some cmd"
    by (auto simp: process_admin_one_def split: bind_splits)
  let ?sq = "sq\<lparr>sq_head := (sq_head sq + 1) mod sq_size sq\<rparr>"
  note si = q_inv_sq [OF inv sq]
  note hd = inc_sq_head_ok [OF si]
  show ?thesis
  proof (cases "cmd_opcode cmd = NVME_OP_ABORTED")
    case True
    then have "n' = put_sq n ?sq" using run sq cmd hd(1) by (simp add: process_admin_one_def)
    then show ?thesis using q_inv_put_sq(1) [OF inv sq hd(2)] sq_inv_own [OF si] by simp
  next
    case False
    from run sq cmd hd(1) False obtain req n1 status req1 n2 where t: "take_req n ?sq cmd = Some (req, n1)"
      and c: "nvme_admin_cmd env n1 cmd req = Some (status, req1, n2)"
      and e: "(if status \<noteq> NVME_NO_COMPLETE then nvme_enqueue_req_completion n2 (sq_cqid sq) (req1\<lparr>rq_status := status\<rparr>) else keep_out n2 req1) = Some n'"
      by (auto simp: process_admin_one_def split: bind_splits if_splits)
    have "q_inv {} n1" using take_req_ok [OF inv sq hd(2) _ _ t] by simp
    from nvme_admin_cmd_inv [OF this env fetch_wf [OF cmd] c] have i2: "q_inv {} n2" .
    show ?thesis using e enqueue_inv [OF i2] keep_out_inv [OF i2] by (auto split: if_splits)
  qed
qed

lemma process_sq_admin_inv:
  assumes inv: "q_inv {} n" and env: "oc_frame env" "adm_frame env" and run: "nvme_process_sq_admin env i n = Some n'"
  shows "q_inv {} n'"
proof -
  from run obtain sq0 sq p n1 sq1 where r: "get_sq n i = Some sq0" "nvme_update_sq_tail n sq0 = Some sq"
    "process_loop (process_admin_one env i) i (nat (sq_arb_burst sq)) (put_sq n sq) = Some (p, n1)" "get_sq n1 i = Some sq1"
    "n' = put_sq n1 (sq1\<lparr>sq_completed := u64 (sq_completed sq1 + p)\<rparr>)"
    by (auto simp: nvme_process_sq_admin_def split: bind_splits)
  note si = q_inv_sq [OF inv r(1)]
  have "sq_like sq0 sq" "sq_req_list sq = sq_req_list sq0" "sq_out_req_list sq = sq_out_req_list sq0"
    using r(2) si by (auto simp: nvme_update_sq_tail_def sq_like_def sq_inv_def split: if_splits bind_splits)
  then have "q_inv {} (put_sq n sq)" using q_inv_put_sq(1) [OF inv r(1)] sq_inv_own [OF si] by simp
  from process_loop_inv [OF _ this r(3)] have i1: "q_inv {} n1" using process_admin_one_inv [OF _ env] by blast
  note s1 = q_inv_sq [OF i1 r(4)]
  show ?thesis unfolding r(5) using s1 sq_inv_own [OF s1] by (intro q_inv_put_sq(1) [OF i1 r(4)]) (auto simp: sq_like_def sq_inv_def)
qed

lemma aer_loop_inv: "q_inv X n \<Longrightarrow> aer_loop events skipped n = Some n' \<Longrightarrow> q_inv X n'"
proof (induction events arbitrary: skipped n)
  case (Cons e events)
  obtain et ei lp where e: "e = (et, ei, lp)" by (cases e)
  show ?case
  proof (cases "n_outstanding_aers n \<le> 0 \<or> n_aer_mask n AND 2 ^ nat et \<noteq> 0 \<or> skipped")
    case True
    then show ?thesis using Cons e by (auto split: if_splits)
  next
    case False
    let ?n = "n\<lparr>n_aer_queue := events, n_aer_mask := u8 (n_aer_mask n OR 2 ^ nat et), n_outstanding_aers := n_outstanding_aers n - 1\<rparr>"
    from Cons.prems(2) e False obtain req n1 where r: "nvme_enqueue_req_completion ?n 0 req = Some n1" "aer_loop events False n1 = Some n'"
      by (auto simp: Let_def split: bind_splits if_splits)
    have "q_inv X ?n" using Cons.prems(1) q_inv_cong [of n ?n] by (simp add: same_queues_def)
    then show ?thesis using enqueue_inv [OF _ r(1)] Cons.IH r(2) by blast
  qed
qed simp

lemma rearm_inv:
  assumes inv: "q_inv X n" and run: "rearm i n = Some n'"
  shows "q_inv X n' \<and> get_cq n' = get_cq n"
proof -
  from run obtain sq where sq: "get_sq n i = Some sq" by (auto simp: rearm_def split: bind_splits)
  obtain t n1 where g: "get_ns n = (t, n1)" by (cases "get_ns n")
  note same = same_queues_ns [OF g]
  have i1: "q_inv X n1" "get_sq n1 i = Some sq" using inv q_inv_cong [OF same] sq same_queues_get [OF same] by simp_all
  note si = q_inv_sq [OF i1]
  have "q_inv X (put_sq n1 (sq\<lparr>sq_timer := Some (t + 500)\<rparr>))"
    using si sq_inv_own [OF si] by (intro q_inv_put_sq(1) [OF i1]) (auto simp: sq_like_def sq_inv_def)
  moreover have "get_cq (put_sq n1 (sq\<lparr>sq_timer := Some (t + 500)\<rparr>)) = get_cq n" using same_queues_get [OF same] by (intro ext) simp
  ultimately show ?thesis using run sq g inv by (auto simp: rearm_def split: if_splits)
qed

lemma rearm_all_inv: "q_inv X n \<Longrightarrow> foldM rearm is n = Some n' \<Longrightarrow> q_inv X n' \<and> get_cq n' = get_cq n"
proof (induction "is" arbitrary: n)
  case (Cons i "is")
  then show ?case using rearm_inv by (fastforce split: bind_splits)
qed simp

lemma cq_put_keep:
  assumes "q_inv X n" "get_cq n c = Some cq" "cq_like cq cq'" "cq_req_list cq' = cq_req_list cq"
  shows "q_inv X (put_cq n cq') \<and> get_cq (put_cq n cq') c = Some cq'"
  using q_inv_put_cq [OF assms] get_put_cq [OF assms(2), of cq'] assms(3) q_inv_cq [OF assms(1,2)] by (simp add: cq_like_def cq_inv_def)

lemma cq_doorbell_inv:
  assumes inv: "q_inv X n" and cq: "get_cq n c = Some cq" and full: "nvme_cq_full n cq = Some (f, cq1)"
    and run: "(if f then do {
        n2 \<leftarrow> foldM rearm (cq_sq_list cq2) (put_cq n cq2);
        Some (if cq_cqid cq2 = 0 then let (t, n3) = get_ns n2 in put_cq n3 (cq2\<lparr>cq_timer := Some (t + 500)\<rparr>) else n2)
      } else Some (if cq_tail cq2 \<noteq> cq_head cq2 then nvme_isr_notify (put_cq n cq2) cq2 else put_cq n cq2)) = Some n'"
    and cq2: "cq2 = (if cq_db_addr cq1 = 0 then cq1\<lparr>cq_head := v\<rparr> else cq1)"
  shows "q_inv X n'"
proof -
  note ci = q_inv_cq [OF inv cq]
  obtain h where h: "cq2 = cq\<lparr>cq_head := h\<rparr>" using cq_full_head [OF full] cq2 by (auto split: if_splits)
  have i1: "q_inv X (put_cq n cq2)" "get_cq (put_cq n cq2) c = Some cq2" using q_inv_head [OF inv cq] h by simp_all
  show ?thesis
  proof (cases f)
    case False
    then have "same_queues (put_cq n cq2) n'" using run by (auto simp: nvme_isr_notify_def same_queues_def split: if_splits)
    then show ?thesis using i1(1) q_inv_cong by blast
  next
    case True
    then obtain n2 where n2: "foldM rearm (cq_sq_list cq2) (put_cq n cq2) = Some n2"
      "n' = (if cq_cqid cq2 = 0 then let (t, n3) = get_ns n2 in put_cq n3 (cq2\<lparr>cq_timer := Some (t + 500)\<rparr>) else n2)"
      using run by (auto split: bind_splits)
    have i2: "q_inv X n2" "get_cq n2 c = Some cq2" using rearm_all_inv [OF i1(1) n2(1)] i1(2) by simp_all
    obtain t n3 where g: "get_ns n2 = (t, n3)" by (cases "get_ns n2")
    note same = same_queues_ns [OF g]
    have i3: "q_inv X n3" "get_cq n3 c = Some cq2" using i2 q_inv_cong [OF same] same_queues_get [OF same] by simp_all
    have "q_inv X (put_cq n3 (cq2\<lparr>cq_timer := Some (t + 500)\<rparr>))"
      using q_inv_cq [OF i3] by (intro q_inv_put_cq [OF i3]) (auto simp: cq_like_def cq_inv_def)
    then show ?thesis using n2(2) g i2(1) by simp
  qed
qed

lemma process_db_inv:
  assumes inv: "q_inv X n" and run: "nvme_process_db n addr val = Some n'"
  shows "q_inv X n'"
proof -
  have ev: "doorbell_event n a = Some m \<Longrightarrow> q_inv X m" for a m
    using inv q_inv_cong [OF event_queues] by (auto simp: doorbell_event_def split: if_splits)
  have sq: "q_inv X m'" if "get_sq n i = Some sq" "rearm i (put_sq n (if sq_db_addr sq = 0 then sq\<lparr>sq_tail := v\<rparr> else sq)) = Some m'" for i sq v m'
  proof -
    note si = q_inv_sq [OF inv that(1)]
    have "q_inv X (put_sq n (if sq_db_addr sq = 0 then sq\<lparr>sq_tail := v\<rparr> else sq))"
      using si sq_inv_own [OF si] by (intro q_inv_put_sq(1) [OF inv that(1)]) (auto simp: sq_like_def sq_inv_def)
    then show ?thesis using rearm_inv that(2) by blast
  qed
  show ?thesis
    using run ev sq cq_doorbell_inv [OF inv _ _ _ refl] unfolding nvme_process_db_def Let_def
    by (auto simp del: rearm_def split: if_splits bind_splits)
qed

subsection \<open>Registers\<close>

lemma no_queues_inv:
  assumes "n_mqes n < 65535" "q_arrays n" "\<And>i. get_sq n i = None" "\<And>c. get_cq n c = None"
  shows "q_inv X n"
  using assms by (simp add: q_inv_def)

lemma clear_ctrl_inv:
  assumes "q_inv X n"
  shows "q_inv {} (nvme_clear_ctrl n)"
proof (rule no_queues_inv)
  have a: "int (length (n_sq n)) = n_num_io_queues n + 1" "int (length (n_cq n)) = n_num_io_queues n + 1" "n_mqes n < 65535"
    using assms by (auto simp: q_inv_def q_arrays_def)
  show "n_mqes (nvme_clear_ctrl n) < 65535" "q_arrays (nvme_clear_ctrl n)"
    using a by (simp_all add: nvme_clear_ctrl_def clear_queues_def q_arrays_def)
  show "get_sq (nvme_clear_ctrl n) i = None" "get_cq (nvme_clear_ctrl n) i = None" for i
    using a by (auto simp: nvme_clear_ctrl_def clear_queues_def get_sq_def get_cq_def cread_def)
qed

lemma start_ctrl_inv:
  assumes inv: "q_inv {} n" and run: "nvme_start_ctrl n = Some (e, n')"
  shows "q_inv {} n'"
proof (cases "n' = n")
  case False
  let ?mps = "bits (n_cc n) 7 4"
  let ?ps = "2 ^ nat (?mps + 12) :: int" and ?asqs = "bits (n_aqa n) 0 12" and ?acqs = "bits (n_aqa n) 16 12"
  let ?n1 = "n\<lparr>n_page_bits := nat (?mps + 12), n_page_size := u16 ?ps, n_max_prp_ents := u16 ?ps div 8,
             n_cqe_size := 2 ^ nat (bits (n_cc n) 20 4), n_sqe_size := 2 ^ nat (bits (n_cc n) 16 4)\<rparr>"
  from run False obtain c0 s0 where c: "cread (n_cq n) 0 = Some c0" "cread (n_sq n) 0 = Some s0"
    unfolding nvme_start_ctrl_def Let_def by (auto split: bind_splits)
  from run False c obtain e1 n2 e2 n3 where z: "c0 = None" "s0 = None"
    and r: "nvme_init_cq ?n1 (n_acq n) 0 0 (?acqs + 1) 1 True = Some (e1, n2)" "nvme_init_sq n2 (n_asq n) 0 0 (?asqs + 1) 1 True = Some (e2, n3)"
      "n' = n3\<lparr>n_aer_timer := None, n_aer_queue := []\<rparr>"
    unfolding nvme_start_ctrl_def Let_def by (auto split: bind_splits if_splits)
  have i1: "q_inv {} ?n1" using inv q_inv_cong [of n ?n1] by (simp add: same_queues_def)
  have b: "0 \<le> bits x k 12 \<and> bits x k 12 < 4096" for x k by (simp add: bits_def)
  have "get_cq ?n1 0 = None" using c z by (simp add: get_cq_def)
  then have i2: "q_inv {} n2" using init_cq_inv [OF i1 _ _ _ r(1)] b [of "n_aqa n" 16] by simp
  have "n_sq n2 = n_sq n" using r(1) by (auto simp: nvme_init_cq_def split: bind_splits)
  then have "get_sq n2 0 = None" using c z by (simp add: get_sq_def)
  then have "q_inv {} n3" using init_sq_inv [OF i2 _ _ _ r(2)] b [of "n_aqa n" 0] by simp
  then show ?thesis using r(3) q_inv_cong [of n3 n'] by (simp add: same_queues_def)
qed (use inv in simp)

lemma cc_write_inv:
  assumes inv: "q_inv {} n" and run: "cc_write n data = Some n'"
  shows "q_inv {} n'"
proof -
  have keep: "q_inv {} (m\<lparr>n_cc := x, n_csts := y\<rparr>) = q_inv {} m" "q_inv {} (m\<lparr>n_csts := y\<rparr>) = q_inv {} m" "q_inv {} (m\<lparr>n_cc := x\<rparr>) = q_inv {} m"
    "q_inv {} (m\<lparr>n_csts := y, n_cc := x\<rparr>) = q_inv {} m" for m x y
    by (rule q_inv_cong, simp add: same_queues_def)+
  let ?first = "if bits data 0 1 \<noteq> 0 \<and> bits (n_cc n) 0 1 = 0 then do {
                  (e, n1) \<leftarrow> nvme_start_ctrl (n\<lparr>n_cc := u32 data\<rparr>);
                  Some (n1\<lparr>n_csts := (if e \<noteq> 0 then 2 else 1)\<rparr>)
                }
                else if bits data 0 1 = 0 \<and> bits (n_cc n) 0 1 \<noteq> 0 then
                  let n1 = nvme_clear_ctrl n in Some (n1\<lparr>n_csts := n_csts n1 div 2 * 2\<rparr>)
                else Some n"
  from run obtain n1 where f: "?first = Some n1" unfolding cc_write_def by (auto split: bind_splits)
  have st: "q_inv {} (n\<lparr>n_cc := u32 data\<rparr>)" using inv by (simp add: keep)
  have i1: "q_inv {} n1"
    using f inv start_ctrl_inv [OF st] clear_ctrl_inv [OF inv] by (auto simp: Let_def keep split: if_splits bind_splits)
  have "n' = (if bits data 14 2 \<noteq> 0 \<and> bits (n_cc n1) 14 2 = 0 then
               let n2 = nvme_clear_ctrl n1 in n2\<lparr>n_cc := u32 data, n_csts := n_csts n2 OR 8\<rparr>
             else if bits data 14 2 = 0 \<and> bits (n_cc n1) 14 2 \<noteq> 0 then
               n1\<lparr>n_csts := n_csts n1 - (n_csts n1 AND 8), n_cc := u32 data\<rparr>
             else n1)" using run f unfolding cc_write_def by simp
  then show ?thesis using i1 clear_ctrl_inv [OF i1] by (auto simp: Let_def keep split: if_splits)
qed

lemma mmio_inv:
  assumes inv: "q_inv {} n" and run: "nvme_mmio_write n addr data = Some n'"
  shows "q_inv {} n'"
proof -
  have keep: "q_inv {} (n\<lparr>n_intms := x, n_intmc := x\<rparr>) = q_inv {} n" "q_inv {} (n\<lparr>n_aqa := x\<rparr>) = q_inv {} n"
    "q_inv {} (n\<lparr>n_asq := x\<rparr>) = q_inv {} n" "q_inv {} (n\<lparr>n_acq := x\<rparr>) = q_inv {} n" for x
    by (rule q_inv_cong, simp add: same_queues_def)+
  have bar: "q_inv {} m" if "nvme_write_bar n addr data = Some m" for m
    using that cc_write_inv [OF inv] inv unfolding nvme_write_bar_def by (auto simp: keep Let_def split: if_splits)
  show ?thesis
    using run inv process_db_inv [OF inv] bar unfolding nvme_mmio_write_def by (simp split: if_splits)
qed

subsection \<open>The controller as a state machine\<close>

text \<open>
  The callbacks of the timers and of the block layer, accesses of the guest to registers and doorbells, and
  writes of the guest to its memory, in any order.
\<close>

inductive ctrl_step :: "blk_env \<Rightarrow> NvmeCtrl \<Rightarrow> NvmeCtrl \<Rightarrow> bool" for env where
  poll_sq: "nvme_process_sq_io env sqid n = Some n' \<Longrightarrow> ctrl_step env n n'"
| poll_cq: "nvme_post_cqes_io env cqid n = Some n' \<Longrightarrow> ctrl_step env n n'"
| poll_admin_sq: "nvme_process_sq_admin env sqid n = Some n' \<Longrightarrow> ctrl_step env n n'"
| poll_admin_cq: "nvme_post_cqes_admin env cqid n = Some n' \<Longrightarrow> ctrl_step env n n'"
| event: "nvme_aer_process_cb n = Some n' \<Longrightarrow> ctrl_step env n n'"
| io_done: "nvme_misc_cb n req ret = Some n' \<Longrightarrow> ctrl_step env n n'"
| mmio: "nvme_mmio_write n addr data = Some n' \<Longrightarrow> ctrl_step env n n'"
| cmb: "nvme_cmb_write n addr data sz = Some n' \<Longrightarrow> ctrl_step env n n'"
| guest: "ctrl_step env n (n\<lparr>n_mem := mem\<rparr>)"

inductive_cases ctrl_stepE: "ctrl_step env n n'"

lemma ctrl_step_inv:
  assumes "ctrl_step env n n'" "oc_frame env" "adm_frame env" "q_inv {} n"
  shows "q_inv {} n'"
  using assms(1)
proof cases
  case (poll_sq sqid)
  then show ?thesis by (rule nvme_process_sq_io_inv [OF assms(4,2)])
next
  case (poll_cq cqid)
  then show ?thesis using post_cqes_every_inv [OF assms(4,2)] unfolding nvme_post_cqes_io_def by blast
next
  case (poll_admin_sq sqid)
  then show ?thesis by (rule process_sq_admin_inv [OF assms(4,2,3)])
next
  case (poll_admin_cq cqid)
  then show ?thesis by (rule post_cqes_admin_inv [OF assms(4,2)])
next
  case event
  then show ?thesis unfolding nvme_aer_process_cb_def by (rule aer_loop_inv [OF assms(4)])
next
  case (io_done req ret)
  then show ?thesis using misc_cb_inv [OF assms(4)] by blast
next
  case (mmio addr data)
  then show ?thesis by (rule mmio_inv [OF assms(4)])
next
  case (cmb addr data sz)
  then have "same_queues n n'" by (auto simp: nvme_cmb_write_def same_queues_def split: if_splits)
  then show ?thesis using assms(4) q_inv_cong by simp
next
  case (guest mem)
  then show ?thesis using assms(4) q_inv_cong [of n n'] by (simp add: same_queues_def)
qed

lemma reachable_inv:
  assumes "(ctrl_step env)\<^sup>*\<^sup>* n n'" "oc_frame env" "adm_frame env" "q_inv {} n"
  shows "q_inv {} n'"
  using assms by (induction rule: rtranclp_induct) (auto intro: ctrl_step_inv)

end
