(* ===== verification/NvmeServe.thy ===== *)
theory NvmeServe
  imports NvmeAdmin Device
begin

unbundle bit_operations_syntax

section \<open>The controller on top of the device\<close>

text \<open>
  The I/O commands of the controller composed with the device: a valid read or write command is
  served by the translation layer as the command of \<open>Device\<close> that belongs to it, and moves the data
  between the guest and the heap storage.
\<close>

subsection \<open>Valid commands\<close>

text \<open>
  A controller as \<open>nvme_start_ctrl\<close> and \<open>nvme_init\<close> leave it for this device: pages of 4 to 32 KiB, no memory
  buffer, blocks of 4096 bytes, and a namespace that lies within the heap storage.
\<close>

definition ns_fits :: "NvmeCtrl \<Rightarrow> NvmeNamespace \<Rightarrow> bool" where
  "ns_fits n ns \<longleftrightarrow> prp_conf n \<and> n_femu_mode n = FEMU_BLACKBOX_MODE \<and> ns_ds ns = 12 \<and>
     ns_nsze ns * 4096 \<le> n_heap_size n \<and> n_heap_size n < 2 ^ 62"

definition rw_accepted :: "NvmeCtrl \<Rightarrow> NvmeNamespace \<Rightarrow> NvmeCmd \<Rightarrow> bool" where
  "rw_accepted n ns cmd \<longleftrightarrow> cmd_wf cmd \<and> rw_slba cmd + (rw_nlb cmd + 1) \<le> ns_nsze ns \<and>
     (n_mdts n \<noteq> 0 \<longrightarrow> (rw_nlb cmd + 1) * 4096 \<le> n_page_size n * 2 ^ n_mdts n) \<and>
     (rw_control cmd AND 2 ^ 13 = 0 \<or> ns_dps ns AND 7 \<noteq> 0) \<and>
     (cmd_opcode cmd = NVME_CMD_WRITE \<or> \<not> any_bit (ns_uncorrectable ns) (rw_slba cmd) (rw_slba cmd + (rw_nlb cmd + 1)))"

definition rw_request :: "NvmeCmd \<Rightarrow> lpn_info list \<Rightarrow> request_meta" where
  "rw_request cmd infos = \<lparr>req_length = (rw_nlb cmd + 1) * 8, req_sector_nb = rw_slba cmd * 8, lpns_info = infos\<rparr>"

section \<open>Lemmas\<close>

subsection \<open>Fields\<close>

lemma cmd_ranges:
  assumes "cmd_wf cmd"
  shows "0 \<le> rw_slba cmd" "rw_slba cmd < 2 ^ 64" "0 \<le> rw_nlb cmd" "rw_nlb cmd < 2 ^ 16" "0 \<le> cmd_prp1 cmd"
  using dw_range [OF assms, of 10] dw_range [OF assms, of 11] dw_range [OF assms, of 6] dw_range [OF assms, of 7]
  by (simp_all add: rw_slba_def rw_nlb_def cmd_prp1_def qw_def lo16_def)

subsection \<open>Time\<close>

lemma dev_ok_timed: "dev_ok s \<Longrightarrow> timed s s' \<Longrightarrow> dev_ok s' \<and> tab s' = tab s \<and> ssdparams s' = ssdparams s"
  by (auto simp: dev_ok_def timed_def tab_def time_tables same_but_time_frame intro!: dev_inv_time)

lemma cmd_ready_timed:
  assumes "cmd_ready s c" "timed s s'"
  shows "cmd_ready s' c"
proof -
  have t: "same_but_time s s'" "room_kept (iostat s) (iostat s')" using assms(2) by (simp_all add: timed_def)
  note fr = same_but_time_frame [OF t(1)] time_tables(5) [OF t(1)]
  have rr: "ref_room k s' = ref_room k s" for k by (simp add: ref_room_def fr)
  show ?thesis using assms(1) t(2) by (cases c) (auto simp: Let_def fr rr room_kept_def)
qed

lemma dev_ok_time_inv: "dev_ok s \<Longrightarrow> time_inv s"
  by (auto simp: dev_ok_def dest: dev_invD(2))

lemma get_ns_timed:
  assumes "dev_ok (n_ssd n)"
  obtains t s' where "get_ns n = (t, n\<lparr>n_ssd := s'\<rparr>)" "timed (n_ssd n) s'"
proof -
  obtain t s' where r: "read_clock REALTIME_NS (n_ssd n) = (t, s')" by (cases "read_clock REALTIME_NS (n_ssd n)")
  have "timed (n_ssd n) s'" using timed_clock [OF dev_ok_time_inv [OF assms], of REALTIME_NS] r by simp
  then show ?thesis using that [of t s'] r by (simp add: get_ns_def)
qed

subsection \<open>Transfers\<close>

definition rw_cmd :: "bool \<Rightarrow> request_meta \<Rightarrow> host_cmd" where
  "rw_cmd is_write request1 = (if is_write then Write request1 else Read (req_length request1) (req_sector_nb request1))"

lemma rw_ssd_ok:
  assumes "dev_ok (n_ssd n)" "cmd_ready (n_ssd n) (rw_cmd w request1)"
  shows "\<exists>d s'. rw_ssd n w request1 = Some (d, n\<lparr>n_ssd := s'\<rparr>) \<and> dev_ok s' \<and> ssdparams s' = ssdparams (n_ssd n) \<and>
    cmd_step (ssdparams (n_ssd n)) (rw_cmd w request1) (tab (n_ssd n)) (tab s')"
proof -
  from assms(1) obtain A where A: "dev_inv (n_ssd n) A" by (auto simp: dev_ok_def)
  from exec_step [OF A assms(2)] obtain d s' A' where
    e: "exec (n_ssd n) (rw_cmd w request1) = Some (d, s')" "dev_inv s' A'" "ssdparams s' = ssdparams (n_ssd n)"
      "cmd_step (ssdparams (n_ssd n)) (rw_cmd w request1) (tab (n_ssd n)) (tab s')" by blast
  then show ?thesis by (cases w) (auto simp: rw_ssd_def rw_cmd_def dev_ok_def)
qed

lemma rw_transfer_ok:
  assumes "dev_ok (n_ssd n)" "n_femu_mode n = FEMU_BLACKBOX_MODE" "cmd_ready (n_ssd n) (rw_cmd (rq_is_write req) request1)"
    "segs_ok (rq_qsg req)" "seg_bytes (rq_qsg req) mod 512 = 0" "0 \<le> rq_data_offset req"
    "rq_data_offset req + seg_bytes (rq_qsg req) \<le> n_heap_size n" "rq_is_write req \<or> segs_disjoint (rq_qsg req)"
  shows "\<exists>req' s' h m. rw_transfer n req request1 = Some (NVME_SUCCESS, req', n\<lparr>n_ssd := s', n_heap := h, n_mem := m\<rparr>) \<and>
    rq_cid req' = rq_cid req \<and> dev_ok s' \<and> ssdparams s' = ssdparams (n_ssd n) \<and> cmd_step (ssdparams (n_ssd n)) (rw_cmd (rq_is_write req) request1) (tab (n_ssd n)) (tab s') \<and>
    (if rq_is_write req then h = store (n_heap n) (rq_data_offset req) (gather (n_mem n) (rq_qsg req)) \<and> m = n_mem n
     else h = n_heap n \<and> gather m (rq_qsg req) = bytes_at (n_heap n) (rq_data_offset req) (seg_bytes (rq_qsg req)))"
proof -
  from get_ns_timed [OF assms(1)] obtain t1 s1 where g1: "get_ns n = (t1, n\<lparr>n_ssd := s1\<rparr>)" "timed (n_ssd n) s1" .
  let ?n1 = "n\<lparr>n_ssd := s1\<rparr>"
  have d1: "dev_ok (n_ssd ?n1)" using dev_ok_timed [OF assms(1) g1(2)] by simp
  from get_ns_timed [OF d1] obtain t2 s2 where g2: "get_ns ?n1 = (t2, n\<lparr>n_ssd := s2\<rparr>)" "timed s1 s2" by auto
  let ?n2 = "n\<lparr>n_ssd := s2\<rparr>"
  have t: "timed (n_ssd n) s2" using timed_trans g1(2) g2(2) by blast
  note d2 = dev_ok_timed [OF assms(1) t]
  have "dev_ok (n_ssd ?n2)" "cmd_ready (n_ssd ?n2) (rw_cmd (rq_is_write req) request1)"
    using d2 cmd_ready_timed [OF assms(3) t] by simp_all
  from rw_ssd_ok [OF this] obtain d s' where r: "rw_ssd ?n2 (rq_is_write req) request1 = Some (d, n\<lparr>n_ssd := s'\<rparr>)" "dev_ok s'"
    "ssdparams s' = ssdparams (n_ssd n) \<and> cmd_step (ssdparams (n_ssd n)) (rw_cmd (rq_is_write req) request1) (tab (n_ssd n)) (tab s')" using d2 by auto
  let ?req = "req\<lparr>rq_status := NVME_SUCCESS, rq_expire_time := t1 + (d - (t2 - t1))\<rparr>"
  have run: "rw_transfer n req request1 = do { n4 \<leftarrow> nvme_heap_storage_rw (n\<lparr>n_ssd := s'\<rparr>) ?req; Some (NVME_SUCCESS, ?req, n4) }"
    using g1(1) g2(1) r(1) assms(2) by (simp add: rw_transfer_def Let_def)
  show ?thesis
  proof (cases "rq_is_write req")
    case True
    have "nvme_heap_storage_rw (n\<lparr>n_ssd := s'\<rparr>) ?req =
        Some (n\<lparr>n_ssd := s', n_heap := store (n_heap n) (rq_data_offset req) (gather (n_mem n) (rq_qsg req)), n_mem := n_mem n\<rparr>)"
      using heap_write_ok [of ?req "n\<lparr>n_ssd := s'\<rparr>"] True assms(4-7) by simp
    then show ?thesis using run r(2,3) True by auto
  next
    case False
    then obtain m where m: "nvme_heap_storage_rw (n\<lparr>n_ssd := s'\<rparr>) ?req = Some (n\<lparr>n_ssd := s', n_heap := n_heap n, n_mem := m\<rparr>)"
      "gather m (rq_qsg req) = bytes_at (n_heap n) (rq_data_offset req) (seg_bytes (rq_qsg req))"
      using heap_read_ok [of ?req "n\<lparr>n_ssd := s'\<rparr>"] assms(4-8) by auto
    then show ?thesis using run r(2,3) False by auto
  qed
qed


subsection \<open>Metadata\<close>

text \<open>What the request carries for each page: the filtered tuple of the page when the command has metadata.\<close>

definition page_infos :: "NvmeCtrl \<Rightarrow> int \<Rightarrow> bool \<Rightarrow> int \<Rightarrow> lpn_info list" where
  "page_infos n meta w n_pages =
     (let sc = ssdparams (n_ssd n); msl = bytes_at (n_mem n) meta (n_pages * sos sc)
      in map (\<lambda>i. if meta \<noteq> 0 \<and> w \<and> int i < n_pages then ftl_meta_parse sc (ftl_meta_index sc msl (int i)) else no_info) [0..<512])"

lemma length_page_infos [simp]: "length (page_infos n meta w p) = 512"
  by (simp add: page_infos_def Let_def)

lemma meta_loop_ok:
  assumes "0 \<le> np" "np \<le> 512" "sc = ssdparams (n_ssd n)"
  shows "\<exists>b. foldM (\<lambda>i. ftl_meta_write (ftl_meta_index sc msl i) i) (cupto np) (n, replicate 512 no_info) =
    Some (n\<lparr>n_meta_buf := b\<rparr>, map (\<lambda>i. if int i < np then ftl_meta_parse sc (ftl_meta_index sc msl (int i)) else no_info) [0..<512])"
proof -
  let ?st = "\<lambda>k. map (\<lambda>i. if int i < k then ftl_meta_parse sc (ftl_meta_index sc msl (int i)) else no_info) [0..<512]"
  have "\<exists>b. foldM (\<lambda>i. ftl_meta_write (ftl_meta_index sc msl i) i) (map int [0..<k]) (n, replicate 512 no_info) = Some (n\<lparr>n_meta_buf := b\<rparr>, ?st (int k))"
    if "k \<le> 512" for k
    using that
  proof (induction k)
    case 0
    have "replicate 512 no_info = ?st 0" by (rule nth_equalityI) simp_all
    then show ?case by (intro exI [of _ "n_meta_buf n"]) simp
  next
    case (Suc k)
    then obtain b where b: "foldM (\<lambda>i. ftl_meta_write (ftl_meta_index sc msl i) i) (map int [0..<k]) (n, replicate 512 no_info) = Some (n\<lparr>n_meta_buf := b\<rparr>, ?st (int k))"
      by auto
    have "(?st (int k))[k := ftl_meta_parse sc (ftl_meta_index sc msl (int k))] = ?st (int (Suc k))"
    proof (rule nth_equalityI)
      fix i assume "i < length ((?st (int k))[k := ftl_meta_parse sc (ftl_meta_index sc msl (int k))])"
      then show "(?st (int k))[k := ftl_meta_parse sc (ftl_meta_index sc msl (int k))] ! i = ?st (int (Suc k)) ! i" by (cases "i = k") auto
    qed simp
    then have "ftl_meta_write (ftl_meta_index sc msl (int k)) (int k) (n\<lparr>n_meta_buf := b\<rparr>, ?st (int k)) =
        Some (n\<lparr>n_meta_buf := take (nat (sos sc)) (ftl_meta_index sc msl (int k))\<rparr>, ?st (int (Suc k)))"
      using Suc.prems assms(3) by (simp add: ftl_meta_write_def cwrite_def Let_def)
    then show ?case using b by (intro exI [of _ "take (nat (sos sc)) (ftl_meta_index sc msl (int k))"]) (simp add: foldM_append)
  qed
  from this [of "nat np"] show ?thesis using assms by (simp add: cupto_def)
qed

lemma rw_meta_ok:
  assumes "prp_conf n" "0 \<le> np" "np \<le> 512"
  shows "\<exists>b. rw_meta n meta w np = Some (n\<lparr>n_meta_buf := b\<rparr>, page_infos n meta w np)"
proof (cases "meta \<noteq> 0 \<and> w")
  case False
  then have "page_infos n meta w np = replicate 512 no_info" by (intro nth_equalityI) (auto simp: page_infos_def Let_def)
  then show ?thesis using False assms(3) by (intro exI [of _ "n_meta_buf n"]) (auto simp: rw_meta_def Let_def)
next
  case True
  let ?sc = "ssdparams (n_ssd n)"
  from meta_loop_ok [OF assms(2,3) refl, of n "bytes_at (n_mem n) meta (np * sos ?sc)"] True show ?thesis
    using assms(3) prp_confD(4) [OF assms(1)] by (simp add: rw_meta_def page_infos_def Let_def nvme_addr_read_def)
qed

subsection \<open>Reads and writes\<close>

text \<open>The values that \<open>nvme_rw\<close> computes from an accepted command do not wrap.\<close>

lemma page_sectors: "x * 4096 div 512 = x * 8" "x * 4096 mod 512 = 0" for x :: int
  using nonzero_mult_div_cancel_right [of 512 "x * 8"] mod_mult_self2_is_0 [of "x * 8" 512] by simp_all

lemma rw_values:
  assumes "ns_fits n ns" "rw_accepted n ns cmd"
  shows "u64 ((rw_nlb cmd + 1) * 2 ^ ns_ds ns) = (rw_nlb cmd + 1) * 4096" "u64 (rw_slba cmd * 2 ^ ns_ds ns) = rw_slba cmd * 4096"
    "u64 (rw_slba cmd + (rw_nlb cmd + 1)) = rw_slba cmd + (rw_nlb cmd + 1)" "u32 ((rw_nlb cmd + 1) * 2 ^ ns_ds ns) = (rw_nlb cmd + 1) * 4096"
    "u32 ((rw_nlb cmd + 1) * 4096 div 4096) = rw_nlb cmd + 1" "u32 ((rw_nlb cmd + 1) * 4096 div 512) = (rw_nlb cmd + 1) * 8"
    "rw_slba cmd * 4096 div 512 = rw_slba cmd * 8" "0 < (rw_nlb cmd + 1) * 4096" "(rw_nlb cmd + 1) * 4096 < 2 ^ 31"
    "0 \<le> rw_slba cmd * 4096" "rw_slba cmd * 4096 + (rw_nlb cmd + 1) * 4096 \<le> n_heap_size n"
proof -
  have c: "cmd_wf cmd" "rw_slba cmd + (rw_nlb cmd + 1) \<le> ns_nsze ns" using assms(2) by (simp_all add: rw_accepted_def)
  note r = cmd_ranges [OF c(1)]
  have ds: "(2 :: int) ^ ns_ds ns = 4096" "n_heap_size n < 2 ^ 62" "ns_nsze ns * 4096 \<le> n_heap_size n" using assms(1) by (simp_all add: ns_fits_def)
  have "(rw_slba cmd + (rw_nlb cmd + 1)) * 4096 \<le> ns_nsze ns * 4096" using c(2) by simp
  then have "(rw_slba cmd + (rw_nlb cmd + 1)) * 4096 \<le> n_heap_size n" using ds(3) by linarith
  then show h: "rw_slba cmd * 4096 + (rw_nlb cmd + 1) * 4096 \<le> n_heap_size n" by (simp add: algebra_simps)
  show "0 < (rw_nlb cmd + 1) * 4096" "(rw_nlb cmd + 1) * 4096 < 2 ^ 31" "0 \<le> rw_slba cmd * 4096" using r by simp_all
  show "u64 ((rw_nlb cmd + 1) * 2 ^ ns_ds ns) = (rw_nlb cmd + 1) * 4096" "u32 ((rw_nlb cmd + 1) * 2 ^ ns_ds ns) = (rw_nlb cmd + 1) * 4096"
    "u32 ((rw_nlb cmd + 1) * 4096 div 4096) = rw_nlb cmd + 1"
    using r by (simp_all add: ds u64_def u32_def)
  show "u32 ((rw_nlb cmd + 1) * 4096 div 512) = (rw_nlb cmd + 1) * 8" "rw_slba cmd * 4096 div 512 = rw_slba cmd * 8"
    unfolding page_sectors using r by (simp_all add: u32_def)
  show "u64 (rw_slba cmd * 2 ^ ns_ds ns) = rw_slba cmd * 4096" "u64 (rw_slba cmd + (rw_nlb cmd + 1)) = rw_slba cmd + (rw_nlb cmd + 1)"
    using r h ds(2) by (simp_all add: ds u64_def)
qed

lemma nvme_rw_ok:
  assumes "ns_fits n ns" "rw_accepted n ns cmd" "dev_ok (n_ssd n)" "w = (cmd_opcode cmd = NVME_CMD_WRITE)"
    "rw_nlb cmd < 512" "infos = page_infos n (cmd_mptr cmd) w (rw_nlb cmd + 1)"
    "nvme_map_prp n (cmd_prp1 cmd) (cmd_prp2 cmd) ((rw_nlb cmd + 1) * 4096) = Some (Inr (False, segs))"
    "cmd_ready (n_ssd n) (rw_cmd w (rw_request cmd infos))" "w \<or> segs_disjoint segs"
  shows "\<exists>req' b s' h m. nvme_rw env n ns cmd req = Some (NVME_SUCCESS, req', n\<lparr>n_meta_buf := b, n_ssd := s', n_heap := h, n_mem := m\<rparr>) \<and>
    rq_cid req' = rq_cid req \<and> dev_ok s' \<and> ssdparams s' = ssdparams (n_ssd n) \<and> cmd_step (ssdparams (n_ssd n)) (rw_cmd w (rw_request cmd infos)) (tab (n_ssd n)) (tab s') \<and>
    (if w then h = store (n_heap n) (rw_slba cmd * 4096) (gather (n_mem n) segs) \<and> m = n_mem n
     else h = n_heap n \<and> gather m segs = bytes_at (n_heap n) (rw_slba cmd * 4096) ((rw_nlb cmd + 1) * 4096))"
proof -
  note v = rw_values [OF assms(1,2)]
  have f: "prp_conf n" "n_femu_mode n = FEMU_BLACKBOX_MODE" "ns_ds ns = 12" using assms(1) by (simp_all add: ns_fits_def)
  have a: "cmd_wf cmd" using assms(2) by (simp add: rw_accepted_def)
  from rw_meta_ok [OF f(1), of "rw_nlb cmd + 1" "cmd_mptr cmd" w] assms(5,6) cmd_ranges(3) [OF a] obtain b where
    meta: "rw_meta n (cmd_mptr cmd) w (rw_nlb cmd + 1) = Some (n\<lparr>n_meta_buf := b\<rparr>, infos)" by auto
  from nvme_map_prp_ok [OF f(1) v(8,9) cmd_ranges(5) [OF a], of "cmd_prp2 cmd"] assms(7)
  have sb: "seg_bytes segs = (rw_nlb cmd + 1) * 4096" and so: "segs_ok segs" by (fastforce simp: segs_ok_def)+
  let ?n = "n\<lparr>n_meta_buf := b\<rparr>"
  define req2 where "req2 = req\<lparr>rq_data_offset := rw_slba cmd * 4096, rq_is_write := w, rq_qsg := segs, rq_qsg_size := seg_bytes segs,
    rq_slba := rw_slba cmd, rq_nlb := u16 (rw_nlb cmd + 1)\<rparr>"
  have chk: "nvme_rw_check_req env n ns cmd r (rw_slba cmd) (rw_slba cmd + (rw_nlb cmd + 1)) l (rw_control cmd) ((rw_nlb cmd + 1) * 4096) 0 = Some (0, n)"
    if "rq_is_write r = w" for r l
    using assms(2,4) that by (auto simp: nvme_rw_check_req_def rw_accepted_def)
  have run: "nvme_rw env n ns cmd req = rw_transfer ?n req2 (rw_request cmd infos)"
    unfolding nvme_rw_def Let_def v
    using assms(4,7) meta sb by (simp add: chk req2_def rw_request_def v nvme_map_prp_cong [OF same_mem_frame(1)] del: distrib_right_numeral)
  have q: "rq_qsg req2 = segs" "rq_is_write req2 = w" "rq_data_offset req2 = rw_slba cmd * 4096" by (simp_all add: req2_def)
  have m: "seg_bytes segs mod 512 = 0" unfolding sb by (rule page_sectors)
  from rw_transfer_ok [of ?n req2 "rw_request cmd infos", unfolded q] assms(3,8,9) f(2) so m v(10,11) sb
  obtain req' s' h mm where t: "rw_transfer ?n req2 (rw_request cmd infos) = Some (NVME_SUCCESS, req', ?n\<lparr>n_ssd := s', n_heap := h, n_mem := mm\<rparr>)"
    "rq_cid req' = rq_cid req2" "dev_ok s'" "ssdparams s' = ssdparams (n_ssd n) \<and> cmd_step (ssdparams (n_ssd n)) (rw_cmd w (rw_request cmd infos)) (tab (n_ssd n)) (tab s')"
    "if w then h = store (n_heap n) (rw_slba cmd * 4096) (gather (n_mem n) segs) \<and> mm = n_mem n
     else h = n_heap n \<and> gather mm segs = bytes_at (n_heap n) (rw_slba cmd * 4096) ((rw_nlb cmd + 1) * 4096)"
    by auto
  have "rq_cid req' = rq_cid req" using t(2) by (simp add: req2_def)
  then show ?thesis unfolding run using t by (intro exI [of _ req'] exI [of _ b] exI [of _ s'] exI [of _ h] exI [of _ mm]) simp
qed


text \<open>
  A read or write command at the head of a submission queue that the controller can serve: a namespace is
  addressed, the checks accept it, its pages can be mapped and the device is ready for it.
\<close>

definition rw_ready :: "NvmeCtrl \<Rightarrow> NvmeCmd \<Rightarrow> (int \<times> int) list \<Rightarrow> bool" where
  "rw_ready n cmd segs \<longleftrightarrow>
     (let w = (cmd_opcode cmd = NVME_CMD_WRITE); ns = n_namespaces n ! nat (cmd_nsid cmd - 1)
      in (w \<or> cmd_opcode cmd = NVME_CMD_READ) \<and> 1 \<le> cmd_nsid cmd \<and> cmd_nsid cmd \<le> n_num_namespaces n \<and>
         n_num_namespaces n = int (length (n_namespaces n)) \<and> ns_fits n ns \<and> rw_accepted n ns cmd \<and> rw_nlb cmd < 512 \<and>
         nvme_map_prp n (cmd_prp1 cmd) (cmd_prp2 cmd) ((rw_nlb cmd + 1) * 4096) = Some (Inr (False, segs)) \<and> (w \<or> segs_disjoint segs) \<and>
         dev_ok (n_ssd n) \<and> cmd_ready (n_ssd n) (rw_cmd w (rw_request cmd (page_infos n (cmd_mptr cmd) w (rw_nlb cmd + 1)))))"

text \<open>What the command does to the device, the heap storage and the memory of the guest.\<close>

definition rw_done :: "NvmeCtrl \<Rightarrow> NvmeCmd \<Rightarrow> (int \<times> int) list \<Rightarrow> NvmeCtrl \<Rightarrow> bool" where
  "rw_done n cmd segs n' \<longleftrightarrow>
     (let w = (cmd_opcode cmd = NVME_CMD_WRITE); off = rw_slba cmd * 4096
      in dev_ok (n_ssd n') \<and> ssdparams (n_ssd n') = ssdparams (n_ssd n) \<and>
         cmd_step (ssdparams (n_ssd n)) (rw_cmd w (rw_request cmd (page_infos n (cmd_mptr cmd) w (rw_nlb cmd + 1)))) (tab (n_ssd n)) (tab (n_ssd n')) \<and>
         (if w then n_heap n' = store (n_heap n) off (gather (n_mem n) segs) \<and> n_mem n' = n_mem n
          else n_heap n' = n_heap n \<and> gather (n_mem n') segs = bytes_at (n_heap n) off ((rw_nlb cmd + 1) * 4096)))"

lemma nvme_io_rw_ok:
  assumes "rw_ready n cmd segs"
  shows "\<exists>req' b s' h m. nvme_io_cmd env n cmd req = Some (NVME_SUCCESS, req', n\<lparr>n_meta_buf := b, n_ssd := s', n_heap := h, n_mem := m\<rparr>) \<and>
    rq_cid req' = rq_cid req \<and> same_req req req' \<and> rw_done n cmd segs (n\<lparr>n_meta_buf := b, n_ssd := s', n_heap := h, n_mem := m\<rparr>)"
proof -
  let ?ns = "n_namespaces n ! nat (cmd_nsid cmd - 1)" and ?w = "cmd_opcode cmd = NVME_CMD_WRITE"
  have r: "?w \<or> cmd_opcode cmd = NVME_CMD_READ" "1 \<le> cmd_nsid cmd" "cmd_nsid cmd \<le> n_num_namespaces n" "n_num_namespaces n = int (length (n_namespaces n))"
    "ns_fits n ?ns" "rw_accepted n ?ns cmd" "rw_nlb cmd < 512" "nvme_map_prp n (cmd_prp1 cmd) (cmd_prp2 cmd) ((rw_nlb cmd + 1) * 4096) = Some (Inr (False, segs))"
    "?w \<or> segs_disjoint segs" "dev_ok (n_ssd n)" "cmd_ready (n_ssd n) (rw_cmd ?w (rw_request cmd (page_infos n (cmd_mptr cmd) ?w (rw_nlb cmd + 1))))"
    using assms unfolding rw_ready_def Let_def by auto
  have ns: "cread (n_namespaces n) (cmd_nsid cmd - 1) = Some ?ns" using r(2-4) by (simp add: cread_def)
  have "cmd_nsid cmd \<noteq> 0" "\<not> n_num_namespaces n < cmd_nsid cmd" using r(2,3) by simp_all
  then have io: "nvme_io_cmd env n cmd req = nvme_rw env n ?ns cmd req"
    using r(1) ns unfolding nvme_io_cmd_def Let_def by (elim disjE) simp_all
  from nvme_rw_ok [OF r(5,6,10) refl r(7) refl r(8,11,9), of env req] obtain req' b s' h m where
    k: "nvme_rw env n ?ns cmd req = Some (NVME_SUCCESS, req', n\<lparr>n_meta_buf := b, n_ssd := s', n_heap := h, n_mem := m\<rparr>)" "rq_cid req' = rq_cid req"
      "dev_ok s'" "ssdparams s' = ssdparams (n_ssd n)" "cmd_step (ssdparams (n_ssd n)) (rw_cmd ?w (rw_request cmd (page_infos n (cmd_mptr cmd) ?w (rw_nlb cmd + 1)))) (tab (n_ssd n)) (tab s')"
      "if ?w then h = store (n_heap n) (rw_slba cmd * 4096) (gather (n_mem n) segs) \<and> m = n_mem n
       else h = n_heap n \<and> gather m segs = bytes_at (n_heap n) (rw_slba cmd * 4096) ((rw_nlb cmd + 1) * 4096)" by blast
  have "rw_done n cmd segs (n\<lparr>n_meta_buf := b, n_ssd := s', n_heap := h, n_mem := m\<rparr>)"
    using k(3-6) unfolding rw_done_def Let_def by auto
  then show ?thesis unfolding io using k(1,2) nvme_rw_queues [OF k(1)] by blast
qed

text \<open>The queues of the controller do not matter for a command.\<close>

lemma rw_parts_put_sq:
  "ns_fits (put_sq n sq) = ns_fits n" "rw_accepted (put_sq n sq) = rw_accepted n" "page_infos (put_sq n sq) = page_infos n"
  "nvme_map_prp (put_sq n sq) = nvme_map_prp n" "n_namespaces (put_sq n sq) = n_namespaces n" "n_num_namespaces (put_sq n sq) = n_num_namespaces n"
  "n_ssd (put_sq n sq) = n_ssd n" "n_heap (put_sq n sq) = n_heap n" "n_mem (put_sq n sq) = n_mem n"
proof -
  show "nvme_map_prp (put_sq n sq) = nvme_map_prp n" by (rule nvme_map_prp_cong) (simp add: put_sq_def same_mem_def)
  show "ns_fits (put_sq n sq) = ns_fits n" "rw_accepted (put_sq n sq) = rw_accepted n" "page_infos (put_sq n sq) = page_infos n"
    by (simp_all add: fun_eq_iff put_sq_def ns_fits_def prp_conf_def rw_accepted_def page_infos_def Let_def)
qed (simp_all add: put_sq_def)

lemma rw_ready_put_sq: "rw_ready n cmd segs \<Longrightarrow> rw_ready (put_sq n sq) cmd segs"
  unfolding rw_ready_def Let_def rw_parts_put_sq .

lemma rw_done_put_sq: "rw_done (put_sq n sq) cmd segs n' = rw_done n cmd segs n'"
  unfolding rw_done_def Let_def rw_parts_put_sq ..

lemma rw_done_put: "rw_done n cmd segs (put_cq (put_sq n' sq) cq) = rw_done n cmd segs n'"
  by (simp add: rw_done_def Let_def put_sq_def put_cq_def)

subsection \<open>From the submission queue to the waiting list\<close>

definition ring_conf :: "NvmeCtrl \<Rightarrow> NvmeCtrl \<Rightarrow> bool" where
  "ring_conf n n' \<longleftrightarrow> n_femu_mode n' = n_femu_mode n \<and> n_cmbsz n' = n_cmbsz n \<and> n_cqe_size n' = n_cqe_size n"

lemma process_rw_ok:
  assumes inv: "q_inv X n" and sq: "get_sq n i = Some sq" and cq: "get_cq n (sq_cqid sq) = Some cq" and free: "sq_req_list sq \<noteq> []"
    and cmd: "fetch_cmd n sq (sq_head sq) = Some cmd" and rdy: "rw_ready n cmd segs"
  shows "\<exists>n' req cq'. process_io_one env i n = Some n' \<and> q_inv X n' \<and> rw_done n cmd segs n' \<and> get_cq n' (sq_cqid sq) = Some cq' \<and>
    (\<exists>t. cq' = cq\<lparr>cq_req_list := insert_req req (cq_req_list cq), cq_timer := t\<rparr>) \<and> rq_sq req = i \<and> rq_cid req = cmd_cid cmd \<and>
    rq_status req = NVME_SUCCESS \<and>
    (\<exists>sq'. get_sq n' i = Some sq' \<and> sq_cqid sq' = sq_cqid sq \<and> sq_head sq' = (sq_head sq + 1) mod sq_size sq \<and> sq_tail sq' = sq_tail sq) \<and> ring_conf n n'"
proof -
  note si = q_inv_sq [OF inv sq] and ci = q_inv_cq [OF inv cq]
  let ?sq1 = "sq\<lparr>sq_head := (sq_head sq + 1) mod sq_size sq\<rparr>"
  note hd = inc_sq_head_ok [OF si]
  obtain r rs where r: "sq_req_list sq = r # rs" using free by (cases "sq_req_list sq") auto
  let ?req = "r\<lparr>rq_result := 0, rq_cid := cmd_cid cmd, rq_aiocb := False, rq_opcode := cmd_opcode cmd\<rparr>"
  let ?sq2 = "?sq1\<lparr>sq_req_list := rs, sq_out_req_list := sq_out_req_list sq @ [?req]\<rparr>"
  let ?n1 = "put_sq n ?sq2"
  have t: "take_req n ?sq1 cmd = Some (?req, ?n1)" by (simp add: take_req_def r Let_def)
  from take_req_ok [OF inv sq hd(2) _ _ t] obtain sq' where
    a: "q_inv X ?n1" "rq_sq ?req = i" "get_sq ?n1 i = Some sq'" "sq_cqid sq' = sq_cqid sq" "list_ex (same_req ?req) (sq_out_req_list sq')" by auto
  from nvme_io_rw_ok [OF rw_ready_put_sq [OF rdy, of ?sq2], of env ?req] obtain req' b s' h m where
    c: "nvme_io_cmd env ?n1 cmd ?req = Some (NVME_SUCCESS, req', ?n1\<lparr>n_meta_buf := b, n_ssd := s', n_heap := h, n_mem := m\<rparr>)"
      "rq_cid req' = cmd_cid cmd" "same_req ?req req'" "rw_done n cmd segs (?n1\<lparr>n_meta_buf := b, n_ssd := s', n_heap := h, n_mem := m\<rparr>)"
    by (auto simp: rw_done_put_sq)
  let ?n2 = "?n1\<lparr>n_meta_buf := b, n_ssd := s', n_heap := h, n_mem := m\<rparr>" and ?req1 = "req'\<lparr>rq_status := NVME_SUCCESS\<rparr>"
  have same: "same_queues ?n1 ?n2" by (simp add: same_queues_def)
  have i2: "q_inv X ?n2" "get_sq ?n2 (rq_sq ?req1) = Some sq'" "list_ex (same_req ?req1) (sq_out_req_list sq')"
    using a q_inv_cong [OF same] same_queues_get [OF same] c(3) by (auto simp: same_req_def list_ex_iff)
  have g2: "get_cq ?n2 (sq_cqid sq) = Some cq" using cq same_queues_get [OF same] by simp
  from enqueue_io_ok [OF i2 a(4) [symmetric]] obtain n' where e: "nvme_enqueue_req_completion_io ?n2 (sq_cqid sq) ?req1 = Some n'" "q_inv X n'" by blast
  from e(1) i2(2) g2 obtain out where n': "n' = put_cq (put_sq ?n2 (sq'\<lparr>sq_out_req_list := out\<rparr>))
      (if cq_req_list cq = [] then cq\<lparr>cq_req_list := [?req1], cq_timer := Some (rq_expire_time ?req1)\<rparr>
       else cq\<lparr>cq_req_list := insert_req ?req1 (cq_req_list cq)\<rparr>)" (is "_ = put_cq _ ?cq")
    by (auto simp: nvme_enqueue_req_completion_io_def split: if_splits bind_splits)
  have "get_cq n' (sq_cqid sq) = Some ?cq" using n' g2 get_put_cq [of "put_sq ?n2 (sq'\<lparr>sq_out_req_list := out\<rparr>)" "sq_cqid sq" cq ?cq] ci by (simp add: cq_inv_def)
  moreover have "\<exists>t. ?cq = cq\<lparr>cq_req_list := insert_req ?req1 (cq_req_list cq), cq_timer := t\<rparr>"
    by (intro exI [of _ "cq_timer ?cq"]) simp
  moreover have "get_sq n' i = Some (sq'\<lparr>sq_out_req_list := out\<rparr>)"
    using n' get_put_sq [of ?n2 i sq' "sq'\<lparr>sq_out_req_list := out\<rparr>"] i2(2) q_inv_sq [OF i2(1,2)] a(2) c(3) by (simp add: sq_inv_def same_req_def)
  moreover have "sq' = ?sq2" using a(3) get_put_sq [OF sq, of ?sq2] si by (simp add: sq_inv_def)
  moreover have "process_io_one env i n = Some n'"
  proof -
    have "cmd_opcode cmd \<noteq> NVME_OP_ABORTED" using rdy by (auto simp: rw_ready_def Let_def)
    then show ?thesis using sq cmd hd(1) t c(1) e(1) by (simp add: process_io_one_def)
  qed
  moreover have "rw_done n cmd segs n'" unfolding n' rw_done_put by (rule c(4))
  moreover have "ring_conf n n'" unfolding n' by (simp add: ring_conf_def put_sq_def put_cq_def)
  ultimately show ?thesis using e(2) a(2) c(2,3) by (intro exI [of _ n'] exI [of _ ?req1] exI [of _ ?cq]) (simp add: same_req_def)
qed

subsection \<open>What is written is read\<close>

lemma rw_ready_after:
  assumes "rw_ready n wcmd wsegs" "cmd_opcode wcmd = NVME_CMD_WRITE" "rw_ready n rcmd rsegs" "cmd_opcode rcmd = NVME_CMD_READ"
    "n' = n\<lparr>n_meta_buf := b, n_ssd := s', n_heap := h, n_mem := n_mem n\<rparr>" "dev_ok s'" "ssdparams s' = ssdparams (n_ssd n)"
  shows "rw_ready n' rcmd rsegs"
proof -
  have "nvme_map_prp n' = nvme_map_prp n" using assms(5) by (intro nvme_map_prp_cong) (simp add: same_mem_def)
  moreover have "ns_fits n' = ns_fits n" "rw_accepted n' = rw_accepted n" "page_infos n' = page_infos n" "n_namespaces n' = n_namespaces n"
    "n_num_namespaces n' = n_num_namespaces n" "n_ssd n' = s'"
    using assms(5,7) by (simp_all add: fun_eq_iff ns_fits_def prp_conf_def rw_accepted_def page_infos_def Let_def)
  ultimately show ?thesis using assms(3,4,6,7) unfolding rw_ready_def Let_def by (simp add: rw_cmd_def)
qed

lemma store_read_back:
  assumes "segs_ok segs" "seg_bytes segs = l"
  shows "bytes_at (store h off (gather mem segs)) off l = gather mem segs"
  using assms length_gather [OF assms(1), of mem] seg_bytes_nonneg [OF assms(1)] by (intro bytes_at_store) simp

lemma rw_ready_segs:
  assumes "rw_ready n cmd segs"
  shows "segs_ok segs" "seg_bytes segs = (rw_nlb cmd + 1) * 4096"
proof -
  let ?ns = "n_namespaces n ! nat (cmd_nsid cmd - 1)"
  have f: "ns_fits n ?ns" "rw_accepted n ?ns cmd" "nvme_map_prp n (cmd_prp1 cmd) (cmd_prp2 cmd) ((rw_nlb cmd + 1) * 4096) = Some (Inr (False, segs))"
    using assms by (simp_all add: rw_ready_def Let_def)
  note v = rw_values [OF f(1,2)]
  have a: "cmd_wf cmd" "prp_conf n" using f(1,2) by (simp_all add: rw_accepted_def ns_fits_def)
  from nvme_map_prp_ok [OF a(2) v(8,9) cmd_ranges(5) [OF a(1)], of "cmd_prp2 cmd"] f(3)
  show "seg_bytes segs = (rw_nlb cmd + 1) * 4096" "segs_ok segs" by (fastforce simp: segs_ok_def)+
qed

lemma write_read_back:
  assumes "rw_ready n wcmd wsegs" "cmd_opcode wcmd = NVME_CMD_WRITE" "rw_ready n rcmd rsegs" "cmd_opcode rcmd = NVME_CMD_READ"
    "rw_slba rcmd = rw_slba wcmd" "rw_nlb rcmd = rw_nlb wcmd"
  shows "\<exists>r1 n1 r2 n2. nvme_io_cmd env n wcmd wreq = Some (NVME_SUCCESS, r1, n1) \<and> nvme_io_cmd env n1 rcmd rreq = Some (NVME_SUCCESS, r2, n2) \<and>
    gather (n_mem n2) rsegs = gather (n_mem n) wsegs"
proof -
  from nvme_io_rw_ok [OF assms(1), of env wreq] obtain r1 b s' h m where
    w: "nvme_io_cmd env n wcmd wreq = Some (NVME_SUCCESS, r1, n\<lparr>n_meta_buf := b, n_ssd := s', n_heap := h, n_mem := m\<rparr>)"
      "rw_done n wcmd wsegs (n\<lparr>n_meta_buf := b, n_ssd := s', n_heap := h, n_mem := m\<rparr>)" (is "rw_done _ _ _ ?n1") by blast
  have d: "dev_ok s'" "ssdparams s' = ssdparams (n_ssd n)" "h = store (n_heap n) (rw_slba wcmd * 4096) (gather (n_mem n) wsegs)" "m = n_mem n"
    using w(2) assms(2) by (simp_all add: rw_done_def Let_def)
  have "rw_ready ?n1 rcmd rsegs" by (rule rw_ready_after [OF assms(1-4) _ d(1,2), where b = b and h = h]) (simp add: d(4))
  from nvme_io_rw_ok [OF this, of env rreq] obtain r2 n2 where
    r: "nvme_io_cmd env ?n1 rcmd rreq = Some (NVME_SUCCESS, r2, n2)" "rw_done ?n1 rcmd rsegs n2" by blast
  have "gather (n_mem n2) rsegs = bytes_at h (rw_slba wcmd * 4096) ((rw_nlb wcmd + 1) * 4096)"
    using r(2) assms(4-6) by (simp add: rw_done_def Let_def)
  also have "\<dots> = gather (n_mem n) wsegs" unfolding d(3) by (rule store_read_back [OF rw_ready_segs [OF assms(1)]])
  finally show ?thesis using w(1) r(1) by blast
qed


subsection \<open>Encoding\<close>

lemma le_int_bytes: "le_int (le_bytes k x) = x mod 2 ^ (8 * k)"
proof (induction k arbitrary: x)
  case (Suc k)
  have "x mod 256 + 256 * (x div 256 mod 2 ^ (8 * k)) = x mod (256 * 2 ^ (8 * k))" by (simp add: zmod_zmult2_eq)
  then show ?case using Suc by (simp add: power_add)
qed simp

lemma concat_piece:
  assumes "\<forall>xs \<in> set xss. length xs = m" "k < length xss"
  shows "take m (drop (m * k) (concat xss)) = xss ! k"
  using assms
proof (induction xss arbitrary: k)
  case (Cons xs xss)
  then show ?case by (cases k) auto
qed simp

lemma words_of_bytes:
  assumes "cmd_wf cmd"
  shows "words_of (concat (map (le_bytes 4) cmd)) = cmd"
proof (rule nth_equalityI)
  have l: "length cmd = 16" using assms by (simp add: cmd_wf_def)
  show "length (words_of (concat (map (le_bytes 4) cmd))) = length cmd" by (simp add: words_of_def l)
  fix k assume "k < length (words_of (concat (map (le_bytes 4) cmd)))"
  then have k: "k < 16" by (simp add: words_of_def)
  have "take 4 (drop (4 * k) (concat (map (le_bytes 4) cmd))) = le_bytes 4 (cmd ! k)"
    using concat_piece [of "map (le_bytes 4) cmd" 4 k] k l by simp
  moreover have "0 \<le> cmd ! k" "cmd ! k < 2 ^ 32" using assms k l by (auto simp: cmd_wf_def)
  ultimately show "words_of (concat (map (le_bytes 4) cmd)) ! k = cmd ! k"
    using k by (simp add: words_of_def le_int_bytes u32_def)
qed

text \<open>The guest reads back the fields of a completion entry.\<close>

definition read_cqe :: "int list \<Rightarrow> NvmeCqe" where
  "read_cqe bs = \<lparr>cqe_result = le_int (take 8 bs), cqe_sq_head = le_int (take 2 (drop 8 bs)), cqe_sq_id = le_int (take 2 (drop 10 bs)),
     cqe_cid = le_int (take 2 (drop 12 bs)), cqe_status = le_int (take 2 (drop 14 bs))\<rparr>"

lemma read_cqe_bytes:
  assumes "0 \<le> cqe_result e" "cqe_result e < 2 ^ 64" "0 \<le> cqe_sq_head e" "cqe_sq_head e < 2 ^ 16" "0 \<le> cqe_sq_id e" "cqe_sq_id e < 2 ^ 16"
    "0 \<le> cqe_cid e" "cqe_cid e < 2 ^ 16" "0 \<le> cqe_status e" "cqe_status e < 2 ^ 16"
  shows "read_cqe (cqe_bytes e) = e"
  using assms by (simp add: read_cqe_def cqe_bytes_def le_int_bytes del: le_bytes.simps le_int.simps)


subsection \<open>From the submission queue to the completion queue\<close>

lemma read_cqe_fields:
  "cqe_cid (read_cqe (cqe_bytes e)) = u16 (cqe_cid e)" "cqe_sq_id (read_cqe (cqe_bytes e)) = u16 (cqe_sq_id e)"
  "cqe_status (read_cqe (cqe_bytes e)) = u16 (cqe_status e)"
  by (simp_all add: read_cqe_def cqe_bytes_def le_int_bytes u16_def del: le_bytes.simps le_int.simps)

text \<open>A poll that finds everything due and enough room posts the whole waiting list.\<close>

lemma post_all_ok:
  assumes "q_inv X n" "get_cq n c = Some cq" "c \<noteq> 0" "ring_ok n cq" "int (length (cq_req_list cq)) \<le> ring_room n cq"
    "\<forall>r \<in> set (cq_req_list cq). \<forall>t \<ge> ticks_of n. rq_expire_time r \<le> clock_of n t"
  shows "\<exists>n' cq'. nvme_post_cqes_io env c n = Some n' \<and> q_inv X n' \<and> get_cq n' c = Some cq' \<and> cq_req_list cq' = [] \<and>
    (\<forall>j < length (cq_req_list cq). bytes_at (n_mem n') (cqe_slot n cq j) 16 = cqe_bytes (cqe_entry n cq j))"
proof -
  from post_cqes_every_ok [OF assms(1-4), of 5000 env] obtain ntt k h due n1 n' where
    e: "nvme_post_cqes_io env c n = Some n'" "post_result X n c cq k n1" "post_stops n cq k ntt" "q_inv X n'"
      "get_cq n' c = Some (cq\<lparr>cq_head := h, cq_tail := (cq_tail cq + int k) mod cq_size cq, cq_phase := phase_at cq k,
         cq_req_list := drop k (cq_req_list cq), cq_timer := Some due\<rparr>)" "n_mem n' = n_mem n1"
    unfolding nvme_post_cqes_io_def by blast
  have "k = length (cq_req_list cq)"
  proof (rule ccontr)
    assume "k \<noteq> length (cq_req_list cq)"
    then have "k < length (cq_req_list cq)" "clock_of n (ticks_of n + k) < rq_expire_time (cq_req_list cq ! k)"
      using e(3) assms(5) by (auto simp: post_stops_def)
    then show False using assms(6) by (meson le_add1 not_le nth_mem)
  qed
  then show ?thesis using e by (auto simp: post_result_def)
qed

lemma set_insert_req: "set (insert_req r rs) = insert r (set rs)"
  by (induction rs) auto


subsection \<open>A burst of commands\<close>

text \<open>
  The commands with the identifiers \<open>cids\<close> wait in a submission queue, and each of them is a valid read or write when
  its turn comes.
\<close>

fun rw_pending :: "blk_env \<Rightarrow> int \<Rightarrow> int list \<Rightarrow> NvmeCtrl \<Rightarrow> bool" where
  "rw_pending env i [] n \<longleftrightarrow> (\<exists>sq. get_sq n i = Some sq \<and> nvme_sq_empty sq)"
| "rw_pending env i (cid # cids) n \<longleftrightarrow>
     (\<exists>sq cmd segs. get_sq n i = Some sq \<and> \<not> nvme_sq_empty sq \<and> sq_req_list sq \<noteq> [] \<and> fetch_cmd n sq (sq_head sq) = Some cmd \<and>
        cmd_cid cmd = cid \<and> rw_ready n cmd segs \<and> (\<forall>n1. process_io_one env i n = Some n1 \<longrightarrow> rw_pending env i cids n1))"

text \<open>A request that completes the command \<open>cid\<close> of the queue \<open>i\<close> without an error.\<close>

definition completes :: "int \<Rightarrow> int \<Rightarrow> NvmeRequest \<Rightarrow> bool" where
  "completes i cid r \<longleftrightarrow> rq_sq r = i \<and> rq_cid r = cid \<and> rq_status r = NVME_SUCCESS \<and> 0 \<le> cid \<and> cid < 2 ^ 16"

lemma cmd_cid_range: "cmd_wf cmd \<Longrightarrow> 0 \<le> cmd_cid cmd \<and> cmd_cid cmd < 2 ^ 16"
  using dw_range [of cmd 0] by (auto simp: cmd_cid_def hi16_def)

lemma process_burst_ok:
  assumes "q_inv X n" "rw_pending env i cids n" "length cids \<le> b" "get_sq n i = Some sq" "get_cq n (sq_cqid sq) = Some cq" "dev_ok (n_ssd n)"
  shows "\<exists>n' rs cq' sq'. process_loop (process_io_one env i) i b n = Some (int (length cids), n') \<and> q_inv X n' \<and> dev_ok (n_ssd n') \<and>
    get_cq n' (sq_cqid sq) = Some cq' \<and> (\<exists>t. cq' = cq\<lparr>cq_req_list := fold insert_req rs (cq_req_list cq), cq_timer := t\<rparr>) \<and>
    list_all2 (completes i) cids rs \<and> get_sq n' i = Some sq' \<and> sq_cqid sq' = sq_cqid sq \<and> ring_conf n n'"
  using assms
proof (induction cids arbitrary: n b sq cq)
  case Nil
  then have "process_loop (process_io_one env i) i b n = Some (0, n)" by (cases b) auto
  moreover have "\<exists>t. cq = cq\<lparr>cq_req_list := cq_req_list cq, cq_timer := t\<rparr>" by (rule exI [of _ "cq_timer cq"]) simp
  ultimately show ?case using Nil by (intro exI [of _ n] exI [of _ "[]"] exI [of _ cq] exI [of _ sq]) (simp add: ring_conf_def)
next
  case (Cons cid cids)
  from Cons.prems(3) obtain b' where b: "b = Suc b'" "length cids \<le> b'" by (cases b) auto
  from Cons.prems(2,4) obtain cmd segs where p: "\<not> nvme_sq_empty sq" "sq_req_list sq \<noteq> []" "fetch_cmd n sq (sq_head sq) = Some cmd"
    "cmd_cid cmd = cid" "rw_ready n cmd segs" "\<forall>n1. process_io_one env i n = Some n1 \<longrightarrow> rw_pending env i cids n1" by auto
  from process_rw_ok [OF Cons.prems(1,4,5) p(2,3,5), of env] obtain n1 req cq1 t sq1 where
    s: "process_io_one env i n = Some n1" "q_inv X n1" "rw_done n cmd segs n1" "get_cq n1 (sq_cqid sq) = Some cq1"
      "cq1 = cq\<lparr>cq_req_list := insert_req req (cq_req_list cq), cq_timer := t\<rparr>" "rq_sq req = i" "rq_cid req = cid" "rq_status req = NVME_SUCCESS"
      "get_sq n1 i = Some sq1" "sq_cqid sq1 = sq_cqid sq" "ring_conf n n1" unfolding p(4) by blast
  have "dev_ok (n_ssd n1)" using s(3) by (simp add: rw_done_def Let_def)
  with Cons.IH [OF s(2) _ b(2) s(9), of cq1] p(6) s(1,4,10) obtain n' rs cq' sq' t' where
    r: "process_loop (process_io_one env i) i b' n1 = Some (int (length cids), n')" "q_inv X n'" "dev_ok (n_ssd n')"
      "get_cq n' (sq_cqid sq) = Some cq'" "cq' = cq1\<lparr>cq_req_list := fold insert_req rs (cq_req_list cq1), cq_timer := t'\<rparr>" "list_all2 (completes i) cids rs"
      "get_sq n' i = Some sq'" "sq_cqid sq' = sq_cqid sq" "ring_conf n1 n'" by auto
  have "completes i cid req" using s(6-8) cmd_cid_range [OF fetch_wf [OF p(3)]] p(4) by (simp add: completes_def)
  moreover have "process_loop (process_io_one env i) i b n = Some (int (length (cid # cids)), n')" using b(1) Cons.prems(4) p(1,2) s(1) r(1) by simp
  moreover have "\<exists>t. cq' = cq\<lparr>cq_req_list := fold insert_req (req # rs) (cq_req_list cq), cq_timer := t\<rparr>"
    by (rule exI [of _ t']) (simp add: r(5) s(5))
  moreover have "ring_conf n n'" using s(11) r(9) by (simp add: ring_conf_def)
  ultimately show ?case using r(2-4,6-8) by (intro exI [of _ n'] exI [of _ "req # rs"] exI [of _ cq'] exI [of _ sq']) simp
qed

lemma poll_sq_ok:
  assumes inv: "q_inv X n" and sq: "get_sq n i = Some sq" and cq: "get_cq n (sq_cqid sq) = Some cq" and dev: "dev_ok (n_ssd n)"
    and tail: "nvme_update_sq_tail n sq = Some sq1" and run: "rw_pending env i cids (put_sq n sq1)" and burst: "int (length cids) \<le> sq_arb_burst sq1"
  shows "\<exists>n' rs cq'. nvme_process_sq_io env i n = Some n' \<and> q_inv X n' \<and> dev_ok (n_ssd n') \<and> get_cq n' (sq_cqid sq) = Some cq' \<and>
    (\<exists>t. cq' = cq\<lparr>cq_req_list := fold insert_req rs (cq_req_list cq), cq_timer := t\<rparr>) \<and> list_all2 (completes i) cids rs \<and> ring_conf n n'"
proof -
  note si = q_inv_sq [OF inv sq]
  have like: "sq_like sq sq1" "sq_req_list sq1 = sq_req_list sq" "sq_out_req_list sq1 = sq_out_req_list sq" "sq_cqid sq1 = sq_cqid sq"
    using tail si by (auto simp: nvme_update_sq_tail_def sq_like_def sq_inv_def split: if_splits bind_splits)
  then have i1: "q_inv X (put_sq n sq1)" "get_sq (put_sq n sq1) i = Some sq1" using q_inv_put_sq [OF inv sq] sq_inv_own [OF si] by simp_all
  have "dev_ok (n_ssd (put_sq n sq1))" "get_cq (put_sq n sq1) (sq_cqid sq1) = Some cq" "length cids \<le> nat (sq_arb_burst sq1)"
    using dev cq like(4) burst by (simp_all add: rw_parts_put_sq)
  from process_burst_ok [OF i1(1) run this(3) i1(2) this(2,1)] obtain n1 rs cq' sq' where
    p: "process_loop (process_io_one env i) i (nat (sq_arb_burst sq1)) (put_sq n sq1) = Some (int (length cids), n1)" "q_inv X n1" "dev_ok (n_ssd n1)"
      "get_cq n1 (sq_cqid sq) = Some cq'" "\<exists>t. cq' = cq\<lparr>cq_req_list := fold insert_req rs (cq_req_list cq), cq_timer := t\<rparr>" "list_all2 (completes i) cids rs"
      "get_sq n1 i = Some sq'" "ring_conf (put_sq n sq1) n1"
    unfolding like(4) by blast
  from get_ns_timed [OF p(3)] obtain t s where g: "get_ns n1 = (t, n1\<lparr>n_ssd := s\<rparr>)" "timed (n_ssd n1) s" .
  let ?n2 = "n1\<lparr>n_ssd := s\<rparr>" and ?sq = "sq'\<lparr>sq_completed := u64 (sq_completed sq' + int (length cids)), sq_timer := Some (t + SQ_POLLING_PERIOD_NS)\<rparr>"
  note same = same_queues_ns [OF g(1)]
  have i2: "q_inv X ?n2" "get_sq ?n2 i = Some sq'" "get_cq ?n2 (sq_cqid sq) = Some cq'" using p q_inv_cong [OF same] same_queues_get [OF same] by simp_all
  note s2 = q_inv_sq [OF i2(1,2)]
  have "q_inv X (put_sq ?n2 ?sq)" using s2 sq_inv_own [OF s2] by (intro q_inv_put_sq(1) [OF i2(1,2)]) (auto simp: sq_like_def sq_inv_def)
  moreover have "nvme_process_sq_io env i n = Some (put_sq ?n2 ?sq)" using sq tail p(1,7) g(1) by (simp add: nvme_process_sq_io_def Let_def)
  moreover have "dev_ok (n_ssd (put_sq ?n2 ?sq))" using dev_ok_timed [OF p(3) g(2)] by (simp add: rw_parts_put_sq)
  moreover have "ring_conf n (put_sq ?n2 ?sq)" using p(8) by (simp add: ring_conf_def put_sq_def)
  ultimately show ?thesis using i2(3) p(5,6) by (intro exI [of _ "put_sq ?n2 ?sq"] exI [of _ rs] exI [of _ cq']) simp
qed


subsection \<open>Entries for the burst\<close>

lemma set_fold_insert: "set (fold insert_req rs qs) = set rs \<union> set qs"
  by (induction rs arbitrary: qs) (auto simp: set_insert_req)

text \<open>The completion queue is polled when all its requests are due and there is room for them.\<close>

definition all_due :: "NvmeCtrl \<Rightarrow> NvmeCQueue \<Rightarrow> bool" where
  "all_due n cq \<longleftrightarrow> ring_ok n cq \<and> int (length (cq_req_list cq)) \<le> ring_room n cq \<and>
     (\<forall>r \<in> set (cq_req_list cq). \<forall>t \<ge> ticks_of n. rq_expire_time r \<le> clock_of n t)"

definition entry_for :: "NvmeCtrl \<Rightarrow> NvmeCQueue \<Rightarrow> int \<Rightarrow> int \<Rightarrow> (int \<Rightarrow> int) \<Rightarrow> bool" where
  "entry_for n cq i cid mem \<longleftrightarrow> (\<exists>j < length (cq_req_list cq). let e = read_cqe (bytes_at mem (cqe_slot n cq j) 16)
     in cqe_cid e = cid \<and> cqe_sq_id e = u16 i \<and> cqe_status e = phase_at cq j)"

lemma entry_posted:
  assumes "q_inv X n" "get_cq n c = Some cq" "r \<in> set (cq_req_list cq)" "completes i cid r"
    "\<forall>j < length (cq_req_list cq). bytes_at mem (cqe_slot n cq j) 16 = cqe_bytes (cqe_entry n cq j)"
  shows "entry_for n cq i cid mem"
proof -
  from assms(3) obtain j where j: "j < length (cq_req_list cq)" "cq_req_list cq ! j = r" by (auto simp: in_set_conv_nth)
  have "cq_phase cq = 0 \<or> cq_phase cq = 1" using q_inv_cq [OF assms(1,2)] by (simp add: cq_inv_def)
  then have "phase_at cq j = 0 \<or> phase_at cq j = 1" by (auto simp: phase_at_def)
  then have "u16 (u16 (0 OR phase_at cq j)) = phase_at cq j" by (auto simp: u16_def)
  then show ?thesis using j assms(4,5) unfolding entry_for_def
    by (intro exI [of _ j]) (simp add: read_cqe_fields cqe_entry_def completes_def Let_def u16_def)
qed

lemma burst_completes:
  assumes "q_inv X n" "get_cq n c = Some cq" "c \<noteq> 0" "all_due n cq" "cq_req_list cq = fold insert_req rs qs" "list_all2 (completes i) cids rs"
  shows "\<exists>n'. nvme_post_cqes_io env c n = Some n' \<and> q_inv X n' \<and> (\<forall>cid \<in> set cids. entry_for n cq i cid (n_mem n'))"
proof -
  from assms(4) have d: "ring_ok n cq" "int (length (cq_req_list cq)) \<le> ring_room n cq"
    "\<forall>r \<in> set (cq_req_list cq). \<forall>t \<ge> ticks_of n. rq_expire_time r \<le> clock_of n t" by (simp_all add: all_due_def)
  from post_all_ok [OF assms(1-3) d, of env] obtain n' where n': "nvme_post_cqes_io env c n = Some n'" "q_inv X n'"
    "\<forall>j < length (cq_req_list cq). bytes_at (n_mem n') (cqe_slot n cq j) 16 = cqe_bytes (cqe_entry n cq j)" by blast
  have "entry_for n cq i cid (n_mem n')" if "cid \<in> set cids" for cid
  proof -
    from that assms(6) obtain r where "r \<in> set rs" "completes i cid r" unfolding list_all2_conv_all_nth in_set_conv_nth by metis
    then show ?thesis using entry_posted [OF assms(1,2) _ _ n'(3)] assms(5) by (simp add: set_fold_insert) blast
  qed
  then show ?thesis using n'(1,2) by blast
qed


subsection \<open>A new controller\<close>

text \<open>The properties have unsigned types.\<close>

definition props_ok :: "NvmeProps \<Rightarrow> bool" where
  "props_ok p \<longleftrightarrow> nvme_check_constraints p = 0 \<and> 0 \<le> pr_namespaces p \<and> 0 \<le> pr_lba_index p \<and> 0 \<le> pr_extended p \<and> 0 \<le> pr_meta p \<and>
     pr_femu_mode p = FEMU_BLACKBOX_MODE"

lemma props_okD:
  assumes "props_ok p"
  shows "format_props p" "1 \<le> pr_queues p" "1 \<le> pr_namespaces p"
  using assms by (auto simp: props_ok_def format_props_def nvme_check_constraints_def split: if_splits)

lemma nvme_init_ok:
  assumes p: "props_ok p" and bs: "0 \<le> bs" and ssd: "SSD_INIT clk conf fs st tr = Some s"
  shows "\<exists>n. nvme_init env p bs now mem clk conf fs st tr = Some (Inr n) \<and> n_ssd n = s \<and> n_mem n = mem \<and> n_heap_size n = bs \<and> q_arrays n \<and>
    (\<forall>i. get_sq n i = None \<and> get_cq n i = None) \<and> n_mqes n = pr_entries p mod 2 ^ 16 \<and> n_cc n = 0 \<and> n_num_namespaces n = pr_namespaces p \<and>
    int (length (n_namespaces n)) = pr_namespaces p \<and>
    (\<forall>ns \<in> set (n_namespaces n). ns_ds ns = 12 \<and> 0 \<le> ns_nsze ns \<and> pr_namespaces p * (ns_nsze ns * (4096 + pr_meta p)) \<le> bs)"
proof -
  note d = props_okD [OF p]
  let ?m = "nvme_init_ctrl p (blank_ctrl p bs now mem (zero_ssd clk))"
  let ?n = "(nvme_init_namespaces env p ?m)\<lparr>n_ssd := s\<rparr>"
  have run: "nvme_init env p bs now mem clk conf fs st tr = Some (Inr ?n)"
    using p bs ssd by (simp add: nvme_init_def props_ok_def Let_def)
  have f: "n_ns_size ?m = bs div pr_namespaces p" "n_meta ?m = pr_meta p" "n_num_namespaces ?m = pr_namespaces p"
    by (simp_all add: nvme_init_ctrl_def blank_ctrl_def)
  have ns: "ns_ds ns = 12 \<and> 0 \<le> ns_nsze ns \<and> pr_namespaces p * (ns_nsze ns * (4096 + pr_meta p)) \<le> bs" if "ns \<in> set (n_namespaces ?n)" for ns
  proof -
    from that obtain i where i: "ns = nvme_init_namespace env p ?m i" by (auto simp: nvme_init_namespaces_def)
    note k = init_namespace_ok(2,3) [OF d(1) i, unfolded f]
    have m: "0 \<le> pr_meta p" using p by (simp add: props_ok_def)
    let ?q = "bs div pr_namespaces p"
    have q: "0 \<le> ?q" "pr_namespaces p * ?q \<le> bs" using bs d(3) by (simp_all add: pos_imp_zdiv_nonneg_iff)
      (metis add.commute add_increasing2 mult_div_mod_eq order_refl pos_mod_sign zero_less_one less_le_trans)
    have "ns_nsze ns * (4096 + pr_meta p) \<le> ?q" using k(2) m q(1) by (simp add: minus_mod_eq_div_mult [symmetric])
    then have "pr_namespaces p * (ns_nsze ns * (4096 + pr_meta p)) \<le> pr_namespaces p * ?q" using d(3) by (intro mult_left_mono) auto
    then show ?thesis using k q m by (auto simp: pos_imp_zdiv_nonneg_iff)
  qed
  have q: "n_sq ?n = replicate (nat (pr_queues p + 1)) None" "n_cq ?n = replicate (nat (pr_queues p + 1)) None" "n_num_io_queues ?n = pr_queues p"
    by (simp_all add: nvme_init_namespaces_def nvme_init_ctrl_def blank_ctrl_def)
  have "q_arrays ?n" using d(2) by (simp add: q_arrays_def q)
  moreover have "get_sq ?n i = None \<and> get_cq ?n i = None" for i by (auto simp: get_sq_def get_cq_def q cread_def split: bind_splits if_splits)
  moreover have "n_mem ?n = mem" "n_heap_size ?n = bs" "n_mqes ?n = pr_entries p mod 2 ^ 16" "n_cc ?n = 0" "n_num_namespaces ?n = pr_namespaces p"
    by (simp_all add: nvme_init_namespaces_def nvme_init_ctrl_def blank_ctrl_def)
  moreover have "int (length (n_namespaces ?n)) = pr_namespaces p" using d(3) f(3) by (simp add: nvme_init_namespaces_def cupto_def)
  ultimately show ?thesis using run ns by (intro exI [of _ ?n]) simp
qed


subsection \<open>The place of every request\<close>

lemma requests_placed:
  assumes "sq_inv n i sq"
  shows "\<exists>cq. get_cq n (sq_cqid sq) = Some cq \<and>
    mset (map rq_idx (sq_req_list sq @ sq_out_req_list sq @ filter (\<lambda>r. rq_sq r = i) (cq_req_list cq))) = mset [0..<nat (sq_size sq)]"
proof -
  from assms obtain cq where cq: "get_cq n (sq_cqid sq) = Some cq"
    "keys (sq_req_list sq @ sq_out_req_list sq) + filter_mset (\<lambda>k. fst k = i) (keys (cq_req_list cq)) = mset (map (Pair i) [0..<nat (sq_size sq)])"
    by (auto simp: sq_inv_def)
  have f: "filter_mset (\<lambda>k. fst k = i) (keys rs) = keys (filter (\<lambda>r. rq_sq r = i) rs)" for rs by (induction rs) auto
  have k: "image_mset snd (keys rs) = mset (map rq_idx rs)" for rs by (induction rs) auto
  have "image_mset snd (keys (sq_req_list sq @ sq_out_req_list sq) + filter_mset (\<lambda>k. fst k = i) (keys (cq_req_list cq))) = mset [0..<nat (sq_size sq)]"
    unfolding cq(2) by (simp add: image_mset.compositionality comp_def)
  then show ?thesis using cq(1) unfolding f by (auto simp: k add.assoc)
qed

end
