(* ===== verification/NvmeScenario.thy ===== *)
theory NvmeScenario
  imports NvmeServe Scenario
begin

section \<open>A concrete controller\<close>

text \<open>
  A controller for the device of \<open>Scenario\<close>, with the default properties of \<open>nvme_props\<close> and a small disk, before and after
  the guest enables it and creates a pair of I/O queues, and commands that are ready on it.
\<close>

definition demo_env :: blk_env where
  "demo_env = \<lparr>blk_pdiscard = \<lambda>a b. 0, blk_pread = \<lambda>a b. None, oc_dev = False, oc_rw = \<lambda>n cmd req. None, oc_erase = \<lambda>n cmd req. None,
     oc_post_cqe = \<lambda>n req. req, aio_cancel = \<lambda>req. 0, irq_setup = \<lambda>cq. True, oc_admin = \<lambda>n cmd req. None, oc_init = \<lambda>n. None,
     blk_acct = \<lambda>k. (0, 0, 0, 0), wall_time = \<lambda>k. 0, stack_bytes = \<lambda>k i. 0\<rparr>"

lemma demo_env_frames: "oc_frame demo_env" "adm_frame demo_env"
  by (simp_all add: oc_frame_def adm_frame_def demo_env_def same_queues_def)

subsection \<open>Construction\<close>

text \<open>The default properties, with a serial number and in black-box mode, for a disk of 64 KiB.\<close>

definition demo_props :: NvmeProps where
  "demo_props = \<lparr>pr_blk = True, pr_serial = Some ''femu'', pr_namespaces = 1, pr_queues = 1, pr_entries = 0x7ff, pr_max_cqes = 4, pr_max_sqes = 6,
     pr_stride = 0, pr_aerl = 3, pr_acl = 3, pr_elpe = 3, pr_mdts = 10, pr_cqr = 1, pr_vwc = 0, pr_intc = 0, pr_intc_thresh = 0, pr_intc_time = 0,
     pr_mpsmin = 0, pr_mpsmax = 0, pr_nlbaf = 5, pr_lba_index = 3, pr_extended = 0, pr_dpc = 12, pr_dps = 11, pr_mc = 2, pr_meta = 24, pr_cmbsz = 0,
     pr_cmbloc = 0, pr_oacs = 2, pr_oncs = 4, pr_vid = 0x1d1d, pr_ssvid = 0x1af4, pr_femu_mode = FEMU_BLACKBOX_MODE\<rparr>"

lemma demo_props_ok: "props_ok demo_props" "format_props demo_props"
  by (simp_all add: props_ok_def format_props_def nvme_check_constraints_def demo_props_def)

definition reset_ctrl :: NvmeCtrl where
  "reset_ctrl = (nvme_init_namespaces demo_env demo_props (nvme_init_ctrl demo_props (blank_ctrl demo_props 65536 0 (\<lambda>a. 0) (zero_ssd shipped_clock))))\<lparr>n_ssd := shipped_dev\<rparr>"

lemma reset_run: "nvme_init demo_env demo_props 65536 0 (\<lambda>a. 0) shipped_clock (Some shipped_conf) no_files True None = Some (Inr reset_ctrl)"
  using demo_props_ok(1) shipped_dev_blank(1) by (simp add: nvme_init_def props_ok_def reset_ctrl_def Let_def)

lemma reset_fields:
  "n_ssd reset_ctrl = shipped_dev" "n_num_io_queues reset_ctrl = 1" "n_mqes reset_ctrl = 2047" "n_sq reset_ctrl = [None, None]" "n_cq reset_ctrl = [None, None]"
  "n_cc reset_ctrl = 0" "n_mpsmin reset_ctrl = 0" "n_mpsmax reset_ctrl = 0" "n_csts reset_ctrl = 0"
  "n_max_sqes reset_ctrl = 6" "n_max_cqes reset_ctrl = 4" "ft_arbitration (n_features reset_ctrl) = 0x1f0f0706" "n_dbs_addr reset_ctrl = 0"
  "n_eis_addr reset_ctrl = 0" "n_cqr reset_ctrl = 1" "n_cmbsz reset_ctrl = 0" "n_femu_mode reset_ctrl = FEMU_BLACKBOX_MODE" "n_heap_size reset_ctrl = 65536"
  "n_mdts reset_ctrl = 10" "n_num_namespaces reset_ctrl = 1" "n_oacs reset_ctrl = 2" "n_db_stride reset_ctrl = 0"
  "n_elpes reset_ctrl = replicate 4 \<lparr>el_error_count = 0, el_sqid = 0, el_cid = 0, el_status_field = 0, el_location = 0, el_lba = 0, el_nsid = 0\<rparr>"
  "n_elp_index reset_ctrl = 0" "n_elpe reset_ctrl = 3"
  by (simp_all add: reset_ctrl_def nvme_init_namespaces_def nvme_init_ctrl_def blank_ctrl_def demo_props_def numeral_2_eq_2)

definition demo_ns :: NvmeNamespace where
  "demo_ns = hd (n_namespaces reset_ctrl)"

lemma demo_ns: "n_namespaces reset_ctrl = [demo_ns]" "ns_ds demo_ns = 12" "ns_nsze demo_ns = 15" "ns_uncorrectable demo_ns = replicate 15 False" "ns_dps demo_ns = 11"
  "length (ns_lbaf demo_ns) = 16"
proof -
  let ?m = "nvme_init_ctrl demo_props (blank_ctrl demo_props 65536 0 (\<lambda>a. 0) (zero_ssd shipped_clock))"
  have f: "n_num_namespaces ?m = 1" "n_ns_size ?m = 65536" "n_meta ?m = 24" by (simp_all add: nvme_init_ctrl_def blank_ctrl_def demo_props_def)
  have e: "demo_ns = nvme_init_namespace demo_env demo_props ?m 0" "n_namespaces reset_ctrl = [demo_ns]"
    by (simp_all add: demo_ns_def reset_ctrl_def nvme_init_namespaces_def f cupto_def)
  note k = init_namespace_ok [OF demo_props_ok(2) e(1)]
  show "n_namespaces reset_ctrl = [demo_ns]" "ns_ds demo_ns = 12" "length (ns_lbaf demo_ns) = 16" using e(2) k(2,4) by simp_all
  show n: "ns_nsze demo_ns = 15" using k(3) f by simp
  show "ns_uncorrectable demo_ns = replicate 15 False" "ns_dps demo_ns = 11" using k(5,6) n by (simp_all add: demo_props_def)
qed

lemma reset_no_queues: "q_arrays reset_ctrl" "get_sq reset_ctrl i = None" "get_cq reset_ctrl c = None"
  by (auto simp: q_arrays_def reset_fields get_sq_def get_cq_def cread_def nth_Cons' split: bind_splits if_splits)

subsection \<open>Start\<close>

text \<open>The guest sets the registers of the admin queues and enables the controller.\<close>

definition reg_ctrl :: NvmeCtrl where
  "reg_ctrl = reset_ctrl\<lparr>n_aqa := 0x00030003, n_asq := 0x1000, n_acq := 0x2000\<rparr>"

lemma reg_steps: "(ctrl_step demo_env)\<^sup>*\<^sup>* reset_ctrl reg_ctrl"
proof -
  have "ctrl_step demo_env reset_ctrl (reset_ctrl\<lparr>n_aqa := 0x00030003\<rparr>)"
    by (rule ctrl_step.mmio [where addr = "0x24" and data = "0x00030003"]) (simp add: nvme_mmio_write_def nvme_write_bar_def u32_def)
  moreover have "ctrl_step demo_env (reset_ctrl\<lparr>n_aqa := 0x00030003\<rparr>) (reset_ctrl\<lparr>n_aqa := 0x00030003, n_asq := 0x1000\<rparr>)"
    by (rule ctrl_step.mmio [where addr = "0x28" and data = "0x1000"]) (simp add: nvme_mmio_write_def nvme_write_bar_def u64_def)
  moreover have "ctrl_step demo_env (reset_ctrl\<lparr>n_aqa := 0x00030003, n_asq := 0x1000\<rparr>) reg_ctrl"
    by (rule ctrl_step.mmio [where addr = "0x30" and data = "0x2000"]) (simp add: nvme_mmio_write_def nvme_write_bar_def u64_def reg_ctrl_def)
  ultimately show ?thesis by (meson converse_rtranclp_into_rtranclp r_into_rtranclp)
qed

definition started_ctrl :: NvmeCtrl where
  "started_ctrl = the (nvme_mmio_write reg_ctrl 0x14 0x460001)"

definition admin_sq :: NvmeSQueue where
  "admin_sq = \<lparr>sq_sqid = 0, sq_cqid = 0, sq_head = 0, sq_tail = 0, sq_size = 4, sq_contig = True, sq_dma_addr = 0x1000, sq_prp_list = [],
     sq_arb_burst = 32, sq_completed = 0, sq_req_list = map (blank_req 0) [0..<4], sq_out_req_list = [], sq_db_addr = 0, sq_timer = None\<rparr>"

definition admin_cq :: NvmeCQueue where
  "admin_cq = \<lparr>cq_cqid = 0, cq_head = 0, cq_tail = 0, cq_size = 4, cq_phase = 1, cq_contig = True, cq_irq_enabled = 1, cq_vector = 0,
     cq_dma_addr = 0x2000, cq_prp_list = [], cq_sq_list = [0], cq_req_list = [], cq_db_addr = 0, cq_timer = None\<rparr>"

lemma start_run:
  "nvme_mmio_write reg_ctrl 0x14 0x460001 = Some (reg_ctrl\<lparr>n_cc := 0x460001, n_page_bits := 12, n_page_size := 4096, n_max_prp_ents := 512,
     n_cqe_size := 16, n_sqe_size := 64, n_cq := [Some admin_cq, None], n_sq := [Some admin_sq, None], n_aer_timer := None, n_aer_queue := [], n_csts := 1\<rparr>)"
  by (simp add: nvme_mmio_write_def nvme_write_bar_def cc_write_def nvme_start_ctrl_def nvme_init_cq_def nvme_init_sq_def bits_def reg_ctrl_def reset_fields Let_def
      cread_def cwrite_def get_cq_def put_cq_def u16_def u32_def u8_def arb_burst_of_def admin_sq_def admin_cq_def)

lemma started_ctrl:
  "nvme_mmio_write reg_ctrl 0x14 0x460001 = Some started_ctrl" "started_ctrl = reg_ctrl\<lparr>n_cc := 0x460001, n_page_bits := 12, n_page_size := 4096, n_max_prp_ents := 512,
     n_cqe_size := 16, n_sqe_size := 64, n_cq := [Some admin_cq, None], n_sq := [Some admin_sq, None], n_aer_timer := None, n_aer_queue := [], n_csts := 1\<rparr>"
  by (simp_all add: started_ctrl_def start_run)

lemma started_step: "(ctrl_step demo_env)\<^sup>*\<^sup>* reset_ctrl started_ctrl"
  by (rule rtranclp.rtrancl_into_rtrancl [OF reg_steps ctrl_step.mmio [OF started_ctrl(1)]])

subsection \<open>A pair of I/O queues\<close>

definition create_cq_cmd :: NvmeCmd where
  "create_cq_cmd = [5, 0, 0, 0, 0, 0, 0x3000, 0, 0, 0, 0x00030001, 3, 0, 0, 0, 0]"

definition create_sq_cmd :: NvmeCmd where
  "create_sq_cmd = [1, 0, 0, 0, 0, 0, 0x4000, 0, 0, 0, 0x00030001, 0x00010001, 0, 0, 0, 0]"

definition cq_ctrl :: NvmeCtrl where
  "cq_ctrl = snd (the (nvme_create_cq demo_env started_ctrl create_cq_cmd))"

definition io_ctrl :: NvmeCtrl where
  "io_ctrl = snd (the (nvme_create_sq cq_ctrl create_sq_cmd))"

definition tick :: "ssdstate \<Rightarrow> ssdstate" where
  "tick s = snd (read_clock REALTIME_NS s)"

definition io_cq :: NvmeCQueue where
  "io_cq = \<lparr>cq_cqid = 1, cq_head = 0, cq_tail = 0, cq_size = 4, cq_phase = 1, cq_contig = True, cq_irq_enabled = 1, cq_vector = 0,
     cq_dma_addr = 0x3000, cq_prp_list = [], cq_sq_list = [], cq_req_list = [], cq_db_addr = 0, cq_timer = Some (clock_of reset_ctrl (ticks_of reset_ctrl) + 200000)\<rparr>"

definition io_sq :: NvmeSQueue where
  "io_sq = \<lparr>sq_sqid = 1, sq_cqid = 1, sq_head = 0, sq_tail = 0, sq_size = 4, sq_contig = True, sq_dma_addr = 0x4000, sq_prp_list = [],
     sq_arb_burst = 64, sq_completed = 0, sq_req_list = map (blank_req 1) [0..<4], sq_out_req_list = [], sq_db_addr = 0,
     sq_timer = Some (clock_of cq_ctrl (ticks_of cq_ctrl) + 1000000)\<rparr>"

lemma create_cq_run:
  "nvme_create_cq demo_env started_ctrl create_cq_cmd =
     Some (NVME_SUCCESS, started_ctrl\<lparr>n_ssd := tick shipped_dev, n_cq := [Some admin_cq, Some io_cq]\<rparr>)"
  by (simp add: nvme_create_cq_def nvme_init_cq_def create_cq_cmd_def started_ctrl(2) reg_ctrl_def reset_fields nvme_check_cqid_def get_cq_def cread_def cwrite_def dw_def qw_def
      cmd_prp1_def lo16_def hi16_def u16_def Let_def get_ns_clock clock_of_def ticks_of_def tick_def io_cq_def demo_env_def)

lemma cq_ctrl: "nvme_create_cq demo_env started_ctrl create_cq_cmd = Some (NVME_SUCCESS, cq_ctrl)"
  "cq_ctrl = started_ctrl\<lparr>n_ssd := tick shipped_dev, n_cq := [Some admin_cq, Some io_cq]\<rparr>"
  by (simp_all add: cq_ctrl_def create_cq_run)

lemma create_sq_run:
  "nvme_create_sq cq_ctrl create_sq_cmd =
     Some (NVME_SUCCESS, cq_ctrl\<lparr>n_ssd := tick (tick shipped_dev), n_cq := [Some admin_cq, Some (io_cq\<lparr>cq_sq_list := [1]\<rparr>)],
       n_sq := [Some admin_sq, Some io_sq]\<rparr>)"
  unfolding io_sq_def get_ns_clock [of cq_ctrl] clock_of_def ticks_of_def
  by (simp add: nvme_create_sq_def nvme_init_sq_def create_sq_cmd_def cq_ctrl(2) started_ctrl(2) reg_ctrl_def reset_fields nvme_check_cqid_def nvme_check_sqid_def get_cq_def
      get_sq_def put_cq_def cread_def cwrite_def dw_def qw_def cmd_prp1_def lo16_def hi16_def u16_def u8_def arb_burst_of_def Let_def get_ns_clock clock_of_def ticks_of_def
      tick_def io_cq_def)

lemma io_ctrl: "nvme_create_sq cq_ctrl create_sq_cmd = Some (NVME_SUCCESS, io_ctrl)"
  "io_ctrl = cq_ctrl\<lparr>n_ssd := tick (tick shipped_dev), n_cq := [Some admin_cq, Some (io_cq\<lparr>cq_sq_list := [1]\<rparr>)],
     n_sq := [Some admin_sq, Some io_sq]\<rparr>"
  by (simp_all add: io_ctrl_def create_sq_run)

lemma io_ctrl_inv: "q_inv {} io_ctrl"
proof -
  have "q_inv {} reset_ctrl" by (rule no_queues_inv) (simp_all add: reset_fields reset_no_queues)
  then have "q_inv {} started_ctrl" by (rule reachable_inv [OF started_step demo_env_frames])
  moreover have "cmd_wf create_cq_cmd" "cmd_wf create_sq_cmd" by (simp_all add: cmd_wf_def create_cq_cmd_def create_sq_cmd_def)
  ultimately show ?thesis using create_cq_inv create_sq_inv cq_ctrl(1) io_ctrl(1) by blast
qed

subsection \<open>Commands\<close>

text \<open>A write of block 1 from the page at \<open>0x5000\<close>, and a read of it into the page at \<open>0x6000\<close>.\<close>

definition write_entry :: NvmeCmd where
  "write_entry = [0x00070001, 1, 0, 0, 0, 0, 0x5000, 0, 0, 0, 1, 0, 0, 0, 0, 0]"

definition read_entry :: NvmeCmd where
  "read_entry = [0x00080002, 1, 0, 0, 0, 0, 0x6000, 0, 0, 0, 1, 0, 0, 0, 0, 0]"

lemmas field_defs = cmd_opcode_def cmd_cid_def cmd_nsid_def cmd_mptr_def cmd_prp1_def cmd_prp2_def rw_slba_def rw_nlb_def rw_control_def
  dw_def qw_def lo16_def hi16_def

lemma entry_fields:
  "cmd_wf write_entry" "cmd_opcode write_entry = NVME_CMD_WRITE" "cmd_cid write_entry = 7" "cmd_nsid write_entry = 1" "cmd_mptr write_entry = 0"
  "cmd_prp1 write_entry = 0x5000" "cmd_prp2 write_entry = 0" "rw_slba write_entry = 1" "rw_nlb write_entry = 0" "rw_control write_entry = 0"
  "cmd_wf read_entry" "cmd_opcode read_entry = NVME_CMD_READ" "cmd_cid read_entry = 8" "cmd_nsid read_entry = 1" "cmd_mptr read_entry = 0"
  "cmd_prp1 read_entry = 0x6000" "cmd_prp2 read_entry = 0" "rw_slba read_entry = 1" "rw_nlb read_entry = 0" "rw_control read_entry = 0"
  by (simp_all add: write_entry_def read_entry_def cmd_wf_def field_defs)

text \<open>The guest has put both commands into the submission queue and rung its doorbell for the first.\<close>

definition guest_mem :: "int \<Rightarrow> int" where
  "guest_mem = store (\<lambda>a. if 0x5000 \<le> a \<and> a < 0x6000 then a mod 256 else 0) 0x4000 (concat (map (le_bytes 4) (write_entry @ read_entry)))"

definition busy_ctrl :: NvmeCtrl where
  "busy_ctrl = put_sq (io_ctrl\<lparr>n_mem := guest_mem\<rparr>) (io_sq\<lparr>sq_tail := 1\<rparr>)"

lemma io_fields:
  "n_num_namespaces busy_ctrl = 1" "n_namespaces busy_ctrl = [demo_ns]" "n_heap_size busy_ctrl = 65536" "n_femu_mode busy_ctrl = FEMU_BLACKBOX_MODE"
  "n_page_size busy_ctrl = 4096" "n_page_bits busy_ctrl = 12" "n_max_prp_ents busy_ctrl = 512" "n_cmbsz busy_ctrl = 0" "n_mdts busy_ctrl = 10"
  "n_cqe_size busy_ctrl = 16" "n_sqe_size busy_ctrl = 64" "n_ssd busy_ctrl = tick (tick shipped_dev)" "n_mem busy_ctrl = guest_mem"
  "n_sq busy_ctrl = [Some admin_sq, Some (io_sq\<lparr>sq_tail := 1\<rparr>)]" "n_cq busy_ctrl = [Some admin_cq, Some (io_cq\<lparr>cq_sq_list := [1]\<rparr>)]"
  by (simp_all add: busy_ctrl_def put_sq_def io_sq_def io_ctrl(2) cq_ctrl(2) started_ctrl(2) reg_ctrl_def reset_fields demo_ns)

lemma busy_queues: "get_sq busy_ctrl 1 = Some (io_sq\<lparr>sq_tail := 1\<rparr>)" "get_cq busy_ctrl 1 = Some (io_cq\<lparr>cq_sq_list := [1]\<rparr>)"
  by (simp_all add: get_sq_def get_cq_def cread_def io_fields)

lemma busy_inv: "q_inv {} busy_ctrl"
proof -
  have sq: "get_sq io_ctrl 1 = Some io_sq" by (simp add: get_sq_def cread_def io_ctrl(2))
  have same: "same_queues io_ctrl (io_ctrl\<lparr>n_mem := guest_mem\<rparr>)" by (simp add: same_queues_def)
  have i: "q_inv {} (io_ctrl\<lparr>n_mem := guest_mem\<rparr>)" "get_sq (io_ctrl\<lparr>n_mem := guest_mem\<rparr>) 1 = Some io_sq"
    using io_ctrl_inv q_inv_cong [OF same] same_queues_get [OF same] sq by simp_all
  show ?thesis unfolding busy_ctrl_def by (rule q_inv_put_sq(1) [OF i]) (auto simp: sq_like_def io_sq_def blank_req_def)
qed

lemma guest_entries:
  "bytes_at guest_mem 0x4000 64 = concat (map (le_bytes 4) write_entry)" "bytes_at guest_mem 0x4040 64 = concat (map (le_bytes 4) read_entry)"
proof -
  have l: "length (concat (map (le_bytes 4) cmd)) = 64" if "length cmd = 16" for cmd
    using that by (simp add: length_concat comp_def sum_list_triv)
  have w: "length write_entry = 16" "length read_entry = 16" by (simp_all add: write_entry_def read_entry_def)
  have [simp]: "nat (64 + int k) = 64 + k" for k by simp
  show "bytes_at guest_mem 0x4000 64 = concat (map (le_bytes 4) write_entry)" "bytes_at guest_mem 0x4040 64 = concat (map (le_bytes 4) read_entry)"
    using l [OF w(1)] l [OF w(2)]
    by (auto simp: bytes_at_def guest_mem_def store_def cupto_def nth_append intro!: nth_equalityI simp del: le_bytes.simps)
qed

lemma busy_fetch: "fetch_cmd busy_ctrl sq 0 = Some write_entry" if "sq_contig sq" "sq_dma_addr sq = 0x4000" for sq
  using that guest_entries(1) words_of_bytes [OF entry_fields(1)]
  by (simp add: fetch_cmd_def sqe_addr_def nvme_addr_read_def in_cmb_def io_fields u64_def u32_def)

text \<open>The device is ready for the requests.\<close>

lemma tick_timed: "dev_ok s \<Longrightarrow> timed s (tick s)"
  unfolding tick_def by (rule timed_clock [OF dev_ok_time_inv])

lemma busy_dev: "timed shipped_dev (n_ssd busy_ctrl)" "dev_ok (n_ssd busy_ctrl)" "ssdparams (n_ssd busy_ctrl) = ssdparams shipped_dev"
proof -
  note t1 = tick_timed [OF shipped_dev_inv(2)]
  note d1 = dev_ok_timed [OF shipped_dev_inv(2) t1]
  show t: "timed shipped_dev (n_ssd busy_ctrl)" using timed_trans [OF t1 tick_timed] d1 by (simp add: io_fields)
  show "dev_ok (n_ssd busy_ctrl)" "ssdparams (n_ssd busy_ctrl) = ssdparams shipped_dev" using dev_ok_timed [OF shipped_dev_inv(2) t] by simp_all
qed

lemma plain_page_ready:
  assumes "roomy s" "0 \<le> l" "l < 5242880"
  shows "cmd_ready s (Write \<lparr>req_length = 8, req_sector_nb = 8 * l, lpns_info = map (\<lambda>i. no_info) [0..<512]\<rparr>)"
proof -
  note R = roomyD [OF assms(1)]
  let ?req = "\<lparr>req_length = 8, req_sector_nb = 8 * l, lpns_info = map (\<lambda>i :: nat. no_info) [0..<512]\<rparr>"
  have p: "pages_in (ssdparams s) ?req = 1" by (simp add: pages_in_def req_pages_def page_count_def R(2) shipped_dev_params)
  have f: "flagged (take 1 (lpns_info ?req)) = 0" by (simp add: flagged_def no_info_def remap_flag_def take_map)
  have "ref_room 0 s" "room 1025 5242881 1 s" by (rule R(4), simp) (rule R(5), simp_all)
  moreover have "req_ok (ssdparams s) ?req" using assms(2,3) unfolding req_ok_def p by (auto simp: R(2) shipped_dev_params no_info_def)
  ultimately show ?thesis using R(3) unfolding cmd_ready.simps Let_def p by (simp add: f [simplified] R(2) shipped_dev_params)
qed

lemma busy_rw_ready: "rw_ready busy_ctrl write_entry [(0x5000, 4096)]" "rw_ready busy_ctrl read_entry [(0x6000, 4096)]"
proof -
  have ns: "ns_fits busy_ctrl demo_ns" by (simp add: ns_fits_def prp_conf_def io_fields demo_ns)
  have map: "nvme_map_prp busy_ctrl p 0 4096 = Some (Inr (False, [(p, 4096)]))" if "p = 0x5000 \<or> p = 0x6000" for p
    using that by (auto simp: nvme_map_prp_def seg_of_def in_cmb_def io_fields u32_def Let_def)
  have infos: "page_infos busy_ctrl 0 w 1 = map (\<lambda>i. no_info) [0..<512]" for w by (simp add: page_infos_def Let_def del: upt_rec_numeral)
  have w: "cmd_ready (n_ssd busy_ctrl) (Write \<lparr>req_length = 8, req_sector_nb = 8, lpns_info = map (\<lambda>i. no_info) [0..<512]\<rparr>)"
    using cmd_ready_timed [OF plain_page_ready [OF shipped_dev_roomy, of 1] busy_dev(1)] by (simp del: upt_rec_numeral cmd_ready.simps)
  have r: "cmd_ready (n_ssd busy_ctrl) (Read 8 8)" by (simp add: range_ok_def busy_dev(3) shipped_dev_params)
  have acc: "rw_accepted busy_ctrl demo_ns write_entry" "rw_accepted busy_ctrl demo_ns read_entry"
    by (simp_all add: rw_accepted_def entry_fields demo_ns io_fields any_bit_def list_ex_iff)
  show "rw_ready busy_ctrl write_entry [(0x5000, 4096)]"
    using ns acc(1) map busy_dev(2) w by (simp add: rw_ready_def entry_fields io_fields infos rw_cmd_def rw_request_def Let_def del: upt_rec_numeral cmd_ready.simps)
  show "rw_ready busy_ctrl read_entry [(0x6000, 4096)]"
    using ns acc(2) map busy_dev(2) r
    by (simp add: rw_ready_def entry_fields io_fields infos rw_cmd_def rw_request_def segs_disjoint_def Let_def del: upt_rec_numeral cmd_ready.simps)
qed

lemma busy_pending: "rw_pending demo_env 1 [7] busy_ctrl"
proof -
  have f: "fetch_cmd busy_ctrl (io_sq\<lparr>sq_tail := 1\<rparr>) 0 = Some write_entry" by (rule busy_fetch) (simp_all add: io_sq_def)
  have "\<exists>sq. get_sq n1 1 = Some sq \<and> nvme_sq_empty sq" if "process_io_one demo_env 1 busy_ctrl = Some n1" for n1
    using process_rw_ok [OF busy_inv busy_queues(1) _ _ _ busy_rw_ready(1), of "io_cq\<lparr>cq_sq_list := [1]\<rparr>" demo_env] busy_queues(2) f that
    by (auto simp: io_sq_def nvme_sq_empty_def)
  then show ?thesis using f busy_rw_ready(1) entry_fields(3) by (auto simp: busy_queues(1) io_sq_def nvme_sq_empty_def)
qed


subsection \<open>Requests that wait for completion\<close>

text \<open>Two requests wait: the first one is due at 0, the second one at 1000000. The clock counts its readings.\<close>

definition due_req :: NvmeRequest where
  "due_req = (blank_req 1 0)\<lparr>rq_cid := 7\<rparr>"

definition later_req :: NvmeRequest where
  "later_req = (blank_req 1 1)\<lparr>rq_cid := 8, rq_expire_time := 1000000\<rparr>"

definition io_cq_waiting :: NvmeCQueue where
  "io_cq_waiting = io_cq\<lparr>cq_sq_list := [1], cq_req_list := [due_req, later_req]\<rparr>"

definition waiting_ctrl :: NvmeCtrl where
  "waiting_ctrl = (put_cq (put_sq io_ctrl (io_sq\<lparr>sq_req_list := map (blank_req 1) [2..<4]\<rparr>)) io_cq_waiting)
     \<lparr>n_ssd := shipped_dev\<lparr>devtime := (devtime shipped_dev)\<lparr>clock := shipped_clock, ticks := 5\<rparr>\<rparr>\<rparr>"

lemma waiting_ctrl:
  "q_inv {} waiting_ctrl" "get_cq waiting_ctrl 1 = Some io_cq_waiting" "ring_ok waiting_ctrl io_cq_waiting" "ring_room waiting_ctrl io_cq_waiting = 3"
  "sorted (map rq_expire_time (cq_req_list io_cq_waiting))" "ticks_of waiting_ctrl = 5" "clock_of waiting_ctrl t = int t"
proof -
  have q: "get_sq io_ctrl 1 = Some io_sq" "get_cq io_ctrl 1 = Some (io_cq\<lparr>cq_sq_list := [1]\<rparr>)" by (simp_all add: get_sq_def get_cq_def cread_def io_ctrl(2))
  have u: "[0..<4] = [0, 1, 2, 3 :: nat]" "[2..<4] = [2, 3 :: nat]" by (simp_all add: upt_rec)
  have "q_inv {} (put_cq (put_sq io_ctrl (io_sq\<lparr>sq_req_list := map (blank_req 1) [2..<4]\<rparr>)) io_cq_waiting)"
    by (rule q_inv_update [OF io_ctrl_inv q(1), of "io_cq\<lparr>cq_sq_list := [1]\<rparr>"])
      (auto simp: q(2) io_sq_def io_cq_waiting_def io_cq_def sq_like_def cq_like_def due_req_def later_req_def blank_req_def u)
  then show "q_inv {} waiting_ctrl" unfolding waiting_ctrl_def by (subst q_inv_cong) (auto simp: same_queues_def)
  show "get_cq waiting_ctrl 1 = Some io_cq_waiting"
    by (simp add: waiting_ctrl_def get_cq_def cread_def put_cq_def put_sq_def io_ctrl(2) io_cq_waiting_def io_cq_def)
  show "ring_ok waiting_ctrl io_cq_waiting" "ring_room waiting_ctrl io_cq_waiting = 3"
    by (simp_all add: ring_ok_def ring_room_def head_of_def waiting_ctrl_def put_cq_def put_sq_def io_ctrl(2) cq_ctrl(2) started_ctrl(2) reg_ctrl_def reset_fields
        io_cq_waiting_def io_cq_def)
  show "sorted (map rq_expire_time (cq_req_list io_cq_waiting))" by (simp add: io_cq_waiting_def due_req_def later_req_def blank_req_def)
  show "ticks_of waiting_ctrl = 5" "clock_of waiting_ctrl t = int t" by (simp_all add: ticks_of_def clock_of_def waiting_ctrl_def shipped_clock_def)
qed


lemma busy_update: "nvme_update_sq_tail busy_ctrl (io_sq\<lparr>sq_tail := 1\<rparr>) = Some (io_sq\<lparr>sq_tail := 1\<rparr>)" "put_sq busy_ctrl (io_sq\<lparr>sq_tail := 1\<rparr>) = busy_ctrl"
proof -
  show "nvme_update_sq_tail busy_ctrl (io_sq\<lparr>sq_tail := 1\<rparr>) = Some (io_sq\<lparr>sq_tail := 1\<rparr>)" by (simp add: nvme_update_sq_tail_def io_sq_def)
  show "put_sq busy_ctrl (io_sq\<lparr>sq_tail := 1\<rparr>) = busy_ctrl" by (simp add: busy_ctrl_def put_sq_def io_sq_def)
qed


lemma busy_log: "n_elp_index busy_ctrl = 0" "n_elpe busy_ctrl = 3" "length (n_elpes busy_ctrl) = 4"
  by (simp_all add: busy_ctrl_def put_sq_def io_sq_def io_ctrl(2) cq_ctrl(2) started_ctrl(2) reg_ctrl_def reset_fields)

end
