(* ===== verification/NvmeProperties.thy ===== *)
theory NvmeProperties
  imports NvmeScenario
begin

section \<open>Properties of the NVMe controller\<close>

text \<open>
  What the guest may rely on: the controller starts, no request is lost, commands reach the device and
  their completions reach the guest, and structures and features are read as they were written. Each property is
  applied to the controller of \<open>NvmeScenario\<close>.
\<close>

subsection \<open>The whole controller\<close>

text \<open>
  C10: with properties that pass \<open>nvme_check_constraints\<close> and a supported configuration of the device, \<open>nvme_init\<close> succeeds. The device
  satisfies its invariant, there are no queues, and each
  namespace has blocks of 4096 bytes that lie, with their metadata, within the share of the drive that belongs to it.
\<close>

theorem controller_starts:
  assumes "props_ok p" "0 \<le> bs" "parse_conf text (zero_conf\<lparr>sos := 24, max_page := 0\<rparr>) = Some c" "params_ok c" "pr_entries p mod 2 ^ 16 < 65535"
  shows "\<exists>n. nvme_init env p bs now mem clk (Some text) no_files True None = Some (Inr n) \<and> dev_ok (n_ssd n) \<and> q_inv {} n \<and>
    (\<forall>i. get_sq n i = None \<and> get_cq n i = None) \<and> int (length (n_namespaces n)) = pr_namespaces p \<and>
    (\<forall>ns \<in> set (n_namespaces n). ns_ds ns = 12 \<and> pr_namespaces p * (ns_nsze ns * (4096 + pr_meta p)) \<le> bs)"
proof -
  from SSD_INIT_blank [OF assms(3,4), of clk] obtain s where s: "SSD_INIT clk (Some text) no_files True None = Some s" "blank_dev s" by blast
  from nvme_init_ok [OF assms(1,2) s(1), of env now mem] obtain n where
    n: "nvme_init env p bs now mem clk (Some text) no_files True None = Some (Inr n)" "n_ssd n = s" "q_arrays n"
      "\<forall>i. get_sq n i = None \<and> get_cq n i = None" "n_mqes n = pr_entries p mod 2 ^ 16" "int (length (n_namespaces n)) = pr_namespaces p"
      "\<forall>ns \<in> set (n_namespaces n). ns_ds ns = 12 \<and> 0 \<le> ns_nsze ns \<and> pr_namespaces p * (ns_nsze ns * (4096 + pr_meta p)) \<le> bs" by blast
  have "dev_ok (n_ssd n)" using blank_dev_inv [OF s(2)] n(2) by (auto simp: dev_ok_def)
  moreover have "q_inv {} n" by (rule no_queues_inv) (use n assms(5) in simp_all)
  ultimately show ?thesis using n by blast
qed

theorem controller_starts_witness:
  "\<exists>n. nvme_init demo_env demo_props 65536 0 (\<lambda>a. 0) shipped_clock (Some shipped_conf) no_files True None = Some (Inr n) \<and> dev_ok (n_ssd n) \<and> q_inv {} n \<and>
    (\<forall>i. get_sq n i = None \<and> get_cq n i = None) \<and> length (n_namespaces n) = 1"
proof -
  have "pr_entries demo_props mod 2 ^ 16 < 65535" by (simp add: demo_props_def)
  from controller_starts [OF demo_props_ok(1) _ parse_shipped shipped_params_ok this, of 65536] show ?thesis by (fastforce simp: demo_props_def)
qed

text \<open>
  C5: no request is ever lost or used twice. From a controller without queues, in every state that polls, interrupts, register
  writes and guest accesses can reach, each request of a submission queue is in exactly one of its list of free requests, its list of
  requests in progress, and the waiting list of its completion queue.
\<close>

theorem requests_conserved:
  assumes "n_mqes n0 < 65535" "q_arrays n0" "\<forall>i. get_sq n0 i = None \<and> get_cq n0 i = None" "oc_frame env" "adm_frame env"
    "(ctrl_step env)\<^sup>*\<^sup>* n0 n" "get_sq n i = Some sq"
  shows "\<exists>cq. get_cq n (sq_cqid sq) = Some cq \<and>
    mset (map rq_idx (sq_req_list sq @ sq_out_req_list sq @ filter (\<lambda>r. rq_sq r = i) (cq_req_list cq))) = mset [0..<nat (sq_size sq)]"
proof -
  have "q_inv {} n0" by (rule no_queues_inv) (use assms(1-3) in simp_all)
  note inv = reachable_inv [OF assms(6,4,5) this]
  show ?thesis by (rule requests_placed [OF q_inv_sq [OF inv assms(7)]])
qed

theorem requests_conserved_witness:
  "get_sq started_ctrl 0 = Some admin_sq \<and> (\<exists>cq. get_cq started_ctrl 0 = Some cq \<and>
    mset (map rq_idx (sq_req_list admin_sq @ sq_out_req_list admin_sq @ filter (\<lambda>r. rq_sq r = 0) (cq_req_list cq))) = mset [0..<4])"
proof -
  have q: "get_sq started_ctrl 0 = Some admin_sq" by (simp add: get_sq_def cread_def started_ctrl(2))
  have "n_mqes reset_ctrl < 65535" by (simp add: reset_fields)
  from requests_conserved [OF this reset_no_queues(1) _ demo_env_frames started_step q] reset_no_queues(2,3) q show ?thesis
    by (simp add: admin_sq_def)
qed


subsection \<open>Commands\<close>

text \<open>
  C8: one run of \<open>nvme_process_sq_io\<close> serves all the valid read and write commands that wait in a submission queue, up to the size of a
  burst: it does not fault, keeps the invariants of the queues and of the device, and puts one successful request for each
  command into the waiting list of the completion queue, in the order of the commands and sorted by the time of completion.
\<close>

theorem commands_are_served:
  assumes "q_inv {} n" "get_sq n i = Some sq" "get_cq n (sq_cqid sq) = Some cq" "dev_ok (n_ssd n)"
    "nvme_update_sq_tail n sq = Some sq1" "rw_pending env i cids (put_sq n sq1)" "int (length cids) \<le> sq_arb_burst sq1"
  shows "\<exists>n' rs cq'. nvme_process_sq_io env i n = Some n' \<and> q_inv {} n' \<and> dev_ok (n_ssd n') \<and> get_cq n' (sq_cqid sq) = Some cq' \<and>
    (\<exists>t. cq' = cq\<lparr>cq_req_list := fold insert_req rs (cq_req_list cq), cq_timer := t\<rparr>) \<and> list_all2 (completes i) cids rs"
  using poll_sq_ok [OF assms] by blast

theorem commands_are_served_witness:
  "\<exists>n' rs cq'. nvme_process_sq_io demo_env 1 busy_ctrl = Some n' \<and> q_inv {} n' \<and> dev_ok (n_ssd n') \<and> get_cq n' 1 = Some cq' \<and>
    cq_req_list cq' = fold insert_req rs [] \<and> list_all2 (completes 1) [7] rs"
proof -
  note f = busy_update
  from commands_are_served [OF busy_inv busy_queues(1) _ busy_dev(2) f(1), of "io_cq\<lparr>cq_sq_list := [1]\<rparr>" demo_env "[7]"] busy_queues(2) busy_pending f(2)
  show ?thesis by (fastforce simp: io_sq_def io_cq_def)
qed

text \<open>
  C6: a valid read or write command is carried out. It takes the step of the device specification that belongs to its pages
  and the metadata of the guest; a write stores the bytes of the guest's segments at the block's place in the heap storage and leaves the guest's memory
  alone, and a read puts these bytes into the segments and leaves the storage alone.
\<close>

theorem command_effect:
  assumes "rw_ready n cmd segs"
  shows "\<exists>req' n'. nvme_io_cmd env n cmd req = Some (NVME_SUCCESS, req', n') \<and> rq_cid req' = rq_cid req \<and> dev_ok (n_ssd n') \<and>
    cmd_step (ssdparams (n_ssd n)) (rw_cmd (cmd_opcode cmd = NVME_CMD_WRITE)
      (rw_request cmd (page_infos n (cmd_mptr cmd) (cmd_opcode cmd = NVME_CMD_WRITE) (rw_nlb cmd + 1)))) (tab (n_ssd n)) (tab (n_ssd n')) \<and>
    (if cmd_opcode cmd = NVME_CMD_WRITE
     then n_heap n' = store (n_heap n) (rw_slba cmd * 4096) (gather (n_mem n) segs) \<and> n_mem n' = n_mem n
     else n_heap n' = n_heap n \<and> gather (n_mem n') segs = bytes_at (n_heap n) (rw_slba cmd * 4096) ((rw_nlb cmd + 1) * 4096))"
  using nvme_io_rw_ok [OF assms, of env req] unfolding rw_done_def Let_def by blast

theorem command_effect_witness:
  "\<exists>req' n'. nvme_io_cmd demo_env busy_ctrl write_entry (blank_req 1 0) = Some (NVME_SUCCESS, req', n') \<and> dev_ok (n_ssd n') \<and>
    n_heap n' = store (n_heap busy_ctrl) 4096 (gather guest_mem [(0x5000, 4096)]) \<and> n_mem n' = guest_mem"
  using command_effect [OF busy_rw_ready(1), of demo_env "blank_req 1 0"] by (auto simp: entry_fields io_fields)

text \<open>
  C7: what a write command has stored is what a later read command of the same blocks returns, whatever pages of guest memory the
  two commands use.
\<close>

theorem write_then_read:
  assumes "rw_ready n wcmd wsegs" "cmd_opcode wcmd = NVME_CMD_WRITE" "rw_ready n rcmd rsegs" "cmd_opcode rcmd = NVME_CMD_READ"
    "rw_slba rcmd = rw_slba wcmd" "rw_nlb rcmd = rw_nlb wcmd"
  shows "\<exists>r1 n1 r2 n2. nvme_io_cmd env n wcmd wreq = Some (NVME_SUCCESS, r1, n1) \<and> nvme_io_cmd env n1 rcmd rreq = Some (NVME_SUCCESS, r2, n2) \<and>
    gather (n_mem n2) rsegs = gather (n_mem n) wsegs"
  by (rule write_read_back [OF assms])

theorem write_then_read_witness:
  "\<exists>r1 n1 r2 n2. nvme_io_cmd demo_env busy_ctrl write_entry (blank_req 1 0) = Some (NVME_SUCCESS, r1, n1) \<and>
    nvme_io_cmd demo_env n1 read_entry (blank_req 1 1) = Some (NVME_SUCCESS, r2, n2) \<and>
    gather (n_mem n2) [(0x6000, 4096)] = gather guest_mem [(0x5000, 4096)]"
  using write_then_read [OF busy_rw_ready(1) _ busy_rw_ready(2), of demo_env "blank_req 1 0" "blank_req 1 1"] by (simp add: entry_fields io_fields)




subsection \<open>Completions\<close>



text \<open>
  C4: every valid command completes. After \<open>nvme_process_sq_io\<close> has taken a burst of commands, a poll of the completion queue
  that finds all requests due, and room for them in the ring, leaves an entry in guest memory for each of the commands, with its
  identifier, the number of its queue, the status for success and the current phase tag. Between the two polls time may pass.
\<close>

theorem commands_complete:
  assumes "q_inv {} n" "get_sq n i = Some sq" "get_cq n (sq_cqid sq) = Some cq" "sq_cqid sq \<noteq> 0" "dev_ok (n_ssd n)"
    "nvme_update_sq_tail n sq = Some sq1" "rw_pending env i cids (put_sq n sq1)" "int (length cids) \<le> sq_arb_burst sq1"
  shows "\<exists>n1. nvme_process_sq_io env i n = Some n1 \<and>
    (\<forall>n2 s cq2. n2 = n1\<lparr>n_ssd := s\<rparr> \<and> get_cq n2 (sq_cqid sq) = Some cq2 \<and> all_due n2 cq2 \<longrightarrow>
      (\<exists>n3. nvme_post_cqes_io env (sq_cqid sq) n2 = Some n3 \<and> q_inv {} n3 \<and> (\<forall>cid \<in> set cids. entry_for n2 cq2 i cid (n_mem n3))))"
proof -
  from poll_sq_ok [OF assms(1-3,5-8)] obtain n1 rs cq' t where
    p: "nvme_process_sq_io env i n = Some n1" "q_inv {} n1" "get_cq n1 (sq_cqid sq) = Some cq'"
      "cq' = cq\<lparr>cq_req_list := fold insert_req rs (cq_req_list cq), cq_timer := t\<rparr>" "list_all2 (completes i) cids rs" by blast
  have "\<exists>n3. nvme_post_cqes_io env (sq_cqid sq) n2 = Some n3 \<and> q_inv {} n3 \<and> (\<forall>cid \<in> set cids. entry_for n2 cq2 i cid (n_mem n3))"
    if n2: "n2 = n1\<lparr>n_ssd := s\<rparr>" and q: "get_cq n2 (sq_cqid sq) = Some cq2" "all_due n2 cq2" for n2 s cq2
  proof -
    have same: "same_queues n1 n2" by (simp add: n2 same_queues_def)
    have "q_inv {} n2" "cq_req_list cq2 = fold insert_req rs (cq_req_list cq)"
      using p(2-4) q(1) q_inv_cong [OF same] same_queues_get [OF same] by auto
    from burst_completes [OF this(1) q(1) assms(4) q(2) this(2) p(5)] show ?thesis .
  qed
  then show ?thesis using p(1) by blast
qed

theorem commands_complete_witness:
  "\<exists>n1 s cq2 n3. nvme_process_sq_io demo_env 1 busy_ctrl = Some n1 \<and> get_cq (n1\<lparr>n_ssd := s\<rparr>) 1 = Some cq2 \<and>
    nvme_post_cqes_io demo_env 1 (n1\<lparr>n_ssd := s\<rparr>) = Some n3 \<and> entry_for (n1\<lparr>n_ssd := s\<rparr>) cq2 1 7 (n_mem n3)"
proof -
  let ?sq = "io_sq\<lparr>sq_tail := 1\<rparr>" and ?cq = "io_cq\<lparr>cq_sq_list := [1]\<rparr>"
  have pre: "get_cq busy_ctrl (sq_cqid ?sq) = Some ?cq" "sq_cqid ?sq \<noteq> 0" "rw_pending demo_env 1 [7] (put_sq busy_ctrl ?sq)"
    "int (length [7 :: int]) \<le> sq_arb_burst ?sq" using busy_queues(2) busy_pending busy_update(2) by (simp_all add: io_sq_def)
  from commands_complete [OF busy_inv busy_queues(1) pre(1,2) busy_dev(2) busy_update(1) pre(3,4)] obtain n1 where
    n1: "nvme_process_sq_io demo_env 1 busy_ctrl = Some n1"
      "\<forall>n2 s cq2. n2 = n1\<lparr>n_ssd := s\<rparr> \<and> get_cq n2 1 = Some cq2 \<and> all_due n2 cq2 \<longrightarrow>
        (\<exists>n3. nvme_post_cqes_io demo_env 1 n2 = Some n3 \<and> q_inv {} n3 \<and> (\<forall>cid \<in> set [7]. entry_for n2 cq2 1 cid (n_mem n3)))"
    by (auto simp: io_sq_def)
  from poll_sq_ok [OF busy_inv busy_queues(1) pre(1) busy_dev(2) busy_update(1) pre(3,4)] obtain rs t where
    q: "get_cq n1 1 = Some (?cq\<lparr>cq_req_list := fold insert_req rs [], cq_timer := t\<rparr>)" "list_all2 (completes 1) [7] rs" "ring_conf busy_ctrl n1"
    using n1(1) by (auto simp: io_sq_def io_cq_def)
  from q(2) obtain r where r: "rs = [r]" by (auto simp: list_all2_Cons1)
  let ?s = "(n_ssd n1)\<lparr>devtime := (devtime (n_ssd n1))\<lparr>clock := \<lambda>src k. rq_expire_time r\<rparr>\<rparr>"
  let ?n2 = "n1\<lparr>n_ssd := ?s\<rparr>" and ?cq2 = "?cq\<lparr>cq_req_list := [r], cq_timer := t\<rparr>"
  have g: "get_cq ?n2 1 = Some ?cq2" using q(1) r by (simp add: get_cq_def)
  have "all_due ?n2 ?cq2"
    using q(3) by (simp add: all_due_def ring_ok_def ring_room_def head_of_def ring_conf_def io_fields io_cq_def clock_of_def)
  then obtain n3 where "nvme_post_cqes_io demo_env 1 ?n2 = Some n3" "entry_for ?n2 ?cq2 1 7 (n_mem n3)"
    using n1(2) [rule_format, of ?n2 ?s ?cq2] g by auto
  then show ?thesis using n1(1) g by (intro exI [of _ n1] exI [of _ ?s] exI [of _ ?cq2] exI [of _ n3]) simp
qed


text \<open>
  C35: inserting requests one after the other into an empty waiting list sorts them by their time of completion, and requests with the
  same time keep the order in which they arrived.
\<close>

theorem waiting_list_is_stable:
  "fold insert_req rs [] = sort_key rq_expire_time rs"
  by (rule waiting.arrivals)

subsection \<open>Encodings\<close>

text \<open>
  C36: the controller fetches the command that the guest has stored. When the guest writes the sixteen words of a command in little-endian
  order into a slot of a contiguous submission queue, \<open>nvme_process_sq_io\<close> reads these words from that slot.
\<close>

theorem command_round_trip:
  assumes "cmd_wf cmd" "n_cmbsz n = 0" "sq_contig sq" "0 \<le> idx * n_sqe_size n" "idx * n_sqe_size n < 2 ^ 32" "0 \<le> sq_dma_addr sq"
    "sq_dma_addr sq + idx * n_sqe_size n < 2 ^ 64"
  shows "fetch_cmd (n\<lparr>n_mem := store (n_mem n) (sq_dma_addr sq + idx * n_sqe_size n) (concat (map (le_bytes 4) cmd))\<rparr>) sq idx = Some cmd"
proof -
  have "length cmd = 16" using assms(1) by (simp add: cmd_wf_def)
  then have "int (length (concat (map (le_bytes 4) cmd))) = 64" by (simp add: length_concat comp_def sum_list_triv)
  then show ?thesis
    using assms(2-7) words_of_bytes [OF assms(1)]
    by (simp add: fetch_cmd_def sqe_addr_def nvme_addr_read_def in_cmb_def u64_def u32_def bytes_at_store)
qed

theorem command_round_trip_witness:
  "fetch_cmd (busy_ctrl\<lparr>n_mem := store (n_mem busy_ctrl) 0x4080 (concat (map (le_bytes 4) read_entry))\<rparr>) io_sq 2 = Some read_entry"
  using command_round_trip [OF entry_fields(11), of busy_ctrl io_sq 2] by (simp add: io_fields io_sq_def)

text \<open>
  C37: a feature that takes a plain value is read back as it was set, in the lower half of the result of the completion entry. This
  holds for arbitration, power management, temperature threshold, error recovery, write cache, interrupt coalescing, write atomicity,
  event configuration and the software progress marker.
\<close>

theorem feature_round_trip:
  assumes "cmd_wf scmd" "dw scmd 10 = fid" "dw gcmd 10 = fid" "fid \<in> {0x1, 0x2, 0x4, 0x5, 0x6, 0x8, 0xa, 0xb, 0x80}" "rq_result greq = 0"
  shows "\<exists>sreq' n' greq'. nvme_set_feature n scmd sreq = Some (NVME_SUCCESS, sreq', n') \<and> nvme_get_feature n' gcmd greq = Some (NVME_SUCCESS, greq', n') \<and>
    rq_result greq' = dw scmd 11"
proof -
  have "u32 (dw scmd 11) = dw scmd 11" using dw_range [OF assms(1), of 11] by (simp add: u32_def)
  then show ?thesis using feature_read_back [OF assms(2-4), of n sreq greq] assms(5) by (fastforce simp: with_result_def)
qed

theorem feature_round_trip_witness:
  "\<exists>sreq' n' greq'. nvme_set_feature started_ctrl [0x9, 0, 0, 0, 0, 0, 0, 0, 0, 0, 4, 0x140, 0, 0, 0, 0] (blank_req 0 0) = Some (NVME_SUCCESS, sreq', n') \<and>
    nvme_get_feature n' [0xa, 0, 0, 0, 0, 0, 0, 0, 0, 0, 4, 0, 0, 0, 0, 0] (blank_req 0 1) = Some (NVME_SUCCESS, greq', n') \<and> rq_result greq' = 0x140"
  using feature_round_trip [of "[0x9, 0, 0, 0, 0, 0, 0, 0, 0, 0, 4, 0x140, 0, 0, 0, 0]" 4 "[0xa, 0, 0, 0, 0, 0, 0, 0, 0, 0, 4, 0, 0, 0, 0, 0]" "blank_req 0 1" started_ctrl
      "blank_req 0 0"]
  by (simp add: cmd_wf_def dw_def blank_req_def)





subsection \<open>Errors\<close>



text \<open>
  The sum of first block and length wraps at 64 bits. A command for one block at the largest 64-bit address passes the range check although
  it is far behind the namespace, and \<open>nvme_rw\<close> then accesses the heap storage outside of its bounds.
\<close>

theorem wrapped_range_faults:
  assumes "rw_slba cmd = 2 ^ 64 - 1" "rw_nlb cmd = 0" "rw_control cmd = 0" "0 \<le> ns_nsze ns" "ns_ds ns = 12" "n_mdts n = 0 \<or> 4096 \<le> n_page_size n * 2 ^ n_mdts n"
    "cmd_mptr cmd = 0" "nvme_map_prp n (cmd_prp1 cmd) (cmd_prp2 cmd) 4096 = Some (Inr (False, [(a, 4096)]))" "n_heap_size n < 2 ^ 63"
  shows "nvme_rw_check_req env n ns cmd req (rw_slba cmd) (u64 (rw_slba cmd + 1)) 1 0 4096 0 = Some (0, n) \<and> nvme_rw env n ns cmd req = None"
proof -
  have v: "u64 (rw_slba cmd + 1) = 0" "u64 ((2 ^ 64 - 1) * 2 ^ 12) = 2 ^ 64 - 4096" by (simp_all add: assms(1) u64_def)
  have "any_bit bs (2 ^ 64 - 1) 0 = False" for bs by (simp add: any_bit_def)
  then have c: "nvme_rw_check_req env n ns cmd r (rw_slba cmd) (u64 (rw_slba cmd + 1)) 1 0 4096 0 = Some (0, n)" for r
    using assms(4,6) v(1) by (auto simp: nvme_rw_check_req_def assms(1))
  have h: "nvme_heap_storage_rw m r = None" if "rq_qsg r = [(a, 4096)]" "rq_data_offset r = 2 ^ 64 - 4096" "n_heap_size m = n_heap_size n" for m r
    using that assms(9) by (simp add: nvme_heap_storage_rw_def Let_def)
  have t: "rw_transfer n r q = None" if "rq_qsg r = [(a, 4096)]" "rq_data_offset r = 2 ^ 64 - 4096" for r q
  proof -
    obtain t1 s1 where g1: "get_ns n = (t1, n\<lparr>n_ssd := s1\<rparr>)" by (cases "read_clock REALTIME_NS (n_ssd n)") (simp add: get_ns_def)
    obtain t2 s2 where g2: "get_ns (n\<lparr>n_ssd := s1\<rparr>) = (t2, n\<lparr>n_ssd := s2\<rparr>)" by (cases "read_clock REALTIME_NS s1") (simp add: get_ns_def)
    have k: "n_heap_size m = n_heap_size n" if "rw_ssd (n\<lparr>n_ssd := s2\<rparr>) b q = Some (d, m)" for b d m
      using that by (auto simp: rw_ssd_def split: bind_splits)
    show ?thesis using h that k by (cases "rw_ssd (n\<lparr>n_ssd := s2\<rparr>) (rq_is_write r) q") (auto simp: rw_transfer_def g1 g2 Let_def)
  qed
  let ?r = "req\<lparr>rq_data_offset := 2 ^ 64 - 4096, rq_is_write := (cmd_opcode cmd = NVME_CMD_WRITE)\<rparr>"
  have w: "rw_nlb cmd + 1 = 1" "u64 (1 * 2 ^ ns_ds ns) = 4096" "u64 (rw_slba cmd * 2 ^ ns_ds ns) = 2 ^ 64 - 4096" "u32 (1 * 2 ^ ns_ds ns) = 4096"
    using assms(2) v(2) by (simp_all add: assms(1,5) u64_def u32_def)
  have "rw_meta n 0 b k = Some (n, replicate (nat 512) no_info)" for b k by (simp only: rw_meta_def Let_def simp_thms if_True)
  then have "nvme_rw env n ns cmd req = None"
    unfolding nvme_rw_def Let_def w assms(3,7) c [of ?r] by (simp add: assms(8) t del: replicate_Suc)
  then show ?thesis using c by simp
qed

theorem wrapped_range_faults_witness:
  "ns_nsze demo_ns = 15 \<and> nvme_rw demo_env busy_ctrl demo_ns [0x00090001, 1, 0, 0, 0, 0, 0x5000, 0, 0, 0, 0xffffffff, 0xffffffff, 0, 0, 0, 0] (blank_req 1 0) = None"
proof -
  let ?cmd = "[0x00090001, 1, 0, 0, 0, 0, 0x5000, 0, 0, 0, 0xffffffff, 0xffffffff, 0, 0, 0, 0]"
  have c: "rw_slba ?cmd = 2 ^ 64 - 1" "rw_nlb ?cmd = 0" "rw_control ?cmd = 0" "cmd_mptr ?cmd = 0" "cmd_prp1 ?cmd = 0x5000" "cmd_prp2 ?cmd = 0"
    by (simp_all add: field_defs)
  have m: "nvme_map_prp busy_ctrl 0x5000 0 4096 = Some (Inr (False, [(0x5000, 4096)]))"
    by (simp add: nvme_map_prp_def seg_of_def in_cmb_def io_fields u32_def Let_def)
  from wrapped_range_faults [OF c(1-3), of demo_ns busy_ctrl "0x5000" demo_env "blank_req 1 0"] m c show ?thesis by (simp add: demo_ns io_fields)
qed

text \<open>
  A weight of 255 in the arbitration feature makes the burst of a queue wrap to zero, and a queue with a burst of zero is never served: its poll
  leaves the head, the free requests and the completion queues as they are.
\<close>

theorem zero_burst_starves:
  assumes "q_inv {} n" "get_sq n i = Some sq" "sq_db_addr sq = 0" "sq_arb_burst sq = 0"
  shows "arb_burst_of 0xff000000 1 = 0 \<and> (\<exists>n' sq'. nvme_process_sq_io env i n = Some n' \<and> get_sq n' i = Some sq' \<and> sq_head sq' = sq_head sq \<and>
    sq_req_list sq' = sq_req_list sq \<and> n_cq n' = n_cq n)"
proof -
  have id: "sq_sqid sq = i" using q_inv_sq [OF assms(1,2)] by (simp add: sq_inv_def)
  obtain t s where g: "get_ns (put_sq n sq) = (t, (put_sq n sq)\<lparr>n_ssd := s\<rparr>)" by (cases "read_clock REALTIME_NS (n_ssd (put_sq n sq))") (simp add: get_ns_def)
  have p: "get_sq (put_sq n sq) i = Some sq" using get_put_sq [OF assms(2) id] by simp
  then have p2: "get_sq ((put_sq n sq)\<lparr>n_ssd := s\<rparr>) i = Some sq" by (simp add: get_sq_def)
  show ?thesis
    using assms(2-4) p g get_put_sq [OF p2] id
    by (auto simp: nvme_process_sq_io_def nvme_update_sq_tail_def Let_def put_sq_def arb_burst_of_def u8_def)
qed

text \<open>
  \<open>nvme_create_cq\<close> and \<open>nvme_create_sq\<close> accept a number beyond the last queue, because \<open>nvme_check_cqid\<close> and \<open>nvme_check_sqid\<close> report it like
  a free one: a contiguous queue with such a number is written outside the array.
\<close>

theorem queue_number_unchecked:
  assumes "q_arrays n" "n_num_io_queues n < lo16 (dw cmd 10)" "0 \<le> n_num_io_queues n" "hi16 (dw cmd 10) \<noteq> 0" "hi16 (dw cmd 10) \<le> n_mqes n"
    "cmd_prp1 cmd \<noteq> 0" "hi16 (dw cmd 11) \<le> n_num_io_queues n" "lo16 (dw cmd 11) mod 2 = 1"
  shows "nvme_create_cq env n cmd = None"
proof -
  have q: "lo16 (dw cmd 10) \<noteq> 0" "nvme_check_cqid n (lo16 (dw cmd 10)) \<noteq> 0" using assms(2,3) by (simp_all add: nvme_check_cqid_def)
  have w: "cwrite (n_cq m) (lo16 (dw cmd 10)) v = None" if "n_cq m = n_cq n" for m v
    using assms(1,2) that by (auto simp: q_arrays_def cwrite_def)
  have g: "n_cq (snd (get_ns n)) = n_cq n" by (simp add: get_ns_def split: prod.splits)
  have "nvme_init_cq n a (lo16 (dw cmd 10)) v sz ie True = None" for a v sz ie
    using q(1) w [OF g] by (cases "get_ns n") (simp add: nvme_init_cq_def Let_def)
  then show ?thesis using assms(4-8) q by (simp add: nvme_create_cq_def Let_def)
qed

text \<open>
  A shutdown keeps \<open>READY\<close> but frees the timer for events: the next doorbell of a queue that does not exist is a fault.
\<close>

theorem doorbell_after_shutdown_faults:
  assumes "q_arrays n" "0 \<le> n_num_io_queues n" "n_csts n = 1" "bits (n_cc n) 0 1 = 1" "bits (n_cc n) 14 2 = 0" "n_db_stride n = 0"
  shows "\<exists>n'. nvme_write_bar n 0x14 0x4001 = Some n' \<and> nvme_process_db n' 0x1008 0 = None"
proof -
  let ?n = "(nvme_clear_ctrl n)\<lparr>n_cc := 0x4001, n_csts := 9\<rparr>"
  have w: "nvme_write_bar n 0x14 0x4001 = Some ?n"
    using assms(3-5) by (simp add: nvme_write_bar_def cc_write_def bits_def u32_def Let_def nvme_clear_ctrl_def clear_queues_def)
  have q: "get_sq ?n i = None" "get_cq ?n i = None" for i
    using assms(1,2) by (auto simp: nvme_clear_ctrl_def clear_queues_def get_sq_def get_cq_def cread_def q_arrays_def)
  have "doorbell_event ?n a = None" for a using q by (simp add: doorbell_event_def)
  then have "nvme_process_db ?n 0x1008 0 = None"
    using q by (simp add: nvme_process_db_def Let_def nvme_check_sqid_def u16_def u32_def nvme_clear_ctrl_def clear_queues_def assms(6))
  then show ?thesis using w by blast
qed

end
