(* ===== verification/Spec2Isabelle.thy ===== *)
theory Spec2Isabelle
  imports Scenario BloomFilter NvmeProperties
begin

text \<open>
  Verification of the remapping SSD of FEMU: its flash translation layer (\<open>src/hw/block/ssd\<close>), in which several
  logical pages may share one physical page, and its NVMe controller (\<open>src/hw/block/nvme.c\<close>).

  \<^bold>\<open>The program.\<close> The guest writes commands into submission queues in its memory and rings doorbells. The
  controller polls the queues, finds the memory of a transfer through PRP lists, copies the data to or from its
  heap storage, and asks the front end of the device how long the command takes. The request then waits
  in a list, sorted by that time, until a poll of the completion queue posts it to the guest. Admin commands
  create and delete queues, read and set features, and report state.
  The controller calls the front end (\<open>ssd.c\<close>) with reads, writes, discards and
  remap commands. The front end calls the translation layer (\<open>ftl.c\<close>), which splits a request into
  pages. A written page gets a new physical page from the allocator, or, when the host flags the
  write as a copy of another logical page, it is remapped to the physical page of that one. Every
  physical page has a chain of the logical pages that refer to it (the inverse mapping) and a
  reference counter (the block state table). One reference fits into the spare area of the flash page;
  each further one is an entry in an NVRAM segment of the superblock. A superblock is the row of blocks
  with the same number on all chips; it is opened, filled, collected and erased as a whole. The
  collector runs after writes when free blocks or free pages get scarce. All operations advance
  the times at which channels, chips and NVRAM regions become free, and these give the delay that is
  reported to the host.

  \<^bold>\<open>Theories, in the order of the imports.\<close>
  \<^item> \<open>Prelude\<close>: C integers with their wraps, C arrays, loops that may fail, rounding to double.
  \<^item> \<open>SsdState\<close>: \<open>common.h\<close>, \<open>struct ssdconf\<close>, \<open>struct ssdstate\<close> and the table entries as records.
  \<^item> \<open>BlockState\<close>: \<open>CALC_FLASH\<close>, \<open>CALC_BLOCK\<close>, \<open>CALC_PAGE\<close> and the block state table. The invariant
    \<open>blk_inv\<close> says that the page counters are exact.
  \<^item> \<open>InverseMap\<close>, \<open>PageRefs\<close>: the chains, and their agreement with the counters (\<open>link_inv\<close>).
  \<^item> \<open>IoTiming\<close>: the time model of \<open>ssd_io_manager.c\<close>; the locale \<open>busy_resource\<close> has what holds of any
    resource that serves one request after the other, and is interpreted for chips, NVRAM and slots.
  \<^item> \<open>NvramOob\<close>: \<open>USE_REMAP\<close>, \<open>NVRAM_OOB_GC\<close>, \<open>UPDATE_NVRAM_OOB\<close> and the accounting of entries.
  \<^item> \<open>BlockLists\<close>, \<open>Allocator\<close>: free and victim lists, \<open>GET_NEW_PAGE\<close>, the selection of a victim, and
    their refinement of an abstract allocator (\<open>alloc_rel\<close>); the locale \<open>page_source\<close> has what a client of
    the allocator relies on.
  \<^item> \<open>PageMapping\<close>: \<open>UPDATE_OLD_PAGE_MAPPING\<close>, \<open>UPDATE_NEW_PAGE_MAPPING\<close> and the remap steps; the mapping
    table and the chains are inverse to each other.
  \<^item> \<open>Statistics\<close>, \<open>GcManager\<close>, \<open>PerfManager\<close>, \<open>Ftl\<close>, \<open>SsdFront\<close>: the statistics, the superblock collector of
    \<open>ftl_gc_manager.c\<close>, the request list and the page loop, \<open>FTL_READ\<close> and \<open>FTL_WRITE\<close>, and the functions
    of \<open>ssd.c\<close>. Each has the lemma that its operations keep the device invariant \<open>dev_inv s A\<close>, where \<open>A\<close>
    is the abstract allocator, and what they do to the logical view.
  \<^item> \<open>SsdConfig\<close>, \<open>DeviceInit\<close>: the configuration file and \<open>SSD_INIT\<close>.
  \<^item> \<open>Device\<close>: host commands, when a command is ready, and the specification \<open>cmd_step\<close>, a relation on
    the logical-to-physical table only. The locale \<open>served_machine\<close> is interpreted for the device.
  \<^item> \<open>HostView\<close>, \<open>Scenario\<close>: consequences of the specification for single commands, and concrete states
    and commands at which the properties are applied.
  \<^item> \<open>BloomFilter\<close>: \<open>ftl_bf.c\<close> with its hash functions at their 32-bit width.
  \<^item> \<open>NvmeState\<close>, \<open>NvmePrp\<close>: the structs of \<open>nvme.h\<close>, guest memory, \<open>nvme_map_prp\<close> and the transfers. A list
    of segments that is accepted covers the transfer exactly.
  \<^item> \<open>NvmeIo\<close>: \<open>nvme_io_cmd\<close> with all its commands and the remap command. The block layer, the
    interrupts and the open-channel mode are the fields of the parameter \<open>blk_env\<close>.
  \<^item> \<open>NvmeQueues\<close>: rings, the waiting list, \<open>nvme_post_cqes_io\<close> and \<open>nvme_process_sq_io\<close>, and the invariant
    \<open>q_inv\<close>: every request of a queue is in exactly one list. The locale \<open>due_list\<close> has what holds of any list that is kept in the
    order of a key, and is interpreted for the waiting list.
  \<^item> \<open>NvmeFeatures\<close>: \<open>nvme_identify\<close>, features, log pages, formats, register reads, and \<open>nvme_init\<close>.
  \<^item> \<open>NvmeAdmin\<close>: queues, events, abort, doorbells and the other registers. The step relation \<open>ctrl_step\<close> has one rule for each
    callback, and all of them keep \<open>q_inv\<close>.
  \<^item> \<open>NvmeServe\<close>: a valid command is served by the device, and a served command is posted.
  \<^item> \<open>NvmeScenario\<close>, \<open>NvmeProperties\<close>: a controller that was started by register writes and admin commands, and the properties of the
    controller with their applications to it.

  \<^bold>\<open>What the properties show.\<close> C1 to C3 are about the device as a whole: it starts in the invariant, serves
  every sequence of ready commands and refines the specification. C4 to C10 are about the controller on top of it: valid
  commands are carried out and complete, data is read as it was written, no request is lost, completions are posted in order, and
  the controller starts. C11 to C13 say that the tables of the device agree in every reachable state. C14 to C23 state what the
  single device commands do to the mapping, frame conditions and error paths included. C24 to C27 are about collection
  and allocation, C28 to C33 about NVRAM, addresses, the page loop, the reference counters and the Bloom filters, C34
  to C40 about the parts of the controller. The theorems without a number support the list of known defects or are
  about smaller parts of the device.

  \<^bold>\<open>Conventions.\<close> An operation returns \<open>None\<close> when the C function does not return normally: a null or
  out-of-range access, a division by zero, \<open>exit\<close>, or a loop that does not end. The loops that may
  not end are \<open>partial_function\<close>s, and that they return is part of the theorems. The loop of
  \<open>USE_REMAP\<close> has its bound \<open>BLOCK_NB + 1\<close> from the code. The 64-bit times are unbounded integers. The
  clock is a parameter, an arbitrary stream of readings; nothing is assumed of it beyond what a
  statement says. The counters of the statistics that the code divides by are 32 bits wide; the
  predicate \<open>room\<close> in \<open>cmd_ready\<close> says that they do not wrap during a command, and \<open>ref_room\<close> that no page
  reaches 127 references. The invariant is for devices with one plane per chip and at least two chips:
  with more planes the order of allocation contradicts the check under \<open>SB_DEBUG\<close>, and with a single
  chip \<open>empty_block_table_index\<close> is not wrapped.

  \<^bold>\<open>Not modelled.\<close> QEMU around the device: PCI and MSI-X set-up (\<open>nvme_init_pci\<close>, lines 1833 to 1967 of \<open>nvme.c\<close>), the block layer,
  and the mutex that serialises the callbacks. The open-channel mode (\<open>femu-oc.c\<close>): its entry points are parameters, and where a property needs it
  their only assumption is that they leave the queues alone. \<open>nvme_exit\<close>, which frees memory. The code that is
  compiled out: \<open>ftl_cache.c\<close>, \<open>firm_buffer_manager.c\<close>, the collector for single blocks in
  \<open>ftl_gc_manager.c\<close>. \<open>ssd_log_manager.c\<close>, a socket to a monitor that is off, and \<open>ssd_trim_manager.c\<close>, which
  only commented-out code uses. The register and
  channel delays of \<open>ssd_io_manager.c\<close> (\<open>SSD_IO_INIT\<close> and lines 455 to 1163), which the time model
  replaced. \<open>SEND_TO_PERF_CHECKER\<close>, whose figures in double nothing reads. The files: the \<open>.dat\<close> files of the
  two block lists hold raw pointers, and the functions \<open>TERM_*\<close> write files and free memory.
  \<open>do_warmup\<close> has no caller.
\<close>

section \<open>The device as a whole\<close>

text \<open>
  C1: starting the device without saved tables, with a configuration whose geometry the superblock
  code supports, succeeds and establishes the invariant: no logical page is mapped, every physical
  page is free, and the geometry in force is the one derived from the file.
\<close>

theorem boot_establishes_invariant:
  assumes "parse_conf text (zero_conf\<lparr>sos := 24, max_page := 0\<rparr>) = Some c" "params_ok c"
  shows "\<exists>s. SSD_INIT clk (Some text) no_files True None = Some s \<and> dev_ok s \<and> tab s = (\<lambda>l. - 1) \<and>
    derive_conf c = Some (ssdparams s) \<and> stat_ppn_free (pstat s) = PAGE_MAPPING_ENTRY_NB (ssdparams s)"
proof -
  from SSD_INIT_blank [OF assms, of clk] obtain s where
    s: "SSD_INIT clk (Some text) no_files True None = Some s" "blank_dev s" "derive_conf c = Some (ssdparams s)" by blast
  then show ?thesis using blank_dev_inv [OF s(2)] by (auto simp: dev_ok_def blank_dev_def Let_def)
qed

theorem boot_establishes_invariant_witness:
  "params_ok shipped_params \<and> (\<exists>s. SSD_INIT shipped_clock (Some shipped_conf) no_files True None = Some s \<and> dev_ok s \<and>
    tab s = (\<lambda>l. - 1) \<and> derive_conf shipped_params = Some (ssdparams s) \<and>
    stat_ppn_free (pstat s) = PAGE_MAPPING_ENTRY_NB (ssdparams s))"
  using boot_establishes_invariant [OF parse_shipped shipped_params_ok] shipped_params_ok by blast

text \<open>
  C2: a device that satisfies the invariant serves every sequence of commands each of which is ready
  when its turn comes: no command faults, divides by zero, exits or loops for ever, there is one
  result per command, and the invariant holds at the end.
\<close>

theorem ready_commands_are_served:
  assumes "dev_ok s" "ready_run cmd_ready exec s cs"
  shows "\<exists>rs s'. run_cmds exec s cs = Some (rs, s') \<and> dev_ok s' \<and> length rs = length cs"
  using femu.run_ok [OF assms] .

theorem ready_commands_are_served_witness:
  "\<exists>rs s'. ready_run cmd_ready exec shipped_dev demo_cmds \<and> run_cmds exec shipped_dev demo_cmds = Some (rs, s') \<and>
     dev_ok s' \<and> length rs = length demo_cmds"
  using ready_commands_are_served [OF shipped_dev_inv(2) shipped_run] shipped_run by blast

text \<open>
  C3: the device implements the specification of its commands: along every served sequence the
  logical-to-physical tables between the commands are a run of \<open>cmd_step\<close>, which knows nothing of
  blocks, collection or the NVRAM.
\<close>

theorem device_refines_commands:
  assumes "dev_ok s" "ready_run cmd_ready exec s cs" "run_cmds exec s cs = Some (rs, s')"
  shows "\<exists>ms. length ms = length cs + 1 \<and> ms ! 0 = tab s \<and> ms ! length cs = tab s' \<and>
    (\<forall>i < length cs. cmd_step (ssdparams s) (cs ! i) (ms ! i) (ms ! Suc i))"
  using femu.run_spec [OF assms] .

theorem device_refines_commands_witness:
  "\<exists>s' rs ms. run_cmds exec shipped_dev demo_cmds = Some (rs, s') \<and> length ms = length demo_cmds + 1 \<and>
     ms ! 0 = (\<lambda>l. - 1) \<and> ms ! length demo_cmds = tab s' \<and>
     cmd_step (ssdparams shipped_dev) (Write first_write) (ms ! 0) (ms ! 1)"
proof -
  obtain rs s' where r: "run_cmds exec shipped_dev demo_cmds = Some (rs, s')"
    using femu.run_ok [OF shipped_dev_inv(2) shipped_run] by blast
  from device_refines_commands [OF shipped_dev_inv(2) shipped_run r] obtain ms where
    m: "length ms = length demo_cmds + 1" "ms ! 0 = tab shipped_dev" "ms ! length demo_cmds = tab s'"
      "\<forall>i < length demo_cmds. cmd_step (ssdparams shipped_dev) (demo_cmds ! i) (ms ! i) (ms ! Suc i)" by blast
  have "cmd_step (ssdparams shipped_dev) (Write first_write) (ms ! 0) (ms ! 1)"
    using m(4) [rule_format, of 0] by (simp add: demo_cmds_def)
  then show ?thesis using r m shipped_dev_inv(3) by auto
qed


text \<open>
  C11: in every reachable state the inverse table is the inverse of the mapping table: the chain of a
  physical page lists each logical page that maps to it once and no other, and its 8-bit counter
  is their number.
\<close>

theorem inverse_table_exact:
  assumes "dev_ok s0" "reachable s0 s" "0 \<le> p" "p < PAGE_MAPPING_ENTRY_NB (ssdparams s)"
  shows "set (lpns (inverse_mapping_table s ! nat p)) = {l. tab s l = p} \<and> distinct (lpns (inverse_mapping_table s ! nat p)) \<and>
    lpn_cnt (inverse_mapping_table s ! nat p) = int (card {l. tab s l = p}) \<and> card {l. tab s l = p} \<le> 127"
proof -
  from dev_okE [OF reachable_ok [OF assms(2,1)]] have m: "map_inv s" "link_inv s" by blast+
  note c = chain_refs [OF m(1) [unfolded map_inv_def] assms(3,4)] and e = link_inv_entry [OF m(2) assms(3,4)]
  have "set (chain s p) = {l. tab s l = p}" using c(1) assms(3) by (auto simp: tab_def)
  moreover from this have "length (chain s p) = card {l. tab s l = p}" using distinct_card [OF c(2)] by simp
  ultimately show ?thesis using c(2) e by (simp add: chain_def)
qed

theorem inverse_table_exact_witness:
  "set (lpns (inverse_mapping_table written_dev ! 7)) = {l. tab written_dev l = 7} \<and>
   lpn_cnt (inverse_mapping_table written_dev ! 7) = int (card {l. tab written_dev l = 7})"
  using inverse_table_exact [OF shipped_dev_inv(2) written_dev(3), of 7] by (simp add: written_dev(4) shipped_dev_params)

text \<open>
  C12: in every reachable state the page statistics are exact: \<open>stat_ppn_free\<close> is the number of physical pages
  that the lists of empty blocks still have to offer, \<open>stat_ppn_valid\<close> of those in use, \<open>stat_ppn_n21\<close> of those shared by
  several logical pages, \<open>stat_ppn_invalid\<close> of those that have been handed out and that no logical page uses any more, and
  \<open>stat_lpn_valid\<close> is the number of mapped logical pages. Free, valid and invalid pages add up to the device.
\<close>

theorem page_statistics_exact:
  assumes "dev_ok s0" "reachable s0 s"
  shows "stat_ppn_valid (pstat s) = int (card {p. 0 \<le> p \<and> (\<exists>l. tab s l = p)}) \<and>
    stat_ppn_n21 (pstat s) = int (card {p. 0 \<le> p \<and> 1 < card {l. tab s l = p}}) \<and>
    stat_lpn_valid (pstat s) = int (card {l. tab s l \<noteq> - 1}) \<and>
    stat_ppn_free (pstat s) = int (card {p. 0 \<le> p \<and> p < PAGE_MAPPING_ENTRY_NB (ssdparams s) \<and> page_free s p}) \<and>
    stat_ppn_invalid (pstat s) = int (card {p. 0 \<le> p \<and> p < PAGE_MAPPING_ENTRY_NB (ssdparams s) \<and> \<not> page_free s p \<and> \<not> (\<exists>l. tab s l = p)}) \<and>
    stat_ppn_free (pstat s) + stat_ppn_valid (pstat s) + stat_ppn_invalid (pstat s) = PAGE_MAPPING_ENTRY_NB (ssdparams s)"
proof -
  from dev_okE [OF reachable_ok [OF assms(2,1)]] have m: "map_inv s" "blk_inv s" by blast+
  obtain A where A: "dev_inv s A" using reachable_ok [OF assms(2,1)] by (auto simp: dev_ok_def)
  note st = blk_invD(4) [OF m(2), unfolded stat_ok_def] and b = blk_invD(5) [OF m(2)]
  have r: "0 \<le> p \<and> (\<exists>l. tab s l = p) \<Longrightarrow> p < pages_of s" for p using tab_mapped(5) [OF m(1) refl] by fastforce
  have e: "0 \<le> p \<and> p < pages_of s \<and> 0 < page_ref s p \<longleftrightarrow> 0 \<le> p \<and> (\<exists>l. tab s l = p)" for p
    using r page_ref_mapped [OF m(1)] by blast
  have "0 \<le> p \<and> p < pages_of s \<and> 1 < page_ref s p \<longleftrightarrow> 0 \<le> p \<and> 1 < card {l. tab s l = p}" for p
  proof (cases "0 \<le> p \<and> p < pages_of s")
    case True
    then show ?thesis using page_ref_card [OF m(1), of p] by (auto simp: max_def split: if_splits)
  next
    case False
    then have "0 \<le> p \<Longrightarrow> {l. tab s l = p} = {}" using r by auto
    then show ?thesis using False by auto
  qed
  moreover have "length (filter (\<lambda>v. v = 0) xs) + length (filter (\<lambda>v. 0 < v) xs) + length (filter (\<lambda>v. v < 0) xs) = length xs"
    for xs :: "int list" by (induction xs) auto
  then have "stat_ppn_free (pstat s) + stat_ppn_valid (pstat s) + stat_ppn_invalid (pstat s) = int (length (page_refs s))"
    using st by (metis of_nat_add)
  moreover have "0 \<le> pages_of s" using wf_confD [OF blk_invD(2) [OF m(2)]] by simp
  moreover have "0 \<le> p \<and> p < pages_of s \<and> page_ref s p = 0 \<longleftrightarrow> 0 \<le> p \<and> p < pages_of s \<and> page_free s p"
    "0 \<le> p \<and> p < pages_of s \<and> page_ref s p < 0 \<longleftrightarrow> 0 \<le> p \<and> p < pages_of s \<and> \<not> page_free s p \<and> \<not> (\<exists>l. tab s l = p)" for p
    using page_free_slots [OF A] page_invalid_iff [OF A] by blast+
  ultimately show ?thesis using st b count_lpns [OF m(1)] count_refs [OF m(2)] e by simp
qed

theorem page_statistics_exact_witness:
  "stat_lpn_valid (pstat written_dev) = int (card {l. tab written_dev l \<noteq> - 1}) \<and>
   stat_ppn_free (pstat written_dev) = int (card {p. 0 \<le> p \<and> p < 5242880 \<and> page_free written_dev p}) \<and>
   stat_ppn_free (pstat written_dev) + stat_ppn_valid (pstat written_dev) + stat_ppn_invalid (pstat written_dev) = 5242880"
  using page_statistics_exact [OF shipped_dev_inv(2) written_dev(3)] by (simp add: written_dev(4) shipped_dev_params)

text \<open>
  C13: in every reachable state the NVRAM accounts are exact: the entries of a superblock that are
  taken and not invalid are as many as the logical pages that are kept in the NVRAM and mapped into
  it, and the totals are the sums over the superblocks.
\<close>

theorem nvram_accounts_exact:
  assumes "dev_ok s0" "reachable s0 s" "0 \<le> b" "b < BLOCK_NB (ssdparams s)"
  shows "(let seg = NVRAM_OOB_TABLE s ! nat b in alloc_seg seg * OOB_ENTRY_PER_SEG - free_entry seg - invalid_entry seg
      = int (card {l. tab s l \<noteq> - 1 \<and> in_nvram s ! nat l = 1 \<and> CALC_BLOCK s (tab s l) = b})) \<and>
    stat_total_alloc_seg (nstat s) = u64 (sum_list (map alloc_seg (NVRAM_OOB_TABLE s))) \<and>
    stat_total_invalid_entry (nstat s) = u64 (sum_list (map invalid_entry (NVRAM_OOB_TABLE s)))"
proof -
  from dev_okE [OF reachable_ok [OF assms(2,1)]] have "map_inv s" by blast
  note a = accD [OF this [unfolded map_inv_def]]
  have "live s b = int (card (nv_set s (l2p s) (nvm s) b))" using a(5) assms(3,4) by (simp add: nv_acc_def)
  moreover have "nv_set s (l2p s) (nvm s) b = {l. tab s l \<noteq> - 1 \<and> in_nvram s ! nat l = 1 \<and> CALC_BLOCK s (tab s l) = b}"
    by (auto simp: nv_set_def tab_def nvm_def)
  ultimately show ?thesis
    using nv_invD(5) [OF a(2) assms(3,4)] by (simp add: live_def live_entries_def entries_def totals_ok_def Let_def)
qed

theorem nvram_accounts_exact_witness:
  "alloc_seg (NVRAM_OOB_TABLE written_dev ! 5) * 64 - free_entry (NVRAM_OOB_TABLE written_dev ! 5)
      - invalid_entry (NVRAM_OOB_TABLE written_dev ! 5)
    = int (card {l. tab written_dev l \<noteq> - 1 \<and> in_nvram written_dev ! nat l = 1 \<and> CALC_BLOCK written_dev (tab written_dev l) = 5})"
  using nvram_accounts_exact [OF shipped_dev_inv(2) written_dev(3), of 5] by (simp add: written_dev(4) shipped_dev_params Let_def)


section \<open>Host commands\<close>

abbreviation (input) in_pages :: "int \<Rightarrow> int \<Rightarrow> int \<Rightarrow> bool" where
  "in_pages first n l \<equiv> first \<le> l \<and> l < first + n"

abbreviation (input) same_page_use :: "(int \<Rightarrow> int) \<Rightarrow> (int \<Rightarrow> int) \<Rightarrow> int \<Rightarrow> int \<Rightarrow> bool" where
  "same_page_use m m' l k \<equiv> (m' l = - 1 \<longleftrightarrow> m l = - 1) \<and> (m' l = m' k \<longleftrightarrow> m l = m k)"

lemma write_cmd_step:
  assumes "dev_ok s" "cmd_ready s (Write req)"
  obtains r s' m where "SSD_WRITE s req = Some (r, s')" "dev_ok s'" "same_sharing m (tab s')"
    "host_steps (req_steps (ssdparams s) req (pages_in (ssdparams s) req)) (tab s) m"
  using femu.served [OF assms] by (auto elim: cmd_step_writeE)

text \<open>
  C14: after a write without remap flags every logical page of the request is mapped to a physical
  page that no other logical page uses, whatever it shared before, and all other logical pages are
  mapped and shared as they were, although the collector may have moved them.
\<close>

theorem plain_write_owns_its_pages:
  fixes s :: ssdstate and req :: request_meta
  defines "first \<equiv> req_sector_nb req div SECTORS_PER_PAGE (ssdparams s)" and "n \<equiv> pages_in (ssdparams s) req"
  assumes "dev_ok s" "cmd_ready s (Write req)" "\<forall>li \<in> set (lpns_info req). \<not> remap_flag (lpn_flag li)"
  shows "\<exists>r s'. SSD_WRITE s req = Some (r, s') \<and> dev_ok s' \<and>
    (\<forall>l. in_pages first n l \<longrightarrow> tab s' l \<noteq> - 1 \<and> (\<forall>k. k \<noteq> l \<longrightarrow> tab s' k \<noteq> tab s' l)) \<and>
    (\<forall>l k. \<not> in_pages first n l \<longrightarrow> \<not> in_pages first n k \<longrightarrow> same_page_use (tab s) (tab s') l k)"
proof -
  obtain r s' m where w: "SSD_WRITE s req = Some (r, s')" "dev_ok s'" "same_sharing m (tab s')"
    "host_steps (req_steps (ssdparams s) req n) (tab s) m" using write_cmd_step [OF assms(3,4)] unfolding n_def by metis
  have "n \<le> int (length (lpns_info req))" using assms(4) by (simp add: req_ok_def Let_def n_def)
  then have "\<forall>x \<in> set (req_steps (ssdparams s) req n). \<not> remap_flag (lpn_flag (fst x))" using req_steps_infos assms(5) by blast
  note p = host_steps_plain [OF w(4) this, unfolded req_steps_pages first_def [symmetric] mem_Collect_eq]
  have "tab s' l \<noteq> - 1 \<and> (\<forall>k. k \<noteq> l \<longrightarrow> tab s' k \<noteq> tab s' l)" if "in_pages first n l" for l
    using p [of l] w(3) that unfolding same_sharing_def by metis
  moreover have "same_page_use (tab s) (tab s') l k" if "\<not> in_pages first n l" "\<not> in_pages first n k" for l k
    using p [of l] p [of k] w(3) that unfolding same_sharing_def by metis
  ultimately show ?thesis using w(1,2) by blast
qed

theorem plain_write_owns_its_pages_witness:
  "\<exists>r s'. SSD_WRITE shipped_dev first_write = Some (r, s') \<and> tab s' 1 \<noteq> - 1 \<and> tab s' 2 \<noteq> - 1 \<and> tab s' 1 \<noteq> tab s' 2 \<and> tab s' 3 = - 1"
proof -
  have f: "req_sector_nb first_write div SECTORS_PER_PAGE (ssdparams shipped_dev) = 1"
    by (simp add: first_write_def shipped_dev_params)
  have "\<forall>li \<in> set (lpns_info first_write). \<not> remap_flag (lpn_flag li)" by (simp add: first_write_def remap_flag_def)
  from plain_write_owns_its_pages [OF shipped_dev_inv(2) first_write_ready(1) this, unfolded f first_write_ready(2)]
  obtain r s' where s: "SSD_WRITE shipped_dev first_write = Some (r, s')"
    "\<forall>l. in_pages 1 2 l \<longrightarrow> tab s' l \<noteq> - 1 \<and> (\<forall>k. k \<noteq> l \<longrightarrow> tab s' k \<noteq> tab s' l)"
    "\<forall>l k. \<not> in_pages 1 2 l \<longrightarrow> \<not> in_pages 1 2 k \<longrightarrow> same_page_use (tab shipped_dev) (tab s') l k" by blast
  have "tab s' 3 = - 1" using s(3) [rule_format, of 3 3] shipped_dev_inv(3) by simp
  then show ?thesis using s(1,2) by auto
qed

text \<open>
  C15: whatever its flags, a write leaves the mapping of every logical page alone that it neither
  writes nor names as the source of a file-system move, up to a relocation by the collector.
\<close>

theorem write_frame:
  assumes "dev_ok s" "cmd_ready s (Write req)"
    and "\<forall>(li, lpn) \<in> set (req_steps (ssdparams s) req (pages_in (ssdparams s) req)).
      lpn \<noteq> l \<and> lpn \<noteq> k \<and> (lpn_flag li = FS_GC_WRITE \<longrightarrow> h_lpn li \<noteq> l \<and> h_lpn li \<noteq> k)"
  shows "\<exists>r s'. SSD_WRITE s req = Some (r, s') \<and> dev_ok s' \<and> same_page_use (tab s) (tab s') l k"
proof -
  obtain r s' m where w: "SSD_WRITE s req = Some (r, s')" "dev_ok s'" "same_sharing m (tab s')"
    "host_steps (req_steps (ssdparams s) req (pages_in (ssdparams s) req)) (tab s) m" using write_cmd_step [OF assms(1,2)] by metis
  have "m l = tab s l" "m k = tab s k" using assms(3) by (auto intro!: host_steps_frame [OF w(4)])
  then have "same_page_use (tab s) (tab s') l k" using w(3) unfolding same_sharing_def by metis
  then show ?thesis using w(1,2) by blast
qed

theorem write_frame_witness:
  "\<exists>r s'. SSD_WRITE written_dev gc_move = Some (r, s') \<and> dev_ok s' \<and> same_page_use (tab written_dev) (tab s') 2 3"
  using write_frame [OF roomyD(1) [OF written_dev(2)] gc_move_ready(1), of 2 3] gc_move_ready(2,3) by simp


text \<open>
  C16: after a one-page write that the host flags as a copy (checkpoint or duplicate) the target page
  is mapped, and it either shares the physical page of the source or has one of its own; every
  other logical page is mapped and shared as before.
\<close>

theorem copy_write_shares_or_owns:
  assumes "dev_ok s" "cmd_ready s (Write req)" "pages_in (ssdparams s) req = 1" "req_steps (ssdparams s) req 1 = [(li, l)]"
    and "lpn_flag li = CP_WRITE \<or> lpn_flag li = DEDUP_WRITE" "h_lpn li \<noteq> l"
  shows "\<exists>r s'. SSD_WRITE s req = Some (r, s') \<and> dev_ok s' \<and> tab s' l \<noteq> - 1 \<and>
    (tab s' l = tab s' (h_lpn li) \<or> (\<forall>k. k \<noteq> l \<longrightarrow> tab s' k \<noteq> tab s' l)) \<and>
    (\<forall>j k. j \<noteq> l \<longrightarrow> k \<noteq> l \<longrightarrow> same_page_use (tab s) (tab s') j k)"
proof -
  obtain r s' m where w: "SSD_WRITE s req = Some (r, s')" "dev_ok s'" "same_sharing m (tab s')" "host_steps [(li, l)] (tab s) m"
    using write_cmd_step [OF assms(1,2)] assms(3,4) by metis
  obtain p where p: "m = (tab s)(l := p)" "p \<noteq> - 1" "p = tab s (h_lpn li) \<or> (\<forall>k. tab s k \<noteq> p)"
    using w(4) assms(5) by (auto elim!: host_steps_singleE host_stepE)
  have "copied m (h_lpn li) l" using p assms(6) by (auto simp: copied_def)
  from copied_sharing [OF w(3) this] have "copied (tab s') (h_lpn li) l" .
  moreover have "same_page_use (tab s) (tab s') j k" if "j \<noteq> l" "k \<noteq> l" for j k
    using w(3) that unfolding same_sharing_def p(1) by (metis fun_upd_other)
  ultimately show ?thesis using w(1,2) unfolding copied_def by blast
qed

theorem copy_write_shares_or_owns_witness:
  "\<exists>r s'. SSD_WRITE written_dev copy_write = Some (r, s') \<and> tab s' 10 \<noteq> - 1 \<and>
     (tab s' 10 = tab s' 1 \<or> (\<forall>k. k \<noteq> 10 \<longrightarrow> tab s' k \<noteq> tab s' 10))"
  using copy_write_shares_or_owns [OF roomyD(1) [OF written_dev(2)] copy_write_ready] by auto

text \<open>
  C17: a one-page write that the file system flags as a move either leaves the source unmapped and
  the target with the physical page, so that nothing but the name changed, or writes the target to
  a page of its own and leaves the source mapped.
\<close>

theorem gc_write_moves_or_owns:
  assumes "dev_ok s" "cmd_ready s (Write req)" "pages_in (ssdparams s) req = 1" "req_steps (ssdparams s) req 1 = [(li, l)]"
    and "lpn_flag li = FS_GC_WRITE" "h_lpn li \<noteq> l"
  shows "\<exists>r s'. SSD_WRITE s req = Some (r, s') \<and> dev_ok s' \<and> tab s' l \<noteq> - 1 \<and>
    (tab s (h_lpn li) \<noteq> - 1 \<and> tab s' (h_lpn li) = - 1 \<and>
        (\<forall>k. k \<noteq> l \<longrightarrow> k \<noteq> h_lpn li \<longrightarrow> (tab s' k = tab s' l \<longleftrightarrow> tab s k = tab s (h_lpn li))) \<or>
     (\<forall>k. k \<noteq> l \<longrightarrow> tab s' k \<noteq> tab s' l) \<and> same_page_use (tab s) (tab s') (h_lpn li) (h_lpn li))"
proof -
  obtain r s' m where w: "SSD_WRITE s req = Some (r, s')" "dev_ok s'" "same_sharing m (tab s')" "host_steps [(li, l)] (tab s) m"
    using write_cmd_step [OF assms(1,2)] assms(3,4) by metis
  have h: "host_step li l (tab s) m" using w(4) by (auto elim: host_steps_singleE)
  show ?thesis
  proof (cases "m (h_lpn li) = - 1 \<and> tab s (h_lpn li) \<noteq> - 1")
    case True
    then have "m = ((tab s)(l := tab s (h_lpn li)))(h_lpn li := - 1)" using h assms(5,6) by (auto elim!: host_stepE)
    then have "m l \<noteq> - 1" "m (h_lpn li) = - 1"
      "\<And>k. k \<noteq> l \<Longrightarrow> k \<noteq> h_lpn li \<Longrightarrow> m k = m l \<longleftrightarrow> tab s k = tab s (h_lpn li)" using True assms(6) by auto
    then have "tab s' l \<noteq> - 1 \<and> tab s' (h_lpn li) = - 1 \<and>
        (\<forall>k. k \<noteq> l \<longrightarrow> k \<noteq> h_lpn li \<longrightarrow> (tab s' k = tab s' l \<longleftrightarrow> tab s k = tab s (h_lpn li)))"
      using w(3) unfolding same_sharing_def by metis
    then show ?thesis using w(1,2) True by blast
  next
    case False
    then obtain p where p: "m = (tab s)(l := p)" "p \<noteq> - 1" "\<forall>k. tab s k \<noteq> p" using h assms(5,6) by (auto elim!: host_stepE)
    then have "m l \<noteq> - 1" "\<And>k. k \<noteq> l \<Longrightarrow> m k \<noteq> m l" "m (h_lpn li) = tab s (h_lpn li)" using assms(6) by auto
    then have "tab s' l \<noteq> - 1 \<and> (\<forall>k. k \<noteq> l \<longrightarrow> tab s' k \<noteq> tab s' l) \<and> same_page_use (tab s) (tab s') (h_lpn li) (h_lpn li)"
      using w(3) unfolding same_sharing_def by metis
    then show ?thesis using w(1,2) by blast
  qed
qed

theorem gc_write_moves_or_owns_witness:
  "\<exists>r s'. SSD_WRITE written_dev gc_move = Some (r, s') \<and> tab s' 10 \<noteq> - 1 \<and>
     (tab s' 1 = - 1 \<or> tab s' 1 \<noteq> - 1 \<and> tab s' 1 \<noteq> tab s' 10)"
proof -
  from gc_write_moves_or_owns [OF roomyD(1) [OF written_dev(2)] gc_move_ready] obtain r s' where
    "SSD_WRITE written_dev gc_move = Some (r, s')" "tab s' 10 \<noteq> - 1"
    "tab s' 1 = - 1 \<or> (\<forall>k. k \<noteq> 10 \<longrightarrow> tab s' k \<noteq> tab s' 10)" by auto
  then show ?thesis by fastforce
qed


text \<open>
  A read in range returns, leaves the invariant and the whole mapping as they are, and a
  read of at least one sector takes at least the time to sense a page and transfer it.
\<close>

theorem read_keeps_the_mapping:
  assumes "dev_ok s" "range_ok (ssdparams s) sector len"
  shows "\<exists>tt s'. SSD_READ s len sector = Some (tt, s') \<and> dev_ok s' \<and> tab s' = tab s \<and> 0 \<le> tt \<and>
    (0 < len \<longrightarrow> CELL_READ_DELAY (ssdparams s) + REG_READ_DELAY (ssdparams s) \<le> tt)"
  using assms(1) FTL_READ_ok [OF _ assms(2)] unfolding dev_ok_def SSD_READ_def by blast

theorem read_keeps_the_mapping_witness:
  "\<exists>tt s'. SSD_READ written_dev 16 8 = Some (tt, s') \<and> tab s' = tab written_dev \<and> 100000 \<le> tt"
  using read_keeps_the_mapping [OF roomyD(1) [OF written_dev(2)], of 8 16]
  by (auto simp: range_ok_def written_dev(4) shipped_dev_params)

text \<open>
  C18: a discard in range succeeds, unmaps every logical page that the sectors touch, and leaves the
  physical page of every other logical page the same.
\<close>

theorem discard_unmaps_exactly:
  assumes "dev_ok s" "range_ok (ssdparams s) sector len"
  shows "\<exists>s'. femu_discard_process s len sector = Some (SUCCESS, s') \<and> dev_ok s' \<and>
    tab s' = (\<lambda>l. if in_pages (sector div SECTORS_PER_PAGE (ssdparams s)) (req_pages (ssdparams s) sector len) l
                  then - 1 else tab s l)"
  using assms(1) femu_discard_process_ok [OF _ assms(2)] unfolding dev_ok_def by blast

theorem discard_unmaps_exactly_witness:
  "\<exists>s'. femu_discard_process written_dev 8 8 = Some (SUCCESS, s') \<and> tab s' 1 = - 1 \<and> tab s' 2 = tab written_dev 2"
  using discard_unmaps_exactly [OF roomyD(1) [OF written_dev(2)], of 8 8]
  by (auto simp: range_ok_def written_dev(4) shipped_dev_params req_pages_def page_count_def)

lemma remap_cmd_step:
  assumes "dev_ok s" "cmd_ready s (Remap src dst len ope)"
  obtains s' where "SSD_REMAP s src dst len ope = Some (SUCCESS, s')" "dev_ok s'" "remap_steps ope (nat len) src dst (tab s) (tab s')"
  using femu.served [OF assms] by (auto elim!: cmd_step_remapE simp: SSD_REMAP_def split: bind_splits)

lemma written_remap_ready:
  "ope = REMAP_CKPT \<or> ope = REMAP_COPY \<or> ope = REMAP_MOVE \<Longrightarrow> cmd_ready written_dev (Remap 1 10 2 ope)"
  using roomyD(3) [OF written_dev(2)] roomyD(4) [OF written_dev(2), of 2] roomyD(5) [OF written_dev(2), of 4100 10485762 2]
  by (simp add: Let_def written_dev(4) shipped_dev_params)

text \<open>
  C19: a remap that copies, between ranges that do not overlap, leaves every target of a mapped
  source mapped, either as an alias of its source or on a page of its own.
\<close>

theorem remap_copies:
  assumes "dev_ok s" "cmd_ready s (Remap src dst len ope)" "ope \<noteq> REMAP_MOVE" "src + len \<le> dst \<or> dst + len \<le> src"
  shows "\<exists>s'. SSD_REMAP s src dst len ope = Some (SUCCESS, s') \<and> dev_ok s' \<and>
    (\<forall>i. 0 \<le> i \<longrightarrow> i < len \<longrightarrow> tab s (src + i) \<noteq> - 1 \<longrightarrow> tab s' (dst + i) \<noteq> - 1 \<and>
      (tab s' (dst + i) = tab s' (src + i) \<or> (\<forall>k. k \<noteq> dst + i \<longrightarrow> tab s' k \<noteq> tab s' (dst + i))))"
proof -
  obtain s' where w: "SSD_REMAP s src dst len ope = Some (SUCCESS, s')" "dev_ok s'"
    "remap_steps ope (nat len) src dst (tab s) (tab s')" using remap_cmd_step [OF assms(1,2)] by metis
  have "0 \<le> len" using assms(2) by (simp add: Let_def)
  then have d: "src + int (nat len) \<le> dst \<or> dst + int (nat len) \<le> src" using assms(4) by simp
  have "copied (tab s') (src + i) (dst + i)" if "0 \<le> i" "i < len" "tab s (src + i) \<noteq> - 1" for i
    using remap_steps_copied [OF w(3) assms(3) d, of "nat i"] that by simp
  then show ?thesis using w(1,2) unfolding copied_def by blast
qed

theorem remap_copies_witness:
  "\<exists>s'. SSD_REMAP written_dev 1 10 2 REMAP_COPY = Some (SUCCESS, s') \<and> tab s' 10 \<noteq> - 1 \<and> tab s' 11 \<noteq> - 1"
proof -
  from remap_copies [OF roomyD(1) [OF written_dev(2)] written_remap_ready, of REMAP_COPY] obtain s' where
    s: "SSD_REMAP written_dev 1 10 2 REMAP_COPY = Some (SUCCESS, s')"
      "\<forall>i. 0 \<le> i \<longrightarrow> i < 2 \<longrightarrow> tab written_dev (1 + i) \<noteq> - 1 \<longrightarrow> tab s' (10 + i) \<noteq> - 1" by auto
  show ?thesis using s(1) s(2) [rule_format, of 0] s(2) [rule_format, of 1] written_dev(5,6) by simp
qed

text \<open>
  C20: a remap that moves, between ranges that do not overlap, leaves every source unmapped and
  every target of a mapped source mapped.
\<close>

theorem remap_moves:
  assumes "dev_ok s" "cmd_ready s (Remap src dst len REMAP_MOVE)" "src + len \<le> dst \<or> dst + len \<le> src"
  shows "\<exists>s'. SSD_REMAP s src dst len REMAP_MOVE = Some (SUCCESS, s') \<and> dev_ok s' \<and>
    (\<forall>i. 0 \<le> i \<longrightarrow> i < len \<longrightarrow> tab s' (src + i) = - 1 \<and> (tab s (src + i) \<noteq> - 1 \<longrightarrow> tab s' (dst + i) \<noteq> - 1))"
proof -
  obtain s' where w: "SSD_REMAP s src dst len REMAP_MOVE = Some (SUCCESS, s')" "dev_ok s'"
    "remap_steps REMAP_MOVE (nat len) src dst (tab s) (tab s')" using remap_cmd_step [OF assms(1,2)] by metis
  have "0 \<le> len" using assms(2) by (simp add: Let_def)
  then have d: "src + int (nat len) \<le> dst \<or> dst + int (nat len) \<le> src" using assms(3) by simp
  have "tab s' (src + i) = - 1 \<and> (tab s (src + i) \<noteq> - 1 \<longrightarrow> tab s' (dst + i) \<noteq> - 1)" if "0 \<le> i" "i < len" for i
    using remap_steps_moved [OF w(3) refl d, of "nat i"] that by simp
  then show ?thesis using w(1,2) by blast
qed

theorem remap_moves_witness:
  "\<exists>s'. SSD_REMAP written_dev 1 10 2 REMAP_MOVE = Some (SUCCESS, s') \<and> tab s' 1 = - 1 \<and> tab s' 10 \<noteq> - 1"
proof -
  from remap_moves [OF roomyD(1) [OF written_dev(2)] written_remap_ready] obtain s' where
    s: "SSD_REMAP written_dev 1 10 2 REMAP_MOVE = Some (SUCCESS, s')"
      "\<forall>i. 0 \<le> i \<longrightarrow> i < 2 \<longrightarrow> tab s' (1 + i) = - 1 \<and> (tab written_dev (1 + i) \<noteq> - 1 \<longrightarrow> tab s' (10 + i) \<noteq> - 1)" by auto
  show ?thesis using s(1) s(2) [rule_format, of 0] written_dev(5) by simp
qed

text \<open>
  C21: a remap changes the mapping of no logical page outside its target range and, when it moves,
  its source range.
\<close>

theorem remap_frame:
  assumes "dev_ok s" "cmd_ready s (Remap src dst len ope)"
    and "\<not> in_pages dst len l" "\<not> in_pages dst len k" "ope = REMAP_MOVE \<longrightarrow> \<not> in_pages src len l \<and> \<not> in_pages src len k"
  shows "\<exists>s'. SSD_REMAP s src dst len ope = Some (SUCCESS, s') \<and> dev_ok s' \<and> same_page_use (tab s) (tab s') l k"
proof -
  obtain s' where w: "SSD_REMAP s src dst len ope = Some (SUCCESS, s')" "dev_ok s'"
    "remap_steps ope (nat len) src dst (tab s) (tab s')" using remap_cmd_step [OF assms(1,2)] by metis
  have "0 \<le> len" using assms(2) by (simp add: Let_def)
  then have "\<not> remap_touched ope (nat len) src dst l" "\<not> remap_touched ope (nat len) src dst k"
    using assms(3-5) by (auto simp: remap_touched_def)
  from remap_steps_frame [OF w(3) this] show ?thesis using w(1,2) by blast
qed

theorem remap_frame_witness:
  "\<exists>s'. SSD_REMAP written_dev 1 10 2 REMAP_COPY = Some (SUCCESS, s') \<and> tab s' 1 \<noteq> - 1 \<and> tab s' 1 \<noteq> tab s' 2"
  using remap_frame [OF roomyD(1) [OF written_dev(2)] written_remap_ready, of REMAP_COPY 1 2] written_dev(5,7) by auto


text \<open>
  C22: a read, write or discard that reaches beyond the last sector and ends below sector \<open>2^63\<close>, where the 64-bit sum of the check
  does not wrap, returns \<open>FAIL\<close> and leaves every table as it is (only clocks and request counters move).
\<close>

theorem out_of_range_rejected:
  assumes "SECTOR_NB (ssdparams s) < sector + len" "0 \<le> SECTOR_NB (ssdparams s)" "sector + len < 2 ^ 63" "req_sector_nb req = sector" "req_length req = len"
  shows "(\<exists>s'. SSD_READ s len sector = Some (FAIL, s') \<and> same_but_time s s') \<and>
    (\<exists>s'. SSD_WRITE s req = Some (FAIL, s') \<and> same_but_time s s') \<and> femu_discard_process s len sector = Some (FAIL, s)"
proof -
  obtain t s1 where c: "read_clock USEC s = (t, s1)" by (cases "read_clock USEC s")
  have s1: "same_but_time s s1" using read_clock_same [of s USEC] c by simp
  have t: "same_but_time s (upd_iostat f s1)" for f by (rule same_but_time_trans [OF s1]) simp
  have p: "ssdparams s1 = ssdparams s" using same_but_time_frame(1) [OF s1] .
  have e: "s64 (sector + len) = sector + len" using assms(1-3) by (simp add: cint)
  show ?thesis
    using assms s1 t p e by (auto simp: SSD_READ_def FTL_READ_def FTL_READ_body_def SSD_WRITE_def FTL_WRITE_def FTL_WRITE_body_def
        femu_discard_process_def c Let_def upd_iostat_def s32_def)
qed

theorem out_of_range_rejected_witness:
  "femu_discard_process written_dev 16 41943032 = Some (FAIL, written_dev) \<and>
   (\<exists>s'. SSD_READ written_dev 16 41943032 = Some (FAIL, s') \<and> same_but_time written_dev s')"
  using out_of_range_rejected [of written_dev 41943032 16 "first_write\<lparr>req_sector_nb := 41943032\<rparr>"]
  by (simp add: written_dev(4) shipped_dev_params first_write_def)

text \<open>
  The sum of first sector and length wraps at 64 bits. A discard that ends behind sector \<open>2^63\<close> therefore passes the check, and
  its first page is looked up far outside of the mapping table.
\<close>

theorem wrapped_sector_faults:
  assumes "dev_ok s" "2 ^ 63 \<le> sector + len" "sector < 2 ^ 63" "len < 2 ^ 32" "SECTORS_PER_PAGE (ssdparams s) < 2 ^ 31"
  shows "s64 (sector + len) < 0 \<and> femu_discard_process s len sector = None"
proof -
  let ?p = "SECTORS_PER_PAGE (ssdparams s)"
  from dev_okE [OF assms(1)] have m: "map_inv s" "blk_inv s" by blast+
  note w = blk_invD(2) [OF m(2)]
  have p: "0 < ?p" "PAGE_MAPPING_ENTRY_NB (ssdparams s) < 2 ^ 31" "0 \<le> SECTOR_NB (ssdparams s)" using w by (simp_all add: wf_conf_def)
  have "(sector + len + 2 ^ 63) mod 2 ^ 64 = sector + len + 2 ^ 63 - 2 ^ 64"
    using assms(2-4) by (subst mod_pos_geq) simp_all
  then have neg: "s64 (sector + len) < 0" using assms(3,4) by (simp add: s64_def)
  have s: "2 ^ 31 * ?p \<le> sector" using assms(2,4,5) by simp
  have "2 ^ 31 \<le> sector div ?p" using zdiv_mono1 [OF s p(1)] p(1) by simp
  then have lpn: "pages_of s \<le> sector sdiv ?p" using p assms(2,4) by (simp add: sdiv_nonneg)
  then have "unmap_page s (sector sdiv ?p) = None"
    using accD(3) [OF m(1) [unfolded map_inv_def]] by (simp add: unmap_page_def UPDATE_OLD_PAGE_MAPPING_def GET_MAPPING_INFO_def map_shape_def cread_def)
  then show ?thesis using neg p assms(2,3) by (simp add: femu_discard_process_def for_pages_def left_skip_of_def page_loop.simps discard_page_def)
qed

text \<open>
  C23: moving a logical page onto itself (\<open>REMAP_MOVE\<close> with equal source and target) reports success
  but leaves the page unmapped: its mapping is lost.
\<close>

theorem remap_move_onto_itself_unmaps:
  assumes "dev_ok s" "cmd_ready s (Remap l l 1 REMAP_MOVE)"
  shows "\<exists>s'. SSD_REMAP s l l 1 REMAP_MOVE = Some (SUCCESS, s') \<and> dev_ok s' \<and> tab s' l = - 1"
proof -
  obtain s' where w: "SSD_REMAP s l l 1 REMAP_MOVE = Some (SUCCESS, s')" "dev_ok s'"
    "remap_steps REMAP_MOVE (nat 1) l l (tab s) (tab s')" using remap_cmd_step [OF assms] by metis
  from w(3) have "tab s' l = - 1"
    by (cases rule: remap_steps.cases)
      (auto elim!: remap_stepE elim: remap_steps.cases simp: moved_out_def same_sharing_def)
  then show ?thesis using w(1,2) by blast
qed

theorem remap_move_onto_itself_unmaps_witness:
  "tab written_dev 1 \<noteq> - 1 \<and> (\<exists>s'. SSD_REMAP written_dev 1 1 1 REMAP_MOVE = Some (SUCCESS, s') \<and> tab s' 1 = - 1)"
proof -
  have "cmd_ready written_dev (Remap 1 1 1 REMAP_MOVE)"
    using roomyD(3) [OF written_dev(2)] roomyD(4) [OF written_dev(2), of 1] roomyD(5) [OF written_dev(2), of 2050 5242881 1]
    by (simp add: Let_def written_dev(4) shipped_dev_params)
  then show ?thesis using remap_move_onto_itself_unmaps [OF roomyD(1) [OF written_dev(2)]] written_dev(5) by blast
qed

section \<open>Garbage collection and page allocation\<close>

text \<open>
  C24: while free pages for one superblock are left, the check for garbage collection ends. It
  keeps the invariant and the host's view, never loses free pages, and it stops only when enough is
  free or when every full superblock consists of valid pages.
\<close>

theorem gc_check_terminates:
  assumes "dev_inv s A" "sb_pages (ssdparams s) \<le> stat_ppn_free (pstat s) + 1"
    "room 0 (Suc (nat (PAGE_MAPPING_ENTRY_NB (ssdparams s)))) 0 s"
  shows "\<exists>s' A'. GC_CHECK s f b = Some s' \<and> dev_inv s' A' \<and> same_sharing (tab s) (tab s') \<and>
    stat_ppn_free (pstat s) \<le> stat_ppn_free (pstat s') \<and>
    (\<not> gc_needed s' \<or> (\<forall>d \<in> set (victim_sbs A'). sb_pages (ssdparams s) \<le> sb_valid s' d))"
proof -
  note fr = stat_ppn_free_slots [OF assms(1)]
  have "room 0 (Suc (nat (pages_of s)) + 0) 0 s" using assms(3) by simp
  from GC_CHECK_ok [OF assms(1) assms(2) [unfolded fr] this, of f b] obtain s' A' where
    g: "GC_CHECK s f b = Some s'" "dev_inv s' A'" "relocated UNIV s s'" "ssdparams s' = ssdparams s" "gc_done s' A'"
      "card (free_slots (ssdparams s) A) \<le> card (free_slots (ssdparams s) A')" by blast
  have "stat_ppn_free (pstat s) \<le> stat_ppn_free (pstat s')" using g(4,6) fr stat_ppn_free_slots [OF g(2)] by simp
  moreover have "\<not> gc_needed s' \<or> (\<forall>d \<in> set (victim_sbs A'). sb_pages (ssdparams s) \<le> sb_valid s' d)"
    using g(4,5) by (simp add: gc_done_def)
  ultimately show ?thesis using g(1,2) relocated_sharing [OF g(3,4)] by blast
qed

theorem gc_check_terminates_witness:
  "\<exists>s' A'. GC_CHECK shipped_dev 0 0 = Some s' \<and> dev_inv s' A' \<and> same_sharing (tab shipped_dev) (tab s') \<and>
     5242880 \<le> stat_ppn_free (pstat s')"
  using gc_check_terminates [OF shipped_dev_inv(1), of 0 0] by (auto simp: shipped_dev_inv(4) shipped_dev_params shipped_dev_room)

text \<open>
  C25: one collection either fails because every full superblock consists of valid pages, changing
  nothing but time and counters, or it empties a full superblock with the fewest valid pages: all
  its pages become free, the pages of other superblocks stay where they are, and the number of free
  pages grows by the pages of a superblock less the valid ones that were copied.
\<close>

theorem collection_reclaims_cheapest:
  assumes "dev_inv s A" "sb_pages (ssdparams s) \<le> stat_ppn_free (pstat s) + 1" "room 0 1 0 s"
  shows "\<exists>r s' A'. SB_GARBAGE_COLLECTION s = Some (r, s') \<and> dev_inv s' A' \<and>
    (r = FAIL \<and> same_but_time s s' \<and> (\<forall>d \<in> set (victim_sbs A). sb_pages (ssdparams s) \<le> sb_valid s d) \<or>
     r = SUCCESS \<and> (\<exists>b \<in> set (victim_sbs A). (\<forall>d \<in> set (victim_sbs A). sb_valid s b \<le> sb_valid s d) \<and>
       sb_set s b \<subseteq> free_slots (ssdparams s) A' \<and>
       (\<forall>l. tab s l \<noteq> - 1 \<longrightarrow> CALC_BLOCK s (tab s l) \<noteq> b \<longrightarrow> tab s' l = tab s l) \<and> same_sharing (tab s) (tab s') \<and>
       stat_ppn_free (pstat s') = stat_ppn_free (pstat s) + sb_pages (ssdparams s) - sb_valid s b))"
proof -
  note fr = stat_ppn_free_slots [OF assms(1)]
  have "room 0 (Suc 0) 0 s" using assms(3) by simp
  from SB_GARBAGE_COLLECTION_ok [OF assms(1) assms(2) [unfolded fr] this] obtain r s' A' where
    g: "SB_GARBAGE_COLLECTION s = Some (r, s')" "dev_inv s' A'" "ssdparams s' = ssdparams s"
      "r = SUCCESS \<and> collected s A s' A' \<or>
       r = FAIL \<and> timed s s' \<and> (\<forall>d \<in> set (victim_sbs A). sb_pages (ssdparams s) \<le> sb_valid s d)" by blast
  have c: "\<forall>l. tab s l \<noteq> - 1 \<longrightarrow> CALC_BLOCK s (tab s l) \<noteq> b \<longrightarrow> tab s' l = tab s l" if "relocated {b} s s'" for b
    using that g(3) by (auto simp: relocated_def tab_def)
  from g(4) show ?thesis
  proof
    assume x: "r = SUCCESS \<and> collected s A s' A'"
    then obtain b where b: "b \<in> set (victim_sbs A)" "\<forall>d \<in> set (victim_sbs A). sb_valid s b \<le> sb_valid s d"
      "sb_set s b \<subseteq> free_slots (ssdparams s) A'" "relocated {b} s s'"
      "int (card (free_slots (ssdparams s) A')) = int (card (free_slots (ssdparams s) A)) + sb_pages (ssdparams s) - sb_valid s b"
      unfolding collected_def by blast
    have "stat_ppn_free (pstat s') = stat_ppn_free (pstat s) + sb_pages (ssdparams s) - sb_valid s b"
      using b(5) fr stat_ppn_free_slots [OF g(2)] g(3) by simp
    then show ?thesis using g(1,2) x b(1-3) c [OF b(4)] relocated_sharing [OF b(4) g(3)] by blast
  qed (use g(1,2) timedD(1) in blast)
qed

theorem collection_reclaims_cheapest_witness:
  "\<exists>r s' A'. SB_GARBAGE_COLLECTION shipped_dev = Some (r, s') \<and> dev_inv s' A'"
  using collection_reclaims_cheapest [OF shipped_dev_inv(1)] by (auto simp: shipped_dev_inv(4) shipped_dev_params shipped_dev_room)


text \<open>
  C26: \<open>GET_NEW_PAGE\<close> implements the abstract allocator that fills one superblock after the other,
  striped over the flash chips. When the abstract allocator has no page left the code does not
  return \<open>FAIL\<close> but dereferences a null block.
\<close>

theorem GET_NEW_PAGE_implements_allocator:
  assumes "alloc_rel s A"
  shows "case abs_alloc (ssdparams s) A of
      Some (ppn, A') \<Rightarrow> \<exists>s'. GET_NEW_PAGE s VICTIM_OVERALL k = Some (Some ppn, s') \<and> alloc_rel s' A' \<and> same_but_alloc s s'
    | None \<Rightarrow> GET_NEW_PAGE s VICTIM_OVERALL k = None"
  using GET_NEW_PAGE_refines [OF assms] .

lemma shipped_dev_alloc: "alloc_rel shipped_dev (all_free (ssdparams shipped_dev))"
  using dev_invD(3) [OF shipped_dev_inv(1)] .

theorem GET_NEW_PAGE_implements_allocator_witness:
  "\<exists>s'. GET_NEW_PAGE shipped_dev VICTIM_OVERALL 8 = Some (Some 0, s') \<and> same_but_alloc shipped_dev s'"
  using GET_NEW_PAGE_implements_allocator [OF shipped_dev_alloc, of 8]
  by (auto simp: abs_alloc_def open_next_def all_free_def cupto_def shipped_dev_params sb_page_def upt_rec)

text \<open>
  Successive allocations return pairwise different pages, as many as there are free pages, and
  one allocation more than that fails.
\<close>

theorem allocations_are_distinct:
  assumes "dev_inv s A"
  shows "(int n \<le> stat_ppn_free (pstat s) \<longrightarrow> (\<exists>ps s'. alloc_pages new_page n s = Some (ps, s') \<and> length ps = n \<and> distinct ps \<and>
      set ps \<subseteq> free_slots (ssdparams s) A)) \<and>
    (stat_ppn_free (pstat s) < int n \<longrightarrow> alloc_pages new_page n s = None)"
  using femu_pages.alloc_pages_ok [OF dev_invD(3) [OF assms], of n]
    femu_pages.alloc_pages_exhausted [OF dev_invD(3) [OF assms], of n] stat_ppn_free_slots [OF assms] by auto

theorem allocations_are_distinct_witness:
  "(\<exists>ps s'. alloc_pages new_page 1000 shipped_dev = Some (ps, s') \<and> length ps = 1000 \<and> distinct ps) \<and>
   alloc_pages new_page 5242881 shipped_dev = None"
  using allocations_are_distinct [OF shipped_dev_inv(1), of 1000] allocations_are_distinct [OF shipped_dev_inv(1), of 5242881]
  by (auto simp: shipped_dev_inv(4))

text \<open>
  C27: a page that is handed out holds no data: no logical page maps to it and its chain of
  references is empty.
\<close>

theorem new_pages_are_unused:
  assumes "dev_ok s" "0 < stat_ppn_free (pstat s)"
  shows "\<exists>p s'. GET_NEW_PAGE s VICTIM_OVERALL k = Some (Some p, s') \<and> 0 \<le> p \<and> p < PAGE_MAPPING_ENTRY_NB (ssdparams s) \<and>
    (\<forall>l. tab s l \<noteq> p) \<and> lpns (inverse_mapping_table s ! nat p) = []"
proof -
  obtain A where d: "dev_inv s A" using assms(1) by (auto simp: dev_ok_def)
  have "free_slots (ssdparams s) A \<noteq> {}" using assms(2) stat_ppn_free_slots [OF d] by auto
  from new_page_ok [OF dev_invD(3) [OF d] this, of k] obtain p s' where
    p: "GET_NEW_PAGE s VICTIM_OVERALL k = Some (Some p, s')" "p \<in> free_slots (ssdparams s) A" by blast
  note r = free_slots_range [OF dev_invD(7,11) [OF d] p(2)]
  have "page_ref s p = 0" using dev_invD(4) [OF d] p(2) r by (auto simp: fresh_def)
  then have "chain s p = []" using page_ref_chain(2) [OF accD(6) [OF dev_invD(1) [OF d, unfolded map_inv_def]] r] by simp
  moreover from this have "\<forall>l. tab s l \<noteq> p"
    using chain_refs(1) [OF dev_invD(1) [OF d, unfolded map_inv_def] r] r(1) by (auto simp: tab_def)
  ultimately show ?thesis using p(1) r by (auto simp: chain_def)
qed

theorem new_pages_are_unused_witness:
  "\<exists>p s'. GET_NEW_PAGE written_dev VICTIM_OVERALL 8 = Some (Some p, s') \<and> p \<noteq> tab written_dev 1 \<and> p \<noteq> tab written_dev 2"
  using new_pages_are_unused [OF roomyD(1) [OF written_dev(2)], of 8] roomyD(3) [OF written_dev(2)] by fastforce

section \<open>NVRAM entries and timing\<close>

text \<open>
  C28: a remap that \<open>USE_REMAP\<close> admits never overcommits the NVRAM: as long as the segments in use are
  at most the \<open>TOTAL_OOB_SEG\<close> there are, they still are after the entry of the remap is taken,
  whatever compaction the admission had to do.
\<close>

theorem remap_never_overcommits:
  assumes "dev_ok s" "room (Suc (nat (BLOCK_NB (ssdparams s)))) 0 0 s" "0 \<le> b" "b < BLOCK_NB (ssdparams s)"
    "used_segs s \<le> TOTAL_OOB_SEG" "USE_REMAP s b = Some (SUCCESS, s1)"
  shows "\<exists>s2. UPDATE_NVRAM_OOB s1 b VALID = Some (SUCCESS, s2) \<and> used_segs s2 \<le> TOTAL_OOB_SEG \<and> live s2 b = live s b + 1"
proof -
  obtain A where d: "dev_inv s A" using assms(1) by (auto simp: dev_ok_def)
  show ?thesis by (rule admitted_entry_fits [OF dev_invD(10,2) [OF d] assms(2-6)])
qed

theorem remap_never_overcommits_witness:
  "\<exists>s1 s2. USE_REMAP shipped_dev 5 = Some (SUCCESS, s1) \<and> UPDATE_NVRAM_OOB s1 5 VALID = Some (SUCCESS, s2) \<and>
     used_segs s2 \<le> TOTAL_OOB_SEG \<and> live s2 5 = live shipped_dev 5 + 1"
proof -
  have t: "NVRAM_OOB_TABLE shipped_dev = replicate 1024 \<lparr>alloc_seg = 0, free_entry = 0, invalid_entry = 0\<rparr>"
    "stat_total_alloc_seg (nstat shipped_dev) = 0"
    using shipped_dev_blank(2) by (simp_all add: blank_dev_def Let_def shipped_dev_params)
  have u: "USE_REMAP shipped_dev 5 = Some (SUCCESS, shipped_dev)"
    using use_remap_loop.simps(2) [of 1024 5 "(0, 1)" shipped_dev] by (simp add: USE_REMAP_def shipped_dev_params t cmem cint)
  have "used_segs shipped_dev \<le> TOTAL_OOB_SEG" by (simp add: used_segs_def t sum_list_replicate)
  then show ?thesis using remap_never_overcommits [OF shipped_dev_inv(2) _ _ _ _ u] u by (auto simp: shipped_dev_params shipped_dev_room)
qed

text \<open>
  C29: a compaction of the NVRAM picks a superblock with the most invalid entries and drops exactly
  those: no valid entry of any superblock is lost, and only that superblock changes. It fails only
  when there is no invalid entry at all.
\<close>

theorem nvram_compaction_keeps_valid_entries:
  assumes "dev_ok s" "room 1 0 0 s"
  shows "\<exists>r s'. NVRAM_OOB_GC s = Some (r, s') \<and> nv_inv s' \<and> (\<forall>b. 0 \<le> b \<longrightarrow> live s' b = live s b) \<and>
    (if r = FAIL then s' = s \<and> (\<forall>b. 0 \<le> b \<longrightarrow> b < BLOCK_NB (ssdparams s) \<longrightarrow> invalid_entry (NVRAM_OOB_TABLE s ! nat b) = 0)
     else \<exists>v. 0 \<le> v \<and> v < BLOCK_NB (ssdparams s) \<and> invalid_entry (NVRAM_OOB_TABLE s' ! nat v) = 0 \<and>
       (\<forall>b. 0 \<le> b \<longrightarrow> b < BLOCK_NB (ssdparams s) \<longrightarrow> invalid_entry (NVRAM_OOB_TABLE s ! nat b) \<le> invalid_entry (NVRAM_OOB_TABLE s ! nat v)) \<and>
       (\<forall>b. 0 \<le> b \<longrightarrow> b \<noteq> v \<longrightarrow> NVRAM_OOB_TABLE s' ! nat b = NVRAM_OOB_TABLE s ! nat b))"
proof -
  obtain A where d: "dev_inv s A" using assms(1) by (auto simp: dev_ok_def)
  have "room (Suc 0) 0 0 s" using assms(2) by simp
  from NVRAM_OOB_GC_ok [OF dev_invD(10,2) [OF d] this] obtain r s' where
    g: "NVRAM_OOB_GC s = Some (r, s')" "nv_inv s'" "\<forall>c. 0 \<le> c \<longrightarrow> live s' c = live s c"
      "if r = FAIL then s' = s \<and> (\<forall>b. 0 \<le> b \<longrightarrow> b < block_nb_of s \<longrightarrow> invalid_entry (NVRAM_OOB_TABLE s ! nat b) = 0)
       else r = SUCCESS \<and> (\<exists>v. 0 \<le> v \<and> v < block_nb_of s \<and>
          (\<forall>b. 0 \<le> b \<longrightarrow> b < block_nb_of s \<longrightarrow> invalid_entry (NVRAM_OOB_TABLE s ! nat b) \<le> invalid_entry (NVRAM_OOB_TABLE s ! nat v)) \<and>
          0 < invalid_entry (NVRAM_OOB_TABLE s ! nat v) \<and> invalid_entry (NVRAM_OOB_TABLE s' ! nat v) = 0 \<and>
          (\<forall>b. 0 \<le> b \<longrightarrow> b \<noteq> v \<longrightarrow> NVRAM_OOB_TABLE s' ! nat b = NVRAM_OOB_TABLE s ! nat b))" by blast
  show ?thesis
    using g by (intro exI [of _ r] exI [of _ s'] conjI) (simp_all split: if_splits, blast)
qed

theorem nvram_compaction_keeps_valid_entries_witness:
  "\<exists>r s'. NVRAM_OOB_GC written_dev = Some (r, s') \<and> nv_inv s' \<and> (\<forall>b. 0 \<le> b \<longrightarrow> live s' b = live written_dev b)"
  using nvram_compaction_keeps_valid_entries [OF roomyD(1) [OF written_dev(2)] roomyD(5) [OF written_dev(2), of 1 0 0]] by auto


text \<open>
  The floating-point comparison that decides whether a compaction is worth while is the exact
  test whether at most five per cent of the entries are invalid.
\<close>

theorem five_percent_test_exact:
  assumes "0 \<le> bad" "0 \<le> tot" "bad < 2 ^ 52" "tot < 2 ^ 52"
  shows "ratio_le_thre (bad, tot) \<longleftrightarrow> 20 * bad \<le> tot"
  using ratio_le_thre_exact [OF assms] .

theorem five_percent_test_exact_witness: "ratio_le_thre (1, 20) \<and> \<not> ratio_le_thre (1, 19)"
  using five_percent_test_exact [of 1 20] five_percent_test_exact [of 1 19] by simp

text \<open>
  Accesses to the NVRAM of a superblock are served one after the other: an access starts when
  it is issued or when the one before it ends, whichever is later, and the caller is told how long
  it takes until the end; other superblocks do not wait.
\<close>

theorem nvram_accesses_queue:
  fixes s :: ssdstate and b need :: int
  defines "now \<equiv> fst (read_clock REALTIME_NS s)" and "avail \<equiv> nvram_next_avail_time (devtime s) ! nat b"
  assumes "dev_ok s" "0 \<le> b" "b < BLOCK_NB (ssdparams s)"
  shows "\<exists>s'. UPDATE_NVRAM_TS s b need = Some (max now avail + need - now, s') \<and> same_but_time s s' \<and>
    nvram_next_avail_time (devtime s') = (nvram_next_avail_time (devtime s))[nat b := max now avail + need]"
proof -
  obtain A where d: "dev_inv s A" using assms(3) by (auto simp: dev_ok_def)
  have "same_but_time s (upd_devtime f (snd (read_clock REALTIME_NS s)))" for f
    by (rule same_but_time_trans [OF read_clock_same [where src = REALTIME_NS]]) simp
  then show ?thesis
    using UPDATE_NVRAM_TS_eq [OF dev_invD(2) [OF d] assms(4,5), of need] unfolding nvram_line.reserve_max now_def avail_def
    by (simp add: upd_devtime_def)
qed

theorem nvram_accesses_queue_witness:
  "\<exists>d s'. UPDATE_NVRAM_TS shipped_dev 3 125 = Some (d, s') \<and> same_but_time shipped_dev s' \<and> 125 \<le> d"
  using nvram_accesses_queue [OF shipped_dev_inv(2), of 3 125] by (force simp: shipped_dev_params)

text \<open>
  Programming a page first occupies the channel for the transfer and then the chip for the
  program operation, each as soon as it is free; the delay returned is the time until the chip is
  done, so it is never less than the transfer and the program operation together.
\<close>

theorem page_program_timing:
  fixes s :: ssdstate and f b p :: int
  defines "c \<equiv> ssdparams s" and "now \<equiv> fst (read_clock REALTIME_NS s)"
  defines "ch \<equiv> max now (chnl_next_avail_time (devtime s) ! nat (f mod CHANNEL_NB c)) + REG_WRITE_DELAY c"
  defines "t \<equiv> max ch (chip_next_avail_time (devtime s) ! nat f) + CELL_PROGRAM_DELAY c"
  assumes "time_inv s" "0 \<le> f" "f < FLASH_NB c"
  shows "\<exists>s'. SSD_PAGE_WRITE s f b p = Some (t - now, s') \<and> same_but_time s s' \<and> time_inv s' \<and>
    chip_next_avail_time (devtime s') = (chip_next_avail_time (devtime s))[nat f := t] \<and>
    chnl_next_avail_time (devtime s') = (chnl_next_avail_time (devtime s))[nat (f mod CHANNEL_NB c) := ch] \<and>
    REG_WRITE_DELAY c + CELL_PROGRAM_DELAY c \<le> t - now"
  using SSD_PAGE_WRITE_eq [OF assms(5,6) assms(7) [unfolded c_def], of b p] unfolding c_def now_def ch_def t_def .

theorem page_program_timing_witness:
  "\<exists>d s'. SSD_PAGE_WRITE shipped_dev 3 7 0 = Some (d, s') \<and> same_but_time shipped_dev s' \<and> 840000 \<le> d"
  using page_program_timing [OF dev_invD(2) [OF shipped_dev_inv(1)], of 3 7 0] by (force simp: shipped_dev_params)

section \<open>Tables and address arithmetic\<close>

text \<open>
  C30: splitting a physical page number with \<open>CALC_FLASH\<close>, \<open>CALC_BLOCK\<close>, \<open>CALC_PAGE\<close> and computing
  the address again is the identity on the pages of the device.
\<close>

theorem address_round_trip:
  assumes "wf_conf (ssdparams s)" "0 \<le> ppn" "ppn < PAGE_MAPPING_ENTRY_NB (ssdparams s)"
  shows "phys_addr s (CALC_FLASH s ppn) (CALC_BLOCK s ppn) (CALC_PAGE s ppn) = ppn"
  using calc_compose(2) [OF assms] .

theorem address_round_trip_witness:
  "phys_addr shipped_dev (CALC_FLASH shipped_dev 3700000) (CALC_BLOCK shipped_dev 3700000) (CALC_PAGE shipped_dev 3700000) = 3700000"
  using address_round_trip [OF dev_invD(8) [OF shipped_dev_inv(1)], of 3700000] by (simp add: shipped_dev_params)

text \<open>
  C31: the loop over a request ends and visits exactly the logical pages that the sectors touch, each
  once and in order, also when the request starts or ends inside a page.
\<close>

theorem page_loop_visits_each_page:
  assumes "wf_conf c" "SECTORS_PER_PAGE c < 2 ^ 32" "0 \<le> sector" "0 \<le> len" "len < 2 ^ 32"
  shows "for_pages c (\<lambda>lba l r i ps. Some (Inr (ps @ [lba sdiv SECTORS_PER_PAGE c])) :: (unit + int list) option) sector len []
    = Some (Inr (map (\<lambda>i. sector div SECTORS_PER_PAGE c + i) (cupto (req_pages c sector len))))"
proof -
  let ?f = "sector div SECTORS_PER_PAGE c"
  have sdiv_ok: "lba sdiv SECTORS_PER_PAGE c = lba div SECTORS_PER_PAGE c" if "0 \<le> lba" for lba
    using that wf_confD(5) [OF assms(1)] by (simp add: sdiv_nonneg)
  let ?body = "\<lambda>lba l r i ps. Some (Inr (ps @ [lba sdiv SECTORS_PER_PAGE c])) :: (unit + int list) option"
  have "\<exists>x. for_pages c ?body sector len [] = Some x \<and>
      (case x of Inl y \<Rightarrow> False | Inr ps \<Rightarrow> ps = map (\<lambda>i. ?f + i) (cupto (req_pages c sector len)))"
    by (rule for_pages_rule [OF assms, where Q = "\<lambda>j ps. ps = map (\<lambda>i. ?f + i) (cupto j)"])
      (simp_all add: cupto_Suc sdiv_ok, simp add: cupto_def)
  then obtain x where "for_pages c ?body sector len [] = Some x"
    "case x of Inl y \<Rightarrow> False | Inr ps \<Rightarrow> ps = map (\<lambda>i. ?f + i) (cupto (req_pages c sector len))" by blast
  then show ?thesis by (cases x) simp_all
qed

theorem page_loop_visits_each_page_witness:
  "for_pages (ssdparams shipped_dev) (\<lambda>lba l r i ps. Some (Inr (ps @ [lba sdiv 8])) :: (unit + int list) option) 12 8 []
    = Some (Inr [1, 2])"
  using page_loop_visits_each_page [OF dev_invD(8) [OF shipped_dev_inv(1)], of 12 8]
  by (simp add: shipped_dev_params req_pages_def page_count_def cupto_def upt_rec)


lemma shipped_dev_blk: "blk_inv shipped_dev" "link_inv shipped_dev"
  using dev_okE [OF shipped_dev_inv(2)] by blast+

text \<open>
  Adding a logical page to the chain of a physical page and removing it again restores the
  inverse table.
\<close>

theorem inverse_entry_round_trip:
  assumes "link_inv s" "0 \<le> p" "p < PAGE_MAPPING_ENTRY_NB (ssdparams s)" "length (chain s p) < 127" "l \<notin> set (chain s p)"
  shows "\<exists>s1 s2. INCREASE_INVERSE_MAPPING s p l = Some (SUCCESS, s1) \<and> l \<in> set (chain s1 p) \<and>
    DECREASE_INVERSE_MAPPING s1 p l = Some (SUCCESS, s2) \<and> inverse_mapping_table s2 = inverse_mapping_table s"
proof -
  let ?s1 = "set_chain s p (chain s p @ [l])"
  have same_count: "e\<lparr>lpn_cnt := x\<rparr> = e" if "lpn_cnt e = x" for e :: inverse_mapping_entry and x using that by (cases e) simp
  have i: "link_inv ?s1" "chain ?s1 p = chain s p @ [l]"
    using link_inv_set_chain [OF assms(1)] chain_set_chain [OF assms(1-3,2)] assms(4) by simp_all
  have "DECREASE_INVERSE_MAPPING ?s1 p l = Some (SUCCESS, set_chain ?s1 p (remove1 l (chain ?s1 p)))"
    using assms(2,3) i(2) by (intro DECREASE_INVERSE_MAPPING_ok [OF i(1)]) simp_all
  moreover have "remove1 l (chain ?s1 p) = chain s p" using assms(5) i(2) by (simp add: remove1_append)
  moreover have "inverse_mapping_table (set_chain ?s1 p (chain s p)) = inverse_mapping_table s"
    using link_inv_entry(2,3) [OF assms(1-3)] by (simp add: set_chain_def chain_def same_count)
  ultimately show ?thesis using INCREASE_INVERSE_MAPPING_ok [OF assms(1-4), of l] i(2) by auto
qed

theorem inverse_entry_round_trip_witness:
  "\<exists>s1 s2. INCREASE_INVERSE_MAPPING shipped_dev 9 4 = Some (SUCCESS, s1) \<and> 4 \<in> set (chain s1 9) \<and>
     DECREASE_INVERSE_MAPPING s1 9 4 = Some (SUCCESS, s2) \<and> inverse_mapping_table s2 = inverse_mapping_table shipped_dev"
  using inverse_entry_round_trip [OF shipped_dev_blk(2), of 9 4] blank_tables(2) [OF shipped_dev_blank(2), of 9]
  by (simp add: shipped_dev_params)

text \<open>
  Removing a logical page from a non-empty chain that does not have it does not report
  \<open>FAIL\<close>: the search runs off the end of the chain and the code dereferences a null node.
\<close>

theorem removing_an_absent_entry_faults:
  assumes "link_inv s" "0 \<le> p" "p < PAGE_MAPPING_ENTRY_NB (ssdparams s)" "chain s p \<noteq> []" "l \<notin> set (chain s p)"
  shows "DECREASE_INVERSE_MAPPING s p l = None"
  using DECREASE_INVERSE_MAPPING_absent [OF assms] .

lemma shipped_chain:
  assumes "length xs \<le> 127"
  shows "link_inv (set_chain shipped_dev 9 xs)" "chain (set_chain shipped_dev 9 xs) 9 = xs"
  using link_inv_set_chain [OF shipped_dev_blk(2) assms] chain_set_chain [OF shipped_dev_blk(2), of 9 9] by (simp_all add: shipped_dev_params)

theorem removing_an_absent_entry_faults_witness: "DECREASE_INVERSE_MAPPING (set_chain shipped_dev 9 [4, 5]) 9 6 = None"
  using removing_an_absent_entry_faults [OF shipped_chain(1), of "[4, 5]" 9 6] shipped_chain(2) [of "[4, 5]"]
  by (simp add: shipped_dev_params)

text \<open>
  C32: a physical page can have at most 127 logical pages: adding one more succeeds, but the 8-bit
  counter of its 128 nodes wraps round to \<open>-128\<close>.
\<close>

theorem reference_counter_wraps:
  assumes "link_inv s" "0 \<le> p" "p < PAGE_MAPPING_ENTRY_NB (ssdparams s)" "length (chain s p) = 127"
  shows "\<exists>s'. INCREASE_INVERSE_MAPPING s p l = Some (SUCCESS, s') \<and> length (lpns (inverse_mapping_table s' ! nat p)) = 128 \<and>
    lpn_cnt (inverse_mapping_table s' ! nat p) = - 128"
proof -
  note e = link_inv_entry [OF assms(1-3)]
  have "lpns (inverse_mapping_table s ! nat p) \<noteq> []" "length (lpns (inverse_mapping_table s ! nat p)) = 127"
    using assms(4) by (auto simp: chain_def)
  then show ?thesis using e assms(2,4) by (simp add: INCREASE_INVERSE_MAPPING_def cmem s8_def)
qed

theorem reference_counter_wraps_witness:
  "\<exists>s'. INCREASE_INVERSE_MAPPING (set_chain shipped_dev 9 (replicate 127 4)) 9 5 = Some (SUCCESS, s') \<and>
     lpn_cnt (inverse_mapping_table s' ! 9) = - 128"
proof -
  have l: "length (replicate 127 (4 :: int)) = 127" by simp
  show ?thesis
    using reference_counter_wraps [OF shipped_chain(1), of "replicate 127 4" 9 5] shipped_chain(2) [of "replicate 127 4"] l
    by (auto simp: shipped_dev_params)
qed


section \<open>The Bloom filters\<close>

text \<open>
  C33: a call of \<open>Bloom_filter\<close> between two decays counts: it succeeds, classifies the word by the weight
  of the filters that hold it, adds the word to exactly one further filter until all four hold it,
  and no word is forgotten.
\<close>

theorem bloom_counts_accesses:
  assumes "bf_ok s" "data_buffer_counter s mod DACAY \<noteq> 1"
  shows "\<exists>t s'. Bloom_filter s ino off = Some (t, s') \<and> bf_ok s' \<and> (t = HOT \<longleftrightarrow> 3 \<le> hot_weight s (word_of ino off)) \<and>
    hits s' (word_of ino off) = min 4 (hits s (word_of ino off) + 1) \<and> (\<forall>g. hits s g \<le> hits s' g)"
proof -
  from Bloom_filter_ok [OF assms(1) _ assms(1), of ino off] assms(2) obtain fs where
    "Bloom_filter s ino off = Some (if 3 \<le> hot_weight s (word_of ino off) then HOT else COLD,
      s\<lparr>bf_filter := fs, current_filter := next_filter_of (current_filter s)\<rparr>)"
    "bf_ok (s\<lparr>bf_filter := fs, current_filter := next_filter_of (current_filter s)\<rparr>)"
    "hits (s\<lparr>bf_filter := fs\<rparr>) (word_of ino off) = min 4 (hits s (word_of ino off) + 1)"
    "\<forall>g. hits s g \<le> hits (s\<lparr>bf_filter := fs\<rparr>) g" by auto
  moreover have "hits (s\<lparr>bf_filter := fs, current_filter := c\<rparr>) g = hits (s\<lparr>bf_filter := fs\<rparr>) g" for c g
    by (simp add: hits_def)
  ultimately show ?thesis by auto
qed

theorem bloom_counts_accesses_witness:
  "\<exists>t s'. Bloom_filter init_filters 12 4096 = Some (t, s') \<and> hits s' (word_of 12 4096) = min 4 (hits init_filters (word_of 12 4096) + 1)"
  using bloom_counts_accesses [OF init_filters_ok, of 12 4096] by (auto simp: init_filters_def)

text \<open>
  The counter that starts a decay is never advanced by the code, so the weights keep their initial
  value 0 and no sequence of calls after the start of the device ever classifies a page as hot.
\<close>

theorem bloom_never_hot:
  "\<exists>s. bloom_run init_filters xs = Some (replicate (length xs) COLD, s) \<and> bf_ok s"
  by (rule bloom_run_cold [OF init_filters_ok]) (simp_all add: init_filters_def)

text \<open>
  The hash of an offset is injective: \<open>MURMURHash\<close> maps different 32-bit values, written as four bytes,
  to different 32-bit hashes.
\<close>

theorem murmur_injective:
  "MURMURHash (int_to_char v) = MURMURHash (int_to_char w) \<longleftrightarrow> v = w"
  by (simp add: MURMURHash_word ROT32_eq)

section \<open>Configuration and bookkeeping\<close>

text \<open>
  The configuration file of the repository is read to the end and gives a device of 5242880
  pages of eight sectors, on eight chips of 1024 blocks of 640 pages, that starts collecting below
  819 empty blocks.
\<close>

theorem shipped_configuration:
  "parse_conf shipped_conf (zero_conf\<lparr>sos := 24, max_page := 0\<rparr>) = Some shipped_params \<and>
   (\<exists>c. derive_conf shipped_params = Some c \<and> PAGE_MAPPING_ENTRY_NB c = 5242880 \<and> SECTORS_PER_PAGE c = 8 \<and>
     SECTOR_NB c = 8 * PAGE_MAPPING_ENTRY_NB c \<and> FLASH_NB c = 8 \<and> BLOCK_NB c = 1024 \<and> PAGE_NB c = 640 \<and>
     GC_THRESHOLD_BLOCK_NB c = 819)"
proof -
  obtain c where c: "derive_conf shipped_params = Some c"
    "GC_THRESHOLD_BLOCK_NB c = (FLASH_NB shipped_params * BLOCK_NB shipped_params - 1) div 10"
    using derive_conf_ok [OF shipped_params_ok] by blast
  then show ?thesis using parse_shipped shipped_conf_derived [OF c(1)] by (simp add: shipped_params_def)
qed

text \<open>
  The collection thresholds, which the code computes in floating point as \<open>(1 - 0.9)\<close> and
  \<open>(1 - 0.95)\<close> times the number of blocks, are \<open>(n - 1) div 10\<close> and \<open>n div 20\<close>: the first is one
  less than a tenth when the number of blocks is a multiple of ten.
\<close>

theorem gc_thresholds_exact:
  assumes "params_ok c" "derive_conf c = Some c'"
  shows "GC_THRESHOLD_BLOCK_NB c' = (FLASH_NB c * BLOCK_NB c - 1) div 10 \<and>
    GC_THRESHOLD_BLOCK_NB_HARD c' = FLASH_NB c * BLOCK_NB c div 20"
  using derive_conf_ok [OF assms(1)] assms(2) by auto

theorem gc_thresholds_exact_witness:
  "\<exists>c'. derive_conf (shipped_params\<lparr>BLOCK_NB := 1000\<rparr>) = Some c' \<and> GC_THRESHOLD_BLOCK_NB c' = 799 \<and> GC_THRESHOLD_BLOCK_NB_HARD c' = 400"
proof -
  have p: "params_ok (shipped_params\<lparr>BLOCK_NB := 1000\<rparr>)" by (simp add: params_ok_def shipped_params_def zero_conf_def)
  then obtain c' where c: "derive_conf (shipped_params\<lparr>BLOCK_NB := 1000\<rparr>) = Some c'" using derive_conf_ok by blast
  show ?thesis using gc_thresholds_exact [OF p c] c by (simp add: shipped_params_def)
qed

text \<open>
  A supported geometry gives a well-formed configuration: the derived sizes agree with each
  other, physical page numbers fit into 31 bits, and the address arithmetic and the superblock
  lists get the sizes they rely on.
\<close>

theorem supported_geometry_is_well_formed:
  assumes "params_ok c"
  shows "\<exists>c'. derive_conf c = Some c' \<and> sb_conf c' \<and> 0 < PAGE_MAPPING_ENTRY_NB c' \<and> PAGE_MAPPING_ENTRY_NB c' < 2 ^ 31 \<and>
    PAGE_MAPPING_ENTRY_NB c' = FLASH_NB c * PAGES_PER_FLASH c' \<and> PAGES_PER_FLASH c' = BLOCK_NB c * PAGE_NB c \<and>
    SECTOR_NB c' = SECTORS_PER_PAGE c' * PAGE_MAPPING_ENTRY_NB c'"
proof -
  obtain c' where c: "derive_conf c = Some c'" "sb_conf c'" "FLASH_NB c' = FLASH_NB c" "BLOCK_NB c' = BLOCK_NB c" "PAGE_NB c' = PAGE_NB c"
    using derive_conf_ok [OF assms] by blast
  note w = wf_confD [OF sb_confD(1) [OF c(2)]]
  have "PAGES_PER_FLASH c' = BLOCK_NB c * PAGE_NB c" "SECTOR_NB c' = SECTORS_PER_PAGE c' * PAGE_MAPPING_ENTRY_NB c'"
    using c(1) by (auto simp: derive_conf_def Let_def split: if_splits)
  then show ?thesis using c w by (auto simp: mult.assoc)
qed

theorem supported_geometry_is_well_formed_witness:
  "\<exists>c'. derive_conf shipped_params = Some c' \<and> sb_conf c' \<and> SECTOR_NB c' = SECTORS_PER_PAGE c' * PAGE_MAPPING_ENTRY_NB c'"
  using supported_geometry_is_well_formed [OF shipped_params_ok] by blast

text \<open>
  Every read and write appends a request to the list of open requests and nothing takes it out
  again, so the list grows by one with each of them.
\<close>

theorem request_list_grows:
  assumes "dev_ok s" "cmd_ready s c" "perf_ok (perf s)" "(\<exists>len sector. c = Read len sector) \<or> (\<exists>req. c = Write req)"
  shows "\<exists>r s'. exec s c = Some (r, s') \<and> perf_ok (perf s') \<and> length (io_requests (perf s')) = length (io_requests (perf s)) + 1"
proof -
  obtain A where d: "dev_inv s A" using assms(1) by (auto simp: dev_ok_def)
  show ?thesis
  proof (cases c)
    case (Read len sector)
    then show ?thesis using FTL_READ_ok [OF d, of sector len] assms(2,3) by (auto simp: SSD_READ_def perf_grown_def)
  next
    case (Write req)
    then have w: "req_ok (ssdparams s) req" "write_ready 0 0 0 0 s A req"
      using assms(2) stat_ppn_free_slots [OF d] by (simp_all add: write_ready_def Let_def)
    from FTL_WRITE_body_ok [OF d w] obtain tt s' where "FTL_WRITE_body s req = Some (tt, s')" "perf_grown (perf s) (perf s')" by blast
    then show ?thesis using Write assms(3) by (auto simp: SSD_WRITE_def FTL_WRITE_def perf_grown_def)
  qed (use assms(4) in auto)
qed

theorem request_list_grows_witness:
  "\<exists>r s'. exec shipped_dev (Write first_write) = Some (r, s') \<and> length (io_requests (perf s')) = 1"
  using request_list_grows [OF shipped_dev_inv(2) first_write_ready(1) shipped_dev_blank(4)] shipped_dev_blank(5) by auto

text \<open>
  A write of at least one page takes at least the shorter of an NVRAM entry and a page program,
  and \<open>SSD_WRITE\<close> reports the delay truncated to 32 bits.
\<close>

theorem write_latency:
  assumes "dev_ok s" "cmd_ready s (Write req)" "0 < pages_in (ssdparams s) req"
  shows "\<exists>tt s'. FTL_WRITE_body s req = Some (tt, s') \<and> SSD_WRITE s req = Some (s32 tt, s') \<and>
    min (NVRAM_WRITE_DELAY div 4) (REG_WRITE_DELAY (ssdparams s) + CELL_PROGRAM_DELAY (ssdparams s)) \<le> tt"
proof -
  obtain A where d: "dev_inv s A" using assms(1) by (auto simp: dev_ok_def)
  have w: "req_ok (ssdparams s) req" "write_ready 0 0 0 0 s A req"
    using assms(2) stat_ppn_free_slots [OF d] by (simp_all add: write_ready_def Let_def)
  from FTL_WRITE_body_ok [OF d w] obtain tt s' where
    "FTL_WRITE_body s req = Some (tt, s')" "min (NVRAM_WRITE_DELAY div 4) (program_delay (ssdparams s)) \<le> tt" using assms(3) by blast
  then show ?thesis by (auto simp: SSD_WRITE_def FTL_WRITE_def program_delay_def)
qed

theorem write_latency_witness:
  "\<exists>tt s'. FTL_WRITE_body shipped_dev first_write = Some (tt, s') \<and> 125 \<le> tt"
  using write_latency [OF shipped_dev_inv(2) first_write_ready(1)] by (auto simp: first_write_ready(2) shipped_dev_params)

end
